(* ===== verification/Prelude.thy ===== *)
theory Prelude
  imports Complex_Main
begin

text \<open>
  Shared vocabulary of the ForgeX development: the dynamically typed values that the Python
  code passes in mappings, its truthiness and integer conversions, strings, and the generic
  lemmas about maps, sums and rationals that the component theories share.

  Conventions used by every theory:
  \<^item> A Python exception is the left summand of a sum; each component has its own error type.
  \<^item> A clock is a rational number of seconds (or, where the code uses \<^verbatim>\<open>datetime\<close>, an
    integer number of microseconds); floating point rounding is not modelled.
  \<^item> An SQLite table is a finite map from its primary key to a record of its other columns; a
    transaction that raises leaves the table unchanged.
  \<^item> Fresh identifiers (\<^verbatim>\<open>uuid4\<close>), clock readings and random samples are arguments.
\<close>

named_theorems sum_case_simps \<open>elimination of case distinctions on results\<close>

section \<open>Python values\<close>

datatype pyfloat = Fin rat | PosInf | NegInf | NaN

datatype pyval =
    VNone
  | VBool bool
  | VInt int
  | VFloat pyfloat
  | VStr string
  | VList "pyval list"
  | VDict "(string \<times> pyval) list"

fun py_true :: "pyval \<Rightarrow> bool" where
  "py_true VNone = False"
| "py_true (VBool b) = b"
| "py_true (VInt n) = (n \<noteq> 0)"
| "py_true (VFloat (Fin q)) = (q \<noteq> 0)"
| "py_true (VFloat _) = True"
| "py_true (VStr s) = (s \<noteq> [])"
| "py_true (VList vs) = (vs \<noteq> [])"
| "py_true (VDict kvs) = (kvs \<noteq> [])"

text \<open>A dictionary built from a sequence of items keeps the last value of a repeated key.\<close>

definition dict_of :: "(string \<times> 'v) list \<Rightarrow> string \<rightharpoonup> 'v" where
  "dict_of kvs = map_of (rev kvs)"

text \<open>The \<^verbatim>\<open>.get(key)\<close> of a mapping: the value, or \<^verbatim>\<open>None\<close>.\<close>

definition py_get :: "(string \<rightharpoonup> pyval) \<Rightarrow> string \<Rightarrow> pyval" where
  "py_get d k = (case d k of None \<Rightarrow> VNone | Some v \<Rightarrow> v)"

definition py_str_in :: "pyval \<Rightarrow> string set \<Rightarrow> bool" where
  "py_str_in v names = (case v of VStr s \<Rightarrow> s \<in> names | _ \<Rightarrow> False)"

text \<open>Truthiness of an optional string column: \<^verbatim>\<open>None\<close> and the empty string are false.\<close>

definition py_true_opt :: "string option \<Rightarrow> bool" where
  "py_true_opt s = (case s of None \<Rightarrow> False | Some t \<Rightarrow> t \<noteq> [])"

text \<open>
  The encoders the persistence code relies on: \<^verbatim>\<open>hashlib.sha256(..).hexdigest()\<close> of a text and
  the \<^verbatim>\<open>json.dumps(.., sort_keys=True)\<close> of a value, with compact or with default separators, and the
  \<^verbatim>\<open>str(..)\<close> of a value that is not a string. They are arguments; where a property
  needs one of them to separate two inputs, it says so.
\<close>

record codec =
  sha256 :: "string \<Rightarrow> string"
  json_text :: "pyval \<Rightarrow> string"
  json_spaced :: "pyval \<Rightarrow> string"
  json_dict :: "(string \<rightharpoonup> pyval) \<Rightarrow> string"
  py_text :: "pyval \<Rightarrow> string"

definition py_str :: "codec \<Rightarrow> pyval \<Rightarrow> string" where
  "py_str cd v = (case v of VStr s \<Rightarrow> s | _ \<Rightarrow> py_text cd v)"

text \<open>\<^verbatim>\<open>v or default\<close> of an optional text, and Python's equality with an integer or a text column.\<close>

definition py_or_str :: "codec \<Rightarrow> pyval \<Rightarrow> string \<Rightarrow> string" where
  "py_or_str cd v alt = (if py_true v then py_str cd v else alt)"

definition py_eq_int :: "pyval \<Rightarrow> int \<Rightarrow> bool" where
  "py_eq_int v n = (case v of VInt m \<Rightarrow> m = n | VBool b \<Rightarrow> n = (if b then 1 else 0)
     | VFloat (Fin q) \<Rightarrow> q = of_int n | _ \<Rightarrow> False)"

definition py_eq_opt :: "pyval \<Rightarrow> string option \<Rightarrow> bool" where
  "py_eq_opt v s = (case v of VNone \<Rightarrow> s = None | VStr t \<Rightarrow> s = Some t | _ \<Rightarrow> False)"

section \<open>Strings\<close>

definition lower_char :: "char \<Rightarrow> char" where
  "lower_char c = (let n = of_char c :: nat in if 65 \<le> n \<and> n \<le> 90 then char_of (n + 32) else c)"

definition py_lower :: "string \<Rightarrow> string" where
  "py_lower s = map lower_char s"

definition is_space :: "char \<Rightarrow> bool" where
  "is_space c = (let n = of_char c :: nat in n = 32 \<or> (9 \<le> n \<and> n \<le> 13) \<or> (28 \<le> n \<and> n \<le> 31))"

definition py_lstrip :: "string \<Rightarrow> string" where
  "py_lstrip s = dropWhile is_space s"

definition py_strip :: "string \<Rightarrow> string" where
  "py_strip s = rev (py_lstrip (rev (py_lstrip s)))"

definition starts_with :: "string \<Rightarrow> string \<Rightarrow> bool" where
  "starts_with s p = (take (length p) s = p)"

fun contains_sub :: "string \<Rightarrow> string \<Rightarrow> bool" where
  "contains_sub [] p = (p = [])"
| "contains_sub (c # cs) p = (starts_with (c # cs) p \<or> contains_sub cs p)"

text \<open>\<^verbatim>\<open>" ".join(s.split())\<close>\<close>

fun words_from :: "string \<Rightarrow> string \<Rightarrow> string list" where
  "words_from w [] = (if w = [] then [] else [rev w])"
| "words_from w (c # cs) =
     (if is_space c then (if w = [] then words_from [] cs else rev w # words_from [] cs)
      else words_from (c # w) cs)"

fun join_words :: "string list \<Rightarrow> string" where
  "join_words [] = []"
| "join_words [w] = w"
| "join_words (w # ws) = w @ '' '' @ join_words ws"

definition squeeze :: "string \<Rightarrow> string" where
  "squeeze s = join_words (words_from [] s)"

section \<open>Numbers\<close>

text \<open>\<^verbatim>\<open>int(x)\<close> truncates towards zero.\<close>

definition py_int :: "rat \<Rightarrow> int" where
  "py_int q = (if 0 \<le> q then \<lfloor>q\<rfloor> else \<lceil>q\<rceil>)"

lemma py_int_nonneg [simp]: "0 \<le> q \<Longrightarrow> 0 \<le> py_int q"
  by (simp add: py_int_def)

lemma py_int_mono: "0 \<le> p \<Longrightarrow> p \<le> q \<Longrightarrow> py_int p \<le> py_int q"
  by (simp add: py_int_def floor_mono)

lemma py_int_bounds: "0 \<le> q \<Longrightarrow> of_int (py_int q) \<le> q \<and> q < of_int (py_int q) + 1"
  by (simp add: py_int_def) linarith

definition clamp :: "int \<Rightarrow> int \<Rightarrow> int \<Rightarrow> int" where
  "clamp lo hi x = max lo (min x hi)"

lemma clamp_ge [simp]: "lo \<le> clamp lo hi x"
  by (simp add: clamp_def)

lemma clamp_le [simp]: "lo \<le> hi \<Longrightarrow> clamp lo hi x \<le> hi"
  by (simp add: clamp_def)

lemma clamp_id: "lo \<le> x \<Longrightarrow> x \<le> hi \<Longrightarrow> clamp lo hi x = x"
  by (simp add: clamp_def)

section \<open>Results\<close>

definition is_ok :: "'e + 'a \<Rightarrow> bool" where
  "is_ok r = (case r of Inl _ \<Rightarrow> False | Inr _ \<Rightarrow> True)"

definition bind_result :: "'e + 'a \<Rightarrow> ('a \<Rightarrow> 'e + 'b) \<Rightarrow> 'e + 'b" where
  "bind_result r f = (case r of Inl e \<Rightarrow> Inl e | Inr x \<Rightarrow> f x)"

lemma is_ok_simps [simp]: "\<not> is_ok (Inl e)" "is_ok (Inr x)"
  by (simp_all add: is_ok_def)

lemma bind_result_simps [simp]: "bind_result (Inl e) f = Inl e" "bind_result (Inr x) f = f x"
  by (simp_all add: bind_result_def)

lemma bind_result_Inr [sum_case_simps]:
  "bind_result r f = Inr y \<longleftrightarrow> (\<exists>x. r = Inr x \<and> f x = Inr y)"
  by (cases r) auto

lemma bind_result_Inl [sum_case_simps]:
  "bind_result r f = Inl e \<longleftrightarrow> r = Inl e \<or> (\<exists>x. r = Inr x \<and> f x = Inl e)"
  by (cases r) auto

lemma sum_case_Inr [sum_case_simps]:
  "(case r of Inl e \<Rightarrow> Inl e | Inr x \<Rightarrow> f x) = Inr y \<longleftrightarrow> (\<exists>x. r = Inr x \<and> f x = Inr y)"
  by (cases r) auto

section \<open>Lists and maps\<close>

lemma distinct_single_length:
  "distinct xs \<Longrightarrow> (\<And>x y. x \<in> set xs \<Longrightarrow> y \<in> set xs \<Longrightarrow> x = y) \<Longrightarrow> length xs \<le> 1"
  by (metis card_le_Suc0_iff_eq distinct_card finite_set One_nat_def)

lemma py_get_simps [simp]: "py_get (m(k \<mapsto> v)) k = v" "py_get Map.empty k = VNone"
  by (simp_all add: py_get_def)

lemma dict_of_Nil [simp]: "dict_of [] = Map.empty"
  by (simp add: dict_of_def)

lemma dict_of_append: "dict_of (xs @ ys) = dict_of xs ++ dict_of ys"
  by (simp add: dict_of_def)

lemma dict_of_snoc [simp]: "dict_of (xs @ [(k, v)]) = (dict_of xs)(k \<mapsto> v)"
  by (simp add: dict_of_def)

end
