(* ===== verification/Workspace_Lock.thy ===== *)
theory Workspace_Lock
  imports Prelude
begin

text \<open>
  The workspace mutation lock, \<^verbatim>\<open>backend/security/workspace_lock.py\<close>: writers of one workspace are serialized across
  the threads of a process by a reentrant lock per identity, and across processes by \<^verbatim>\<open>flock\<close> on a lock file
  that is never removed.

  An agent is a thread of a process. \<^verbatim>\<open>workspace_lock\<close> is a generator, so every point where it can be preempted, wait,
  raise or hand over to the body of a \<^verbatim>\<open>with\<close> is a phase of the agent, and a step of the system is one step of one
  agent, or the death of a process, which closes its descriptors. Steps carry what the outside decides: the clock, and
  whether an operation on the lock file fails. The operating system keeps for each lock file the descriptor that holds
  it: an agent has at most one descriptor of a lock file open, so the holder is an agent. Forking and symbolic links
  that replace the lock file while it is held are not modelled; the Windows branch differs in the calls only.
\<close>

section \<open>State\<close>

type_synonym agent = "nat \<times> nat"

text \<open>
  \<open>Waiting\<close>, \<open>Opening\<close> and \<open>Polling\<close> carry the identity and the deadline of the call; \<open>Unlocking\<close> and \<open>Closing\<close> are the
  two \<^verbatim>\<open>finally\<close> blocks.
\<close>

datatype lock_phase =
    Running
  | Waiting string rat
  | Opening string rat
  | Polling string rat
  | Unlocking string
  | Closing string

text \<open>
  The open \<^verbatim>\<open>with\<close> blocks of a thread, innermost first: the identity, and whether the call found it in
  \<^verbatim>\<open>_LOCAL.active\<close>.
\<close>

record lock_agent =
  la_phase :: lock_phase
  la_active :: "string set"
  la_frames :: "(string \<times> bool) list"

text \<open>\<open>ws_thread\<close> is \<^verbatim>\<open>_THREAD_LOCKS\<close> of every process: the owner of each reentrant lock and its count.\<close>

record lock_state =
  ws_agents :: "agent \<Rightarrow> lock_agent"
  ws_thread :: "nat \<Rightarrow> string \<Rightarrow> (nat \<times> nat) option"
  ws_os :: "string \<Rightarrow> agent option"

datatype lock_error = Lock_value_error string | Workspace_lock_timeout | Lock_os_error

text \<open>\<open>Unlock ok\<close> and \<open>Close ok\<close> say whether \<^verbatim>\<open>flock(LOCK_UN)\<close> and \<^verbatim>\<open>os.close\<close> return normally.\<close>

datatype lock_event =
    Enter string rat rat
  | Take_thread
  | Thread_timeout rat
  | Open_file
  | Open_error
  | File_error
  | Flock rat
  | Leave
  | Unlock bool
  | Close bool
  | Die

text \<open>\<^verbatim>\<open>Path.resolve\<close> and SHA-256 are arguments of the identity of a workspace.\<close>

record lock_env =
  le_resolve :: "string \<Rightarrow> string"
  le_sha :: "string \<Rightarrow> string"

definition lock_id :: "lock_env \<Rightarrow> string \<Rightarrow> string" where
  "lock_id le workspace = le_sha le (le_resolve le workspace)"

definition idle_agent :: lock_agent where
  "idle_agent = \<lparr>la_phase = Running, la_active = {}, la_frames = []\<rparr>"

definition initial_locks :: lock_state where
  "initial_locks = \<lparr>ws_agents = (\<lambda>a. idle_agent), ws_thread = (\<lambda>p i. None), ws_os = (\<lambda>i. None)\<rparr>"

section \<open>Steps\<close>

text \<open>\<^verbatim>\<open>RLock.acquire\<close> when the lock is free or already owned, and \<^verbatim>\<open>RLock.release\<close>, which raises when it is not owned.\<close>

definition rlock_free :: "agent \<Rightarrow> string \<Rightarrow> lock_state \<Rightarrow> bool" where
  "rlock_free a i s = (case ws_thread s (fst a) i of None \<Rightarrow> True | Some (t, n) \<Rightarrow> t = snd a)"

definition set_rlock :: "nat \<Rightarrow> string \<Rightarrow> (nat \<times> nat) option \<Rightarrow> lock_state \<Rightarrow> lock_state" where
  "set_rlock p i v s = s\<lparr>ws_thread := (ws_thread s)(p := (ws_thread s p)(i := v))\<rparr>"

definition rlock_acquire :: "agent \<Rightarrow> string \<Rightarrow> lock_state \<Rightarrow> lock_state" where
  "rlock_acquire a i s = set_rlock (fst a) i
     (Some (snd a, case ws_thread s (fst a) i of None \<Rightarrow> 1 | Some (t, n) \<Rightarrow> Suc n)) s"

definition rlock_release :: "agent \<Rightarrow> string \<Rightarrow> lock_state \<Rightarrow> lock_state" where
  "rlock_release a i s =
     (case ws_thread s (fst a) i of
        None \<Rightarrow> s
      | Some (t, n) \<Rightarrow> if t \<noteq> snd a then s
                      else set_rlock (fst a) i (if n \<le> 1 then None else Some (t, n - 1)) s)"

definition set_agent :: "agent \<Rightarrow> (lock_agent \<Rightarrow> lock_agent) \<Rightarrow> lock_state \<Rightarrow> lock_state" where
  "set_agent a f s = s\<lparr>ws_agents := (ws_agents s)(a := f (ws_agents s a))\<rparr>"

definition goto_phase :: "agent \<Rightarrow> lock_phase \<Rightarrow> lock_state \<Rightarrow> lock_state" where
  "goto_phase a ph s = set_agent a (la_phase_update (\<lambda>_. ph)) s"

definition set_os :: "string \<Rightarrow> agent option \<Rightarrow> lock_state \<Rightarrow> lock_state" where
  "set_os i v s = s\<lparr>ws_os := (ws_os s)(i := v)\<rparr>"

text \<open>Closing or unlocking a descriptor gives the file lock up if it is the one that holds it.\<close>

definition drop_os :: "agent \<Rightarrow> string \<Rightarrow> lock_state \<Rightarrow> lock_state" where
  "drop_os a i s = (if ws_os s i = Some a then set_os i None s else s)"

text \<open>The error that a step raises in the caller, and the new state.\<close>

type_synonym lock_result = "lock_error option \<times> lock_state"

definition enter_lock :: "lock_env \<Rightarrow> agent \<Rightarrow> string \<Rightarrow> rat \<Rightarrow> rat \<Rightarrow> lock_state \<Rightarrow> lock_result" where
  "enter_lock le a workspace timeout now s =
     (if timeout < 0 then (Some (Lock_value_error ''timeout must be nonnegative''), s)
      else (None, goto_phase a (Waiting (lock_id le workspace) (now + timeout)) s))"

definition thread_taken :: "agent \<Rightarrow> string \<Rightarrow> rat \<Rightarrow> lock_state \<Rightarrow> lock_state" where
  "thread_taken a i deadline s =
     (if i \<in> la_active (ws_agents s a)
      then set_agent a (\<lambda>g. g\<lparr>la_phase := Running, la_frames := (i, True) # la_frames g\<rparr>) (rlock_acquire a i s)
      else goto_phase a (Opening i deadline) (rlock_acquire a i s))"

text \<open>One round of \<^verbatim>\<open>_acquire_os_lock\<close>, and \<^verbatim>\<open>active.add\<close> after it.\<close>

definition flock_round :: "agent \<Rightarrow> string \<Rightarrow> rat \<Rightarrow> rat \<Rightarrow> lock_state \<Rightarrow> lock_result" where
  "flock_round a i deadline now s =
     (if ws_os s i = None
      then (None, set_agent a (\<lambda>g. g\<lparr>la_phase := Running, la_active := insert i (la_active g),
                                     la_frames := (i, False) # la_frames g\<rparr>) (set_os i (Some a) s))
      else if deadline \<le> now then (Some Workspace_lock_timeout, goto_phase a (Closing i) s)
      else (None, s))"

definition leave_block :: "agent \<Rightarrow> string \<Rightarrow> bool \<Rightarrow> (string \<times> bool) list \<Rightarrow> lock_state \<Rightarrow> lock_state" where
  "leave_block a i nested outer s =
     (if nested then rlock_release a i (set_agent a (la_frames_update (\<lambda>_. outer)) s)
      else set_agent a (\<lambda>g. g\<lparr>la_phase := Unlocking i, la_active := la_active g - {i}, la_frames := outer\<rparr>) s)"

definition kill_process :: "nat \<Rightarrow> lock_state \<Rightarrow> lock_state" where
  "kill_process p s =
     \<lparr>ws_agents = (\<lambda>a. if fst a = p then idle_agent else ws_agents s a),
      ws_thread = (ws_thread s)(p := (\<lambda>i. None)),
      ws_os = (\<lambda>i. case ws_os s i of Some a \<Rightarrow> if fst a = p then None else Some a | None \<Rightarrow> None)\<rparr>"

text \<open>
  The steps of an agent. An \<^verbatim>\<open>os.close\<close> that raises has closed the descriptor, but \<^verbatim>\<open>thread_lock.release\<close> after it is
  skipped.
\<close>

fun lock_step :: "lock_env \<Rightarrow> agent \<Rightarrow> lock_event \<Rightarrow> lock_state \<Rightarrow> lock_result option" where
  "lock_step le a ev s =
     (case (la_phase (ws_agents s a), ev) of
        (_, Die) \<Rightarrow> Some (None, kill_process (fst a) s)
      | (Running, Enter workspace timeout now) \<Rightarrow> Some (enter_lock le a workspace timeout now s)
      | (Waiting i deadline, Take_thread) \<Rightarrow>
          if rlock_free a i s then Some (None, thread_taken a i deadline s) else None
      | (Waiting i deadline, Thread_timeout now) \<Rightarrow>
          if now < deadline then None
          else Some (Some Workspace_lock_timeout, goto_phase a Running s)
      | (Opening i deadline, Open_file) \<Rightarrow> Some (None, goto_phase a (Polling i deadline) s)
      | (Opening i deadline, Open_error) \<Rightarrow>
          Some (Some Lock_os_error, rlock_release a i (goto_phase a Running s))
      | (Polling i deadline, File_error) \<Rightarrow> Some (Some Lock_os_error, goto_phase a (Closing i) s)
      | (Polling i deadline, Flock now) \<Rightarrow> Some (flock_round a i deadline now s)
      | (Running, Leave) \<Rightarrow>
          (case la_frames (ws_agents s a) of
             [] \<Rightarrow> None
           | (i, nested) # outer \<Rightarrow> Some (None, leave_block a i nested outer s))
      | (Unlocking i, Unlock True) \<Rightarrow> Some (None, goto_phase a (Closing i) (drop_os a i s))
      | (Unlocking i, Unlock False) \<Rightarrow> Some (Some Lock_os_error, goto_phase a (Closing i) s)
      | (Closing i, Close True) \<Rightarrow>
          Some (None, rlock_release a i (goto_phase a Running (drop_os a i s)))
      | (Closing i, Close False) \<Rightarrow> Some (Some Lock_os_error, goto_phase a Running (drop_os a i s))
      | _ \<Rightarrow> None)"

text \<open>Runs of the system: any agents, any interleaving of their steps.\<close>

inductive lock_run :: "lock_env \<Rightarrow> (agent \<times> lock_event) list \<Rightarrow> lock_state \<Rightarrow> bool" for le where
  start: "lock_run le [] initial_locks"
| step: "lock_run le evs s \<Longrightarrow> lock_step le a ev s = Some (err, s') \<Longrightarrow> lock_run le (evs @ [(a, ev)]) s'"

fun lock_exec :: "lock_env \<Rightarrow> (agent \<times> lock_event) list \<Rightarrow> lock_state \<Rightarrow> lock_state option" where
  "lock_exec le [] s = Some s"
| "lock_exec le ((a, ev) # evs) s =
     (case lock_step le a ev s of None \<Rightarrow> None | Some (_, s') \<Rightarrow> lock_exec le evs s')"

definition inside :: "lock_state \<Rightarrow> agent \<Rightarrow> string \<Rightarrow> bool" where
  "inside s a i = (i \<in> fst ` set (la_frames (ws_agents s a)))"

section \<open>The invariant\<close>

fun phase_owns :: "lock_phase \<Rightarrow> string option" where
  "phase_owns (Opening i d) = Some i"
| "phase_owns (Polling i d) = Some i"
| "phase_owns (Unlocking i) = Some i"
| "phase_owns (Closing i) = Some i"
| "phase_owns _ = None"

text \<open>How often an agent has to release the reentrant lock of an identity, and how often it owns it.\<close>

definition lock_holds :: "lock_agent \<Rightarrow> string \<Rightarrow> nat" where
  "lock_holds g i = count_list (map fst (la_frames g)) i + (if phase_owns (la_phase g) = Some i then 1 else 0)"

definition owned :: "lock_state \<Rightarrow> agent \<Rightarrow> string \<Rightarrow> nat" where
  "owned s a i = (case ws_thread s (fst a) i of Some (t, n) \<Rightarrow> if t = snd a then n else 0 | None \<Rightarrow> 0)"

fun nested_ok :: "(string \<times> bool) list \<Rightarrow> bool" where
  "nested_ok [] = True"
| "nested_ok ((i, nested) # fs) =
     ((if nested then (i, False) \<in> set fs else i \<notin> fst ` set fs) \<and> nested_ok fs)"

definition agent_ok :: "lock_agent \<Rightarrow> bool" where
  "agent_ok g \<longleftrightarrow> nested_ok (la_frames g) \<and> la_active g = {i. (i, False) \<in> set (la_frames g)} \<and>
     (\<forall>i. phase_owns (la_phase g) = Some i \<longrightarrow> i \<notin> la_active g)"

definition os_wanted :: "lock_agent \<Rightarrow> string \<Rightarrow> bool" where
  "os_wanted g i \<longleftrightarrow> (i, False) \<in> set (la_frames g) \<or> la_phase g = Unlocking i"

definition os_allowed :: "lock_agent \<Rightarrow> string \<Rightarrow> bool" where
  "os_allowed g i \<longleftrightarrow> os_wanted g i \<or> la_phase g = Closing i"

text \<open>\<open>exact\<close> says that no reentrant lock is owned more often than it will be released.\<close>

definition lock_inv :: "bool \<Rightarrow> lock_state \<Rightarrow> bool" where
  "lock_inv exact s \<longleftrightarrow>
     (\<forall>a. agent_ok (ws_agents s a)) \<and>
     (\<forall>a i. os_wanted (ws_agents s a) i \<longrightarrow> ws_os s i = Some a) \<and>
     (\<forall>a i. ws_os s i = Some a \<longrightarrow> os_allowed (ws_agents s a) i) \<and>
     (\<forall>a i. lock_holds (ws_agents s a) i \<le> owned s a i \<and> (exact \<longrightarrow> owned s a i \<le> lock_holds (ws_agents s a) i)) \<and>
     (\<forall>p i t. ws_thread s p i \<noteq> Some (t, 0))"

lemma nested_outer: "nested_ok fs \<Longrightarrow> (i, b) \<in> set fs \<Longrightarrow> (i, False) \<in> set fs"
  by (induction fs rule: nested_ok.induct) (auto split: if_splits)

lemma state_parts [simp]:
  "ws_agents (set_agent a f s) = (ws_agents s)(a := f (ws_agents s a))"
  "ws_thread (set_agent a f s) = ws_thread s" "ws_os (set_agent a f s) = ws_os s"
  "ws_agents (set_os i v s) = ws_agents s" "ws_thread (set_os i v s) = ws_thread s"
  "ws_os (set_os i v s) = (ws_os s)(i := v)"
  "ws_agents (set_rlock p i w s) = ws_agents s" "ws_os (set_rlock p i w s) = ws_os s"
  "ws_agents (drop_os a i s) = ws_agents s" "ws_thread (drop_os a i s) = ws_thread s"
  "ws_os (drop_os a i s) = (if ws_os s i = Some a then (ws_os s)(i := None) else ws_os s)"
  by (simp_all add: set_agent_def set_os_def set_rlock_def drop_os_def)

lemma rlock_parts [simp]:
  "ws_agents (rlock_acquire a i s) = ws_agents s" "ws_os (rlock_acquire a i s) = ws_os s"
  "ws_agents (rlock_release a i s) = ws_agents s" "ws_os (rlock_release a i s) = ws_os s"
  by (simp_all add: rlock_acquire_def rlock_release_def split: option.split)

lemma owned_other [simp]:
  "owned (set_agent b f s) a i = owned s a i" "owned (set_os j v s) a i = owned s a i"
  "owned (drop_os b j s) a i = owned s a i"
  by (simp_all add: owned_def)

lemma owned_acquire: "rlock_free a i s \<Longrightarrow>
   owned (rlock_acquire a i s) b j = owned s b j + (if b = a \<and> j = i then 1 else 0)"
  by (cases a; cases b)
    (auto simp: owned_def rlock_acquire_def rlock_free_def set_rlock_def split: option.splits)

lemma owned_release [simp]:
  "owned (rlock_release a i s) b j = owned s b j - (if b = a \<and> j = i then 1 else 0)"
  by (cases a; cases b) (auto simp: owned_def rlock_release_def set_rlock_def split: option.splits)

lemma counts_positive [simp]:
  assumes "\<forall>p i t. ws_thread s p i \<noteq> Some (t, 0)"
  shows "ws_thread (rlock_acquire a j s) p i \<noteq> Some (t, 0)"
    "ws_thread (rlock_release a j s) p i \<noteq> Some (t, 0)"
  using assms by (auto simp: rlock_acquire_def rlock_release_def set_rlock_def split: option.splits)

lemma frame_identity: "(i, b) \<in> set fs \<Longrightarrow> i \<in> fst ` set fs"
  by force

lemma lock_invD:
  assumes "lock_inv exact s"
  shows "agent_ok (ws_agents s a)" "os_wanted (ws_agents s a) i \<Longrightarrow> ws_os s i = Some a"
    "ws_os s i = Some a \<Longrightarrow> os_allowed (ws_agents s a) i"
    "lock_holds (ws_agents s a) i \<le> owned s a i" "exact \<Longrightarrow> owned s a i \<le> lock_holds (ws_agents s a) i"
  using assms unfolding lock_inv_def by blast+

lemma lock_inv_pos: "lock_inv exact s \<Longrightarrow> \<forall>p i t. ws_thread s p i \<noteq> Some (t, 0)"
  unfolding lock_inv_def by blast

text \<open>A step of one agent keeps the invariant if what it changes is its own.\<close>

lemma lock_inv_local:
  assumes "lock_inv exact s"
    and other: "\<And>b. b \<noteq> a \<Longrightarrow> ws_agents s' b = ws_agents s b"
      "\<And>b i. b \<noteq> a \<Longrightarrow> owned s' b i = owned s b i"
      "\<And>i b. b \<noteq> a \<Longrightarrow> ws_os s' i = Some b \<longleftrightarrow> ws_os s i = Some b"
    and own: "agent_ok (ws_agents s' a)"
      "\<And>i. os_wanted (ws_agents s' a) i \<Longrightarrow> ws_os s' i = Some a"
      "\<And>i. ws_os s' i = Some a \<Longrightarrow> os_allowed (ws_agents s' a) i"
      "\<And>i. lock_holds (ws_agents s' a) i \<le> owned s' a i"
      "\<And>i. exact \<Longrightarrow> owned s' a i \<le> lock_holds (ws_agents s' a) i"
    and pos: "\<forall>p i t. ws_thread s' p i \<noteq> Some (t, 0)"
  shows "lock_inv exact s'"
  unfolding lock_inv_def
proof (intro conjI allI)
  fix b i p t
  note old = lock_invD [OF assms(1)]
  show "agent_ok (ws_agents s' b)" using old(1) other(1) own(1) by (cases "b = a") simp_all
  show "os_wanted (ws_agents s' b) i \<longrightarrow> ws_os s' i = Some b"
    using old(2) other(1,3) own(2) by (cases "b = a") simp_all
  show "ws_os s' i = Some b \<longrightarrow> os_allowed (ws_agents s' b) i"
    using old(3) other(1,3) own(3) by (cases "b = a") simp_all
  show "lock_holds (ws_agents s' b) i \<le> owned s' b i"
    using old(4) other(1,2) own(4) by (cases "b = a") simp_all
  show "exact \<longrightarrow> owned s' b i \<le> lock_holds (ws_agents s' b) i"
    using old(5) other(1,2) own(5) by (cases "b = a") simp_all
  show "ws_thread s' p i \<noteq> Some (t, 0)" using pos by blast
qed

text \<open>Steps that only move an agent from one phase to another.\<close>

lemma lock_inv_phase:
  assumes inv: "lock_inv exact s"
    and owns: "phase_owns ph = phase_owns (la_phase (ws_agents s a))"
    and os: "\<And>i. ph = Unlocking i \<Longrightarrow> la_phase (ws_agents s a) = Unlocking i"
      "\<And>i. la_phase (ws_agents s a) = Unlocking i \<or> la_phase (ws_agents s a) = Closing i \<Longrightarrow>
            ph = Unlocking i \<or> ph = Closing i"
  shows "lock_inv exact (goto_phase a ph s)"
proof (rule lock_inv_local [OF inv, where a = a])
  note old = lock_invD [OF inv, where a = a]
  show "agent_ok (ws_agents (goto_phase a ph s) a)"
    using old(1) owns by (auto simp: goto_phase_def agent_ok_def)
  fix i
  show "os_wanted (ws_agents (goto_phase a ph s) a) i \<Longrightarrow> ws_os (goto_phase a ph s) i = Some a"
    using old(2)[where i = i] os(1)[of i] by (auto simp: goto_phase_def os_wanted_def)
  show "ws_os (goto_phase a ph s) i = Some a \<Longrightarrow> os_allowed (ws_agents (goto_phase a ph s) a) i"
    using old(3)[where i = i] os(2)[of i] by (auto simp: goto_phase_def os_wanted_def os_allowed_def)
  show "lock_holds (ws_agents (goto_phase a ph s) a) i \<le> owned (goto_phase a ph s) a i"
    "exact \<Longrightarrow> owned (goto_phase a ph s) a i \<le> lock_holds (ws_agents (goto_phase a ph s) a) i"
    using old(4,5)[where i = i] owns by (simp_all add: goto_phase_def lock_holds_def)
qed (use lock_inv_pos [OF inv] in \<open>auto simp: goto_phase_def\<close>)

lemma lock_inv_taken:
  assumes inv: "lock_inv exact s" and ph: "la_phase (ws_agents s a) = Waiting i deadline"
    and free: "rlock_free a i s"
  shows "lock_inv exact (thread_taken a i deadline s)"
proof (rule lock_inv_local [OF inv, where a = a])
  note old = lock_invD [OF inv, where a = a] and eqs = thread_taken_def goto_phase_def
  show "agent_ok (ws_agents (thread_taken a i deadline s) a)"
    using old(1) by (auto simp: eqs agent_ok_def)
  fix j
  show "os_wanted (ws_agents (thread_taken a i deadline s) a) j \<Longrightarrow>
          ws_os (thread_taken a i deadline s) j = Some a"
    using old(1) old(2)[where i = j] by (auto simp: eqs os_wanted_def agent_ok_def split: if_splits)
  show "ws_os (thread_taken a i deadline s) j = Some a \<Longrightarrow>
          os_allowed (ws_agents (thread_taken a i deadline s) a) j"
    using old(3)[where i = j] ph by (auto simp: eqs os_wanted_def os_allowed_def split: if_splits)
  show "lock_holds (ws_agents (thread_taken a i deadline s) a) j \<le> owned (thread_taken a i deadline s) a j"
    "exact \<Longrightarrow> owned (thread_taken a i deadline s) a j \<le> lock_holds (ws_agents (thread_taken a i deadline s) a) j"
    using old(4,5)[where i = j] ph free by (auto simp: eqs lock_holds_def owned_acquire)
qed (use lock_inv_pos [OF inv] free in \<open>auto simp: thread_taken_def goto_phase_def owned_acquire\<close>)

lemma lock_inv_flock:
  assumes inv: "lock_inv exact s" and ph: "la_phase (ws_agents s a) = Polling i deadline"
  shows "lock_inv exact (snd (flock_round a i deadline now s))"
proof (cases "ws_os s i = None")
  case False
  have "lock_inv exact (goto_phase a (Closing i) s)" by (rule lock_inv_phase [OF inv]) (simp_all add: ph)
  then show ?thesis using False inv by (simp add: flock_round_def del: not_None_eq)
next
  case True
  let ?s = "snd (flock_round a i deadline now s)"
  note old = lock_invD [OF inv, where a = a]
  note eqs = flock_round_def True
  show ?thesis
  proof (rule lock_inv_local [OF inv, where a = a])
    show "agent_ok (ws_agents ?s a)"
      using old(1) ph by (auto simp: eqs agent_ok_def dest: nested_outer)
    fix j
    show "os_wanted (ws_agents ?s a) j \<Longrightarrow> ws_os ?s j = Some a"
      using old(2)[where i = j] ph by (auto simp: eqs os_wanted_def)
    show "ws_os ?s j = Some a \<Longrightarrow> os_allowed (ws_agents ?s a) j"
      using old(3)[where i = j] ph by (auto simp: eqs os_wanted_def os_allowed_def split: if_splits)
    show "lock_holds (ws_agents ?s a) j \<le> owned ?s a j" "exact \<Longrightarrow> owned ?s a j \<le> lock_holds (ws_agents ?s a) j"
      using old(4,5)[where i = j] ph by (auto simp: eqs lock_holds_def)
  qed (use lock_inv_pos [OF inv] True in \<open>auto simp: flock_round_def\<close>)
qed

lemma lock_inv_flock_eq:
  "lock_inv exact s \<Longrightarrow> la_phase (ws_agents s a) = Polling i deadline \<Longrightarrow>
     flock_round a i deadline now s = (err, s') \<Longrightarrow> lock_inv exact s'"
  using lock_inv_flock by (metis snd_conv)

lemma lock_inv_release:
  assumes inv: "lock_inv exact s"
    and ph: "la_phase (ws_agents s a) = Opening i d \<and> f = goto_phase a Running \<or>
             la_phase (ws_agents s a) = Closing i \<and> f = (\<lambda>s. goto_phase a Running (drop_os a i s))"
  shows "lock_inv exact (rlock_release a i (f s))"
proof (rule lock_inv_local [OF inv, where a = a])
  note old = lock_invD [OF inv, where a = a]
  show "agent_ok (ws_agents (rlock_release a i (f s)) a)"
    using old(1) ph by (auto simp: goto_phase_def agent_ok_def)
  fix j
  show "os_wanted (ws_agents (rlock_release a i (f s)) a) j \<Longrightarrow> ws_os (rlock_release a i (f s)) j = Some a"
    using old(1) old(2)[where i = j] ph by (auto simp: goto_phase_def os_wanted_def agent_ok_def)
  show "ws_os (rlock_release a i (f s)) j = Some a \<Longrightarrow> os_allowed (ws_agents (rlock_release a i (f s)) a) j"
    using old(3)[where i = j] ph by (auto simp: goto_phase_def os_wanted_def os_allowed_def split: if_splits)
  show "lock_holds (ws_agents (rlock_release a i (f s)) a) j \<le> owned (rlock_release a i (f s)) a j"
    "exact \<Longrightarrow> owned (rlock_release a i (f s)) a j \<le> lock_holds (ws_agents (rlock_release a i (f s)) a) j"
    using old(4,5)[where i = j] ph by (auto simp: goto_phase_def lock_holds_def split: if_splits)
qed (use ph lock_inv_pos [OF inv] in \<open>auto simp: goto_phase_def split: if_splits\<close>)

text \<open>A failing \<^verbatim>\<open>os.close\<close> keeps everything but the exactness of the counts.\<close>

lemma lock_inv_leak:
  assumes inv: "lock_inv False s" and ph: "la_phase (ws_agents s a) = Closing i"
  shows "lock_inv False (goto_phase a Running (drop_os a i s))"
proof (rule lock_inv_local [OF inv, where a = a])
  note old = lock_invD [OF inv, where a = a]
  let ?s = "goto_phase a Running (drop_os a i s)"
  show "agent_ok (ws_agents ?s a)" using old(1) by (auto simp: goto_phase_def agent_ok_def)
  fix j
  show "os_wanted (ws_agents ?s a) j \<Longrightarrow> ws_os ?s j = Some a"
    using old(1) old(2)[where i = j] ph by (auto simp: goto_phase_def os_wanted_def agent_ok_def)
  show "ws_os ?s j = Some a \<Longrightarrow> os_allowed (ws_agents ?s a) j"
    using old(3)[where i = j] ph by (auto simp: goto_phase_def os_wanted_def os_allowed_def split: if_splits)
  show "lock_holds (ws_agents ?s a) j \<le> owned ?s a j"
    using old(4)[where i = j] by (auto simp: goto_phase_def lock_holds_def)
qed (use lock_inv_pos [OF inv] in \<open>auto simp: goto_phase_def\<close>)

lemma lock_inv_leave:
  assumes inv: "lock_inv exact s" and ph: "la_phase (ws_agents s a) = Running"
    and fs: "la_frames (ws_agents s a) = (i, nested) # outer"
  shows "lock_inv exact (leave_block a i nested outer s)"
proof (rule lock_inv_local [OF inv, where a = a])
  note old = lock_invD [OF inv, where a = a]
  let ?s = "leave_block a i nested outer s"
  show "agent_ok (ws_agents ?s a)"
    using old(1) ph fs by (auto simp: leave_block_def agent_ok_def dest: frame_identity split: if_splits)
  fix j
  show "os_wanted (ws_agents ?s a) j \<Longrightarrow> ws_os ?s j = Some a"
    using old(2)[where i = j] ph fs by (auto simp: leave_block_def os_wanted_def split: if_splits)
  show "ws_os ?s j = Some a \<Longrightarrow> os_allowed (ws_agents ?s a) j"
    using old(3)[where i = j] ph fs
    by (auto simp: leave_block_def os_wanted_def os_allowed_def split: if_splits)
  show "lock_holds (ws_agents ?s a) j \<le> owned ?s a j" "exact \<Longrightarrow> owned ?s a j \<le> lock_holds (ws_agents ?s a) j"
    using old(4,5)[where i = j] ph fs by (auto simp: leave_block_def lock_holds_def split: if_splits)
qed (use lock_inv_pos [OF inv] in \<open>auto simp: leave_block_def\<close>)

lemma lock_inv_unlock:
  assumes inv: "lock_inv exact s" and ph: "la_phase (ws_agents s a) = Unlocking i"
  shows "lock_inv exact (goto_phase a (Closing i) (drop_os a i s))"
proof (rule lock_inv_local [OF inv, where a = a])
  note old = lock_invD [OF inv, where a = a]
  let ?s = "goto_phase a (Closing i) (drop_os a i s)"
  show "agent_ok (ws_agents ?s a)" using old(1) ph by (auto simp: goto_phase_def agent_ok_def)
  fix j
  show "os_wanted (ws_agents ?s a) j \<Longrightarrow> ws_os ?s j = Some a"
    using old(1) old(2)[where i = j] ph by (auto simp: goto_phase_def os_wanted_def agent_ok_def)
  show "ws_os ?s j = Some a \<Longrightarrow> os_allowed (ws_agents ?s a) j"
    using old(3)[where i = j] ph by (auto simp: goto_phase_def os_wanted_def os_allowed_def split: if_splits)
  show "lock_holds (ws_agents ?s a) j \<le> owned ?s a j" "exact \<Longrightarrow> owned ?s a j \<le> lock_holds (ws_agents ?s a) j"
    using old(4,5)[where i = j] ph by (auto simp: goto_phase_def lock_holds_def split: if_splits)
qed (use lock_inv_pos [OF inv] in \<open>auto simp: goto_phase_def\<close>)

lemma idle_agent_ok [simp]:
  "agent_ok idle_agent" "\<not> os_wanted idle_agent i" "lock_holds idle_agent i = 0"
  by (simp_all add: agent_ok_def idle_agent_def os_wanted_def lock_holds_def)

lemma lock_inv_initial: "lock_inv exact initial_locks"
  by (simp add: lock_inv_def initial_locks_def owned_def)

lemma lock_inv_kill:
  assumes inv: "lock_inv exact s"
  shows "lock_inv exact (kill_process p s)"
  unfolding lock_inv_def
proof (intro conjI allI)
  fix b i q t
  note old = lock_invD [OF inv, where a = b]
  show "agent_ok (ws_agents (kill_process p s) b)" using old(1) by (simp add: kill_process_def)
  show "os_wanted (ws_agents (kill_process p s) b) i \<longrightarrow> ws_os (kill_process p s) i = Some b"
    using old(2)[where i = i] by (auto simp: kill_process_def)
  show "ws_os (kill_process p s) i = Some b \<longrightarrow> os_allowed (ws_agents (kill_process p s) b) i"
    using old(3)[where i = i] by (auto simp: kill_process_def split: option.splits if_splits)
  show "lock_holds (ws_agents (kill_process p s) b) i \<le> owned (kill_process p s) b i"
    "exact \<longrightarrow> owned (kill_process p s) b i \<le> lock_holds (ws_agents (kill_process p s) b) i"
    using old(4,5)[where i = i] by (auto simp: kill_process_def owned_def)
  show "ws_thread (kill_process p s) q i \<noteq> Some (t, 0)"
    using lock_inv_pos [OF inv] by (auto simp: kill_process_def)
qed

lemma lock_inv_step:
  assumes "lock_inv exact s" "lock_step le a ev s = Some (err, s')" "exact \<longrightarrow> ev \<noteq> Close False"
  shows "lock_inv exact s'"
proof (cases "ev = Close False")
  case True
  then show ?thesis using assms lock_inv_leak [of s a] by (auto split: lock_phase.splits)
next
  case False
  then show ?thesis
    using assms(1,2) lock_inv_flock_eq [OF assms(1), of a]
      lock_inv_release [OF assms(1), where a = a and f = "goto_phase a Running"]
      lock_inv_release [OF assms(1), where a = a and f = "\<lambda>s. goto_phase a Running (drop_os a _ s)"]
    by (auto simp: enter_lock_def lock_inv_kill lock_inv_taken lock_inv_leave lock_inv_unlock
        intro: lock_inv_phase split: lock_phase.splits lock_event.splits if_splits list.splits bool.splits)
qed

lemma lock_run_inv:
  "lock_run le evs s \<Longrightarrow> exact \<longrightarrow> (\<forall>(a, ev) \<in> set evs. ev \<noteq> Close False) \<Longrightarrow> lock_inv exact s"
proof (induction rule: lock_run.induct)
  case start
  show ?case by (rule lock_inv_initial)
next
  case (step evs s a ev err s')
  then have "lock_inv exact s" "exact \<longrightarrow> ev \<noteq> Close False" by auto
  then show ?case using lock_inv_step step.hyps(2) by blast
qed

lemma lock_exec_run:
  "lock_exec le rest s = Some s' \<Longrightarrow> lock_run le evs s \<Longrightarrow> lock_run le (evs @ rest) s'"
proof (induction le rest s arbitrary: evs rule: lock_exec.induct)
  case (2 le a ev rest s)
  then obtain err s1 where "lock_step le a ev s = Some (err, s1)" "lock_exec le rest s1 = Some s'"
    by (auto simp del: lock_step.simps split: option.splits)
  with "2.IH" [of "(err, s1)" err s1 "evs @ [(a, ev)]"] lock_run.step [OF "2.prems"(2)] show ?case by simp
qed simp

lemma inside_holder:
  assumes "lock_inv exact s" "inside s a i"
  shows "ws_os s i = Some a" "0 < owned s a i"
proof -
  have "(i, False) \<in> set (la_frames (ws_agents s a))"
    using lock_invD(1) [OF assms(1), of a] assms(2) nested_outer by (fastforce simp: agent_ok_def inside_def)
  then show "ws_os s i = Some a" using lock_invD(2) [OF assms(1)] by (simp add: os_wanted_def)
  have "count_list (map fst (la_frames (ws_agents s a))) i \<noteq> 0"
    using assms(2) by (simp add: inside_def count_list_0_iff)
  then show "0 < owned s a i" using lock_invD(4) [OF assms(1), of a i] by (simp add: lock_holds_def)
qed

text \<open>A round of polling at or after the deadline ends the wait.\<close>

lemma polling_ends:
  "deadline \<le> now \<Longrightarrow> la_phase (ws_agents (snd (flock_round a i deadline now s)) a) \<in> {Running, Closing i}"
  by (simp add: flock_round_def goto_phase_def)

text \<open>An \<^verbatim>\<open>os.close\<close> that raises leaves the reentrant lock with a thread that is outside every block.\<close>

definition lock_env_0 :: lock_env where
  "lock_env_0 = \<lparr>le_resolve = (\<lambda>w. w), le_sha = (\<lambda>w. w)\<rparr>"

definition enter_events :: "agent \<Rightarrow> string \<Rightarrow> (agent \<times> lock_event) list" where
  "enter_events a w = [(a, Enter w 30 0), (a, Take_thread), (a, Open_file), (a, Flock 0)]"

lemmas lock_eval = enter_events_def lock_env_0_def lock_id_def initial_locks_def idle_agent_def enter_lock_def
  thread_taken_def flock_round_def goto_phase_def rlock_free_def rlock_acquire_def rlock_release_def set_rlock_def
  set_agent_def set_os_def drop_os_def leave_block_def inside_def owned_def

lemma failed_close_leaks:
  "\<exists>s. lock_run lock_env_0 (enter_events (1, 1) ''w'' @
           [((1, 1), Leave), ((1, 1), Unlock True), ((1, 1), Close False)]) s \<and>
       la_phase (ws_agents s (1, 1)) = Running \<and> la_frames (ws_agents s (1, 1)) = [] \<and> owned s (1, 1) ''w'' = 1"
proof -
  let ?evs = "enter_events (1, 1) ''w'' @ [((1, 1), Leave), ((1, 1), Unlock True), ((1, 1), Close False)]"
  obtain s where s: "lock_exec lock_env_0 ?evs initial_locks = Some s"
      "la_phase (ws_agents s (1, 1)) = Running" "la_frames (ws_agents s (1, 1)) = []" "owned s (1, 1) ''w'' = 1"
    by (simp add: lock_eval)
  with lock_exec_run [OF s(1) lock_run.start] show ?thesis by auto
qed

section \<open>Properties\<close>

text \<open>C19. Mutual exclusion across threads and processes: at any moment of any run, whatever fails and whichever processes
  die, the open blocks of one workspace belong to a single thread of a single process; this thread holds the file lock,
  and no other thread can be handed the reentrant lock.\<close>

theorem workspace_lock_exclusive:
  assumes "lock_run le evs s" "inside s a i"
  shows "ws_os s i = Some a \<and> (\<forall>b. b \<noteq> a \<longrightarrow> \<not> inside s b i \<and> (fst b = fst a \<longrightarrow> \<not> rlock_free b i s))"
proof (intro conjI allI impI)
  have inv: "lock_inv False s" using lock_run_inv assms(1) by blast
  note holder = inside_holder [OF inv assms(2)]
  show "ws_os s i = Some a" by (rule holder(1))
  fix b
  assume "b \<noteq> a"
  then show "\<not> inside s b i" using inside_holder(1) [OF inv] holder(1) by (metis option.inject)
  assume "fst b = fst a"
  then show "\<not> rlock_free b i s" using holder(2) \<open>b \<noteq> a\<close>
    by (cases a; cases b) (auto simp: owned_def rlock_free_def split: option.splits if_splits)
qed

definition contended :: "(agent \<times> lock_event) list" where
  "contended = enter_events (1, 1) ''w'' @
     [((1, 1), Enter ''w'' 30 1), ((1, 1), Take_thread), ((2, 1), Enter ''w'' 5 1), ((2, 1), Take_thread),
      ((2, 1), Open_file), ((2, 1), Flock 2), ((1, 1), Leave), ((2, 1), Flock 6)]"

lemma contended_run:
  "\<exists>s. lock_run lock_env_0 contended s \<and> inside s (1, 1) ''w'' \<and> la_phase (ws_agents s (2, 1)) = Closing ''w''"
proof -
  obtain s where s: "lock_exec lock_env_0 contended initial_locks = Some s"
      "inside s (1, 1) ''w'' \<and> la_phase (ws_agents s (2, 1)) = Closing ''w''"
    by (simp add: lock_eval contended_def)
  with lock_exec_run [OF s(1) lock_run.start] show ?thesis by auto
qed

theorem workspace_lock_exclusive_witness:
  "\<exists>s. lock_run lock_env_0 contended s \<and> inside s (1, 1) ''w'' \<and> \<not> inside s (2, 1) ''w''"
proof -
  obtain s where s: "lock_run lock_env_0 contended s" "inside s (1, 1) ''w''"
    using contended_run by blast
  then have "\<not> inside s (2, 1) ''w''" using workspace_lock_exclusive [OF s] by simp
  with s show ?thesis by blast
qed

text \<open>C20. Locks are given back: as long as no descriptor fails to close, a thread that is outside every block holds
  neither a reentrant lock nor a file lock, whatever timed out or failed on its way, and a thread that wants a workspace
  that no other thread is using or waiting to use enters it by its own steps.\<close>

theorem workspace_lock_returned:
  assumes "lock_run le evs s" "\<forall>(b, ev) \<in> set evs. ev \<noteq> Close False"
    and "la_phase (ws_agents s a) = Running" "la_frames (ws_agents s a) = []"
    and "0 \<le> timeout" "\<forall>b. b \<noteq> a \<longrightarrow> lock_holds (ws_agents s b) (lock_id le w) = 0"
  shows "(\<forall>i. owned s a i = 0 \<and> ws_os s i \<noteq> Some a) \<and>
    (\<exists>s'. lock_exec le [(a, Enter w timeout now), (a, Take_thread), (a, Open_file), (a, Flock now)] s = Some s' \<and>
          inside s' a (lock_id le w))"
proof -
  let ?i = "lock_id le w"
  have inv: "lock_inv True s" using lock_run_inv assms(1,2) by blast
  note old = lock_invD [OF inv]
  have idle: "owned s a i = 0" "ws_os s i \<noteq> Some a" for i
    using old(5)[of a i] old(3)[where i = i and a = a] assms(3,4)
    by (auto simp: lock_holds_def os_allowed_def os_wanted_def)
  have none: "owned s b ?i = 0" for b
    using idle(1) old(5)[of b ?i] assms(6) by (cases "b = a") auto
  have "ws_thread s (fst a) ?i = None"
  proof (rule ccontr)
    assume "ws_thread s (fst a) ?i \<noteq> None"
    then obtain t n where "ws_thread s (fst a) ?i = Some (t, n)" by auto
    then show False using none[of "(fst a, t)"] lock_inv_pos [OF inv] by (auto simp: owned_def)
  qed
  moreover have "ws_os s ?i = None"
  proof (rule ccontr)
    assume "ws_os s ?i \<noteq> None"
    then obtain b where b: "ws_os s ?i = Some b" by auto
    have "lock_holds (ws_agents s b) ?i \<noteq> 0"
      using old(3) [OF b] frame_identity by (auto simp: os_allowed_def os_wanted_def lock_holds_def count_list_0_iff)
    then show False using assms(6) b idle(2) by (cases "b = a") auto
  qed
  moreover have "la_active (ws_agents s a) = {}" using old(1)[of a] assms(4) by (auto simp: agent_ok_def)
  ultimately show ?thesis using idle assms(3,4,5)
    by (simp add: enter_lock_def goto_phase_def thread_taken_def flock_round_def rlock_free_def inside_def)
qed

definition failing_lock_events :: "(agent \<times> lock_event) list" where
  "failing_lock_events = enter_events (1, 1) ''w'' @
     [((1, 1), Leave), ((1, 1), Unlock False), ((1, 1), Close True), ((1, 1), Enter ''w'' 30 7), ((1, 1), Take_thread),
      ((1, 1), Open_error)]"

lemma failing_lock_run:
  "\<exists>s. lock_run lock_env_0 failing_lock_events s \<and> la_phase (ws_agents s (1, 1)) = Running \<and>
       la_frames (ws_agents s (1, 1)) = [] \<and> (\<forall>b. b \<noteq> (1, 1) \<longrightarrow> ws_agents s b = idle_agent)"
proof -
  obtain s where s: "lock_exec lock_env_0 failing_lock_events initial_locks = Some s"
      "la_phase (ws_agents s (1, 1)) = Running \<and> la_frames (ws_agents s (1, 1)) = [] \<and>
       (\<forall>b. b \<noteq> (1, 1) \<longrightarrow> ws_agents s b = idle_agent)"
    by (simp add: lock_eval failing_lock_events_def)
  with lock_exec_run [OF s(1) lock_run.start] show ?thesis by auto
qed

theorem workspace_lock_returned_witness:
  "\<exists>s s'. lock_run lock_env_0 failing_lock_events s \<and> owned s (1, 1) ''w'' = 0 \<and>
     lock_exec lock_env_0 (enter_events (1, 1) ''w'') s = Some s' \<and> inside s' (1, 1) ''w''"
proof -
  obtain s where s: "lock_run lock_env_0 failing_lock_events s" "la_phase (ws_agents s (1, 1)) = Running"
      "la_frames (ws_agents s (1, 1)) = []" "\<forall>b. b \<noteq> (1, 1) \<longrightarrow> ws_agents s b = idle_agent"
    using failing_lock_run by blast
  have "\<forall>(b, ev) \<in> set failing_lock_events. ev \<noteq> Close False"
    by (simp add: failing_lock_events_def enter_events_def)
  from workspace_lock_returned [OF s(1) this s(2,3), of 30 "''w''" 0] s
  show ?thesis by (auto simp: lock_id_def lock_env_0_def enter_events_def)
qed

end
