(* ===== verification/Change_Paths.thy ===== *)
theory Change_Paths
  imports Prelude
begin

text \<open>
  The paths a change set may name, \<^verbatim>\<open>backend/changes/service.py\<close>: normalisation and the rules that
  keep a change inside the workspace and away from hidden, generated and credential files.
  Case folding is that of ASCII letters; a character outside ASCII folds to itself.
\<close>

datatype change_error = Change_error string | Os_error | Value_error

section \<open>Splitting\<close>

fun split_on :: "char \<Rightarrow> string \<Rightarrow> string list" where
  "split_on d [] = [[]]"
| "split_on d (c # cs) = (if c = d then [] # split_on d cs
     else case split_on d cs of p # ps \<Rightarrow> (c # p) # ps | [] \<Rightarrow> [[c]])"

fun join_on :: "char \<Rightarrow> string list \<Rightarrow> string" where
  "join_on d [] = []"
| "join_on d [p] = p"
| "join_on d (p # ps) = p @ d # join_on d ps"

definition slash_char :: char where
  "slash_char = CHR ''/''"

definition backslash_char :: char where
  "backslash_char = char_of (92 :: nat)"

definition nul_char :: char where
  "nul_char = char_of (0 :: nat)"

section \<open>The path rules\<close>

definition IGNORED_DIRS :: "string set" where
  "IGNORED_DIRS = {''.git'', ''.pio'', ''.promptforge'', ''.forgex'', ''.next'', ''node_modules'', ''dist'', ''build''}"

definition sensitive_names :: "string set" where
  "sensitive_names = {''.env'', ''.env.local'', ''.npmrc'', ''.pypirc'', ''credentials'', ''credentials.json'',
     ''secrets.json'', ''id_rsa'', ''id_ed25519'', ''known_hosts''}"

definition sensitive_markers :: "string list" where
  "sensitive_markers = [''credential'', ''secret'', ''token'', ''private_key'', ''apikey'', ''api_key'']"

definition sensitive_part :: "string \<Rightarrow> bool" where
  "sensitive_part p \<longleftrightarrow> py_lower p \<in> sensitive_names \<or> (\<exists>m \<in> set sensitive_markers. contains_sub (py_lower p) m)"

text \<open>A Windows drive is a character followed by a colon; a path that starts with a slash, and one with
  a backslash, is refused before.\<close>

definition has_drive :: "string \<Rightarrow> bool" where
  "has_drive v = (case v of c # d # _ \<Rightarrow> d = CHR '':'' | _ \<Rightarrow> False)"

definition normalize_relative :: "string \<Rightarrow> change_error + string" where
  "normalize_relative path =
     (if path = [] \<or> nul_char \<in> set path then Inl (Change_error ''CHANGE_PATH_INVALID'')
      else if backslash_char \<in> set path then Inl (Change_error ''CHANGE_PATH_UNSAFE'')
      else let v = py_strip path; parts = split_on slash_char v in
        if v = ''.'' \<or> v = ''..'' \<or> starts_with v ''/'' then Inl (Change_error ''CHANGE_PATH_UNSAFE'')
        else if has_drive v then Inl (Change_error ''CHANGE_PATH_UNSAFE'')
        else if \<exists>p \<in> set parts. p = [] \<or> p = ''.'' \<or> p = ''..'' then Inl (Change_error ''CHANGE_PATH_UNSAFE'')
        else if \<exists>p \<in> set parts. starts_with p ''.'' then Inl (Change_error ''CHANGE_PATH_FORBIDDEN'')
        else if \<exists>p \<in> set parts. py_lower p \<in> IGNORED_DIRS then Inl (Change_error ''CHANGE_PATH_FORBIDDEN'')
        else if \<exists>p \<in> set parts. sensitive_part p then Inl (Change_error ''CHANGE_PATH_FORBIDDEN'')
        else Inr (join_on slash_char parts))"

definition is_safe_relative_path :: "string \<Rightarrow> bool" where
  "is_safe_relative_path path = is_ok (normalize_relative path)"

definition IGNORED_STAGE :: "string set" where
  "IGNORED_STAGE = {''.promptforge-project.json''}"

text \<open>A file below an ignored directory is not listed; the name of the file itself does not count.\<close>

definition below_ignored :: "string \<Rightarrow> bool" where
  "below_ignored path = (\<exists>p \<in> set (butlast (split_on slash_char path)). py_lower p \<in> IGNORED_DIRS)"

text \<open>The namespace of the undo backups, as the host file system may spell it.\<close>

definition rstrip_space_dot :: "string \<Rightarrow> string" where
  "rstrip_space_dot s = rev (dropWhile (\<lambda>c. c = CHR '' '' \<or> c = CHR ''.'') (rev s))"

definition undo_namespace :: "string \<Rightarrow> bool" where
  "undo_namespace path = (py_lower (rstrip_space_dot (hd (split_on slash_char path))) = ''__undo__'')"

section \<open>What an accepted path looks like\<close>

lemma split_on_nonempty [simp]: "split_on d s \<noteq> []"
  by (induction s) (auto split: list.split)

lemma join_split [simp]: "join_on d (split_on d s) = s"
proof (induction s)
  case (Cons c cs)
  obtain p ps where "split_on d cs = p # ps" by (cases "split_on d cs") simp_all
  then show ?case using Cons by (cases ps) auto
qed simp

lemma join_on_Cons: "ps \<noteq> [] \<Longrightarrow> join_on d (p # ps) = p @ d # join_on d ps"
  by (cases ps) simp_all

lemma split_parts_no_sep: "p \<in> set (split_on d s) \<Longrightarrow> d \<notin> set p"
  by (induction s arbitrary: p) (auto split: list.splits if_splits)

lemma split_parts_chars: "\<forall>p \<in> set (split_on d s). set p \<subseteq> set s"
proof (induction s)
  case (Cons c cs)
  obtain p ps where "split_on d cs = p # ps" by (cases "split_on d cs") simp_all
  then show ?case using Cons by auto
qed simp

lemma py_lstrip_idem [simp]: "py_lstrip (py_lstrip s) = py_lstrip s"
  by (simp add: py_lstrip_def)

lemma dropWhile_rev_hd: "dropWhile P s = s \<Longrightarrow> dropWhile P (rev (dropWhile P (rev s))) = rev (dropWhile P (rev s))"
proof -
  assume a: "dropWhile P s = s"
  obtain t where t: "s = rev (dropWhile P (rev s)) @ t"
    by (metis rev_append rev_rev_ident takeWhile_dropWhile_id)
  show ?thesis
  proof (cases "rev (dropWhile P (rev s))")
    case (Cons c cs)
    then have "hd s = c" "s \<noteq> []" using t by (metis append_Cons list.sel(1), metis append_is_Nil_conv list.distinct(1))
    then have "\<not> P c" using a by (metis dropWhile_eq_self_iff)
    then show ?thesis using Cons by simp
  qed (simp only: dropWhile.simps)
qed

lemma py_strip_idem [simp]: "py_strip (py_strip s) = py_strip s"
proof -
  have "py_lstrip (py_strip s) = py_strip s"
    using dropWhile_rev_hd[of is_space "py_lstrip s"] by (simp add: py_strip_def py_lstrip_def)
  then show ?thesis by (simp add: py_strip_def py_lstrip_def)
qed

lemma py_strip_chars: "set (py_strip s) \<subseteq> set s"
  unfolding py_strip_def py_lstrip_def by (auto dest!: set_dropWhileD)

definition safe_parts :: "string list \<Rightarrow> bool" where
  "safe_parts ps \<longleftrightarrow> ps \<noteq> [] \<and> (\<forall>p \<in> set ps. p \<noteq> [] \<and> p \<noteq> ''..'' \<and> hd p \<noteq> CHR ''.'' \<and> slash_char \<notin> set p
     \<and> backslash_char \<notin> set p \<and> nul_char \<notin> set p \<and> py_lower p \<notin> IGNORED_DIRS \<and> \<not> sensitive_part p)"

lemma normalize_value:
  "normalize_relative path = Inr q \<Longrightarrow> q = py_strip path"
  by (auto simp: normalize_relative_def Let_def split: if_splits)

lemma normalize_parts:
  assumes "normalize_relative path = Inr q"
  shows "safe_parts (split_on slash_char q) \<and> \<not> has_drive q \<and> \<not> starts_with q ''/''"
proof -
  note q = normalize_value[OF assms]
  have n: "\<forall>p \<in> set (split_on slash_char q). p \<noteq> [] \<and> p \<noteq> ''..'' \<and> \<not> starts_with p ''.''
      \<and> py_lower p \<notin> IGNORED_DIRS \<and> \<not> sensitive_part p"
    "\<not> has_drive q" "\<not> starts_with q ''/''" "backslash_char \<notin> set path" "nul_char \<notin> set path"
    using assms unfolding q by (auto simp: normalize_relative_def Let_def split: if_splits)
  have "set q \<subseteq> set path" unfolding q by (rule py_strip_chars)
  then have "backslash_char \<notin> set p \<and> nul_char \<notin> set p" if "p \<in> set (split_on slash_char q)" for p
    using split_parts_chars that n(4,5) by blast
  moreover have "hd p \<noteq> CHR ''.''" if "p \<in> set (split_on slash_char q)" for p
  proof -
    have "p \<noteq> []" "\<not> starts_with p ''.''" using n(1) that by blast+
    then show ?thesis by (cases p) (simp_all add: starts_with_def)
  qed
  ultimately show ?thesis
    using n split_parts_no_sep[of _ slash_char q] unfolding safe_parts_def by auto
qed

lemma no_parts_of_empty: "\<not> safe_parts (split_on d [])"
  by (simp add: safe_parts_def)

lemma normalize_idem: "normalize_relative path = Inr q \<Longrightarrow> normalize_relative q = Inr q"
proof -
  assume a: "normalize_relative path = Inr q"
  note q = normalize_value[OF a]
  have "set q \<subseteq> set path" unfolding q by (rule py_strip_chars)
  moreover have "q \<noteq> []" using normalize_parts[OF a] no_parts_of_empty by metis
  moreover have "py_strip q = q" unfolding q by simp
  ultimately show ?thesis using a
    by (auto simp: normalize_relative_def Let_def q[symmetric] split: if_splits)
qed

text \<open>C4. An accepted path stays inside the root and names no protected file: whatever text a change proposes, if it is
  accepted then the path it stands for is relative, has no drive, backslash, NUL, empty component,
  parent reference, hidden, generated or credential component, and accepting it again gives the same path.\<close>
theorem accepted_path_safe:
  assumes "normalize_relative path = Inr q"
  shows "safe_parts (split_on slash_char q) \<and> join_on slash_char (split_on slash_char q) = q
    \<and> \<not> has_drive q \<and> hd q \<noteq> CHR ''/'' \<and> normalize_relative q = Inr q \<and> is_safe_relative_path path"
proof -
  have "q \<noteq> []" using normalize_parts[OF assms] no_parts_of_empty by metis
  moreover have "\<not> starts_with q ''/''" using normalize_parts[OF assms] by blast
  ultimately have "hd q \<noteq> CHR ''/''" by (cases q) (simp_all add: starts_with_def)
  then show ?thesis using assms normalize_parts[OF assms] normalize_idem[OF assms]
    by (simp add: is_safe_relative_path_def)
qed

lemma accepted_path_safe_witness:
  "normalize_relative '' src/main.cpp '' = Inr ''src/main.cpp'' \<and> safe_parts (split_on slash_char ''src/main.cpp'')
   \<and> \<not> is_safe_relative_path ''src/../main.cpp'' \<and> \<not> is_safe_relative_path ''Node_Modules/x.js''"
proof -
  have n: "normalize_relative '' src/main.cpp '' = Inr ''src/main.cpp''"
    by code_simp
  moreover have "\<not> is_safe_relative_path ''src/../main.cpp''" "\<not> is_safe_relative_path ''Node_Modules/x.js''"
    by code_simp+
  ultimately show ?thesis using accepted_path_safe[OF n] by simp
qed

end
