(* ===== verification/Fault_Io.thy ===== *)
theory Fault_Io
  imports Prelude
begin

text \<open>
  Programs on durable state that may fail or die at any step. A program reads a schedule of faults,
  one entry per step on the outside world: the step is carried out, or it raises an operating system
  error and has no effect, or the process dies before it. An empty schedule means that nothing
  fails any more. Python's exceptions are caught by \<open>catch_io\<close>; the death of the process is not.

  The triple \<open>triple calm P m Q E D\<close> says of a program started in a state with \<open>P\<close>: it ends in
  \<open>Q\<close> with its result, or raises an error in \<open>E\<close>, or dies in \<open>D\<close>; when \<open>calm\<close> holds only the
  empty schedule is considered.
\<close>

datatype fault = Go | Fail | Die

datatype ('e, 'a) outcome = Done 'a | Raised 'e | Died

type_synonym ('s, 'e, 'a) io = "fault list \<Rightarrow> 's \<Rightarrow> ('e, 'a) outcome \<times> fault list \<times> 's"

definition return_io :: "'a \<Rightarrow> ('s, 'e, 'a) io" where
  "return_io a sch w = (Done a, sch, w)"

definition raise_io :: "'e \<Rightarrow> ('s, 'e, 'a) io" where
  "raise_io e sch w = (Raised e, sch, w)"

definition gets_io :: "('s \<Rightarrow> 'a) \<Rightarrow> ('s, 'e, 'a) io" where
  "gets_io f sch w = (Done (f w), sch, w)"

definition modify_io :: "('s \<Rightarrow> 's) \<Rightarrow> ('s, 'e, unit) io" where
  "modify_io f sch w = (Done (), sch, f w)"

definition bind_io :: "('s, 'e, 'a) io \<Rightarrow> ('a \<Rightarrow> ('s, 'e, 'b) io) \<Rightarrow> ('s, 'e, 'b) io" where
  "bind_io m k sch w = (case m sch w of
       (Done a, sch', w') \<Rightarrow> k a sch' w'
     | (Raised e, sch', w') \<Rightarrow> (Raised e, sch', w')
     | (Died, sch', w') \<Rightarrow> (Died, sch', w'))"

definition seq_io :: "('s, 'e, 'a) io \<Rightarrow> ('s, 'e, 'b) io \<Rightarrow> ('s, 'e, 'b) io" where
  "seq_io m n = bind_io m (\<lambda>_. n)"

definition catch_io :: "('s, 'e, 'a) io \<Rightarrow> ('e \<Rightarrow> ('s, 'e, 'a) io) \<Rightarrow> ('s, 'e, 'a) io" where
  "catch_io m h sch w = (case m sch w of
       (Raised e, sch', w') \<Rightarrow> h e sch' w' | r \<Rightarrow> r)"

text \<open>A step on the outside world: it is carried out, raises the error \<open>e\<close>, or the process dies.\<close>

definition step_io :: "'e \<Rightarrow> ('s, 'e, 'a) io \<Rightarrow> ('s, 'e, 'a) io" where
  "step_io e m sch w = (case sch of
       [] \<Rightarrow> m [] w
     | Go # r \<Rightarrow> m r w
     | Fail # r \<Rightarrow> (Raised e, r, w)
     | Die # r \<Rightarrow> (Died, r, w))"

definition when_io :: "bool \<Rightarrow> ('s, 'e, unit) io \<Rightarrow> ('s, 'e, unit) io" where
  "when_io b m = (if b then m else return_io ())"

definition lift_io :: "'e + 'a \<Rightarrow> ('s, 'e, 'a) io" where
  "lift_io r = (case r of Inl e \<Rightarrow> raise_io e | Inr a \<Rightarrow> return_io a)"

fun each_io :: "('x \<Rightarrow> ('s, 'e, unit) io) \<Rightarrow> 'x list \<Rightarrow> ('s, 'e, unit) io" where
  "each_io f [] = return_io ()"
| "each_io f (x # xs) = seq_io (f x) (each_io f xs)"

fun map_io :: "('x \<Rightarrow> ('s, 'e, 'a) io) \<Rightarrow> 'x list \<Rightarrow> ('s, 'e, 'a list) io" where
  "map_io f [] = return_io []"
| "map_io f (x # xs) = bind_io (f x) (\<lambda>a. bind_io (map_io f xs) (\<lambda>as. return_io (a # as)))"

section \<open>Triples\<close>

named_theorems triple_rules \<open>proof rules for programs\<close>

fun holds :: "('a \<Rightarrow> 's \<Rightarrow> bool) \<Rightarrow> ('e \<Rightarrow> 's \<Rightarrow> bool) \<Rightarrow> ('s \<Rightarrow> bool) \<Rightarrow> ('e, 'a) outcome \<Rightarrow> 's \<Rightarrow> bool" where
  "holds Q E D (Done a) w = Q a w"
| "holds Q E D (Raised e) w = E e w"
| "holds Q E D Died w = D w"

definition triple :: "bool \<Rightarrow> ('s \<Rightarrow> bool) \<Rightarrow> ('s, 'e, 'a) io \<Rightarrow> ('a \<Rightarrow> 's \<Rightarrow> bool) \<Rightarrow> ('e \<Rightarrow> 's \<Rightarrow> bool) \<Rightarrow> ('s \<Rightarrow> bool) \<Rightarrow> bool" where
  "triple calm P m Q E D \<longleftrightarrow> (\<forall>sch w r sch' w'. P w \<longrightarrow> (calm \<longrightarrow> sch = []) \<longrightarrow> m sch w = (r, sch', w') \<longrightarrow>
     (calm \<longrightarrow> sch' = []) \<and> holds Q E D r w')"

lemma tripleD:
  "triple calm P m Q E D \<Longrightarrow> P w \<Longrightarrow> calm \<longrightarrow> sch = [] \<Longrightarrow> m sch w = (r, sch', w') \<Longrightarrow>
     (calm \<longrightarrow> sch' = []) \<and> holds Q E D r w'"
  unfolding triple_def by blast

lemma triple_pre: "triple calm P m Q E D \<Longrightarrow> (\<And>w. P' w \<Longrightarrow> P w) \<Longrightarrow> triple calm P' m Q E D"
  unfolding triple_def by blast

lemma holds_post:
  "holds Q E D r w \<Longrightarrow> (\<And>a. Q a w \<Longrightarrow> Q' a w) \<Longrightarrow> (\<And>e. E e w \<Longrightarrow> E' e w) \<Longrightarrow> (D w \<Longrightarrow> D' w) \<Longrightarrow> holds Q' E' D' r w"
  by (cases r) simp_all

lemma triple_post:
  "triple calm P m Q E D \<Longrightarrow> (\<And>a w. Q a w \<Longrightarrow> Q' a w) \<Longrightarrow> (\<And>e w. E e w \<Longrightarrow> E' e w) \<Longrightarrow> (\<And>w. D w \<Longrightarrow> D' w)
    \<Longrightarrow> triple calm P m Q' E' D'"
  unfolding triple_def by (blast intro: holds_post[of Q E D _ _ Q' E' D'])

lemma triple_return [triple_rules]: "triple calm (Q a) (return_io a) Q E D"
  by (simp add: triple_def return_io_def)

lemma triple_raise [triple_rules]: "triple calm (E e) (raise_io e) Q E D"
  by (simp add: triple_def raise_io_def)

lemma triple_gets [triple_rules]: "triple calm (\<lambda>w. Q (f w) w) (gets_io f) Q E D"
  by (simp add: triple_def gets_io_def)

lemma triple_modify [triple_rules]: "triple calm (\<lambda>w. Q () (f w)) (modify_io f) Q E D"
  by (simp add: triple_def modify_io_def)

lemma triple_modify_rule: "(\<And>w. P w \<Longrightarrow> Q () (f w)) \<Longrightarrow> triple calm P (modify_io f) Q E D"
  by (simp add: triple_def modify_io_def)

lemma triple_disj: "triple calm P m Q E D \<Longrightarrow> triple calm R m Q E D \<Longrightarrow> triple calm (\<lambda>w. P w \<or> R w) m Q E D"
  unfolding triple_def by blast

lemma triple_bind:
  assumes "triple calm P m R E D" "\<And>a. triple calm (R a) (k a) Q E D"
  shows "triple calm P (bind_io m k) Q E D"
  unfolding triple_def
proof (intro allI impI)
  fix sch w r sch' w'
  assume p: "P w" "calm \<longrightarrow> sch = []" and b: "bind_io m k sch w = (r, sch', w')"
  obtain r1 sch1 w1 where m: "m sch w = (r1, sch1, w1)" by (cases "m sch w") auto
  note 1 = tripleD[OF assms(1) p m]
  show "(calm \<longrightarrow> sch' = []) \<and> holds Q E D r w'"
  proof (cases r1)
    case (Done a)
    then have "R a w1" "calm \<longrightarrow> sch1 = []" "k a sch1 w1 = (r, sch', w')"
      using 1 p(2) b m by (auto simp: bind_io_def)
    then show ?thesis using tripleD[OF assms(2)[of a]] by blast
  qed (use 1 p(2) b m in \<open>auto simp: bind_io_def\<close>)
qed

lemma triple_seq:
  "triple calm P m (\<lambda>_. R) E D \<Longrightarrow> triple calm R n Q E D \<Longrightarrow> triple calm P (seq_io m n) Q E D"
  unfolding seq_io_def by (rule triple_bind)

lemma triple_catch:
  assumes "triple calm P m Q F D" "\<And>e. triple calm (F e) (h e) Q E D"
  shows "triple calm P (catch_io m h) Q E D"
  unfolding triple_def
proof (intro allI impI)
  fix sch w r sch' w'
  assume p: "P w" "calm \<longrightarrow> sch = []" and b: "catch_io m h sch w = (r, sch', w')"
  obtain r1 sch1 w1 where m: "m sch w = (r1, sch1, w1)" by (cases "m sch w") auto
  note 1 = tripleD[OF assms(1) p m]
  show "(calm \<longrightarrow> sch' = []) \<and> holds Q E D r w'"
  proof (cases r1)
    case (Raised e)
    then have "F e w1" "calm \<longrightarrow> sch1 = []" "h e sch1 w1 = (r, sch', w')"
      using 1 p(2) b m by (auto simp: catch_io_def)
    then show ?thesis using tripleD[OF assms(2)[of e]] by blast
  qed (use 1 p(2) b m in \<open>auto simp: catch_io_def\<close>)
qed

lemma triple_step:
  assumes "triple calm P m Q E D" "\<not> calm \<Longrightarrow> (\<And>w. P w \<Longrightarrow> E e w \<and> D w)"
  shows "triple calm P (step_io e m) Q E D"
  unfolding triple_def
proof (intro allI impI)
  fix sch w r sch' w'
  assume p: "P w" "calm \<longrightarrow> sch = []" and b: "step_io e m sch w = (r, sch', w')"
  show "(calm \<longrightarrow> sch' = []) \<and> holds Q E D r w'"
  proof (cases sch)
    case Nil
    then show ?thesis using b tripleD[OF assms(1) p(1), of "[]"] by (simp add: step_io_def)
  next
    case (Cons f fs)
    then have "\<not> calm" using p(2) by auto
    then show ?thesis using Cons b p(1) assms(2) tripleD[OF assms(1) p(1), of fs]
      by (cases f) (auto simp: step_io_def)
  qed
qed

lemma triple_when:
  "(b \<Longrightarrow> triple calm P m (\<lambda>_. Q ()) E D) \<Longrightarrow> (\<And>w. \<not> b \<Longrightarrow> P w \<Longrightarrow> Q () w) \<Longrightarrow> triple calm P (when_io b m) Q E D"
  by (cases b) (auto simp: when_io_def triple_def return_io_def holds.simps)

lemma triple_lift:
  "(\<And>e w. r = Inl e \<Longrightarrow> P w \<Longrightarrow> E e w) \<Longrightarrow> (\<And>a w. r = Inr a \<Longrightarrow> P w \<Longrightarrow> Q a w) \<Longrightarrow> triple calm P (lift_io r) Q E D"
  by (cases r) (auto simp: triple_def lift_io_def raise_io_def return_io_def)

text \<open>The loop rules carry the part of the list that has been processed.\<close>

lemma triple_each:
  assumes "\<And>ys x zs. xs = ys @ x # zs \<Longrightarrow> triple calm (J ys) (f x) (\<lambda>_. J (ys @ [x])) E D"
  shows "triple calm (J []) (each_io f xs) (\<lambda>_. J xs) E D"
proof -
  have "triple calm (J ys) (each_io f zs) (\<lambda>_. J xs) E D" if "xs = ys @ zs" for ys zs
    using that
  proof (induction zs arbitrary: ys)
    case Nil
    then show ?case by (simp add: triple_def return_io_def)
  next
    case (Cons z zs)
    have "triple calm (J (ys @ [z])) (each_io f zs) (\<lambda>_. J xs) E D"
      by (rule Cons.IH) (use Cons.prems in simp)
    then show ?case by (simp add: triple_seq[OF assms[OF Cons.prems]])
  qed
  from this[of "[]" xs] show ?thesis by simp
qed

lemma triple_map:
  assumes "\<And>ys x zs as. xs = ys @ x # zs \<Longrightarrow> length as = length ys \<Longrightarrow> triple calm (J ys as) (f x) (\<lambda>a. J (ys @ [x]) (as @ [a])) E D"
  shows "triple calm (J [] []) (map_io f xs) (\<lambda>as. J xs as) E D"
proof -
  have "triple calm (J ys bs) (map_io f zs) (\<lambda>as. J xs (bs @ as)) E D" if "xs = ys @ zs" "length bs = length ys" for ys zs bs
    using that
  proof (induction zs arbitrary: ys bs)
    case Nil
    then show ?case by (simp add: triple_def return_io_def)
  next
    case (Cons z zs)
    have k: "triple calm (J (ys @ [z]) (bs @ [a])) (bind_io (map_io f zs) (\<lambda>as. return_io (a # as))) (\<lambda>as. J xs (bs @ as)) E D" for a
      by (rule triple_bind[OF Cons.IH]) (use Cons.prems in \<open>auto simp: triple_def return_io_def\<close>)
    then show ?case by (simp add: triple_bind[OF assms[OF Cons.prems]])
  qed
  from this[of "[]" xs "[]"] show ?thesis by simp
qed

lemma triple_exI: "(\<And>x. triple calm (P x) m Q E D) \<Longrightarrow> triple calm (\<lambda>w. \<exists>x. P x w) m Q E D"
  unfolding triple_def by blast

lemma triple_assume: "(b \<Longrightarrow> triple calm P m Q E D) \<Longrightarrow> triple calm (\<lambda>w. b \<and> P w) m Q E D"
  unfolding triple_def by blast

lemma triple_gets_bind:
  "(\<And>a. triple calm (\<lambda>w. P w \<and> a = f w) (k a) Q E D) \<Longrightarrow> triple calm P (bind_io (gets_io f) k) Q E D"
  by (auto simp: triple_def bind_io_def gets_io_def)

text \<open>Rules for single steps, results and case distinctions.\<close>

lemma bind_return [simp]: "bind_io (return_io a) k = k a"
  by (auto simp: bind_io_def return_io_def fun_eq_iff)

lemma triple_step_modify:
  assumes "\<And>w. P w \<Longrightarrow> Q () (f w)" "\<not> calm \<Longrightarrow> (\<And>w. P w \<Longrightarrow> E e w \<and> D w)"
  shows "triple calm P (step_io e (modify_io f)) Q E D"
proof (rule triple_step)
  show "triple calm P (modify_io f) Q E D"
    by (rule triple_pre[OF triple_modify]) (rule assms(1))
qed (rule assms(2))

lemma triple_lift_bind:
  assumes "\<And>a. r = Inr a \<Longrightarrow> triple calm P (k a) Q E D" "\<And>e s. P s \<Longrightarrow> r = Inl e \<Longrightarrow> E e s"
  shows "triple calm P (bind_io (lift_io r) k) Q E D"
  using assms by (cases r) (auto simp: triple_def bind_io_def lift_io_def return_io_def raise_io_def)

lemma triple_lift_seq:
  "(\<And>a. r = Inr a \<Longrightarrow> triple calm P k Q E D) \<Longrightarrow> (\<And>e s. P s \<Longrightarrow> r = Inl e \<Longrightarrow> E e s) \<Longrightarrow> triple calm P (seq_io (lift_io r) k) Q E D"
  unfolding seq_io_def by (rule triple_lift_bind)

lemma triple_if: "triple calm P m Q E D \<Longrightarrow> triple calm P n Q E D \<Longrightarrow> triple calm P (if b then m else n) Q E D"
  by simp

lemma triple_imp_return: "(\<And>s. P s \<Longrightarrow> Q a s) \<Longrightarrow> triple calm P (return_io a) Q E D"
  by (simp add: triple_def return_io_def)

lemma triple_imp_raise: "(\<And>s. P s \<Longrightarrow> E e s) \<Longrightarrow> triple calm P (raise_io e) Q E D"
  by (simp add: triple_def raise_io_def)

lemma triple_inhabited: "(\<And>s. P s \<Longrightarrow> triple calm P m Q E D) \<Longrightarrow> triple calm P m Q E D"
  unfolding triple_def by blast

lemma triple_never: "(\<And>w. P w \<Longrightarrow> False) \<Longrightarrow> triple calm P m Q E D"
  unfolding triple_def by blast

end
