(* ===== verification/Change_Sets.thy ===== *)
theory Change_Sets
  imports Change_Paths Fault_Io "HOL-Library.AList" "HOL-Library.Char_ord" "HOL-Library.List_Lexorder"
begin

text \<open>
  Staged change sets, \<^verbatim>\<open>backend/changes/models.py\<close> and \<^verbatim>\<open>backend/changes/service.py\<close>: the data, inspection of a
  workspace, and the creation of a change set from a stage. Publication, undo and recovery are in
  the theory \<open>Change_Publish\<close>.

  A workspace or a stage is an association list from normalised relative paths to entries. A directory is
  implicit in the paths below it (\<open>dir_at\<close>), and an empty one is an \<open>Other_entry\<close>. Every \<^verbatim>\<open>exists()\<close> and
  \<^verbatim>\<open>is_file()\<close> of creation, publication and undo sees the directory that stands at the path. Recovery
  meets it as a failing step: \<^verbatim>\<open>hash_file\<close> of a directory raises \<^verbatim>\<open>OSError\<close>. A link is taken to lead out of its root;
  a link or a file that stands in the place of a parent directory, and an empty directory that a
  removal leaves behind, show as failing steps of the operation that meets them.
  The undo backups of a stage (its directory \<^verbatim>\<open>__undo__\<close>) are a tree of their own. The change
  preview (\<^verbatim>\<open>difflib\<close>), MIME types and the UTF-8 decoder are arguments; the entry limit of
  a directory walk is not modelled.
\<close>

section \<open>Data\<close>

datatype entry = Regular string | Link | Other_entry

type_synonym tree = "(string \<times> entry) list"

abbreviation look :: "tree \<Rightarrow> string \<Rightarrow> entry option" where
  "look t \<equiv> map_of t"

definition put :: "string \<Rightarrow> entry \<Rightarrow> tree \<Rightarrow> tree" where
  "put p e t = AList.update p e t"

definition drop_path :: "string \<Rightarrow> tree \<Rightarrow> tree" where
  "drop_path p t = AList.delete p t"

lemma look_put [simp]: "look (put p e t) = (look t)(p \<mapsto> e)"
  by (simp add: put_def update_conv')

lemma look_drop [simp]: "look (drop_path p t) = (look t)(p := None)"
  by (simp add: drop_path_def delete_conv')

record snapshot_file =
  sf_path :: string
  sf_hash :: string
  sf_size :: nat
  sf_content :: "string option"

record workspace_snapshot =
  sn_root :: string
  sn_files :: "(string \<times> snapshot_file) list"
  sn_revision :: string
  sn_hash :: string

record changed_file =
  cf_path :: string
  cf_type :: string
  cf_prev :: "string option"
  cf_new :: "string option"
  cf_diff :: "string option"
  cf_preview :: bool
  cf_warning :: "string option"

record change_set =
  cs_id :: string
  cs_provider :: string
  cs_workspace :: string
  cs_staging :: string
  cs_status :: string
  cs_files :: "changed_file list"
  cs_summary :: string
  cs_revision :: string
  cs_base_hash :: string
  cs_manifest :: string
  cs_auth :: "string option"
  cs_auth_source :: string
  cs_risk :: string
  cs_review :: bool
  cs_created :: rat
  cs_applied :: "rat option"
  cs_undone :: "rat option"

definition with_status :: "string \<Rightarrow> rat option \<Rightarrow> rat option \<Rightarrow> change_set \<Rightarrow> change_set" where
  "with_status status applied undone c = c\<lparr>cs_status := status,
     cs_applied := (case applied of None \<Rightarrow> cs_applied c | a \<Rightarrow> a),
     cs_undone := (case undone of None \<Rightarrow> cs_undone c | a \<Rightarrow> a)\<rparr>"

record stage =
  sg_files :: tree
  sg_undo :: "tree option"

text \<open>The publication journal of a change set, or a file that cannot be read as one.\<close>

record pub_journal =
  pb_version :: int
  pb_id :: string
  pb_operation :: string
  pb_manifest :: string

text \<open>The service: workspaces and stages by their root, the change sets in memory and on disk, the
  publication journals, the recovery issues, and the local lists that an exception handler of a
  running operation reads.\<close>

record change_world =
  cw_ws :: "string \<rightharpoonup> tree"
  cw_stages :: "string \<rightharpoonup> stage"
  cw_sets :: "string \<rightharpoonup> change_set"
  cw_meta :: "string \<rightharpoonup> change_set"
  cw_journal :: "string \<rightharpoonup> pub_journal option"
  cw_issues :: "string \<rightharpoonup> string"
  cw_applied :: "(string \<times> string option) list"
  cw_removed :: "(string \<times> string) list"

type_synonym 'a change_io = "(change_world, change_error, 'a) io"

record change_env =
  ce_sha :: "string \<Rightarrow> string"
  ce_staging :: string
  ce_sync_fails :: bool
  ce_normcase :: "string \<Rightarrow> string"
  ce_mime :: "string \<Rightarrow> string option"
  ce_utf8 :: "string \<Rightarrow> string option"
  ce_diff :: "string \<Rightarrow> string \<Rightarrow> string \<Rightarrow> string"
  ce_delete_diff :: "string \<Rightarrow> string \<Rightarrow> string"

section \<open>Hashes and previews\<close>

fun show_digits :: "nat \<Rightarrow> nat \<Rightarrow> string" where
  "show_digits 0 n = []"
| "show_digits (Suc k) n = (if n < 10 then [char_of (48 + n)]
     else show_digits k (n div 10) @ [char_of (48 + n mod 10)])"

definition show_nat :: "nat \<Rightarrow> string" where
  "show_nat n = show_digits (Suc n) n"

definition entry_hash :: "change_env \<Rightarrow> entry option \<Rightarrow> string option" where
  "entry_hash ev e = (case e of Some (Regular b) \<Rightarrow> Some (ce_sha ev b) | _ \<Rightarrow> None)"

definition snapshot_hash :: "change_env \<Rightarrow> (string \<times> snapshot_file) list \<Rightarrow> string" where
  "snapshot_hash ev files = ce_sha ev (concat (map (\<lambda>(p, f). p @ [nul_char] @ sf_hash f @ [nul_char]
     @ show_nat (sf_size f) @ [char_of (10 :: nat)]) (sort_key fst files)))"

definition MAX_CONTEXT_FILE_BYTES :: nat where
  "MAX_CONTEXT_FILE_BYTES = 512000"

definition MAX_DIFF_CHARS :: nat where
  "MAX_DIFF_CHARS = 12000"

definition read_text_preview :: "change_env \<Rightarrow> string \<Rightarrow> string \<Rightarrow> nat \<Rightarrow> string option" where
  "read_text_preview ev path data max_bytes =
     (if max_bytes < length data then None
      else if (case ce_mime ev path of None \<Rightarrow> False
          | Some m \<Rightarrow> m \<noteq> [] \<and> \<not> (starts_with m ''text/'' \<or> m = ''application/json'' \<or> m = ''application/xml'')) then None
      else if nul_char \<in> set data then None
      else ce_utf8 ev data)"

definition py_rstrip :: "string \<Rightarrow> string" where
  "py_rstrip s = rev (py_lstrip (rev s))"

definition diff_preview :: "change_env \<Rightarrow> string \<Rightarrow> string option \<Rightarrow> string \<Rightarrow> string option \<times> bool \<times> string option" where
  "diff_preview ev relative before after_data =
     (case (before, read_text_preview ev relative after_data MAX_CONTEXT_FILE_BYTES) of
        (Some b, Some a) \<Rightarrow>
          (let diff = ce_diff ev relative b a in
           if MAX_DIFF_CHARS < length diff
           then (Some (py_rstrip (take MAX_DIFF_CHARS diff) @ char_of (10 :: nat) # ''... [diff truncated]'' @ [char_of (10 :: nat)]),
                 True, Some ''Diff preview was truncated.'')
           else (Some diff, True, None))
      | _ \<Rightarrow> (None, False, Some ''Binary or large-file preview is unavailable.''))"

definition count_type :: "string \<Rightarrow> changed_file list \<Rightarrow> nat" where
  "count_type ty files = length (filter (\<lambda>f. cf_type f = ty) files)"

definition summarize :: "changed_file list \<Rightarrow> string" where
  "summarize files = show_nat (count_type ''created'' files) @ '' created, ''
     @ show_nat (count_type ''modified'' files) @ '' modified, ''
     @ show_nat (count_type ''deleted'' files) @ '' deleted''"

section \<open>Paths in a tree\<close>

definition below :: "string \<Rightarrow> string \<Rightarrow> bool" where
  "below p q \<longleftrightarrow> starts_with q (p @ ''/'')"

text \<open>A directory with a file in it stands at the path.\<close>

definition dir_at :: "tree \<Rightarrow> string \<Rightarrow> bool" where
  "dir_at t p \<longleftrightarrow> list_ex (\<lambda>(q, e). below p q) t"

text \<open>An entry stands at a parent directory of the path.\<close>

definition file_above :: "tree \<Rightarrow> string \<Rightarrow> bool" where
  "file_above t p \<longleftrightarrow> list_ex (\<lambda>(q, e). below q p) t"

lemma file_above_look: "file_above t p \<longleftrightarrow> (\<exists>q. look t q \<noteq> None \<and> below q p)"
  by (force simp: file_above_def list_ex_iff dom_map_of_conv_image_fst map_of_eq_None_iff)

lemma dir_at_look: "dir_at t p \<longleftrightarrow> (\<exists>q. look t q \<noteq> None \<and> below p q)"
  by (force simp: dir_at_def list_ex_iff dom_map_of_conv_image_fst map_of_eq_None_iff)


definition safe_join :: "tree \<Rightarrow> bool \<Rightarrow> string \<Rightarrow> change_error + string" where
  "safe_join t must_exist relative =
     (case normalize_relative relative of
        Inl e \<Rightarrow> Inl e
      | Inr p \<Rightarrow>
          if must_exist then
            (case look t p of
               None \<Rightarrow> Inl (if dir_at t p then Change_error ''CHANGE_PATH_INVALID'' else Os_error)
             | Some (Regular _) \<Rightarrow> Inr p
             | Some Link \<Rightarrow> Inl (Change_error ''CHANGE_PATH_ESCAPE'')
             | Some Other_entry \<Rightarrow> Inl (Change_error ''CHANGE_PATH_INVALID''))
          else if look t p = Some Link then Inl (Change_error ''CHANGE_PATH_SYMLINK'')
          else Inr p)"

text \<open>The bytes of a backup: \<^verbatim>\<open>_backup_path(stage, path, must_exist=True).read_bytes()\<close>.\<close>

definition read_backup :: "stage \<Rightarrow> string \<Rightarrow> change_error + string" where
  "read_backup sg relative =
     (case normalize_relative relative of
        Inl e \<Rightarrow> Inl e
      | Inr p \<Rightarrow>
          (case (case sg_undo sg of None \<Rightarrow> None | Some u \<Rightarrow> look u p) of
             None \<Rightarrow> Inl Os_error
           | Some (Regular b) \<Rightarrow> Inr b
           | Some Link \<Rightarrow> Inl (Change_error ''CHANGE_PATH_SYMLINK'')
           | Some Other_entry \<Rightarrow> Inl (Change_error ''CHANGE_PATH_INVALID'')))"

definition read_staged :: "stage \<Rightarrow> string \<Rightarrow> change_error + string" where
  "read_staged sg relative = bind_result (safe_join (sg_files sg) True relative)
     (\<lambda>p. case look (sg_files sg) p of Some (Regular b) \<Rightarrow> Inr b | _ \<Rightarrow> Inl Os_error)"

fun manifest_lines :: "change_env \<Rightarrow> stage \<Rightarrow> changed_file list \<Rightarrow> change_error + string" where
  "manifest_lines ev sg [] = Inr []"
| "manifest_lines ev sg (f # fs) =
     bind_result (safe_join (sg_files sg) (cf_type f \<noteq> ''deleted'') (cf_path f)) (\<lambda>p.
     bind_result (case look (sg_files sg) p of
          None \<Rightarrow> if cf_type f = ''deleted'' \<and> \<not> dir_at (sg_files sg) p then Inr ''<deleted>'' else Inl Os_error
        | Some (Regular b) \<Rightarrow> Inr (ce_sha ev b)
        | Some _ \<Rightarrow> Inl Os_error) (\<lambda>h.
     bind_result (manifest_lines ev sg fs) (\<lambda>rest.
       Inr (cf_path f @ [nul_char] @ h @ [char_of (10 :: nat)] @ rest))))"

definition stage_manifest_hash :: "change_env \<Rightarrow> stage \<Rightarrow> changed_file list \<Rightarrow> change_error + string" where
  "stage_manifest_hash ev sg files =
     bind_result (manifest_lines ev sg (sort_key cf_path files)) (\<lambda>text. Inr (ce_sha ev text))"

definition assert_owned_stage :: "change_env \<Rightarrow> string \<Rightarrow> change_error + unit" where
  "assert_owned_stage ev s =
     (if s = ce_staging ev then Inl (Change_error ''CHANGE_STAGE_ROOT_FORBIDDEN'')
      else if starts_with s (ce_staging ev @ ''/'') then Inr ()
      else Inl (Change_error ''CHANGE_STAGE_OUTSIDE_ROOT''))"

section \<open>Inspection and creation\<close>

definition regular_files :: "tree \<Rightarrow> (string \<times> string) list" where
  "regular_files t = concat (map (\<lambda>(p, e). case e of Regular b \<Rightarrow> [(p, b)] | _ \<Rightarrow> []) t)"

text \<open>\<^verbatim>\<open>_iter_files\<close>: the regular files outside the ignored directories.\<close>

definition iter_files :: "tree \<Rightarrow> (string \<times> string) list" where
  "iter_files t = filter (\<lambda>(p, b). \<not> below_ignored p) (regular_files t)"

definition snapshot_files :: "change_env \<Rightarrow> tree \<Rightarrow> (string \<times> snapshot_file) list" where
  "snapshot_files ev t = map (\<lambda>(p, b). (p, \<lparr>sf_path = p, sf_hash = ce_sha ev b, sf_size = length b,
       sf_content = read_text_preview ev p b MAX_CONTEXT_FILE_BYTES\<rparr>))
     (filter (\<lambda>(p, b). is_safe_relative_path p) (iter_files t))"

definition inspect_tree :: "change_env \<Rightarrow> string \<Rightarrow> tree \<Rightarrow> workspace_snapshot" where
  "inspect_tree ev rt t =
     (let files = snapshot_files ev t; h = snapshot_hash ev files in
      \<lparr>sn_root = rt, sn_files = files, sn_revision = ''workspace:'' @ take 24 h, sn_hash = h\<rparr>)"

text \<open>The host's identity of file names: baseline spellings win over staged ones, the last one over earlier ones.\<close>

definition canonical_paths :: "change_env \<Rightarrow> string list \<Rightarrow> string list \<Rightarrow> string \<rightharpoonup> string" where
  "canonical_paths ev staged baseline =
     map_of (rev (map (\<lambda>p. (ce_normcase ev p, p)) (staged @ baseline)))"

definition canonical :: "change_env \<Rightarrow> (string \<rightharpoonup> string) \<Rightarrow> string \<Rightarrow> change_error + string" where
  "canonical ev names path = bind_result (normalize_relative path)
     (\<lambda>q. Inr (case names (ce_normcase ev q) of Some p \<Rightarrow> p | None \<Rightarrow> q))"

fun all_results :: "('a \<Rightarrow> 'e + 'b) \<Rightarrow> 'a list \<Rightarrow> 'e + 'b list" where
  "all_results f [] = Inr []"
| "all_results f (x # xs) = bind_result (f x) (\<lambda>y. bind_result (all_results f xs) (\<lambda>ys. Inr (y # ys)))"

definition staged_change :: "change_env \<Rightarrow> stage \<Rightarrow> workspace_snapshot \<Rightarrow> string \<Rightarrow> change_error + changed_file option" where
  "staged_change ev sg baseline relative =
     (if \<not> is_safe_relative_path relative then Inl (Change_error ''CHANGE_PATH_UNSAFE'')
      else bind_result (read_staged sg relative) (\<lambda>data.
        let previous = map_of (sn_files baseline) relative; new_hash = ce_sha ev data in
        if (case previous of Some f \<Rightarrow> sf_hash f = new_hash | None \<Rightarrow> False) then Inr None
        else let (preview, supported, warning) =
               diff_preview ev relative (case previous of Some f \<Rightarrow> sf_content f | None \<Rightarrow> Some []) data in
          Inr (Some \<lparr>cf_path = relative, cf_type = (if previous = None then ''created'' else ''modified''),
            cf_prev = map_option sf_hash previous, cf_new = Some new_hash, cf_diff = preview,
            cf_preview = supported, cf_warning = warning\<rparr>)))"

definition deleted_change :: "change_env \<Rightarrow> workspace_snapshot \<Rightarrow> string \<Rightarrow> changed_file option" where
  "deleted_change ev baseline relative =
     (case map_of (sn_files baseline) relative of
        None \<Rightarrow> None
      | Some f \<Rightarrow> Some \<lparr>cf_path = relative, cf_type = ''deleted'', cf_prev = Some (sf_hash f), cf_new = None,
          cf_diff = map_option (\<lambda>c. take MAX_DIFF_CHARS (ce_delete_diff ev relative c)) (sf_content f),
          cf_preview = sf_content f \<noteq> None, cf_warning = None\<rparr>)"

definition sorted_set :: "string list \<Rightarrow> string list" where
  "sorted_set ps = sort (remdups ps)"

definition options :: "'a option list \<Rightarrow> 'a list" where
  "options xs = concat (map (\<lambda>x. case x of None \<Rightarrow> [] | Some a \<Rightarrow> [a]) xs)"

text \<open>The changed files of a stage, the body of \<^verbatim>\<open>create_from_stage\<close> up to the record it builds.\<close>

definition stage_changes :: "change_env \<Rightarrow> stage \<Rightarrow> workspace_snapshot \<Rightarrow> string list \<Rightarrow> string list
    \<Rightarrow> change_error + changed_file list" where
  "stage_changes ev sg baseline authorized_paths deleted_paths =
     (let staged0 = filter (\<lambda>p. p \<notin> IGNORED_STAGE) (map fst (iter_files (sg_files sg)));
          names = canonical_paths ev staged0 (map fst (sn_files baseline)) in
      bind_result (all_results (canonical ev names) staged0) (\<lambda>staged.
      bind_result (all_results (canonical ev names) (filter (\<lambda>p. p \<notin> IGNORED_STAGE) authorized_paths)) (\<lambda>authorized.
      bind_result (all_results (canonical ev names) deleted_paths) (\<lambda>deleted.
      if \<not> set deleted \<subseteq> set authorized \<or> set deleted \<inter> set staged \<noteq> {}
      then Inl (Change_error ''CHANGE_DELETE_INVALID'')
      else if \<not> set staged \<subseteq> set authorized then Inl (Change_error ''CHANGE_EXTRA_FILES'')
      else bind_result (all_results (staged_change ev sg baseline) (sorted_set staged)) (\<lambda>changes.
        let changed = options changes @ options (map (deleted_change ev baseline) (sorted_set deleted)) in
        if changed = [] then Inl (Change_error ''CHANGE_NO_CHANGES'') else Inr changed)))))"

end
