(* ===== verification/Change_Publish.thy ===== *)
theory Change_Publish
  imports Change_Sets
begin

text \<open>
  The operations of \<^verbatim>\<open>ChangeSetService\<close> on the disk, \<^verbatim>\<open>backend/changes/service.py\<close>: storing change sets,
  publication (\<^verbatim>\<open>apply\<close>), \<^verbatim>\<open>undo\<close>, the publication journal, recovery, \<^verbatim>\<open>discard\<close>, and the start of the
  service. Every write, removal and read that may fail is a step of \<open>Fault_Io\<close>; a write
  through a temporary file and a rename is one step, followed by the directory sync
  of POSIX hosts, which does nothing when \<open>ce_sync_fails\<close> is false (it succeeds, or the host is Windows).
\<close>

section \<open>Steps on the disk\<close>

abbreviation os_step :: "'a change_io \<Rightarrow> 'a change_io" where
  "os_step m \<equiv> step_io Os_error m"

abbreviation raise_change :: "string \<Rightarrow> 'a change_io" where
  "raise_change code \<equiv> raise_io (Change_error code)"

definition ws_tree :: "change_world \<Rightarrow> string \<Rightarrow> tree" where
  "ws_tree w r = (case cw_ws w r of None \<Rightarrow> [] | Some t \<Rightarrow> t)"

definition put_ws :: "string \<Rightarrow> string \<Rightarrow> string \<Rightarrow> change_world \<Rightarrow> change_world" where
  "put_ws r p b w = w\<lparr>cw_ws := (cw_ws w)(r \<mapsto> put p (Regular b) (ws_tree w r))\<rparr>"

definition del_ws :: "string \<Rightarrow> string \<Rightarrow> change_world \<Rightarrow> change_world" where
  "del_ws r p w = w\<lparr>cw_ws := (cw_ws w)(r \<mapsto> drop_path p (ws_tree w r))\<rparr>"

definition upd_stage :: "string \<Rightarrow> (stage \<Rightarrow> stage) \<Rightarrow> change_world \<Rightarrow> change_world" where
  "upd_stage s f w = w\<lparr>cw_stages := (cw_stages w)(s := map_option f (cw_stages w s))\<rparr>"

definition put_undo :: "string \<Rightarrow> string \<Rightarrow> stage \<Rightarrow> stage" where
  "put_undo p b sg = sg\<lparr>sg_undo := map_option (put p (Regular b)) (sg_undo sg)\<rparr>"

definition sync_directory :: "change_env \<Rightarrow> unit change_io" where
  "sync_directory ev = (if ce_sync_fails ev then os_step (return_io ()) else return_io ())"

definition atomic_write :: "change_env \<Rightarrow> (change_world \<Rightarrow> change_world) \<Rightarrow> unit change_io" where
  "atomic_write ev f = seq_io (os_step (modify_io f)) (sync_directory ev)"

definition set_memory :: "change_set \<Rightarrow> unit change_io" where
  "set_memory c = modify_io (\<lambda>w. w\<lparr>cw_sets := (cw_sets w)(cs_id c \<mapsto> c)\<rparr>)"

definition persist :: "change_env \<Rightarrow> change_set \<Rightarrow> unit change_io" where
  "persist ev c = atomic_write ev (\<lambda>w. w\<lparr>cw_meta := (cw_meta w)(cs_id c \<mapsto> c)\<rparr>)"

definition mark :: "change_env \<Rightarrow> change_set \<Rightarrow> string \<Rightarrow> unit change_io" where
  "mark ev c status = (let c' = with_status status None None c in seq_io (persist ev c') (set_memory c'))"

definition get_set :: "string \<Rightarrow> change_set change_io" where
  "get_set i = bind_io (gets_io (\<lambda>w. cw_sets w i)) (\<lambda>x. case x of
     None \<Rightarrow> raise_change ''CHANGE_SET_NOT_FOUND'' | Some c \<Rightarrow> return_io c)"

definition resolve_root :: "string \<Rightarrow> tree change_io" where
  "resolve_root r = bind_io (gets_io (\<lambda>w. cw_ws w r)) (\<lambda>x. case x of
     None \<Rightarrow> raise_io Os_error | Some t \<Rightarrow> return_io t)"

definition open_stage :: "change_env \<Rightarrow> string \<Rightarrow> stage change_io" where
  "open_stage ev s = bind_io (gets_io (\<lambda>w. cw_stages w s)) (\<lambda>x. case x of
     None \<Rightarrow> raise_io Os_error
   | Some sg \<Rightarrow> bind_io (lift_io (assert_owned_stage ev s)) (\<lambda>_. return_io sg))"

text \<open>\<^verbatim>\<open>unlink()\<close> of a path, which may have to exist.\<close>

definition unlink_ws :: "change_env \<Rightarrow> string \<Rightarrow> string \<Rightarrow> bool \<Rightarrow> unit change_io" where
  "unlink_ws ev r p missing_ok = seq_io
     (os_step (bind_io (gets_io (\<lambda>w. look (ws_tree w r) p)) (\<lambda>e.
        if e = None \<and> \<not> missing_ok then raise_io Os_error else modify_io (del_ws r p))))
     (sync_directory ev)"

text \<open>\<^verbatim>\<open>shutil.rmtree\<close>, file by file.\<close>

definition remove_undo :: "string \<Rightarrow> unit change_io" where
  "remove_undo s = bind_io (gets_io (\<lambda>w. case cw_stages w s of
        Some sg \<Rightarrow> (case sg_undo sg of Some u \<Rightarrow> map fst u | None \<Rightarrow> []) | None \<Rightarrow> []))
     (\<lambda>ps. seq_io (each_io (\<lambda>p. os_step (modify_io (upd_stage s (\<lambda>sg. sg\<lparr>sg_undo := map_option (drop_path p) (sg_undo sg)\<rparr>)))) ps)
       (os_step (modify_io (upd_stage s (\<lambda>sg. sg\<lparr>sg_undo := None\<rparr>)))))"

definition remove_stage :: "string \<Rightarrow> unit change_io" where
  "remove_stage s = seq_io (remove_undo s)
     (bind_io (gets_io (\<lambda>w. case cw_stages w s of Some sg \<Rightarrow> map fst (sg_files sg) | None \<Rightarrow> []))
       (\<lambda>ps. seq_io (each_io (\<lambda>p. os_step (modify_io (upd_stage s (\<lambda>sg. sg\<lparr>sg_files := drop_path p (sg_files sg)\<rparr>)))) ps)
         (os_step (modify_io (\<lambda>w. w\<lparr>cw_stages := (cw_stages w)(s := None)\<rparr>)))))"

text \<open>\<^verbatim>\<open>shutil.rmtree(.., ignore_errors=True)\<close>: what cannot be removed stays, with its directory.\<close>

definition quietly :: "unit change_io \<Rightarrow> unit change_io" where
  "quietly m = catch_io m (\<lambda>_. return_io ())"

definition remove_stage_quiet :: "string \<Rightarrow> unit change_io" where
  "remove_stage_quiet s = bind_io (gets_io (\<lambda>w. cw_stages w s)) (\<lambda>x. case x of
     None \<Rightarrow> return_io ()
   | Some sg0 \<Rightarrow>
       seq_io (each_io (\<lambda>p. quietly (os_step (modify_io (upd_stage s (\<lambda>sg. sg\<lparr>sg_undo := map_option (drop_path p) (sg_undo sg)\<rparr>)))))
         (case sg_undo sg0 of Some u \<Rightarrow> map fst u | None \<Rightarrow> []))
       (seq_io (quietly (os_step (modify_io (upd_stage s (\<lambda>sg. if sg_undo sg = Some [] then sg\<lparr>sg_undo := None\<rparr> else sg)))))
       (seq_io (each_io (\<lambda>p. quietly (os_step (modify_io (upd_stage s (\<lambda>sg. sg\<lparr>sg_files := drop_path p (sg_files sg)\<rparr>)))))
         (map fst (sg_files sg0)))
       (quietly (os_step (modify_io (\<lambda>w. if (case cw_stages w s of Some sg \<Rightarrow> sg_files sg = [] \<and> sg_undo sg = None | None \<Rightarrow> False)
         then w\<lparr>cw_stages := (cw_stages w)(s := None)\<rparr> else w)))))))"

section \<open>The publication journal and recovery\<close>

definition begin_publish :: "change_env \<Rightarrow> change_set \<Rightarrow> string \<Rightarrow> unit change_io" where
  "begin_publish ev c operation = bind_io (gets_io (\<lambda>w. cw_journal w (cs_id c))) (\<lambda>j.
     if j \<noteq> None then raise_change ''CHANGE_RECOVERY_REQUIRED''
     else atomic_write ev (\<lambda>w. w\<lparr>cw_journal := (cw_journal w)(cs_id c \<mapsto> Some
        \<lparr>pb_version = 1, pb_id = cs_id c, pb_operation = operation, pb_manifest = cs_manifest c\<rparr>)\<rparr>))"

definition finish_publish :: "change_env \<Rightarrow> string \<Rightarrow> unit change_io" where
  "finish_publish ev i =
     seq_io (os_step (modify_io (\<lambda>w. w\<lparr>cw_journal := (cw_journal w)(i := None)\<rparr>)))
     (seq_io (sync_directory ev)
       (modify_io (\<lambda>w. w\<lparr>cw_issues := (cw_issues w)(i := None)\<rparr>)))"

text \<open>What recovery decides about one file: its path, the content to write if it has to be restored,
  and the actual and the desired hash. Nothing is written before every file is decided.\<close>

definition recovery_plan :: "change_env \<Rightarrow> string \<Rightarrow> stage \<Rightarrow> tree \<Rightarrow> changed_file
    \<Rightarrow> change_error + (string \<times> string option \<times> string option \<times> string option)" where
  "recovery_plan ev operation sg t f =
     (let desired = (if operation = ''apply'' then cf_prev f else cf_new f);
          opposite = (if operation = ''apply'' then cf_new f else cf_prev f) in
      bind_result (safe_join t False (cf_path f)) (\<lambda>p.
      if look t p = Some Other_entry then Inl Os_error
      else let actual = entry_hash ev (look t p) in
        if actual \<noteq> desired \<and> actual \<noteq> opposite then Inl (Change_error ''CHANGE_RECOVERY_CONFLICT'')
        else if desired \<noteq> None \<and> actual \<noteq> desired
        then bind_result (if operation = ''apply'' then read_backup sg (cf_path f) else read_staged sg (cf_path f)) (\<lambda>data.
          if Some (ce_sha ev data) \<noteq> desired then Inl (Change_error ''CHANGE_RECOVERY_BACKUP_INVALID'')
          else Inr (p, Some data, actual, desired))
        else Inr (p, None, actual, desired)))"

definition recovery_write :: "change_env \<Rightarrow> string \<Rightarrow> string \<times> string option \<times> string option \<times> string option \<Rightarrow> unit change_io" where
  "recovery_write ev r = (\<lambda>(p, data, actual, desired).
     if actual = desired then return_io ()
     else case data of
       None \<Rightarrow> unlink_ws ev r p True
     | Some b \<Rightarrow> atomic_write ev (put_ws r p b))"

definition recovered_status :: "string option \<Rightarrow> string \<Rightarrow> string" where
  "recovered_status failure_status operation = (case failure_status of Some s \<Rightarrow> s
     | None \<Rightarrow> if operation = ''apply'' then ''pending'' else ''applied'')"

definition settle_recovery :: "change_env \<Rightarrow> string option \<Rightarrow> string \<Rightarrow> string \<Rightarrow> change_set \<Rightarrow> unit change_io" where
  "settle_recovery ev failure_status operation i c =
     seq_io (mark ev c (recovered_status failure_status operation))
     (seq_io (when_io (operation = ''apply'') (remove_undo (cs_staging c)))
       (finish_publish ev i))"

definition roll_back :: "change_env \<Rightarrow> string option \<Rightarrow> string \<Rightarrow> string \<Rightarrow> change_set \<Rightarrow> unit change_io" where
  "roll_back ev failure_status operation i c =
     bind_io (resolve_root (cs_workspace c)) (\<lambda>t.
     bind_io (open_stage ev (cs_staging c)) (\<lambda>sg.
     bind_io (map_io (\<lambda>f. os_step (lift_io (recovery_plan ev operation sg t f))) (cs_files c)) (\<lambda>prepared.
     seq_io (each_io (recovery_write ev (cs_workspace c)) prepared)
       (settle_recovery ev failure_status operation i c))))"

definition recover_body :: "change_env \<Rightarrow> string option \<Rightarrow> string \<Rightarrow> change_set \<Rightarrow> unit change_io" where
  "recover_body ev failure_status i c =
     bind_io (os_step (gets_io (\<lambda>w. cw_journal w i))) (\<lambda>j. case j of
       None \<Rightarrow> raise_io Os_error
     | Some None \<Rightarrow> raise_io Value_error
     | Some (Some jn) \<Rightarrow>
         let operation = pb_operation jn in
         if pb_version jn \<noteq> 1 \<or> pb_id jn \<noteq> i \<or> (operation \<noteq> ''apply'' \<and> operation \<noteq> ''undo'')
             \<or> pb_manifest jn \<noteq> cs_manifest c then raise_io Value_error
         else if cs_status c = (if operation = ''apply'' then ''applied'' else ''undone'') then finish_publish ev i
         else roll_back ev failure_status operation i c)"

definition error_code :: "change_error \<Rightarrow> string" where
  "error_code e = (case e of Change_error code \<Rightarrow> code | _ \<Rightarrow> ''CHANGE_RECOVERY_FAILED'')"

definition recover_publish :: "change_env \<Rightarrow> string option \<Rightarrow> string \<Rightarrow> unit change_io" where
  "recover_publish ev failure_status i = bind_io (get_set i) (\<lambda>c.
     catch_io (recover_body ev failure_status i c) (\<lambda>e.
       seq_io (modify_io (\<lambda>w. w\<lparr>cw_issues := (cw_issues w)(i \<mapsto> error_code e)\<rparr>))
         (mark ev c (case failure_status of Some s \<Rightarrow> s | None \<Rightarrow> ''conflicted''))))"

text \<open>The head of \<^verbatim>\<open>_apply_locked\<close> and \<^verbatim>\<open>_undo_locked\<close>: an interrupted publication is recovered first.\<close>

definition current_set :: "change_env \<Rightarrow> string \<Rightarrow> change_set change_io" where
  "current_set ev i = bind_io (get_set i) (\<lambda>c.
     bind_io (gets_io (\<lambda>w. cw_journal w i)) (\<lambda>j.
       if j \<noteq> None then seq_io (recover_publish ev None i) (get_set i) else return_io c))"

section \<open>Publication\<close>

definition unmarked :: "change_error + 'a \<Rightarrow> (string option \<times> change_error) + 'a" where
  "unmarked r = (case r of Inl e \<Rightarrow> Inl (None, e) | Inr x \<Rightarrow> Inr x)"

text \<open>The check of one file before anything is written: its path, the staged and the current bytes; an
  error comes with the status the change set is marked with.\<close>

definition prepare_file :: "change_env \<Rightarrow> stage \<Rightarrow> tree \<Rightarrow> changed_file
    \<Rightarrow> (string option \<times> change_error) + (string \<times> string option \<times> string option)" where
  "prepare_file ev sg t f =
     (if undo_namespace (cf_path f) then Inl (None, Change_error ''CHANGE_UNDO_BACKUP_INVALID'')
      else bind_result (unmarked (safe_join t False (cf_path f))) (\<lambda>p.
      bind_result (unmarked (safe_join (sg_files sg) (cf_type f \<noteq> ''deleted'') (cf_path f))) (\<lambda>q.
      bind_result (if cf_type f = ''deleted'' then Inr None
          else unmarked (bind_result (read_staged sg (cf_path f)) (\<lambda>b. Inr (Some b)))) (\<lambda>staged.
      if (cf_type f = ''deleted'' \<and> (look (sg_files sg) q \<noteq> None \<or> dir_at (sg_files sg) q \<or> cf_new f \<noteq> None))
         \<or> (case staged of Some b \<Rightarrow> Some (ce_sha ev b) \<noteq> cf_new f | None \<Rightarrow> False)
      then Inl (Some ''failed'', Change_error ''CHANGE_STAGE_TAMPERED'')
      else case look t p of
          None \<Rightarrow> if dir_at t p then Inl (Some ''conflicted'', Change_error ''CHANGE_TARGET_UNSAFE'')
                  else if cf_prev f \<noteq> None then Inl (Some ''conflicted'', Change_error ''CHANGE_CONFLICT'')
                  else Inr (p, staged, None)
        | Some (Regular b) \<Rightarrow>
            if cf_prev f = None \<or> Some (ce_sha ev b) \<noteq> cf_prev f
            then Inl (Some ''conflicted'', Change_error ''CHANGE_CONFLICT'')
            else Inr (p, staged, Some b)
        | Some _ \<Rightarrow> Inl (Some ''conflicted'', Change_error ''CHANGE_TARGET_UNSAFE'')))))"

definition prepare_io :: "change_env \<Rightarrow> change_set \<Rightarrow> stage \<Rightarrow> tree \<Rightarrow> changed_file \<Rightarrow> (string \<times> string option \<times> string option) change_io" where
  "prepare_io ev c sg t f = os_step (case prepare_file ev sg t f of
       Inr x \<Rightarrow> return_io x
     | Inl (None, e) \<Rightarrow> raise_io e
     | Inl (Some status, e) \<Rightarrow> seq_io (mark ev c status) (raise_io e))"

definition make_undo :: "string \<Rightarrow> unit change_io" where
  "make_undo s = os_step (bind_io (gets_io (\<lambda>w. cw_stages w s)) (\<lambda>x. case x of
     None \<Rightarrow> raise_io Os_error
   | Some sg \<Rightarrow> if sg_undo sg \<noteq> None then raise_io Os_error
       else modify_io (upd_stage s (\<lambda>sg. sg\<lparr>sg_undo := Some []\<rparr>))))"

definition backup_file :: "change_env \<Rightarrow> string \<Rightarrow> string \<times> string option \<times> string option \<Rightarrow> unit change_io" where
  "backup_file ev s = (\<lambda>(p, staged, original). case original of
     None \<Rightarrow> return_io ()
   | Some b \<Rightarrow> atomic_write ev (upd_stage s (put_undo p b)))"

definition publish_file :: "change_env \<Rightarrow> string \<Rightarrow> string \<times> string option \<times> string option \<Rightarrow> unit change_io" where
  "publish_file ev r = (\<lambda>(p, staged, original).
     seq_io (case staged of None \<Rightarrow> unlink_ws ev r p False | Some b \<Rightarrow> atomic_write ev (put_ws r p b))
       (modify_io (\<lambda>w. w\<lparr>cw_applied := cw_applied w @ [(p, original)]\<rparr>)))"

definition restore_file :: "change_env \<Rightarrow> string \<Rightarrow> string \<times> string option \<Rightarrow> unit change_io" where
  "restore_file ev r = (\<lambda>(p, original). catch_io
     (case original of None \<Rightarrow> os_step (modify_io (del_ws r p)) | Some b \<Rightarrow> atomic_write ev (put_ws r p b))
     (\<lambda>_. return_io ()))"

definition publish_all :: "change_env \<Rightarrow> change_set \<Rightarrow> (string \<times> string option \<times> string option) list \<Rightarrow> unit change_io" where
  "publish_all ev c prepared =
     seq_io (make_undo (cs_staging c))
     (seq_io (each_io (backup_file ev (cs_staging c)) prepared)
     (seq_io (begin_publish ev c ''apply'')
       (each_io (publish_file ev (cs_workspace c)) prepared)))"

definition apply_failed :: "change_env \<Rightarrow> change_set \<Rightarrow> unit change_io" where
  "apply_failed ev c =
     bind_io (gets_io cw_applied) (\<lambda>applied.
     seq_io (each_io (restore_file ev (cs_workspace c)) (rev applied))
     (seq_io (mark ev c ''failed'')
     (bind_io (gets_io (\<lambda>w. cw_journal w (cs_id c))) (\<lambda>j.
     seq_io (when_io (j \<noteq> None) (recover_publish ev (Some ''failed'') (cs_id c)))
       (raise_change ''CHANGE_APPLY_FAILED'')))))"

definition apply_pending :: "change_env \<Rightarrow> rat \<Rightarrow> string \<Rightarrow> change_set \<Rightarrow> change_set change_io" where
  "apply_pending ev now i c =
     bind_io (resolve_root (cs_workspace c)) (\<lambda>t.
     bind_io (open_stage ev (cs_staging c)) (\<lambda>sg.
     bind_io (os_step (return_io (inspect_tree ev (cs_workspace c) t))) (\<lambda>snap.
     if cs_base_hash c \<noteq> [] \<and> sn_hash snap \<noteq> cs_base_hash c
     then seq_io (mark ev c ''conflicted'') (raise_change ''CHANGE_CONFLICT'')
     else bind_io (if cs_manifest c = [] then return_io []
         else os_step (lift_io (stage_manifest_hash ev sg (cs_files c)))) (\<lambda>h.
     if cs_manifest c \<noteq> [] \<and> h \<noteq> cs_manifest c
     then seq_io (mark ev c ''failed'') (raise_change ''CHANGE_STAGE_TAMPERED'')
     else bind_io (map_io (prepare_io ev c sg t) (cs_files c)) (\<lambda>prepared.
     seq_io (modify_io (\<lambda>w. w\<lparr>cw_applied := []\<rparr>))
     (seq_io (catch_io (publish_all ev c prepared) (\<lambda>_. apply_failed ev c))
     (let updated = with_status ''applied'' (Some now) None c in
      seq_io (persist ev updated)
     (seq_io (set_memory updated)
     (seq_io (finish_publish ev i)
       (return_io updated))))))))))"

definition apply_set :: "change_env \<Rightarrow> rat \<Rightarrow> string \<Rightarrow> change_set change_io" where
  "apply_set ev now i = bind_io (current_set ev i) (\<lambda>c.
     if cs_status c \<noteq> ''pending'' then raise_change ''CHANGE_SET_NOT_PENDING''
     else apply_pending ev now i c)"

section \<open>Undo\<close>

definition undo_original :: "change_env \<Rightarrow> stage \<Rightarrow> changed_file \<Rightarrow> change_error + (string \<times> string option)" where
  "undo_original ev sg f =
     (if cf_type f = ''created'' then Inr (cf_path f, None)
      else case read_backup sg (cf_path f) of
        Inl _ \<Rightarrow> Inl (Change_error ''CHANGE_UNDO_BACKUP_INVALID'')
      | Inr b \<Rightarrow> if Some (ce_sha ev b) \<noteq> cf_prev f then Inl (Change_error ''CHANGE_UNDO_BACKUP_INVALID'')
          else Inr (cf_path f, Some b))"

definition undo_check :: "change_env \<Rightarrow> tree \<Rightarrow> changed_file \<Rightarrow> change_error + unit" where
  "undo_check ev t f = bind_result (safe_join t False (cf_path f)) (\<lambda>p.
     if cf_type f = ''deleted''
     then (if look t p \<noteq> None \<or> dir_at t p then Inl (Change_error ''CHANGE_UNDO_CONFLICT'') else Inr ())
     else case look t p of
       Some (Regular b) \<Rightarrow> if Some (ce_sha ev b) \<noteq> cf_new f then Inl (Change_error ''CHANGE_UNDO_CONFLICT'') else Inr ()
     | _ \<Rightarrow> Inl (Change_error ''CHANGE_UNDO_CONFLICT''))"

definition undo_file :: "change_env \<Rightarrow> string \<Rightarrow> changed_file \<times> string option \<Rightarrow> unit change_io" where
  "undo_file ev r = (\<lambda>(f, original).
     bind_io (os_step (bind_io (gets_io (\<lambda>w. ws_tree w r)) (\<lambda>t.
         lift_io (bind_result (safe_join t (cf_type f \<noteq> ''deleted'') (cf_path f)) (\<lambda>p.
           Inr (p, if cf_type f = ''deleted'' then None
              else case look t p of Some (Regular b) \<Rightarrow> Some b | _ \<Rightarrow> None)))))) (\<lambda>(p, current).
       if cf_type f = ''created''
       then seq_io (unlink_ws ev r p False) (modify_io (\<lambda>w. w\<lparr>cw_removed := cw_removed w @ [(p, case current of Some b \<Rightarrow> b | None \<Rightarrow> [])]\<rparr>))
       else seq_io (atomic_write ev (put_ws r p (case original of Some b \<Rightarrow> b | None \<Rightarrow> [])))
         (modify_io (\<lambda>w. w\<lparr>cw_applied := cw_applied w @ [(p, current)]\<rparr>))))"

definition undo_failed :: "change_env \<Rightarrow> change_set \<Rightarrow> change_error \<Rightarrow> unit change_io" where
  "undo_failed ev c e =
     bind_io (gets_io cw_applied) (\<lambda>restored.
     seq_io (each_io (restore_file ev (cs_workspace c)) (rev restored))
     (bind_io (gets_io cw_removed) (\<lambda>removed.
     seq_io (each_io (\<lambda>(p, b). restore_file ev (cs_workspace c) (p, Some b)) (rev removed))
     (seq_io (recover_publish ev None (cs_id c))
       (raise_io (case e of Change_error code \<Rightarrow> e | _ \<Rightarrow> Change_error ''CHANGE_UNDO_FAILED''))))))"

definition undo_applied :: "change_env \<Rightarrow> rat \<Rightarrow> string \<Rightarrow> change_set \<Rightarrow> change_set change_io" where
  "undo_applied ev now i c =
     bind_io (resolve_root (cs_workspace c)) (\<lambda>t.
     bind_io (open_stage ev (cs_staging c)) (\<lambda>sg.
     bind_io (map_io (\<lambda>f. os_step (lift_io (undo_original ev sg f))) (cs_files c)) (\<lambda>originals.
     seq_io (each_io (\<lambda>f. os_step (lift_io (undo_check ev t f))) (cs_files c))
     (seq_io (modify_io (\<lambda>w. w\<lparr>cw_applied := [], cw_removed := []\<rparr>))
     (seq_io (catch_io (seq_io (begin_publish ev c ''undo'')
           (each_io (undo_file ev (cs_workspace c)) (rev (zip (cs_files c) (map snd originals)))))
         (undo_failed ev c))
     (let updated = with_status ''undone'' None (Some now) c in
      seq_io (seq_io (persist ev updated)
       (seq_io (set_memory updated)
       (seq_io (finish_publish ev i) (return_io updated))))
     (seq_io (remove_stage_quiet (cs_staging c))
       (return_io updated))))))))"

definition undo_set :: "change_env \<Rightarrow> rat \<Rightarrow> string \<Rightarrow> change_set change_io" where
  "undo_set ev now i = bind_io (current_set ev i) (\<lambda>c.
     if cs_status c \<noteq> ''applied'' then raise_change ''CHANGE_SET_NOT_APPLIED''
     else undo_applied ev now i c)"

section \<open>Other operations\<close>

definition discard_set :: "change_env \<Rightarrow> string \<Rightarrow> change_set change_io" where
  "discard_set ev i = bind_io (get_set i) (\<lambda>c.
     if cs_status c \<noteq> ''pending'' \<and> cs_status c \<noteq> ''draft'' then raise_change ''CHANGE_SET_NOT_PENDING''
     else bind_io (gets_io (\<lambda>w. cw_stages w (cs_staging c))) (\<lambda>x.
     seq_io (when_io (x \<noteq> None) (seq_io (lift_io (assert_owned_stage ev (cs_staging c)))
         (catch_io (remove_stage (cs_staging c)) (\<lambda>e. raise_io (case e of Os_error \<Rightarrow> Change_error ''CHANGE_DISCARD_FAILED'' | _ \<Rightarrow> e)))))
     (let updated = with_status ''discarded'' None None c in
      seq_io (set_memory updated) (seq_io (persist ev updated) (return_io updated)))))"

definition annotate_authorization :: "change_env \<Rightarrow> string \<Rightarrow> string option \<Rightarrow> string \<Rightarrow> string \<Rightarrow> bool \<Rightarrow> change_set change_io" where
  "annotate_authorization ev i auth source risk review = bind_io (get_set i) (\<lambda>c.
     if cs_status c \<noteq> ''pending'' then raise_change ''CHANGE_SET_NOT_PENDING''
     else let updated = c\<lparr>cs_auth := auth, cs_auth_source := source, cs_risk := risk, cs_review := review\<rparr> in
       seq_io (set_memory updated) (seq_io (persist ev updated) (return_io updated)))"

text \<open>The identifier of a stage is alphanumeric up to dashes and underscores; its directory must be new.\<close>

definition is_alnum :: "char \<Rightarrow> bool" where
  "is_alnum c = (let n = of_char c :: nat in (48 \<le> n \<and> n \<le> 57) \<or> (65 \<le> n \<and> n \<le> 90) \<or> (97 \<le> n \<and> n \<le> 122))"

definition create_stage :: "change_env \<Rightarrow> string \<Rightarrow> string change_io" where
  "create_stage ev identifier =
     (let plain = filter (\<lambda>c. c \<noteq> CHR ''-'' \<and> c \<noteq> CHR ''_'') identifier; s = ce_staging ev @ ''/'' @ identifier in
      if plain = [] \<or> \<not> list_all is_alnum plain then raise_change ''CHANGE_STAGE_ID_INVALID''
      else seq_io (os_step (bind_io (gets_io (\<lambda>w. cw_stages w s)) (\<lambda>x.
          if x \<noteq> None then raise_io Os_error
          else modify_io (\<lambda>w. w\<lparr>cw_stages := (cw_stages w)(s \<mapsto> \<lparr>sg_files = [], sg_undo = None\<rparr>)\<rparr>))))
        (return_io s))"

definition create_from_stage :: "change_env \<Rightarrow> rat \<Rightarrow> string \<Rightarrow> string \<Rightarrow> string \<Rightarrow> string \<Rightarrow> workspace_snapshot
    \<Rightarrow> string list \<Rightarrow> string list \<Rightarrow> string option \<Rightarrow> string \<Rightarrow> string \<Rightarrow> bool \<Rightarrow> bool \<Rightarrow> change_set change_io" where
  "create_from_stage ev now fresh provider workspace s baseline authorized deleted auth source risk review draft =
     bind_io (resolve_root workspace) (\<lambda>t.
     bind_io (open_stage ev s) (\<lambda>sg.
     if sn_root baseline \<noteq> workspace then raise_change ''CHANGE_BASELINE_MISMATCH''
     else bind_io (os_step (lift_io (stage_changes ev sg baseline authorized deleted))) (\<lambda>changed.
     bind_io (os_step (lift_io (stage_manifest_hash ev sg changed))) (\<lambda>h.
     let c = \<lparr>cs_id = fresh, cs_provider = provider, cs_workspace = workspace, cs_staging = s,
         cs_status = (if draft then ''draft'' else ''pending''), cs_files = changed, cs_summary = summarize changed,
         cs_revision = sn_revision baseline, cs_base_hash = sn_hash baseline, cs_manifest = h,
         cs_auth = auth, cs_auth_source = source, cs_risk = risk, cs_review = review,
         cs_created = now, cs_applied = None, cs_undone = None\<rparr> in
     seq_io (set_memory c) (seq_io (persist ev c) (return_io c))))))"

definition inspect_workspace :: "change_env \<Rightarrow> string \<Rightarrow> workspace_snapshot change_io" where
  "inspect_workspace ev r = bind_io (resolve_root r) (\<lambda>t. os_step (return_io (inspect_tree ev r t)))"

text \<open>The start of the service: the stored change sets are loaded, then every interrupted publication is
  recovered, in the order in which the directory lists the change sets.\<close>

definition start_service :: "change_env \<Rightarrow> string list \<Rightarrow> unit change_io" where
  "start_service ev listing =
     seq_io (modify_io (\<lambda>w. w\<lparr>cw_sets := cw_meta w, cw_issues := Map.empty, cw_applied := [], cw_removed := []\<rparr>))
       (each_io (\<lambda>i. bind_io (gets_io (\<lambda>w. cw_sets w i \<noteq> None \<and> cw_journal w i \<noteq> None)) (\<lambda>b.
          when_io b (recover_publish ev None i))) listing)"

end
