(* ===== verification/Change_Inv.thy ===== *)
theory Change_Inv
  imports Change_Publish
begin

text \<open>
  Crash safety of publication: the invariant of a change set, its workspace, its backups and its
  journal that every operation preserves at every step, whatever fails and wherever the process dies,
  and the recovery that settles it.
\<close>

section \<open>Rules for the steps of the service\<close>

lemma triple_sync: "\<not> ce_sync_fails ev \<Longrightarrow> triple calm (Q ()) (sync_directory ev) Q E D"
  by (simp add: sync_directory_def triple_return)

lemma triple_atomic:
  assumes "\<not> ce_sync_fails ev" "\<And>w. P w \<Longrightarrow> Q () (f w)" "\<not> calm \<Longrightarrow> (\<And>w. P w \<Longrightarrow> E Os_error w \<and> D w)"
  shows "triple calm P (atomic_write ev f) Q E D"
  unfolding atomic_write_def
proof (rule triple_seq)
  show "triple calm P (os_step (modify_io f)) (\<lambda>_. Q ()) E D"
    by (rule triple_step_modify) (use assms in auto)
  show "triple calm (Q ()) (sync_directory ev) Q E D" by (rule triple_sync[OF assms(1)])
qed

lemma triple_persist:
  assumes "\<not> ce_sync_fails ev" "\<And>w. P w \<Longrightarrow> Q () (w\<lparr>cw_meta := (cw_meta w)(cs_id c \<mapsto> c)\<rparr>)"
    "\<not> calm \<Longrightarrow> (\<And>w. P w \<Longrightarrow> E Os_error w \<and> D w)"
  shows "triple calm P (persist ev c) Q E D"
  unfolding persist_def by (rule triple_atomic) (use assms in auto)

text \<open>A change set is stored on the disk and in memory with no step in between.\<close>

definition store_set :: "change_set \<Rightarrow> change_world \<Rightarrow> change_world" where
  "store_set c w = w\<lparr>cw_meta := (cw_meta w)(cs_id c \<mapsto> c), cw_sets := (cw_sets w)(cs_id c \<mapsto> c)\<rparr>"

lemma triple_store:
  assumes "\<not> ce_sync_fails ev" "\<And>w. P w \<Longrightarrow> Q () (store_set c w)"
    "\<not> calm \<Longrightarrow> (\<And>w. P w \<Longrightarrow> E Os_error w \<and> D w)"
  shows "triple calm P (seq_io (persist ev c) (set_memory c)) Q E D"
  unfolding set_memory_def
proof (rule triple_seq)
  show "triple calm P (persist ev c) (\<lambda>_ w. Q () (w\<lparr>cw_sets := (cw_sets w)(cs_id c \<mapsto> c)\<rparr>)) E D"
    by (rule triple_persist) (use assms in \<open>auto simp: store_set_def\<close>)
qed (rule triple_modify)

lemma triple_mark:
  assumes "\<not> ce_sync_fails ev" "\<And>w. P w \<Longrightarrow> Q () (store_set (with_status st None None c) w)"
    "\<not> calm \<Longrightarrow> (\<And>w. P w \<Longrightarrow> E Os_error w \<and> D w)"
  shows "triple calm P (mark ev c st) Q E D"
  unfolding mark_def Let_def by (rule triple_store) (use assms in auto)

lemma triple_finish:
  assumes "\<not> ce_sync_fails ev"
    "\<And>w. P w \<Longrightarrow> Q () (w\<lparr>cw_journal := (cw_journal w)(i := None), cw_issues := (cw_issues w)(i := None)\<rparr>)"
    "\<not> calm \<Longrightarrow> (\<And>w. P w \<Longrightarrow> E Os_error w \<and> D w)"
  shows "triple calm P (finish_publish ev i) Q E D"
  unfolding finish_publish_def
proof (rule triple_seq)
  let ?R = "\<lambda>w. Q () (w\<lparr>cw_issues := (cw_issues w)(i := None)\<rparr>)"
  show "triple calm P (os_step (modify_io (\<lambda>w. w\<lparr>cw_journal := (cw_journal w)(i := None)\<rparr>))) (\<lambda>_. ?R) E D"
    by (rule triple_step_modify) (use assms in auto)
  show "triple calm ?R (seq_io (sync_directory ev) (modify_io (\<lambda>w. w\<lparr>cw_issues := (cw_issues w)(i := None)\<rparr>))) Q E D"
    by (rule triple_seq[OF triple_sync[OF assms(1)] triple_modify])
qed

lemma triple_read:
  assumes "\<And>a w. r = Inr a \<Longrightarrow> P w \<Longrightarrow> Q a w" "\<And>x w. r = Inl x \<Longrightarrow> P w \<Longrightarrow> E x w"
    "\<not> calm \<Longrightarrow> (\<And>w. P w \<Longrightarrow> E e w \<and> D w)"
  shows "triple calm P (step_io e (lift_io r)) Q E D"
  by (rule triple_step[OF triple_lift]) (use assms in auto)

lemma triple_map_read:
  fixes g :: "'x \<Rightarrow> 'e + 'a"
  assumes "\<And>w. P w \<Longrightarrow> calm \<Longrightarrow> \<forall>x \<in> set xs. \<exists>a. g x = Inr a" "\<And>x w. \<not> calm \<Longrightarrow> P w \<Longrightarrow> E x w \<and> D w"
  shows "triple calm P (map_io (\<lambda>x. step_io e (lift_io (g x))) xs)
    (\<lambda>as w. P w \<and> list_all2 (\<lambda>x a. g x = Inr a) xs as) E D"
proof -
  have "triple calm (\<lambda>w. P w \<and> list_all2 (\<lambda>x a. g x = Inr a) [] [])
      (map_io (\<lambda>x. step_io e (lift_io (g x))) xs) (\<lambda>as w. P w \<and> list_all2 (\<lambda>x a. g x = Inr a) xs as) E D"
  proof (rule triple_map)
    fix ys x zs and as :: "'a list"
    assume x: "xs = ys @ x # zs"
    show "triple calm (\<lambda>w. P w \<and> list_all2 (\<lambda>x a. g x = Inr a) ys as) (step_io e (lift_io (g x)))
        (\<lambda>a w. P w \<and> list_all2 (\<lambda>x a. g x = Inr a) (ys @ [x]) (as @ [a])) E D"
    proof (rule triple_read)
      fix y w assume "g x = Inl y" "P w \<and> list_all2 (\<lambda>x a. g x = Inr a) ys as"
      then show "E y w" using assms x by (cases calm) auto
    qed (use assms(2) in \<open>auto intro: list_all2_appendI\<close>)
  qed
  then show ?thesis by simp
qed

lemma triple_each_read:
  fixes g :: "'x \<Rightarrow> 'e + unit"
  assumes "\<And>x w. P w \<Longrightarrow> calm \<Longrightarrow> x \<in> set xs \<Longrightarrow> \<exists>a. g x = Inr a" "\<And>x w. \<not> calm \<Longrightarrow> P w \<Longrightarrow> E x w \<and> D w"
  shows "triple calm P (each_io (\<lambda>x. step_io e (lift_io (g x))) xs) (\<lambda>_ w. P w \<and> (\<forall>x \<in> set xs. g x = Inr ())) E D"
proof -
  have "triple calm (\<lambda>w. P w \<and> (\<forall>x \<in> set []. g x = Inr ()))
      (each_io (\<lambda>x. step_io e (lift_io (g x))) xs) (\<lambda>_ w. P w \<and> (\<forall>x \<in> set xs. g x = Inr ())) E D"
  proof (rule triple_each[where J = "\<lambda>ys w. P w \<and> (\<forall>x \<in> set ys. g x = Inr ())"])
    fix ys x zs
    assume x: "xs = ys @ x # zs"
    show "triple calm (\<lambda>w. P w \<and> (\<forall>x \<in> set ys. g x = Inr ())) (step_io e (lift_io (g x)))
        (\<lambda>_ w. P w \<and> (\<forall>x \<in> set (ys @ [x]). g x = Inr ())) E D"
    proof (rule triple_read)
      fix y w assume "g x = Inl y" "P w \<and> (\<forall>x \<in> set ys. g x = Inr ())"
      then show "E y w" using assms(1)[of w x] assms(2)[of w] x by (cases calm) auto
    qed (use assms(2) in auto)
  qed
  then show ?thesis by simp
qed

section \<open>The invariant\<close>

definition plain_entry :: "entry option \<Rightarrow> bool" where
  "plain_entry e \<longleftrightarrow> e = None \<or> (\<exists>b. e = Some (Regular b))"

text \<open>A change set that describes the step from the content \<open>old\<close> of a workspace to the content \<open>new\<close>.\<close>

definition describes :: "change_env \<Rightarrow> change_set \<Rightarrow> (string \<Rightarrow> entry option) \<Rightarrow> (string \<Rightarrow> entry option) \<Rightarrow> bool" where
  "describes ev c old new \<longleftrightarrow>
     assert_owned_stage ev (cs_staging c) = Inr () \<and> distinct (map cf_path (cs_files c))
     \<and> (\<forall>f \<in> set (cs_files c). normalize_relative (cf_path f) = Inr (cf_path f)
          \<and> plain_entry (old (cf_path f)) \<and> plain_entry (new (cf_path f))
          \<and> cf_prev f = entry_hash ev (old (cf_path f)) \<and> cf_new f = entry_hash ev (new (cf_path f))
          \<and> cf_prev f \<noteq> cf_new f
          \<and> (cf_type f = ''deleted'' \<longleftrightarrow> new (cf_path f) = None) \<and> (cf_type f = ''created'' \<longleftrightarrow> old (cf_path f) = None))
     \<and> (\<forall>p. p \<notin> cf_path ` set (cs_files c) \<longrightarrow> old p = new p)"

abbreviation content :: "change_set \<Rightarrow> change_world \<Rightarrow> string \<Rightarrow> entry option" where
  "content c w \<equiv> look (ws_tree w (cs_workspace c))"

definition stage_ok :: "change_set \<Rightarrow> (string \<Rightarrow> entry option) \<Rightarrow> change_world \<Rightarrow> bool" where
  "stage_ok c new w \<longleftrightarrow> (\<exists>sg. cw_stages w (cs_staging c) = Some sg
     \<and> (\<forall>f \<in> set (cs_files c). new (cf_path f) \<noteq> None \<longrightarrow> look (sg_files sg) (cf_path f) = new (cf_path f)))"

definition backups :: "change_set \<Rightarrow> (string \<Rightarrow> entry option) \<Rightarrow> change_world \<Rightarrow> bool" where
  "backups c old w \<longleftrightarrow> (\<exists>sg u. cw_stages w (cs_staging c) = Some sg \<and> sg_undo sg = Some u
     \<and> (\<forall>f \<in> set (cs_files c). old (cf_path f) \<noteq> None \<longrightarrow> look u (cf_path f) = old (cf_path f)))"

definition same_set :: "change_set \<Rightarrow> change_set \<Rightarrow> bool" where
  "same_set c c' \<longleftrightarrow> c' = c\<lparr>cs_status := cs_status c', cs_applied := cs_applied c', cs_undone := cs_undone c'\<rparr>"

definition pub_of :: "change_set \<Rightarrow> string \<Rightarrow> pub_journal option" where
  "pub_of c operation = Some \<lparr>pb_version = 1, pb_id = cs_id c, pb_operation = operation, pb_manifest = cs_manifest c\<rparr>"

text \<open>The change set in memory and on the disk, no other interrupted publication, and every path with its old or its new content.\<close>

definition held :: "change_set \<Rightarrow> (string \<Rightarrow> entry option) \<Rightarrow> (string \<Rightarrow> entry option) \<Rightarrow> change_set \<Rightarrow> change_world \<Rightarrow> bool" where
  "held c old new c' w \<longleftrightarrow> same_set c c' \<and> cw_ws w (cs_workspace c) \<noteq> None
     \<and> (\<forall>k. k \<noteq> cs_id c \<longrightarrow> cw_journal w k = None)
     \<and> cw_sets w (cs_id c) = Some c' \<and> cw_meta w (cs_id c) = Some c'
     \<and> (\<forall>p. content c w p = old p \<or> content c w p = new p)"

definition settled :: "change_set \<Rightarrow> (string \<Rightarrow> entry option) \<Rightarrow> (string \<Rightarrow> entry option) \<Rightarrow> change_set \<Rightarrow> change_world \<Rightarrow> bool" where
  "settled c old new c' w \<longleftrightarrow>
     content c w = old \<and> cs_status c' \<noteq> ''applied'' \<and> (cs_status c' = ''pending'' \<longrightarrow> stage_ok c new w)
   \<or> content c w = new \<and> cs_status c' \<noteq> ''pending'' \<and> cs_status c' \<noteq> ''undone''
       \<and> (cs_status c' = ''applied'' \<longrightarrow> stage_ok c new w \<and> backups c old w)"

definition publishing :: "change_set \<Rightarrow> (string \<Rightarrow> entry option) \<Rightarrow> (string \<Rightarrow> entry option) \<Rightarrow> change_set \<Rightarrow> string \<Rightarrow> change_world \<Rightarrow> bool" where
  "publishing c old new c' operation w \<longleftrightarrow> stage_ok c new w
     \<and> (operation = ''apply'' \<and> (content c w = old \<or> backups c old w)
          \<and> (cs_status c' = ''applied'' \<longrightarrow> content c w = new \<and> backups c old w)
        \<or> operation = ''undo'' \<and> backups c old w \<and> (cs_status c' = ''undone'' \<longrightarrow> content c w = old))"

definition change_inv :: "change_set \<Rightarrow> (string \<Rightarrow> entry option) \<Rightarrow> (string \<Rightarrow> entry option) \<Rightarrow> change_world \<Rightarrow> bool" where
  "change_inv c old new w \<longleftrightarrow> (\<exists>c'. held c old new c' w \<and>
     (cw_journal w (cs_id c) = None \<and> settled c old new c' w
      \<or> (\<exists>operation. cw_journal w (cs_id c) = Some (pub_of c operation) \<and> publishing c old new c' operation w)))"

lemma same_set_fields:
  assumes "same_set c c'"
  shows "cs_id c' = cs_id c" "cs_workspace c' = cs_workspace c" "cs_staging c' = cs_staging c"
    "cs_files c' = cs_files c" "cs_manifest c' = cs_manifest c" "cs_base_hash c' = cs_base_hash c"
  using assms by (cases c; cases c'; simp add: same_set_def)+

lemma same_set_status: "same_set c c' \<Longrightarrow> same_set c (with_status st a u c')"
  by (cases c; cases c') (simp add: same_set_def with_status_def)

lemma with_status_fields [simp]:
  "cs_status (with_status st a u c) = st" "cs_id (with_status st a u c) = cs_id c"
  by (simp_all add: with_status_def)

lemma store_set_fields [simp]:
  "cw_ws (store_set c w) = cw_ws w" "cw_stages (store_set c w) = cw_stages w" "cw_journal (store_set c w) = cw_journal w"
  "ws_tree (store_set c w) = ws_tree w" "cw_sets (store_set c w) = (cw_sets w)(cs_id c \<mapsto> c)"
  "cw_meta (store_set c w) = (cw_meta w)(cs_id c \<mapsto> c)"
  by (simp_all add: store_set_def ws_tree_def fun_eq_iff)

lemma ws_tree_updates [simp]:
  "ws_tree (w\<lparr>cw_journal := a\<rparr>) = ws_tree w" "ws_tree (w\<lparr>cw_issues := b\<rparr>) = ws_tree w" "ws_tree (w\<lparr>cw_stages := s\<rparr>) = ws_tree w"
  "ws_tree (w\<lparr>cw_applied := l\<rparr>) = ws_tree w" "ws_tree (w\<lparr>cw_removed := m\<rparr>) = ws_tree w" "ws_tree (w\<lparr>cw_sets := x\<rparr>) = ws_tree w"
  "ws_tree (w\<lparr>cw_meta := x\<rparr>) = ws_tree w" "ws_tree (upd_stage st f w) = ws_tree w"
  by (simp_all add: ws_tree_def fun_eq_iff upd_stage_def)

lemma ws_tree_put [simp]:
  "ws_tree (put_ws r p b w) r = put p (Regular b) (ws_tree w r)" "ws_tree (del_ws r p w) r = drop_path p (ws_tree w r)"
  by (simp_all add: ws_tree_def put_ws_def del_ws_def)

lemma put_ws_fields [simp]:
  "cw_stages (put_ws r p b w) = cw_stages w" "cw_journal (put_ws r p b w) = cw_journal w" "cw_sets (put_ws r p b w) = cw_sets w"
  "cw_meta (put_ws r p b w) = cw_meta w" "cw_ws (put_ws r p b w) r \<noteq> None"
  "cw_stages (del_ws r p w) = cw_stages w" "cw_journal (del_ws r p w) = cw_journal w" "cw_sets (del_ws r p w) = cw_sets w"
  "cw_meta (del_ws r p w) = cw_meta w" "cw_ws (del_ws r p w) r \<noteq> None"
  by (simp_all add: put_ws_def del_ws_def)

lemma upd_stage_fields [simp]:
  "cw_ws (upd_stage s f w) = cw_ws w" "cw_journal (upd_stage s f w) = cw_journal w" "cw_sets (upd_stage s f w) = cw_sets w"
  "cw_meta (upd_stage s f w) = cw_meta w" "cw_stages (upd_stage s f w) = (cw_stages w)(s := map_option f (cw_stages w s))"
  by (simp_all add: upd_stage_def)

text \<open>The predicates only depend on the workspace and the stage.\<close>

lemma stage_ok_cong: "cw_stages w' (cs_staging c) = cw_stages w (cs_staging c) \<Longrightarrow> stage_ok c new w' = stage_ok c new w"
  by (simp add: stage_ok_def)

lemma backups_cong: "cw_stages w' (cs_staging c) = cw_stages w (cs_staging c) \<Longrightarrow> backups c old w' = backups c old w"
  by (simp add: backups_def)

lemma settled_cong:
  "cw_stages w' = cw_stages w \<Longrightarrow> ws_tree w' = ws_tree w \<Longrightarrow> settled c old new c' w' = settled c old new c' w"
  by (simp add: settled_def stage_ok_def backups_def)

lemma publishing_cong:
  "cw_stages w' = cw_stages w \<Longrightarrow> ws_tree w' = ws_tree w \<Longrightarrow> publishing c old new c' p w' = publishing c old new c' p w"
  by (simp add: publishing_def stage_ok_def backups_def)

lemma held_store:
  assumes "held c old new c' w" "same_set c d"
  shows "held c old new d (store_set d w)"
  using assms same_set_fields(1)[OF assms(2)] by (simp add: held_def)

lemma inv_locals:
  "change_inv c old new (w\<lparr>cw_issues := x\<rparr>) = change_inv c old new w"
  "change_inv c old new (w\<lparr>cw_applied := l\<rparr>) = change_inv c old new w"
  "change_inv c old new (w\<lparr>cw_removed := m\<rparr>) = change_inv c old new w"
  by (simp_all add: change_inv_def held_def settled_def publishing_def stage_ok_def backups_def)

text \<open>Recording a failure keeps the invariant, whatever the state.\<close>

lemma inv_failed:
  assumes "change_inv c old new w" "same_set c d" "cs_status d = ''failed'' \<or> cs_status d = ''conflicted''"
  shows "change_inv c old new (store_set d w)"
proof -
  obtain c' where h: "held c old new c' w" and j: "cw_journal w (cs_id c) = None \<and> settled c old new c' w
      \<or> (\<exists>operation. cw_journal w (cs_id c) = Some (pub_of c operation) \<and> publishing c old new c' operation w)"
    using assms(1) by (auto simp: change_inv_def)
  have "settled c old new d (store_set d w)" if "settled c old new c' w"
    using that assms(3) by (auto simp: settled_def)
  moreover have "publishing c old new d operation (store_set d w)" if "publishing c old new c' operation w" for operation
  proof -
    have "publishing c old new c' operation (store_set d w)" using that publishing_cong [of "store_set d w" w c old new c' operation] by simp
    moreover have "cs_status d \<noteq> ''applied''" "cs_status d \<noteq> ''undone''" using assms(3) by auto
    ultimately show ?thesis unfolding publishing_def by blast
  qed
  ultimately show ?thesis
    using held_store[OF h assms(2)] j unfolding change_inv_def by auto
qed

end
