(* ===== verification/Change_Recovery.thy ===== *)
theory Change_Recovery
  imports Change_Inv
begin

text \<open>
  Recovery of an interrupted publication: it keeps the invariant of the change set whatever fails, it
  settles the change set when nothing fails, and it never overwrites a file that is neither
  in its old nor in its new state.
\<close>

section \<open>Single steps under the invariant\<close>

lemma describesD:
  assumes "describes ev c old new" "f \<in> set (cs_files c)"
  shows "normalize_relative (cf_path f) = Inr (cf_path f)" "plain_entry (old (cf_path f))" "plain_entry (new (cf_path f))"
    "cf_prev f = entry_hash ev (old (cf_path f))" "cf_new f = entry_hash ev (new (cf_path f))" "cf_prev f \<noteq> cf_new f"
    "cf_type f = ''deleted'' \<longleftrightarrow> new (cf_path f) = None" "cf_type f = ''created'' \<longleftrightarrow> old (cf_path f) = None"
  using assms unfolding describes_def by blast+

lemma describes_other: "describes ev c old new \<Longrightarrow> p \<notin> cf_path ` set (cs_files c) \<Longrightarrow> old p = new p"
  unfolding describes_def by blast

lemma plain_entry_hash:
  "plain_entry e \<Longrightarrow> e \<noteq> Some Other_entry \<and> e \<noteq> Some Link \<and> (entry_hash ev e = None \<longleftrightarrow> e = None)"
  by (auto simp: plain_entry_def entry_hash_def)

lemma hash_separates:
  assumes "describes ev c old new" "f \<in> set (cs_files c)" "e = old (cf_path f) \<or> e = new (cf_path f)"
  shows "entry_hash ev e = cf_prev f \<longleftrightarrow> e = old (cf_path f)" "entry_hash ev e = cf_new f \<longleftrightarrow> e = new (cf_path f)"
  using assms unfolding describes_def by metis+

lemma content_put:
  "content c (put_ws (cs_workspace c) p b w) = (content c w)(p \<mapsto> Regular b)"
  "content c (del_ws (cs_workspace c) p w) = (content c w)(p := None)"
  by simp_all

text \<open>Writing the old or the new content of a path keeps every file in its old or new state.\<close>

lemma held_put:
  assumes "held c old new c' w" "Some (Regular b) = old p \<or> Some (Regular b) = new p"
  shows "held c old new c' (put_ws (cs_workspace c) p b w)"
  using assms unfolding held_def by simp

lemma held_del:
  assumes "held c old new c' w" "old p = None \<or> new p = None"
  shows "held c old new c' (del_ws (cs_workspace c) p w)"
  using assms unfolding held_def by (auto simp: eq_commute[of None])

lemma held_journal:
  assumes "held c old new c' w"
  shows "held c old new c' (w\<lparr>cw_journal := (cw_journal w)(cs_id c := j)\<rparr>)"
    "held c old new c' (w\<lparr>cw_issues := x\<rparr>)" "held c old new c' (w\<lparr>cw_applied := l\<rparr>)" "held c old new c' (w\<lparr>cw_removed := m\<rparr>)"
  using assms unfolding held_def by simp_all

lemma held_stage: "held c old new c' w \<Longrightarrow> held c old new c' (upd_stage s f w)"
  unfolding held_def by simp

lemma stage_undo:
  "stage_ok c new w \<Longrightarrow> (\<And>sg. sg_files (f sg) = sg_files sg) \<Longrightarrow> stage_ok c new (upd_stage s f w)"
  unfolding stage_ok_def by (auto simp: upd_stage_def)

lemma inv_publishing:
  "held c old new c' w \<Longrightarrow> cw_journal w (cs_id c) = Some (pub_of c operation) \<Longrightarrow> publishing c old new c' operation w
    \<Longrightarrow> change_inv c old new w"
  unfolding change_inv_def by blast

lemma inv_settled:
  "held c old new c' w \<Longrightarrow> cw_journal w (cs_id c) = None \<Longrightarrow> settled c old new c' w \<Longrightarrow> change_inv c old new w"
  unfolding change_inv_def by blast

section \<open>The recovery plan\<close>

definition restored :: "string \<Rightarrow> (string \<Rightarrow> entry option) \<Rightarrow> (string \<Rightarrow> entry option) \<Rightarrow> string \<Rightarrow> entry option" where
  "restored operation old new = (if operation = ''apply'' then old else new)"

text \<open>A plan entry is right for a path with the current content \<open>e\<close>.\<close>

definition plan_ok :: "change_env \<Rightarrow> (string \<Rightarrow> entry option) \<Rightarrow> (string \<Rightarrow> entry option) \<Rightarrow> changed_file
    \<Rightarrow> string \<times> string option \<times> string option \<times> string option \<Rightarrow> bool" where
  "plan_ok ev t target f x \<longleftrightarrow> (case x of (p, data, actual, desired) \<Rightarrow> p = cf_path f
     \<and> (actual = desired \<longleftrightarrow> t p = target p)
     \<and> (actual \<noteq> desired \<longrightarrow> target p = map_option Regular data))"

lemma read_backup_plain:
  assumes "normalize_relative p = Inr p" "sg_undo sg = Some u" "look u p = Some (Regular b)"
  shows "read_backup sg p = Inr b"
  using assms by (simp add: read_backup_def)

lemma read_staged_plain:
  assumes "normalize_relative p = Inr p" "look (sg_files sg) p = Some (Regular b)"
  shows "read_staged sg p = Inr b"
  using assms by (simp add: read_staged_def safe_join_def)

lemma recovery_plan_ok:
  assumes "describes ev c old new" "f \<in> set (cs_files c)" "operation = ''apply'' \<or> operation = ''undo''"
    and "look t (cf_path f) = old (cf_path f) \<or> look t (cf_path f) = new (cf_path f)"
    and "\<And>b. look t (cf_path f) \<noteq> restored operation old new (cf_path f) \<Longrightarrow> restored operation old new (cf_path f) = Some (Regular b) \<Longrightarrow>
      (if operation = ''apply'' then read_backup sg (cf_path f) else read_staged sg (cf_path f)) = Inr b"
  shows "\<exists>x. recovery_plan ev operation sg t f = Inr x \<and> plan_ok ev (look t) (restored operation old new) f x"
proof -
  let ?p = "cf_path f"
  let ?desired = "if operation = ''apply'' then cf_prev f else cf_new f"
  let ?opposite = "if operation = ''apply'' then cf_new f else cf_prev f"
  let ?actual = "entry_hash ev (look t ?p)"
  note d = describesD[OF assms(1,2)]
  have pl: "plain_entry (look t ?p)" using assms(4) d(2,3) by metis
  have sj: "safe_join t False ?p = Inr ?p" "look t ?p \<noteq> Some Other_entry"
    using plain_entry_hash[OF pl, of ev] d(1) by (simp_all add: safe_join_def)
  have eqv: "?actual = ?desired \<longleftrightarrow> look t ?p = restored operation old new ?p"
    using hash_separates[OF assms(1,2,4)] by (simp add: restored_def)
  have known: "?actual = ?desired \<or> ?actual = ?opposite"
    using hash_separates[OF assms(1,2,4)] assms(4) by auto
  have rp: "plain_entry (restored operation old new ?p)" "?desired = entry_hash ev (restored operation old new ?p)"
    using d by (simp_all add: restored_def)
  show ?thesis
  proof (cases "?actual = ?desired")
    case True
    then have "recovery_plan ev operation sg t f = Inr (?p, None, ?actual, ?desired)"
      using sj known by (simp add: recovery_plan_def Let_def)
    then show ?thesis using eqv True by (simp add: plan_ok_def)
  next
    case False
    then have ne: "look t ?p \<noteq> restored operation old new ?p" using eqv by blast
    show ?thesis
    proof (cases "restored operation old new ?p")
      case None
      then have "?desired = None" using rp by (simp add: entry_hash_def)
      then have "recovery_plan ev operation sg t f = Inr (?p, None, ?actual, ?desired)"
        using sj known False by (cases "operation = ''apply''") (auto simp: recovery_plan_def Let_def)
      then show ?thesis using None eqv by (simp add: plan_ok_def)
    next
      case (Some e)
      then obtain b where b: "restored operation old new ?p = Some (Regular b)"
        using rp(1) by (auto simp: plain_entry_def)
      then have h: "?desired = Some (ce_sha ev b)" using rp(2) by (simp add: entry_hash_def)
      have "(if operation = ''apply'' then read_backup sg ?p else read_staged sg ?p) = Inr b"
        by (rule assms(5)[OF ne b])
      then have "recovery_plan ev operation sg t f = Inr (?p, Some b, ?actual, ?desired)"
        using sj known False h by (simp add: recovery_plan_def Let_def split: if_splits)
      then show ?thesis using b eqv by (simp add: plan_ok_def)
    qed
  qed
qed

text \<open>A plan that was made is right, even where the process may fail.\<close>

lemma plan_right:
  assumes "describes ev c old new" "held c old new c' w" "publishing c old new c' operation w"
    and "cw_stages w (cs_staging c) = Some sg" "f \<in> set (cs_files c)"
  shows "\<exists>x. recovery_plan ev operation sg (ws_tree w (cs_workspace c)) f = Inr x
    \<and> plan_ok ev (content c w) (restored operation old new) f x"
proof (rule recovery_plan_ok[OF assms(1,5)])
  show "operation = ''apply'' \<or> operation = ''undo''" using assms(3) by (auto simp: publishing_def)
  show "content c w (cf_path f) = old (cf_path f) \<or> content c w (cf_path f) = new (cf_path f)"
    using assms(2) by (simp add: held_def)
  fix b
  assume ne: "content c w (cf_path f) \<noteq> restored operation old new (cf_path f)"
    and b: "restored operation old new (cf_path f) = Some (Regular b)"
  note d = describesD[OF assms(1,5)]
  show "(if operation = ''apply'' then read_backup sg (cf_path f) else read_staged sg (cf_path f)) = Inr b"
  proof (cases "operation = ''apply''")
    case True
    then have "backups c old w" using assms(3) ne by (auto simp: publishing_def restored_def)
    then obtain u where "sg_undo sg = Some u" "look u (cf_path f) = Some (Regular b)"
      using assms(4,5) b True by (auto simp: backups_def restored_def)
    then show ?thesis using True read_backup_plain[OF d(1)] by simp
  next
    case False
    have "stage_ok c new w" using assms(3) by (simp add: publishing_def)
    then have "look (sg_files sg) (cf_path f) = Some (Regular b)"
      using assms(4,5) b False by (auto simp: stage_ok_def restored_def)
    then show ?thesis using False read_staged_plain[OF d(1)] by simp
  qed
qed

section \<open>Recovery\<close>

text \<open>The state of a recovery between its journal and its mark: what has to be kept for a second recovery.\<close>

definition rolling :: "change_set \<Rightarrow> (string \<Rightarrow> entry option) \<Rightarrow> (string \<Rightarrow> entry option) \<Rightarrow> change_set \<Rightarrow> string \<Rightarrow> change_world \<Rightarrow> bool" where
  "rolling c old new c' operation w \<longleftrightarrow> held c old new c' w \<and> cw_journal w (cs_id c) = Some (pub_of c operation)
     \<and> publishing c old new c' operation w
     \<and> cs_status c' \<noteq> (if operation = ''apply'' then ''applied'' else ''undone'')"

lemma rolling_inv: "rolling c old new c' operation w \<Longrightarrow> change_inv c old new w"
  unfolding rolling_def by (blast intro: inv_publishing)

lemma publishing_write:
  assumes "rolling c old new c' operation w" "restored operation old new p = Some (Regular b)"
  shows "rolling c old new c' operation (put_ws (cs_workspace c) p b w)"
proof -
  have "held c old new c' (put_ws (cs_workspace c) p b w)"
    using held_put[of c old new c' w b p] assms by (auto simp: rolling_def restored_def split: if_splits)
  moreover have "content c w = old \<Longrightarrow> restored operation old new p = old p \<Longrightarrow> content c (put_ws (cs_workspace c) p b w) = old"
    using assms(2) by (auto simp: fun_eq_iff)
  ultimately show ?thesis
    using assms by (auto simp: rolling_def publishing_def stage_ok_def backups_def restored_def split: if_splits)
qed

lemma publishing_remove:
  assumes "rolling c old new c' operation w" "restored operation old new p = None"
  shows "rolling c old new c' operation (del_ws (cs_workspace c) p w)"
proof -
  have "held c old new c' (del_ws (cs_workspace c) p w)"
    using held_del[of c old new c' w p] assms by (auto simp: rolling_def restored_def split: if_splits)
  moreover have "content c w = old \<Longrightarrow> restored operation old new p = old p \<Longrightarrow> content c (del_ws (cs_workspace c) p w) = old"
    using assms(2) by (auto simp: fun_eq_iff)
  ultimately show ?thesis
    using assms by (auto simp: rolling_def publishing_def stage_ok_def backups_def restored_def split: if_splits)
qed

text \<open>What a failing or dying step may leave: the invariant, and nothing of it when no step fails.\<close>

definition crash_inv :: "bool \<Rightarrow> change_set \<Rightarrow> (string \<Rightarrow> entry option) \<Rightarrow> (string \<Rightarrow> entry option) \<Rightarrow> change_world \<Rightarrow> bool" where
  "crash_inv calm c old new w \<longleftrightarrow> \<not> calm \<and> change_inv c old new w"

lemma rolling_crash: "\<not> calm \<Longrightarrow> rolling c old new c' operation w \<Longrightarrow> crash_inv calm c old new w"
  by (simp add: crash_inv_def rolling_inv)

lemma recovery_write_triple:
  assumes sync: "\<not> ce_sync_fails ev" and x: "plan_ok ev t (restored operation old new) f x"
  shows "triple calm (\<lambda>w. rolling c old new c' operation w \<and> content c w (cf_path f) = t (cf_path f) \<and> R w)
    (recovery_write ev (cs_workspace c) x)
    (\<lambda>_ w. \<exists>v. R v \<and> rolling c old new c' operation w \<and> content c w = (content c v)(cf_path f := restored operation old new (cf_path f)))
    (\<lambda>_. crash_inv calm c old new) (crash_inv calm c old new)"
proof -
  obtain p data actual desired where xs: "x = (p, data, actual, desired)" by (metis prod_cases4)
  have p: "p = cf_path f" using x xs by (simp add: plan_ok_def)
  show ?thesis
  proof (cases "actual = desired")
    case True
    then have "t p = restored operation old new p" using x xs p by (simp add: plan_ok_def)
    then have "triple calm (\<lambda>w. rolling c old new c' operation w \<and> content c w p = t p \<and> R w) (return_io ())
        (\<lambda>_ w. \<exists>v. R v \<and> rolling c old new c' operation w \<and> content c w = (content c v)(p := restored operation old new p))
        (\<lambda>_. crash_inv calm c old new) (crash_inv calm c old new)"
      by (intro triple_pre[OF triple_return]) (auto simp: fun_eq_iff)
    then show ?thesis using True xs p by (simp add: recovery_write_def)
  next
    case False
    then have d: "restored operation old new p = map_option Regular data" using x xs p by (simp add: plan_ok_def)
    show ?thesis
    proof (cases data)
      case None
      have "triple calm (\<lambda>w. rolling c old new c' operation w \<and> content c w p = t p \<and> R w) (unlink_ws ev (cs_workspace c) p True)
          (\<lambda>_ w. \<exists>v. R v \<and> rolling c old new c' operation w \<and> content c w = (content c v)(p := restored operation old new p))
          (\<lambda>_. crash_inv calm c old new) (crash_inv calm c old new)"
        unfolding unlink_ws_def
      proof (rule triple_seq[OF triple_step triple_sync[OF sync]], rule triple_gets_bind)
        fix a
        show "triple calm (\<lambda>w. (rolling c old new c' operation w \<and> content c w p = t p \<and> R w) \<and> a = content c w p)
          (if a = None \<and> \<not> True then raise_io Os_error else modify_io (del_ws (cs_workspace c) p))
          (\<lambda>_ w. \<exists>v. R v \<and> rolling c old new c' operation w \<and> content c w = (content c v)(p := restored operation old new p))
          (\<lambda>_. crash_inv calm c old new) (crash_inv calm c old new)"
          using d None publishing_remove[of c old new c' operation _ p]
          by (simp, intro triple_pre[OF triple_modify]) (auto simp: fun_eq_iff)
      qed (auto intro: rolling_crash)
      then show ?thesis using False xs p None by (simp add: recovery_write_def)
    next
      case (Some b)
      have "triple calm (\<lambda>w. rolling c old new c' operation w \<and> content c w p = t p \<and> R w) (atomic_write ev (put_ws (cs_workspace c) p b))
          (\<lambda>_ w. \<exists>v. R v \<and> rolling c old new c' operation w \<and> content c w = (content c v)(p := restored operation old new p))
          (\<lambda>_. crash_inv calm c old new) (crash_inv calm c old new)"
      proof (rule triple_atomic[OF sync])
        fix w assume w: "rolling c old new c' operation w \<and> content c w p = t p \<and> R w"
        then show "\<exists>v. R v \<and> rolling c old new c' operation (put_ws (cs_workspace c) p b w)
            \<and> content c (put_ws (cs_workspace c) p b w) = (content c v)(p := restored operation old new p)"
          using d Some publishing_write[of c old new c' operation w p b] by (intro exI[of _ w]) (auto simp: fun_eq_iff)
      qed (auto intro: rolling_crash)
      then show ?thesis using False xs p Some by (simp add: recovery_write_def)
    qed
  qed
qed

text \<open>The write loop restores every file.\<close>

lemma recovery_writes_triple:
  assumes sync: "\<not> ce_sync_fails ev" and d: "describes ev c old new"
    and plans: "list_all2 (plan_ok ev t (restored operation old new)) (cs_files c) xs"
  shows "triple calm (\<lambda>w. rolling c old new c' operation w \<and> content c w = t)
    (each_io (recovery_write ev (cs_workspace c)) xs)
    (\<lambda>_ w. rolling c old new c' operation w \<and> content c w = restored operation old new)
    (\<lambda>_. crash_inv calm c old new) (crash_inv calm c old new)"
proof -
  let ?A = "restored operation old new"
  define J where "J ys w \<longleftrightarrow> rolling c old new c' operation w
      \<and> content c w = (\<lambda>p. if p \<in> cf_path ` set (take (length ys) (cs_files c)) then ?A p else t p)" for ys :: "(string \<times> string option \<times> string option \<times> string option) list" and w
  have "triple calm (J []) (each_io (recovery_write ev (cs_workspace c)) xs) (\<lambda>_. J xs)
      (\<lambda>_. crash_inv calm c old new) (crash_inv calm c old new)"
  proof (rule triple_each)
    fix ys x zs assume x: "xs = ys @ x # zs"
    define n where "n = length ys"
    have n: "n < length (cs_files c)" "xs ! n = x"
      using x plans by (auto simp: n_def list_all2_lengthD)
    let ?f = "cs_files c ! n"
    have ok: "plan_ok ev t ?A ?f x" using list_all2_nthD[OF plans n(1)] n(2) by simp
    have tk: "take (Suc n) (cs_files c) = take n (cs_files c) @ [?f]" using n(1) by (simp add: take_Suc_conv_app_nth)
    have "distinct (map cf_path (cs_files c))" using d by (simp add: describes_def)
    then have "distinct (map cf_path (take (Suc n) (cs_files c)))" by (metis distinct_take take_map)
    then have new: "cf_path ?f \<notin> cf_path ` set (take n (cs_files c))" by (simp add: tk)
    show "triple calm (J ys) (recovery_write ev (cs_workspace c) x) (\<lambda>_. J (ys @ [x])) (\<lambda>_. crash_inv calm c old new) (crash_inv calm c old new)"
    proof (rule triple_post[OF triple_pre[OF recovery_write_triple[OF sync ok, of calm c c' "J ys"]]])
      fix w assume "J ys w"
      then show "rolling c old new c' operation w \<and> content c w (cf_path ?f) = t (cf_path ?f) \<and> J ys w"
        using new by (simp add: J_def n_def)
    next
      fix w assume "\<exists>v. J ys v \<and> rolling c old new c' operation w \<and> content c w = (content c v)(cf_path ?f := ?A (cf_path ?f))"
      then show "J (ys @ [x]) w" by (auto simp: J_def n_def[symmetric] tk fun_eq_iff)
    qed auto
  qed
  moreover have "J xs w \<Longrightarrow> content c w = ?A" if "rolling c old new c' operation w" for w
  proof -
    assume J: "J xs w"
    have "content c w p = ?A p" for p
    proof (cases "p \<in> cf_path ` set (cs_files c)")
      case True
      then show ?thesis using J list_all2_lengthD[OF plans] by (simp add: J_def)
    next
      case False
      then have "old p = new p" by (rule describes_other[OF d])
      moreover have "content c w p = old p \<or> content c w p = new p" using that by (simp add: rolling_def held_def)
      ultimately show ?thesis by (simp add: restored_def split: if_split)
    qed
    then show ?thesis by blast
  qed
  ultimately show ?thesis
    by (elim triple_post[OF triple_pre]) (auto simp: J_def)
qed

lemma triple_step_gets:
  assumes "\<not> calm \<Longrightarrow> (\<And>w. P w \<Longrightarrow> E e w \<and> D w)"
  shows "triple calm P (step_io e (gets_io f)) (\<lambda>a w. P w \<and> a = f w) E D"
proof (rule triple_step)
  show "triple calm P (gets_io f) (\<lambda>a w. P w \<and> a = f w) E D"
    by (rule triple_pre[OF triple_gets]) simp
qed (rule assms)

lemma triple_resolve_root:
  assumes "\<And>w. P w \<Longrightarrow> cw_ws w r \<noteq> None" "\<And>t w. P w \<Longrightarrow> ws_tree w r = t \<Longrightarrow> Q t w"
  shows "triple calm P (resolve_root r) Q E D"
  unfolding resolve_root_def
proof (rule triple_gets_bind)
  fix a
  show "triple calm (\<lambda>w. P w \<and> a = cw_ws w r) (case a of None \<Rightarrow> raise_io Os_error | Some t \<Rightarrow> return_io t) Q E D"
  proof (cases a)
    case None
    show ?thesis by (rule triple_never) (use assms(1) None in fastforce)
  next
    case (Some t)
    have "Q t w" if "P w" "cw_ws w r = Some t" for w
      using assms(2)[OF that(1), of t] that(2) by (simp add: ws_tree_def)
    then show ?thesis using Some by (auto simp: triple_def return_io_def)
  qed
qed

lemma triple_open_stage:
  assumes "assert_owned_stage ev s = Inr ()" "\<And>w. P w \<Longrightarrow> cw_stages w s \<noteq> None"
    and "\<And>sg w. P w \<Longrightarrow> cw_stages w s = Some sg \<Longrightarrow> Q sg w"
  shows "triple calm P (open_stage ev s) Q E D"
  unfolding open_stage_def
proof (rule triple_gets_bind)
  fix a
  show "triple calm (\<lambda>w. P w \<and> a = cw_stages w s) (case a of None \<Rightarrow> raise_io Os_error
     | Some sg \<Rightarrow> bind_io (lift_io (assert_owned_stage ev s)) (\<lambda>_. return_io sg)) Q E D"
  proof (cases a)
    case None
    show ?thesis by (rule triple_never) (use assms(2) None in fastforce)
  qed (use assms(1,3) in \<open>auto simp: triple_def return_io_def lift_io_def bind_io_def\<close>)
qed

lemma remove_undo_triple:
  assumes "\<And>w f. P w \<Longrightarrow> (\<And>sg. sg_files (f sg) = sg_files sg) \<Longrightarrow> P (upd_stage s f w)" "\<And>w. \<not> calm \<Longrightarrow> P w \<Longrightarrow> E Os_error w \<and> D w"
  shows "triple calm P (remove_undo s) (\<lambda>_. P) E D"
  unfolding remove_undo_def
proof (rule triple_gets_bind)
  fix ps
  have st: "triple calm P (os_step (modify_io (upd_stage s f))) (\<lambda>_. P) E D" if "\<And>sg. sg_files (f sg) = sg_files sg" for f
    by (rule triple_step_modify) (use assms that in auto)
  have "triple calm P (seq_io (each_io (\<lambda>p. os_step (modify_io (upd_stage s (\<lambda>sg. sg\<lparr>sg_undo := map_option (drop_path p) (sg_undo sg)\<rparr>)))) ps)
       (os_step (modify_io (upd_stage s (\<lambda>sg. sg\<lparr>sg_undo := None\<rparr>))))) (\<lambda>_. P) E D"
    by (rule triple_seq[OF triple_each[where J = "\<lambda>_. P"]]) (auto intro!: st)
  then show "triple calm (\<lambda>w. P w \<and> ps = (case cw_stages w s of None \<Rightarrow> [] | Some sg \<Rightarrow> (case sg_undo sg of None \<Rightarrow> [] | Some u \<Rightarrow> map fst u)))
      (seq_io (each_io (\<lambda>p. os_step (modify_io (upd_stage s (\<lambda>sg. sg\<lparr>sg_undo := map_option (drop_path p) (sg_undo sg)\<rparr>)))) ps)
       (os_step (modify_io (upd_stage s (\<lambda>sg. sg\<lparr>sg_undo := None\<rparr>))))) (\<lambda>_. P) E D"
    by (rule triple_pre) simp
qed

definition recovered :: "change_set \<Rightarrow> (string \<Rightarrow> entry option) \<Rightarrow> (string \<Rightarrow> entry option) \<Rightarrow> change_world \<Rightarrow> bool" where
  "recovered c old new w \<longleftrightarrow> change_inv c old new w \<and> cw_journal w (cs_id c) = None"

lemma finish_committed:
  assumes "\<not> ce_sync_fails ev" "operation = ''apply'' \<or> operation = ''undo''"
    "cs_status c' = (if operation = ''apply'' then ''applied'' else ''undone'')"
  shows "triple calm (\<lambda>w. held c old new c' w \<and> cw_journal w (cs_id c) = Some (pub_of c operation) \<and> publishing c old new c' operation w)
    (finish_publish ev (cs_id c)) (\<lambda>_. recovered c old new) (\<lambda>_. crash_inv calm c old new) (crash_inv calm c old new)"
proof (rule triple_finish[OF assms(1)])
  fix w assume w: "held c old new c' w \<and> cw_journal w (cs_id c) = Some (pub_of c operation) \<and> publishing c old new c' operation w"
  let ?w = "w\<lparr>cw_journal := (cw_journal w)(cs_id c := None), cw_issues := (cw_issues w)(cs_id c := None)\<rparr>"
  have "settled c old new c' w" using w assms(2,3) by (auto simp: publishing_def settled_def)
  then have "settled c old new c' ?w" by (simp add: settled_cong[of ?w w])
  moreover have "held c old new c' ?w" using w by (intro held_journal(2) held_journal(1)) simp
  ultimately show "recovered c old new ?w" by (simp add: recovered_def inv_settled)
qed (auto simp: crash_inv_def intro: inv_publishing)

lemma finish_rolled_back:
  assumes "\<not> ce_sync_fails ev"
  shows "triple calm (\<lambda>w. held c old new d w \<and> cw_journal w (cs_id c) = Some (pub_of c operation)
      \<and> publishing c old new d operation w \<and> settled c old new d w)
    (finish_publish ev (cs_id c)) (\<lambda>_. recovered c old new) (\<lambda>_. crash_inv calm c old new) (crash_inv calm c old new)"
proof (rule triple_finish[OF assms(1)])
  fix w assume w: "held c old new d w \<and> cw_journal w (cs_id c) = Some (pub_of c operation)
      \<and> publishing c old new d operation w \<and> settled c old new d w"
  let ?w = "w\<lparr>cw_journal := (cw_journal w)(cs_id c := None), cw_issues := (cw_issues w)(cs_id c := None)\<rparr>"
  have "settled c old new d ?w" using w by (simp add: settled_cong[of ?w w])
  moreover have "held c old new d ?w" using w by (intro held_journal(2) held_journal(1)) simp
  ultimately show "recovered c old new ?w" by (simp add: recovered_def inv_settled)
qed (auto simp: crash_inv_def intro: inv_publishing)

text \<open>After the writes: the mark, the removal of the backups and the end of the journal.\<close>

lemma settle_recovery_triple:
  assumes sync: "\<not> ce_sync_fails ev" and fs: "fs = None \<or> fs = Some ''failed''" and same: "same_set c c'"
    and op: "operation = ''apply'' \<or> operation = ''undo''"
  shows "triple calm (\<lambda>w. rolling c old new c' operation w \<and> content c w = restored operation old new)
    (settle_recovery ev fs operation (cs_id c) c')
    (\<lambda>_. recovered c old new) (\<lambda>_. crash_inv calm c old new) (crash_inv calm c old new)"
proof -
  let ?A = "restored operation old new" and ?E = "crash_inv calm c old new"
  define d where "d = with_status (recovered_status fs operation) None None c'"
  have d: "same_set c d" "cs_status d = recovered_status fs operation"
    using same_set_status same by (simp_all add: d_def)
  let ?R = "\<lambda>w. held c old new d w \<and> cw_journal w (cs_id c) = Some (pub_of c operation) \<and> publishing c old new d operation w
      \<and> settled c old new d w"
  let ?K = "\<lambda>w. ?R w \<and> content c w = ?A"
  have marked: "?K (store_set d w)" if w: "rolling c old new c' operation w \<and> content c w = ?A" for w
  proof -
    have "held c old new d (store_set d w)" using w d(1) by (intro held_store) (auto simp: rolling_def)
    moreover have "publishing c old new d operation (store_set d w)" "settled c old new d (store_set d w)"
      using w d(2) fs op by (auto simp: rolling_def publishing_def settled_def restored_def stage_ok_def backups_def
          recovered_status_def split: if_splits)
    ultimately show ?thesis using w by (simp add: rolling_def)
  qed
  have crash: "\<And>w. \<not> calm \<Longrightarrow> ?K w \<Longrightarrow> ?E w" by (auto simp: crash_inv_def intro: inv_publishing)
  have undo: "triple calm ?K (when_io (operation = ''apply'') (remove_undo (cs_staging c'))) (\<lambda>_. ?R) (\<lambda>_. ?E) ?E"
  proof (rule triple_when)
    assume ap: "operation = ''apply''"
    then have na: "cs_status d \<noteq> ''applied''" using d(2) fs by (auto simp: recovered_status_def)
    have "?K (upd_stage (cs_staging c') f w)" if w: "?K w" and f: "\<And>sg. sg_files (f sg) = sg_files sg" for f w
    proof -
      have "stage_ok c new (upd_stage (cs_staging c') f w)"
        using w f by (intro stage_undo) (auto simp: publishing_def)
      then show ?thesis using w na ap held_stage by (auto simp: publishing_def settled_def restored_def)
    qed
    then have "triple calm ?K (remove_undo (cs_staging c')) (\<lambda>_. ?K) (\<lambda>_. ?E) ?E"
      by (intro remove_undo_triple) (use crash in blast)+
    then show "triple calm ?K (remove_undo (cs_staging c')) (\<lambda>_. ?R) (\<lambda>_. ?E) ?E"
      by (rule triple_post) auto
  qed auto
  show ?thesis
    unfolding settle_recovery_def
    by (rule triple_seq[OF triple_mark[OF sync] triple_seq[OF undo finish_rolled_back[OF sync]]])
      (use marked rolling_crash in \<open>auto simp: d_def[symmetric]\<close>)
qed

text \<open>The plan is right for the whole list, and exists.\<close>

lemma plans_right:
  assumes "describes ev c old new" "held c old new c' w" "publishing c old new c' operation w"
    and "cw_stages w (cs_staging c) = Some sg"
    and "list_all2 (\<lambda>f a. recovery_plan ev operation sg (ws_tree w (cs_workspace c)) f = Inr a) (cs_files c) prepared"
  shows "list_all2 (plan_ok ev (content c w) (restored operation old new)) (cs_files c) prepared"
proof (rule list_all2_all_nthI)
  fix n assume n: "n < length (cs_files c)"
  have "recovery_plan ev operation sg (ws_tree w (cs_workspace c)) (cs_files c ! n) = Inr (prepared ! n)"
    using list_all2_nthD[OF assms(5) n] .
  then show "plan_ok ev (content c w) (restored operation old new) (cs_files c ! n) (prepared ! n)"
    using plan_right[OF assms(1-4) nth_mem[OF n]] by auto
qed (rule list_all2_lengthD[OF assms(5)])

text \<open>The roll back settles the change set; a failing step keeps the invariant.\<close>

lemma roll_back_triple:
  assumes sync: "\<not> ce_sync_fails ev" and d: "describes ev c old new" and fs: "fs = None \<or> fs = Some ''failed''"
    and sm: "same_set c c'" and op: "operation = ''apply'' \<or> operation = ''undo''"
  shows "triple calm (rolling c old new c' operation) (roll_back ev fs operation (cs_id c) c')
    (\<lambda>_. recovered c old new) (\<lambda>_. crash_inv calm c old new) (crash_inv calm c old new)"
proof -
  let ?P = "rolling c old new c' operation" and ?E = "crash_inv calm c old new"
  note same = same_set_fields[OF sm]
  have "triple calm ?P (roll_back ev fs operation (cs_id c) c') (\<lambda>_. recovered c old new) (\<lambda>_. ?E) ?E"
    unfolding roll_back_def same
  proof (rule triple_bind)
    let ?T = "\<lambda>t w. ?P w \<and> ws_tree w (cs_workspace c) = t"
    show "triple calm ?P (resolve_root (cs_workspace c)) ?T (\<lambda>_. ?E) ?E"
      by (rule triple_resolve_root) (auto simp: rolling_def held_def)
    fix t
    let ?S = "\<lambda>sg w. ?T t w \<and> cw_stages w (cs_staging c) = Some sg"
    let ?rest = "\<lambda>sg. bind_io (map_io (\<lambda>f. os_step (lift_io (recovery_plan ev operation sg t f))) (cs_files c)) (\<lambda>prepared.
      seq_io (each_io (recovery_write ev (cs_workspace c)) prepared) (settle_recovery ev fs operation (cs_id c) c'))"
    have rest: "triple calm (?S sg) (?rest sg) (\<lambda>_. recovered c old new) (\<lambda>_. ?E) ?E" for sg
    proof (rule triple_bind[OF triple_map_read])
      fix w assume s: "?S sg w"
      then have t: "t = ws_tree w (cs_workspace c)" by simp
      show "\<forall>f \<in> set (cs_files c). \<exists>a. recovery_plan ev operation sg t f = Inr a"
        unfolding t using plan_right[OF d, of c' w operation sg] s unfolding rolling_def by blast
    next
      fix prepared
      let ?L = "\<lambda>w. ?S sg w \<and> list_all2 (\<lambda>f a. recovery_plan ev operation sg t f = Inr a) (cs_files c) prepared"
      show "triple calm ?L (seq_io (each_io (recovery_write ev (cs_workspace c)) prepared) (settle_recovery ev fs operation (cs_id c) c'))
          (\<lambda>_. recovered c old new) (\<lambda>_. ?E) ?E"
      proof (cases "list_all2 (plan_ok ev (look t) (restored operation old new)) (cs_files c) prepared")
        case True
        show ?thesis
          by (rule triple_pre[OF triple_seq[OF recovery_writes_triple[OF sync d True] settle_recovery_triple[OF sync fs sm op]]]) auto
      next
        case False
        show ?thesis
          by (rule triple_never) (use False plans_right[OF d] in \<open>auto simp: rolling_def\<close>)
      qed
    qed (auto intro: rolling_crash)
    show "triple calm (?T t) (bind_io (open_stage ev (cs_staging c)) ?rest) (\<lambda>_. recovered c old new) (\<lambda>_. ?E) ?E"
    proof (rule triple_bind[OF triple_open_stage])
      show "assert_owned_stage ev (cs_staging c) = Inr ()" using d by (simp add: describes_def)
      show "cw_stages w (cs_staging c) \<noteq> None" if "?T t w" for w
        using that by (auto simp: rolling_def publishing_def stage_ok_def)
      show "?S sg w" if "?T t w" "cw_stages w (cs_staging c) = Some sg" for sg w
        using that by simp
    qed (rule rest)
  qed
  then show ?thesis .
qed

lemma recover_body_triple:
  assumes sync: "\<not> ce_sync_fails ev" and d: "describes ev c old new" and fs: "fs = None \<or> fs = Some ''failed''"
  shows "triple calm (\<lambda>w. held c old new c' w \<and> cw_journal w (cs_id c) = Some (pub_of c operation) \<and> publishing c old new c' operation w)
    (recover_body ev fs (cs_id c) c') (\<lambda>_. recovered c old new) (\<lambda>_. crash_inv calm c old new) (crash_inv calm c old new)"
proof (cases "(operation = ''apply'' \<or> operation = ''undo'') \<and> same_set c c'")
  case False
  show ?thesis by (rule triple_never) (use False in \<open>auto simp: publishing_def held_def\<close>)
next
  case True
  let ?P = "\<lambda>w. held c old new c' w \<and> cw_journal w (cs_id c) = Some (pub_of c operation) \<and> publishing c old new c' operation w"
  let ?E = "crash_inv calm c old new"
  show ?thesis
    unfolding recover_body_def
  proof (rule triple_bind[OF triple_step_gets])
    fix a :: "pub_journal option option"
    let ?m = "case a of None \<Rightarrow> raise_io Os_error | Some None \<Rightarrow> raise_io Value_error
     | Some (Some jn) \<Rightarrow> let operation = pb_operation jn in
         if pb_version jn \<noteq> 1 \<or> pb_id jn \<noteq> cs_id c \<or> (operation \<noteq> ''apply'' \<and> operation \<noteq> ''undo'')
             \<or> pb_manifest jn \<noteq> cs_manifest c' then raise_io Value_error
         else if cs_status c' = (if operation = ''apply'' then ''applied'' else ''undone'') then finish_publish ev (cs_id c)
         else roll_back ev fs operation (cs_id c) c'"
    show "triple calm (\<lambda>w. ?P w \<and> a = cw_journal w (cs_id c)) ?m (\<lambda>_. recovered c old new) (\<lambda>_. ?E) ?E"
    proof (cases "a = Some (pub_of c operation)")
      case False
      show ?thesis by (rule triple_never) (use False in auto)
    next
      case a: True
      have m: "?m = (if cs_status c' = (if operation = ''apply'' then ''applied'' else ''undone'') then finish_publish ev (cs_id c)
         else roll_back ev fs operation (cs_id c) c')"
        using a True same_set_fields(5) by (auto simp: pub_of_def Let_def)
      show ?thesis
      proof (cases "cs_status c' = (if operation = ''apply'' then ''applied'' else ''undone'')")
        case st: True
        show ?thesis unfolding m if_P[OF st]
          by (rule triple_pre[OF finish_committed[OF sync _ st]]) (use True in auto)
      next
        case st: False
        show ?thesis unfolding m if_not_P[OF st]
          by (rule triple_pre[OF roll_back_triple[OF sync d fs]]) (use True st in \<open>auto simp: rolling_def\<close>)
      qed
    qed
  qed (auto simp: crash_inv_def intro: inv_publishing)
qed

end
