(* ===== verification/Change_Atomic.thy ===== *)
theory Change_Atomic
  imports Change_Recovery
begin

text \<open>
  Applying and undoing a change set: both keep the invariant at every step, whatever fails, and both reach
  their goal when nothing fails. The properties of the component are at the end.
\<close>

section \<open>Recovery on demand\<close>

lemma triple_get_set:
  assumes "\<And>w. P w \<Longrightarrow> cw_sets w i \<noteq> None"
  shows "triple calm P (get_set i) (\<lambda>c w. P w \<and> cw_sets w i = Some c) E D"
  unfolding get_set_def
proof (rule triple_gets_bind)
  fix a
  show "triple calm (\<lambda>w. P w \<and> a = cw_sets w i) (case a of None \<Rightarrow> raise_change ''CHANGE_SET_NOT_FOUND'' | Some c \<Rightarrow> return_io c)
      (\<lambda>c w. P w \<and> cw_sets w i = Some c) E D"
  proof (cases a)
    case None
    show ?thesis by (rule triple_never) (use assms None in fastforce)
  next
    case (Some c)
    show ?thesis unfolding Some by (simp, rule triple_pre[OF triple_return]) simp
  qed
qed

lemma inv_sets:
  assumes "change_inv c old new w"
  shows "\<exists>c'. cw_sets w (cs_id c) = Some c' \<and> held c old new c' w"
  using assms by (auto simp: change_inv_def held_def)

lemma inv_held: "change_inv c old new w \<Longrightarrow> cw_sets w (cs_id c) = Some c' \<Longrightarrow> held c old new c' w"
  using inv_sets[of c old new w] by auto

text \<open>After a recovery the journal is gone, or the change set is marked as failed or conflicted.\<close>

definition gave_up :: "change_set \<Rightarrow> change_world \<Rightarrow> bool" where
  "gave_up c w \<longleftrightarrow> (\<exists>d. cw_sets w (cs_id c) = Some d \<and> (cs_status d = ''failed'' \<or> cs_status d = ''conflicted''))"

definition after_recovery :: "bool \<Rightarrow> change_set \<Rightarrow> (string \<Rightarrow> entry option) \<Rightarrow> (string \<Rightarrow> entry option) \<Rightarrow> change_world \<Rightarrow> bool" where
  "after_recovery calm c old new w \<longleftrightarrow> recovered c old new w \<or> \<not> calm \<and> change_inv c old new w \<and> gave_up c w"

lemma after_recovery_inv: "after_recovery calm c old new w \<Longrightarrow> change_inv c old new w"
  by (auto simp: after_recovery_def recovered_def)

lemma recover_publish_triple:
  assumes sync: "\<not> ce_sync_fails ev" and d: "describes ev c old new" and fs: "fs = None \<or> fs = Some ''failed''"
  shows "triple calm (\<lambda>w. change_inv c old new w \<and> (calm \<longrightarrow> cw_journal w (cs_id c) \<noteq> None))
    (recover_publish ev fs (cs_id c)) (\<lambda>_. after_recovery calm c old new) (\<lambda>_. crash_inv calm c old new) (crash_inv calm c old new)"
proof -
  let ?E = "crash_inv calm c old new"
  let ?P = "\<lambda>w. change_inv c old new w \<and> (calm \<longrightarrow> cw_journal w (cs_id c) \<noteq> None)"
  let ?st = "case fs of Some s \<Rightarrow> s | None \<Rightarrow> ''conflicted''"
  show ?thesis
    unfolding recover_publish_def
  proof (rule triple_bind[OF triple_get_set])
    fix c'
    let ?Pc = "\<lambda>w. ?P w \<and> cw_sets w (cs_id c) = Some c'"
    let ?h = "\<lambda>e. seq_io (modify_io (\<lambda>w. w\<lparr>cw_issues := (cw_issues w)(cs_id c \<mapsto> error_code e)\<rparr>)) (mark ev c' ?st)"
    show "triple calm ?Pc (catch_io (recover_body ev fs (cs_id c) c') ?h) (\<lambda>_. after_recovery calm c old new) (\<lambda>_. ?E) ?E"
    proof (cases "same_set c c'")
      case False
      show ?thesis
        by (rule triple_never) (use False in \<open>auto simp: change_inv_def held_def\<close>)
    next
      case same: True
      let ?f = "with_status ?st None None c'"
      have f: "same_set c ?f" "cs_status ?f = ''failed'' \<or> cs_status ?f = ''conflicted''" "cs_id ?f = cs_id c"
        using same_set_status[OF same] same_set_fields(1)[OF same] fs by auto
      have handler: "triple calm ?E (?h e) (\<lambda>_. after_recovery calm c old new) (\<lambda>_. ?E) ?E" for e
      proof (rule triple_seq[where R = ?E])
        show "triple calm ?E (modify_io (\<lambda>w. w\<lparr>cw_issues := (cw_issues w)(cs_id c \<mapsto> error_code e)\<rparr>)) (\<lambda>_. ?E) (\<lambda>_. ?E) ?E"
          by (rule triple_modify_rule) (simp add: crash_inv_def inv_locals)
        show "triple calm ?E (mark ev c' ?st) (\<lambda>_. after_recovery calm c old new) (\<lambda>_. ?E) ?E"
          by (rule triple_mark[OF sync])
            (use inv_failed[OF _ f(1,2)] f in \<open>auto simp: crash_inv_def after_recovery_def gave_up_def\<close>)
      qed
      have none: "triple calm (\<lambda>w. \<not> calm \<and> change_inv c old new w \<and> cw_journal w (cs_id c) = None) (recover_body ev fs (cs_id c) c')
          (\<lambda>_. after_recovery calm c old new) (\<lambda>_. ?E) ?E"
        unfolding recover_body_def
      proof (rule triple_bind[OF triple_step_gets])
        fix a :: "pub_journal option option"
        let ?m = "case a of None \<Rightarrow> raise_io Os_error | Some None \<Rightarrow> raise_io Value_error
         | Some (Some jn) \<Rightarrow> let operation = pb_operation jn in
             if pb_version jn \<noteq> 1 \<or> pb_id jn \<noteq> cs_id c \<or> (operation \<noteq> ''apply'' \<and> operation \<noteq> ''undo'')
                 \<or> pb_manifest jn \<noteq> cs_manifest c' then raise_io Value_error
             else if cs_status c' = (if operation = ''apply'' then ''applied'' else ''undone'') then finish_publish ev (cs_id c)
             else roll_back ev fs operation (cs_id c) c'"
        show "triple calm (\<lambda>w. (\<not> calm \<and> change_inv c old new w \<and> cw_journal w (cs_id c) = None) \<and> a = cw_journal w (cs_id c)) ?m
            (\<lambda>_. after_recovery calm c old new) (\<lambda>_. ?E) ?E"
          by (cases a) (auto simp: triple_def raise_io_def crash_inv_def)
      qed (auto simp: crash_inv_def)
      have some: "triple calm (\<lambda>w. \<exists>operation. held c old new c' w \<and> cw_journal w (cs_id c) = Some (pub_of c operation)
            \<and> publishing c old new c' operation w) (recover_body ev fs (cs_id c) c') (\<lambda>_. after_recovery calm c old new) (\<lambda>_. ?E) ?E"
        by (rule triple_exI, rule triple_post[OF recover_body_triple[OF sync d fs]]) (auto simp: after_recovery_def)
      show ?thesis
      proof (rule triple_catch[OF triple_pre[OF triple_disj[OF none some]] handler])
        fix w assume w: "?Pc w"
        then show "(\<not> calm \<and> change_inv c old new w \<and> cw_journal w (cs_id c) = None)
            \<or> (\<exists>operation. held c old new c' w \<and> cw_journal w (cs_id c) = Some (pub_of c operation) \<and> publishing c old new c' operation w)"
          unfolding change_inv_def held_def by auto
      qed
    qed
  qed (auto dest: inv_sets simp: crash_inv_def)
qed

lemma current_set_triple:
  assumes sync: "\<not> ce_sync_fails ev" and d: "describes ev c old new"
  shows "triple calm (change_inv c old new) (current_set ev (cs_id c))
    (\<lambda>c' w. held c old new c' w \<and> (recovered c old new w \<or> \<not> calm \<and> change_inv c old new w \<and> (cs_status c' = ''failed'' \<or> cs_status c' = ''conflicted'')))
    (\<lambda>_. crash_inv calm c old new) (crash_inv calm c old new)"
    (is "triple calm ?I _ ?Q (\<lambda>_. ?E) ?E")
  unfolding current_set_def
proof (rule triple_bind[OF triple_get_set])
  fix c'
  let ?P = "\<lambda>w. ?I w \<and> cw_sets w (cs_id c) = Some c'"
  show "triple calm ?P (bind_io (gets_io (\<lambda>w. cw_journal w (cs_id c))) (\<lambda>j.
       if j \<noteq> None then seq_io (recover_publish ev None (cs_id c)) (get_set (cs_id c)) else return_io c')) ?Q (\<lambda>_. ?E) ?E"
  proof (rule triple_gets_bind)
    fix j :: "pub_journal option option"
    show "triple calm (\<lambda>w. ?P w \<and> j = cw_journal w (cs_id c))
        (if j \<noteq> None then seq_io (recover_publish ev None (cs_id c)) (get_set (cs_id c)) else return_io c') ?Q (\<lambda>_. ?E) ?E"
    proof (cases "j = None")
      case True
      have "triple calm (\<lambda>w. ?P w \<and> j = cw_journal w (cs_id c)) (return_io c') ?Q (\<lambda>_. ?E) ?E"
        by (rule triple_pre[OF triple_return]) (use True inv_held[of c old new] in \<open>auto simp: recovered_def\<close>)
      then show ?thesis using True by simp
    next
      case False
      have "triple calm (\<lambda>w. ?P w \<and> j = cw_journal w (cs_id c)) (seq_io (recover_publish ev None (cs_id c)) (get_set (cs_id c))) ?Q (\<lambda>_. ?E) ?E"
      proof (rule triple_seq[OF triple_pre[OF recover_publish_triple[OF sync d]] triple_post[OF triple_get_set]])
        fix d' w assume "after_recovery calm c old new w \<and> cw_sets w (cs_id c) = Some d'"
        then show "?Q d' w" using inv_sets[of c old new w] by (auto simp: after_recovery_def gave_up_def recovered_def)
      qed (use False in \<open>auto dest!: after_recovery_inv inv_sets\<close>)
      then show ?thesis using False by simp
    qed
  qed
qed (auto dest: inv_sets)

section \<open>Applying\<close>

text \<open>A prepared file: its path with its new and its old bytes.\<close>

definition prepared_ok :: "(string \<Rightarrow> entry option) \<Rightarrow> (string \<Rightarrow> entry option) \<Rightarrow> changed_file
    \<Rightarrow> string \<times> string option \<times> string option \<Rightarrow> bool" where
  "prepared_ok old new f x \<longleftrightarrow> (case x of (p, staged, original) \<Rightarrow> p = cf_path f
     \<and> new p = map_option Regular staged \<and> old p = map_option Regular original)"

lemma prepare_file_right:
  assumes "describes ev c old new" "f \<in> set (cs_files c)" "look t (cf_path f) = old (cf_path f)"
    and "new (cf_path f) \<noteq> None \<longrightarrow> look (sg_files sg) (cf_path f) = new (cf_path f)" "prepare_file ev sg t f = Inr x"
  shows "prepared_ok old new f x"
proof -
  note d = describesD[OF assms(1,2)]
  obtain p staged original where x: "x = (p, staged, original)" by (cases x) auto
  have p: "p = cf_path f" "original = (case look t (cf_path f) of Some (Regular b) \<Rightarrow> Some b | _ \<Rightarrow> None)"
      "staged = (if cf_type f = ''deleted'' then None else case look (sg_files sg) (cf_path f) of Some (Regular b) \<Rightarrow> Some b | _ \<Rightarrow> None)"
    using assms(5) d(1) x
    by (auto simp: prepare_file_def unmarked_def safe_join_def read_staged_def bind_result_def
        split: sum.splits if_splits option.splits entry.splits)
  then show ?thesis
    using x d(2,3,7) assms(3,4) by (auto simp: prepared_ok_def plain_entry_def)
qed

lemma prepare_file_total:
  assumes "describes ev c old new" "f \<in> set (cs_files c)" "look t (cf_path f) = old (cf_path f)"
    and "look (sg_files sg) (cf_path f) = new (cf_path f)" "\<not> undo_namespace (cf_path f)"
    and "\<not> dir_at t (cf_path f)" "new (cf_path f) = None \<longrightarrow> \<not> dir_at (sg_files sg) (cf_path f)"
  shows "\<exists>x. prepare_file ev sg t f = Inr x"
proof -
  note d = describesD[OF assms(1,2)]
  show ?thesis
    using d assms(3-7) unfolding plain_entry_def
    by (auto simp: prepare_file_def unmarked_def safe_join_def read_staged_def bind_result_def entry_hash_def)
qed

text \<open>A change set that is about to be applied.\<close>

definition waiting :: "change_set \<Rightarrow> (string \<Rightarrow> entry option) \<Rightarrow> (string \<Rightarrow> entry option) \<Rightarrow> change_set \<Rightarrow> change_world \<Rightarrow> bool" where
  "waiting c old new c' w \<longleftrightarrow> held c old new c' w \<and> cw_journal w (cs_id c) = None \<and> content c w = old \<and> stage_ok c new w
     \<and> cs_status c' = ''pending''"

lemma waiting_inv: "waiting c old new c' w \<Longrightarrow> change_inv c old new w"
  unfolding waiting_def by (rule inv_settled) (auto simp: settled_def)

lemma waiting_undo:
  "waiting c old new c' w \<Longrightarrow> (\<And>sg. sg_files (f sg) = sg_files sg) \<Longrightarrow> waiting c old new c' (upd_stage s f w)"
  unfolding waiting_def by (auto intro: held_stage stage_undo)

lemma waiting_applied [simp]: "waiting c old new c' (w\<lparr>cw_applied := l\<rparr>) = waiting c old new c' w"
  by (simp add: waiting_def held_def stage_ok_def)

lemma prepare_triple:
  assumes sync: "\<not> ce_sync_fails ev" and d: "describes ev c old new" and sm: "same_set c c'"
    and files: "\<forall>f \<in> set (cs_files c). look t (cf_path f) = old (cf_path f) \<and> (new (cf_path f) \<noteq> None \<longrightarrow> look (sg_files sg) (cf_path f) = new (cf_path f))"
    and total: "calm \<Longrightarrow> \<forall>f \<in> set (cs_files c). \<exists>x. prepare_file ev sg t f = Inr x"
    and P: "\<And>w. P w \<Longrightarrow> waiting c old new c' w"
  shows "triple calm P (map_io (prepare_io ev c' sg t) (cs_files c))
    (\<lambda>xs w. P w \<and> list_all2 (prepared_ok old new) (cs_files c) xs) (\<lambda>_. crash_inv calm c old new) (crash_inv calm c old new)"
proof -
  let ?E = "crash_inv calm c old new"
  have inv: "\<And>w. P w \<Longrightarrow> change_inv c old new w" using P waiting_inv by blast
  have "triple calm (\<lambda>w. P w \<and> list_all2 (prepared_ok old new) [] []) (map_io (prepare_io ev c' sg t) (cs_files c))
    (\<lambda>xs w. P w \<and> list_all2 (prepared_ok old new) (cs_files c) xs) (\<lambda>_. ?E) ?E"
  proof (rule triple_map)
    fix ys f zs and as :: "(string \<times> string option \<times> string option) list"
    assume "cs_files c = ys @ f # zs"
    then have f: "f \<in> set (cs_files c)" by simp
    let ?J = "\<lambda>w. P w \<and> list_all2 (prepared_ok old new) ys as"
    have m: "triple calm ?J (seq_io (mark ev c' st) (raise_io e)) (\<lambda>a w. P w \<and> list_all2 (prepared_ok old new) (ys @ [f]) (as @ [a])) (\<lambda>_. ?E) ?E"
      if st: "st = ''failed'' \<or> st = ''conflicted''" and nc: "\<not> calm" for st e
    proof (rule triple_seq[OF triple_mark[OF sync] triple_raise])
      fix w assume "?J w"
      then show "?E (store_set (with_status st None None c') w)"
        using nc st inv by (simp add: crash_inv_def inv_failed same_set_status[OF sm])
    qed (use inv in \<open>auto simp: crash_inv_def\<close>)
    show "triple calm ?J (prepare_io ev c' sg t f) (\<lambda>a w. P w \<and> list_all2 (prepared_ok old new) (ys @ [f]) (as @ [a])) (\<lambda>_. ?E) ?E"
      unfolding prepare_io_def
    proof (rule triple_step)
      show "triple calm ?J (case prepare_file ev sg t f of Inr x \<Rightarrow> return_io x | Inl (None, e) \<Rightarrow> raise_io e
          | Inl (Some st, e) \<Rightarrow> seq_io (mark ev c' st) (raise_io e)) (\<lambda>a w. P w \<and> list_all2 (prepared_ok old new) (ys @ [f]) (as @ [a])) (\<lambda>_. ?E) ?E"
      proof (cases "prepare_file ev sg t f")
        case (Inr x)
        have "prepared_ok old new f x"
          using prepare_file_right[OF d f _ _ Inr] files f by blast
        then show ?thesis unfolding Inr
          by (simp, intro triple_pre[OF triple_return]) (auto intro: list_all2_appendI)
      next
        case (Inl x)
        obtain st e where x: "x = (st, e)" by (cases x)
        have nc: "\<not> calm" using total f Inl by fastforce
        have "st = None \<or> st = Some ''failed'' \<or> st = Some ''conflicted''"
          using Inl x by (auto simp: prepare_file_def unmarked_def bind_result_def
              split: sum.splits if_splits option.splits entry.splits)
        then consider (plain) "st = None" | (marked) s where "st = Some s" "s = ''failed'' \<or> s = ''conflicted''" by blast
        then show ?thesis
        proof cases
          case plain
          then show ?thesis using Inl x inv nc by (auto simp: triple_def raise_io_def crash_inv_def)
        next
          case marked
          then show ?thesis using m[OF marked(2) nc, of e] Inl x by simp
        qed
      qed
    qed (use inv in \<open>auto simp: crash_inv_def\<close>)
  qed
  then show ?thesis by simp
qed

text \<open>A publication under way, with every backup in place.\<close>

definition writing :: "change_set \<Rightarrow> (string \<Rightarrow> entry option) \<Rightarrow> (string \<Rightarrow> entry option) \<Rightarrow> change_set \<Rightarrow> string \<Rightarrow> change_world \<Rightarrow> bool" where
  "writing c old new c' operation w \<longleftrightarrow> rolling c old new c' operation w \<and> backups c old w"

lemma writing_put:
  assumes "writing c old new c' operation w" "Some (Regular b) = old p \<or> Some (Regular b) = new p"
  shows "writing c old new c' operation (put_ws (cs_workspace c) p b w)"
proof -
  have "held c old new c' (put_ws (cs_workspace c) p b w)"
    using held_put assms by (simp add: writing_def rolling_def)
  then show ?thesis
    using assms(1) by (auto simp: writing_def rolling_def publishing_def stage_ok_def backups_def)
qed

lemma writing_del:
  assumes "writing c old new c' operation w" "old p = None \<or> new p = None"
  shows "writing c old new c' operation (del_ws (cs_workspace c) p w)"
proof -
  have "held c old new c' (del_ws (cs_workspace c) p w)"
    using held_del assms by (simp add: writing_def rolling_def)
  then show ?thesis
    using assms(1) by (auto simp: writing_def rolling_def publishing_def stage_ok_def backups_def)
qed

lemma writing_locals [simp]:
  "writing c old new c' operation (w\<lparr>cw_applied := l\<rparr>) = writing c old new c' operation w"
  "writing c old new c' operation (w\<lparr>cw_removed := m\<rparr>) = writing c old new c' operation w"
  by (simp_all add: writing_def rolling_def held_def publishing_def stage_ok_def backups_def)

lemma writing_crash: "\<not> calm \<Longrightarrow> writing c old new c' operation w \<Longrightarrow> crash_inv calm c old new w"
  unfolding writing_def by (blast intro: rolling_crash)

definition undo_log :: "(string \<Rightarrow> entry option) \<Rightarrow> (string \<times> string option) list \<Rightarrow> bool" where
  "undo_log target l \<longleftrightarrow> (\<forall>(p, b) \<in> set l. target p = map_option Regular b)"

lemma triple_unlink:
  assumes sync: "\<not> ce_sync_fails ev" and "\<And>w. P w \<Longrightarrow> missing_ok \<or> look (ws_tree w r) p \<noteq> None"
    and "\<And>w. P w \<Longrightarrow> Q () (del_ws r p w)" "\<not> calm \<Longrightarrow> (\<And>w. P w \<Longrightarrow> E Os_error w \<and> D w)"
  shows "triple calm P (unlink_ws ev r p missing_ok) Q E D"
  unfolding unlink_ws_def
proof (rule triple_seq)
  show "triple calm P (os_step (bind_io (gets_io (\<lambda>w. look (ws_tree w r) p)) (\<lambda>e.
        if e = None \<and> \<not> missing_ok then raise_io Os_error else modify_io (del_ws r p)))) (\<lambda>_. Q ()) E D"
  proof (rule triple_step[OF triple_gets_bind])
    fix a
    show "triple calm (\<lambda>w. P w \<and> a = look (ws_tree w r) p)
        (if a = None \<and> \<not> missing_ok then raise_io Os_error else modify_io (del_ws r p)) (\<lambda>_. Q ()) E D"
    proof (cases "a = None \<and> \<not> missing_ok")
      case True
      show ?thesis by (rule triple_never) (use assms(2) True in fastforce)
    next
      case False
      have "triple calm (\<lambda>w. P w \<and> a = look (ws_tree w r) p) (modify_io (del_ws r p)) (\<lambda>_. Q ()) E D"
        by (rule triple_modify_rule) (use assms(3) in simp)
      then show ?thesis unfolding if_not_P[OF False] .
    qed
  qed (use assms(4) in auto)
  show "triple calm (Q ()) (sync_directory ev) Q E D" by (rule triple_sync[OF sync])
qed

text \<open>Writing one prepared file, and the loop over all of them.\<close>

lemma publish_file_triple:
  assumes sync: "\<not> ce_sync_fails ev" and d: "describes ev c old new" and f: "f \<in> set (cs_files c)" and x: "prepared_ok old new f x"
  shows "triple calm (\<lambda>w. writing c old new c' ''apply'' w \<and> undo_log old (cw_applied w) \<and> content c w = g \<and> g (cf_path f) = old (cf_path f))
    (publish_file ev (cs_workspace c) x)
    (\<lambda>_ w. writing c old new c' ''apply'' w \<and> undo_log old (cw_applied w) \<and> content c w = g(cf_path f := new (cf_path f)))
    (\<lambda>_ w. \<not> calm \<and> writing c old new c' ''apply'' w \<and> undo_log old (cw_applied w)) (crash_inv calm c old new)"
proof -
  obtain p staged original where xs: "x = (p, staged, original)" by (cases x) auto
  note o = x[unfolded prepared_ok_def xs prod.case]
  let ?P = "\<lambda>w. writing c old new c' ''apply'' w \<and> undo_log old (cw_applied w) \<and> content c w = g \<and> g p = old p"
  let ?Q = "\<lambda>w. writing c old new c' ''apply'' w \<and> undo_log old (cw_applied w) \<and> content c w = g(p := new p)"
  let ?E = "\<lambda>_ w. \<not> calm \<and> writing c old new c' ''apply'' w \<and> undo_log old (cw_applied w)"
  let ?D = "crash_inv calm c old new"
  have app: "cw_applied (put_ws r q b w) = cw_applied w" "cw_applied (del_ws r q w) = cw_applied w" for r q b w
    by (simp_all add: put_ws_def del_ws_def)
  have 1: "triple calm ?P (case staged of None \<Rightarrow> unlink_ws ev (cs_workspace c) p False
      | Some b \<Rightarrow> atomic_write ev (put_ws (cs_workspace c) p b)) (\<lambda>_. ?Q) ?E ?D"
  proof (cases staged)
    case None
    then have n: "new p = None" "old p \<noteq> None" using o d f describesD[OF d f] by auto
    have "triple calm ?P (unlink_ws ev (cs_workspace c) p False) (\<lambda>_. ?Q) ?E ?D"
      by (rule triple_unlink[OF sync]) (use n writing_del writing_crash app in auto)
    then show ?thesis using None by simp
  next
    case (Some b)
    have "triple calm ?P (atomic_write ev (put_ws (cs_workspace c) p b)) (\<lambda>_. ?Q) ?E ?D"
      by (rule triple_atomic[OF sync]) (use o Some writing_put writing_crash app in auto)
    then show ?thesis using Some by simp
  qed
  have 2: "triple calm ?Q (modify_io (\<lambda>w. w\<lparr>cw_applied := cw_applied w @ [(p, original)]\<rparr>)) (\<lambda>_. ?Q) ?E ?D"
    by (rule triple_modify_rule) (use o in \<open>auto simp: undo_log_def\<close>)
  have pf: "p = cf_path f" using o by simp
  show ?thesis using triple_seq[OF 1 2] by (simp only: publish_file_def xs prod.case pf)
qed

lemma done_step:
  assumes "distinct (map cf_path fs)" "n < length fs"
  shows "cf_path (fs ! n) \<notin> cf_path ` set (take n fs)"
    "cf_path ` set (take (Suc n) fs) = insert (cf_path (fs ! n)) (cf_path ` set (take n fs))"
proof -
  have tk: "take (Suc n) fs = take n fs @ [fs ! n]" using assms(2) by (simp add: take_Suc_conv_app_nth)
  have "distinct (map cf_path (take (Suc n) fs))" using assms(1) by (metis distinct_take take_map)
  then show "cf_path (fs ! n) \<notin> cf_path ` set (take n fs)" by (simp add: tk)
  show "cf_path ` set (take (Suc n) fs) = insert (cf_path (fs ! n)) (cf_path ` set (take n fs))" by (simp add: tk)
qed

text \<open>The content when the files in \<open>ps\<close> have moved from \<open>before\<close> to \<open>after\<close>.\<close>

definition moved :: "string set \<Rightarrow> (string \<Rightarrow> entry option) \<Rightarrow> (string \<Rightarrow> entry option) \<Rightarrow> string \<Rightarrow> entry option" where
  "moved ps before after p = (if p \<in> ps then after p else before p)"

lemma moved_simps [simp]:
  "moved {} before after = before" "p \<notin> ps \<Longrightarrow> moved ps before after p = before p"
  "(moved ps before after)(p := after p) = moved (insert p ps) before after"
  by (auto simp: moved_def fun_eq_iff)

lemma moved_all:
  "describes ev c old new \<Longrightarrow> moved (cf_path ` set (cs_files c)) old new = new"
  "describes ev c old new \<Longrightarrow> moved (cf_path ` set (cs_files c)) new old = old"
  using describes_other[of ev c old new] by (fastforce simp: moved_def fun_eq_iff)+

lemma publish_writes_triple:
  assumes sync: "\<not> ce_sync_fails ev" and d: "describes ev c old new" and xs: "list_all2 (prepared_ok old new) (cs_files c) xs"
  shows "triple calm (\<lambda>w. writing c old new c' ''apply'' w \<and> undo_log old (cw_applied w) \<and> content c w = old)
    (each_io (publish_file ev (cs_workspace c)) xs)
    (\<lambda>_ w. writing c old new c' ''apply'' w \<and> content c w = new)
    (\<lambda>_ w. \<not> calm \<and> writing c old new c' ''apply'' w \<and> undo_log old (cw_applied w)) (crash_inv calm c old new)"
proof -
  have dis: "distinct (map cf_path (cs_files c))" using d by (simp add: describes_def)
  define J where "J ys w \<longleftrightarrow> writing c old new c' ''apply'' w \<and> undo_log old (cw_applied w)
      \<and> content c w = moved (cf_path ` set (take (length ys) (cs_files c))) old new" for ys :: "(string \<times> string option \<times> string option) list" and w
  have "triple calm (J []) (each_io (publish_file ev (cs_workspace c)) xs) (\<lambda>_. J xs)
    (\<lambda>_ w. \<not> calm \<and> writing c old new c' ''apply'' w \<and> undo_log old (cw_applied w)) (crash_inv calm c old new)"
  proof (rule triple_each)
    fix ys x zs assume x: "xs = ys @ x # zs"
    have n: "length ys < length (cs_files c)" "xs ! length ys = x"
      using x xs by (auto simp: list_all2_lengthD)
    let ?f = "cs_files c ! length ys"
    have ok: "prepared_ok old new ?f x" using list_all2_nthD[OF xs n(1)] n(2) by simp
    show "triple calm (J ys) (publish_file ev (cs_workspace c) x) (\<lambda>_. J (ys @ [x]))
      (\<lambda>_ w. \<not> calm \<and> writing c old new c' ''apply'' w \<and> undo_log old (cw_applied w)) (crash_inv calm c old new)"
      by (rule triple_post[OF triple_pre[OF publish_file_triple[OF sync d nth_mem[OF n(1)] ok, of calm c' "moved (cf_path ` set (take (length ys) (cs_files c))) old new"]]])
        (use done_step[OF dis n(1)] in \<open>auto simp: J_def\<close>)
  qed
  then show ?thesis
    by (rule triple_post[OF triple_pre]) (use list_all2_lengthD[OF xs] moved_all(1)[OF d] in \<open>auto simp: J_def\<close>)
qed

text \<open>What an exception of a publication finds.\<close>

definition interrupted :: "bool \<Rightarrow> change_set \<Rightarrow> (string \<Rightarrow> entry option) \<Rightarrow> (string \<Rightarrow> entry option) \<Rightarrow> change_set \<Rightarrow> change_world \<Rightarrow> bool" where
  "interrupted calm c old new c' w \<longleftrightarrow> \<not> calm \<and> (waiting c old new c' w \<and> cw_applied w = []
     \<or> writing c old new c' ''apply'' w \<and> undo_log old (cw_applied w))"

lemma waiting_crash: "\<not> calm \<Longrightarrow> waiting c old new c' w \<Longrightarrow> crash_inv calm c old new w"
  by (simp add: crash_inv_def waiting_inv)

definition backed_up :: "change_set \<Rightarrow> (string \<Rightarrow> entry option) \<Rightarrow> changed_file list \<Rightarrow> change_world \<Rightarrow> bool" where
  "backed_up c old fs w \<longleftrightarrow> (\<exists>sg u. cw_stages w (cs_staging c) = Some sg \<and> sg_undo sg = Some u
     \<and> (\<forall>f \<in> set fs. old (cf_path f) \<noteq> None \<longrightarrow> look u (cf_path f) = old (cf_path f)))"

lemma upd_stage_applied [simp]: "cw_applied (upd_stage s f w) = cw_applied w"
  by (simp add: upd_stage_def)

lemma make_undo_triple:
  "triple calm (\<lambda>w. waiting c old new c' w \<and> cw_applied w = [] \<and> (calm \<longrightarrow> (\<forall>sg. cw_stages w (cs_staging c) = Some sg \<longrightarrow> sg_undo sg = None)))
    (make_undo (cs_staging c)) (\<lambda>_ w. waiting c old new c' w \<and> cw_applied w = [] \<and> backed_up c old [] w)
    (\<lambda>_. interrupted calm c old new c') (crash_inv calm c old new)"
  (is "triple calm ?P _ (\<lambda>_. ?Q) ?E ?D")
  unfolding make_undo_def
proof (rule triple_step[OF triple_gets_bind])
  fix a :: "stage option"
  let ?m = "case a of None \<Rightarrow> raise_io Os_error
     | Some sg \<Rightarrow> if sg_undo sg \<noteq> None then raise_io Os_error
       else modify_io (upd_stage (cs_staging c) (\<lambda>sg. sg\<lparr>sg_undo := Some []\<rparr>))"
  show "triple calm (\<lambda>w. ?P w \<and> a = cw_stages w (cs_staging c)) ?m (\<lambda>_. ?Q) ?E ?D"
  proof (cases a)
    case None
    show ?thesis by (rule triple_never) (use None in \<open>auto simp: waiting_def stage_ok_def\<close>)
  next
    case (Some sg)
    show ?thesis
    proof (cases "sg_undo sg = None")
      case True
      have "triple calm (\<lambda>w. ?P w \<and> a = cw_stages w (cs_staging c))
          (modify_io (upd_stage (cs_staging c) (\<lambda>sg. sg\<lparr>sg_undo := Some []\<rparr>))) (\<lambda>_. ?Q) ?E ?D"
        by (rule triple_modify_rule) (use Some in \<open>auto simp: waiting_undo backed_up_def eq_commute[of "Some sg"]\<close>)
      then show ?thesis using Some True by simp
    next
      case False
      then show ?thesis using Some by (auto simp: triple_def raise_io_def interrupted_def)
    qed
  qed
qed (auto simp: interrupted_def waiting_crash)

lemma backup_triple:
  assumes sync: "\<not> ce_sync_fails ev" and d: "describes ev c old new" and xs: "list_all2 (prepared_ok old new) (cs_files c) xs"
  shows "triple calm (\<lambda>w. waiting c old new c' w \<and> cw_applied w = [] \<and> backed_up c old [] w)
    (each_io (backup_file ev (cs_staging c)) xs)
    (\<lambda>_ w. waiting c old new c' w \<and> cw_applied w = [] \<and> backups c old w)
    (\<lambda>_. interrupted calm c old new c') (crash_inv calm c old new)"
proof -
  let ?E = "\<lambda>_::change_error. interrupted calm c old new c'" and ?D = "crash_inv calm c old new"
  have dis: "distinct (map cf_path (cs_files c))" using d by (simp add: describes_def)
  define J where "J ys w \<longleftrightarrow> waiting c old new c' w \<and> cw_applied w = [] \<and> backed_up c old (take (length ys) (cs_files c)) w"
    for ys :: "(string \<times> string option \<times> string option) list" and w
  have "triple calm (J []) (each_io (backup_file ev (cs_staging c)) xs) (\<lambda>_. J xs) ?E ?D"
  proof (rule triple_each)
    fix ys x zs assume x: "xs = ys @ x # zs"
    have n: "length ys < length (cs_files c)" "xs ! length ys = x"
      using x xs by (auto simp: list_all2_lengthD)
    let ?f = "cs_files c ! length ys"
    obtain p staged original where xx: "x = (p, staged, original)" by (cases x) auto
    have o: "p = cf_path ?f" "old p = map_option Regular original"
      using list_all2_nthD[OF xs n(1)] n(2) xx by (auto simp: prepared_ok_def)
    have tk: "take (Suc (length ys)) (cs_files c) = take (length ys) (cs_files c) @ [?f]" using n(1) by (simp add: take_Suc_conv_app_nth)
    have new: "cf_path ?f \<notin> cf_path ` set (take (length ys) (cs_files c))" by (rule done_step(1)[OF dis n(1)])
    show "triple calm (J ys) (backup_file ev (cs_staging c) x) (\<lambda>_. J (ys @ [x])) ?E ?D"
    proof (cases original)
      case None
      have "triple calm (J ys) (return_io ()) (\<lambda>_. J (ys @ [x])) ?E ?D"
        by (rule triple_pre[OF triple_return]) (use o None in \<open>auto simp: J_def tk backed_up_def\<close>)
      then show ?thesis using None xx by (simp add: backup_file_def)
    next
      case (Some b)
      have "triple calm (J ys) (atomic_write ev (upd_stage (cs_staging c) (put_undo p b))) (\<lambda>_. J (ys @ [x])) ?E ?D"
      proof (rule triple_atomic[OF sync])
        fix w assume w: "J ys w"
        obtain sg u where u: "cw_stages w (cs_staging c) = Some sg" "sg_undo sg = Some u"
            "\<forall>f \<in> set (take (length ys) (cs_files c)). old (cf_path f) \<noteq> None \<longrightarrow> look u (cf_path f) = old (cf_path f)"
          using w by (auto simp: J_def backed_up_def)
        have "\<forall>f \<in> set (take (length ys) (cs_files c)). cf_path f \<noteq> p" using new o(1) by (metis image_eqI)
        then show "J (ys @ [x]) (upd_stage (cs_staging c) (put_undo p b) w)"
          using w u o Some by (auto simp: J_def tk backed_up_def put_undo_def intro: waiting_undo)
      qed (auto simp: J_def interrupted_def waiting_crash)
      then show ?thesis using Some xx by (simp add: backup_file_def)
    qed
  qed
  then show ?thesis
    by (rule triple_post[OF triple_pre]) (use list_all2_lengthD[OF xs] in \<open>auto simp: J_def backed_up_def backups_def\<close>)
qed

lemma begin_apply_triple:
  assumes sync: "\<not> ce_sync_fails ev" and sm: "same_set c c'"
  shows "triple calm (\<lambda>w. waiting c old new c' w \<and> cw_applied w = [] \<and> backups c old w) (begin_publish ev c' ''apply'')
    (\<lambda>_ w. writing c old new c' ''apply'' w \<and> undo_log old (cw_applied w) \<and> content c w = old)
    (\<lambda>_. interrupted calm c old new c') (crash_inv calm c old new)"
  (is "triple calm ?P _ (\<lambda>_. ?Q) ?E ?D")
  unfolding begin_publish_def same_set_fields[OF sm]
proof (rule triple_gets_bind)
  fix j :: "pub_journal option option"
  let ?up = "\<lambda>w. w\<lparr>cw_journal := (cw_journal w)(cs_id c \<mapsto> Some
        \<lparr>pb_version = 1, pb_id = cs_id c, pb_operation = ''apply'', pb_manifest = cs_manifest c\<rparr>)\<rparr>"
  show "triple calm (\<lambda>w. ?P w \<and> j = cw_journal w (cs_id c)) (if j \<noteq> None then raise_change ''CHANGE_RECOVERY_REQUIRED''
     else atomic_write ev ?up) (\<lambda>_. ?Q) ?E ?D"
  proof (cases "j = None")
    case False
    show ?thesis by (rule triple_never) (use False in \<open>auto simp: waiting_def\<close>)
  next
    case True
    have up: "?up w = w\<lparr>cw_journal := (cw_journal w)(cs_id c := Some (pub_of c ''apply''))\<rparr>" for w
      by (simp add: pub_of_def)
    have "?Q (?up w)" if w: "?P w" for w
    proof -
      have "held c old new c' (?up w)" unfolding up using w by (intro held_journal) (simp add: waiting_def)
      moreover have "stage_ok c new (?up w)" "backups c old (?up w)" using w by (auto simp: waiting_def stage_ok_def backups_def)
      ultimately show ?thesis using w
        by (auto simp: writing_def rolling_def publishing_def waiting_def undo_log_def pub_of_def)
    qed
    then have "triple calm (\<lambda>w. ?P w \<and> j = cw_journal w (cs_id c)) (atomic_write ev ?up) (\<lambda>_. ?Q) ?E ?D"
      by (intro triple_atomic[OF sync]) (auto simp: interrupted_def waiting_crash)
    then show ?thesis using True by simp
  qed
qed

lemma publish_all_triple:
  assumes sync: "\<not> ce_sync_fails ev" and d: "describes ev c old new" and sm: "same_set c c'"
    and xs: "list_all2 (prepared_ok old new) (cs_files c) xs"
  shows "triple calm (\<lambda>w. waiting c old new c' w \<and> cw_applied w = [] \<and> (calm \<longrightarrow> (\<forall>sg. cw_stages w (cs_staging c) = Some sg \<longrightarrow> sg_undo sg = None)))
    (publish_all ev c' xs) (\<lambda>_ w. writing c old new c' ''apply'' w \<and> content c w = new)
    (\<lambda>_. interrupted calm c old new c') (crash_inv calm c old new)"
  unfolding publish_all_def same_set_fields[OF sm]
  by (rule triple_seq[OF make_undo_triple triple_seq[OF backup_triple[OF sync d xs]
       triple_seq[OF begin_apply_triple[OF sync sm] triple_post[OF publish_writes_triple[OF sync d xs]]]]])
    (auto simp: interrupted_def)

section \<open>The exception handler of a publication\<close>

lemma restore_triple:
  assumes sync: "\<not> ce_sync_fails ev" and l: "undo_log target l" and t: "target = old \<or> target = new"
    and R: "\<And>w r p b. R w \<Longrightarrow> R (put_ws r p b w) \<and> R (del_ws r p w)"
  shows "triple False (\<lambda>w. writing c old new c' operation w \<and> R w)
    (each_io (restore_file ev (cs_workspace c)) l) (\<lambda>_ w. writing c old new c' operation w \<and> R w)
    (\<lambda>_. crash_inv False c old new) (crash_inv False c old new)"
proof (rule triple_each[where J = "\<lambda>_ w. writing c old new c' operation w \<and> R w"])
  fix ys x zs assume x: "l = ys @ x # zs"
  obtain p original where xx: "x = (p, original)" by (cases x)
  have o: "old p = map_option Regular original \<or> new p = map_option Regular original"
    using l t x xx by (auto simp: undo_log_def)
  let ?W = "\<lambda>w. writing c old new c' operation w \<and> R w" and ?D = "crash_inv False c old new"
  have "triple False ?W (case original of None \<Rightarrow> os_step (modify_io (del_ws (cs_workspace c) p))
      | Some b \<Rightarrow> atomic_write ev (put_ws (cs_workspace c) p b)) (\<lambda>_. ?W) (\<lambda>_. ?W) ?D"
  proof (cases original)
    case None
    have "triple False ?W (os_step (modify_io (del_ws (cs_workspace c) p))) (\<lambda>_. ?W) (\<lambda>_. ?W) ?D"
      by (rule triple_step_modify) (use None o R writing_del writing_crash[of False] in auto)
    then show ?thesis using None by simp
  next
    case (Some b)
    have "triple False ?W (atomic_write ev (put_ws (cs_workspace c) p b)) (\<lambda>_. ?W) (\<lambda>_. ?W) ?D"
    proof (rule triple_atomic[OF sync])
      fix w assume "?W w"
      then show "?W (put_ws (cs_workspace c) p b w)"
        using R Some o writing_put[of c old new c' operation w b p] by (auto simp: eq_commute[of "Some _"])
    qed (use writing_crash[of False] in auto)
    then show ?thesis using Some by simp
  qed
  then show "triple False ?W (restore_file ev (cs_workspace c) x) (\<lambda>_. ?W) (\<lambda>_. ?D) ?D"
    unfolding restore_file_def xx prod.case by (rule triple_catch) (rule triple_return)
qed

lemma writing_inv: "writing c old new c' operation w \<Longrightarrow> change_inv c old new w"
  by (auto simp: writing_def dest: rolling_inv)

lemma apply_failed_triple:
  assumes sync: "\<not> ce_sync_fails ev" and d: "describes ev c old new" and sm: "same_set c c'"
  shows "triple calm (interrupted calm c old new c') (apply_failed ev c') (\<lambda>_ _. False) (\<lambda>_. crash_inv calm c old new) (crash_inv calm c old new)"
proof (cases calm)
  case True
  show ?thesis by (rule triple_never) (use True in \<open>simp add: interrupted_def\<close>)
next
  case False
  let ?D = "crash_inv False c old new"
  note same = same_set_fields[OF sm]
  define d' where "d' = with_status ''failed'' None None c'"
  have d': "same_set c d'" "cs_status d' = ''failed''" by (simp_all add: d'_def same_set_status[OF sm])
  have fin: "triple False (\<lambda>w. ?D w)
      (bind_io (gets_io (\<lambda>w. cw_journal w (cs_id c))) (\<lambda>j.
       seq_io (when_io (j \<noteq> None) (recover_publish ev (Some ''failed'') (cs_id c))) (raise_change ''CHANGE_APPLY_FAILED'')))
      (\<lambda>_ _. False) (\<lambda>_. ?D) ?D"
  proof (rule triple_gets_bind)
    fix j :: "pub_journal option option"
    have "triple False ?D (recover_publish ev (Some ''failed'') (cs_id c)) (\<lambda>_. ?D) (\<lambda>_. ?D) ?D"
      by (rule triple_post[OF triple_pre[OF recover_publish_triple[OF sync d, of "Some ''failed''" False]]])
        (auto simp: crash_inv_def dest: after_recovery_inv)
    then have "triple False ?D (when_io (j \<noteq> None) (recover_publish ev (Some ''failed'') (cs_id c))) (\<lambda>_. ?D) (\<lambda>_. ?D) ?D"
      by (rule triple_when) simp
    note t = triple_seq[OF this triple_raise]
    show "triple False (\<lambda>w. ?D w \<and> j = cw_journal w (cs_id c))
      (seq_io (when_io (j \<noteq> None) (recover_publish ev (Some ''failed'') (cs_id c))) (raise_change ''CHANGE_APPLY_FAILED'')) (\<lambda>_ _. False) (\<lambda>_. ?D) ?D"
      by (rule triple_pre[OF t]) simp
  qed
  have mark: "triple False (change_inv c old new) (mark ev c' ''failed'') (\<lambda>_. ?D) (\<lambda>_. ?D) ?D"
    by (rule triple_mark[OF sync]) (use inv_failed d' in \<open>auto simp: crash_inv_def d'_def[symmetric]\<close>)
  have "triple False (interrupted False c old new c') (apply_failed ev c') (\<lambda>_ _. False) (\<lambda>_. ?D) ?D"
    unfolding apply_failed_def same
  proof (rule triple_gets_bind)
    fix l
    have run: "triple False (\<lambda>w. interrupted False c old new c' w \<and> l = cw_applied w)
        (each_io (restore_file ev (cs_workspace c)) (rev l)) (\<lambda>_. change_inv c old new) (\<lambda>_. ?D) ?D"
    proof (cases "undo_log old (rev l)")
      case True
      have w: "triple False (writing c old new c' ''apply'') (each_io (restore_file ev (cs_workspace c)) (rev l)) (\<lambda>_. change_inv c old new) (\<lambda>_. ?D) ?D"
        by (rule triple_post[OF triple_pre[OF restore_triple[OF sync True, where R = "\<lambda>_. True"]]])
          (auto intro: writing_inv)
      show ?thesis
      proof (cases "l = []")
        case True
        have t: "triple False (change_inv c old new) (each_io (restore_file ev (cs_workspace c)) (rev l)) (\<lambda>_. change_inv c old new) (\<lambda>_. ?D) ?D"
          using True triple_return[where Q = "\<lambda>_. change_inv c old new"] by simp
        show ?thesis by (rule triple_pre[OF t]) (auto simp: interrupted_def waiting_inv writing_inv)
      next
        case False
        show ?thesis by (rule triple_pre[OF w]) (use False in \<open>auto simp: interrupted_def\<close>)
      qed
    next
      case False
      show ?thesis by (rule triple_never) (use False in \<open>auto simp: interrupted_def undo_log_def\<close>)
    qed
    show "triple False (\<lambda>w. interrupted False c old new c' w \<and> l = cw_applied w)
      (seq_io (each_io (restore_file ev (cs_workspace c)) (rev l)) (seq_io (mark ev c' ''failed'')
        (bind_io (gets_io (\<lambda>w. cw_journal w (cs_id c))) (\<lambda>j.
       seq_io (when_io (j \<noteq> None) (recover_publish ev (Some ''failed'') (cs_id c))) (raise_change ''CHANGE_APPLY_FAILED'')))))
      (\<lambda>_ _. False) (\<lambda>_. ?D) ?D"
      by (rule triple_seq[OF run triple_seq[OF mark fin]])
  qed
  then show ?thesis using False by simp
qed

text \<open>The commit: the new status is stored, then the journal is removed.\<close>

lemma triple_store_seq:
  assumes "\<not> ce_sync_fails ev" "\<And>w. P w \<Longrightarrow> R (store_set c w)" "triple calm R n Q E D"
    "\<not> calm \<Longrightarrow> (\<And>w. P w \<Longrightarrow> E Os_error w \<and> D w)"
  shows "triple calm P (seq_io (persist ev c) (seq_io (set_memory c) n)) Q E D"
proof (rule triple_seq)
  show "triple calm P (persist ev c) (\<lambda>_ w. R (w\<lparr>cw_sets := (cw_sets w)(cs_id c \<mapsto> c)\<rparr>)) E D"
    by (rule triple_persist) (use assms in \<open>auto simp: store_set_def\<close>)
  show "triple calm (\<lambda>w. R (w\<lparr>cw_sets := (cw_sets w)(cs_id c \<mapsto> c)\<rparr>)) (seq_io (set_memory c) n) Q E D"
    unfolding set_memory_def by (rule triple_seq[OF triple_modify assms(3)])
qed

definition committed :: "change_set \<Rightarrow> (string \<Rightarrow> entry option) \<Rightarrow> (string \<Rightarrow> entry option) \<Rightarrow> change_set \<Rightarrow> string \<Rightarrow> change_world \<Rightarrow> bool" where
  "committed c old new d operation w \<longleftrightarrow> held c old new d w \<and> cw_journal w (cs_id c) = Some (pub_of c operation) \<and> publishing c old new d operation w
     \<and> settled c old new d w"

lemma commit_triple:
  assumes sync: "\<not> ce_sync_fails ev" and d: "same_set c d" "cs_status d = (if operation = ''apply'' then ''applied'' else ''undone'')"
    and op: "operation = ''apply'' \<or> operation = ''undo''"
  shows "triple calm (\<lambda>w. writing c old new c' operation w \<and> content c w = (if operation = ''apply'' then new else old))
    (seq_io (persist ev d) (seq_io (set_memory d) (seq_io (finish_publish ev (cs_id c)) (return_io d))))
    (\<lambda>d' w. d' = d \<and> held c old new d w \<and> cw_journal w (cs_id c) = None \<and> settled c old new d w
       \<and> content c w = (if operation = ''apply'' then new else old) \<and> stage_ok c new w \<and> backups c old w)
    (\<lambda>_. crash_inv calm c old new) (crash_inv calm c old new)"
proof (rule triple_store_seq[OF sync, where R = "\<lambda>w. committed c old new d operation w \<and> content c w = (if operation = ''apply'' then new else old)
    \<and> stage_ok c new w \<and> backups c old w"])
  let ?A = "if operation = ''apply'' then new else old"
  fix w assume w: "writing c old new c' operation w \<and> content c w = ?A"
  have "held c old new d (store_set d w)" using w d(1) by (intro held_store) (auto simp: writing_def rolling_def)
  moreover have "publishing c old new d operation (store_set d w)" "settled c old new d (store_set d w)"
    using w d(2) op by (auto simp: writing_def rolling_def publishing_def settled_def stage_ok_def backups_def split: if_splits)
  moreover have "stage_ok c new (store_set d w)" "backups c old (store_set d w)"
    using w by (auto simp: writing_def rolling_def publishing_def stage_ok_def backups_def)
  ultimately show "committed c old new d operation (store_set d w) \<and> content c (store_set d w) = ?A
      \<and> stage_ok c new (store_set d w) \<and> backups c old (store_set d w)"
    using w by (simp add: committed_def writing_def rolling_def)
next
  let ?A = "if operation = ''apply'' then new else old"
  let ?R = "\<lambda>w. committed c old new d operation w \<and> content c w = ?A \<and> stage_ok c new w \<and> backups c old w"
  let ?Q = "\<lambda>d' w. d' = d \<and> held c old new d w \<and> cw_journal w (cs_id c) = None \<and> settled c old new d w
       \<and> content c w = ?A \<and> stage_ok c new w \<and> backups c old w"
  show "triple calm ?R (seq_io (finish_publish ev (cs_id c)) (return_io d)) ?Q (\<lambda>_. crash_inv calm c old new) (crash_inv calm c old new)"
  proof (rule triple_seq[OF triple_finish[OF sync] triple_return])
    fix w assume w: "?R w"
    let ?w = "w\<lparr>cw_journal := (cw_journal w)(cs_id c := None), cw_issues := (cw_issues w)(cs_id c := None)\<rparr>"
    have "held c old new d ?w" using w by (intro held_journal(2) held_journal(1)) (simp add: committed_def)
    moreover have "settled c old new d ?w" using w by (simp add: committed_def settled_cong[of ?w w])
    ultimately show "?Q d ?w" using w by (simp add: stage_ok_def backups_def)
  qed (auto simp: committed_def crash_inv_def intro: inv_publishing)
qed (auto intro: writing_crash)

text \<open>What a caller has to see to for a change set to apply when nothing fails: the stage and the workspace are
  those the change set was made from, no directory stands at a changed path in either and no file of the workspace in
  the place of a directory above one (creating that directory would fail), and no undo backups are left over.\<close>

definition ready :: "change_env \<Rightarrow> change_set \<Rightarrow> (string \<Rightarrow> entry option) \<Rightarrow> change_world \<Rightarrow> bool" where
  "ready ev c new w \<longleftrightarrow> (\<exists>sg. cw_stages w (cs_staging c) = Some sg \<and> sg_undo sg = None
     \<and> (\<forall>f \<in> set (cs_files c). look (sg_files sg) (cf_path f) = new (cf_path f) \<and> \<not> undo_namespace (cf_path f)
          \<and> \<not> dir_at (sg_files sg) (cf_path f) \<and> \<not> dir_at (ws_tree w (cs_workspace c)) (cf_path f)
          \<and> \<not> file_above (ws_tree w (cs_workspace c)) (cf_path f))
     \<and> (cs_base_hash c = [] \<or> sn_hash (inspect_tree ev (cs_workspace c) (ws_tree w (cs_workspace c))) = cs_base_hash c)
     \<and> (cs_manifest c = [] \<or> stage_manifest_hash ev sg (cs_files c) = Inr (cs_manifest c)))"

text \<open>Then no directory stands at a changed path after the change set is applied either.\<close>

definition no_dirs :: "change_set \<Rightarrow> (string \<Rightarrow> entry option) \<Rightarrow> bool" where
  "no_dirs c new \<longleftrightarrow> (\<forall>f \<in> set (cs_files c). \<forall>q. new q \<noteq> None \<longrightarrow> \<not> below (cf_path f) q)"

lemma ready_no_dirs:
  assumes "describes ev c old new" "ready ev c new w" "content c w = old"
  shows "no_dirs c new"
  unfolding no_dirs_def
proof (intro ballI allI impI notI)
  fix f q assume f: "f \<in> set (cs_files c)" and q: "new q \<noteq> None" "below (cf_path f) q"
  obtain sg :: stage where sg: "\<forall>f \<in> set (cs_files c). look (sg_files sg) (cf_path f) = new (cf_path f)
      \<and> \<not> dir_at (sg_files sg) (cf_path f) \<and> \<not> dir_at (ws_tree w (cs_workspace c)) (cf_path f)"
    using assms(2) unfolding ready_def by blast
  show False
  proof (cases "q \<in> cf_path ` set (cs_files c)")
    case True
    then have "look (sg_files sg) q \<noteq> None" using sg q(1) by auto
    moreover have "\<not> dir_at (sg_files sg) (cf_path f)" using sg f by blast
    ultimately show False using q(2) unfolding dir_at_look by blast
  next
    case False
    then have "look (ws_tree w (cs_workspace c)) q \<noteq> None" using assms(1,3) q(1) by (auto simp: describes_def)
    moreover have "\<not> dir_at (ws_tree w (cs_workspace c)) (cf_path f)" using sg f by blast
    ultimately show False using q(2) unfolding dir_at_look by blast
  qed
qed

text \<open>A change set that is applied and not being published.\<close>

definition applied_ok :: "change_set \<Rightarrow> (string \<Rightarrow> entry option) \<Rightarrow> (string \<Rightarrow> entry option) \<Rightarrow> change_set \<Rightarrow> change_world \<Rightarrow> bool" where
  "applied_ok c old new d w \<longleftrightarrow> held c old new d w \<and> cw_journal w (cs_id c) = None \<and> cs_status d = ''applied''
     \<and> content c w = new \<and> stage_ok c new w \<and> backups c old w"

lemma applied_ok_inv: "applied_ok c old new d w \<Longrightarrow> change_inv c old new w"
  unfolding applied_ok_def by (rule inv_settled) (auto simp: settled_def)

lemma apply_publish_triple:
  assumes sync: "\<not> ce_sync_fails ev" and d: "describes ev c old new" and sm: "same_set c c'"
    and xs: "list_all2 (prepared_ok old new) (cs_files c) xs"
  shows "triple calm (\<lambda>w. waiting c old new c' w \<and> (calm \<longrightarrow> ready ev c new w))
    (seq_io (modify_io (\<lambda>w. w\<lparr>cw_applied := []\<rparr>))
     (seq_io (catch_io (publish_all ev c' xs) (\<lambda>_. apply_failed ev c'))
     (let updated = with_status ''applied'' (Some now) None c' in
      seq_io (persist ev updated) (seq_io (set_memory updated) (seq_io (finish_publish ev (cs_id c)) (return_io updated))))))
    (applied_ok c old new) (\<lambda>_. crash_inv calm c old new) (crash_inv calm c old new)"
proof -
  let ?E = "crash_inv calm c old new"
  let ?W = "\<lambda>w. waiting c old new c' w \<and> cw_applied w = [] \<and> (calm \<longrightarrow> (\<forall>sg. cw_stages w (cs_staging c) = Some sg \<longrightarrow> sg_undo sg = None))"
  let ?N = "\<lambda>w. writing c old new c' ''apply'' w \<and> content c w = new"
  have start: "triple calm (\<lambda>w. waiting c old new c' w \<and> (calm \<longrightarrow> ready ev c new w)) (modify_io (\<lambda>w. w\<lparr>cw_applied := []\<rparr>)) (\<lambda>_. ?W) (\<lambda>_. ?E) ?E"
    by (rule triple_modify_rule) (auto simp: ready_def)
  have handler: "triple calm (interrupted calm c old new c') (apply_failed ev c') (\<lambda>_. ?N) (\<lambda>_. ?E) ?E"
    by (rule triple_post[OF apply_failed_triple[OF sync d sm]]) auto
  have same: "same_set c (with_status ''applied'' (Some now) None c')" by (rule same_set_status[OF sm])
  have commit: "triple calm ?N (let updated = with_status ''applied'' (Some now) None c' in
      seq_io (persist ev updated) (seq_io (set_memory updated) (seq_io (finish_publish ev (cs_id c)) (return_io updated))))
     (applied_ok c old new) (\<lambda>_. ?E) ?E"
    unfolding Let_def
    by (rule triple_post[OF triple_pre[OF commit_triple[OF sync same, where operation = "''apply''" and c' = c']]])
      (auto simp: applied_ok_def)
  show ?thesis
    by (rule triple_seq[OF start triple_seq[OF triple_catch[OF publish_all_triple[OF sync d sm xs] handler] commit]])
qed

lemma apply_pending_triple:
  assumes sync: "\<not> ce_sync_fails ev" and d: "describes ev c old new" and sm: "same_set c c'"
  shows "triple calm (\<lambda>w. waiting c old new c' w \<and> (calm \<longrightarrow> ready ev c new w)) (apply_pending ev now (cs_id c) c')
    (applied_ok c old new) (\<lambda>_. crash_inv calm c old new) (crash_inv calm c old new)"
  unfolding apply_pending_def same_set_fields[OF sm]
proof (rule triple_bind)
  let ?E = "crash_inv calm c old new"
  let ?P = "\<lambda>w. waiting c old new c' w \<and> (calm \<longrightarrow> ready ev c new w)"
  have PE: "\<And>w. \<not> calm \<Longrightarrow> ?P w \<Longrightarrow> ?E w" by (auto simp: waiting_crash)
  have bad: "triple calm (\<lambda>w. \<not> calm \<and> ?P w) (seq_io (mark ev c' st) (raise_change e)) Q (\<lambda>_. ?E) ?E"
    if "st = ''failed'' \<or> st = ''conflicted''" for st e and Q :: "change_set \<Rightarrow> change_world \<Rightarrow> bool"
    by (rule triple_seq[OF triple_mark[OF sync] triple_raise])
      (use that in \<open>auto simp: crash_inv_def waiting_inv inv_failed same_set_status[OF sm]\<close>)
  let ?T = "\<lambda>t w. ?P w \<and> ws_tree w (cs_workspace c) = t"
  show "triple calm ?P (resolve_root (cs_workspace c)) ?T (\<lambda>_. ?E) ?E"
    by (rule triple_resolve_root) (auto simp: waiting_def held_def)
  fix t
  let ?S = "\<lambda>sg w. ?T t w \<and> cw_stages w (cs_staging c) = Some sg"
  let ?pub = "\<lambda>prepared. seq_io (modify_io (\<lambda>w. w\<lparr>cw_applied := []\<rparr>))
     (seq_io (catch_io (publish_all ev c' prepared) (\<lambda>_. apply_failed ev c'))
     (let updated = with_status ''applied'' (Some now) None c' in
      seq_io (persist ev updated) (seq_io (set_memory updated) (seq_io (finish_publish ev (cs_id c)) (return_io updated)))))"
  let ?m2 = "\<lambda>sg h. if cs_manifest c \<noteq> [] \<and> h \<noteq> cs_manifest c
     then seq_io (mark ev c' ''failed'') (raise_change ''CHANGE_STAGE_TAMPERED'')
     else bind_io (map_io (prepare_io ev c' sg t) (cs_files c)) ?pub"
  let ?m1 = "\<lambda>sg snap. if cs_base_hash c \<noteq> [] \<and> sn_hash snap \<noteq> cs_base_hash c
     then seq_io (mark ev c' ''conflicted'') (raise_change ''CHANGE_CONFLICT'')
     else bind_io (if cs_manifest c = [] then return_io [] else os_step (lift_io (stage_manifest_hash ev sg (cs_files c)))) (?m2 sg)"
  have m2: "triple calm (\<lambda>w. ?S sg w \<and> (cs_manifest c \<noteq> [] \<longrightarrow> stage_manifest_hash ev sg (cs_files c) = Inr h)) (?m2 sg h)
      (applied_ok c old new) (\<lambda>_. ?E) ?E" for sg h
  proof (cases "cs_manifest c \<noteq> [] \<and> h \<noteq> cs_manifest c")
    case True
    show ?thesis unfolding if_P[OF True]
      by (rule triple_pre[OF bad]) (use True in \<open>auto simp: ready_def\<close>)
  next
    case False
    have "triple calm (?S sg) (bind_io (map_io (prepare_io ev c' sg t) (cs_files c)) ?pub) (applied_ok c old new) (\<lambda>_. ?E) ?E"
    proof (cases "(\<forall>f \<in> set (cs_files c). look t (cf_path f) = old (cf_path f) \<and> (new (cf_path f) \<noteq> None \<longrightarrow> look (sg_files sg) (cf_path f) = new (cf_path f)))
        \<and> (calm \<longrightarrow> (\<forall>f \<in> set (cs_files c). \<exists>x. prepare_file ev sg t f = Inr x))")
      case True
      show ?thesis
      proof (rule triple_bind[OF triple_pre[OF prepare_triple[OF sync d sm, where P = ?P and t = t and sg = sg]]])
        fix xs
        show "triple calm (\<lambda>w. ?P w \<and> list_all2 (prepared_ok old new) (cs_files c) xs) (?pub xs) (applied_ok c old new) (\<lambda>_. ?E) ?E"
          by (cases "list_all2 (prepared_ok old new) (cs_files c) xs")
            (auto intro: triple_never triple_pre[OF apply_publish_triple[OF sync d sm]])
      qed (use True in auto)
    next
      case no: False
      show ?thesis
      proof (rule triple_never)
        fix w assume w: "?S sg w"
        then have f: "\<forall>f \<in> set (cs_files c). look t (cf_path f) = old (cf_path f) \<and> (new (cf_path f) \<noteq> None \<longrightarrow> look (sg_files sg) (cf_path f) = new (cf_path f))"
          by (auto simp: waiting_def stage_ok_def)
        moreover have "\<exists>x. prepare_file ev sg t f = Inr x" if "calm" "f \<in> set (cs_files c)" for f
          by (rule prepare_file_total[OF d that(2)]) (use w that f in \<open>auto simp: ready_def\<close>)
        ultimately show False using no by blast
      qed
    qed
    then show ?thesis unfolding if_not_P[OF False] by (rule triple_pre) simp
  qed
  have m1: "triple calm (\<lambda>w. ?S sg w \<and> snap = inspect_tree ev (cs_workspace c) t) (?m1 sg snap) (applied_ok c old new) (\<lambda>_. ?E) ?E" for sg snap
  proof (cases "cs_base_hash c \<noteq> [] \<and> sn_hash snap \<noteq> cs_base_hash c")
    case True
    show ?thesis unfolding if_P[OF True]
      by (rule triple_pre[OF bad]) (use True in \<open>auto simp: ready_def\<close>)
  next
    case False
    show ?thesis unfolding if_not_P[OF False]
    proof (rule triple_bind[OF _ m2])
      show "triple calm (\<lambda>w. ?S sg w \<and> snap = inspect_tree ev (cs_workspace c) t)
        (if cs_manifest c = [] then return_io [] else os_step (lift_io (stage_manifest_hash ev sg (cs_files c))))
        (\<lambda>h w. ?S sg w \<and> (cs_manifest c \<noteq> [] \<longrightarrow> stage_manifest_hash ev sg (cs_files c) = Inr h)) (\<lambda>_. ?E) ?E"
      proof (cases "cs_manifest c = []")
        case True
        then show ?thesis by (auto simp: triple_def return_io_def)
      next
        case mf: False
        have "triple calm (\<lambda>w. ?S sg w \<and> snap = inspect_tree ev (cs_workspace c) t)
          (os_step (lift_io (stage_manifest_hash ev sg (cs_files c))))
          (\<lambda>h w. ?S sg w \<and> (cs_manifest c \<noteq> [] \<longrightarrow> stage_manifest_hash ev sg (cs_files c) = Inr h)) (\<lambda>_. ?E) ?E"
          by (rule triple_read) (use PE mf in \<open>auto simp: ready_def crash_inv_def waiting_inv\<close>)
        then show ?thesis using mf by simp
      qed
    qed
  qed
  show "triple calm (?T t) (bind_io (open_stage ev (cs_staging c)) (\<lambda>sg.
      bind_io (os_step (return_io (inspect_tree ev (cs_workspace c) t))) (?m1 sg))) (applied_ok c old new) (\<lambda>_. ?E) ?E"
  proof (rule triple_bind[OF triple_open_stage])
    show "assert_owned_stage ev (cs_staging c) = Inr ()" using d by (simp add: describes_def)
    show "cw_stages w (cs_staging c) \<noteq> None" if "?T t w" for w
      using that by (auto simp: waiting_def stage_ok_def)
    show "?S sg w" if "?T t w" "cw_stages w (cs_staging c) = Some sg" for sg w
      using that by simp
    fix sg
    show "triple calm (?S sg) (bind_io (os_step (return_io (inspect_tree ev (cs_workspace c) t))) (?m1 sg)) (applied_ok c old new) (\<lambda>_. ?E) ?E"
    proof (rule triple_bind[OF triple_step m1])
      show "triple calm (?S sg) (return_io (inspect_tree ev (cs_workspace c) t)) (\<lambda>snap w. ?S sg w \<and> snap = inspect_tree ev (cs_workspace c) t) (\<lambda>_. ?E) ?E"
        by (rule triple_pre[OF triple_return]) simp
    qed (use PE in auto)
  qed
qed

end
