(* ===== verification/Change_Undo.thy ===== *)
theory Change_Undo
  imports Change_Atomic
begin

text \<open>
  Undoing a change set, the runs of the service over any operations and any faults, and the properties
  of publication.
\<close>

section \<open>Undoing\<close>

definition original_ok :: "(string \<Rightarrow> entry option) \<Rightarrow> changed_file \<Rightarrow> string \<times> string option \<Rightarrow> bool" where
  "original_ok old f x \<longleftrightarrow> old (cf_path f) = map_option Regular (snd x)"

lemma undo_original_right:
  assumes "describes ev c old new" "f \<in> set (cs_files c)" "backups c old w" "cw_stages w (cs_staging c) = Some sg"
  shows "\<exists>x. undo_original ev sg f = Inr x \<and> original_ok old f x"
proof -
  note d = describesD[OF assms(1,2)]
  show ?thesis
  proof (cases "cf_type f = ''created''")
    case True
    then show ?thesis using d(8) by (simp add: undo_original_def original_ok_def)
  next
    case False
    then obtain b where b: "old (cf_path f) = Some (Regular b)" using d(2,8) by (auto simp: plain_entry_def)
    then obtain u where "sg_undo sg = Some u" "look u (cf_path f) = Some (Regular b)"
      using assms(2-4) by (auto simp: backups_def)
    then have "read_backup sg (cf_path f) = Inr b" by (rule read_backup_plain[OF d(1)])
    then show ?thesis using False b d(4) by (simp add: undo_original_def original_ok_def entry_hash_def)
  qed
qed

lemma undo_check_total:
  assumes "describes ev c old new" "f \<in> set (cs_files c)" "look t = new" "no_dirs c new"
  shows "undo_check ev t f = Inr ()"
  using describesD[OF assms(1,2)] assms(2-4)
  by (auto simp: undo_check_def safe_join_def plain_entry_def entry_hash_def no_dirs_def dir_at_look)

lemma applied_crash: "\<not> calm \<Longrightarrow> applied_ok c old new c' w \<Longrightarrow> crash_inv calm c old new w"
  by (simp add: crash_inv_def applied_ok_inv)

lemma applied_ok_locals [simp]:
  "applied_ok c old new d (w\<lparr>cw_applied := l, cw_removed := m\<rparr>) = applied_ok c old new d w"
  by (simp add: applied_ok_def held_def stage_ok_def backups_def ws_tree_def)

text \<open>The local lists of an undo: the bytes of the files it has restored and removed so far.\<close>

definition redo_log :: "(string \<Rightarrow> entry option) \<Rightarrow> change_world \<Rightarrow> bool" where
  "redo_log new w \<longleftrightarrow> undo_log new (cw_applied w) \<and> undo_log new (map (\<lambda>(p, b). (p, Some b)) (cw_removed w))"

definition undo_interrupted :: "bool \<Rightarrow> change_set \<Rightarrow> (string \<Rightarrow> entry option) \<Rightarrow> (string \<Rightarrow> entry option) \<Rightarrow> change_set \<Rightarrow> change_world \<Rightarrow> bool" where
  "undo_interrupted calm c old new c' w \<longleftrightarrow> \<not> calm \<and> (applied_ok c old new c' w \<and> cw_applied w = [] \<and> cw_removed w = []
     \<or> writing c old new c' ''undo'' w \<and> redo_log new w)"

lemma begin_undo_triple:
  assumes sync: "\<not> ce_sync_fails ev" and sm: "same_set c c'"
  shows "triple calm (\<lambda>w. applied_ok c old new c' w \<and> cw_applied w = [] \<and> cw_removed w = []) (begin_publish ev c' ''undo'')
    (\<lambda>_ w. writing c old new c' ''undo'' w \<and> redo_log new w \<and> content c w = new)
    (\<lambda>_. undo_interrupted calm c old new c') (crash_inv calm c old new)"
  (is "triple calm ?P _ (\<lambda>_. ?Q) ?E ?D")
  unfolding begin_publish_def same_set_fields[OF sm]
proof (rule triple_gets_bind)
  fix j :: "pub_journal option option"
  let ?up = "\<lambda>w. w\<lparr>cw_journal := (cw_journal w)(cs_id c \<mapsto> Some
        \<lparr>pb_version = 1, pb_id = cs_id c, pb_operation = ''undo'', pb_manifest = cs_manifest c\<rparr>)\<rparr>"
  show "triple calm (\<lambda>w. ?P w \<and> j = cw_journal w (cs_id c)) (if j \<noteq> None then raise_change ''CHANGE_RECOVERY_REQUIRED''
     else atomic_write ev ?up) (\<lambda>_. ?Q) ?E ?D"
  proof (cases "j = None")
    case False
    show ?thesis by (rule triple_never) (use False in \<open>auto simp: applied_ok_def\<close>)
  next
    case True
    have up: "?up w = w\<lparr>cw_journal := (cw_journal w)(cs_id c := Some (pub_of c ''undo''))\<rparr>" for w
      by (simp add: pub_of_def)
    have "?Q (?up w)" if w: "?P w" for w
    proof -
      have "held c old new c' (?up w)" unfolding up using w by (intro held_journal) (simp add: applied_ok_def)
      moreover have "stage_ok c new (?up w)" "backups c old (?up w)" using w by (auto simp: applied_ok_def stage_ok_def backups_def)
      ultimately show ?thesis using w
        by (auto simp: writing_def rolling_def publishing_def applied_ok_def redo_log_def undo_log_def pub_of_def)
    qed
    then have "triple calm (\<lambda>w. ?P w \<and> j = cw_journal w (cs_id c)) (atomic_write ev ?up) (\<lambda>_. ?Q) ?E ?D"
      by (intro triple_atomic[OF sync]) (auto simp: undo_interrupted_def applied_crash)
    then show ?thesis using True by simp
  qed
qed

lemma undo_file_triple:
  assumes sync: "\<not> ce_sync_fails ev" and d: "describes ev c old new" and f: "f \<in> set (cs_files c)" and x: "old (cf_path f) = map_option Regular original"
  shows "triple calm (\<lambda>w. writing c old new c' ''undo'' w \<and> redo_log new w \<and> content c w = g \<and> g (cf_path f) = new (cf_path f))
    (undo_file ev (cs_workspace c) (f, original))
    (\<lambda>_ w. writing c old new c' ''undo'' w \<and> redo_log new w \<and> content c w = g(cf_path f := old (cf_path f)))
    (\<lambda>_. undo_interrupted calm c old new c') (crash_inv calm c old new)"
  (is "triple calm ?P _ (\<lambda>_. ?Q) ?E ?D")
proof -
  let ?p = "cf_path f" and ?r = "cs_workspace c"
  note ds = describesD[OF d f]
  have fl: "cw_applied (put_ws r q b w) = cw_applied w" "cw_removed (put_ws r q b w) = cw_removed w"
      "cw_applied (del_ws r q w) = cw_applied w" "cw_removed (del_ws r q w) = cw_removed w" for r q b w
    by (simp_all add: put_ws_def del_ws_def)
  have rl: "redo_log new (put_ws r q b w) = redo_log new w" "redo_log new (del_ws r q w) = redo_log new w" for r q b w
    by (simp_all add: redo_log_def fl)
  let ?cur = "case new ?p of Some (Regular b) \<Rightarrow> Some b | _ \<Rightarrow> None"
  have cur: "new ?p = map_option Regular ?cur" using ds(3) by (auto simp: plain_entry_def)
  have read: "triple calm ?P (os_step (bind_io (gets_io (\<lambda>w. ws_tree w ?r)) (\<lambda>t.
         lift_io (bind_result (safe_join t (cf_type f \<noteq> ''deleted'') ?p) (\<lambda>p.
           Inr (p, if cf_type f = ''deleted'' then None
              else case look t p of Some (Regular b) \<Rightarrow> Some b | _ \<Rightarrow> None))))))
      (\<lambda>y w. ?P w \<and> y = (?p, ?cur)) ?E ?D"
  proof (rule triple_step[OF triple_gets_bind])
    fix t
    show "triple calm (\<lambda>w. ?P w \<and> t = ws_tree w ?r) (lift_io (bind_result (safe_join t (cf_type f \<noteq> ''deleted'') ?p) (\<lambda>p.
           Inr (p, if cf_type f = ''deleted'' then None
              else case look t p of Some (Regular b) \<Rightarrow> Some b | _ \<Rightarrow> None))))
      (\<lambda>y w. ?P w \<and> y = (?p, ?cur)) ?E ?D"
    proof (cases "look t ?p = new ?p")
      case True
      then have "bind_result (safe_join t (cf_type f \<noteq> ''deleted'') ?p) (\<lambda>p. Inr (p, if cf_type f = ''deleted'' then None
              else case look t p of Some (Regular b) \<Rightarrow> Some b | _ \<Rightarrow> None)) = Inr (?p, ?cur)"
        using ds(1,3,7) by (auto simp: safe_join_def plain_entry_def)
      then show ?thesis by (simp add: lift_io_def) (rule triple_pre[OF triple_return], simp)
    next
      case False
      show ?thesis by (rule triple_never) (use False in auto)
    qed
  qed (auto simp: undo_interrupted_def writing_crash)
  show ?thesis
    unfolding undo_file_def prod.case
  proof (rule triple_bind[OF read])
    fix y :: "string \<times> string option"
    let ?m = "case y of (p, current) \<Rightarrow> if cf_type f = ''created''
       then seq_io (unlink_ws ev ?r p False) (modify_io (\<lambda>w. w\<lparr>cw_removed := cw_removed w @ [(p, case current of Some b \<Rightarrow> b | None \<Rightarrow> [])]\<rparr>))
       else seq_io (atomic_write ev (put_ws ?r p (case original of Some b \<Rightarrow> b | None \<Rightarrow> [])))
         (modify_io (\<lambda>w. w\<lparr>cw_applied := cw_applied w @ [(p, current)]\<rparr>))"
    show "triple calm (\<lambda>w. ?P w \<and> y = (?p, ?cur)) ?m (\<lambda>_. ?Q) ?E ?D"
    proof (cases "y = (?p, ?cur)")
      case False
      show ?thesis by (rule triple_never) (use False in auto)
    next
      case y: True
      show ?thesis
      proof (cases "cf_type f = ''created''")
        case True
        then have n: "old ?p = None" "new ?p \<noteq> None" using ds(4,5,6,8) True
          by (cases "new ?p"; simp add: entry_hash_def)+
        then obtain b where b: "new ?p = Some (Regular b)" using ds(3) by (auto simp: plain_entry_def)
        have "triple calm ?P (seq_io (unlink_ws ev ?r ?p False) (modify_io (\<lambda>w. w\<lparr>cw_removed := cw_removed w @ [(?p, b)]\<rparr>))) (\<lambda>_. ?Q) ?E ?D"
          by (rule triple_seq[OF triple_unlink[OF sync, where Q = "\<lambda>_. ?Q"] triple_modify_rule])
            (use n b rl in \<open>auto simp: undo_interrupted_def writing_crash writing_del redo_log_def undo_log_def\<close>)
        then have "triple calm ?P ?m (\<lambda>_. ?Q) ?E ?D" using y True b by simp
        then show ?thesis by (rule triple_pre) simp
      next
        case False
        then obtain b where b: "original = Some b" "old ?p = Some (Regular b)" using x ds(8) by (cases original) auto
        have "triple calm ?P (seq_io (atomic_write ev (put_ws ?r ?p b)) (modify_io (\<lambda>w. w\<lparr>cw_applied := cw_applied w @ [(?p, ?cur)]\<rparr>))) (\<lambda>_. ?Q) ?E ?D"
        proof (rule triple_seq[OF triple_atomic[OF sync, where Q = "\<lambda>_. ?Q"] triple_modify_rule])
          fix w assume "?P w"
          then show "?Q (put_ws ?r ?p b w)" using b rl writing_put[of c old new c' "''undo''" w b ?p] by simp
        next
          fix w assume "?Q w"
          then show "?Q (w\<lparr>cw_applied := cw_applied w @ [(?p, ?cur)]\<rparr>)"
            using cur by (auto simp: redo_log_def undo_log_def)
        qed (auto simp: undo_interrupted_def writing_crash)
        then have "triple calm ?P ?m (\<lambda>_. ?Q) ?E ?D" using y False b by simp
        then show ?thesis by (rule triple_pre) simp
      qed
    qed
  qed
qed

lemma undo_writes_triple:
  assumes sync: "\<not> ce_sync_fails ev" and d: "describes ev c old new" and os: "list_all2 (original_ok old) (cs_files c) os"
  shows "triple calm (\<lambda>w. writing c old new c' ''undo'' w \<and> redo_log new w \<and> content c w = new)
    (each_io (undo_file ev (cs_workspace c)) (rev (zip (cs_files c) (map snd os))))
    (\<lambda>_ w. writing c old new c' ''undo'' w \<and> content c w = old)
    (\<lambda>_. undo_interrupted calm c old new c') (crash_inv calm c old new)"
proof -
  let ?xs = "rev (zip (cs_files c) (map snd os))"
  have dis: "distinct (map cf_path (cs_files c))" using d by (simp add: describes_def)
  have len: "length os = length (cs_files c)" using list_all2_lengthD[OF os] by simp
  have fs: "map fst ?xs = rev (cs_files c)" using len by (simp add: rev_map[symmetric])
  have dis': "distinct (map cf_path (map fst ?xs))" using dis fs by (simp add: rev_map[symmetric])
  define J where "J ys w \<longleftrightarrow> writing c old new c' ''undo'' w \<and> redo_log new w
      \<and> content c w = moved (cf_path ` fst ` set ys) new old" for ys :: "(changed_file \<times> string option) list" and w
  have "triple calm (J []) (each_io (undo_file ev (cs_workspace c)) ?xs) (\<lambda>_. J ?xs)
    (\<lambda>_. undo_interrupted calm c old new c') (crash_inv calm c old new)"
  proof (rule triple_each)
    fix ys x zs assume x: "?xs = ys @ x # zs"
    obtain f original where xx: "x = (f, original)" by (cases x)
    have "x \<in> set ?xs" unfolding x by simp
    then have "(f, original) \<in> set (zip (cs_files c) (map snd os))" using xx by simp
    then obtain n where n: "n < length (cs_files c)" "cs_files c ! n = f" "snd (os ! n) = original"
      using len by (auto simp: in_set_zip)
    then have f: "f \<in> set (cs_files c)" "old (cf_path f) = map_option Regular original"
      using list_all2_nthD[OF os n(1)] by (auto simp: original_ok_def)
    have "cf_path f \<notin> cf_path ` fst ` set ys"
      using dis' unfolding x by (simp add: xx image_image)
    then show "triple calm (J ys) (undo_file ev (cs_workspace c) x) (\<lambda>_. J (ys @ [x]))
        (\<lambda>_. undo_interrupted calm c old new c') (crash_inv calm c old new)"
      unfolding xx
      by (intro triple_post[OF triple_pre[OF undo_file_triple[OF sync d f, of calm c' "moved (cf_path ` fst ` set ys) new old"]]])
        (auto simp: J_def)
  qed
  moreover have "fst ` set ?xs = set (cs_files c)" using fs by (metis list.set_map set_rev)
  ultimately show ?thesis
    by (elim triple_post[OF triple_pre]) (use moved_all(2)[OF d] in \<open>auto simp: J_def\<close>)
qed

lemma undo_failed_triple:
  assumes sync: "\<not> ce_sync_fails ev" and d: "describes ev c old new" and sm: "same_set c c'"
  shows "triple calm (undo_interrupted calm c old new c') (undo_failed ev c' e) (\<lambda>_ _. False) (\<lambda>_. crash_inv calm c old new) (crash_inv calm c old new)"
proof (cases calm)
  case True
  show ?thesis by (rule triple_never) (use True in \<open>simp add: undo_interrupted_def\<close>)
next
  case False
  let ?D = "crash_inv False c old new"
  note same = same_set_fields[OF sm]
  let ?W = "writing c old new c' ''undo''"
  let ?more = "\<lambda>p. map (\<lambda>(p, b). (p, Some b)) (p :: (string \<times> string) list)"
  have each_map: "each_io (\<lambda>(p, b). restore_file ev (cs_workspace c) (p, Some b)) l
      = each_io (restore_file ev (cs_workspace c)) (?more l)" for l
    by (induction l) auto
  have rem: "cw_removed (put_ws r q b w) = cw_removed w" "cw_removed (del_ws r q w) = cw_removed w" for r q b w
    by (simp_all add: put_ws_def del_ws_def)
  let ?closing = "seq_io (recover_publish ev None (cs_id c))
       (raise_io (case e of Change_error code \<Rightarrow> e | _ \<Rightarrow> Change_error ''CHANGE_UNDO_FAILED''))"
  have fin: "triple False (change_inv c old new) ?closing (\<lambda>_ _. False) (\<lambda>_. ?D) ?D"
    by (rule triple_seq[OF triple_post[OF triple_pre[OF recover_publish_triple[OF sync d]]] triple_raise])
      (auto simp: crash_inv_def dest: after_recovery_inv)
  let ?second = "\<lambda>removed. seq_io (each_io (\<lambda>(p, b). restore_file ev (cs_workspace c) (p, Some b)) (rev removed)) ?closing"
  let ?A = "\<lambda>w. applied_ok c old new c' w \<and> cw_applied w = [] \<and> cw_removed w = []"
  have A: "triple False ?A (undo_failed ev c' e) (\<lambda>_ _. False) (\<lambda>_. ?D) ?D"
    unfolding undo_failed_def same
  proof (rule triple_gets_bind)
    fix l
    have "triple False (\<lambda>w. ?A w \<and> removed = cw_removed w) (?second removed) (\<lambda>_ _. False) (\<lambda>_. ?D) ?D" for removed
    proof (cases removed)
      case Nil
      have "triple False ?A (seq_io (return_io ()) ?closing) (\<lambda>_ _. False) (\<lambda>_. ?D) ?D"
        by (rule triple_seq[OF triple_pre[OF triple_return[where Q = "\<lambda>_. change_inv c old new"]] fin]) (auto dest: applied_ok_inv)
      then have "triple False ?A (?second removed) (\<lambda>_ _. False) (\<lambda>_. ?D) ?D" by (simp add: Nil)
      then show ?thesis by (rule triple_pre) simp
    next
      case (Cons a as)
      show ?thesis by (rule triple_never) (use Cons in auto)
    qed
    then have g: "triple False ?A (bind_io (gets_io cw_removed) ?second) (\<lambda>_ _. False) (\<lambda>_. ?D) ?D" by (rule triple_gets_bind)
    show "triple False (\<lambda>w. ?A w \<and> l = cw_applied w) (seq_io (each_io (restore_file ev (cs_workspace c)) (rev l))
        (bind_io (gets_io cw_removed) ?second)) (\<lambda>_ _. False) (\<lambda>_. ?D) ?D"
    proof (cases l)
      case Nil
      have "triple False ?A (seq_io (return_io ()) (bind_io (gets_io cw_removed) ?second)) (\<lambda>_ _. False) (\<lambda>_. ?D) ?D"
        by (rule triple_seq[OF triple_return[where Q = "\<lambda>_. ?A"] g])
      then have "triple False ?A (seq_io (each_io (restore_file ev (cs_workspace c)) (rev l)) (bind_io (gets_io cw_removed) ?second))
          (\<lambda>_ _. False) (\<lambda>_. ?D) ?D" by (simp add: Nil)
      then show ?thesis by (rule triple_pre) simp
    next
      case (Cons a as)
      show ?thesis by (rule triple_never) (use Cons in auto)
    qed
  qed
  let ?B = "\<lambda>w. ?W w \<and> redo_log new w"
  have B: "triple False ?B (undo_failed ev c' e) (\<lambda>_ _. False) (\<lambda>_. ?D) ?D"
    unfolding undo_failed_def same
  proof (rule triple_gets_bind)
    fix l
    let ?G = "\<lambda>w. undo_log new (?more (cw_removed w))"
    have s: "triple False (\<lambda>w. (?W w \<and> ?G w) \<and> removed = cw_removed w) (?second removed) (\<lambda>_ _. False) (\<lambda>_. ?D) ?D" for removed
    proof (cases "undo_log new (?more (rev removed))")
      case True
      have "triple False (\<lambda>w. ?W w \<and> True) (each_io (restore_file ev (cs_workspace c)) (?more (rev removed))) (\<lambda>_ w. ?W w \<and> True) (\<lambda>_. ?D) ?D"
        by (rule restore_triple[OF sync True]) simp_all
      note t = triple_seq[OF triple_post[OF this, where Q' = "\<lambda>_. change_inv c old new"] fin]
      show ?thesis unfolding each_map by (rule triple_pre[OF t]) (auto intro: writing_inv)
    next
      case False
      show ?thesis by (rule triple_never) (use False in \<open>auto simp: undo_log_def\<close>)
    qed
    note g = triple_gets_bind[of False "\<lambda>w. ?W w \<and> ?G w" cw_removed ?second, OF s]
    show "triple False (\<lambda>w. ?B w \<and> l = cw_applied w) (seq_io (each_io (restore_file ev (cs_workspace c)) (rev l))
        (bind_io (gets_io cw_removed) ?second)) (\<lambda>_ _. False) (\<lambda>_. ?D) ?D"
    proof (cases "undo_log new (rev l)")
      case True
      have "triple False (\<lambda>w. ?W w \<and> ?G w) (each_io (restore_file ev (cs_workspace c)) (rev l)) (\<lambda>_ w. ?W w \<and> ?G w) (\<lambda>_. ?D) ?D"
        by (rule restore_triple[OF sync True]) (simp_all add: rem)
      note t = triple_seq[OF this g]
      show ?thesis by (rule triple_pre[OF t]) (simp add: redo_log_def)
    next
      case False
      show ?thesis by (rule triple_never) (use False in \<open>auto simp: redo_log_def undo_log_def\<close>)
    qed
  qed
  have "triple False (undo_interrupted False c old new c') (undo_failed ev c' e) (\<lambda>_ _. False) (\<lambda>_. ?D) ?D"
    by (rule triple_pre[OF triple_disj[OF A B]]) (auto simp: undo_interrupted_def)
  then show ?thesis using False by simp
qed

end
