(* ===== verification/Change_Props.thy ===== *)
theory Change_Props
  imports Change_Undo
begin

text \<open>
  The operations \<^verbatim>\<open>apply\<close>, \<^verbatim>\<open>undo\<close> and the start of the service as transitions that fail or die at any
  step, and the properties of publication: atomicity over any run, the round trip of an
  undo, and what recovery leaves alone.
\<close>

lemma quietly_triple:
  assumes "\<And>w. P w \<Longrightarrow> P (f w)" "\<And>w. \<not> calm \<Longrightarrow> P w \<Longrightarrow> D w"
  shows "triple calm P (quietly (os_step (modify_io f))) (\<lambda>_. P) E D"
  unfolding quietly_def
proof (rule triple_catch)
  show "triple calm P (os_step (modify_io f)) (\<lambda>_. P) (\<lambda>_. P) D"
    by (rule triple_step_modify) (use assms in auto)
qed (rule triple_return)

lemma remove_stage_triple:
  assumes "\<And>w f. P w \<Longrightarrow> P (upd_stage s f w)" "\<And>w. P w \<Longrightarrow> P (w\<lparr>cw_stages := (cw_stages w)(s := None)\<rparr>)"
    and "\<And>w. \<not> calm \<Longrightarrow> P w \<Longrightarrow> D w"
  shows "triple calm P (remove_stage_quiet s) (\<lambda>_. P) E D"
  unfolding remove_stage_quiet_def
proof (rule triple_gets_bind)
  fix x :: "stage option"
  note q = quietly_triple[where P = P, OF _ assms(3)]
  let ?m = "case x of None \<Rightarrow> return_io ()
   | Some sg0 \<Rightarrow>
       seq_io (each_io (\<lambda>p. quietly (os_step (modify_io (upd_stage s (\<lambda>sg. sg\<lparr>sg_undo := map_option (drop_path p) (sg_undo sg)\<rparr>)))))
         (case sg_undo sg0 of Some u \<Rightarrow> map fst u | None \<Rightarrow> []))
       (seq_io (quietly (os_step (modify_io (upd_stage s (\<lambda>sg. if sg_undo sg = Some [] then sg\<lparr>sg_undo := None\<rparr> else sg)))))
       (seq_io (each_io (\<lambda>p. quietly (os_step (modify_io (upd_stage s (\<lambda>sg. sg\<lparr>sg_files := drop_path p (sg_files sg)\<rparr>)))))
         (map fst (sg_files sg0)))
       (quietly (os_step (modify_io (\<lambda>w. if (case cw_stages w s of Some sg \<Rightarrow> sg_files sg = [] \<and> sg_undo sg = None | None \<Rightarrow> False)
         then w\<lparr>cw_stages := (cw_stages w)(s := None)\<rparr> else w))))))"
  have "triple calm P ?m (\<lambda>_. P) E D"
  proof (cases x)
    case None
    show ?thesis unfolding None option.case by (rule triple_return)
  next
    case (Some sg0)
    show ?thesis unfolding Some option.case
      by (rule triple_seq[OF triple_each[where J = "\<lambda>_. P"] triple_seq[OF q triple_seq[OF triple_each[where J = "\<lambda>_. P"] q]]])
        (use assms(1,2) in \<open>auto intro: q assms(1,2)\<close>)
  qed
  then show "triple calm (\<lambda>w. P w \<and> x = cw_stages w s) ?m (\<lambda>_. P) E D"
    by (rule triple_pre) simp
qed

text \<open>A change set that is undone.\<close>

definition undone_ok :: "change_set \<Rightarrow> (string \<Rightarrow> entry option) \<Rightarrow> (string \<Rightarrow> entry option) \<Rightarrow> change_set \<Rightarrow> change_world \<Rightarrow> bool" where
  "undone_ok c old new d w \<longleftrightarrow> held c old new d w \<and> cw_journal w (cs_id c) = None \<and> cs_status d = ''undone'' \<and> content c w = old"

lemma undone_ok_inv: "undone_ok c old new d w \<Longrightarrow> change_inv c old new w"
  unfolding undone_ok_def by (rule inv_settled) (auto simp: settled_def)

lemma undone_stage:
  "undone_ok c old new d w \<Longrightarrow> undone_ok c old new d (upd_stage s f w)"
  "undone_ok c old new d w \<Longrightarrow> undone_ok c old new d (w\<lparr>cw_stages := x\<rparr>)"
  by (simp_all add: undone_ok_def held_def)

lemma undo_applied_triple:
  assumes sync: "\<not> ce_sync_fails ev" and d: "describes ev c old new" and sm: "same_set c c'"
    and dirs: "calm \<Longrightarrow> no_dirs c new"
  shows "triple calm (applied_ok c old new c') (undo_applied ev now (cs_id c) c')
    (undone_ok c old new) (\<lambda>_. crash_inv calm c old new) (crash_inv calm c old new)"
proof -
  let ?E = "crash_inv calm c old new" and ?P = "applied_ok c old new c'" and ?r = "cs_workspace c"
  note same = same_set_fields[OF sm]
  have PE: "\<And>w. \<not> calm \<Longrightarrow> ?P w \<Longrightarrow> ?E w" by (rule applied_crash)
  define d' where "d' = with_status ''undone'' None (Some now) c'"
  have d': "same_set c d'" "cs_status d' = ''undone''" by (simp_all add: d'_def same_set_status[OF sm])
  let ?commit = "seq_io (persist ev d') (seq_io (set_memory d') (seq_io (finish_publish ev (cs_id c)) (return_io d')))"
  let ?clean = "seq_io (remove_stage_quiet (cs_staging c)) (return_io d')"
  let ?writes = "\<lambda>os. catch_io (seq_io (begin_publish ev c' ''undo'') (each_io (undo_file ev ?r) (rev (zip (cs_files c) (map snd os)))))
         (undo_failed ev c')"
  let ?run = "\<lambda>os. seq_io (modify_io (\<lambda>w. w\<lparr>cw_applied := [], cw_removed := []\<rparr>)) (seq_io (?writes os) (seq_io ?commit ?clean))"
  have commit: "triple calm (\<lambda>w. writing c old new c' ''undo'' w \<and> content c w = old) ?commit (\<lambda>_. undone_ok c old new d') (\<lambda>_. ?E) ?E"
    by (rule triple_post[OF triple_pre[OF commit_triple[OF sync d'(1), where operation = "''undo''" and c' = c']]])
      (auto simp: undone_ok_def d'(2))
  have clean: "triple calm (undone_ok c old new d') ?clean (undone_ok c old new) (\<lambda>_. ?E) ?E"
  proof (rule triple_seq)
    show "triple calm (undone_ok c old new d') (remove_stage_quiet (cs_staging c)) (\<lambda>_. undone_ok c old new d') (\<lambda>_. ?E) ?E"
      by (rule remove_stage_triple) (auto intro: undone_stage simp: crash_inv_def undone_ok_inv)
  qed (rule triple_return)
  have run: "triple calm ?P (?run os) (undone_ok c old new) (\<lambda>_. ?E) ?E" if os: "list_all2 (original_ok old) (cs_files c) os" for os
  proof (rule triple_seq[OF triple_modify_rule])
    let ?A = "\<lambda>w. ?P w \<and> cw_applied w = [] \<and> cw_removed w = []"
    show "?A (w\<lparr>cw_applied := [], cw_removed := []\<rparr>)" if "?P w" for w using that by simp
    have "triple calm (undo_interrupted calm c old new c') (undo_failed ev c' e)
        (\<lambda>_ w. writing c old new c' ''undo'' w \<and> content c w = old) (\<lambda>_. ?E) ?E" for e
      by (rule triple_post[OF undo_failed_triple[OF sync d sm]]) auto
    note handled = triple_catch[OF triple_seq[OF begin_undo_triple[OF sync sm] undo_writes_triple[OF sync d os]] this]
    show "triple calm ?A (seq_io (?writes os) (seq_io ?commit ?clean)) (undone_ok c old new) (\<lambda>_. ?E) ?E"
      by (rule triple_seq[OF handled triple_seq[OF commit clean]])
  qed
  show ?thesis
    unfolding undo_applied_def same Let_def d'_def[symmetric]
  proof (rule triple_bind)
    let ?T = "\<lambda>t w. ?P w \<and> ws_tree w ?r = t"
    show "triple calm ?P (resolve_root ?r) ?T (\<lambda>_. ?E) ?E"
      by (rule triple_resolve_root) (auto simp: applied_ok_def held_def)
    fix t
    let ?S = "\<lambda>sg w. ?T t w \<and> cw_stages w (cs_staging c) = Some sg"
    let ?rest = "\<lambda>sg. bind_io (map_io (\<lambda>f. os_step (lift_io (undo_original ev sg f))) (cs_files c)) (\<lambda>originals.
      seq_io (each_io (\<lambda>f. os_step (lift_io (undo_check ev t f))) (cs_files c)) (?run originals))"
    have rest: "triple calm (?S sg) (?rest sg) (undone_ok c old new) (\<lambda>_. ?E) ?E" for sg
    proof (rule triple_bind[OF triple_map_read])
      fix w assume s: "?S sg w"
      show "\<forall>f \<in> set (cs_files c). \<exists>x. undo_original ev sg f = Inr x"
      proof
        fix f assume "f \<in> set (cs_files c)"
        then show "\<exists>x. undo_original ev sg f = Inr x"
          using undo_original_right[OF d, of f w sg] s by (auto simp: applied_ok_def)
      qed
    next
      fix os
      let ?L = "\<lambda>w. ?S sg w \<and> list_all2 (\<lambda>f x. undo_original ev sg f = Inr x) (cs_files c) os"
      have right: "list_all2 (original_ok old) (cs_files c) os" if w: "?L w" for w
      proof (rule list_all2_all_nthI)
        fix n assume n: "n < length (cs_files c)"
        have "undo_original ev sg (cs_files c ! n) = Inr (os ! n)" using w n by (meson list_all2_nthD)
        then show "original_ok old (cs_files c ! n) (os ! n)"
          using undo_original_right[OF d nth_mem[OF n], of w sg] w by (auto simp: applied_ok_def)
      qed (use w in \<open>auto dest: list_all2_lengthD\<close>)
      have check: "triple calm ?L (each_io (\<lambda>f. os_step (lift_io (undo_check ev t f))) (cs_files c))
          (\<lambda>_ w. ?L w \<and> (\<forall>f \<in> set (cs_files c). undo_check ev t f = Inr ())) (\<lambda>_. ?E) ?E"
      proof (rule triple_each_read)
        fix f w assume "?L w" "calm" "f \<in> set (cs_files c)"
        then show "\<exists>a. undo_check ev t f = Inr a"
          using undo_check_total[OF d, of f t] dirs by (auto simp: applied_ok_def)
      qed (use PE in auto)
      show "triple calm ?L (seq_io (each_io (\<lambda>f. os_step (lift_io (undo_check ev t f))) (cs_files c)) (?run os)) (undone_ok c old new) (\<lambda>_. ?E) ?E"
      proof (cases "list_all2 (original_ok old) (cs_files c) os")
        case True
        show ?thesis by (rule triple_seq[OF check triple_pre[OF run[OF True]]]) auto
      next
        case False
        show ?thesis by (rule triple_never) (use False right in blast)
      qed
    qed (use PE in auto)
    show "triple calm (?T t) (bind_io (open_stage ev (cs_staging c)) ?rest) (undone_ok c old new) (\<lambda>_. ?E) ?E"
    proof (rule triple_bind[OF triple_open_stage])
      show "assert_owned_stage ev (cs_staging c) = Inr ()" using d by (simp add: describes_def)
      show "cw_stages w (cs_staging c) \<noteq> None" if "?T t w" for w
        using that by (auto simp: applied_ok_def stage_ok_def)
      show "?S sg w" if "?T t w" "cw_stages w (cs_staging c) = Some sg" for sg w
        using that by simp
    qed (rule rest)
  qed
qed

section \<open>The operations\<close>

lemma apply_set_triple:
  assumes sync: "\<not> ce_sync_fails ev" and d: "describes ev c old new"
  shows "triple False (change_inv c old new) (apply_set ev now (cs_id c))
    (\<lambda>_. change_inv c old new) (\<lambda>_. change_inv c old new) (change_inv c old new)"
  unfolding apply_set_def
proof (rule triple_bind)
  let ?I = "change_inv c old new"
  let ?Q = "\<lambda>c' w. held c old new c' w \<and> (recovered c old new w \<or> ?I w \<and> (cs_status c' = ''failed'' \<or> cs_status c' = ''conflicted''))"
  show "triple False ?I (current_set ev (cs_id c)) ?Q (\<lambda>_. ?I) ?I"
    by (rule triple_post[OF current_set_triple[OF sync d]]) (auto simp: crash_inv_def)
  fix c'
  show "triple False (?Q c') (if cs_status c' \<noteq> ''pending'' then raise_change ''CHANGE_SET_NOT_PENDING'' else apply_pending ev now (cs_id c) c')
      (\<lambda>_. ?I) (\<lambda>_. ?I) ?I"
  proof (cases "cs_status c' = ''pending'' \<and> same_set c c'")
    case True
    have "triple False (\<lambda>w. waiting c old new c' w \<and> (False \<longrightarrow> ready ev c new w)) (apply_pending ev now (cs_id c) c') (\<lambda>_. ?I) (\<lambda>_. ?I) ?I"
      by (rule triple_post[OF apply_pending_triple[OF sync d]]) (use True in \<open>auto simp: crash_inv_def dest: applied_ok_inv\<close>)
    then show ?thesis using True
      by (simp, elim triple_pre) (auto simp: waiting_def recovered_def change_inv_def held_def settled_def)
  next
    case False
    then show ?thesis by (auto simp: triple_def raise_io_def recovered_def held_def)
  qed
qed

lemma undo_set_triple:
  assumes sync: "\<not> ce_sync_fails ev" and d: "describes ev c old new"
  shows "triple False (change_inv c old new) (undo_set ev now (cs_id c))
    (\<lambda>_. change_inv c old new) (\<lambda>_. change_inv c old new) (change_inv c old new)"
  unfolding undo_set_def
proof (rule triple_bind)
  let ?I = "change_inv c old new"
  let ?Q = "\<lambda>c' w. held c old new c' w \<and> (recovered c old new w \<or> ?I w \<and> (cs_status c' = ''failed'' \<or> cs_status c' = ''conflicted''))"
  show "triple False ?I (current_set ev (cs_id c)) ?Q (\<lambda>_. ?I) ?I"
    by (rule triple_post[OF current_set_triple[OF sync d]]) (auto simp: crash_inv_def)
  fix c'
  show "triple False (?Q c') (if cs_status c' \<noteq> ''applied'' then raise_change ''CHANGE_SET_NOT_APPLIED'' else undo_applied ev now (cs_id c) c')
      (\<lambda>_. ?I) (\<lambda>_. ?I) ?I"
  proof (cases "cs_status c' = ''applied'' \<and> same_set c c'")
    case True
    have "triple False (applied_ok c old new c') (undo_applied ev now (cs_id c) c') (\<lambda>_. ?I) (\<lambda>_. ?I) ?I"
      by (rule triple_post[OF undo_applied_triple[OF sync d]]) (use True in \<open>auto simp: crash_inv_def dest: undone_ok_inv\<close>)
    then show ?thesis using True
      by (simp, elim triple_pre) (auto simp: applied_ok_def recovered_def change_inv_def held_def settled_def)
  next
    case False
    then show ?thesis by (auto simp: triple_def raise_io_def recovered_def held_def)
  qed
qed

text \<open>A start of the service reloads the stored change sets, and recovers the one with a journal.\<close>

lemma recover_one:
  assumes sync: "\<not> ce_sync_fails ev" and d: "describes ev c old new"
  shows "triple calm (\<lambda>w. change_inv c old new w \<and> (calm \<and> done \<longrightarrow> recovered c old new w))
    (bind_io (gets_io (\<lambda>w. cw_sets w i \<noteq> None \<and> cw_journal w i \<noteq> None)) (\<lambda>b. when_io b (recover_publish ev None i)))
    (\<lambda>_ w. change_inv c old new w \<and> (calm \<and> (done \<or> i = cs_id c) \<longrightarrow> recovered c old new w))
    (\<lambda>_. crash_inv calm c old new) (crash_inv calm c old new)"
proof (rule triple_gets_bind)
  fix b
  let ?P = "\<lambda>w. change_inv c old new w \<and> (calm \<and> done \<longrightarrow> recovered c old new w)"
  let ?Q = "\<lambda>w. change_inv c old new w \<and> (calm \<and> (done \<or> i = cs_id c) \<longrightarrow> recovered c old new w)"
  show "triple calm (\<lambda>w. ?P w \<and> b = (cw_sets w i \<noteq> None \<and> cw_journal w i \<noteq> None)) (when_io b (recover_publish ev None i))
    (\<lambda>_. ?Q) (\<lambda>_. crash_inv calm c old new) (crash_inv calm c old new)"
  proof (rule triple_when)
    assume b: b
    show "triple calm (\<lambda>w. ?P w \<and> b = (cw_sets w i \<noteq> None \<and> cw_journal w i \<noteq> None)) (recover_publish ev None i)
      (\<lambda>_. ?Q) (\<lambda>_. crash_inv calm c old new) (crash_inv calm c old new)"
    proof (cases "i = cs_id c")
      case True
      show ?thesis unfolding True
        by (rule triple_post[OF triple_pre[OF recover_publish_triple[OF sync d]]]) (use b True in \<open>auto simp: after_recovery_def recovered_def\<close>)
    next
      case False
      show ?thesis by (rule triple_never) (use b False in \<open>auto simp: change_inv_def held_def\<close>)
    qed
  next
    fix w assume nb: "\<not> b" and w: "?P w \<and> b = (cw_sets w i \<noteq> None \<and> cw_journal w i \<noteq> None)"
    then show "?Q w" using inv_sets[of c old new w] by (auto simp: recovered_def)
  qed
qed

lemma start_service_triple:
  assumes sync: "\<not> ce_sync_fails ev" and d: "describes ev c old new"
  shows "triple calm (change_inv c old new) (start_service ev listing)
    (\<lambda>_ w. change_inv c old new w \<and> (calm \<and> cs_id c \<in> set listing \<longrightarrow> recovered c old new w))
    (\<lambda>_. crash_inv calm c old new) (crash_inv calm c old new)"
  unfolding start_service_def
proof (rule triple_seq[OF triple_modify_rule])
  fix w assume "change_inv c old new w"
  then show "change_inv c old new (w\<lparr>cw_sets := cw_meta w, cw_issues := Map.empty, cw_applied := [], cw_removed := []\<rparr>)"
    by (auto simp: change_inv_def held_def settled_def publishing_def stage_ok_def backups_def ws_tree_def)
next
  let ?f = "\<lambda>i. bind_io (gets_io (\<lambda>w. cw_sets w i \<noteq> None \<and> cw_journal w i \<noteq> None)) (\<lambda>b. when_io b (recover_publish ev None i))"
  let ?J = "\<lambda>ys w. change_inv c old new w \<and> (calm \<and> cs_id c \<in> set ys \<longrightarrow> recovered c old new w)"
  have "triple calm (?J []) (each_io ?f listing) (\<lambda>_. ?J listing) (\<lambda>_. crash_inv calm c old new) (crash_inv calm c old new)"
  proof (rule triple_each)
    fix ys i zs
    show "triple calm (?J ys) (?f i) (\<lambda>_. ?J (ys @ [i])) (\<lambda>_. crash_inv calm c old new) (crash_inv calm c old new)"
      by (rule triple_post[OF recover_one[OF sync d]]) auto
  qed
  then show "triple calm (change_inv c old new) (each_io ?f listing) (\<lambda>_. ?J listing) (\<lambda>_. crash_inv calm c old new) (crash_inv calm c old new)"
    by simp
qed

section \<open>Runs\<close>

text \<open>The operations on one change set, each with the faults it meets. A start of the service may come at any
  point, and has to come after a death.\<close>

datatype change_op = Op_apply rat | Op_undo rat | Op_start "string list"

fun run_op :: "change_env \<Rightarrow> string \<Rightarrow> change_op \<Rightarrow> fault list \<Rightarrow> change_world \<Rightarrow> change_world" where
  "run_op ev i (Op_apply now) sch w = snd (snd (apply_set ev now i sch w))"
| "run_op ev i (Op_undo now) sch w = snd (snd (undo_set ev now i sch w))"
| "run_op ev i (Op_start listing) sch w = snd (snd (start_service ev listing sch w))"

definition run_ops :: "change_env \<Rightarrow> string \<Rightarrow> (change_op \<times> fault list) list \<Rightarrow> change_world \<Rightarrow> change_world" where
  "run_ops ev i ops w = fold (\<lambda>(oper, sch). run_op ev i oper sch) ops w"

lemma triple_all:
  assumes "triple False P m (\<lambda>_. R) (\<lambda>_. R) R" "P w"
  shows "R (snd (snd (m sch w)))"
proof -
  obtain r sch' w' where m: "m sch w = (r, sch', w')" by (cases "m sch w") auto
  show ?thesis using tripleD[OF assms _ m] m by (cases r) auto
qed

lemma run_op_inv:
  assumes "\<not> ce_sync_fails ev" "describes ev c old new" "change_inv c old new w"
  shows "change_inv c old new (run_op ev (cs_id c) oper sch w)"
proof (cases oper)
  case (Op_apply now)
  then show ?thesis using triple_all[OF apply_set_triple[OF assms(1,2)] assms(3)] by simp
next
  case (Op_undo now)
  then show ?thesis using triple_all[OF undo_set_triple[OF assms(1,2)] assms(3)] by simp
next
  case (Op_start listing)
  have "triple False (change_inv c old new) (start_service ev listing) (\<lambda>_. change_inv c old new) (\<lambda>_. change_inv c old new) (change_inv c old new)"
    by (rule triple_post[OF start_service_triple[OF assms(1,2)]]) (auto simp: crash_inv_def)
  from triple_all[OF this assms(3)] show ?thesis using Op_start by simp
qed

lemma run_ops_inv:
  assumes "\<not> ce_sync_fails ev" "describes ev c old new" "change_inv c old new w"
  shows "change_inv c old new (run_ops ev (cs_id c) ops w)"
  using assms(3) unfolding run_ops_def
proof (induction ops arbitrary: w)
  case (Cons x xs)
  then show ?case using run_op_inv[OF assms(1,2)] by (cases x) simp
qed simp

lemma calm_result:
  assumes "triple True P m Q (\<lambda>_. crash_inv True c old new) (crash_inv True c old new)" "P w"
  shows "\<exists>a w'. m [] w = (Done a, [], w') \<and> Q a w'"
proof -
  obtain r sch' w' where m: "m [] w = (r, sch', w')" by (cases "m [] w") auto
  then show ?thesis using tripleD[OF assms(1,2) _ m] by (cases r) (auto simp: crash_inv_def)
qed

section \<open>Properties\<close>

text \<open>C1. Publication is atomic under crashes: run any sequence of applies, undos and service starts on a pending change set,
  with any step failing and the process dying anywhere. At every moment each file of the workspace has its old
  or its new content, and after one more start of the service in which nothing fails the journal is gone
  and the workspace is entirely old, or entirely new; it is new if the change set is then called applied,
  and old if it is called pending or undone. (On POSIX hosts, as long as directory syncs do not fail.)\<close>
theorem publication_atomic:
  fixes ops :: "(change_op \<times> fault list) list"
  assumes "\<not> ce_sync_fails ev" "describes ev c old new" "waiting c old new c w0" "cs_id c \<in> set listing"
  defines "w \<equiv> run_ops ev (cs_id c) ops w0"
  defines "w' \<equiv> run_op ev (cs_id c) (Op_start listing) [] w"
  shows "(\<forall>p. content c w p = old p \<or> content c w p = new p)
    \<and> cw_journal w' (cs_id c) = None
    \<and> (\<exists>d. cw_sets w' (cs_id c) = Some d \<and> cw_meta w' (cs_id c) = Some d
        \<and> (content c w' = old \<and> cs_status d \<noteq> ''applied'' \<or> content c w' = new \<and> cs_status d \<noteq> ''pending'' \<and> cs_status d \<noteq> ''undone''))"
proof -
  have inv: "change_inv c old new w" unfolding w_def by (rule run_ops_inv[OF assms(1,2) waiting_inv[OF assms(3)]])
  obtain u where "start_service ev listing [] w = (Done u, [], w')" "recovered c old new w'"
    using calm_result[OF start_service_triple[OF assms(1,2)] inv, of listing] assms(4) by (auto simp: w'_def)
  then have "cw_journal w' (cs_id c) = None" "\<exists>d. held c old new d w' \<and> settled c old new d w'"
    by (auto simp: recovered_def change_inv_def)
  then show ?thesis using inv by (auto simp: change_inv_def held_def settled_def)
qed

lemma current_set_plain:
  "cw_sets w i = Some c \<Longrightarrow> cw_journal w i = None \<Longrightarrow> current_set ev i [] w = (Done c, [], w)"
  by (simp add: current_set_def get_set_def bind_io_def gets_io_def return_io_def)

lemma apply_undo_run:
  assumes "\<not> ce_sync_fails ev" "describes ev c old new" "waiting c old new c w" "ready ev c new w"
  shows "\<exists>d w' d' w''. apply_set ev now (cs_id c) [] w = (Done d, [], w') \<and> content c w' = new \<and> cs_status d = ''applied''
    \<and> undo_set ev now' (cs_id c) [] w' = (Done d', [], w'') \<and> content c w'' = content c w \<and> cs_status d' = ''undone''"
proof -
  have c: "cw_sets w (cs_id c) = Some c" "cw_journal w (cs_id c) = None" "cs_status c = ''pending''" "same_set c c"
    using assms(3) by (auto simp: waiting_def held_def)
  obtain d w' where a: "apply_pending ev now (cs_id c) c [] w = (Done d, [], w')" "applied_ok c old new d w'"
    using calm_result[OF apply_pending_triple[OF assms(1,2) c(4)], of w now] assms(3,4) by auto
  have d: "cw_sets w' (cs_id c) = Some d" "cw_journal w' (cs_id c) = None" "cs_status d = ''applied''" "same_set c d"
    using a(2) by (auto simp: applied_ok_def held_def)
  obtain d' w'' where u: "undo_applied ev now' (cs_id c) d [] w' = (Done d', [], w'')" "undone_ok c old new d' w''"
    using calm_result[OF undo_applied_triple[OF assms(1,2) d(4) ready_no_dirs[OF assms(2,4)]] a(2), of now'] assms(3)
    by (auto simp: waiting_def)
  have "apply_set ev now (cs_id c) [] w = (Done d, [], w')" "undo_set ev now' (cs_id c) [] w' = (Done d', [], w'')"
    using a(1) u(1) c d by (simp_all add: apply_set_def undo_set_def bind_io_def current_set_plain)
  then show ?thesis using a(2) u(2) assms(3) by (auto simp: applied_ok_def undone_ok_def waiting_def)
qed

text \<open>C6. An undo is the inverse of an apply: when nothing fails, applying a pending change set whose workspace and stage are
  those it was made from, with no directory standing at a changed path and no file in the place of a directory above one, brings the workspace to the new
  content and marks it applied, and undoing it then restores the original content of every file and marks it undone.\<close>
theorem apply_undo_roundtrip:
  assumes "\<not> ce_sync_fails ev" "describes ev c old new" "waiting c old new c w" "ready ev c new w"
  shows "\<exists>d w' d' w''. apply_set ev now (cs_id c) [] w = (Done d, [], w') \<and> content c w' = new \<and> cs_status d = ''applied''
    \<and> undo_set ev now' (cs_id c) [] w' = (Done d', [], w'') \<and> content c w'' = content c w \<and> cs_status d' = ''undone''"
  using assms by (rule apply_undo_run)

lemma triple_keeps_root: "triple calm P (resolve_root r) (\<lambda>t w. P w \<and> cw_ws w r = Some t) (\<lambda>_. P) D"
  unfolding resolve_root_def
proof (rule triple_gets_bind)
  fix a
  show "triple calm (\<lambda>w. P w \<and> a = cw_ws w r) (case a of None \<Rightarrow> raise_io Os_error | Some t \<Rightarrow> return_io t)
      (\<lambda>t w. P w \<and> cw_ws w r = Some t) (\<lambda>_. P) D"
    by (cases a) (auto simp: triple_def raise_io_def return_io_def)
qed

lemma triple_keeps_stage: "triple calm P (open_stage ev s) (\<lambda>_. P) (\<lambda>_. P) D"
  unfolding open_stage_def
proof (rule triple_gets_bind)
  fix a
  show "triple calm (\<lambda>w. P w \<and> a = cw_stages w s) (case a of None \<Rightarrow> raise_io Os_error
     | Some sg \<Rightarrow> bind_io (lift_io (assert_owned_stage ev s)) (\<lambda>_. return_io sg)) (\<lambda>_. P) (\<lambda>_. P) D"
    by (cases a; cases "assert_owned_stage ev s") (auto simp: triple_def raise_io_def return_io_def bind_io_def lift_io_def)
qed

lemma roll_back_refused:
  assumes "\<And>sg t. cw_ws w (cs_workspace c) = Some t \<Longrightarrow> \<exists>f \<in> set (cs_files c). \<exists>e. recovery_plan ev operation sg t f = Inl e"
    and P: "\<And>v. P v \<Longrightarrow> cw_ws v = cw_ws w"
  shows "triple False P (roll_back ev fs operation i c) (\<lambda>_ _. False) (\<lambda>_. P) P"
  unfolding roll_back_def
proof (rule triple_bind[OF triple_keeps_root])
  fix t
  let ?S = "\<lambda>v. P v \<and> cw_ws v (cs_workspace c) = Some t"
  show "triple False ?S (bind_io (open_stage ev (cs_staging c)) (\<lambda>sg.
     bind_io (map_io (\<lambda>f. os_step (lift_io (recovery_plan ev operation sg t f))) (cs_files c)) (\<lambda>prepared.
     seq_io (each_io (recovery_write ev (cs_workspace c)) prepared)
       (settle_recovery ev fs operation i c)))) (\<lambda>_ _. False) (\<lambda>_. P) P"
  proof (rule triple_bind[where R = "\<lambda>_. ?S"])
    show "triple False ?S (open_stage ev (cs_staging c)) (\<lambda>_. ?S) (\<lambda>_. P) P"
      by (rule triple_post[OF triple_keeps_stage[where D = P]]) auto
    fix sg
    show "triple False ?S (bind_io (map_io (\<lambda>f. os_step (lift_io (recovery_plan ev operation sg t f))) (cs_files c)) (\<lambda>prepared.
     seq_io (each_io (recovery_write ev (cs_workspace c)) prepared)
       (settle_recovery ev fs operation i c))) (\<lambda>_ _. False) (\<lambda>_. P) P"
    proof (rule triple_bind[OF triple_map_read])
      fix prepared
      show "triple False (\<lambda>v. ?S v \<and> list_all2 (\<lambda>f a. recovery_plan ev operation sg t f = Inr a) (cs_files c) prepared)
        (seq_io (each_io (recovery_write ev (cs_workspace c)) prepared) (settle_recovery ev fs operation i c)) (\<lambda>_ _. False) (\<lambda>_. P) P"
      proof (rule triple_never)
        fix v assume v: "?S v \<and> list_all2 (\<lambda>f a. recovery_plan ev operation sg t f = Inr a) (cs_files c) prepared"
        then obtain f e where f: "f \<in> set (cs_files c)" "recovery_plan ev operation sg t f = Inl e"
          using assms(1)[of t sg] P[of v] by auto
        then obtain n where "n < length (cs_files c)" "cs_files c ! n = f" by (auto simp: in_set_conv_nth)
        then show False using list_all2_nthD[of _ "cs_files c" prepared n] v f(2) by fastforce
      qed
    qed auto
  qed
qed

lemma triple_sync_any: "(\<And>w. P w \<Longrightarrow> E Os_error w \<and> D w) \<Longrightarrow> triple calm P (sync_directory ev) (\<lambda>_. P) E D"
  unfolding sync_directory_def
  by (cases "ce_sync_fails ev") (auto intro!: triple_step triple_pre[OF triple_return[where Q = "\<lambda>_. P"]] triple_return[where Q = "\<lambda>_. P"])

lemma triple_mark_any:
  assumes "\<And>w x. R w \<Longrightarrow> R (w\<lparr>cw_meta := x\<rparr>)" "\<And>w x. R w \<Longrightarrow> R (w\<lparr>cw_sets := x\<rparr>)"
  shows "triple calm R (mark ev c st) (\<lambda>_ w. R w \<and> (\<exists>d. cw_sets w (cs_id c) = Some d \<and> cs_status d = st)) (\<lambda>_. R) R"
  unfolding mark_def Let_def persist_def atomic_write_def set_memory_def
proof (rule triple_seq[OF triple_seq triple_modify_rule])
  show "triple calm R (os_step (modify_io (\<lambda>w. w\<lparr>cw_meta := (cw_meta w)(cs_id (with_status st None None c) \<mapsto> with_status st None None c)\<rparr>)))
      (\<lambda>_. R) (\<lambda>_. R) R"
    by (rule triple_step_modify) (use assms in auto)
  show "triple calm R (sync_directory ev) (\<lambda>_. R) (\<lambda>_. R) R" by (rule triple_sync_any) simp
qed (use assms in auto)

lemma recover_body_refused:
  assumes roll: "\<And>operation. triple False P (roll_back ev fs operation i c) (\<lambda>_. Q) (\<lambda>_. P) P"
    and "\<And>v. P v \<Longrightarrow> cw_journal v i = Some (Some jn)"
    and "cs_status c \<noteq> (if pb_operation jn = ''apply'' then ''applied'' else ''undone'')"
  shows "triple False P (recover_body ev fs i c) (\<lambda>_. Q) (\<lambda>_. P) P"
  unfolding recover_body_def
proof (rule triple_bind[OF triple_step_gets])
  fix a :: "pub_journal option option"
  let ?m = "case a of None \<Rightarrow> raise_io Os_error | Some None \<Rightarrow> raise_io Value_error
   | Some (Some jn) \<Rightarrow> let operation = pb_operation jn in
       if pb_version jn \<noteq> 1 \<or> pb_id jn \<noteq> i \<or> (operation \<noteq> ''apply'' \<and> operation \<noteq> ''undo'')
           \<or> pb_manifest jn \<noteq> cs_manifest c then raise_io Value_error
       else if cs_status c = (if operation = ''apply'' then ''applied'' else ''undone'') then finish_publish ev i
       else roll_back ev fs operation i c"
  show "triple False (\<lambda>v. P v \<and> a = cw_journal v i) ?m (\<lambda>_. Q) (\<lambda>_. P) P"
  proof (cases "a = Some (Some jn)")
    case True
    have "triple False P ?m (\<lambda>_. Q) (\<lambda>_. P) P"
      using roll[of "pb_operation jn"] assms(3) True by (auto simp: Let_def triple_def raise_io_def)
    then show ?thesis by (rule triple_pre) simp
  next
    case False
    show ?thesis by (rule triple_never) (use False assms(2) in auto)
  qed
qed auto

text \<open>C3. Recovery never overwrites an edit: if a file of an interrupted change set holds neither its old nor its new content,
  then a recovery writes and removes nothing in any workspace and any stage and leaves the journal,
  whatever fails; if it ends, the change set is marked as conflicted (or failed).\<close>
theorem recovery_keeps_edits:
  assumes "cw_sets w i = Some c" "cs_id c = i" "cw_journal w i = Some (Some jn)"
    and "cs_status c \<noteq> (if pb_operation jn = ''apply'' then ''applied'' else ''undone'')"
    and "f \<in> set (cs_files c)" "normalize_relative (cf_path f) = Inr p" "cw_ws w (cs_workspace c) = Some t"
    and "entry_hash ev (look t p) \<noteq> cf_prev f" "entry_hash ev (look t p) \<noteq> cf_new f"
    and "recover_publish ev fs i sch w = (r, sch', w')"
  shows "cw_ws w' = cw_ws w \<and> cw_stages w' = cw_stages w \<and> cw_journal w' = cw_journal w
    \<and> (r = Done () \<longrightarrow> (\<exists>d. cw_sets w' i = Some d \<and> cs_status d = (case fs of Some s \<Rightarrow> s | None \<Rightarrow> ''conflicted'')))"
proof -
  define P where "P v \<longleftrightarrow> cw_ws v = cw_ws w \<and> cw_stages v = cw_stages w \<and> cw_journal v = cw_journal w \<and> cw_sets v i = Some c" for v :: change_world
  let ?st = "case fs of Some s \<Rightarrow> s | None \<Rightarrow> ''conflicted''"
  let ?F = "\<lambda>v. cw_ws v = cw_ws w \<and> cw_stages v = cw_stages w \<and> cw_journal v = cw_journal w"
  let ?Q = "\<lambda>v. ?F v \<and> (\<exists>d. cw_sets v i = Some d \<and> cs_status d = ?st)"
  have refused: "\<exists>f \<in> set (cs_files c). \<exists>e. recovery_plan ev operation sg t' f = Inl e" if "cw_ws w (cs_workspace c) = Some t'" for operation sg t'
    using that assms(5-9) by (intro bexI[of _ f]) (auto simp: recovery_plan_def Let_def safe_join_def)
  have roll: "triple False P (roll_back ev fs operation i c) (\<lambda>_. ?Q) (\<lambda>_. P) P" for operation
    by (rule triple_post[OF roll_back_refused[where w = w]]) (auto simp: P_def refused)
  have body: "triple False P (recover_body ev fs i c) (\<lambda>_. ?Q) (\<lambda>_. P) P"
    by (rule recover_body_refused[where jn = jn]) (use roll assms(3,4) in \<open>auto simp: P_def\<close>)
  have handler: "triple False P (seq_io (modify_io (\<lambda>w. w\<lparr>cw_issues := (cw_issues w)(i \<mapsto> error_code e)\<rparr>)) (mark ev c ?st))
      (\<lambda>_. ?Q) (\<lambda>_. ?F) ?F" for e
  proof (rule triple_seq[where R = ?F])
    show "triple False P (modify_io (\<lambda>w. w\<lparr>cw_issues := (cw_issues w)(i \<mapsto> error_code e)\<rparr>)) (\<lambda>_. ?F) (\<lambda>_. ?F) ?F"
      by (rule triple_modify_rule) (simp add: P_def)
    show "triple False ?F (mark ev c ?st) (\<lambda>_. ?Q) (\<lambda>_. ?F) ?F"
      by (rule triple_post[OF triple_mark_any]) (use assms(2) in auto)
  qed
  have body': "triple False P (recover_body ev fs i c) (\<lambda>_. ?Q) (\<lambda>_. P) ?F"
    by (rule triple_post[OF body]) (auto simp: P_def)
  have "triple False P (recover_publish ev fs i) (\<lambda>_. ?Q) (\<lambda>_. ?F) ?F"
    unfolding recover_publish_def
  proof (rule triple_bind[OF triple_get_set])
    fix c'
    have "triple False P (catch_io (recover_body ev fs i c) (\<lambda>e. seq_io (modify_io (\<lambda>w. w\<lparr>cw_issues := (cw_issues w)(i \<mapsto> error_code e)\<rparr>)) (mark ev c ?st)))
        (\<lambda>_. ?Q) (\<lambda>_. ?F) ?F"
      by (rule triple_catch[OF body' handler])
    then show "triple False (\<lambda>v. P v \<and> cw_sets v i = Some c') (catch_io (recover_body ev fs i c')
        (\<lambda>e. seq_io (modify_io (\<lambda>w. w\<lparr>cw_issues := (cw_issues w)(i \<mapsto> error_code e)\<rparr>)) (mark ev c' ?st))) (\<lambda>_. ?Q) (\<lambda>_. ?F) ?F"
      by (cases "c' = c") (auto intro: triple_pre triple_never simp: P_def)
  qed (auto simp: P_def)
  from tripleD[OF this _ _ assms(10)] show ?thesis
    using assms(1) by (cases r) (auto simp: P_def)
qed

section \<open>A concrete change set\<close>

definition demo_env :: change_env where
  "demo_env = \<lparr>ce_sha = (\<lambda>b. b), ce_staging = ''/s'', ce_sync_fails = False, ce_normcase = (\<lambda>p. p), ce_mime = (\<lambda>_. None),
     ce_utf8 = Some, ce_diff = (\<lambda>_ _ _. []), ce_delete_diff = (\<lambda>_ _. [])\<rparr>"

definition demo_tree :: tree where
  "demo_tree = [(''a'', Regular ''1'')]"

definition demo_stage :: stage where
  "demo_stage = \<lparr>sg_files = [(''a'', Regular ''2'')], sg_undo = None\<rparr>"

definition demo_change :: changed_file where
  "demo_change = \<lparr>cf_path = ''a'', cf_type = ''modified'', cf_prev = Some ''1'', cf_new = Some ''2'', cf_diff = None,
     cf_preview = True, cf_warning = None\<rparr>"

definition demo_set :: change_set where
  "demo_set = \<lparr>cs_id = ''c1'', cs_provider = ''p'', cs_workspace = ''/w'', cs_staging = ''/s/c1'', cs_status = ''pending'',
     cs_files = [demo_change], cs_summary = [], cs_revision = [],
     cs_base_hash = sn_hash (inspect_tree demo_env ''/w'' demo_tree),
     cs_manifest = ''a'' @ [nul_char] @ ''2'' @ [char_of (10 :: nat)],
     cs_auth = None, cs_auth_source = [], cs_risk = [], cs_review = True, cs_created = 0, cs_applied = None, cs_undone = None\<rparr>"

definition demo_world :: change_world where
  "demo_world = \<lparr>cw_ws = [''/w'' \<mapsto> demo_tree], cw_stages = [''/s/c1'' \<mapsto> demo_stage], cw_sets = [''c1'' \<mapsto> demo_set],
     cw_meta = [''c1'' \<mapsto> demo_set], cw_journal = Map.empty, cw_issues = Map.empty, cw_applied = [], cw_removed = []\<rparr>"

definition demo_new :: "string \<Rightarrow> entry option" where
  "demo_new = look [(''a'', Regular ''2'')]"

lemma demo_path: "normalize_relative ''a'' = Inr ''a''" "\<not> undo_namespace ''a''" "assert_owned_stage demo_env ''/s/c1'' = Inr ()"
  by code_simp+

lemma demo_describes: "describes demo_env demo_set (look demo_tree) demo_new"
  using demo_path
  by (auto simp: describes_def demo_set_def demo_change_def demo_tree_def demo_new_def plain_entry_def entry_hash_def demo_env_def)

lemma demo_waiting: "waiting demo_set (look demo_tree) demo_new demo_set demo_world"
  by (auto simp: waiting_def held_def same_set_def stage_ok_def ws_tree_def demo_world_def demo_set_def demo_change_def
      demo_stage_def demo_new_def)

lemma demo_ready: "ready demo_env demo_set demo_new demo_world"
proof -
  have "stage_manifest_hash demo_env demo_stage [demo_change] = Inr (cs_manifest demo_set)"
    using demo_path by (simp add: stage_manifest_hash_def safe_join_def demo_change_def demo_stage_def demo_set_def demo_env_def)
  then show ?thesis
    using demo_path by (simp add: ready_def demo_world_def demo_set_def demo_change_def demo_stage_def demo_new_def ws_tree_def
        demo_tree_def dir_at_def file_above_def below_def starts_with_def)
qed

lemma publication_atomic_witness:
  "cw_journal (run_op demo_env ''c1'' (Op_start [''c1'']) []
     (run_ops demo_env ''c1'' [(Op_apply 5, [Go, Go, Go, Go, Go, Go, Go, Die]), (Op_start [''c1''], [Go, Go, Fail])] demo_world)) ''c1'' = None"
  using publication_atomic[OF _ demo_describes demo_waiting, of "[''c1'']"] by (simp add: demo_env_def demo_set_def)

lemma apply_undo_roundtrip_witness:
  "\<exists>d w' d' w''. apply_set demo_env 5 ''c1'' [] demo_world = (Done d, [], w') \<and> cs_status d = ''applied''
    \<and> undo_set demo_env 6 ''c1'' [] w' = (Done d', [], w'') \<and> cs_status d' = ''undone''"
  using apply_undo_roundtrip[OF _ demo_describes demo_waiting demo_ready, of 5 6] by (auto simp: demo_env_def demo_set_def)

definition demo_edited :: change_world where
  "demo_edited = demo_world\<lparr>cw_ws := [''/w'' \<mapsto> [(''a'', Regular ''3'')]], cw_journal := [''c1'' \<mapsto> pub_of demo_set ''apply'']\<rparr>"

lemma recovery_keeps_edits_witness:
  "cw_ws (snd (snd (recover_publish demo_env None ''c1'' [] demo_edited))) ''/w'' = Some [(''a'', Regular ''3'')]"
proof -
  obtain r sch' w' where e: "recover_publish demo_env None ''c1'' [] demo_edited = (r, sch', w')"
    by (cases "recover_publish demo_env None ''c1'' [] demo_edited") auto
  have "cw_ws w' = cw_ws demo_edited"
    using recovery_keeps_edits[OF _ _ _ _ _ _ _ _ _ e, of demo_set "\<lparr>pb_version = 1, pb_id = ''c1'', pb_operation = ''apply'', pb_manifest = cs_manifest demo_set\<rparr>" demo_change "''a''" "[(''a'', Regular ''3'')]"]
    using demo_path by (simp add: demo_edited_def demo_world_def pub_of_def demo_set_def demo_change_def entry_hash_def demo_env_def)
  then show ?thesis using e by (simp add: demo_edited_def)
qed

end
