(* ===== verification/Change_Drafts.thy ===== *)
theory Change_Drafts
  imports Change_Props "HOL-Library.Code_Target_Nat"
begin

text \<open>
  From a stage to a published change set, and the review drafts of failed runs,
  \<^verbatim>\<open>backend/changes/service.py\<close>: \<^verbatim>\<open>create_from_stage\<close> builds well-formed change sets, a change set it built is applied
  to the workspace it was made from, and \<^verbatim>\<open>create_review_draft\<close> and \<^verbatim>\<open>materialize_review_draft\<close> carry the
  changes of a failed run into a new stage.
\<close>

section \<open>What a stage changes\<close>

lemma set_options [simp]: "x \<in> set (options xs) \<longleftrightarrow> Some x \<in> set xs"
  by (auto simp: options_def split: option.splits)

lemma all_results_list: "all_results f xs = Inr ys \<longleftrightarrow> list_all2 (\<lambda>x y. f x = Inr y) xs ys"
  by (induction xs arbitrary: ys) (auto simp: sum_case_simps list_all2_Cons1)

lemma all_results_set: "all_results f xs = Inr ys \<Longrightarrow> y \<in> set ys \<longleftrightarrow> (\<exists>x \<in> set xs. f x = Inr y)"
  unfolding all_results_list by (induction rule: list_all2_induct) auto

lemma distinct_options:
  assumes "list_all2 (\<lambda>x y. \<forall>z. y = Some z \<longrightarrow> g z = x) xs ys" "distinct xs"
  shows "distinct (map g (options ys)) \<and> g ` set (options ys) \<subseteq> set xs"
  using assms
  by (induction rule: list_all2_induct) (fastforce simp: options_def split: option.splits)+

definition well_formed_change :: "change_env \<Rightarrow> stage \<Rightarrow> workspace_snapshot \<Rightarrow> changed_file \<Rightarrow> bool" where
  "well_formed_change ev sg baseline f \<longleftrightarrow>
     cf_prev f = map_option sf_hash (map_of (sn_files baseline) (cf_path f)) \<and> cf_prev f \<noteq> cf_new f
     \<and> (cf_type f = ''deleted'' \<and> cf_new f = None \<and> cf_prev f \<noteq> None
        \<or> cf_type f = (if cf_prev f = None then ''created'' else ''modified'') \<and> is_safe_relative_path (cf_path f)
          \<and> (\<exists>b. read_staged sg (cf_path f) = Inr b \<and> cf_new f = Some (ce_sha ev b)))"

lemma staged_change_ok:
  assumes "staged_change ev sg baseline p = Inr (Some f)"
  shows "well_formed_change ev sg baseline f \<and> cf_path f = p \<and> cf_type f \<noteq> ''deleted''"
proof -
  let ?previous = "map_of (sn_files baseline) p"
  obtain b where b: "is_safe_relative_path p" "read_staged sg p = Inr b"
    using assms by (auto simp: staged_change_def Let_def sum_case_simps split: if_splits)
  obtain x y z where d: "diff_preview ev p (case ?previous of Some g \<Rightarrow> sf_content g | None \<Rightarrow> Some []) b = (x, y, z)"
    by (metis prod_cases3)
  have f: "f = \<lparr>cf_path = p, cf_type = (if ?previous = None then ''created'' else ''modified''),
        cf_prev = map_option sf_hash ?previous, cf_new = Some (ce_sha ev b), cf_diff = x, cf_preview = y, cf_warning = z\<rparr>"
    "map_option sf_hash ?previous \<noteq> Some (ce_sha ev b)"
    using assms b d by (auto simp: staged_change_def Let_def split: if_splits option.splits)
  then show ?thesis using b by (simp add: well_formed_change_def)
qed

lemma deleted_change_ok:
  "deleted_change ev baseline p = Some f \<Longrightarrow> well_formed_change ev sg baseline f \<and> cf_path f = p \<and> cf_type f = ''deleted''"
  by (auto simp: deleted_change_def well_formed_change_def split: option.splits)

text \<open>The parts of an accepted stage.\<close>

lemma stage_changes_cases:
  assumes "stage_changes ev sg baseline authorized deleted = Inr changed"
  obtains staged au dl changes where
    "\<And>p. p \<in> set staged \<longleftrightarrow> (\<exists>q b. (q, b) \<in> set (iter_files (sg_files sg)) \<and> q \<notin> IGNORED_STAGE
        \<and> canonical ev (canonical_paths ev (filter (\<lambda>p. p \<notin> IGNORED_STAGE) (map fst (iter_files (sg_files sg)))) (map fst (sn_files baseline))) q = Inr p)"
    "\<And>p. p \<in> set au \<Longrightarrow> \<exists>q \<in> set authorized. canonical ev (canonical_paths ev (filter (\<lambda>p. p \<notin> IGNORED_STAGE) (map fst (iter_files (sg_files sg)))) (map fst (sn_files baseline))) q = Inr p"
    "set staged \<subseteq> set au" "set dl \<subseteq> set au" "set dl \<inter> set staged = {}"
    "all_results (staged_change ev sg baseline) (sorted_set staged) = Inr changes" "changed \<noteq> []"
    "changed = options changes @ options (map (deleted_change ev baseline) (sorted_set dl))"
proof -
  let ?names = "canonical_paths ev (filter (\<lambda>p. p \<notin> IGNORED_STAGE) (map fst (iter_files (sg_files sg)))) (map fst (sn_files baseline))"
  obtain staged au dl changes where r:
    "all_results (canonical ev ?names) (filter (\<lambda>p. p \<notin> IGNORED_STAGE) (map fst (iter_files (sg_files sg)))) = Inr staged"
    "all_results (canonical ev ?names) (filter (\<lambda>p. p \<notin> IGNORED_STAGE) authorized) = Inr au"
    "set dl \<subseteq> set au" "set dl \<inter> set staged = {}" "set staged \<subseteq> set au"
    "all_results (staged_change ev sg baseline) (sorted_set staged) = Inr changes" "changed \<noteq> []"
    "changed = options changes @ options (map (deleted_change ev baseline) (sorted_set dl))"
    using assms by (auto simp: stage_changes_def Let_def sum_case_simps split: if_splits)
  have "p \<in> set staged \<longleftrightarrow> (\<exists>q b. (q, b) \<in> set (iter_files (sg_files sg)) \<and> q \<notin> IGNORED_STAGE \<and> canonical ev ?names q = Inr p)" for p
    unfolding all_results_set[OF r(1)] by force
  moreover have "\<exists>q \<in> set authorized. canonical ev ?names q = Inr p" if "p \<in> set au" for p
    using that unfolding all_results_set[OF r(2)] by auto
  ultimately show thesis using that r(3-8) by blast
qed

lemma changes_paths:
  assumes "all_results (staged_change ev sg baseline) (sorted_set staged) = Inr changes"
    and "changed = options changes @ options (map (deleted_change ev baseline) (sorted_set dl))" "set dl \<inter> set staged = {}"
  shows "distinct (map cf_path changed)"
    and "\<And>f. f \<in> set changed \<Longrightarrow> well_formed_change ev sg baseline f \<and> (if cf_type f = ''deleted'' then cf_path f \<in> set dl else cf_path f \<in> set staged)"
proof -
  have l: "list_all2 (\<lambda>x y. \<forall>z. y = Some z \<longrightarrow> cf_path z = x) (sorted_set staged) changes"
    using assms(1) unfolding all_results_list by (rule list_all2_mono) (auto dest: staged_change_ok)
  have m: "list_all2 (\<lambda>x y. \<forall>z. y = Some z \<longrightarrow> cf_path z = x) (sorted_set dl) (map (deleted_change ev baseline) (sorted_set dl))"
    by (simp add: list_all2_map2 list_all2_same) (metis deleted_change_ok)
  have d: "distinct (sorted_set xs)" "set (sorted_set xs) = set xs" for xs by (simp_all add: sorted_set_def)
  show "distinct (map cf_path changed)"
  proof -
    have "cf_path ` set (options changes) \<inter> cf_path ` set (options (map (deleted_change ev baseline) (sorted_set dl))) = {}"
      using distinct_options[OF l d(1)] distinct_options[OF m d(1)] assms(3) unfolding d(2) by blast
    then show ?thesis
      using distinct_options[OF l d(1)] distinct_options[OF m d(1)] unfolding assms(2) by simp
  qed
  fix f assume f: "f \<in> set changed"
  then consider "Some f \<in> set changes" | p where "p \<in> set dl" "deleted_change ev baseline p = Some f"
    using assms(2) d(2) by fastforce
  then show "well_formed_change ev sg baseline f \<and> (if cf_type f = ''deleted'' then cf_path f \<in> set dl else cf_path f \<in> set staged)"
  proof cases
    case 1
    then obtain p where "p \<in> set (sorted_set staged)" "staged_change ev sg baseline p = Inr (Some f)"
      using all_results_set[OF assms(1)] by blast
    then show ?thesis using staged_change_ok d(2) by fastforce
  next
    case 2
    then show ?thesis using deleted_change_ok by fastforce
  qed
qed

lemma stage_changes_facts:
  assumes "stage_changes ev sg baseline authorized deleted = Inr changed"
  shows "changed \<noteq> [] \<and> distinct (map cf_path changed) \<and> (\<forall>f \<in> set changed. well_formed_change ev sg baseline f
     \<and> (\<exists>p \<in> set authorized. canonical ev (canonical_paths ev
          (filter (\<lambda>p. p \<notin> IGNORED_STAGE) (map fst (iter_files (sg_files sg)))) (map fst (sn_files baseline))) p = Inr (cf_path f)))"
  using assms
proof (rule stage_changes_cases)
  fix staged au dl changes
  assume a: "\<And>p. p \<in> set au \<Longrightarrow> \<exists>q \<in> set authorized. canonical ev (canonical_paths ev (filter (\<lambda>p. p \<notin> IGNORED_STAGE) (map fst (iter_files (sg_files sg)))) (map fst (sn_files baseline))) q = Inr p"
    and r: "set staged \<subseteq> set au" "set dl \<subseteq> set au" "set dl \<inter> set staged = {}"
      "all_results (staged_change ev sg baseline) (sorted_set staged) = Inr changes" "changed \<noteq> []"
      "changed = options changes @ options (map (deleted_change ev baseline) (sorted_set dl))"
  show ?thesis
    using changes_paths[OF r(4,6,3)] a r(1,2,5) by (metis subsetD)
qed

text \<open>C5. A change set is well formed: the files that a stage changes are not none, have pairwise different paths, each
  authorised; the previous hash of each is that of the baseline and differs from its new hash; a
  deleted file has a previous and no new content, and every other file has a safe path, the
  type that its previous content implies, and the hash of the staged bytes.\<close>
theorem stage_changes_well_formed:
  assumes "stage_changes ev sg baseline authorized deleted = Inr changed"
  shows "changed \<noteq> [] \<and> distinct (map cf_path changed) \<and> (\<forall>f \<in> set changed. well_formed_change ev sg baseline f
     \<and> (\<exists>p \<in> set authorized. canonical ev (canonical_paths ev
          (filter (\<lambda>p. p \<notin> IGNORED_STAGE) (map fst (iter_files (sg_files sg)))) (map fst (sn_files baseline))) p = Inr (cf_path f)))"
  using assms by (rule stage_changes_facts)

section \<open>From creation to publication\<close>

lemma distinct_regular: "distinct (map fst t) \<Longrightarrow> (p, b) \<in> set (regular_files t) \<longleftrightarrow> look t p = Some (Regular b)"
  by (force simp: regular_files_def split: entry.splits dest: map_of_SomeD intro: map_of_is_SomeI)

lemma safe_not_below_ignored: "is_safe_relative_path p \<Longrightarrow> py_strip p = p \<Longrightarrow> \<not> below_ignored p"
proof -
  assume "is_safe_relative_path p" "py_strip p = p"
  then obtain q where q: "normalize_relative p = Inr q" by (auto simp: is_safe_relative_path_def is_ok_def split: sum.splits)
  then have "q = p" using normalize_value[OF q] \<open>py_strip p = p\<close> by simp
  then show ?thesis using normalize_parts[OF q] by (auto simp: safe_parts_def below_ignored_def dest: in_set_butlastD)
qed

lemma snapshot_hash_of:
  assumes "distinct (map fst t)" "is_safe_relative_path p" "py_strip p = p"
  shows "map_option sf_hash (map_of (snapshot_files ev t) p) = entry_hash ev (look t p)"
    and "map_of (snapshot_files ev t) p \<noteq> None \<longleftrightarrow> (\<exists>b. look t p = Some (Regular b))"
proof -
  let ?g = "\<lambda>p b. \<lparr>sf_path = p, sf_hash = ce_sha ev b, sf_size = length b, sf_content = read_text_preview ev p b MAX_CONTEXT_FILE_BYTES\<rparr>"
  let ?l = "filter (\<lambda>(p, b). is_safe_relative_path p) (iter_files t)"
  have "distinct (map fst (regular_files t))"
    using assms(1) unfolding regular_files_def
    by (induction t) (force split: entry.splits)+
  then have "distinct (map fst ?l)" unfolding iter_files_def by (simp add: distinct_map_filter)
  moreover have "(p, b) \<in> set ?l \<longleftrightarrow> look t p = Some (Regular b)" for b
    using assms(2) safe_not_below_ignored[OF assms(2,3)] distinct_regular[OF assms(1)] by (simp add: iter_files_def)
  ultimately have l: "map_of ?l p = Some b \<longleftrightarrow> look t p = Some (Regular b)" for b
    by (metis map_of_is_SomeI map_of_SomeD)
  have "map_of (snapshot_files ev t) p = map_option (?g p) (map_of ?l p)"
  proof -
    have "map_of (map (\<lambda>(p, b). (p, ?g p b)) l) p = map_option (?g p) (map_of l p)" for l :: "(string \<times> string) list"
      by (induction l) auto
    then show ?thesis by (simp add: snapshot_files_def)
  qed
  moreover have "entry_hash ev y = map_option (ce_sha ev) x \<and> (x \<noteq> None \<longleftrightarrow> (\<exists>b. y = Some (Regular b)))"
    if "\<And>b. x = Some b \<longleftrightarrow> y = Some (Regular b)" for x y
  proof (cases x)
    case None
    then have "y \<noteq> Some (Regular b)" for b using that by simp
    then show ?thesis using None by (auto simp: entry_hash_def split: option.splits entry.splits)
  next
    case (Some b)
    then have "y = Some (Regular b)" using that[of b] by simp
    then show ?thesis using Some by (simp add: entry_hash_def)
  qed
  note this[OF l]
  ultimately show "map_option sf_hash (map_of (snapshot_files ev t) p) = entry_hash ev (look t p)"
    and "map_of (snapshot_files ev t) p \<noteq> None \<longleftrightarrow> (\<exists>b. look t p = Some (Regular b))"
    by (simp_all add: option.map_comp comp_def)
qed

text \<open>A workspace and a stage without links and empty directories, without paths that \<^verbatim>\<open>strip()\<close> or the host file system would
  respell, and with no path below another, as on every disk; the workspace is what the baseline was taken from.\<close>

definition plain_tree :: "tree \<Rightarrow> bool" where
  "plain_tree t \<longleftrightarrow> distinct (map fst t) \<and> (\<forall>(p, e) \<in> set t. (case e of Regular _ \<Rightarrow> True | _ \<Rightarrow> False) \<and> py_strip p = p \<and> \<not> undo_namespace p
     \<and> \<not> dir_at t p)"

lemma plain_no_dir: "plain_tree t \<Longrightarrow> look t p \<noteq> None \<Longrightarrow> \<not> dir_at t p"
  unfolding plain_tree_def by (force dest: map_of_SomeD)

definition changed_content :: "changed_file list \<Rightarrow> stage \<Rightarrow> tree \<Rightarrow> string \<Rightarrow> entry option" where
  "changed_content changed sg t p = (if p \<in> cf_path ` set changed then look (sg_files sg) p else look t p)"

lemma plain_no_file: "plain_tree t \<Longrightarrow> look t p \<noteq> None \<Longrightarrow> \<not> file_above t p"
  unfolding file_above_look using plain_no_dir dir_at_look by blast

lemma plain_look: "plain_tree t \<Longrightarrow> look t p = Some e \<Longrightarrow> (\<exists>b. e = Regular b) \<and> py_strip p = p \<and> \<not> undo_namespace p"
  unfolding plain_tree_def by (drule map_of_SomeD) (cases e; fastforce)

lemma safe_stripped: "is_safe_relative_path p \<Longrightarrow> py_strip p = p \<Longrightarrow> normalize_relative p = Inr p"
  using normalize_value[of p] by (auto simp: is_safe_relative_path_def is_ok_def split: sum.splits)

lemma read_staged_look: "normalize_relative p = Inr p \<Longrightarrow> read_staged sg p = Inr b \<longleftrightarrow> look (sg_files sg) p = Some (Regular b)"
  by (auto simp: read_staged_def safe_join_def split: option.splits entry.splits)

lemma snapshot_key: "map_of (sn_files (inspect_tree ev r t)) p = Some f \<Longrightarrow> is_safe_relative_path p \<and> look t p \<noteq> None"
  by (auto simp: inspect_tree_def Let_def snapshot_files_def iter_files_def regular_files_def weak_map_of_SomeI
      split: entry.splits dest!: map_of_SomeD)

lemma canonical_paths_value: "canonical_paths ev xs ys k = Some p \<Longrightarrow> p \<in> set xs \<union> set ys \<and> ce_normcase ev p = k"
  unfolding canonical_paths_def by (drule map_of_SomeD) auto

lemma canonical_known:
  "canonical ev (canonical_paths ev xs ys) q = Inr p \<Longrightarrow> normalize_relative q = Inr p \<or> p \<in> set xs \<union> set ys"
  using canonical_paths_value[of ev xs ys] by (fastforce simp: canonical_def sum_case_simps split: option.splits)

lemma canonical_baseline:
  assumes "normalize_relative p = Inr p" "p \<in> set ys" "inj_on (ce_normcase ev) (set ys)"
  shows "canonical ev (canonical_paths ev xs ys) p = Inr p"
proof -
  let ?m = "map_of (rev (map (\<lambda>p. (ce_normcase ev p, p)) ys))"
  have "ce_normcase ev p \<in> fst ` set (rev (map (\<lambda>p. (ce_normcase ev p, p)) ys))" using assms(2) by force
  then obtain p' where p': "?m (ce_normcase ev p) = Some p'" by (metis map_of_eq_None_iff not_None_eq)
  then have "p' \<in> set ys \<and> ce_normcase ev p' = ce_normcase ev p" by (auto dest!: map_of_SomeD)
  then have "p' = p" using assms(2,3) by (meson inj_onD)
  then show ?thesis using assms(1) p' by (simp add: canonical_def canonical_paths_def map_add_def)
qed

lemma created_describes:
  assumes "stage_changes ev sg (inspect_tree ev r t) authorized deleted = Inr changed"
    and "plain_tree t" "plain_tree (sg_files sg)" "inj_on (ce_normcase ev) (dom (look t))"
    and "f \<in> set changed"
  shows "normalize_relative (cf_path f) = Inr (cf_path f) \<and> \<not> undo_namespace (cf_path f)
    \<and> cf_prev f = entry_hash ev (look t (cf_path f)) \<and> cf_new f = entry_hash ev (look (sg_files sg) (cf_path f))
    \<and> (cf_type f = ''deleted'' \<longleftrightarrow> look (sg_files sg) (cf_path f) = None) \<and> (cf_type f = ''created'' \<longleftrightarrow> look t (cf_path f) = None)"
  using assms(1)
proof (rule stage_changes_cases)
  let ?b = "inspect_tree ev r t" and ?p = "cf_path f"
  let ?A = "filter (\<lambda>p. p \<notin> IGNORED_STAGE) (map fst (iter_files (sg_files sg)))" and ?B = "map fst (sn_files (inspect_tree ev r t))"
  fix staged au dl changes
  assume st: "\<And>p. p \<in> set staged \<longleftrightarrow> (\<exists>q b. (q, b) \<in> set (iter_files (sg_files sg)) \<and> q \<notin> IGNORED_STAGE \<and> canonical ev (canonical_paths ev ?A ?B) q = Inr p)"
    and r: "set staged \<subseteq> set au" "set dl \<subseteq> set au" "set dl \<inter> set staged = {}"
      "all_results (staged_change ev sg ?b) (sorted_set staged) = Inr changes" "changed \<noteq> []"
      "changed = options changes @ options (map (deleted_change ev ?b) (sorted_set dl))"
  note w = changes_paths(2)[OF r(4,6,3) assms(5)]
  have dist: "distinct (map fst t)" "distinct (map fst (sg_files sg))" using assms(2,3) by (simp_all add: plain_tree_def)
  have B: "p \<in> set ?B \<Longrightarrow> is_safe_relative_path p \<and> look t p \<noteq> None" for p
    using snapshot_key[of ev r t p] by (metis in_set_conv_nth map_of_eq_None_iff not_None_eq set_map)
  have A: "p \<in> set ?A \<Longrightarrow> look (sg_files sg) p \<noteq> None" for p
    by (auto simp: iter_files_def distinct_regular[OF dist(2)])
  have plain: "look t p \<noteq> None \<or> look (sg_files sg) p \<noteq> None \<Longrightarrow> py_strip p = p \<and> \<not> undo_namespace p" for p
    using plain_look[OF assms(2)] plain_look[OF assms(3)] by blast
  have files: "sn_files ?b = snapshot_files ev t" by (simp add: inspect_tree_def Let_def)
  show ?thesis
  proof (cases "cf_type f = ''deleted''")
    case True
    have f: "cf_new f = None" "map_of (sn_files ?b) ?p \<noteq> None" "?p \<in> set dl"
      using w True by (auto simp: well_formed_change_def split: if_splits)
    have pB: "?p \<in> set ?B" using f(2) by (simp add: map_of_eq_None_iff)
    note s = conjunct1[OF B[OF pB]] and l = conjunct2[OF B[OF pB]]
    have norm: "normalize_relative ?p = Inr ?p" using s plain l by (blast intro: safe_stripped)
    have "look (sg_files sg) ?p = None"
    proof (rule ccontr)
      assume "look (sg_files sg) ?p \<noteq> None"
      then obtain b where "(?p, b) \<in> set (regular_files (sg_files sg))"
        using plain_look[OF assms(3)] distinct_regular[OF dist(2)] by blast
      then have "(?p, b) \<in> set (iter_files (sg_files sg))"
        using safe_not_below_ignored[OF s] plain l by (simp add: iter_files_def)
      moreover have "?p \<notin> IGNORED_STAGE"
      proof -
        have "\<not> is_safe_relative_path ''.promptforge-project.json''" by code_simp
        then show ?thesis using s by (auto simp: IGNORED_STAGE_def)
      qed
      moreover have "inj_on (ce_normcase ev) (set ?B)"
        by (rule inj_on_subset[OF assms(4)]) (use B in blast)
      ultimately have "?p \<in> set staged"
        using st canonical_baseline[OF norm pB] by blast
      then show False using f(3) r(3) by blast
    qed
    moreover have "cf_prev f = entry_hash ev (look t ?p)"
      using w snapshot_hash_of(1)[OF dist(1) s] plain l by (auto simp: well_formed_change_def files)
    ultimately show ?thesis using True norm plain l f(1) by (auto simp: entry_hash_def)
  next
    case False
    then have f: "is_safe_relative_path ?p" "\<exists>b. read_staged sg ?p = Inr b \<and> cf_new f = Some (ce_sha ev b)"
      "cf_prev f = map_option sf_hash (map_of (sn_files ?b) ?p)" "cf_type f = (if cf_prev f = None then ''created'' else ''modified'')"
      "?p \<in> set staged"
      using w by (auto simp: well_formed_change_def)
    obtain q where "canonical ev (canonical_paths ev ?A ?B) q = Inr ?p" using f(5) st by blast
    from canonical_known[OF this] have strip: "py_strip ?p = ?p"
      using A B plain normalize_value[of q ?p] by (metis Un_iff py_strip_idem)
    have norm: "normalize_relative ?p = Inr ?p" using f(1) strip by (rule safe_stripped)
    obtain b where b: "look (sg_files sg) ?p = Some (Regular b)" "cf_new f = Some (ce_sha ev b)"
      using f(2) read_staged_look[OF norm] by blast
    have prev: "cf_prev f = entry_hash ev (look t ?p)"
      using f(3) snapshot_hash_of(1)[OF dist(1) f(1) strip] by (simp add: files)
    have "cf_prev f = None \<longleftrightarrow> look t ?p = None"
      using prev plain_look[OF assms(2), of ?p] by (auto simp: entry_hash_def split: option.splits entry.splits)
    then show ?thesis using norm prev b plain False f(4) by (auto simp: entry_hash_def)
  qed
qed

lemma create_from_stage_result:
  assumes "create_from_stage ev now fresh provider r s baseline authorized deleted auth source risk review draft [] w = (Done c, [], w1)"
    and "\<not> ce_sync_fails ev" "cw_ws w r = Some t" "cw_stages w s = Some sg"
  obtains changed h where "stage_changes ev sg baseline authorized deleted = Inr changed" "stage_manifest_hash ev sg changed = Inr h"
    "assert_owned_stage ev s = Inr ()"
    "c = \<lparr>cs_id = fresh, cs_provider = provider, cs_workspace = r, cs_staging = s,
         cs_status = (if draft then ''draft'' else ''pending''), cs_files = changed, cs_summary = summarize changed,
         cs_revision = sn_revision baseline, cs_base_hash = sn_hash baseline, cs_manifest = h,
         cs_auth = auth, cs_auth_source = source, cs_risk = risk, cs_review = review,
         cs_created = now, cs_applied = None, cs_undone = None\<rparr>"
    "w1 = w\<lparr>cw_sets := (cw_sets w)(fresh \<mapsto> c), cw_meta := (cw_meta w)(fresh \<mapsto> c)\<rparr>"
  using assms
  by (auto simp: create_from_stage_def resolve_root_def open_stage_def bind_io_def gets_io_def lift_io_def return_io_def raise_io_def
      step_io_def seq_io_def set_memory_def persist_def atomic_write_def sync_directory_def modify_io_def Let_def
      split: sum.splits if_splits)

lemma manifest_no_dir:
  assumes "stage_manifest_hash ev sg files = Inr h" "f \<in> set files" "cf_type f = ''deleted''" "normalize_relative (cf_path f) = Inr (cf_path f)"
  shows "look (sg_files sg) (cf_path f) = None \<Longrightarrow> \<not> dir_at (sg_files sg) (cf_path f)"
proof -
  obtain l where "manifest_lines ev sg (sort_key cf_path files) = Inr l"
    using assms(1) by (auto simp: stage_manifest_hash_def bind_result_def split: sum.splits)
  moreover have "\<not> dir_at (sg_files sg) (cf_path f)"
    if "manifest_lines ev sg fs = Inr l" "f \<in> set fs" "look (sg_files sg) (cf_path f) = None" for fs l
    using that
  proof (induction fs arbitrary: l)
    case (Cons g fs)
    then show ?case
      using assms(3,4) by (auto simp: bind_result_def safe_join_def split: sum.splits option.splits entry.splits if_splits)
  qed simp
  ultimately show "look (sg_files sg) (cf_path f) = None \<Longrightarrow> ?thesis" using assms(2) by simp
qed

text \<open>C2. A change set can be applied to the workspace it was made from: made from a stage and a baseline of a plain workspace,
  with no fault and no journal left over, it is stored as pending. When no directory of the workspace stands at a
  path of the stage (an apply refuses such a set), no file of the workspace in the place of a directory of the stage
  (creating that directory would fail), and nothing fails, applying it gives every changed
  path the content of the stage, leaves every other path alone, and an undo restores the workspace.\<close>
theorem created_set_applies:
  assumes "create_from_stage ev now fresh provider r s (inspect_tree ev r t) authorized deleted auth source risk review False [] w = (Done c, [], w1)"
    and "\<not> ce_sync_fails ev" "cw_ws w r = Some t" "cw_stages w s = Some sg" "sg_undo sg = None" "cw_journal w = Map.empty"
    and "plain_tree t" "plain_tree (sg_files sg)" "inj_on (ce_normcase ev) (dom (look t))"
    and "\<And>p. look (sg_files sg) p \<noteq> None \<Longrightarrow> \<not> dir_at t p \<and> \<not> file_above t p"
  shows "cs_status c = ''pending'' \<and> cw_sets w1 fresh = Some c \<and>
    (\<exists>d w2 d' w3. apply_set ev now' fresh [] w1 = (Done d, [], w2) \<and> cs_status d = ''applied''
      \<and> look (ws_tree w2 r) = changed_content (cs_files c) sg t
      \<and> undo_set ev now'' fresh [] w2 = (Done d', [], w3) \<and> look (ws_tree w3 r) = look t)"
proof -
  let ?b = "inspect_tree ev r t"
  obtain changed h where ch: "stage_changes ev sg ?b authorized deleted = Inr changed" "stage_manifest_hash ev sg changed = Inr h"
      "assert_owned_stage ev s = Inr ()"
    and c: "c = \<lparr>cs_id = fresh, cs_provider = provider, cs_workspace = r, cs_staging = s,
         cs_status = ''pending'', cs_files = changed, cs_summary = summarize changed,
         cs_revision = sn_revision ?b, cs_base_hash = sn_hash ?b, cs_manifest = h,
         cs_auth = auth, cs_auth_source = source, cs_risk = risk, cs_review = review,
         cs_created = now, cs_applied = None, cs_undone = None\<rparr>"
    and w1: "w1 = w\<lparr>cw_sets := (cw_sets w)(fresh \<mapsto> c), cw_meta := (cw_meta w)(fresh \<mapsto> c)\<rparr>"
    by (rule create_from_stage_result[OF assms(1-4)]) auto
  define new where "new = changed_content changed sg t"
  note facts = stage_changes_facts[OF ch(1)]
  note cd = created_describes[OF ch(1) assms(7-9)]
  have plain: "plain_entry (look t p) \<and> plain_entry (look (sg_files sg) p)" for p
    using plain_look[OF assms(7)] plain_look[OF assms(8)] unfolding plain_entry_def by (metis not_None_eq)
  have new: "f \<in> set changed \<Longrightarrow> new (cf_path f) = look (sg_files sg) (cf_path f)" for f
    by (simp add: new_def changed_content_def)
  have prev_new: "f \<in> set changed \<Longrightarrow> cf_prev f \<noteq> cf_new f" for f
    using facts unfolding well_formed_change_def by blast
  have d: "describes ev c (look t) new"
    unfolding describes_def
  proof (intro conjI ballI allI impI)
    show "assert_owned_stage ev (cs_staging c) = Inr ()" "distinct (map cf_path (cs_files c))"
      using ch(3) facts by (simp_all add: c)
    show "look t p = new p" if "p \<notin> cf_path ` set (cs_files c)" for p
      using that by (simp add: c new_def changed_content_def)
    fix f assume "f \<in> set (cs_files c)"
    then have f: "f \<in> set changed" by (simp add: c)
    show "normalize_relative (cf_path f) = Inr (cf_path f)" "plain_entry (look t (cf_path f))" "plain_entry (new (cf_path f))"
      "cf_prev f = entry_hash ev (look t (cf_path f))" "cf_new f = entry_hash ev (new (cf_path f))" "cf_prev f \<noteq> cf_new f"
      "cf_type f = ''deleted'' \<longleftrightarrow> new (cf_path f) = None" "cf_type f = ''created'' \<longleftrightarrow> look t (cf_path f) = None"
      using cd[OF f] plain prev_new[OF f] unfolding new[OF f] by simp_all
  qed
  have root: "ws_tree w1 r = t" using assms(3) by (simp add: ws_tree_def w1)
  have wait: "waiting c (look t) new c w1"
    using assms(3,4,6) root new by (auto simp: waiting_def held_def same_set_def stage_ok_def c w1)
  have dirs: "\<not> dir_at (sg_files sg) (cf_path f) \<and> \<not> dir_at t (cf_path f) \<and> \<not> file_above t (cf_path f)" if "f \<in> set changed" for f
  proof (cases "cf_type f = ''deleted''")
    case True
    have "look t (cf_path f) \<noteq> None" using cd[OF that] True by auto
    then show ?thesis
      using manifest_no_dir[OF ch(2) that True] cd[OF that] True plain_no_dir[OF assms(7)] plain_no_file[OF assms(7)] by simp
  next
    case False
    then have "look (sg_files sg) (cf_path f) \<noteq> None" using cd[OF that] by simp
    then show ?thesis using assms(10) plain_no_dir[OF assms(8)] by blast
  qed
  have ready: "ready ev c new w1"
    using assms(4,5) ch(2) cd new root dirs by (auto simp: ready_def c w1)
  obtain d w2 d' w3 where r: "apply_set ev now' (cs_id c) [] w1 = (Done d, [], w2)" "content c w2 = new" "cs_status d = ''applied''"
    "undo_set ev now'' (cs_id c) [] w2 = (Done d', [], w3)" "content c w3 = content c w1"
    using apply_undo_run[OF assms(2) d wait ready] by metis
  then show ?thesis using root by (simp add: c new_def w1)
qed

definition demo_fresh :: change_world where
  "demo_fresh = demo_world\<lparr>cw_sets := Map.empty, cw_meta := Map.empty\<rparr>"

abbreviation demo_create :: "change_set change_io" where
  "demo_create \<equiv> create_from_stage demo_env 1 ''c2'' ''p'' ''/w'' ''/s/c1'' (inspect_tree demo_env ''/w'' demo_tree) [''a''] [] None [] [] True False"

lemma created_set_applies_witness:
  "\<exists>c w1 d w2 d' w3. demo_create [] demo_fresh = (Done c, [], w1) \<and> apply_set demo_env 2 ''c2'' [] w1 = (Done d, [], w2)
     \<and> look (ws_tree w2 ''/w'') = changed_content (cs_files c) demo_stage demo_tree
     \<and> undo_set demo_env 3 ''c2'' [] w2 = (Done d', [], w3) \<and> look (ws_tree w3 ''/w'') = look demo_tree"
proof -
  have "case demo_create [] demo_fresh of (Done c, [], w1) \<Rightarrow> True | _ \<Rightarrow> False" by code_simp
  then obtain c w1 where r: "demo_create [] demo_fresh = (Done c, [], w1)"
    by (auto split: prod.splits outcome.splits list.splits)
  have plain: "plain_tree demo_tree" "plain_tree (sg_files demo_stage)" by code_simp+
  have dirs: "\<not> dir_at demo_tree p \<and> \<not> file_above demo_tree p" if "look (sg_files demo_stage) p \<noteq> None" for p
  proof -
    have "p = ''a''" using that by (simp add: demo_stage_def split: if_splits)
    then show ?thesis by (simp add: demo_tree_def dir_at_def file_above_def below_def starts_with_def)
  qed
  show ?thesis
    using created_set_applies[OF r _ _ _ _ _ plain, of 2 3] dirs r
    by (auto simp: demo_fresh_def demo_world_def demo_env_def demo_stage_def)
qed

section \<open>Review drafts\<close>

text \<open>The changed files of a failed run, in the order of the directory walk, with the number and the size of those before.\<close>

fun draft_paths :: "change_env \<Rightarrow> workspace_snapshot \<Rightarrow> (string \<times> string) list \<Rightarrow> nat \<Rightarrow> nat \<Rightarrow> change_error + string list" where
  "draft_paths ev baseline [] n tot = Inr []"
| "draft_paths ev baseline ((p, b) # files) n tot =
     (if p \<in> IGNORED_STAGE then draft_paths ev baseline files n tot
      else if (case map_of (sn_files baseline) p of Some f \<Rightarrow> sf_hash f = ce_sha ev b | None \<Rightarrow> False)
      then draft_paths ev baseline files n tot
      else if \<not> is_safe_relative_path p then Inl (Change_error ''CHANGE_PATH_FORBIDDEN'')
      else if 100 < n + 1 \<or> 20000000 < tot + length b then Inl (Change_error ''CHANGE_DRAFT_LIMIT'')
      else bind_result (draft_paths ev baseline files (n + 1) (tot + length b)) (\<lambda>ps. Inr (p # ps)))"

definition draft_deleted :: "stage \<Rightarrow> workspace_snapshot \<Rightarrow> string list" where
  "draft_deleted sg baseline = filter (\<lambda>p. p \<notin> fst ` set (iter_files (sg_files sg))) (map fst (sn_files baseline))"

definition copy_staged :: "string \<Rightarrow> string \<Rightarrow> string \<Rightarrow> unit change_io" where
  "copy_staged s target p = os_step (bind_io (gets_io (\<lambda>w. case cw_stages w s of Some sg \<Rightarrow> look (sg_files sg) p | None \<Rightarrow> None))
     (\<lambda>e. case e of Some (Regular b) \<Rightarrow> modify_io (upd_stage target (\<lambda>sg. sg\<lparr>sg_files := put p (Regular b) (sg_files sg)\<rparr>))
        | _ \<Rightarrow> raise_io Os_error))"

definition create_review_draft :: "change_env \<Rightarrow> rat \<Rightarrow> string \<Rightarrow> string \<Rightarrow> string \<Rightarrow> string \<Rightarrow> string \<Rightarrow> workspace_snapshot \<Rightarrow> change_set change_io" where
  "create_review_draft ev now fresh stage_id provider workspace s baseline =
     bind_io (open_stage ev s) (\<lambda>sg.
     bind_io (os_step (lift_io (draft_paths ev baseline (iter_files (sg_files sg)) 0 0))) (\<lambda>paths.
     let deleted = draft_deleted sg baseline in
     if 100 < length paths + length deleted \<or> \<not> list_all is_safe_relative_path deleted
     then raise_change ''CHANGE_DRAFT_LIMIT''
     else bind_io (create_stage ev stage_id) (\<lambda>compact.
       catch_io (seq_io (each_io (copy_staged s compact) paths)
           (create_from_stage ev now fresh provider workspace compact baseline (paths @ deleted) deleted
              None ''recovery_draft'' ''unassessed'' True True))
         (\<lambda>e. seq_io (remove_stage_quiet compact) (raise_io e)))))"

definition materialize_file :: "string \<Rightarrow> string \<Rightarrow> changed_file \<Rightarrow> unit change_io" where
  "materialize_file s target f = bind_io (lift_io (normalize_relative (cf_path f))) (\<lambda>p.
     if cf_type f = ''deleted''
     then os_step (modify_io (upd_stage target (\<lambda>sg. sg\<lparr>sg_files := drop_path p (sg_files sg)\<rparr>)))
     else copy_staged s target p)"

definition materialize_review_draft :: "change_env \<Rightarrow> string \<Rightarrow> string \<Rightarrow> string \<Rightarrow> unit change_io" where
  "materialize_review_draft ev i workspace target = bind_io (get_set i) (\<lambda>draft.
     if cs_status draft \<noteq> ''draft'' \<or> cs_workspace draft \<noteq> workspace then raise_change ''CHANGE_DRAFT_NOT_READY''
     else bind_io (inspect_workspace ev workspace) (\<lambda>snap.
       if sn_hash snap \<noteq> cs_base_hash draft then raise_change ''CHANGE_CONFLICT''
       else bind_io (open_stage ev (cs_staging draft)) (\<lambda>sg.
         bind_io (os_step (lift_io (stage_manifest_hash ev sg (cs_files draft)))) (\<lambda>h.
         if h \<noteq> cs_manifest draft then raise_change ''CHANGE_STAGE_TAMPERED''
         else bind_io (open_stage ev target) (\<lambda>_.
           each_io (materialize_file (cs_staging draft) target) (cs_files draft))))))"

text \<open>A draft names at most a hundred files, of at most twenty million bytes, all safe and different from the baseline.\<close>

lemma draft_paths_bounded:
  "draft_paths ev baseline files n tot = Inr ps \<Longrightarrow> n \<le> 100 \<Longrightarrow> n + length ps \<le> 100 \<and> set ps \<subseteq> fst ` set files \<and> list_all is_safe_relative_path ps"
  by (induction ev baseline files n tot arbitrary: ps rule: draft_paths.induct) (fastforce simp: sum_case_simps split: if_splits)+

lemma draft_paths_size:
  assumes "draft_paths ev baseline files n tot = Inr ps" "distinct (map fst files)" "tot \<le> 20000000"
  shows "tot + sum_list (map (\<lambda>(p, b). if p \<in> set ps then length b else 0) files) \<le> 20000000"
  using assms
proof (induction ev baseline files n tot arbitrary: ps rule: draft_paths.induct)
  case (2 ev baseline p b files n tot)
  have skip: "p \<notin> set qs" if "draft_paths ev baseline files m k = Inr qs" for m k qs
  proof -
    have "set qs \<subseteq> fst ` set files"
      using that by (induction ev baseline files m k arbitrary: qs rule: draft_paths.induct) (fastforce simp: sum_case_simps split: if_splits)+
    then show ?thesis using 2(5) by auto
  qed
  have same: "(\<Sum>(q, c)\<leftarrow>files. if q = p \<or> q \<in> set qs then length c else 0) = (\<Sum>(q, c)\<leftarrow>files. if q \<in> set qs then length c else 0)" for qs
    by (rule arg_cong[where f = sum_list]) (use 2(5) in \<open>auto simp: rev_image_eqI\<close>)
  show ?case
    using 2 skip same by (auto simp: sum_case_simps split: if_splits)
qed simp

lemma stage_changes_well_formed_witness:
  "\<exists>changed. stage_changes demo_env demo_stage (inspect_tree demo_env ''/w'' demo_tree) [''a''] [] = Inr changed
     \<and> changed \<noteq> [] \<and> distinct (map cf_path changed)"
proof -
  have "is_ok (stage_changes demo_env demo_stage (inspect_tree demo_env ''/w'' demo_tree) [''a''] [])" by code_simp
  then obtain changed where "stage_changes demo_env demo_stage (inspect_tree demo_env ''/w'' demo_tree) [''a''] [] = Inr changed"
    by (auto simp: is_ok_def split: sum.splits)
  from this stage_changes_well_formed[OF this] show ?thesis by blast
qed

end
