(* ===== verification/Change_Risk.thy ===== *)
theory Change_Risk
  imports Change_Drafts
begin

text \<open>
  The risk gate of automatic edits, \<^verbatim>\<open>backend/agent_runtime/risk.py\<close> with the decision that
  \<^verbatim>\<open>backend/agent_runtime/orchestrator.py\<close> takes on it: a change set is scored on its final diff, a reviewer is asked
  from a score of three on, and the change set is applied without the user only below six, when the user asked for the
  edit and the autonomy setting allows it. The theory ends with what this means for a change set that
  \<open>Change_Sets.stage_changes\<close> made from a stage.
\<close>

section \<open>Assessment\<close>

record risk_assessment =
  ra_level :: string
  ra_score :: int
  ra_reasons :: "string list"
  ra_reviewer :: bool
  ra_approval :: bool
  ra_auto :: bool

definition HIGH_RISK_NAMES :: "string set" where
  "HIGH_RISK_NAMES = {''platformio.ini'', ''partitions.csv'', ''sdkconfig'', ''cmakelists.txt'', ''library.json'',
     ''library.properties''}"

definition SECURITY_MARKERS :: "string list" where
  "SECURITY_MARKERS = [''credential'', ''secret'', ''password'', ''token'', ''certificate'', ''private_key'', ''secure_boot'']"

definition HARDWARE_MARKERS :: "string list" where
  "HARDWARE_MARKERS = [''gpio'', ''pin'', ''partition'', ''bootloader'', ''fuse'', ''upload_port'', ''board_build'']"

text \<open>\<^verbatim>\<open>PurePosixPath(path).name\<close>: empty parts and single dots are dropped.\<close>

definition posix_name :: "string \<Rightarrow> string" where
  "posix_name path = (let ps = filter (\<lambda>p. p \<noteq> [] \<and> p \<noteq> ''.'') (split_on slash_char path)
                      in if ps = [] then [] else last ps)"

definition preview_text :: "changed_file \<Rightarrow> string" where
  "preview_text f = (case cf_diff f of None \<Rightarrow> [] | Some d \<Rightarrow> d)"

definition combined_preview :: "changed_file list \<Rightarrow> string" where
  "combined_preview files = join_on (char_of (10 :: nat)) (map (\<lambda>f. py_lower (preview_text f)) files)"

definition marked :: "string list \<Rightarrow> string \<Rightarrow> bool" where
  "marked markers text = (\<exists>m \<in> set markers. contains_sub text m)"

definition incomplete_preview :: "changed_file \<Rightarrow> bool" where
  "incomplete_preview f = (\<not> cf_preview f \<or> cf_diff f = None \<or> py_true_opt (cf_warning f))"

text \<open>The tests of \<^verbatim>\<open>assess\<close> in their order: what is tested, the points, and the reason.\<close>

definition risk_factors :: "changed_file list \<Rightarrow> rat \<Rightarrow> bool \<Rightarrow> int \<Rightarrow> (bool \<times> int \<times> string) list" where
  "risk_factors files confidence failed repair =
     [(\<exists>f \<in> set files. incomplete_preview f, 6, ''incomplete_change_analysis''),
      (5 < length files, 2, ''broad_file_change''),
      (\<exists>f \<in> set files. cf_type f = ''deleted'', 6, ''file_deletion''),
      (\<exists>f \<in> set files. py_lower (posix_name (cf_path f)) \<in> HIGH_RISK_NAMES, 3, ''build_or_board_configuration''),
      (marked SECURITY_MARKERS (combined_preview files), 4, ''security_sensitive_change''),
      (marked HARDWARE_MARKERS (combined_preview files), 3, ''hardware_configuration_change''),
      (8000 < sum_list (map (\<lambda>f. length (preview_text f)) files), 2, ''large_diff''),
      (confidence < 7 / 10, 2, ''low_planner_confidence''),
      (failed, 4, ''validation_failed''),
      (repair \<noteq> 0, min 3 repair, ''repair_after_failure'')]"

fun risk_points :: "(bool \<times> int \<times> string) list \<Rightarrow> int" where
  "risk_points [] = 0"
| "risk_points ((found, points, reason) # fs) = (if found then points else 0) + risk_points fs"

fun risk_reasons :: "(bool \<times> int \<times> string) list \<Rightarrow> string list" where
  "risk_reasons [] = []"
| "risk_reasons ((found, points, reason) # fs) = (if found then [reason] else []) @ risk_reasons fs"

definition assess :: "change_set \<Rightarrow> bool \<Rightarrow> rat \<Rightarrow> bool \<Rightarrow> int \<Rightarrow> bool \<Rightarrow> risk_assessment" where
  "assess c explicit confidence failed repair user_requested =
     (let factors = risk_factors (cs_files c) confidence failed repair;
          score = (if user_requested then max (risk_points factors) 3 else risk_points factors);
          reasons = risk_reasons factors @ (if user_requested then [''user_requested_review''] else []);
          level = (if 6 \<le> score then ''high'' else if 3 \<le> score then ''medium'' else ''low'') in
      \<lparr>ra_level = level, ra_score = score,
       ra_reasons = (if reasons = [] then [''localized_validated_edit''] else reasons),
       ra_reviewer = (level = ''medium'' \<or> level = ''high''),
       ra_approval = (level = ''high'' \<or> \<not> explicit),
       ra_auto = (explicit \<and> level = ''low'' \<and> \<not> failed)\<rparr>)"

definition strip_slashes :: "string \<Rightarrow> string" where
  "strip_slashes s = rev (dropWhile (\<lambda>c. c = slash_char) (rev (dropWhile (\<lambda>c. c = slash_char) s)))"

definition paths_in_scope :: "change_set \<Rightarrow> string list \<Rightarrow> bool" where
  "paths_in_scope c allowed =
     (let prefixes = map strip_slashes (filter (\<lambda>p. strip_slashes p \<noteq> []) allowed) in
      prefixes = [] \<or>
      (\<forall>f \<in> set (cs_files c). \<exists>p \<in> set prefixes. cf_path f = p \<or> starts_with (cf_path f) (p @ [slash_char])))"

section \<open>The decision on a change set\<close>

text \<open>
  The verdict of \<^verbatim>\<open>_review\<close>: there may be no reviewer, and its answer may name no verdict. The call under its grant is
  an argument.
\<close>

definition review_verdict :: "string option option \<Rightarrow> string" where
  "review_verdict reviewer =
     (case reviewer of
        None \<Rightarrow> ''request_changes''
      | Some answer \<Rightarrow>
          (let verdict = py_lower (case answer of None \<Rightarrow> ''block'' | Some v \<Rightarrow> if v = [] then ''block'' else v) in
           if verdict \<in> {''approve'', ''request_changes'', ''block''} then verdict else ''block''))"

datatype gate_outcome = Review_blocked | Review_needed | Apply_now | Await_user

text \<open>The part of \<^verbatim>\<open>_execute_action\<close> after the change set is staged; \<^verbatim>\<open>_execute_autonomous\<close> decides in the same way.\<close>

definition change_gate :: "change_set \<Rightarrow> bool \<Rightarrow> string option option \<Rightarrow> string \<Rightarrow> gate_outcome" where
  "change_gate c explicit reviewer autonomy =
     (let a = assess c explicit 1 False 0 False; verdict = review_verdict reviewer in
      if ra_reviewer a \<and> verdict \<noteq> ''approve''
      then (if verdict = ''block'' then Review_blocked else Review_needed)
      else (let approved = ra_reviewer a;
                scoped = (ra_auto a \<or> (explicit \<and> ra_level a = ''medium'' \<and> approved)) in
            if scoped \<and> autonomy \<noteq> ''review_changes'' then Apply_now else Await_user))"

section \<open>What a score excludes\<close>

lemma starts_with_append: "starts_with s p \<Longrightarrow> starts_with (s @ t) p"
proof -
  assume "starts_with s p"
  then have "s = p @ drop (length p) s" by (metis append_take_drop_id starts_with_def)
  then show ?thesis by (metis append.assoc append_eq_conv_conj starts_with_def)
qed

lemma contains_sub_append1: "contains_sub s p \<Longrightarrow> contains_sub (s @ t) p"
proof (induction s)
  case Nil
  then show ?case by (cases t) (simp_all add: starts_with_def)
next
  case (Cons c s)
  then show ?case using starts_with_append [of "c # s" p t] by auto
qed

lemma contains_sub_append2: "contains_sub t p \<Longrightarrow> contains_sub (s @ t) p"
  by (induction s) simp_all

lemma contains_sub_join: "s \<in> set ss \<Longrightarrow> contains_sub s p \<Longrightarrow> contains_sub (join_on d ss) p"
proof (induction d ss rule: join_on.induct)
  case (3 d p1 p2 ps)
  then show ?case
    using contains_sub_append1 [of s p "d # join_on d (p2 # ps)"]
      contains_sub_append2 [of "join_on d (p2 # ps)" p "p1 @ [d]"] by auto
qed simp_all

lemma marked_file:
  assumes "f \<in> set files" "marked markers (py_lower (preview_text f))"
  shows "marked markers (combined_preview files)"
proof -
  have "py_lower (preview_text f) \<in> set (map (\<lambda>f. py_lower (preview_text f)) files)" using assms(1) by auto
  then show ?thesis using assms(2) contains_sub_join unfolding marked_def combined_preview_def by blast
qed

lemma risk_points_nonneg:
  "\<forall>(found, points, reason) \<in> set fs. 0 \<le> points \<Longrightarrow> 0 \<le> risk_points fs"
  by (induction fs rule: risk_points.induct) auto

lemma risk_points_one:
  "\<forall>(found, points, reason) \<in> set fs. 0 \<le> points \<Longrightarrow> (True, p, r) \<in> set fs \<Longrightarrow> p \<le> risk_points fs"
proof (induction fs rule: risk_points.induct)
  case (2 found points reason fs)
  then show ?case using risk_points_nonneg [of fs] by (cases "(True, p, r) \<in> set fs") auto
qed simp

lemma risk_points_two:
  "\<forall>(found, points, reason) \<in> set fs. 0 \<le> points \<Longrightarrow> (True, p, r) \<in> set fs \<Longrightarrow> (True, q, s) \<in> set fs \<Longrightarrow>
     r \<noteq> s \<Longrightarrow> p + q \<le> risk_points fs"
proof (induction fs rule: risk_points.induct)
  case (2 found points reason fs)
  then show ?case using risk_points_one [of fs] by fastforce
qed simp

lemma factors_nonneg: "\<forall>(found, points, reason) \<in> set (risk_factors files confidence failed 0). 0 \<le> points"
  by (simp add: risk_factors_def)

lemmas one_factor = risk_points_one [OF factors_nonneg]
lemmas two_factors = risk_points_two [OF factors_nonneg]

text \<open>The factors that a test contributes when it succeeds.\<close>

lemma factor_found:
  "f \<in> set files \<Longrightarrow> incomplete_preview f \<Longrightarrow>
     (True, 6, ''incomplete_change_analysis'') \<in> set (risk_factors files confidence failed 0)"
  "f \<in> set files \<Longrightarrow> cf_type f = ''deleted'' \<Longrightarrow> (True, 6, ''file_deletion'') \<in> set (risk_factors files confidence failed 0)"
  "f \<in> set files \<Longrightarrow> py_lower (posix_name (cf_path f)) \<in> HIGH_RISK_NAMES \<Longrightarrow>
     (True, 3, ''build_or_board_configuration'') \<in> set (risk_factors files confidence failed 0)"
  "marked SECURITY_MARKERS (combined_preview files) \<Longrightarrow>
     (True, 4, ''security_sensitive_change'') \<in> set (risk_factors files confidence failed 0)"
  "marked HARDWARE_MARKERS (combined_preview files) \<Longrightarrow>
     (True, 3, ''hardware_configuration_change'') \<in> set (risk_factors files confidence failed 0)"
  "5 < length files \<Longrightarrow> (True, 2, ''broad_file_change'') \<in> set (risk_factors files confidence failed 0)"
  "8000 < sum_list (map (\<lambda>f. length (preview_text f)) files) \<Longrightarrow>
     (True, 2, ''large_diff'') \<in> set (risk_factors files confidence failed 0)"
  by (auto simp: risk_factors_def)

text \<open>What the three levels of an assessment without a repair say about the files.\<close>

lemma below_high:
  assumes "risk_points (risk_factors files confidence failed 0) < 6"
  shows "\<forall>f \<in> set files. \<not> incomplete_preview f \<and> cf_type f \<noteq> ''deleted''"
    "\<not> ((\<exists>f \<in> set files. py_lower (posix_name (cf_path f)) \<in> HIGH_RISK_NAMES) \<and>
        marked HARDWARE_MARKERS (combined_preview files))"
    "\<not> ((\<exists>f \<in> set files. py_lower (posix_name (cf_path f)) \<in> HIGH_RISK_NAMES) \<and>
        marked SECURITY_MARKERS (combined_preview files))"
proof -
  note found = factor_found [where files = files and confidence = confidence and failed = failed]
  show "\<forall>f \<in> set files. \<not> incomplete_preview f \<and> cf_type f \<noteq> ''deleted''"
    using assms one_factor [OF found(1)] one_factor [OF found(2)] by (meson linorder_not_less)
  show "\<not> ((\<exists>f \<in> set files. py_lower (posix_name (cf_path f)) \<in> HIGH_RISK_NAMES) \<and>
        marked HARDWARE_MARKERS (combined_preview files))"
  proof (intro notI, elim conjE bexE)
    fix f assume "f \<in> set files" "py_lower (posix_name (cf_path f)) \<in> HIGH_RISK_NAMES"
      "marked HARDWARE_MARKERS (combined_preview files)"
    from two_factors [OF found(3) [OF this(1,2)] factor_found(5) [OF this(3)]] assms show False by simp
  qed
  show "\<not> ((\<exists>f \<in> set files. py_lower (posix_name (cf_path f)) \<in> HIGH_RISK_NAMES) \<and>
        marked SECURITY_MARKERS (combined_preview files))"
  proof (intro notI, elim conjE bexE)
    fix f assume "f \<in> set files" "py_lower (posix_name (cf_path f)) \<in> HIGH_RISK_NAMES"
      "marked SECURITY_MARKERS (combined_preview files)"
    from two_factors [OF found(3) [OF this(1,2)] factor_found(4) [OF this(3)]] assms show False by simp
  qed
qed

lemma below_medium:
  assumes "risk_points (risk_factors files confidence failed 0) < 3"
  shows "\<forall>f \<in> set files. py_lower (posix_name (cf_path f)) \<notin> HIGH_RISK_NAMES"
    "\<not> marked SECURITY_MARKERS (combined_preview files)" "\<not> marked HARDWARE_MARKERS (combined_preview files)"
    "\<not> (5 < length files \<and> 8000 < sum_list (map (\<lambda>f. length (preview_text f)) files))"
proof -
  show "\<forall>f \<in> set files. py_lower (posix_name (cf_path f)) \<notin> HIGH_RISK_NAMES"
    using assms one_factor [OF factor_found(3) [where files = files and confidence = confidence and failed = failed]] by (meson linorder_not_less)
  show "\<not> marked SECURITY_MARKERS (combined_preview files)"
    using assms one_factor [OF factor_found(4) [where files = files and confidence = confidence and failed = failed]] by linarith
  show "\<not> marked HARDWARE_MARKERS (combined_preview files)"
    using assms one_factor [OF factor_found(5) [where files = files and confidence = confidence and failed = failed]] by linarith
  show "\<not> (5 < length files \<and> 8000 < sum_list (map (\<lambda>f. length (preview_text f)) files))"
    using assms two_factors [OF factor_found(6) [where files = files and confidence = confidence and failed = failed]
        factor_found(7)] by auto
qed

lemma gate_applies:
  assumes "change_gate c explicit reviewer autonomy = Apply_now"
  shows "explicit" "autonomy \<noteq> ''review_changes''" "risk_points (risk_factors (cs_files c) 1 False 0) < 6"
    "review_verdict reviewer = ''approve'' \<or> risk_points (risk_factors (cs_files c) 1 False 0) < 3"
  using assms by (auto simp: change_gate_def assess_def Let_def split: if_splits)

text \<open>A file of a stage whose preview is complete: it is shown in full, from the text of the baseline to the staged text.\<close>

definition shown_in_full :: "change_env \<Rightarrow> stage \<Rightarrow> workspace_snapshot \<Rightarrow> changed_file \<Rightarrow> bool" where
  "shown_in_full ev sg baseline f \<longleftrightarrow>
     (\<exists>before data after. read_staged sg (cf_path f) = Inr data \<and>
        (case map_of (sn_files baseline) (cf_path f) of Some old \<Rightarrow> sf_content old | None \<Rightarrow> Some []) = Some before \<and>
        read_text_preview ev (cf_path f) data MAX_CONTEXT_FILE_BYTES = Some after \<and>
        cf_diff f = Some (ce_diff ev (cf_path f) before after) \<and>
        length (ce_diff ev (cf_path f) before after) \<le> MAX_DIFF_CHARS)"

lemma staged_shown:
  assumes "staged_change ev sg baseline p = Inr (Some f)" "\<not> incomplete_preview f"
  shows "shown_in_full ev sg baseline f" "cf_type f \<in> {''created'', ''modified''}"
proof -
  let ?before = "case map_of (sn_files baseline) p of Some old \<Rightarrow> sf_content old | None \<Rightarrow> Some []"
  obtain data where read: "read_staged sg p = Inr data"
    using assms(1) by (auto simp: staged_change_def sum_case_simps split: if_splits)
  obtain x y z where diff: "diff_preview ev p ?before data = (x, y, z)" by (rule prod_cases3)
  have data: "read_staged sg p = Inr data" "cf_path f = p"
      "(cf_diff f, cf_preview f, cf_warning f) = diff_preview ev p ?before data"
    using assms(1) read diff by (auto simp: staged_change_def Let_def split: if_splits)
  have "cf_preview f" "\<not> py_true_opt (cf_warning f)" using assms(2) by (auto simp: incomplete_preview_def)
  with data(3) have "\<exists>before after. ?before = Some before \<and>
      read_text_preview ev p data MAX_CONTEXT_FILE_BYTES = Some after \<and> cf_diff f = Some (ce_diff ev p before after) \<and>
      length (ce_diff ev p before after) \<le> MAX_DIFF_CHARS"
    by (auto simp: diff_preview_def Let_def py_true_opt_def split: option.splits if_splits)
  then show "shown_in_full ev sg baseline f" using data(1,2) by (auto simp: shown_in_full_def)
  show "cf_type f \<in> {''created'', ''modified''}"
    using assms(1) read diff by (auto simp: staged_change_def Let_def split: if_splits)
qed

section \<open>Properties\<close>

text \<open>C18. A change set that was made from a stage is applied without the user only if the user asked for the edit and the
  autonomy setting allows it, no file is deleted, and every file is shown in full in the diff that was scored; a build
  or board file is then not touched together with security or hardware terms; and without the approval of a reviewer
  no build or board file and no such term is touched at all, nor do many files change at length.\<close>

theorem automatic_apply_gated:
  assumes "stage_changes ev sg baseline authorized deleted = Inr (cs_files c)"
    and "change_gate c explicit reviewer autonomy = Apply_now"
  shows "explicit \<and> autonomy \<noteq> ''review_changes'' \<and>
    (\<forall>f \<in> set (cs_files c). cf_type f \<in> {''created'', ''modified''} \<and> shown_in_full ev sg baseline f \<and>
       (py_lower (posix_name (cf_path f)) \<in> HIGH_RISK_NAMES \<longrightarrow> review_verdict reviewer = ''approve'' \<and>
          (\<forall>g \<in> set (cs_files c). \<not> marked (SECURITY_MARKERS @ HARDWARE_MARKERS) (py_lower (preview_text g)))) \<and>
       (marked (SECURITY_MARKERS @ HARDWARE_MARKERS) (py_lower (preview_text f)) \<longrightarrow> review_verdict reviewer = ''approve'')) \<and>
    (5 < length (cs_files c) \<and> 8000 < sum_list (map (\<lambda>f. length (preview_text f)) (cs_files c)) \<longrightarrow>
       review_verdict reviewer = ''approve'')"
proof -
  note gate = gate_applies [OF assms(2)] and low = below_medium [where confidence = "1" and failed = False]
  note high = below_high [OF gate(3)]
  have both: "marked (SECURITY_MARKERS @ HARDWARE_MARKERS) s \<longleftrightarrow>
      marked SECURITY_MARKERS s \<or> marked HARDWARE_MARKERS s" for s
    by (auto simp: marked_def)
  have each: "cf_type f \<in> {''created'', ''modified''} \<and> shown_in_full ev sg baseline f" if f: "f \<in> set (cs_files c)" for f
    using assms(1)
  proof (rule stage_changes_cases)
    fix staged dl changes
    assume r: "all_results (staged_change ev sg baseline) (sorted_set staged) = Inr changes"
      and c: "cs_files c = options changes @ options (map (deleted_change ev baseline) (sorted_set dl))"
    have full: "\<not> incomplete_preview f" "cf_type f \<noteq> ''deleted''" using high(1) f by auto
    with c f have "Some f \<in> set changes" by (auto simp: deleted_change_def split: option.splits)
    then obtain p where p: "staged_change ev sg baseline p = Inr (Some f)" using all_results_set [OF r] by blast
    then show ?thesis using staged_shown [OF p full(1)] by blast
  qed
  show ?thesis
    using gate low [of "cs_files c"] high(2,3) each marked_file both by blast
qed

theorem automatic_apply_gated_witness:
  "\<exists>c. change_gate c True None ''auto'' = Apply_now \<and>
     (\<forall>f \<in> set (cs_files c). cf_type f \<in> {''created'', ''modified''} \<and>
        py_lower (posix_name (cf_path f)) \<notin> HIGH_RISK_NAMES)"
proof -
  let ?staged = "stage_changes demo_env demo_stage (inspect_tree demo_env ''/w'' demo_tree) [''a''] []"
  have "case ?staged of Inl e \<Rightarrow> False
        | Inr changed \<Rightarrow> change_gate (demo_set\<lparr>cs_files := changed\<rparr>) True None ''auto'' = Apply_now"
    by code_simp
  then obtain changed where s: "?staged = Inr changed"
      "change_gate (demo_set\<lparr>cs_files := changed\<rparr>) True None ''auto'' = Apply_now"
    by (auto split: sum.splits)
  have "?staged = Inr (cs_files (demo_set\<lparr>cs_files := changed\<rparr>))" using s(1) by simp
  from automatic_apply_gated [OF this s(2)] s(2) show ?thesis by (fastforce simp: review_verdict_def)
qed

end
