(* ===== verification/Progress_Evidence.thy ===== *)
theory Progress_Evidence
  imports Prelude "HOL-Library.Char_ord" "HOL-Library.List_Lexorder" "HOL-Library.AList"
begin

text \<open>
  What counts as progress of an agent run: the stable form of tool outputs and build diagnostics
  (\<^verbatim>\<open>backend/agent_runtime/diagnostic_progress.py\<close>), the fingerprints of useful work
  (\<^verbatim>\<open>backend/agent_runtime/progress_state.py\<close>), and the recovery of rejected requirement evidence
  (\<^verbatim>\<open>RejectedEvidenceTracker\<close> of \<^verbatim>\<open>backend/agent_runtime/requirement_evidence.py\<close>).

  Texts are ASCII. Outputs are values of the host's tools, whose mappings have string keys; the JSON encoder and SHA-256
  are the codec of the prelude.
\<close>

section \<open>Stable values\<close>

definition VOLATILE_KEYS :: "string set" where
  "VOLATILE_KEYS = {''build_id'', ''request_id'', ''call_id'', ''timestamp'', ''created_at'', ''updated_at'', ''duration_ms'',
     ''elapsed_seconds'', ''cached'', ''build_log_artifact_id'', ''firmware_artifact_id''}"

fun stable_value :: "pyval \<Rightarrow> pyval" where
  "stable_value (VDict kvs) = VDict (map (\<lambda>(k, v). (k, stable_value v)) (filter (\<lambda>(k, v). k \<notin> VOLATILE_KEYS) kvs))"
| "stable_value (VList vs) = VList (map stable_value vs)"
| "stable_value v = v"

section \<open>Fingerprints of build diagnostics\<close>

text \<open>The members of a value of a mapping, as the \<^verbatim>\<open>.get\<close> of Python reads them.\<close>

definition dict_item :: "pyval \<Rightarrow> string \<Rightarrow> pyval" where
  "dict_item v k = (case v of VDict kvs \<Rightarrow> py_get (dict_of kvs) k | _ \<Rightarrow> VNone)"

definition is_dict :: "pyval \<Rightarrow> bool" where
  "is_dict v = (case v of VDict _ \<Rightarrow> True | _ \<Rightarrow> False)"

definition has_item :: "pyval \<Rightarrow> string \<Rightarrow> bool" where
  "has_item v k = (case v of VDict kvs \<Rightarrow> dict_of kvs k \<noteq> None | _ \<Rightarrow> False)"

definition py_or :: "pyval \<Rightarrow> pyval \<Rightarrow> pyval" where
  "py_or v w = (if py_true v then v else w)"

text \<open>What the star of a list display takes from a value: the items of a list, the characters of a text, the keys of a
  mapping.\<close>

definition py_items :: "pyval \<Rightarrow> pyval list" where
  "py_items v = (case v of VList vs \<Rightarrow> vs | VStr s \<Rightarrow> map (\<lambda>c. VStr [c]) s | VDict kvs \<Rightarrow> map (VStr \<circ> fst) kvs | _ \<Rightarrow> [])"

definition is_hex_char :: "char \<Rightarrow> bool" where
  "is_hex_char c = (let n = of_char c :: nat in (48 \<le> n \<and> n \<le> 57) \<or> (97 \<le> n \<and> n \<le> 102))"

definition is_digit_char :: "char \<Rightarrow> bool" where
  "is_digit_char c = (let n = of_char c :: nat in 48 \<le> n \<and> n \<le> 57)"

definition is_word_char :: "char \<Rightarrow> bool" where
  "is_word_char c = (let n = of_char c :: nat in (48 \<le> n \<and> n \<le> 57) \<or> (65 \<le> n \<and> n \<le> 90) \<or> (97 \<le> n \<and> n \<le> 122) \<or> n = 95)"

text \<open>
  The alternatives of the pattern that masks build identifiers, addresses and numbers. Each ends in a word character,
  so the boundary after it asks for a character that is none; a shorter match of the same alternative is always
  followed by a word character, so only the longest one can succeed.
\<close>

definition word_ends :: "string \<Rightarrow> bool" where
  "word_ends s = (case s of [] \<Rightarrow> True | c # _ \<Rightarrow> \<not> is_word_char c)"

definition hex_token :: "string \<Rightarrow> string \<Rightarrow> nat option" where
  "hex_token prefix s =
     (let run = takeWhile is_hex_char (drop (length prefix) s); n = length prefix + length run in
      if starts_with s prefix \<and> run \<noteq> [] \<and> word_ends (drop n s) then Some n else None)"

definition number_token :: "string \<Rightarrow> nat option" where
  "number_token s =
     (let whole = length (takeWhile is_digit_char s); tl = drop whole s;
          frac = length (takeWhile is_digit_char (drop 1 tl)); n = whole + 1 + frac in
      if whole = 0 then None
      else if starts_with tl ''.'' \<and> frac \<noteq> 0 \<and> word_ends (drop n s) then Some n
      else if word_ends tl then Some whole else None)"

definition volatile_token :: "string \<Rightarrow> nat option" where
  "volatile_token s =
     (case hex_token ''build-'' s of Some n \<Rightarrow> Some n
      | None \<Rightarrow> (case hex_token ''0x'' s of Some n \<Rightarrow> Some n | None \<Rightarrow> number_token s))"

lemma volatile_token_pos: "volatile_token s = Some n \<Longrightarrow> 0 < n"
  by (auto simp: volatile_token_def hex_token_def number_token_def Let_def split: option.splits if_splits)

text \<open>\<^verbatim>\<open>re.sub\<close> of the pattern; \<open>inside_word\<close> says that the character before is a word character.\<close>

function mask_tokens :: "bool \<Rightarrow> string \<Rightarrow> string" where
  "mask_tokens inside_word [] = []"
| "mask_tokens inside_word (c # cs) =
     (case (if inside_word then None else volatile_token (c # cs)) of
        Some n \<Rightarrow> CHR ''#'' # mask_tokens True (drop n (c # cs))
      | None \<Rightarrow> c # mask_tokens (is_word_char c) cs)"
  by pat_completeness auto

termination
  by (relation "measure (\<lambda>(b, s). length s)") (auto split: if_splits dest: volatile_token_pos)

definition diagnostic_error :: "codec \<Rightarrow> pyval \<Rightarrow> bool" where
  "diagnostic_error cd item =
     (is_dict item \<and>
      py_lower (if has_item item ''severity'' then py_str cd (dict_item item ''severity'') else ''error'')
        \<notin> {''warning'', ''note''})"

definition diagnostic_view :: "pyval \<Rightarrow> pyval" where
  "diagnostic_view item = VDict (map (\<lambda>k. (k, dict_item item k)) [''path'', ''severity'', ''message'', ''symbol''])"

definition build_diagnostics :: "pyval \<Rightarrow> pyval" where
  "build_diagnostics build =
     (let found = py_items (dict_item build ''compiler_diagnostics'') @ py_items (dict_item build ''linker_diagnostics'') in
      if found \<noteq> [] then VList found
      else py_or (dict_item build ''structured_diagnostics'') (py_or (dict_item build ''diagnostics'') (VList [])))"

definition diagnostic_fingerprint :: "codec \<Rightarrow> pyval \<Rightarrow> string" where
  "diagnostic_fingerprint cd build =
     (let errors = (case build_diagnostics build of
                      VList vs \<Rightarrow> map diagnostic_view (filter (diagnostic_error cd) vs) | _ \<Rightarrow> []) in
      if errors \<noteq> [] then sha256 cd (json_spaced cd (VList (sort_key (json_spaced cd) errors)))
      else let text = py_str cd (py_or (dict_item build ''diagnostics'') (py_or (dict_item build ''message'')
                        (py_or (dict_item build ''error_code'') (VStr ''unknown'')))) in
        sha256 cd (json_spaced cd (VDict [(''error_code'', dict_item build ''error_code''),
                                          (''text'', VStr (mask_tokens False (py_lower text)))])))"

section \<open>Progress of a run\<close>

text \<open>An observation is the record of a tool call; a missing field is \<^verbatim>\<open>None\<close>.\<close>

record observation =
  ob_tool :: string
  ob_status :: string
  ob_output :: pyval
  ob_error :: pyval

record progress_state =
  pg_fingerprints :: "string set"
  pg_stalled :: int
  pg_last :: int

definition observation_digest :: "codec \<Rightarrow> observation \<Rightarrow> string" where
  "observation_digest cd ob =
     (let out = stable_value (ob_output ob) in
      sha256 cd (json_spaced cd (VDict
        [(''tool'', VStr (ob_tool ob)), (''status'', VStr (ob_status ob)),
         (''output'', if ob_tool ob = ''build_firmware'' \<and> is_dict out
                      then VDict [(''success'', dict_item out ''success''),
                                  (''workspace_revision'', dict_item out ''workspace_revision''),
                                  (''diagnostic'', VStr (diagnostic_fingerprint cd out))]
                      else out),
         (''error'', stable_value (ob_error ob))])))"

definition SILENT_TOOLS :: "string set" where
  "SILENT_TOOLS = {''update_plan'', ''agent_progress_hint'', ''spawn_subagent''}"

definition progress_observe :: "codec \<Rightarrow> observation \<Rightarrow> progress_state \<Rightarrow> bool \<times> progress_state" where
  "progress_observe cd ob p =
     (if ob_tool ob \<in> SILENT_TOOLS then (False, p)
      else let digest = observation_digest cd ob in
        if digest \<in> pg_fingerprints p then (False, p)
        else (True, p\<lparr>pg_fingerprints := insert digest (pg_fingerprints p)\<rparr>))"

definition progress_settle :: "int \<Rightarrow> bool \<Rightarrow> progress_state \<Rightarrow> progress_state" where
  "progress_settle turn changed p =
     p\<lparr>pg_stalled := (if changed then 0 else pg_stalled p + 1), pg_last := (if changed then turn else pg_last p)\<rparr>"

definition progress_snapshot :: "progress_state \<Rightarrow> string list \<times> int \<times> int" where
  "progress_snapshot p = (sorted_list_of_set (pg_fingerprints p), pg_stalled p, pg_last p)"

definition progress_restore :: "(string list \<times> int \<times> int) option \<Rightarrow> progress_state" where
  "progress_restore saved =
     (case saved of None \<Rightarrow> \<lparr>pg_fingerprints = {}, pg_stalled = 0, pg_last = 0\<rparr>
      | Some (prints, stalled, last_turn) \<Rightarrow> \<lparr>pg_fingerprints = set prints, pg_stalled = stalled, pg_last = last_turn\<rparr>)"

section \<open>Rejected evidence\<close>

text \<open>
  A check of a requirement report with its identity, its issues, and the mapping that is hashed; a report with the
  revisions that are hashed with it. An entry of the tracker is a fingerprint and a count.
\<close>

record evidence_check =
  ec_id :: string
  ec_issues :: "pyval list"
  ec_value :: pyval

record evidence_report =
  er_task :: pyval
  er_source :: pyval
  er_checks :: "evidence_check list"

type_synonym rejections = "string \<rightharpoonup> string \<times> nat"

definition rejection_print :: "codec \<Rightarrow> evidence_report \<Rightarrow> evidence_check \<Rightarrow> string" where
  "rejection_print cd r c = sha256 cd (json_spaced cd (VDict
     [(''task'', er_task r), (''source'', er_source r), (''check'', ec_value c)]))"

definition rejection_count :: "codec \<Rightarrow> evidence_report \<Rightarrow> evidence_check \<Rightarrow> rejections \<Rightarrow> nat" where
  "rejection_count cd r c entries =
     (case entries (ec_id c) of
        Some (print, count) \<Rightarrow> if print = rejection_print cd r c then count + 1 else 1
      | None \<Rightarrow> 1)"

text \<open>The entries, the counts written into the checks, the repeated and the stopped identities.\<close>

fun tracker_observe :: "codec \<Rightarrow> evidence_report \<Rightarrow> string set \<Rightarrow> evidence_check list \<Rightarrow> rejections
    \<Rightarrow> rejections \<times> (string \<times> nat) list \<times> string list \<times> string list" where
  "tracker_observe cd r submitted [] entries = (entries, [], [], [])"
| "tracker_observe cd r submitted (c # cs) entries =
     (if ec_id c \<notin> submitted then tracker_observe cd r submitted cs entries
      else if ec_issues c = [] then tracker_observe cd r submitted cs (entries(ec_id c := None))
      else let count = rejection_count cd r c entries;
               (entries', counts, repeated, stop) = tracker_observe cd r submitted cs
                 (entries(ec_id c \<mapsto> (rejection_print cd r c, count))) in
        (entries', (ec_id c, count) # counts, (if 2 \<le> count then [ec_id c] else []) @ repeated,
         (if 3 \<le> count then [ec_id c] else []) @ stop))"

definition observe_report :: "codec \<Rightarrow> evidence_report \<Rightarrow> string set \<Rightarrow> rejections
    \<Rightarrow> rejections \<times> (string \<times> nat) list \<times> string list \<times> string list" where
  "observe_report cd r submitted entries = tracker_observe cd r submitted (er_checks r) entries"

lemma tracker_other:
  "i \<notin> ec_id ` set cs \<Longrightarrow> fst (tracker_observe cd r submitted cs entries) i = entries i"
  by (induction cs arbitrary: entries) (auto simp: Let_def case_prod_beta)

lemma tracker_stops_only:
  "i \<notin> ec_id ` set cs \<Longrightarrow> i \<notin> set (snd (snd (snd (tracker_observe cd r submitted cs entries))))"
  by (induction cs arbitrary: entries) (auto simp: Let_def case_prod_beta)

text \<open>What an observation leaves for a check whose identity occurs once in the report.\<close>

lemma tracker_check:
  assumes "distinct (map ec_id cs)" "c \<in> set cs" "ec_id c \<in> submitted"
  shows "fst (tracker_observe cd r submitted cs entries) (ec_id c) =
           (if ec_issues c = [] then None else Some (rejection_print cd r c, rejection_count cd r c entries)) \<and>
    (ec_id c \<in> set (snd (snd (snd (tracker_observe cd r submitted cs entries)))) \<longleftrightarrow>
       ec_issues c \<noteq> [] \<and> 3 \<le> rejection_count cd r c entries)"
  using assms
proof (induction cs arbitrary: entries)
  case (Cons d cs)
  show ?case
  proof (cases "c = d")
    case True
    then have "ec_id c \<notin> ec_id ` set cs" using Cons.prems(1) by auto
    then show ?thesis
      using True Cons.prems(3) tracker_other [of "ec_id c" cs] tracker_stops_only [of "ec_id c" cs]
      by (auto simp: Let_def case_prod_beta)
  next
    case False
    then have "c \<in> set cs" using Cons.prems(2) by simp
    moreover from this have other: "ec_id c \<noteq> ec_id d" using Cons.prems(1) by (force simp: rev_image_eqI)
    moreover have "rejection_count cd r c (entries(ec_id d := v)) = rejection_count cd r c entries" for v
      using other by (simp add: rejection_count_def)
    ultimately show ?thesis using Cons.IH Cons.prems(1,3) by (auto simp: Let_def case_prod_beta)
  qed
qed simp

text \<open>Submitting the same report three times stops exactly the rejected checks, and no earlier.\<close>

lemma third_rejection_stops:
  assumes "distinct (map ec_id (er_checks r))" "c \<in> set (er_checks r)" "ec_id c \<in> submitted" "ec_issues c \<noteq> []"
    and fresh: "rejection_count cd r c entries = 1"
  shows "ec_id c \<notin> set (snd (snd (snd (observe_report cd r submitted entries))))"
    "ec_id c \<notin> set (snd (snd (snd (observe_report cd r submitted (fst (observe_report cd r submitted entries))))))"
    "ec_id c \<in> set (snd (snd (snd (observe_report cd r submitted
        (fst (observe_report cd r submitted (fst (observe_report cd r submitted entries))))))))"
proof -
  note check = tracker_check [OF assms(1-3), of cd r]
  have count: "rejection_count cd r c (fst (observe_report cd r submitted es)) = rejection_count cd r c es + 1" for es
    using check [of es] assms(4) by (simp add: observe_report_def rejection_count_def split: option.split)
  show "ec_id c \<notin> set (snd (snd (snd (observe_report cd r submitted entries))))"
    "ec_id c \<notin> set (snd (snd (snd (observe_report cd r submitted (fst (observe_report cd r submitted entries))))))"
    "ec_id c \<in> set (snd (snd (snd (observe_report cd r submitted
        (fst (observe_report cd r submitted (fst (observe_report cd r submitted entries))))))))"
    using check count fresh assms(4) by (simp_all add: observe_report_def)
qed

end
