(* ===== verification/Generation_Control.thy ===== *)
theory Generation_Control
  imports Progress_Evidence Change_Paths
begin

text \<open>
  The scheduling of agent work, \<^verbatim>\<open>GenerationController\<close> of \<^verbatim>\<open>backend/agent_runtime/generation_controller.py\<close>: what counts as
  material progress, which step of the plan is worked on, when finished steps are reopened, and what a checkpoint keeps;
  with the turn allowance of \<^verbatim>\<open>lifecycle.py\<close> and the turns of \<^verbatim>\<open>autonomous_loop.py\<close> as far as they count progress and stop a stalled
  run: a turn without tool calls that goes on, and a turn with tool calls; the other ways in which a turn ends the run are not modelled.

  Contracts, plan steps, build results and review reports are the host's own; they are records of the fields that the
  controller reads. The artifacts named in a request (\<^verbatim>\<open>explicit_artifacts\<close>, a regular expression over its text) are an
  argument. Where a tool of the host always answers with a list or a number, any other value counts as none.
\<close>

section \<open>State\<close>

text \<open>The files a completed step was accepted with, each with its hash if it existed, and the source revision.\<close>

type_synonym completion = "(string \<times> string option) list \<times> string"

record controller =
  gc_enabled :: bool
  gc_stalled :: int
  gc_dirty :: "string set"
  gc_verified :: "string set"
  gc_packages :: "string set"
  gc_revision :: string
  gc_task :: string
  gc_completed :: "(string \<times> completion) list"
  gc_invalid :: "(string \<times> string list) list"
  gc_active :: "string option"
  gc_last_build :: string
  gc_failed :: "(string \<times> string) option"
  gc_material :: bool
  gc_phase :: "string option"
  gc_reopened :: "string set"

text \<open>A saved controller. \<open>sv_version\<close> is \<^verbatim>\<open>None\<close> when the saved version is not an integer.\<close>

record saved_controller =
  sv_version :: "int option"
  sv_stalled :: int
  sv_dirty :: "string list"
  sv_verified :: "string list"
  sv_packages :: "string list"
  sv_revision :: string
  sv_task :: string
  sv_completed :: "(string \<times> completion) list"
  sv_invalid :: "(string \<times> string list) list"
  sv_active :: "string option"
  sv_last_build :: string
  sv_failed :: "(string \<times> string) option"

definition CONTROLLER_VERSION :: int where
  "CONTROLLER_VERSION = 1"

definition CONTROLLER_WRITES :: "string set" where
  "CONTROLLER_WRITES = {''write_file'', ''edit_file_simple'', ''apply_patch'', ''move_file'', ''delete_file''}"

definition FOCUSED_TOOLS :: "string set" where
  "FOCUSED_TOOLS = CONTROLLER_WRITES \<union> {''list_files'', ''glob_files'', ''grep_search'', ''read_file'', ''inspect_symbols'',
     ''update_plan'', ''resolve_dependency'', ''build_firmware'', ''run_unit_tests'', ''verify_requirements'',
     ''verify_acceptance''}"

definition state_supported :: "saved_controller option \<Rightarrow> bool" where
  "state_supported saved = (case saved of None \<Rightarrow> True | Some sv \<Rightarrow> sv_version sv = Some CONTROLLER_VERSION)"

definition fresh_controller :: "bool \<Rightarrow> controller" where
  "fresh_controller enabled =
     \<lparr>gc_enabled = enabled, gc_stalled = 0, gc_dirty = {}, gc_verified = {}, gc_packages = {}, gc_revision = [],
      gc_task = [], gc_completed = [], gc_invalid = [], gc_active = None, gc_last_build = [], gc_failed = None,
      gc_material = False, gc_phase = None, gc_reopened = {}\<rparr>"

text \<open>\<open>allowed\<close> stands for the environment switch, \<open>contracted\<close> for a contract that is not empty.\<close>

definition restore_controller :: "bool \<Rightarrow> bool \<Rightarrow> bool \<Rightarrow> saved_controller option \<Rightarrow> string + controller" where
  "restore_controller allowed contracted enabled saved =
     (if \<not> state_supported saved then Inl ''AGENT_CONTROLLER_VERSION_UNSUPPORTED''
      else Inr (case saved of
          None \<Rightarrow> fresh_controller (enabled \<and> contracted \<and> allowed)
        | Some sv \<Rightarrow>
            \<lparr>gc_enabled = (enabled \<and> contracted \<and> allowed), gc_stalled = min 5 (max 0 (sv_stalled sv)),
             gc_dirty = set (sv_dirty sv), gc_verified = set (sv_verified sv), gc_packages = set (sv_packages sv),
             gc_revision = sv_revision sv, gc_task = sv_task sv, gc_completed = sv_completed sv,
             gc_invalid = sv_invalid sv, gc_active = sv_active sv, gc_last_build = sv_last_build sv,
             gc_failed = sv_failed sv, gc_material = False, gc_phase = None, gc_reopened = {}\<rparr>))"

definition last_items :: "nat \<Rightarrow> 'a list \<Rightarrow> 'a list" where
  "last_items n xs = drop (length xs - n) xs"

definition snapshot_controller :: "controller \<Rightarrow> saved_controller" where
  "snapshot_controller c =
     \<lparr>sv_version = Some CONTROLLER_VERSION, sv_stalled = gc_stalled c,
      sv_dirty = take 128 (sorted_list_of_set (gc_dirty c)),
      sv_verified = last_items 128 (sorted_list_of_set (gc_verified c)),
      sv_packages = take 32 (sorted_list_of_set (gc_packages c)),
      sv_revision = gc_revision c, sv_task = gc_task c, sv_completed = last_items 32 (gc_completed c),
      sv_invalid = last_items 32 (gc_invalid c), sv_active = gc_active c, sv_last_build = gc_last_build c,
      sv_failed = gc_failed c\<rparr>"

section \<open>Observations\<close>

definition workspace_changed :: "observation \<Rightarrow> bool" where
  "workspace_changed ob =
     (ob_status ob = ''completed'' \<and> is_dict (ob_output ob) \<and>
      (py_true (dict_item (ob_output ob) ''created'') \<or> py_true (dict_item (ob_output ob) ''deleted'') \<or>
       py_true (dict_item (ob_output ob) ''modified'') \<or> py_true (dict_item (ob_output ob) ''moved'') \<or>
       py_str_in (dict_item (ob_output ob) ''change_type'') {''moved'', ''deleted''} \<or>
       py_true (dict_item (ob_output ob) ''diff'')))"

text \<open>An edit that did not match, with the complete file in its answer.\<close>

definition failed_edit :: "observation \<Rightarrow> string option" where
  "failed_edit ob =
     (case dict_item (ob_output ob) ''path'' of
        VStr path \<Rightarrow>
          if ob_status ob = ''failed'' \<and> ob_tool ob = ''edit_file_simple'' \<and>
             dict_item (ob_output ob) ''error'' = VStr ''edit_match_must_be_exactly_one'' \<and>
             dict_item (dict_item (ob_output ob) ''current_excerpt'') ''truncated'' = VBool False
          then Some path else None
      | _ \<Rightarrow> None)"

definition package_head :: "char \<Rightarrow> bool" where
  "package_head ch = (is_word_char ch \<and> ch \<noteq> CHR ''_'')"

definition package_part :: "string \<Rightarrow> nat \<Rightarrow> string \<Rightarrow> bool" where
  "package_part extra limit s =
     (case s of [] \<Rightarrow> False
      | ch # rest \<Rightarrow> package_head ch \<and> length rest \<le> limit \<and> (\<forall>x \<in> set rest. is_word_char x \<or> x \<in> set extra))"

definition package_identity :: "string \<Rightarrow> bool" where
  "package_identity s =
     (case split_on slash_char s of
        [owner, name] \<Rightarrow> package_part ''.-'' 63 owner \<and> package_part ''. +()-'' 99 name
      | _ \<Rightarrow> False)"

definition package_accepted :: "controller \<Rightarrow> pyval \<Rightarrow> string option" where
  "package_accepted c package =
     (case dict_item package ''id'' of
        VStr identity \<Rightarrow>
          if package_identity identity \<and> dict_item package ''metadata_verified'' = VBool True \<and>
             py_true (dict_item package ''available_versions'') \<and>
             py_lower identity \<notin> gc_packages c \<and> card (gc_packages c) < 32
          then Some (py_lower identity) else None
      | _ \<Rightarrow> None)"

fun resolve_packages :: "pyval list \<Rightarrow> controller \<Rightarrow> controller" where
  "resolve_packages [] c = c"
| "resolve_packages (p # ps) c =
     (case package_accepted c p of
        None \<Rightarrow> resolve_packages ps c
      | Some identity \<Rightarrow>
          resolve_packages ps (c\<lparr>gc_packages := insert identity (gc_packages c), gc_material := True\<rparr>))"

definition record_evidence :: "string \<Rightarrow> controller \<Rightarrow> controller" where
  "record_evidence identity c =
     (if identity \<in> gc_verified c then c
      else c\<lparr>gc_material := True, gc_verified := insert identity (gc_verified c)\<rparr>)"

definition py_positive :: "pyval \<Rightarrow> bool" where
  "py_positive v = (case v of VInt n \<Rightarrow> 0 < n | VBool b \<Rightarrow> b | VFloat (Fin q) \<Rightarrow> 0 < q | VFloat PosInf \<Rightarrow> True | _ \<Rightarrow> False)"

definition py_list :: "pyval \<Rightarrow> pyval list" where
  "py_list v = (case v of VList vs \<Rightarrow> vs | _ \<Rightarrow> [])"

definition text_set :: "pyval \<Rightarrow> string set" where
  "text_set v = (case v of VStr s \<Rightarrow> {s} | _ \<Rightarrow> {})"

definition written_paths :: "observation \<Rightarrow> string set" where
  "written_paths ob = text_set (dict_item (ob_output ob) ''path'') \<union> text_set (dict_item (ob_output ob) ''destination'')"

text \<open>The first part of \<^verbatim>\<open>observe\<close>: failed edits and writes.\<close>

definition observe_write :: "observation \<Rightarrow> controller \<Rightarrow> controller" where
  "observe_write ob c =
     (let c = (case failed_edit ob of Some path \<Rightarrow> c\<lparr>gc_failed := Some (path, gc_revision c)\<rparr> | None \<Rightarrow> c) in
      if workspace_changed ob \<and> ob_tool ob \<in> CONTROLLER_WRITES
      then c\<lparr>gc_failed := None, gc_material := True, gc_stalled := 0, gc_dirty := gc_dirty c \<union> written_paths ob\<rparr>
      else c)"

text \<open>The second part: builds, dependencies, verifications and tests that completed.\<close>

definition build_identity :: "codec \<Rightarrow> pyval \<Rightarrow> string" where
  "build_identity cd out = py_str cd (dict_item out ''workspace_revision'') @ '':'' @ diagnostic_fingerprint cd out"

definition check_identity :: "codec \<Rightarrow> string \<Rightarrow> string \<Rightarrow> pyval \<Rightarrow> string" where
  "check_identity cd tool revision out = tool @ '':'' @ revision @ '':'' @ sha256 cd (json_spaced cd (stable_value out))"

definition observe_evidence :: "codec \<Rightarrow> observation \<Rightarrow> controller \<Rightarrow> controller" where
  "observe_evidence cd ob c =
     (let out = ob_output ob; tool = ob_tool ob in
      if ob_status ob \<noteq> ''completed'' \<or> \<not> is_dict out then c
      else if tool = ''build_firmware'' \<and> \<not> py_true (dict_item out ''cached'') \<and> py_true (dict_item out ''workspace_revision'')
      then (record_evidence (build_identity cd out) c)
             \<lparr>gc_last_build := py_str cd (dict_item out ''workspace_revision''), gc_dirty := {}\<rparr>
      else if tool = ''resolve_dependency'' \<and> dict_item out ''source'' = VStr ''platformio_registry''
      then resolve_packages (take 5 (py_list (dict_item out ''packages''))) c
      else if (tool \<in> {''verify_requirements'', ''verify_acceptance''} \<and> py_positive (dict_item out ''new_evidence_count'')) \<or>
              (tool \<in> {''run_unit_tests'', ''run_simulation''} \<and> dict_item out ''success'' = VBool True)
      then record_evidence (check_identity cd tool (gc_revision c) out) c
      else c)"

definition observe :: "codec \<Rightarrow> observation \<Rightarrow> controller \<Rightarrow> controller" where
  "observe cd ob c = observe_evidence cd ob (observe_write ob c)"

definition settle_controller :: "controller \<Rightarrow> controller" where
  "settle_controller c = c\<lparr>gc_stalled := (if gc_material c then 0 else min 5 (gc_stalled c + 1)), gc_material := False\<rparr>"

section \<open>The focus of the next turn\<close>

record plan_item =
  pi_key :: "string option"
  pi_id :: "string option"
  pi_text :: string
  pi_status :: string
  pi_verification :: "string option"
  pi_paths :: "string list"
  pi_requirements :: "string list"
  pi_depends :: "string list"
  pi_evidence :: "string list"

record work_contract =
  wc_revision :: string
  wc_request :: string
  wc_requirements :: "string list"

text \<open>A build result: \<open>bv_linker\<close> holds the symbols of its linker diagnostics, of which some name none.\<close>

record build_view =
  bv_error :: "string option"
  bv_success :: "bool option"
  bv_stale :: bool
  bv_revision :: "string option"
  bv_linker :: "string option list"

record report_view =
  rv_revision :: "string option"
  rv_task :: "string option"
  rv_checks :: "(string \<times> string) list"
  rv_references_valid :: bool
  rv_reviewed :: bool

record focus_env =
  fe_sha :: "string \<Rightarrow> string"
  fe_artifacts :: "string \<Rightarrow> string list"

definition item_key :: "focus_env \<Rightarrow> plan_item \<Rightarrow> string" where
  "item_key fe item =
     (if py_true_opt (pi_key item) then the (pi_key item)
      else if py_true_opt (pi_id item) then the (pi_id item)
      else take 16 (fe_sha fe (pi_text item)))"

definition current_files :: "(string \<rightharpoonup> string) \<Rightarrow> string list \<Rightarrow> (string \<times> string option) list" where
  "current_files files paths = map (\<lambda>p. (p, files p)) (remdups paths)"

text \<open>\<^verbatim>\<open>all(current.values())\<close>\<close>

definition all_present :: "(string \<times> string option) list \<Rightarrow> bool" where
  "all_present current = (\<forall>(p, hash) \<in> set current. py_true_opt hash)"

text \<open>Whether the evidence of a completed step still describes the files; mappings are compared without their order.\<close>

definition evidence_stale :: "completion \<Rightarrow> (string \<times> string option) list \<Rightarrow> plan_item \<Rightarrow> string \<Rightarrow> bool" where
  "evidence_stale e current item revision =
     (set (fst e) \<noteq> set current \<or>
      (pi_paths item = [] \<or> pi_verification item \<in> {Some ''build'', Some ''simulation''}) \<and> snd e \<noteq> revision)"

definition put_last :: "string \<Rightarrow> 'v \<Rightarrow> (string \<times> 'v) list \<Rightarrow> (string \<times> 'v) list" where
  "put_last k v kvs = AList.update k v kvs"

text \<open>One step of the plan: the controller, and the step with its key and its status.\<close>

definition focus_item :: "focus_env \<Rightarrow> bool \<Rightarrow> (string \<rightharpoonup> string) \<Rightarrow> string \<Rightarrow> plan_item \<Rightarrow> controller
    \<Rightarrow> controller \<times> plan_item" where
  "focus_item fe task_changed files revision item c =
     (let key = item_key fe item; item = item\<lparr>pi_key := Some key\<rparr>;
          current = current_files files (pi_paths item); proof_ids = pi_evidence item;
          stale = (case map_of (gc_completed c) key of
                     Some e \<Rightarrow> evidence_stale e current item revision | None \<Rightarrow> False);
          (c, item) =
            (if task_changed \<or> stale
             then (c\<lparr>gc_completed := AList.delete key (gc_completed c),
                     gc_invalid := put_last key proof_ids (gc_invalid c),
                     gc_reopened := insert key (gc_reopened c)\<rparr>, item\<lparr>pi_status := ''pending''\<rparr>)
             else if map_of (gc_invalid c) key = Some proof_ids
             then (c\<lparr>gc_reopened := insert key (gc_reopened c)\<rparr>, item\<lparr>pi_status := ''pending''\<rparr>)
             else if pi_status item = ''completed'' \<and> all_present current \<and> proof_ids \<noteq> []
             then (c\<lparr>gc_invalid := AList.delete key (gc_invalid c),
                     gc_completed := put_last key (current, revision) (gc_completed c)\<rparr>, item)
             else (c, item)) in
      if pi_status item = ''completed'' \<and> pi_paths item \<noteq> [] \<and> (\<not> all_present current \<or> proof_ids = [])
      then (c, item\<lparr>pi_status := ''pending''\<rparr>) else (c, item))"

fun focus_items :: "focus_env \<Rightarrow> bool \<Rightarrow> (string \<rightharpoonup> string) \<Rightarrow> string \<Rightarrow> plan_item list \<Rightarrow> controller
    \<Rightarrow> controller \<times> plan_item list" where
  "focus_items fe tc files revision [] c = (c, [])"
| "focus_items fe tc files revision (item # items) c =
     (let (c, item) = focus_item fe tc files revision item c;
          (c, items) = focus_items fe tc files revision items c in (c, item # items))"

definition done_keys :: "plan_item list \<Rightarrow> string set" where
  "done_keys steps = (\<lambda>s. the (pi_key s)) ` set (filter (\<lambda>s. pi_status s = ''completed'') steps)"

definition ready_steps :: "plan_item list \<Rightarrow> plan_item list" where
  "ready_steps steps =
     filter (\<lambda>s. pi_status s \<notin> {''completed'', ''skipped'', ''cancelled''} \<and> set (pi_depends s) \<subseteq> done_keys steps) steps"

definition active_step :: "plan_item list \<Rightarrow> plan_item option" where
  "active_step steps =
     (case List.find (\<lambda>s. pi_status s = ''in_progress'') (ready_steps steps) of
        Some s \<Rightarrow> Some s
      | None \<Rightarrow> (case ready_steps steps of [] \<Rightarrow> None | s # _ \<Rightarrow> Some s))"

definition task_step :: "focus_env \<Rightarrow> work_contract \<Rightarrow> plan_item" where
  "task_step fe wc =
     \<lparr>pi_key = Some ''task'', pi_id = None, pi_text = ''Complete the requested deliverable'', pi_status = [],
      pi_verification = None, pi_paths = fe_artifacts fe (wc_request wc), pi_requirements = wc_requirements wc,
      pi_depends = [], pi_evidence = []\<rparr>"

text \<open>The state before the steps are looked at.\<close>

definition focus_start :: "work_contract \<Rightarrow> string \<Rightarrow> controller \<Rightarrow> bool \<times> controller" where
  "focus_start wc revision c =
     (let task_changed = (gc_task c \<noteq> [] \<and> gc_task c \<noteq> wc_revision wc);
          c = (if task_changed then c\<lparr>gc_completed := [], gc_stalled := 0\<rparr> else c);
          c = (if task_changed \<or> map_option snd (gc_failed c) \<noteq> Some revision then c\<lparr>gc_failed := None\<rparr> else c) in
      (task_changed, c\<lparr>gc_task := wc_revision wc, gc_revision := revision, gc_reopened := {}\<rparr>))"

definition work_phase :: "string \<Rightarrow> build_view \<Rightarrow> string" where
  "work_phase revision build =
     (if bv_error build \<in> {Some ''BUILD_CONFIGURATION_MISSING'', Some ''BUILD_CONFIGURATION_INVALID'',
          Some ''DEPENDENCY_UNRESOLVED''} then ''configuration''
      else if bv_success build = Some False \<and> \<not> bv_stale build then ''repair''
      else if bv_success build = Some True \<and> bv_revision build = Some revision then ''verification''
      else ''generation'')"

record work_focus =
  wf_phase :: string
  wf_active :: "plan_item option"
  wf_missing :: "string list"
  wf_symbols :: "string list"
  wf_remaining :: "string list"
  wf_edit_recovery :: "(string \<times> string) option"
  wf_stalled :: int

text \<open>\<^verbatim>\<open>focus\<close>: the controller, the steps with their statuses, and the projection; its texts are left out.\<close>

definition focus :: "focus_env \<Rightarrow> work_contract \<Rightarrow> plan_item list \<Rightarrow> (string \<rightharpoonup> string) \<Rightarrow> string \<Rightarrow> build_view
    \<Rightarrow> report_view \<Rightarrow> controller \<Rightarrow> controller \<times> plan_item list \<times> work_focus" where
  "focus fe wc plan files revision build report c =
     (let (task_changed, c) = focus_start wc revision c;
          (c, steps) = focus_items fe task_changed files revision (take 32 plan) c;
          active = (if steps = [] then Some (task_step fe wc) else active_step steps);
          phase = work_phase revision build;
          current_report = (rv_revision report = Some revision \<and> rv_task report = Some (wc_revision wc));
          reviewed = (if current_report
                      then fst ` set (filter (\<lambda>(i, status). status \<in> {''referenced'', ''reviewed''}) (rv_checks report))
                      else {}) in
      (c\<lparr>gc_active := (case active of None \<Rightarrow> None | Some s \<Rightarrow> pi_key s), gc_phase := Some phase\<rparr>, steps,
       \<lparr>wf_phase = phase, wf_active = active,
        wf_missing = take 64 (filter (\<lambda>p. files p = None) (case active of None \<Rightarrow> [] | Some s \<Rightarrow> pi_paths s)),
        wf_symbols = map the (filter py_true_opt (take 8 (bv_linker build))),
        wf_remaining = filter (\<lambda>i. i \<notin> reviewed) (wc_requirements wc),
        wf_edit_recovery = (if gc_stalled c = 3 \<and> phase \<noteq> ''verification''
                            then map_option (\<lambda>(path, old). (path, revision)) (gc_failed c) else None),
        wf_stalled = gc_stalled c\<rparr>))"

definition narrow_tools :: "controller \<Rightarrow> string list \<Rightarrow> string list" where
  "narrow_tools c tools =
     (if \<not> gc_enabled c \<or> gc_stalled c < 3 \<or> gc_phase c = Some ''verification'' then tools
      else filter (\<lambda>t. t \<in> FOCUSED_TOOLS) tools)"

definition should_build :: "controller \<Rightarrow> plan_item list \<Rightarrow> string set \<Rightarrow> rat \<Rightarrow> bool" where
  "should_build c plan paths remaining =
     (if \<not> gc_enabled c \<or> gc_dirty c = {} then False
      else if remaining \<le> 180 then True
      else case List.find (\<lambda>s. pi_key s = gc_active c) (filter (\<lambda>s. pi_paths s \<noteq> []) plan) of
          None \<Rightarrow> False
        | Some s \<Rightarrow> pi_status s = ''completed'' \<and> set (pi_paths s) \<subseteq> paths)"

section \<open>Turns\<close>

definition turn_allowance :: "string \<Rightarrow> rat \<Rightarrow> rat \<Rightarrow> rat \<Rightarrow> bool \<Rightarrow> rat" where
  "turn_allowance phase remaining turn_timeout verification_reserve bounded_job =
     (let cap = min turn_timeout (if phase = ''review'' then 60 else if phase \<noteq> ''generation'' then 180 else 300) in
      if \<not> bounded_job then cap else min cap (remaining - verification_reserve))"

text \<open>
  The end of a turn of \<^verbatim>\<open>autonomous_loop.py\<close>: the count of turns without progress and the turn in which the recovery
  started. \<^verbatim>\<open>None\<close> means that the run stops with \<^verbatim>\<open>AGENT_RUNTIME_NO_PROGRESS\<close>.
\<close>

type_synonym stall = "int \<times> int option"

definition end_turn :: "int \<Rightarrow> bool \<Rightarrow> stall \<Rightarrow> stall option" where
  "end_turn turn made_progress st =
     (if made_progress then Some (0, None)
      else let stalled = fst st + 1 in
        if stalled < 3 then Some (stalled, snd st)
        else case snd st of
            None \<Rightarrow> Some (stalled, Some turn)
          | Some started \<Rightarrow> if 5 \<le> stalled \<or> 2 \<le> turn - started then None else Some (stalled, snd st))"

text \<open>
  What the loop itself counts as progress: one tool call with its arguments and its observation. The loop keeps the
  fingerprints of the observations and of the build errors it has seen.
\<close>

record seen_state =
  ss_observations :: "string set"
  ss_errors :: "string set"

definition call_identity :: "codec \<Rightarrow> pyval \<Rightarrow> observation \<Rightarrow> string" where
  "call_identity cd arguments ob = sha256 cd (json_spaced cd (VList
     [VStr (ob_tool ob), arguments, VStr (ob_status ob), stable_value (ob_output ob), ob_error ob]))"

definition call_progress :: "codec \<Rightarrow> pyval \<times> observation \<Rightarrow> bool \<times> seen_state \<Rightarrow> bool \<times> seen_state" where
  "call_progress cd = (\<lambda>(arguments, ob) (made0, seen).
     let out = ob_output ob; tool = ob_tool ob;
         made = (made0 \<or> tool = ''verify_requirements'' \<and> is_dict out \<and>
                   (dict_item out ''valid'' = VBool True \<or> py_positive (dict_item out ''new_evidence_count''))) in
     if ob_status ob = ''completed'' \<and> tool \<in> CONTROLLER_WRITES then (made \<or> workspace_changed ob, seen)
     else if ob_status ob = ''completed'' \<and> tool = ''build_firmware''
     then (if is_dict out \<and> dict_item out ''success'' = VBool True then (True, seen)
           else if is_dict out \<and> \<not> py_true (dict_item out ''cached'')
           then (let error = diagnostic_fingerprint cd out in
             if error \<in> ss_errors seen then (made, seen) else (True, seen\<lparr>ss_errors := insert error (ss_errors seen)\<rparr>))
           else (made, seen))
     else if ob_status ob = ''completed'' \<and> tool = ''run_simulation''
     then (made \<or> is_dict out \<and> dict_item out ''success'' = VBool True, seen)
     else if tool \<notin> {''update_plan'', ''spawn_subagent'', ''verify_requirements''}
     then (let identity = call_identity cd arguments ob in
       if identity \<in> ss_observations seen then (made, seen)
       else (True, seen\<lparr>ss_observations := insert identity (ss_observations seen)\<rparr>))
     else (made, seen))"

text \<open>
  A turn of the loop. When the context is compacted at its start, the controller is focused on the current source.
  A turn without tool calls that goes on ends there: nothing is counted. In a turn with tool calls a completed write
  is observed as soon as it is executed, then every call in order, then the build the host may run itself.
  After \<^verbatim>\<open>settle\<close> the controller decides on progress if it is enabled and no build has passed, and what the loop
  counted itself decides otherwise.
\<close>

record focus_input =
  fi_contract :: work_contract
  fi_plan :: "plan_item list"
  fi_files :: "string \<rightharpoonup> string"
  fi_revision :: string
  fi_build :: build_view
  fi_report :: report_view

record turn_input =
  ti_calls :: "(pyval \<times> observation) list"
  ti_host :: "observation list"
  ti_passed :: bool
  ti_focus :: focus_input

datatype agent_event = Text_turn "focus_input option" | Tool_turn "focus_input option" turn_input

record agent_state =
  as_controller :: controller
  as_seen :: seen_state
  as_stall :: stall

definition refocus :: "focus_env \<Rightarrow> focus_input \<Rightarrow> controller \<Rightarrow> controller \<times> plan_item list \<times> work_focus" where
  "refocus fe fi c = focus fe (fi_contract fi) (fi_plan fi) (fi_files fi) (fi_revision fi) (fi_build fi) (fi_report fi) c"

definition loop_focus :: "focus_env \<Rightarrow> focus_input \<Rightarrow> controller \<Rightarrow> controller" where
  "loop_focus fe fi c = (if gc_enabled c then fst (refocus fe fi c) else c)"

definition compact_focus :: "focus_env \<Rightarrow> focus_input option \<Rightarrow> controller \<Rightarrow> controller" where
  "compact_focus fe head c = (case head of None \<Rightarrow> c | Some fi \<Rightarrow> loop_focus fe fi c)"

definition turn_observations :: "turn_input \<Rightarrow> observation list" where
  "turn_observations ti =
     filter (\<lambda>ob. ob_status ob = ''completed'' \<and> ob_tool ob \<in> CONTROLLER_WRITES) (map snd (ti_calls ti))
       @ map snd (ti_calls ti) @ ti_host ti"

definition tool_turn :: "focus_env \<Rightarrow> codec \<Rightarrow> int \<Rightarrow> turn_input \<Rightarrow> agent_state \<Rightarrow> agent_state option" where
  "tool_turn fe cd turn ti st =
     (let c = settle_controller (fold (observe cd) (turn_observations ti) (as_controller st));
          (made, seen) = fold (call_progress cd) (ti_calls ti) (False, as_seen st);
          progress = (if gc_enabled c \<and> \<not> ti_passed ti then gc_stalled c = 0 else made) in
      map_option (\<lambda>stall. \<lparr>as_controller = loop_focus fe (ti_focus ti) c, as_seen = seen, as_stall = stall\<rparr>)
        (end_turn turn progress (as_stall st)))"

definition agent_turn :: "focus_env \<Rightarrow> codec \<Rightarrow> int \<Rightarrow> agent_event \<Rightarrow> agent_state \<Rightarrow> agent_state option" where
  "agent_turn fe cd turn e st =
     (case e of
        Text_turn head \<Rightarrow> Some (st\<lparr>as_controller := compact_focus fe head (as_controller st)\<rparr>)
      | Tool_turn head ti \<Rightarrow> tool_turn fe cd turn ti (st\<lparr>as_controller := compact_focus fe head (as_controller st)\<rparr>))"

fun agent_turns :: "focus_env \<Rightarrow> codec \<Rightarrow> int \<Rightarrow> agent_event list \<Rightarrow> agent_state \<Rightarrow> agent_state option" where
  "agent_turns fe cd turn [] st = Some st"
| "agent_turns fe cd turn (e # rest) st =
     (case agent_turn fe cd turn e st of None \<Rightarrow> None | Some st' \<Rightarrow> agent_turns fe cd (turn + 1) rest st')"

section \<open>Evidence counts once\<close>

definition is_write :: "observation \<Rightarrow> bool" where
  "is_write ob \<longleftrightarrow> workspace_changed ob \<and> ob_tool ob \<in> CONTROLLER_WRITES"

text \<open>An observation that is no write and tells a controller nothing new.\<close>

definition no_news :: "codec \<Rightarrow> observation \<Rightarrow> controller \<Rightarrow> bool" where
  "no_news cd ob c \<longleftrightarrow> \<not> is_write ob \<and> \<not> gc_material (observe_evidence cd ob (c\<lparr>gc_material := False\<rparr>))"

definition knows_more :: "controller \<Rightarrow> controller \<Rightarrow> bool" where
  "knows_more c c' \<longleftrightarrow> gc_verified c \<subseteq> gc_verified c' \<and> gc_packages c \<subseteq> gc_packages c' \<and>
     (finite (gc_packages c) \<longrightarrow> finite (gc_packages c')) \<and> gc_revision c' = gc_revision c \<and> gc_task c' = gc_task c \<and>
     gc_enabled c' = gc_enabled c"

lemma knows_more_refl [simp, intro!]: "knows_more c c"
  by (simp add: knows_more_def)

lemma knows_more_trans: "knows_more a b \<Longrightarrow> knows_more b c \<Longrightarrow> knows_more a c"
  by (auto simp: knows_more_def)

lemma package_accepted_more:
  assumes "knows_more c c'" "finite (gc_packages c)" "package_accepted c p = None"
  shows "package_accepted c' p = None"
proof -
  have "card (gc_packages c) \<le> card (gc_packages c')" "gc_packages c \<subseteq> gc_packages c'"
    using assms(1,2) by (auto simp: knows_more_def intro: card_mono)
  then show ?thesis using assms(3) by (auto simp: package_accepted_def split: pyval.splits if_splits)
qed

lemma package_taken:
  assumes "package_accepted c p = Some identity" "finite (gc_packages c)"
  shows "package_accepted (c\<lparr>gc_packages := insert identity (gc_packages c), gc_material := True\<rparr>) p = None"
  using assms by (auto simp: package_accepted_def split: pyval.splits if_splits)

lemma package_accepted_material [simp]: "package_accepted (c\<lparr>gc_material := m\<rparr>) p = package_accepted c p"
  by (simp add: package_accepted_def split: pyval.split)

lemma resolve_more: "knows_more c (resolve_packages ps c)"
proof (induction ps c rule: resolve_packages.induct)
  case (2 p ps c)
  then show ?case
    by (auto split: option.split intro!: knows_more_trans [of c "c\<lparr>gc_packages := _, gc_material := True\<rparr>"]
        simp: knows_more_def)
qed simp

lemma resolve_known: "\<forall>p \<in> set ps. package_accepted c p = None \<Longrightarrow> resolve_packages ps c = c"
  by (induction ps) simp_all

lemma resolve_material: "gc_material c \<Longrightarrow> gc_material (resolve_packages ps c)"
  by (induction ps c rule: resolve_packages.induct) (auto split: option.split)

lemma resolve_news:
  "gc_material (resolve_packages ps c) \<longleftrightarrow> gc_material c \<or> (\<exists>p \<in> set ps. package_accepted c p \<noteq> None)"
  using resolve_material resolve_known
  by (induction ps c rule: resolve_packages.induct) (auto split: option.splits)

lemma resolve_done:
  "finite (gc_packages c) \<Longrightarrow> \<forall>p \<in> set ps. package_accepted (resolve_packages ps c) p = None"
proof (induction ps c rule: resolve_packages.induct)
  case (2 p ps c)
  show ?case
  proof (cases "package_accepted c p")
    case None
    then show ?thesis using 2 package_accepted_more [OF resolve_more] by auto
  next
    case (Some identity)
    let ?c = "c\<lparr>gc_packages := insert identity (gc_packages c), gc_material := True\<rparr>"
    have "package_accepted (resolve_packages ps ?c) p = None"
      using package_accepted_more [OF resolve_more] package_taken [OF Some] 2(3) by simp
    then show ?thesis using 2 Some by simp
  qed
qed simp

lemma record_parts [simp]:
  "gc_packages (record_evidence i c) = gc_packages c" "gc_revision (record_evidence i c) = gc_revision c"
  "gc_task (record_evidence i c) = gc_task c" "gc_enabled (record_evidence i c) = gc_enabled c" "gc_stalled (record_evidence i c) = gc_stalled c"
  "gc_verified (record_evidence i c) = insert i (gc_verified c)"
  "gc_material (record_evidence i c) \<longleftrightarrow> gc_material c \<or> i \<notin> gc_verified c"
  by (auto simp: record_evidence_def)

lemma resolve_parts [simp]:
  "gc_revision (resolve_packages ps c) = gc_revision c" "gc_task (resolve_packages ps c) = gc_task c"
  "gc_stalled (resolve_packages ps c) = gc_stalled c" "gc_enabled (resolve_packages ps c) = gc_enabled c"
  by (induction ps c rule: resolve_packages.induct) (auto split: option.split)

lemma evidence_parts [simp]: "gc_stalled (observe_evidence cd ob c) = gc_stalled c"
  by (simp add: observe_evidence_def Let_def)

lemma write_parts:
  "knows_more c (observe_write ob c)" "\<not> is_write ob \<Longrightarrow> gc_material (observe_write ob c) = gc_material c"
  "\<not> is_write ob \<Longrightarrow> gc_stalled (observe_write ob c) = gc_stalled c"
  "0 \<le> gc_stalled c \<Longrightarrow> 0 \<le> gc_stalled (observe_write ob c)"
  by (auto simp: observe_write_def is_write_def knows_more_def Let_def split: option.split)

lemma evidence_more: "knows_more c (observe_evidence cd ob c)"
  using resolve_more [of c] by (auto simp: observe_evidence_def Let_def knows_more_def)

lemma observe_more: "knows_more c (observe cd ob c)"
  unfolding observe_def using knows_more_trans evidence_more write_parts(1) by blast

lemma fold_more: "knows_more c (fold (observe cd) obs c)"
  by (induction obs arbitrary: c) (auto intro: knows_more_trans observe_more)

lemma evidence_material:
  "gc_material (observe_evidence cd ob c) \<longleftrightarrow> gc_material c \<or> gc_material (observe_evidence cd ob (c\<lparr>gc_material := False\<rparr>))"
  by (auto simp: observe_evidence_def Let_def resolve_news)

lemma no_news_more:
  assumes "no_news cd ob c" "knows_more c c'" "finite (gc_packages c)"
  shows "no_news cd ob c'"
proof -
  have "\<forall>p. package_accepted c p = None \<longrightarrow> package_accepted c' p = None"
    using package_accepted_more assms(2,3) by blast
  with assms(1,2) show ?thesis
    by (auto simp: no_news_def observe_evidence_def Let_def knows_more_def resolve_news split: if_splits)
qed

text \<open>After an observation, the same observation is no news.\<close>

lemma observed_no_news:
  assumes "\<not> is_write ob" "finite (gc_packages c)"
  shows "no_news cd ob (observe cd ob c)"
proof -
  have "finite (gc_packages (observe_write ob c))" "gc_revision (observe_write ob c) = gc_revision c"
    using write_parts(1) [of c ob] assms(2) by (auto simp: knows_more_def)
  with assms(1) show ?thesis
    by (auto simp: no_news_def observe_def observe_evidence_def Let_def resolve_news resolve_done)
qed

lemma past_no_news:
  assumes "ob \<in> set past" "\<not> is_write ob" "finite (gc_packages c)"
  shows "no_news cd ob (fold (observe cd) past c)"
  using assms
proof (induction past arbitrary: c)
  case (Cons o1 past)
  have fin: "finite (gc_packages (observe cd o1 c))" using observe_more Cons.prems(3) by (auto simp: knows_more_def)
  show ?case
  proof (cases "ob = o1")
    case True
    then show ?thesis using no_news_more [OF observed_no_news fold_more fin] Cons.prems(2,3) by simp
  next
    case False
    then show ?thesis using Cons fin by simp
  qed
qed simp

lemma no_news_fold:
  assumes "\<forall>ob \<in> set obs. no_news cd ob c" "finite (gc_packages c)" "\<not> gc_material c"
  shows "\<not> gc_material (fold (observe cd) obs c) \<and> gc_stalled (fold (observe cd) obs c) = gc_stalled c"
  using assms
proof (induction obs arbitrary: c)
  case (Cons ob obs)
  let ?c = "observe cd ob c"
  have "no_news cd ob (observe_write ob c)" using no_news_more Cons.prems(1,2) write_parts(1) by fastforce
  then have "\<not> gc_material ?c \<and> gc_stalled ?c = gc_stalled c"
    using Cons.prems(1,3) write_parts(2,3) [of ob c] evidence_material [of cd ob "observe_write ob c"]
    by (auto simp: observe_def no_news_def)
  moreover have "\<forall>ob \<in> set obs. no_news cd ob ?c"
    using Cons.prems(1,2) no_news_more observe_more by fastforce
  moreover have "finite (gc_packages ?c)" using Cons.prems(2) observe_more by (auto simp: knows_more_def)
  ultimately show ?case using Cons.IH [of ?c] by simp
qed simp

lemma focus_items_keep:
  "knows_more c (fst (focus_items fe tc files revision items c)) \<and>
   gc_stalled (fst (focus_items fe tc files revision items c)) = gc_stalled c \<and>
   gc_material (fst (focus_items fe tc files revision items c)) = gc_material c"
proof (induction items arbitrary: c)
  case (Cons item items)
  have "knows_more c (fst (focus_item fe tc files revision item c)) \<and>
      gc_stalled (fst (focus_item fe tc files revision item c)) = gc_stalled c \<and>
      gc_material (fst (focus_item fe tc files revision item c)) = gc_material c"
    by (simp add: focus_item_def knows_more_def Let_def case_prod_beta split: if_splits option.splits)
  then show ?case using Cons [of "fst (focus_item fe tc files revision item c)"] knows_more_trans
    by (auto simp: Let_def case_prod_beta)
qed simp

text \<open>The focus on the same task and the same source keeps what the controller knows.\<close>

lemma focus_keep:
  assumes "wc_revision wc = gc_task c" "revision = gc_revision c"
  shows "knows_more c (fst (focus fe wc plan files revision build report c)) \<and>
    gc_stalled (fst (focus fe wc plan files revision build report c)) = gc_stalled c \<and>
    gc_material (fst (focus fe wc plan files revision build report c)) = gc_material c"
proof -
  let ?s = "snd (focus_start wc revision c)"
  let ?d = "fst (focus_items fe False files revision (take 32 plan) ?s)"
  have start: "\<not> fst (focus_start wc revision c)" "knows_more c ?s" "gc_stalled ?s = gc_stalled c"
      "gc_material ?s = gc_material c"
    using assms by (auto simp: focus_start_def Let_def knows_more_def)
  then have keep: "knows_more c ?d" "gc_stalled ?d = gc_stalled c" "gc_material ?d = gc_material c"
    using focus_items_keep [of ?s fe False files revision "take 32 plan"] knows_more_trans by auto
  have "\<exists>x y. fst (focus fe wc plan files revision build report c) = ?d\<lparr>gc_active := x, gc_phase := y\<rparr>"
    using start(1) by (auto simp: focus_def Let_def case_prod_beta)
  then show ?thesis using keep by (auto simp: knows_more_def)
qed

section \<open>Runs without news\<close>

text \<open>How many turns without progress a run can still take: five less the ones counted, and one more than none while no
  recovery has started.\<close>

definition stall_left :: "nat \<Rightarrow> stall \<Rightarrow> bool" where
  "stall_left k st \<longleftrightarrow> 0 \<le> fst st \<and> 5 \<le> fst st + int k \<and> (if snd st = None then 2 else 1) \<le> k"

lemma stall_left_five: "0 \<le> fst st \<Longrightarrow> 5 \<le> k \<Longrightarrow> stall_left k st"
  by (simp add: stall_left_def)

lemma stall_left_step:
  assumes "stall_left (Suc k) st" "end_turn turn False st = Some st'"
  shows "stall_left k st'"
  using assms by (cases st) (auto simp: stall_left_def end_turn_def Let_def split: if_splits option.splits)

lemma no_stall_left: "\<not> stall_left 0 st"
  by (simp add: stall_left_def)

definition same_source :: "controller \<Rightarrow> focus_input \<Rightarrow> bool" where
  "same_source c fi \<longleftrightarrow> fi_revision fi = gc_revision c \<and> wc_revision (fi_contract fi) = gc_task c"

lemma loop_focus_keep:
  assumes "same_source c fi"
  shows "knows_more c (loop_focus fe fi c) \<and> gc_stalled (loop_focus fe fi c) = gc_stalled c \<and> gc_material (loop_focus fe fi c) = gc_material c"
  using assms focus_keep [of "fi_contract fi" c "fi_revision fi"] by (simp add: loop_focus_def refocus_def same_source_def)

lemma compact_focus_keep:
  assumes "\<And>fi. head = Some fi \<Longrightarrow> same_source c fi"
  shows "knows_more c (compact_focus fe head c) \<and> gc_stalled (compact_focus fe head c) = gc_stalled c \<and>
    gc_material (compact_focus fe head c) = gc_material c"
  using assms loop_focus_keep by (cases head) (auto simp: compact_focus_def)

text \<open>What a turn reads of the source and the task is what the controller was last focused on; if it calls tools, no build
  has passed when it ends, and it observes nothing new.\<close>

definition repeats :: "codec \<Rightarrow> controller \<Rightarrow> agent_event \<Rightarrow> bool" where
  "repeats cd c e \<longleftrightarrow> (case e of
       Text_turn head \<Rightarrow> \<forall>fi. head = Some fi \<longrightarrow> same_source c fi
     | Tool_turn head ti \<Rightarrow> (\<forall>fi. head = Some fi \<longrightarrow> same_source c fi) \<and> same_source c (ti_focus ti) \<and> \<not> ti_passed ti \<and>
         (\<forall>ob \<in> set (turn_observations ti). no_news cd ob c))"

definition calls_tools :: "agent_event \<Rightarrow> bool" where
  "calls_tools e = (case e of Text_turn _ \<Rightarrow> False | Tool_turn _ _ \<Rightarrow> True)"

definition quiet :: "controller \<Rightarrow> bool" where
  "quiet c \<longleftrightarrow> finite (gc_packages c) \<and> \<not> gc_material c \<and> 0 \<le> gc_stalled c \<and> gc_enabled c"

lemma repeated_turn:
  assumes "repeats cd c e" "quiet c" "as_controller st = c"
  shows "\<exists>c' seen. knows_more c c' \<and> quiet c' \<and>
    agent_turn fe cd turn e st = (if calls_tools e
      then map_option (\<lambda>s. \<lparr>as_controller = c', as_seen = seen, as_stall = s\<rparr>) (end_turn turn False (as_stall st))
      else Some \<lparr>as_controller = c', as_seen = as_seen st, as_stall = as_stall st\<rparr>)"
proof (cases e)
  case (Text_turn head)
  have "knows_more c (compact_focus fe head c) \<and> gc_stalled (compact_focus fe head c) = gc_stalled c \<and>
      gc_material (compact_focus fe head c) = gc_material c"
    by (rule compact_focus_keep) (use assms(1) Text_turn in \<open>simp add: repeats_def\<close>)
  then show ?thesis
    using assms(2,3) Text_turn by (intro exI [of _ "compact_focus fe head c"]) (auto simp: agent_turn_def calls_tools_def quiet_def knows_more_def)
next
  case (Tool_turn head ti)
  define d where "d = compact_focus fe head c"
  define o' where "o' = fold (observe cd) (turn_observations ti) d"
  define s where "s = settle_controller o'"
  have d: "knows_more c d" "gc_stalled d = gc_stalled c" "gc_material d = gc_material c"
    using compact_focus_keep [of head c fe] assms(1) Tool_turn by (auto simp: repeats_def d_def)
  have fin: "finite (gc_packages c)" using assms(2) by (simp add: quiet_def)
  have news: "\<forall>ob \<in> set (turn_observations ti). no_news cd ob d"
    using assms(1) Tool_turn no_news_more [OF _ d(1) fin] by (simp add: repeats_def)
  have o': "\<not> gc_material o'" "gc_stalled o' = gc_stalled c" "knows_more c o'"
  proof -
    have "finite (gc_packages d)" "\<not> gc_material d" using d fin assms(2) by (simp_all add: knows_more_def quiet_def)
    from no_news_fold [OF news this] show "\<not> gc_material o'" "gc_stalled o' = gc_stalled c" by (simp_all add: o'_def d(2))
    show "knows_more c o'" unfolding o'_def by (rule knows_more_trans [OF d(1) fold_more])
  qed
  have s: "0 < gc_stalled s" "\<not> gc_material s" "knows_more c s" "gc_enabled s"
    using o' assms(2) by (auto simp: s_def settle_controller_def knows_more_def quiet_def)
  have src: "same_source s (ti_focus ti)"
    using assms(1) Tool_turn s(3) by (simp add: repeats_def same_source_def knows_more_def)
  let ?c = "loop_focus fe (ti_focus ti) s"
  have c': "knows_more c ?c" "quiet ?c"
    using loop_focus_keep [OF src, of fe] s knows_more_trans [OF s(3)] fin by (auto simp: quiet_def knows_more_def)
  have "\<not> ti_passed ti" using assms(1) Tool_turn by (simp add: repeats_def)
  then have "agent_turn fe cd turn e st = map_option (\<lambda>stall. \<lparr>as_controller = ?c, as_seen = snd (fold (call_progress cd) (ti_calls ti) (False, as_seen st)), as_stall = stall\<rparr>)
      (end_turn turn False (as_stall st))"
    using s(1,4) assms(3) Tool_turn
    by (simp add: agent_turn_def tool_turn_def Let_def case_prod_beta flip: s_def o'_def d_def)
  then show ?thesis using c' Tool_turn by (intro exI [of _ ?c]) (auto simp: calls_tools_def)
qed

lemma repeats_more: "repeats cd c e \<Longrightarrow> knows_more c c' \<Longrightarrow> finite (gc_packages c) \<Longrightarrow> repeats cd c' e"
  using no_news_more by (auto simp: repeats_def knows_more_def same_source_def split: agent_event.splits)

lemma repeated_turns:
  assumes "\<forall>e \<in> set events. repeats cd c e" "quiet c" "as_controller st = c"
    and "stall_left (length (filter calls_tools events)) (as_stall st)"
  shows "agent_turns fe cd turn events st = None"
  using assms
proof (induction events arbitrary: c turn st)
  case (Cons e events)
  obtain c' seen where c': "knows_more c c'" "quiet c'"
    "agent_turn fe cd turn e st = (if calls_tools e
      then map_option (\<lambda>s. \<lparr>as_controller = c', as_seen = seen, as_stall = s\<rparr>) (end_turn turn False (as_stall st))
      else Some \<lparr>as_controller = c', as_seen = as_seen st, as_stall = as_stall st\<rparr>)"
    using repeated_turn [of cd c e st fe turn] Cons.prems by auto
  have rest: "\<forall>e \<in> set events. repeats cd c' e"
    using repeats_more [OF _ c'(1)] Cons.prems(1,2) by (auto simp: quiet_def)
  show ?case
  proof (cases "agent_turn fe cd turn e st")
    case None
    then show ?thesis by simp
  next
    case (Some st')
    have st': "as_controller st' = c'" "stall_left (length (filter calls_tools events)) (as_stall st')"
      using Some c'(3) Cons.prems(4) stall_left_step [of _ "as_stall st" turn "as_stall st'"] by (auto split: if_splits)
    show ?thesis using Some Cons.IH [OF rest c'(2) st', of "turn + 1"] by simp
  qed
qed (simp add: no_stall_left)

text \<open>C21. An agent that only repeats itself is stopped: with the controller enabled, when every later turn reads the same
  source and task, no build has passed at the end of any, and the observations of every later turn were all made before and none
  is a write, the run stops with the fifth of them that calls tools at the latest, whatever the loop itself counts as progress and whatever
  the plan, the files and the reports of these turns are. A turn without tool calls in between counts neither for
  nor against it.\<close>

theorem repeating_agent_stops:
  assumes "as_controller st = settle_controller (fold (observe cd) past c0)" "gc_enabled c0" "finite (gc_packages c0)" "0 \<le> gc_stalled c0"
    and "0 \<le> fst (as_stall st)" "length (filter calls_tools events) = 5"
    and "\<And>head. Text_turn head \<in> set events \<Longrightarrow> \<forall>fi. head = Some fi \<longrightarrow> same_source (as_controller st) fi"
    and "\<And>head ti. Tool_turn head ti \<in> set events \<Longrightarrow> (\<forall>fi. head = Some fi \<longrightarrow> same_source (as_controller st) fi) \<and>
           same_source (as_controller st) (ti_focus ti) \<and> \<not> ti_passed ti \<and>
           set (map snd (ti_calls ti)) \<union> set (ti_host ti) \<subseteq> set past \<and>
           (\<forall>ob \<in> set (map snd (ti_calls ti)) \<union> set (ti_host ti). \<not> is_write ob)"
  shows "agent_turns fe cd turn events st = None"
proof (rule repeated_turns [OF _ _ refl])
  let ?p = "fold (observe cd) past c0" and ?c = "as_controller st"
  have settled: "knows_more ?p ?c" "\<not> gc_material ?c" using assms(1) by (auto simp: settle_controller_def knows_more_def)
  have more: "knows_more c0 ?p" by (rule fold_more)
  then have fin: "finite (gc_packages ?p)" using assms(3) by (simp add: knows_more_def)
  have "0 \<le> gc_stalled ?p"
    using assms(4) by (induction past arbitrary: c0) (auto simp: observe_def write_parts(4))
  then show "quiet ?c"
    using assms(1,2) settled more fin by (auto simp: quiet_def settle_controller_def knows_more_def)
  show "stall_left (length (filter calls_tools events)) (as_stall st)" using assms(5,6) by (simp add: stall_left_five)
  have "no_news cd ob ?c" if "ob \<in> set past" "\<not> is_write ob" for ob
    using no_news_more [OF past_no_news [OF that assms(3)] settled(1) fin] .
  moreover have "set (turn_observations ti) \<subseteq> set (map snd (ti_calls ti)) \<union> set (ti_host ti)" for ti
    by (auto simp: turn_observations_def)
  ultimately have news: "\<forall>ob \<in> set (turn_observations ti). no_news cd ob ?c" if "Tool_turn head ti \<in> set events" for head ti
    using assms(8) [OF that] by blast
  show "\<forall>e \<in> set events. repeats cd ?c e"
  proof
    fix e assume e: "e \<in> set events"
    show "repeats cd ?c e"
    proof (cases e)
      case (Text_turn head)
      then show ?thesis using assms(7) e by (simp add: repeats_def)
    next
      case (Tool_turn head ti)
      then show ?thesis using assms(8) [of head ti] news [of head ti] e by (simp add: repeats_def)
    qed
  qed
qed

definition plain_codec :: codec where
  "plain_codec = \<lparr>sha256 = (\<lambda>s. s), json_text = (\<lambda>v. ''t''), json_spaced = (\<lambda>v. ''t''), json_dict = (\<lambda>d. ''d''),
     py_text = (\<lambda>v. ''v'')\<rparr>"

definition demo_build_seen :: observation where
  "demo_build_seen = \<lparr>ob_tool = ''build_firmware'', ob_status = ''completed'',
     ob_output = VDict [(''workspace_revision'', VStr ''r1''), (''success'', VBool False)], ob_error = VNone\<rparr>"

definition demo_source :: focus_input where
  "demo_source = \<lparr>fi_contract = \<lparr>wc_revision = [], wc_request = ''blink'', wc_requirements = []\<rparr>, fi_plan = [], fi_files = Map.empty,
     fi_revision = [], fi_build = \<lparr>bv_error = None, bv_success = Some False, bv_stale = False, bv_revision = None, bv_linker = []\<rparr>,
     fi_report = \<lparr>rv_revision = None, rv_task = None, rv_checks = [], rv_references_valid = False, rv_reviewed = False\<rparr>\<rparr>"

definition demo_turn :: agent_event where
  "demo_turn = Tool_turn (Some demo_source)
     \<lparr>ti_calls = [(VDict [], demo_build_seen)], ti_host = [], ti_passed = False, ti_focus = demo_source\<rparr>"

definition demo_turns :: "agent_event list" where
  "demo_turns = replicate 2 demo_turn @ [Text_turn None] @ replicate 3 demo_turn"

definition demo_agent :: agent_state where
  "demo_agent = \<lparr>as_controller = settle_controller (fold (observe plain_codec) [demo_build_seen] (fresh_controller True)),
     as_seen = \<lparr>ss_observations = {}, ss_errors = {}\<rparr>, as_stall = (0, None)\<rparr>"

definition demo_focus_env :: focus_env where
  "demo_focus_env = \<lparr>fe_sha = (\<lambda>s. s), fe_artifacts = (\<lambda>s. [])\<rparr>"

theorem repeating_agent_stops_witness:
  "gc_material (fold (observe plain_codec) [demo_build_seen] (fresh_controller True)) \<and>
   agent_turns demo_focus_env plain_codec 2 demo_turns demo_agent = None"
proof -
  have seen: "\<not> is_write demo_build_seen"
    "gc_material (fold (observe plain_codec) [demo_build_seen] (fresh_controller True))"
    by code_simp+
  have same: "gc_revision (as_controller demo_agent) = []" "gc_task (as_controller demo_agent) = []"
    using observe_more [of "fresh_controller True" plain_codec demo_build_seen]
    by (simp_all add: demo_agent_def settle_controller_def knows_more_def fresh_controller_def)
  have "agent_turns demo_focus_env plain_codec 2 demo_turns demo_agent = None"
    by (rule repeating_agent_stops [of _ _ "[demo_build_seen]" "fresh_controller True"])
      (use seen(1) same in \<open>auto simp: demo_agent_def demo_turns_def demo_turn_def demo_source_def same_source_def fresh_controller_def calls_tools_def\<close>)
  then show ?thesis using seen(2) by blast
qed

section \<open>Finished and reopened steps\<close>

lemma put_last_of [simp]: "map_of (put_last k v kvs) = (map_of kvs)(k \<mapsto> v)"
  by (simp add: put_last_def update_conv')

lemma focus_item_other:
  assumes "key \<noteq> item_key fe item"
  shows "map_of (gc_completed (fst (focus_item fe tc files revision item c))) key = map_of (gc_completed c) key"
    "map_of (gc_invalid (fst (focus_item fe tc files revision item c))) key = map_of (gc_invalid c) key"
  using assms
  by (simp_all add: focus_item_def Let_def case_prod_beta delete_conv' split: option.split)

lemma focus_item_fields:
  "pi_key (snd (focus_item fe tc files revision item c)) = Some (item_key fe item)"
  "pi_paths (snd (focus_item fe tc files revision item c)) = pi_paths item"
  "pi_evidence (snd (focus_item fe tc files revision item c)) = pi_evidence item"
  by (simp_all add: focus_item_def Let_def case_prod_beta split: option.split)

text \<open>A step that is still completed has its files, its evidence, and a fresh record.\<close>

lemma focus_item_completed:
  assumes "pi_status (snd (focus_item fe tc files revision item c)) = ''completed''" "pi_paths item \<noteq> []"
  shows "pi_evidence item \<noteq> [] \<and> all_present (current_files files (pi_paths item)) \<and>
    map_of (gc_completed (fst (focus_item fe tc files revision item c))) (item_key fe item) =
      Some (current_files files (pi_paths item), revision) \<and>
    map_of (gc_invalid (fst (focus_item fe tc files revision item c))) (item_key fe item) = None"
  using assms by (auto simp: focus_item_def Let_def case_prod_beta delete_conv' split: option.splits if_splits)

lemma focus_items_other:
  "key \<notin> item_key fe ` set items \<Longrightarrow>
     map_of (gc_completed (fst (focus_items fe tc files revision items c))) key = map_of (gc_completed c) key \<and>
     map_of (gc_invalid (fst (focus_items fe tc files revision items c))) key = map_of (gc_invalid c) key"
  by (induction items arbitrary: c) (auto simp: Let_def case_prod_beta focus_item_other)

lemma focus_items_completed:
  assumes "distinct (map (item_key fe) items)" "s \<in> set (snd (focus_items fe tc files revision items c))"
    and "pi_status s = ''completed''" "pi_paths s \<noteq> []"
  shows "pi_evidence s \<noteq> [] \<and> all_present (current_files files (pi_paths s)) \<and>
    map_of (gc_completed (fst (focus_items fe tc files revision items c))) (the (pi_key s)) =
      Some (current_files files (pi_paths s), revision) \<and>
    map_of (gc_invalid (fst (focus_items fe tc files revision items c))) (the (pi_key s)) = None"
  using assms
proof (induction items arbitrary: c)
  case (Cons item items)
  show ?case
  proof (cases "s = snd (focus_item fe tc files revision item c)")
    case True
    then have "item_key fe item \<notin> item_key fe ` set items" using Cons.prems(1) by auto
    then show ?thesis
      using focus_item_completed [of fe tc files revision item c] focus_items_other focus_item_fields Cons.prems(3,4) True
      by (simp add: Let_def case_prod_beta)
  next
    case False
    then show ?thesis using Cons by (auto simp: Let_def case_prod_beta)
  qed
qed simp

lemma ready_depends:
  assumes "active_step steps = Some s"
  shows "s \<in> set steps \<and> set (pi_depends s) \<subseteq> done_keys steps"
proof -
  have "s \<in> set (ready_steps steps)"
    using assms by (auto simp: active_step_def find_Some_iff split: option.splits list.splits)
  then show ?thesis by (simp add: ready_steps_def)
qed

text \<open>The step whose completion no longer describes its files, and the steps reopened before.\<close>

lemma focus_item_stale:
  assumes "map_of (gc_completed c) (item_key fe item) = Some (fs, old_rev)"
    and "set fs \<noteq> set (current_files files (pi_paths item))"
  shows "pi_status (snd (focus_item fe tc files revision item c)) = ''pending''"
    "map_of (gc_invalid (fst (focus_item fe tc files revision item c))) (item_key fe item) = Some (pi_evidence item)"
  using assms by (simp_all add: focus_item_def Let_def case_prod_beta evidence_stale_def)

lemma focus_item_open:
  assumes "map_of (gc_invalid c) key = Some ids" "item_key fe item = key \<longrightarrow> pi_evidence item = ids"
  shows "map_of (gc_invalid (fst (focus_item fe tc files revision item c))) key = Some ids"
    "item_key fe item = key \<Longrightarrow> pi_status (snd (focus_item fe tc files revision item c)) = ''pending''"
proof -
  have same: "map_of (gc_invalid (fst (focus_item fe tc files revision item c))) key = Some ids \<and>
      pi_status (snd (focus_item fe tc files revision item c)) = ''pending''" if "item_key fe item = key"
    using assms that by (simp add: focus_item_def Let_def case_prod_beta)
  then show "map_of (gc_invalid (fst (focus_item fe tc files revision item c))) key = Some ids"
    using assms(1) focus_item_other(2) [of key fe item] by (cases "item_key fe item = key") auto
  show "item_key fe item = key \<Longrightarrow> pi_status (snd (focus_item fe tc files revision item c)) = ''pending''"
    using same by blast
qed

lemma focus_items_open:
  assumes "map_of (gc_invalid c) key = Some ids"
    and "\<forall>r \<in> set items. item_key fe r = key \<longrightarrow> pi_evidence r = ids"
  shows "map_of (gc_invalid (fst (focus_items fe tc files revision items c))) key = Some ids \<and>
    (\<forall>r \<in> set (snd (focus_items fe tc files revision items c)). pi_key r = Some key \<longrightarrow> pi_status r = ''pending'')"
  using assms
proof (induction items arbitrary: c)
  case (Cons item items)
  let ?c = "fst (focus_item fe tc files revision item c)"
  have "map_of (gc_invalid ?c) key = Some ids" using focus_item_open(1) Cons.prems by auto
  then show ?case
    using Cons.IH [of ?c] Cons.prems focus_item_open(2) [OF Cons.prems(1), of fe item tc files revision]
      focus_item_fields(1) [of fe tc files revision item c]
    by (auto simp: Let_def case_prod_beta)
qed simp

lemma focus_items_stale:
  assumes "map_of (gc_completed c) key = Some (fs, old_rev)" "distinct (map (item_key fe) items)" "s \<in> set items"
    and "item_key fe s = key" "set fs \<noteq> set (current_files files (pi_paths s))"
  shows "map_of (gc_invalid (fst (focus_items fe tc files revision items c))) key = Some (pi_evidence s) \<and>
    (\<forall>r \<in> set (snd (focus_items fe tc files revision items c)). pi_key r = Some key \<longrightarrow> pi_status r = ''pending'')"
  using assms
proof (induction items arbitrary: c)
  case (Cons item items)
  let ?c = "fst (focus_item fe tc files revision item c)"
  show ?case
  proof (cases "item = s")
    case True
    have rest: "\<forall>r \<in> set items. item_key fe r = key \<longrightarrow> pi_evidence r = pi_evidence s"
      using Cons.prems(2,4) True by (metis distinct.simps(2) image_eqI list.set_map list.simps(9))
    have "map_of (gc_completed c) (item_key fe item) = Some (fs, old_rev)" using Cons.prems(1,4) True by simp
    from focus_item_stale [OF this, of files tc revision] Cons.prems(4,5) True
    show ?thesis using focus_items_open [OF _ rest, of ?c tc files revision] by (simp add: Let_def case_prod_beta)
  next
    case False
    then have in_rest: "s \<in> set items" using Cons.prems(3) by simp
    then have "key \<noteq> item_key fe item" using Cons.prems(2,4) by (metis distinct.simps(2) image_eqI list.set_map list.simps(9))
    then show ?thesis
      using Cons.IH [of ?c] Cons.prems(1,2,4,5) in_rest focus_item_other(1) focus_item_fields(1) [of fe tc files revision item c]
      by (auto simp: Let_def case_prod_beta)
  qed
qed simp

fun focus_run :: "focus_env \<Rightarrow> focus_input list \<Rightarrow> controller \<Rightarrow> plan_item list list" where
  "focus_run fe [] c = []"
| "focus_run fe (ti # tis) c =
     (let (c', steps, work) = refocus fe ti c in steps # focus_run fe tis c')"

text \<open>What \<open>focus\<close> takes from the start and the steps.\<close>

lemma focus_parts:
  "fst (snd (focus fe wc plan files revision build report c)) =
     snd (focus_items fe (fst (focus_start wc revision c)) files revision (take 32 plan) (snd (focus_start wc revision c)))"
  "gc_invalid (fst (focus fe wc plan files revision build report c)) = gc_invalid
     (fst (focus_items fe (fst (focus_start wc revision c)) files revision (take 32 plan) (snd (focus_start wc revision c))))"
  "gc_completed (fst (focus fe wc plan files revision build report c)) = gc_completed
     (fst (focus_items fe (fst (focus_start wc revision c)) files revision (take 32 plan) (snd (focus_start wc revision c))))"
  "plan \<noteq> [] \<Longrightarrow> wf_active (snd (snd (focus fe wc plan files revision build report c))) =
     active_step (fst (snd (focus fe wc plan files revision build report c)))"
  by (auto simp: focus_def Let_def case_prod_beta) (cases plan; simp add: Let_def case_prod_beta)

lemma focus_start_parts [simp]:
  "gc_invalid (snd (focus_start wc revision c)) = gc_invalid c"
  "gc_completed (snd (focus_start wc revision c)) = (if fst (focus_start wc revision c) then [] else gc_completed c)"
  by (simp_all add: focus_start_def Let_def)

text \<open>A change of the task reopens every step of the plan.\<close>

lemma focus_items_changed:
  assumes "s \<in> set items" "distinct (map (item_key fe) items)"
  shows "map_of (gc_invalid (fst (focus_items fe True files revision items c))) (item_key fe s) = Some (pi_evidence s) \<and>
    (\<forall>r \<in> set (snd (focus_items fe True files revision items c)). pi_status r = ''pending'')"
  using assms
proof (induction items arbitrary: c)
  case (Cons item items)
  let ?c = "fst (focus_item fe True files revision item c)"
  have item: "map_of (gc_invalid ?c) (item_key fe item) = Some (pi_evidence item)"
      "pi_status (snd (focus_item fe True files revision item c)) = ''pending''"
    by (simp_all add: focus_item_def Let_def case_prod_beta)
  have all: "\<forall>r \<in> set (snd (focus_items fe True files revision items d)). pi_status r = ''pending''" for d
    by (induction items arbitrary: d) (auto simp: focus_item_def Let_def case_prod_beta)
  show ?case
  proof (cases "s = item")
    case True
    then have "item_key fe s \<notin> item_key fe ` set items" using Cons.prems(2) by simp
    then show ?thesis using focus_items_other item all True by (simp add: Let_def case_prod_beta)
  next
    case False
    then show ?thesis using Cons item(2) all by (auto simp: Let_def case_prod_beta)
  qed
qed simp

lemma focus_stale:
  assumes "map_of (gc_completed c) key = Some (fs, old_rev)" "distinct (map (item_key fe) (take 32 (fi_plan ti)))"
    and "s \<in> set (take 32 (fi_plan ti))" "item_key fe s = key"
    and "set fs \<noteq> set (current_files (fi_files ti) (pi_paths s))"
  shows "map_of (gc_invalid (fst (refocus fe ti c))) key = Some (pi_evidence s) \<and>
    (\<forall>r \<in> set (fst (snd (refocus fe ti c))). pi_key r = Some key \<longrightarrow> pi_status r = ''pending'')"
proof (cases "fst (focus_start (fi_contract ti) (fi_revision ti) c)")
  case True
  then show ?thesis
    using focus_items_changed [OF assms(3,2), of "fi_files ti" "fi_revision ti"] assms(4)
    by (simp add: refocus_def focus_parts)
next
  case False
  then have "map_of (gc_completed (snd (focus_start (fi_contract ti) (fi_revision ti) c))) key = Some (fs, old_rev)"
    using assms(1) by simp
  from focus_items_stale [OF this assms(2-5)] show ?thesis by (simp add: refocus_def focus_parts)
qed

lemma focus_open:
  assumes "map_of (gc_invalid c) key = Some ids"
    and "\<forall>r \<in> set (take 32 (fi_plan ti)). item_key fe r = key \<longrightarrow> pi_evidence r = ids"
  shows "map_of (gc_invalid (fst (refocus fe ti c))) key = Some ids \<and>
    (\<forall>r \<in> set (fst (snd (refocus fe ti c))). pi_key r = Some key \<longrightarrow> pi_status r = ''pending'')"
  using focus_items_open [of "snd (focus_start (fi_contract ti) (fi_revision ti) c)", OF _ assms(2)] assms(1)
  by (simp add: refocus_def focus_parts)

text \<open>C22. A finished step whose files change is reopened, and it stays open in every later focus, whatever else happens
  to the task, the files and the plan, until the step is given other evidence.\<close>

theorem edited_step_stays_open:
  assumes "map_of (gc_completed c) key = Some (fs, old_rev)" "distinct (map (item_key fe) (take 32 (fi_plan ti)))"
    and "s \<in> set (take 32 (fi_plan ti))" "item_key fe s = key"
    and "set fs \<noteq> set (current_files (fi_files ti) (pi_paths s))"
    and "\<forall>tj \<in> set later. \<forall>r \<in> set (take 32 (fi_plan tj)). item_key fe r = key \<longrightarrow> pi_evidence r = pi_evidence s"
  shows "\<forall>steps \<in> set (focus_run fe (ti # later) c). \<forall>r \<in> set steps. pi_key r = Some key \<longrightarrow> pi_status r = ''pending''"
proof -
  have rest: "\<forall>steps \<in> set (focus_run fe later d). \<forall>r \<in> set steps. pi_key r = Some key \<longrightarrow> pi_status r = ''pending''"
    if "map_of (gc_invalid d) key = Some (pi_evidence s)" for d
    using that assms(6)
  proof (induction later arbitrary: d)
    case (Cons tj later)
    then show ?case using focus_open [of d key "pi_evidence s" tj fe] by (auto simp: case_prod_beta)
  qed simp
  show ?thesis using focus_stale [OF assms(1-5)] rest by (auto simp: case_prod_beta)
qed

definition demo_step :: plan_item where
  "demo_step = \<lparr>pi_key = Some ''k'', pi_id = None, pi_text = ''blink'', pi_status = ''completed'', pi_verification = None,
     pi_paths = [''src/main.cpp''], pi_requirements = [], pi_depends = [], pi_evidence = [''e1'']\<rparr>"

definition demo_focus :: "string \<Rightarrow> plan_item list \<Rightarrow> focus_input" where
  "demo_focus hash plan = demo_source\<lparr>fi_plan := plan, fi_files := [''src/main.cpp'' \<mapsto> hash], fi_revision := hash\<rparr>"

definition demo_finished :: controller where
  "demo_finished = fst (refocus demo_focus_env (demo_focus ''h1'' [demo_step]) (fresh_controller True))"

lemma demo_finished_step:
  "map_of (gc_completed demo_finished) ''k'' = Some ([(''src/main.cpp'', Some ''h1'')], ''h1'')"
  by code_simp

lemmas demo_focus_simps = demo_focus_def demo_source_def demo_step_def item_key_def py_true_opt_def demo_focus_env_def
  current_files_def

theorem edited_step_stays_open_witness:
  "\<exists>c. map_of (gc_completed c) ''k'' = Some ([(''src/main.cpp'', Some ''h1'')], ''h1'') \<and>
     (\<forall>steps \<in> set (focus_run demo_focus_env (demo_focus ''h2'' [demo_step] # [demo_focus ''h1'' [demo_step]]) c).
        \<forall>r \<in> set steps. pi_key r = Some ''k'' \<longrightarrow> pi_status r = ''pending'')"
proof -
  have "\<forall>steps \<in> set (focus_run demo_focus_env (demo_focus ''h2'' [demo_step] # [demo_focus ''h1'' [demo_step]]) demo_finished).
      \<forall>r \<in> set steps. pi_key r = Some ''k'' \<longrightarrow> pi_status r = ''pending''"
    by (rule edited_step_stays_open [OF demo_finished_step, where s = demo_step]) (simp_all add: demo_focus_simps)
  then show ?thesis using demo_finished_step by blast
qed

text \<open>C23. Work is scheduled on current results only: in the steps of a focus, a step that counts as completed and names
  files has evidence, all of its files exist, it is recorded with exactly these files at the current revision, and it is
  not among the reopened steps; and the step that is worked on next depends on completed steps only.\<close>

theorem finished_steps_current:
  assumes "focus fe wc plan files revision build report c = (c', steps, work)"
    and "distinct (map (item_key fe) (take 32 plan))"
  shows "(\<forall>s \<in> set steps. pi_status s = ''completed'' \<and> pi_paths s \<noteq> [] \<longrightarrow>
       pi_evidence s \<noteq> [] \<and> (\<forall>p \<in> set (pi_paths s). py_true_opt (files p)) \<and>
       map_of (gc_completed c') (the (pi_key s)) = Some (current_files files (pi_paths s), revision) \<and>
       map_of (gc_invalid c') (the (pi_key s)) = None) \<and>
    (\<forall>s. plan \<noteq> [] \<and> wf_active work = Some s \<longrightarrow> s \<in> set steps \<and> set (pi_depends s) \<subseteq> done_keys steps)"
proof (intro conjI ballI allI impI)
  note parts = focus_parts [where fe = fe and wc = wc and plan = plan and files = files and revision = revision and build = build
      and report = report and c = c, unfolded assms(1) fst_conv snd_conv]
  fix s
  assume s: "s \<in> set steps" "pi_status s = ''completed'' \<and> pi_paths s \<noteq> []"
  note finished = focus_items_completed [OF assms(2) s(1)[unfolded parts(1)], folded parts(2,3)]
  show "pi_evidence s \<noteq> []"
    "map_of (gc_completed c') (the (pi_key s)) = Some (current_files files (pi_paths s), revision)"
    "map_of (gc_invalid c') (the (pi_key s)) = None" using finished s(2) by auto
  fix p assume "p \<in> set (pi_paths s)"
  then show "py_true_opt (files p)" using finished s(2) by (auto simp: all_present_def current_files_def)
next
  note parts = focus_parts [where fe = fe and wc = wc and plan = plan and files = files and revision = revision and build = build
      and report = report and c = c, unfolded assms(1) fst_conv snd_conv]
  fix s
  assume "plan \<noteq> [] \<and> wf_active work = Some s"
  then show "s \<in> set steps" "set (pi_depends s) \<subseteq> done_keys steps" using parts(4) ready_depends by auto
qed

theorem finished_steps_current_witness:
  "\<exists>c steps work. focus demo_focus_env (fi_contract demo_source) [demo_step] [''src/main.cpp'' \<mapsto> ''h1''] ''h1''
       (fi_build demo_source) (fi_report demo_source) (fresh_controller True) = (c, steps, work) \<and>
     (\<exists>s \<in> set steps. pi_status s = ''completed'' \<and> map_of (gc_completed c) ''k'' = Some ([(''src/main.cpp'', Some ''h1'')], ''h1''))"
proof -
  let ?f = "focus demo_focus_env (fi_contract demo_source) [demo_step] [''src/main.cpp'' \<mapsto> ''h1''] ''h1''
       (fi_build demo_source) (fi_report demo_source) (fresh_controller True)"
  obtain c steps work where f: "?f = (c, steps, work)" by (rule prod_cases3)
  have "fst (snd ?f) = [demo_step]" by code_simp
  then have steps: "steps = [demo_step]" using f by simp
  from finished_steps_current [OF f] steps show ?thesis
    using f by (auto simp: demo_focus_simps)
qed

section \<open>Checkpoints\<close>

text \<open>A checkpoint of the controller is faithful: what a restored controller saves is what was saved, and a
  controller within the limits of a checkpoint is restored whole, except for the marks of the current turn.\<close>

theorem checkpoint_roundtrip:
  assumes "0 \<le> gc_stalled c" "gc_stalled c \<le> 5" "finite (gc_dirty c)" "finite (gc_verified c)" "finite (gc_packages c)"
  shows "\<exists>d. restore_controller True True (gc_enabled c) (Some (snapshot_controller c)) = Inr d \<and>
    snapshot_controller d = snapshot_controller c \<and>
    (card (gc_dirty c) \<le> 128 \<and> card (gc_verified c) \<le> 128 \<and> card (gc_packages c) \<le> 32 \<and>
     length (gc_completed c) \<le> 32 \<and> length (gc_invalid c) \<le> 32 \<longrightarrow>
       d = c\<lparr>gc_material := False, gc_phase := None, gc_reopened := {}\<rparr>)"
proof -
  have short: "sorted_list_of_set (set (take n (sorted_list_of_set A))) = take n (sorted_list_of_set A)"
      "sorted_list_of_set (set (last_items n (sorted_list_of_set A))) = last_items n (sorted_list_of_set A)"
    for n and A :: "string set"
    by (simp_all add: last_items_def sorted_list_of_set.idem_if_sorted_distinct sorted_wrt_take sorted_wrt_drop)
  have twice: "last_items n (last_items n xs) = last_items n xs" "take n (take n xs) = take n xs" for n and xs :: "'b list"
    by (simp_all add: last_items_def)
  have whole: "length xs \<le> n \<Longrightarrow> last_items n xs = xs" for n and xs :: "'b list" by (simp add: last_items_def)
  let ?d = "\<lparr>gc_enabled = gc_enabled c, gc_stalled = gc_stalled c, gc_dirty = set (sv_dirty (snapshot_controller c)),
      gc_verified = set (sv_verified (snapshot_controller c)), gc_packages = set (sv_packages (snapshot_controller c)),
      gc_revision = gc_revision c, gc_task = gc_task c, gc_completed = last_items 32 (gc_completed c),
      gc_invalid = last_items 32 (gc_invalid c), gc_active = gc_active c, gc_last_build = gc_last_build c,
      gc_failed = gc_failed c, gc_material = False, gc_phase = None, gc_reopened = {}\<rparr>"
  have "restore_controller True True (gc_enabled c) (Some (snapshot_controller c)) = Inr ?d"
    using assms(1,2) by (simp add: restore_controller_def state_supported_def snapshot_controller_def)
  moreover have "snapshot_controller ?d = snapshot_controller c"
    by (simp add: snapshot_controller_def short twice)
  moreover have "?d = c\<lparr>gc_material := False, gc_phase := None, gc_reopened := {}\<rparr>"
    if "card (gc_dirty c) \<le> 128" "card (gc_verified c) \<le> 128" "card (gc_packages c) \<le> 32"
      "length (gc_completed c) \<le> 32" "length (gc_invalid c) \<le> 32"
    using that assms(3-5) by (cases c) (simp add: snapshot_controller_def whole)
  ultimately show ?thesis by blast
qed

theorem checkpoint_roundtrip_witness:
  "\<exists>d. restore_controller True True True (Some (snapshot_controller demo_finished)) = Inr d \<and>
     gc_completed d = [(''k'', ([(''src/main.cpp'', Some ''h1'')], ''h1''))] \<and> gc_phase d = None"
proof -
  have c: "gc_stalled demo_finished = 0" "gc_dirty demo_finished = {}" "gc_verified demo_finished = {}"
      "gc_packages demo_finished = {}" "gc_completed demo_finished = [(''k'', ([(''src/main.cpp'', Some ''h1'')], ''h1''))]"
      "gc_invalid demo_finished = []" "gc_enabled demo_finished"
    by code_simp+
  with checkpoint_roundtrip [of demo_finished] show ?thesis by (auto simp: c)
qed

end
