(* ===== verification/Retry.thy ===== *)
theory Retry
  imports Prelude
begin

text \<open>
  The provider retry policy, \<^verbatim>\<open>backend/model_router/retry.py\<close>: the reset hint read from the
  details of a provider failure, bounded exponential backoff, and the decision whether one
  failed attempt is retried at once, left to durable recovery, or given up.

  The parsers of the Python standard library that the hint uses (\<^verbatim>\<open>float\<close> of a text,
  \<^verbatim>\<open>parsedate_to_datetime\<close>) and the regular expression \<^verbatim>\<open>_TRANSIENT\<close> are arguments.
\<close>

section \<open>Provider failures\<close>

datatype exn_class =
    LLMError_cls
  | LLMConfigurationError_cls
  | LLMTimeoutError_cls
  | LLMAuthenticationError_cls
  | LLMRateLimitError_cls
  | LLMProviderError_cls
  | LLMResponseError_cls
  | Other_exception_cls

record exn =
  exn_cls :: exn_class
  exn_message :: string
  exn_code :: string
  exn_status :: "int option"
  exn_retryable :: bool
  exn_details :: "(string \<times> pyval) list"

definition is_llm_error :: "exn \<Rightarrow> bool" where
  "is_llm_error e = (exn_cls e \<noteq> Other_exception_cls)"

definition detail :: "exn \<Rightarrow> string \<Rightarrow> pyval" where
  "detail e k = py_get (dict_of (exn_details e)) k"

definition RETRY_MAX_RETRIES :: int where
  "RETRY_MAX_RETRIES = 5"

definition RETRY_MAX_DELAY :: int where
  "RETRY_MAX_DELAY = 2147483647"

section \<open>The reset hint of a failure\<close>

record hint_env =
  parse_float :: "string \<Rightarrow> pyfloat option"
  parse_date :: "string \<Rightarrow> rat option"
  utc_seconds :: rat

text \<open>The merged, lower-cased view of the headers and the details; details win.\<close>

definition hint_details :: "(string \<times> pyval) list \<Rightarrow> string \<rightharpoonup> pyval" where
  "hint_details details =
     (let d = dict_of details;
          first = py_get d ''response_headers'';
          second = py_get d ''responseHeaders'';
          headers = (if py_true first then first else if py_true second then second else VDict []);
          low = (\<lambda>kvs. dict_of (map (\<lambda>(k, v). (py_lower k, v)) kvs))
      in (case headers of VDict kvs \<Rightarrow> low kvs | _ \<Rightarrow> Map.empty)
         ++ low (filter (\<lambda>(k, v). v \<noteq> VNone) details))"

text \<open>\<^verbatim>\<open>float(value)\<close>: \<^const>\<open>None\<close> where it raises.\<close>

definition py_float :: "hint_env \<Rightarrow> pyval \<Rightarrow> pyfloat option" where
  "py_float env v = (case v of VInt n \<Rightarrow> Some (Fin (of_int n))
     | VBool b \<Rightarrow> Some (Fin (if b then 1 else 0))
     | VFloat q \<Rightarrow> Some q
     | VStr s \<Rightarrow> parse_float env s
     | _ \<Rightarrow> None)"

definition finite_nonneg :: "pyfloat \<Rightarrow> rat option" where
  "finite_nonneg q = (case q of Fin r \<Rightarrow> if 0 \<le> r then Some r else None | _ \<Rightarrow> None)"

definition capped_ceil :: "rat \<Rightarrow> int" where
  "capped_ceil q = min RETRY_MAX_DELAY \<lceil>q\<rceil>"

definition hint_ms_key :: "hint_env \<Rightarrow> pyval \<Rightarrow> int option" where
  "hint_ms_key env v =
     (case v of VBool _ \<Rightarrow> None
      | _ \<Rightarrow> map_option capped_ceil (Option.bind (py_float env v) finite_nonneg))"

definition hint_seconds_key :: "hint_env \<Rightarrow> pyval \<Rightarrow> int option" where
  "hint_seconds_key env v =
     (case v of
        VInt n \<Rightarrow> if 0 \<le> n then Some (capped_ceil (of_int n * 1000)) else None
      | VFloat q \<Rightarrow> map_option (\<lambda>r. capped_ceil (r * 1000)) (finite_nonneg q)
      | VStr s \<Rightarrow>
          (let text = py_strip s in
           if text = [] then None
           else case parse_float env text of
               Some q \<Rightarrow> map_option (\<lambda>r. capped_ceil (r * 1000)) (finite_nonneg q)
             | None \<Rightarrow>
                 (case parse_date env text of
                    None \<Rightarrow> None
                  | Some when \<Rightarrow>
                      (let delay = py_int ((when - utc_seconds env) * 1000)
                       in if 0 < delay then Some (min RETRY_MAX_DELAY delay) else None)))
      | _ \<Rightarrow> None)"

fun first_some :: "('a \<Rightarrow> 'b option) \<Rightarrow> 'a list \<Rightarrow> 'b option" where
  "first_some f [] = None"
| "first_some f (x # xs) = (case f x of Some y \<Rightarrow> Some y | None \<Rightarrow> first_some f xs)"

definition retry_after_ms_from_details :: "hint_env \<Rightarrow> (string \<times> pyval) list \<Rightarrow> int option" where
  "retry_after_ms_from_details env details =
     (if details = [] then None
      else let d = hint_details details in
        (case first_some (\<lambda>k. hint_ms_key env (py_get d k)) [''retry_after_ms'', ''retry-after-ms''] of
           Some ms \<Rightarrow> Some ms
         | None \<Rightarrow> first_some (\<lambda>k. hint_seconds_key env (py_get d k))
                     [''retry_after'', ''retry-after'', ''Retry-After'']))"

section \<open>Backoff\<close>

definition unit_rat :: "rat \<Rightarrow> rat" where
  "unit_rat q = max 0 (min q 1)"

definition exponential_backoff_ms :: "int \<Rightarrow> int \<Rightarrow> int \<Rightarrow> rat \<Rightarrow> rat \<Rightarrow> int" where
  "exponential_backoff_ms attempt base_delay_ms max_delay_ms jitter_ratio random_value =
     (let exponent = min 30 (max 0 (attempt - 1));
          bounded = max 0 base_delay_ms * 2 ^ nat exponent;
          ratio = unit_rat jitter_ratio;
          sample = unit_rat random_value;
          multiplier = 1 + ratio * sample
      in max 0 (min max_delay_ms \<lceil>of_int bounded * multiplier\<rceil>))"

definition transient_retry_delay_ms :: "hint_env \<Rightarrow> exn \<Rightarrow> int \<Rightarrow> rat \<Rightarrow> int" where
  "transient_retry_delay_ms env e attempt sample =
     (case retry_after_ms_from_details env (exn_details e) of
        Some ms \<Rightarrow> ms
      | None \<Rightarrow> exponential_backoff_ms attempt 2000
          (if detail e ''response_headers'' \<noteq> VNone then RETRY_MAX_DELAY else 30000)
          (1 / 4) sample)"

section \<open>The decision\<close>

record retry_decision =
  rd_retry :: bool
  rd_delay_ms :: int
  rd_reason :: string

record retry_policy =
  rp_max_attempts :: int
  rp_max_delay_ms :: int

definition make_policy :: "int \<Rightarrow> int \<Rightarrow> retry_policy" where
  "make_policy max_attempts max_rate_limit_delay_ms =
     \<lparr>rp_max_attempts = max 1 max_attempts, rp_max_delay_ms = max 0 max_rate_limit_delay_ms\<rparr>"

definition default_policy :: retry_policy where
  "default_policy = make_policy (RETRY_MAX_RETRIES + 1) 30000"

definition no_retry :: "string \<Rightarrow> retry_decision" where
  "no_retry reason = \<lparr>rd_retry = False, rd_delay_ms = 0, rd_reason = reason\<rparr>"

definition permanent_categories :: "string set" where
  "permanent_categories = {''configuration'', ''authentication'', ''quota_exceeded'',
     ''context_overflow'', ''content_policy'', ''cancelled''}"

definition local_origins :: "string set" where
  "local_origins = {''provider_circuit'', ''provider_admission'', ''run_budget'', ''verification_reserve''}"

definition permanent_codes :: "string set" where
  "permanent_codes = {''CONTEXT_OVERFLOW'', ''MODEL_CAPABILITY_MISMATCH'',
     ''PROVIDER_REQUEST_ATTEMPTS_EXHAUSTED'', ''AGENT_BUDGET_EXCEEDED'', ''MODEL_OUTPUT_EMPTY'',
     ''TOOL_ARGUMENTS_INVALID''}"

definition decide :: "retry_policy \<Rightarrow> hint_env \<Rightarrow> (string \<Rightarrow> bool) \<Rightarrow> exn \<Rightarrow> int \<Rightarrow> rat \<Rightarrow> retry_decision" where
  "decide p env transient_re e attempt sample =
     (if rp_max_attempts p \<le> attempt then no_retry ''attempt_limit''
      else if exn_cls e \<in> {LLMConfigurationError_cls, LLMAuthenticationError_cls}
        then no_retry ''not_retryable''
      else if py_str_in (detail e ''category'') permanent_categories
          \<or> exn_status e = Some 401 \<or> exn_status e = Some 403
        then no_retry ''not_retryable''
      else if py_str_in (detail e ''origin'') local_origins then no_retry ''not_retryable''
      else if exn_code e \<in> permanent_codes then no_retry ''not_retryable''
      else if is_llm_error e \<and>
          (exn_cls e \<in> {LLMTimeoutError_cls, LLMRateLimitError_cls} \<or> exn_retryable e
           \<or> (case exn_status e of Some s \<Rightarrow> 500 \<le> s | None \<Rightarrow> False)
           \<or> transient_re (exn_message e))
        then (let delay = transient_retry_delay_ms env e attempt sample in
              if rp_max_delay_ms p < delay
              then \<lparr>rd_retry = False, rd_delay_ms = delay, rd_reason = ''durable_wait''\<rparr>
              else \<lparr>rd_retry = True, rd_delay_ms = delay, rd_reason = ''same_model_retry''\<rparr>)
      else no_retry ''not_retryable'')"

text \<open>
  The driver's view: attempts are numbered from one, and after each failed attempt the policy
  is asked again. The number of attempts made for a stream of failures.
\<close>

fun attempts_made ::
  "retry_policy \<Rightarrow> hint_env \<Rightarrow> (string \<Rightarrow> bool) \<Rightarrow> (exn \<times> rat) list \<Rightarrow> int \<Rightarrow> int" where
  "attempts_made p env re [] attempt = attempt"
| "attempts_made p env re ((e, sample) # rest) attempt =
     (if rd_retry (decide p env re e attempt sample)
      then attempts_made p env re rest (attempt + 1) else attempt)"


section \<open>Properties of the hint\<close>

lemma first_some_all:
  "(\<And>x y. f x = Some y \<Longrightarrow> P y) \<Longrightarrow> first_some f xs = Some y \<Longrightarrow> P y"
  by (induction xs) (auto split: option.splits)

lemma capped_ceil_le [simp]: "capped_ceil q \<le> RETRY_MAX_DELAY"
  by (simp add: capped_ceil_def)

lemma capped_ceil_ge [simp]: "0 \<le> q \<Longrightarrow> 0 \<le> capped_ceil q"
  by (simp add: capped_ceil_def RETRY_MAX_DELAY_def)

lemma finite_nonneg_ge: "finite_nonneg q = Some r \<Longrightarrow> 0 \<le> r"
  by (auto simp: finite_nonneg_def split: pyfloat.splits if_splits)

lemma RETRY_MAX_DELAY_ge [simp]: "0 \<le> RETRY_MAX_DELAY"
  by (simp add: RETRY_MAX_DELAY_def)

lemma hint_ms_key_bounds:
  "hint_ms_key env v = Some ms \<Longrightarrow> 0 \<le> ms \<and> ms \<le> RETRY_MAX_DELAY"
  by (auto simp: hint_ms_key_def bind_eq_Some_conv dest!: finite_nonneg_ge
      split: pyval.splits)

lemma capped_hint_bounds:
  "map_option (\<lambda>r. capped_ceil (r * 1000)) (finite_nonneg q) = Some ms
     \<Longrightarrow> 0 \<le> ms \<and> ms \<le> RETRY_MAX_DELAY"
  by (auto dest!: finite_nonneg_ge)

lemma hint_seconds_key_bounds:
  assumes "hint_seconds_key env v = Some ms"
  shows "0 \<le> ms \<and> ms \<le> RETRY_MAX_DELAY"
proof (cases v)
  case (VInt n)
  then show ?thesis using assms by (auto simp: hint_seconds_key_def split: if_splits)
next
  case (VFloat q)
  then show ?thesis using assms capped_hint_bounds by (simp add: hint_seconds_key_def)
next
  case (VStr s)
  show ?thesis
  proof (cases "parse_float env (py_strip s)")
    case None
    then show ?thesis using assms VStr
      by (auto simp: hint_seconds_key_def Let_def split: if_splits option.splits)
  next
    case (Some q)
    then show ?thesis using assms VStr capped_hint_bounds
      by (simp add: hint_seconds_key_def Let_def split: if_splits)
  qed
qed (use assms in \<open>simp_all add: hint_seconds_key_def\<close>)

lemma retry_after_bounds:
  assumes "retry_after_ms_from_details env details = Some ms"
  shows "0 \<le> ms \<and> ms \<le> RETRY_MAX_DELAY"
proof -
  let ?d = "hint_details details"
  have "first_some (\<lambda>k. hint_ms_key env (py_get ?d k)) [''retry_after_ms'', ''retry-after-ms''] = Some ms
      \<or> first_some (\<lambda>k. hint_seconds_key env (py_get ?d k))
          [''retry_after'', ''retry-after'', ''Retry-After''] = Some ms"
    using assms unfolding retry_after_ms_from_details_def Let_def
    by (simp only: split: if_splits option.splits) auto
  then show ?thesis
    by (elim disjE first_some_all[rotated]) (auto dest: hint_ms_key_bounds hint_seconds_key_bounds)
qed

section \<open>Properties of the backoff\<close>

lemma unit_rat_bounds: "0 \<le> unit_rat q" "unit_rat q \<le> 1"
  by (simp_all add: unit_rat_def)

lemma backoff_multiplier_bounds:
  "1 \<le> 1 + unit_rat r * unit_rat s" "1 + unit_rat r * unit_rat s \<le> 2"
  using unit_rat_bounds[of r] unit_rat_bounds[of s] mult_le_one[of "unit_rat r" "unit_rat s"]
  by simp_all

lemma exponential_backoff_bounds:
  "0 \<le> exponential_backoff_ms a b m r s"
  "0 \<le> m \<Longrightarrow> exponential_backoff_ms a b m r s \<le> m"
  by (simp_all add: exponential_backoff_ms_def Let_def)

lemma exponential_backoff_mono:
  assumes "a \<le> a'"
  shows "exponential_backoff_ms a b m r s \<le> exponential_backoff_ms a' b m r s"
proof -
  let ?e = "\<lambda>a. nat (min 30 (max 0 (a - 1)))"
  let ?mul = "1 + unit_rat r * unit_rat s"
  have "(2::int) ^ ?e a \<le> 2 ^ ?e a'"
    using assms by (intro power_increasing) auto
  then have "max 0 b * 2 ^ ?e a \<le> max 0 b * (2::int) ^ ?e a'"
    by (intro mult_left_mono) auto
  then have "(of_int (max 0 b * 2 ^ ?e a) :: rat) \<le> of_int (max 0 b * 2 ^ ?e a')"
    by (simp only: of_int_le_iff)
  then have "(of_int (max 0 b * 2 ^ ?e a) :: rat) * ?mul \<le> of_int (max 0 b * 2 ^ ?e a') * ?mul"
    using backoff_multiplier_bounds(1)[of r s] by (intro mult_right_mono) linarith+
  then have "\<lceil>(of_int (max 0 b * 2 ^ ?e a) :: rat) * ?mul\<rceil> \<le> \<lceil>of_int (max 0 b * 2 ^ ?e a') * ?mul\<rceil>"
    by (rule ceiling_mono)
  then show ?thesis
    by (simp only: exponential_backoff_ms_def Let_def) (meson max.mono min.mono order_refl)
qed

section \<open>Properties of the decision\<close>

lemma no_retry_simps [simp]:
  "rd_retry (no_retry r) = False" "rd_delay_ms (no_retry r) = 0" "rd_reason (no_retry r) = r"
  by (simp_all add: no_retry_def)

lemma transient_delay_nonneg: "0 \<le> transient_retry_delay_ms env e a s"
  by (auto simp: transient_retry_delay_ms_def exponential_backoff_bounds dest: retry_after_bounds
      split: option.splits)

lemma decide_retry_iff:
  "rd_retry (decide p env re e a s) \<longleftrightarrow>
     a < rp_max_attempts p \<and> is_llm_error e
     \<and> exn_cls e \<notin> {LLMConfigurationError_cls, LLMAuthenticationError_cls}
     \<and> \<not> py_str_in (detail e ''category'') permanent_categories
     \<and> exn_status e \<notin> {Some 401, Some 403}
     \<and> \<not> py_str_in (detail e ''origin'') local_origins \<and> exn_code e \<notin> permanent_codes
     \<and> (exn_cls e \<in> {LLMTimeoutError_cls, LLMRateLimitError_cls} \<or> exn_retryable e
        \<or> (\<exists>st. exn_status e = Some st \<and> 500 \<le> st) \<or> re (exn_message e))
     \<and> transient_retry_delay_ms env e a s \<le> rp_max_delay_ms p"
  by (simp add: decide_def Let_def if_distrib[of rd_retry] not_le cong: if_cong split: option.split)

lemma decide_retry_lt: "rd_retry (decide p env re e a s) \<Longrightarrow> a < rp_max_attempts p"
  by (simp add: decide_retry_iff)

lemma decide_delay:
  "decide p env re e a s \<in> {no_retry ''attempt_limit'', no_retry ''not_retryable''}
   \<or> rd_delay_ms (decide p env re e a s) = transient_retry_delay_ms env e a s
     \<and> (rd_retry (decide p env re e a s) \<longleftrightarrow> transient_retry_delay_ms env e a s \<le> rp_max_delay_ms p)
     \<and> rd_reason (decide p env re e a s) =
         (if rd_retry (decide p env re e a s) then ''same_model_retry'' else ''durable_wait'')"
  unfolding decide_def Let_def by simp

lemma attempts_made_le:
  "attempt \<le> rp_max_attempts p \<Longrightarrow> attempts_made p env re fs attempt \<le> rp_max_attempts p"
proof (induction fs arbitrary: attempt)
  case (Cons x fs)
  obtain e s where x: "x = (e, s)" by (cases x)
  show ?case
  proof (cases "rd_retry (decide p env re e attempt s)")
    case True
    then show ?thesis using Cons.IH[of "attempt + 1"] decide_retry_lt[OF True] x by simp
  qed (use Cons.prems x in simp)
qed simp

lemma attempts_made_all:
  assumes "\<forall>(e, s) \<in> set fs. \<forall>a < rp_max_attempts p. rd_retry (decide p env re e a s)"
    and "attempt \<le> rp_max_attempts p" "rp_max_attempts p \<le> attempt + int (length fs)"
  shows "attempts_made p env re fs attempt = rp_max_attempts p"
  using assms
proof (induction fs arbitrary: attempt)
  case (Cons x fs)
  obtain e s where x: "x = (e, s)" by (cases x)
  show ?case
  proof (cases "attempt < rp_max_attempts p")
    case True
    then have "rd_retry (decide p env re e attempt s)"
      using Cons.prems(1) x by simp
    then show ?thesis using Cons.IH[of "attempt + 1"] Cons.prems True x by simp
  next
    case False
    then have "\<not> rd_retry (decide p env re e attempt s)"
      using decide_retry_lt by blast
    then show ?thesis using Cons.prems(2) False x by simp
  qed
qed simp

section \<open>The properties\<close>

text \<open>A policy makes at most \<^verbatim>\<open>max(1, max_attempts)\<close> attempts whatever failures it meets, and it
  makes exactly that many when every failure before the last attempt is one it retries.\<close>
theorem retry_attempts_bounded:
  "attempts_made (make_policy m d) env re fs 1 \<le> max 1 m
   \<and> ((\<forall>(e, s) \<in> set fs. \<forall>a < max 1 m. rd_retry (decide (make_policy m d) env re e a s))
       \<and> max 1 m \<le> 1 + int (length fs)
      \<longrightarrow> attempts_made (make_policy m d) env re fs 1 = max 1 m)"
  using attempts_made_le[of 1 "make_policy m d"] attempts_made_all[of fs "make_policy m d" env re 1]
  by (simp add: make_policy_def)

definition demo_hint_env :: hint_env where
  "demo_hint_env = \<lparr>parse_float = (\<lambda>_. None), parse_date = (\<lambda>_. None), utc_seconds = 0\<rparr>"

definition demo_rate_limit :: exn where
  "demo_rate_limit = \<lparr>exn_cls = LLMRateLimitError_cls, exn_message = ''busy'', exn_code = ''API_RATE_LIMITED'',
     exn_status = Some 429, exn_retryable = False, exn_details = [(''retry_after_ms'', VInt 1500)]\<rparr>"

lemma demo_rate_limit_hint:
  "retry_after_ms_from_details demo_hint_env (exn_details demo_rate_limit) = Some 1500"
  by code_simp

lemma demo_rate_limit_retried:
  "a < 2 \<Longrightarrow> rd_retry (decide (make_policy 2 30000) demo_hint_env (\<lambda>_. False) demo_rate_limit a s)"
  by (simp add: decide_retry_iff transient_retry_delay_ms_def demo_rate_limit_hint make_policy_def)
     (simp add: demo_rate_limit_def is_llm_error_def detail_def dict_of_def py_get_def py_str_in_def
       permanent_codes_def)

lemma retry_attempts_bounded_witness:
  "attempts_made (make_policy 2 30000) demo_hint_env (\<lambda>_. False)
     [(demo_rate_limit, 0), (demo_rate_limit, 0)] 1 = 2"
  using retry_attempts_bounded[of 2 30000 demo_hint_env "\<lambda>_. False"
      "[(demo_rate_limit, 0), (demo_rate_limit, 0)]"]
  by (simp add: demo_rate_limit_retried)

text \<open>A retried attempt waits for the provider's reset hint, never less; a hint longer than the
  policy's bound is not retried in place but reported for a durable wait of exactly that length;
  without a hint the wait is the bounded backoff of the attempt. No decision ever has a
  negative delay.\<close>
theorem retry_delay_honours_hint:
  fixes p env re e a s
  defines "d \<equiv> decide p env re e a s"
    and "hint \<equiv> retry_after_ms_from_details env (exn_details e)"
  shows "0 \<le> rd_delay_ms d
   \<and> (rd_retry d \<longrightarrow> rd_delay_ms d \<le> rp_max_delay_ms p
        \<and> rd_delay_ms d = (case hint of Some ms \<Rightarrow> ms
            | None \<Rightarrow> exponential_backoff_ms a 2000
                (if detail e ''response_headers'' \<noteq> VNone then RETRY_MAX_DELAY else 30000) (1 / 4) s))
   \<and> (rd_reason d = ''durable_wait'' \<longrightarrow> \<not> rd_retry d \<and> rp_max_delay_ms p < rd_delay_ms d
        \<and> (\<forall>ms. hint = Some ms \<longrightarrow> rd_delay_ms d = ms))"
  using transient_delay_nonneg[of env e a s] decide_delay[of p env re e a s]
  unfolding d_def hint_def by (auto simp: transient_retry_delay_ms_def split: option.split)

lemma retry_delay_honours_hint_witness:
  "rd_delay_ms (decide (make_policy 2 30000) demo_hint_env (\<lambda>_. False) demo_rate_limit 1 0) = 1500"
  using retry_delay_honours_hint[of "make_policy 2 30000" demo_hint_env "\<lambda>_. False" demo_rate_limit 1 0]
  by (simp add: demo_rate_limit_retried demo_rate_limit_hint)

text \<open>The backoff of a failed attempt lies between the doubled base delay and twice that, up to
  the cap: it never decreases from one attempt to the next, and it is never above the cap.\<close>
theorem backoff_bounded_and_monotone:
  fixes b m a r s
  assumes "0 \<le> b" "0 \<le> m"
  defines "ideal \<equiv> b * 2 ^ nat (min 30 (max 0 (a - 1)))"
  shows "min m ideal \<le> exponential_backoff_ms a b m r s
    \<and> exponential_backoff_ms a b m r s \<le> min m (2 * ideal)
    \<and> exponential_backoff_ms a b m r s \<le> exponential_backoff_ms (a + 1) b m r s"
proof -
  let ?mul = "1 + unit_rat r * unit_rat s"
  have i: "0 \<le> ideal" using assms by simp
  have "of_int ideal * 1 \<le> of_int ideal * ?mul" "of_int ideal * ?mul \<le> of_int ideal * 2"
    using backoff_multiplier_bounds[of r s] i by (intro mult_left_mono; simp)+
  then have "ideal \<le> \<lceil>of_int ideal * ?mul\<rceil>" "\<lceil>of_int ideal * ?mul\<rceil> \<le> 2 * ideal"
    by (simp_all add: le_ceiling_iff ceiling_le_iff mult.commute)
  moreover have "exponential_backoff_ms a b m r s = max 0 (min m \<lceil>of_int ideal * ?mul\<rceil>)"
    using assms by (simp add: exponential_backoff_ms_def Let_def)
  moreover have "exponential_backoff_ms a b m r s \<le> exponential_backoff_ms (a + 1) b m r s"
    by (rule exponential_backoff_mono) simp
  ultimately show ?thesis using i assms by linarith
qed

lemma backoff_bounded_and_monotone_witness:
  "8000 \<le> exponential_backoff_ms 3 2000 30000 (1/4) 1
   \<and> exponential_backoff_ms 3 2000 30000 (1/4) 1 \<le> 16000"
  using backoff_bounded_and_monotone[of 2000 30000 3 "1/4" 1] by simp

end
