(* ===== verification/Circuit.thy ===== *)
theory Circuit
  imports Retry
begin

text \<open>
  The provider circuit breaker, \<^verbatim>\<open>backend/model_router/circuit.py\<close>: a table of endpoint
  health shared by every desktop process. An endpoint that fails repeatedly is cooled down;
  after the cooldown exactly one caller at a time may probe it. The step relation at the end
  interleaves any number of callers between admission and settlement.
\<close>

section \<open>State\<close>

record health_row =
  h_failures :: int
  h_open_until :: rat
  h_probe_id :: "string option"
  h_probe_until :: rat

type_synonym endpoint_health = "string \<rightharpoonup> health_row"

record breaker =
  failure_threshold :: int

definition make_breaker :: "int \<Rightarrow> breaker" where
  "make_breaker threshold = \<lparr>failure_threshold = max 2 threshold\<rparr>"

datatype circuit_state = Circuit_open | Circuit_half_open | Circuit_closed

record health_view =
  hv_state :: circuit_state
  hv_failures :: int
  hv_retry_after_ms :: int
  hv_probe_active :: bool

datatype circuit_error = Provider_unavailable int

section \<open>Operations\<close>

definition health :: "breaker \<Rightarrow> endpoint_health \<Rightarrow> string \<Rightarrow> rat \<Rightarrow> health_view" where
  "health cb t identity now =
     (let row = (case t identity of Some r \<Rightarrow> r
                 | None \<Rightarrow> \<lparr>h_failures = 0, h_open_until = 0, h_probe_id = None, h_probe_until = 0\<rparr>);
          probe = py_true_opt (h_probe_id row);
          due = max (h_open_until row) (if probe then h_probe_until row else 0)
      in \<lparr>hv_state = (if now < h_open_until row then Circuit_open
                      else if failure_threshold cb \<le> h_failures row then Circuit_half_open
                      else Circuit_closed),
          hv_failures = h_failures row,
          hv_retry_after_ms = (if now < due then max 0 (py_int ((due - now) * 1000) + 1) else 0),
          hv_probe_active = (probe \<and> now < h_probe_until row)\<rparr>)"

definition require_available :: "breaker \<Rightarrow> endpoint_health \<Rightarrow> string \<Rightarrow> rat \<Rightarrow> circuit_error + unit" where
  "require_available cb t identity now =
     (let ms = hv_retry_after_ms (health cb t identity now)
      in if ms \<noteq> 0 then Inl (Provider_unavailable ms) else Inr ())"

text \<open>\<open>fresh\<close> is the \<^verbatim>\<open>uuid4().hex\<close> that the code draws for a probe.\<close>

definition admit :: "breaker \<Rightarrow> endpoint_health \<Rightarrow> string \<Rightarrow> rat \<Rightarrow> string
    \<Rightarrow> circuit_error + (string option \<times> endpoint_health)" where
  "admit cb t identity now fresh =
     (case t identity of
        None \<Rightarrow> Inr (None, t)
      | Some row \<Rightarrow>
          if now < h_open_until row \<or> now < h_probe_until row
          then Inl (Provider_unavailable
                 (max 1 (py_int ((max (h_open_until row) (h_probe_until row) - now) * 1000) + 1)))
          else if failure_threshold cb \<le> h_failures row
          then Inr (Some fresh,
                 t(identity \<mapsto> row\<lparr>h_probe_id := Some fresh, h_probe_until := now + 350\<rparr>))
          else Inr (None, t))"

datatype settlement = Settle_success | Settle_cancelled | Settle_failure "int option"

text \<open>The cooldown after a failure: doubled up to two minutes, jittered, never below the hint.\<close>

definition hint_seconds_of :: "int option \<Rightarrow> rat" where
  "hint_seconds_of hint = (case hint of Some ms \<Rightarrow> max 0 (of_int ms / 1000) | None \<Rightarrow> 0)"

definition failure_count :: "breaker \<Rightarrow> health_row option \<Rightarrow> rat \<Rightarrow> int" where
  "failure_count cb row hint_seconds =
     (let failures = min 16 ((case row of Some r \<Rightarrow> h_failures r | None \<Rightarrow> 0) + 1)
      in if hint_seconds \<noteq> 0 then max (failure_threshold cb) failures else failures)"

definition cooldown :: "breaker \<Rightarrow> int \<Rightarrow> rat \<Rightarrow> rat \<Rightarrow> rat" where
  "cooldown cb failures hint_seconds jitter =
     (if failure_threshold cb \<le> failures
      then max (min 120 (30 * 2 ^ nat (min (failures - failure_threshold cb) 2)) * jitter) hint_seconds
      else 0)"

definition stale_settlement :: "health_row option \<Rightarrow> string option \<Rightarrow> rat \<Rightarrow> bool" where
  "stale_settlement row probe now =
     ((py_true_opt probe \<and> (case row of None \<Rightarrow> True | Some r \<Rightarrow> h_probe_id r \<noteq> probe))
      \<or> (case row of None \<Rightarrow> False
         | Some r \<Rightarrow> (py_true_opt (h_probe_id r) \<and> h_probe_id r \<noteq> probe)
                     \<or> (probe = None \<and> now < h_open_until r)))"

definition settle :: "breaker \<Rightarrow> endpoint_health \<Rightarrow> string \<Rightarrow> string option \<Rightarrow> settlement
    \<Rightarrow> rat \<Rightarrow> rat \<Rightarrow> endpoint_health" where
  "settle cb t identity probe how now jitter =
     (if stale_settlement (t identity) probe now then t
      else case how of
        Settle_cancelled \<Rightarrow>
          (if py_true_opt probe
           then (case t identity of
                   Some r \<Rightarrow> if h_probe_id r = probe
                             then t(identity \<mapsto> r\<lparr>h_probe_id := None, h_probe_until := 0\<rparr>) else t
                 | None \<Rightarrow> t)
           else t)
      | Settle_success \<Rightarrow> t(identity := None)
      | Settle_failure hint \<Rightarrow>
          (let hint_seconds = hint_seconds_of hint;
               failures = failure_count cb (t identity) hint_seconds;
               delay = cooldown cb failures hint_seconds jitter
           in t(identity \<mapsto> \<lparr>h_failures = failures,
                              h_open_until = (if delay \<noteq> 0 then now + delay else 0),
                              h_probe_id = None, h_probe_until = 0\<rparr>)))"

section \<open>The slot around a provider call\<close>

datatype body_outcome = Body_ok | Body_cancelled | Body_generator_exit | Body_raised exn

definition transient_codes :: "string set" where
  "transient_codes = {''PROVIDER_UNAVAILABLE'', ''PROVIDER_TIMEOUT'', ''API_NETWORK_ERROR'',
     ''PROVIDER_CONNECTION_ERROR''}"

definition transient_statuses :: "int set" where
  "transient_statuses = {429, 500, 502, 503, 504, 524}"

definition is_transient :: "exn \<Rightarrow> bool" where
  "is_transient e =
     (is_llm_error e
      \<and> ((case exn_status e of Some s \<Rightarrow> s \<in> transient_statuses | None \<Rightarrow> False)
         \<or> exn_code e \<in> transient_codes)
      \<and> \<not> (py_str_in (detail e ''timeout_stage'') {''attempt_total'', ''turn_deadline''}
           \<and> py_true (detail e ''stream_event_count'')))"

definition slot_settlement :: "hint_env \<Rightarrow> body_outcome \<Rightarrow> settlement" where
  "slot_settlement env outcome =
     (case outcome of
        Body_ok \<Rightarrow> Settle_success
      | Body_cancelled \<Rightarrow> Settle_cancelled
      | Body_generator_exit \<Rightarrow> Settle_cancelled
      | Body_raised e \<Rightarrow> if is_transient e
          then Settle_failure (retry_after_ms_from_details env (exn_details e)) else Settle_success)"

text \<open>
  The exit of the slot: the outcome is settled and a transient failure that leaves the circuit
  open is re-raised with the cooldown added to its details. The code reads a retry hint that is
  absent or false as zero.
\<close>

definition details_retry_after :: "exn \<Rightarrow> int" where
  "details_retry_after e = (case detail e ''retry_after_ms'' of VInt n \<Rightarrow> n | _ \<Rightarrow> 0)"

definition slot_exit :: "breaker \<Rightarrow> hint_env \<Rightarrow> endpoint_health \<Rightarrow> string \<Rightarrow> string option
    \<Rightarrow> body_outcome \<Rightarrow> rat \<Rightarrow> rat \<Rightarrow> rat \<Rightarrow> endpoint_health \<times> body_outcome" where
  "slot_exit cb env t identity probe outcome now jitter now' =
     (let t' = settle cb t identity probe (slot_settlement env outcome) now jitter
      in case outcome of
           Body_raised e \<Rightarrow>
             (let ms = hv_retry_after_ms (health cb t' identity now')
              in if is_transient e \<and> ms \<noteq> 0
                 then (t', Body_raised (e\<lparr>exn_details := exn_details e @
                        [(''circuit_open'', VBool True),
                         (''retry_after_ms'', VInt (max ms (details_retry_after e)))]\<rparr>))
                 else (t', outcome))
         | _ \<Rightarrow> (t', outcome))"

section \<open>Interleaved callers\<close>

text \<open>
  A caller holds an admission from \<^verbatim>\<open>_admit\<close> until \<^verbatim>\<open>_settle\<close>: its probe (if it was given one)
  and the moment of admission. Time only moves forward and probe identifiers are never reused.
\<close>

record breaker_sys =
  bs_table :: endpoint_health
  bs_now :: rat
  bs_probes :: "(string \<times> string \<times> rat) list" \<comment> \<open>identity, probe, expiry; newest first\<close>
  bs_used :: "string set"

inductive breaker_step :: "breaker \<Rightarrow> breaker_sys \<Rightarrow> breaker_sys \<Rightarrow> bool" for cb where
  Tick: "bs_now s \<le> now' \<Longrightarrow> breaker_step cb s (s\<lparr>bs_now := now'\<rparr>)"
| Admit_probe: "admit cb (bs_table s) i (bs_now s) p = Inr (Some p, t') \<Longrightarrow> p \<notin> bs_used s \<Longrightarrow> p \<noteq> [] \<Longrightarrow>
    breaker_step cb s (s\<lparr>bs_table := t', bs_probes := (i, p, bs_now s + 350) # bs_probes s,
                         bs_used := insert p (bs_used s)\<rparr>)"
| Admit_plain: "admit cb (bs_table s) i (bs_now s) p = Inr (None, t') \<Longrightarrow>
    breaker_step cb s (s\<lparr>bs_table := t'\<rparr>)"
| Settle_probe: "(i, p, e) \<in> set (bs_probes s) \<Longrightarrow>
    breaker_step cb s (s\<lparr>bs_table := settle cb (bs_table s) i (Some p) how (bs_now s) jitter,
                         bs_probes := filter (\<lambda>(i', p', e'). p' \<noteq> p) (bs_probes s)\<rparr>)"
| Settle_plain:
    "breaker_step cb s (s\<lparr>bs_table := settle cb (bs_table s) i None how (bs_now s) jitter\<rparr>)"

inductive breaker_reachable :: "breaker \<Rightarrow> breaker_sys \<Rightarrow> bool" for cb where
  Start: "0 \<le> t0 \<Longrightarrow> breaker_reachable cb \<lparr>bs_table = Map.empty, bs_now = t0, bs_probes = [], bs_used = {}\<rparr>"
| Step: "breaker_reachable cb s \<Longrightarrow> breaker_step cb s s' \<Longrightarrow> breaker_reachable cb s'"

text \<open>
  The probes of one endpoint that are outstanding and not expired.
\<close>

definition live_probes :: "breaker_sys \<Rightarrow> string \<Rightarrow> string list" where
  "live_probes s i = map (\<lambda>(_, p, _). p) (filter (\<lambda>(i', p, e). i' = i \<and> bs_now s < e) (bs_probes s))"

text \<open>
  What every operation keeps: a row that carries a probe expiry carries the probe's identifier
  and no cooldown that runs beyond it was started before it; identifiers are non-empty.
\<close>

definition row_wf :: "health_row \<Rightarrow> bool" where
  "row_wf r \<longleftrightarrow> h_probe_id r \<noteq> Some [] \<and> (h_probe_id r = None \<longrightarrow> h_probe_until r = 0)"

definition breaker_inv :: "breaker_sys \<Rightarrow> bool" where
  "breaker_inv s \<longleftrightarrow> 0 \<le> bs_now s \<and>
     (\<forall>i r. bs_table s i = Some r \<longrightarrow> row_wf r)
     \<and> (\<forall>(i, p, e) \<in> set (bs_probes s). p \<in> bs_used s \<and> p \<noteq> []
          \<and> (bs_now s < e \<longrightarrow>
               (\<exists>r. bs_table s i = Some r \<and> h_probe_id r = Some p \<and> h_probe_until r = e)))
     \<and> distinct (map (\<lambda>(_, p, _). p) (bs_probes s))"


section \<open>Admission agrees with the published health\<close>

lemma admit_cases:
  "admit cb t i now p = Inr (q, t') \<Longrightarrow>
     (q = None \<and> t' = t)
     \<or> (\<exists>r. t i = Some r \<and> h_open_until r \<le> now \<and> h_probe_until r \<le> now
          \<and> failure_threshold cb \<le> h_failures r \<and> q = Some p
          \<and> t' = t(i \<mapsto> r\<lparr>h_probe_id := Some p, h_probe_until := now + 350\<rparr>))"
  by (auto simp: admit_def not_less split: option.splits if_splits)

lemma admit_refused_iff:
  "admit cb t i now p = Inl e \<longleftrightarrow>
     (\<exists>r. t i = Some r \<and> (now < h_open_until r \<or> now < h_probe_until r)
        \<and> e = Provider_unavailable
            (max 1 (py_int ((max (h_open_until r) (h_probe_until r) - now) * 1000) + 1)))"
  by (auto simp: admit_def split: option.splits if_splits)

lemma refusal_delay_pos:
  assumes "now < due"
  shows "max 0 (py_int ((due - now) * 1000) + 1) = max 1 (py_int ((due - now) * 1000) + 1)"
    and "0 < py_int ((due - now) * 1000) + 1"
proof -
  have "0 \<le> py_int ((due - now) * 1000)"
    using assms by (intro py_int_nonneg) simp
  then show "max 0 (py_int ((due - now) * 1000) + 1) = max 1 (py_int ((due - now) * 1000) + 1)"
    and "0 < py_int ((due - now) * 1000) + 1" by simp_all
qed

lemma row_due:
  assumes "row_wf r" "0 \<le> now"
  shows "now < max (h_open_until r) (if py_true_opt (h_probe_id r) then h_probe_until r else 0)
           \<longleftrightarrow> now < h_open_until r \<or> now < h_probe_until r"
    and "now < h_open_until r \<or> now < h_probe_until r \<Longrightarrow>
         max (h_open_until r) (if py_true_opt (h_probe_id r) then h_probe_until r else 0)
           = max (h_open_until r) (h_probe_until r)"
  using assms by (auto simp: row_wf_def py_true_opt_def max_def split: option.splits if_splits)

lemma require_available_unknown: "t i = None \<Longrightarrow> 0 \<le> now \<Longrightarrow> require_available cb t i now = Inr ()"
  by (simp add: require_available_def health_def Let_def py_true_opt_def)

lemma require_available_row:
  assumes "t i = Some r" "row_wf r" "0 \<le> now"
  shows "require_available cb t i now =
    (if now < h_open_until r \<or> now < h_probe_until r
     then Inl (Provider_unavailable
            (max 1 (py_int ((max (h_open_until r) (h_probe_until r) - now) * 1000) + 1)))
     else Inr ())"
proof (cases "now < h_open_until r \<or> now < h_probe_until r")
  case True
  let ?due = "max (h_open_until r) (h_probe_until r)"
  from True have due: "now < ?due" by auto
  have "hv_retry_after_ms (health cb t i now) = max 0 (py_int ((?due - now) * 1000) + 1)"
    using assms(1) due row_due(2)[OF assms(2,3) True] by (simp add: health_def Let_def)
  with refusal_delay_pos[OF due] True show ?thesis
    by (simp add: require_available_def Let_def)
next
  case False
  then show ?thesis
    using assms(1) row_due(1)[OF assms(2,3)] by (simp add: require_available_def health_def Let_def)
qed

lemma require_available_iff_admit:
  assumes "\<forall>r. t i = Some r \<longrightarrow> row_wf r" "0 \<le> now"
  shows "require_available cb t i now = Inl e \<longleftrightarrow> admit cb t i now p = Inl e"
proof (cases "t i")
  case None
  then show ?thesis using assms(2) by (simp add: require_available_unknown admit_def)
next
  case (Some r)
  then show ?thesis
    using assms require_available_row[of t i r now cb] by (auto simp: admit_refused_iff)
qed

section \<open>Settlement\<close>

lemma settle_other [simp]: "i \<noteq> j \<Longrightarrow> settle cb t i q how now jit j = t j"
  by (auto simp: settle_def Let_def split: settlement.splits option.splits)

lemma settle_stale_probe:
  "p \<noteq> [] \<Longrightarrow> (\<forall>r. t i = Some r \<longrightarrow> h_probe_id r \<noteq> Some p) \<Longrightarrow> settle cb t i (Some p) how now jit = t"
  by (auto simp: settle_def stale_settlement_def py_true_opt_def split: option.splits)

lemma settle_plain_probed:
  "t i = Some r \<Longrightarrow> h_probe_id r = Some p \<Longrightarrow> p \<noteq> [] \<Longrightarrow> settle cb t i None how now jit = t"
  by (simp add: settle_def stale_settlement_def py_true_opt_def)

lemma settle_plain_open:
  "t i = Some r \<Longrightarrow> now < h_open_until r \<Longrightarrow> settle cb t i None how now jit = t"
  by (simp add: settle_def stale_settlement_def)

lemma settle_row_wf:
  "\<forall>j r. t j = Some r \<longrightarrow> row_wf r \<Longrightarrow> settle cb t i q how now jit j = Some r \<Longrightarrow> row_wf r"
  by (cases "i = j")
    (auto simp: settle_def Let_def row_wf_def split: settlement.splits option.splits if_splits)

lemma cooldown_bounds:
  assumes "1 \<le> jit" "jit \<le> 5 / 4" "failure_threshold cb \<le> f"
  shows "30 \<le> cooldown cb f h jit" and "0 \<le> h \<Longrightarrow> h \<le> cooldown cb f h jit"
    and "cooldown cb f h jit \<le> max 150 h"
proof -
  let ?base = "min 120 (30 * 2 ^ nat (min (f - failure_threshold cb) 2)) :: rat"
  have "(1::rat) \<le> 2 ^ n" for n :: nat by simp
  then have base: "30 \<le> ?base" "?base \<le> 120" by simp_all
  have "30 * 1 \<le> ?base * jit" "?base * jit \<le> 120 * (5 / 4)"
    using base assms(1,2) by (intro mult_mono; simp)+
  then have "30 \<le> ?base * jit" "?base * jit \<le> 150" by simp_all
  then show "30 \<le> cooldown cb f h jit" "cooldown cb f h jit \<le> max 150 h"
    using assms(3) unfolding cooldown_def by (simp_all only: if_True le_max_iff_disj max.bounded_iff) auto
  show "0 \<le> h \<Longrightarrow> h \<le> cooldown cb f h jit"
    using assms(3) by (simp add: cooldown_def)
qed

section \<open>One probe at a time\<close>

lemma admit_row_wf:
  assumes "admit cb t i now p = Inr (q, t')" "\<forall>j r. t j = Some r \<longrightarrow> row_wf r" "p \<noteq> []"
  shows "\<forall>j r. t' j = Some r \<longrightarrow> row_wf r"
  using admit_cases[OF assms(1)] assms(2,3) by (auto simp: row_wf_def split: if_splits)

lemma breaker_invI_step:
  assumes "breaker_inv s" "breaker_step cb s s'"
  shows "breaker_inv s'"
  using assms(2)
proof cases
  case (Tick now')
  with assms(1) show ?thesis by (auto simp: breaker_inv_def dest!: bspec)
next
  case (Admit_probe i p t')
  from admit_cases[OF Admit_probe(2)] obtain r where r: "bs_table s i = Some r"
    "h_open_until r \<le> bs_now s" "h_probe_until r \<le> bs_now s"
    "t' = (bs_table s)(i \<mapsto> r\<lparr>h_probe_id := Some p, h_probe_until := bs_now s + 350\<rparr>)" by auto
  have wf: "\<forall>j r. t' j = Some r \<longrightarrow> row_wf r"
    using admit_row_wf[OF Admit_probe(2)] assms(1) Admit_probe(4) by (simp add: breaker_inv_def)
  have old: "i' \<noteq> i" if "(i', p', e) \<in> set (bs_probes s)" "bs_now s < e" for i' p' e
    using that assms(1) r(1,3) by (fastforce simp: breaker_inv_def)
  show ?thesis
    unfolding breaker_inv_def Admit_probe(1)
  proof (intro conjI)
    show "distinct (map (\<lambda>(_, p, _). p) (bs_probes (s\<lparr>bs_table := t',
        bs_probes := (i, p, bs_now s + 350) # bs_probes s, bs_used := insert p (bs_used s)\<rparr>)))"
      using assms(1) Admit_probe(3) by (force simp: breaker_inv_def)
  next
    show "\<forall>(i', p', e)\<in>set (bs_probes (s\<lparr>bs_table := t', bs_probes := (i, p, bs_now s + 350) # bs_probes s,
            bs_used := insert p (bs_used s)\<rparr>)).
        p' \<in> bs_used (s\<lparr>bs_table := t', bs_probes := (i, p, bs_now s + 350) # bs_probes s,
            bs_used := insert p (bs_used s)\<rparr>) \<and> p' \<noteq> []
        \<and> (bs_now (s\<lparr>bs_table := t', bs_probes := (i, p, bs_now s + 350) # bs_probes s,
            bs_used := insert p (bs_used s)\<rparr>) < e \<longrightarrow>
          (\<exists>r. bs_table (s\<lparr>bs_table := t', bs_probes := (i, p, bs_now s + 350) # bs_probes s,
            bs_used := insert p (bs_used s)\<rparr>) i' = Some r \<and> h_probe_id r = Some p' \<and> h_probe_until r = e))"
      using assms(1) Admit_probe(4) old by (fastforce simp: breaker_inv_def r(4))
  qed (use assms(1) wf in \<open>simp_all add: breaker_inv_def\<close>)
next
  case (Admit_plain i p t')
  then have "t' = bs_table s" using admit_cases by fastforce
  with Admit_plain assms(1) show ?thesis by (simp add: breaker_inv_def)
next
  case (Settle_probe i p e how jitter)
  let ?t = "settle cb (bs_table s) i (Some p) how (bs_now s) jitter"
  have keep: "?t i' = bs_table s i'"
    if "(i', p', e') \<in> set (bs_probes s)" "p' \<noteq> p" "bs_now s < e'" for i' p' e'
  proof (cases "i' = i")
    case True
    from that assms(1) obtain r where "bs_table s i' = Some r" "h_probe_id r = Some p'"
      by (fastforce simp: breaker_inv_def)
    moreover have "p \<noteq> []" using Settle_probe(2) assms(1) by (fastforce simp: breaker_inv_def)
    ultimately show ?thesis using True that(2) by (subst settle_stale_probe) auto
  qed simp
  show ?thesis
    using assms(1) settle_row_wf[of "bs_table s"] keep
    unfolding breaker_inv_def Settle_probe(1)
    by (auto simp: distinct_map_filter)
next
  case (Settle_plain i how jitter)
  let ?t = "settle cb (bs_table s) i None how (bs_now s) jitter"
  have keep: "?t i' = bs_table s i'"
    if "(i', p', e') \<in> set (bs_probes s)" "bs_now s < e'" for i' p' e'
  proof (cases "i' = i")
    case True
    from that assms(1) obtain r where "bs_table s i' = Some r" "h_probe_id r = Some p'" "p' \<noteq> []"
      by (fastforce simp: breaker_inv_def)
    then show ?thesis using True by (simp add: settle_plain_probed)
  qed simp
  show ?thesis
    using assms(1) settle_row_wf[of "bs_table s"] keep
    unfolding breaker_inv_def Settle_plain(1) by fastforce
qed

lemma breaker_reachable_inv: "breaker_reachable cb s \<Longrightarrow> breaker_inv s"
  by (induction rule: breaker_reachable.induct) (simp add: breaker_inv_def, rule breaker_invI_step)

lemma live_probes_row:
  assumes "breaker_inv s" "p \<in> set (live_probes s i)"
  shows "\<exists>r. bs_table s i = Some r \<and> h_probe_id r = Some p \<and> bs_now s < h_probe_until r"
  using assms by (fastforce simp: live_probes_def breaker_inv_def)

lemma distinct_live_probes:
  assumes "breaker_inv s"
  shows "distinct (live_probes s i)"
  using assms by (simp add: live_probes_def breaker_inv_def distinct_map_filter)


section \<open>Theorems\<close>

text \<open>C36. In every reachable state of any number of interleaved callers, an endpoint has at most
  one outstanding unexpired probe, and while it has one every other admission is refused with a
  positive delay.\<close>
theorem circuit_single_probe:
  assumes "breaker_reachable cb s"
  shows "length (live_probes s i) \<le> 1
    \<and> (live_probes s i \<noteq> [] \<longrightarrow>
         (\<exists>ms. 0 < ms \<and> admit cb (bs_table s) i (bs_now s) q = Inl (Provider_unavailable ms)))"
proof
  have inv: "breaker_inv s" using assms by (rule breaker_reachable_inv)
  have "p = p'" if "p \<in> set (live_probes s i)" "p' \<in> set (live_probes s i)" for p p'
    using that[THEN live_probes_row[OF inv]] by auto
  then show "length (live_probes s i) \<le> 1"
    using distinct_live_probes[OF inv, of i] by (intro distinct_single_length) blast+
  show "live_probes s i \<noteq> [] \<longrightarrow>
      (\<exists>ms. 0 < ms \<and> admit cb (bs_table s) i (bs_now s) q = Inl (Provider_unavailable ms))"
  proof
    assume "live_probes s i \<noteq> []"
    then obtain r where "bs_table s i = Some r" "bs_now s < h_probe_until r"
      using live_probes_row[OF inv] by (metis last_in_set)
    then show "\<exists>ms. 0 < ms \<and> admit cb (bs_table s) i (bs_now s) q = Inl (Provider_unavailable ms)"
      by (auto simp: admit_refused_iff)
  qed
qed

definition demo_probe_sys :: breaker_sys where
  "demo_probe_sys =
     (let cb = make_breaker 2;
          t1 = settle cb Map.empty ''ep'' None (Settle_failure None) 0 1;
          t2 = settle cb t1 ''ep'' None (Settle_failure None) 0 1
      in \<lparr>bs_table = (case admit cb t2 ''ep'' 31 ''a'' of Inr (_, t) \<Rightarrow> t | Inl _ \<Rightarrow> t2),
          bs_now = 31, bs_probes = [(''ep'', ''a'', 381)], bs_used = {''a''}\<rparr>)"

lemma demo_table:
  "settle (make_breaker 2) (settle (make_breaker 2) Map.empty ''ep'' None (Settle_failure None) 0 1)
     ''ep'' None (Settle_failure None) 0 1
   = [''ep'' \<mapsto> \<lparr>h_failures = 2, h_open_until = 30, h_probe_id = None, h_probe_until = 0\<rparr>]"
  by (simp add: settle_def stale_settlement_def py_true_opt_def hint_seconds_of_def failure_count_def
      cooldown_def make_breaker_def Let_def)

lemma demo_probe_sys_reachable: "breaker_reachable (make_breaker 2) demo_probe_sys"
proof -
  let ?cb = "make_breaker 2"
  let ?s0 = "\<lparr>bs_table = Map.empty, bs_now = 0, bs_probes = [], bs_used = {}\<rparr> :: breaker_sys"
  let ?s1 = "?s0\<lparr>bs_table := settle ?cb (bs_table ?s0) ''ep'' None (Settle_failure None) (bs_now ?s0) 1\<rparr>"
  let ?s2 = "?s1\<lparr>bs_table := settle ?cb (bs_table ?s1) ''ep'' None (Settle_failure None) (bs_now ?s1) 1\<rparr>"
  let ?s3 = "?s2\<lparr>bs_now := 31\<rparr>"
  have "breaker_reachable ?cb ?s0" by (rule Start) simp
  then have "breaker_reachable ?cb ?s1" by (rule Step) (rule Settle_plain)
  then have "breaker_reachable ?cb ?s2" by (rule Step) (rule Settle_plain)
  then have s3: "breaker_reachable ?cb ?s3" by (rule Step) (rule Tick, simp)
  have "breaker_step ?cb ?s3 demo_probe_sys"
    using Admit_probe[of ?cb ?s3 "''ep''" "''a''"
        "[''ep'' \<mapsto> \<lparr>h_failures = 2, h_open_until = 30, h_probe_id = Some ''a'', h_probe_until = 381\<rparr>]"]
    by (simp add: demo_table demo_probe_sys_def admit_def Let_def) (simp add: make_breaker_def)
  with s3 show ?thesis by (rule Step)
qed

lemma circuit_single_probe_witness:
  "length (live_probes demo_probe_sys ''ep'') \<le> 1 \<and> live_probes demo_probe_sys ''ep'' = [''a'']"
  using circuit_single_probe[OF demo_probe_sys_reachable, of "''ep''"]
  by (simp add: live_probes_def demo_probe_sys_def Let_def)

text \<open>C37. In every reachable state the published availability of an endpoint and its admission
  agree: one refuses exactly when the other does, with the same waiting time.\<close>
theorem circuit_gate_agreement:
  assumes "breaker_reachable cb s"
  shows "require_available cb (bs_table s) i (bs_now s) = Inl e
     \<longleftrightarrow> admit cb (bs_table s) i (bs_now s) q = Inl e"
  using breaker_reachable_inv[OF assms] by (intro require_available_iff_admit) (auto simp: breaker_inv_def)

lemma circuit_gate_agreement_witness:
  "require_available (make_breaker 2) (bs_table demo_probe_sys) ''ep'' (bs_now demo_probe_sys)
     = Inl (Provider_unavailable 350001)
   \<longleftrightarrow> admit (make_breaker 2) (bs_table demo_probe_sys) ''ep'' (bs_now demo_probe_sys) ''b''
     = Inl (Provider_unavailable 350001)"
  by (rule circuit_gate_agreement[OF demo_probe_sys_reachable])

text \<open>A transient failure that is not stale and brings the failure count to the threshold opens
  the circuit: for at least thirty seconds and the provider's own reset hint, for at most the
  longer of two and a half minutes and that hint, and no caller is admitted before then.\<close>
theorem circuit_failure_opens:
  fixes jit :: rat
  assumes fresh: "\<not> stale_settlement (t i) probe now"
    and jitter: "1 \<le> jit" "jit \<le> 5 / 4"
    and streak: "failure_threshold cb \<le> failure_count cb (t i) (hint_seconds_of hint)"
  shows "\<exists>r. settle cb t i probe (Settle_failure hint) now jit i = Some r
     \<and> now + 30 \<le> h_open_until r \<and> now + hint_seconds_of hint \<le> h_open_until r
     \<and> h_open_until r \<le> now + max 150 (hint_seconds_of hint)
     \<and> (\<forall>now' q. now' < h_open_until r \<longrightarrow>
          \<not> is_ok (admit cb (settle cb t i probe (Settle_failure hint) now jit) i now' q))"
proof -
  let ?h = "hint_seconds_of hint"
  let ?d = "cooldown cb (failure_count cb (t i) ?h) ?h jit"
  note b = cooldown_bounds[OF jitter streak, of ?h]
  have "0 \<le> ?h" by (simp add: hint_seconds_of_def split: option.split)
  let ?r = "\<lparr>h_failures = failure_count cb (t i) ?h, h_open_until = now + ?d, h_probe_id = None,
             h_probe_until = 0\<rparr>"
  have row: "settle cb t i probe (Settle_failure hint) now jit = t(i \<mapsto> ?r)"
    using fresh b(1) by (simp add: settle_def Let_def)
  have "\<not> is_ok (admit cb (t(i \<mapsto> ?r)) i now' q)" if "now' < h_open_until ?r" for now' q
    using that by (simp add: admit_def)
  with row b(1,3) b(2)[OF \<open>0 \<le> ?h\<close>] show ?thesis by simp
qed

lemma circuit_failure_opens_witness:
  "\<exists>r. settle (make_breaker 2) Map.empty ''ep'' None (Settle_failure (Some 60000)) 5 1 ''ep'' = Some r
     \<and> 65 \<le> h_open_until r"
proof -
  have "\<exists>r. settle (make_breaker 2) Map.empty ''ep'' None (Settle_failure (Some 60000)) 5 1 ''ep'' = Some r
     \<and> (5::rat) + 30 \<le> h_open_until r \<and> 5 + hint_seconds_of (Some 60000) \<le> h_open_until r
     \<and> h_open_until r \<le> 5 + max 150 (hint_seconds_of (Some 60000))
     \<and> (\<forall>now' q. now' < h_open_until r \<longrightarrow>
          \<not> is_ok (admit (make_breaker 2)
            (settle (make_breaker 2) Map.empty ''ep'' None (Settle_failure (Some 60000)) 5 1) ''ep'' now' q))"
    by (rule circuit_failure_opens)
      (simp_all add: stale_settlement_def py_true_opt_def failure_count_def hint_seconds_of_def
        make_breaker_def Let_def)
  then show ?thesis by (auto simp: hint_seconds_of_def)
qed

end
