(* ===== verification/Admission.thy ===== *)
theory Admission
  imports Prelude "HOL-Library.Sublist"
begin

text \<open>
  Provider admission control, \<^verbatim>\<open>backend/model_router/admission.py\<close>: a bounded number of turns
  per model endpoint, granted in arrival order. There are two implementations behind one
  contract: an in-process queue (\<^verbatim>\<open>_AdmissionQueue\<close>, \<^verbatim>\<open>slot\<close>) and a table of expiring
  tickets shared by processes (\<^verbatim>\<open>_distributed_acquire\<close>, \<^verbatim>\<open>_renew\<close>, \<^verbatim>\<open>_release\<close>).
  The contract is the locale \<open>admission_gate\<close>, interpreted on both.
\<close>

section \<open>Limits\<close>

definition configured_limits :: "(string \<times> int) list \<Rightarrow> string \<rightharpoonup> int" where
  "configured_limits limits =
     map_option (max 1) \<circ> dict_of ([(''nvidia_nim'', 1), (''ollama'', 2), (''lmstudio'', 2)] @ limits)"

definition provider_limit :: "(string \<rightharpoonup> int) \<Rightarrow> string \<Rightarrow> int" where
  "provider_limit limits provider_id = (case limits provider_id of Some n \<Rightarrow> n | None \<Rightarrow> 4)"

definition queue_timeout :: "rat \<Rightarrow> rat" where
  "queue_timeout seconds = max (1 / 100) (min seconds 120)"

section \<open>The in-process queue\<close>

record admission_queue =
  aq_active :: int
  aq_waiting :: "string list"

datatype queue_error = Index_error | Value_error

definition queue_join :: "string \<Rightarrow> admission_queue \<Rightarrow> admission_queue" where
  "queue_join ticket q = q\<lparr>aq_waiting := aq_waiting q @ [ticket]\<rparr>"

text \<open>One turn of the waiting loop, under the lock: \<^verbatim>\<open>queue.waiting[0]\<close> raises when the queue is empty.\<close>

definition queue_try :: "int \<Rightarrow> string \<Rightarrow> admission_queue \<Rightarrow> queue_error + (bool \<times> admission_queue)" where
  "queue_try limit ticket q =
     (case aq_waiting q of
        [] \<Rightarrow> Inl Index_error
      | t # ws \<Rightarrow> if t = ticket \<and> aq_active q < limit
          then Inr (True, q\<lparr>aq_waiting := ws, aq_active := aq_active q + 1\<rparr>)
          else Inr (False, q))"

text \<open>\<^verbatim>\<open>queue.waiting.remove(ticket)\<close> of a caller that timed out or was cancelled.\<close>

definition queue_give_up :: "string \<Rightarrow> admission_queue \<Rightarrow> queue_error + admission_queue" where
  "queue_give_up ticket q =
     (if ticket \<in> set (aq_waiting q) then Inr (q\<lparr>aq_waiting := remove1 ticket (aq_waiting q)\<rparr>)
      else Inl Value_error)"

definition queue_leave :: "admission_queue \<Rightarrow> admission_queue" where
  "queue_leave q = q\<lparr>aq_active := aq_active q - 1\<rparr>"

text \<open>Whether the waiting caller gives up: the remaining time is used up.\<close>

definition wait_expired :: "rat \<Rightarrow> rat \<Rightarrow> rat \<Rightarrow> bool" where
  "wait_expired timeout started now \<longleftrightarrow> timeout - (now - started) \<le> 0"

section \<open>The shared ticket table\<close>

record slot_row =
  sl_ticket :: string
  sl_endpoint :: string
  sl_active :: bool
  sl_expires :: rat

text \<open>The rows are kept in the order of their auto-incremented sequence number.\<close>

type_synonym provider_slots = "slot_row list"

definition purge_expired :: "rat \<Rightarrow> provider_slots \<Rightarrow> provider_slots" where
  "purge_expired now rows = filter (\<lambda>r. now < sl_expires r) rows"

definition insert_ticket :: "string \<Rightarrow> string \<Rightarrow> rat \<Rightarrow> provider_slots \<Rightarrow> provider_slots" where
  "insert_ticket ticket endpoint now rows =
     (if ticket \<in> sl_ticket ` set rows then rows
      else rows @ [\<lparr>sl_ticket = ticket, sl_endpoint = endpoint, sl_active = False,
                    sl_expires = now + 10\<rparr>])"

definition touch_ticket :: "string \<Rightarrow> rat \<Rightarrow> provider_slots \<Rightarrow> provider_slots" where
  "touch_ticket ticket until rows =
     map (\<lambda>r. if sl_ticket r = ticket then r\<lparr>sl_expires := until\<rparr> else r) rows"

definition active_rows :: "string \<Rightarrow> provider_slots \<Rightarrow> provider_slots" where
  "active_rows endpoint rows = filter (\<lambda>r. sl_endpoint r = endpoint \<and> sl_active r) rows"

definition waiting_rows :: "string \<Rightarrow> provider_slots \<Rightarrow> provider_slots" where
  "waiting_rows endpoint rows = filter (\<lambda>r. sl_endpoint r = endpoint \<and> \<not> sl_active r) rows"

definition activate_ticket :: "string \<Rightarrow> provider_slots \<Rightarrow> provider_slots" where
  "activate_ticket ticket rows =
     map (\<lambda>r. if sl_ticket r = ticket then r\<lparr>sl_active := True\<rparr> else r) rows"

definition distributed_acquire ::
  "string \<Rightarrow> string \<Rightarrow> int \<Rightarrow> rat \<Rightarrow> provider_slots \<Rightarrow> bool \<times> provider_slots" where
  "distributed_acquire ticket endpoint limit now rows =
     (let rows1 = purge_expired now rows;
          rows2 = insert_ticket ticket endpoint now rows1;
          rows3 = touch_ticket ticket (now + 10) rows2;
          active = int (length (active_rows endpoint rows3));
          acquired = (active < limit \<and>
             (case waiting_rows endpoint rows3 of [] \<Rightarrow> False | r # _ \<Rightarrow> sl_ticket r = ticket))
      in (acquired, if acquired then activate_ticket ticket rows3 else rows3))"

text \<open>\<open>now\<close> and \<open>now'\<close> are the two clock readings of the statement, in argument order.\<close>

definition slot_renew :: "string \<Rightarrow> rat \<Rightarrow> rat \<Rightarrow> provider_slots \<Rightarrow> bool \<times> provider_slots" where
  "slot_renew ticket now now' rows =
     (let hit = (\<lambda>r. sl_ticket r = ticket \<and> now' < sl_expires r)
      in (length (filter hit rows) = 1,
          map (\<lambda>r. if hit r then r\<lparr>sl_expires := now + 10\<rparr> else r) rows))"

definition slot_release :: "string \<Rightarrow> provider_slots \<Rightarrow> provider_slots" where
  "slot_release ticket rows = filter (\<lambda>r. sl_ticket r \<noteq> ticket) rows"

section \<open>The contract\<close>

text \<open>
  A gate counts the turns in progress and keeps a queue of waiting tickets. Trying to enter
  succeeds only for the head of the queue and only below the limit; nothing else raises the
  count of turns in progress.
\<close>

datatype 't gate_event = G_join 't | G_try 't rat | G_renew 't rat | G_leave 't

locale admission_gate =
  fixes inv :: "'st \<Rightarrow> bool"
    and busy :: "'st \<Rightarrow> nat"
    and mine :: "'t \<Rightarrow> bool"
    and limit :: nat
    and step :: "'t gate_event \<Rightarrow> 'st \<Rightarrow> bool \<times> 'st"
  assumes inv_step: "inv s \<Longrightarrow> inv (snd (step e s))"
    and try_granted: "inv s \<Longrightarrow> mine t \<Longrightarrow> step (G_try t now) s = (True, s') \<Longrightarrow> busy s' \<le> limit"
    and foreign_granted: "inv s \<Longrightarrow> \<not> mine t \<Longrightarrow> busy (snd (step (G_try t now) s)) \<le> busy s"
    and try_refused: "inv s \<Longrightarrow> step (G_try t now) s = (False, s') \<Longrightarrow> busy s' \<le> busy s"
    and other_busy: "inv s \<Longrightarrow> (\<forall>t now. e \<noteq> G_try t now) \<Longrightarrow> busy (snd (step e s)) \<le> busy s"
begin

lemma step_capacity:
  assumes "inv s" "busy s \<le> limit"
  shows "busy (snd (step e s)) \<le> limit"
proof (cases "\<exists>t now. e = G_try t now")
  case True
  then obtain t now where e: "e = G_try t now" by blast
  obtain ok s' where r: "step e s = (ok, s')" by (cases "step e s")
  show ?thesis
    using assms r try_granted[of s t now s'] try_refused[of s t now s'] foreign_granted[of s t now]
    unfolding e by (cases ok; cases "mine t") auto
next
  case False
  then show ?thesis using other_busy[of s e] assms by fastforce
qed

lemma run_capacity:
  "inv s \<Longrightarrow> busy s \<le> limit \<Longrightarrow> busy (fold (\<lambda>e s. snd (step e s)) es s) \<le> limit"
  by (induction es arbitrary: s) (auto intro: step_capacity inv_step)

end

text \<open>A first-come gate also serves its queue in arrival order.\<close>

locale fifo_gate = admission_gate inv busy mine limit step
  for inv :: "'st \<Rightarrow> bool" and busy and mine :: "'t \<Rightarrow> bool" and limit step +
  fixes waiting :: "'st \<Rightarrow> 't list"
  assumes join_waiting: "waiting (snd (step (G_join t) s)) = waiting s @ [t]"
    and try_head: "step (G_try t now) s = (True, s') \<Longrightarrow> waiting s = t # waiting s'"
    and refused_waiting: "step (G_try t now) s = (False, s') \<Longrightarrow> waiting s' = waiting s"
    and renew_waiting: "waiting (snd (step (G_renew t now) s)) = waiting s"
    and leave_waiting: "subseq (waiting (snd (step (G_leave t) s))) (waiting s)"

fun gate_trace :: "('t gate_event \<Rightarrow> 'st \<Rightarrow> bool \<times> 'st) \<Rightarrow> 't gate_event list \<Rightarrow> 'st \<Rightarrow> 't list \<times> 'st" where
  "gate_trace step [] s = ([], s)"
| "gate_trace step (e # es) s =
     (let (ok, s') = step e s; (granted, s'') = gate_trace step es s'
      in (case e of G_try t _ \<Rightarrow> if ok then t # granted else granted | _ \<Rightarrow> granted, s''))"

definition gate_joins :: "'t gate_event list \<Rightarrow> 't list" where
  "gate_joins es = concat (map (\<lambda>e. case e of G_join t \<Rightarrow> [t] | _ \<Rightarrow> []) es)"

context fifo_gate
begin

lemma served_in_order:
  "gate_trace step es s = (granted, s') \<Longrightarrow>
     subseq (granted @ waiting s') (waiting s @ gate_joins es)"
proof (induction es arbitrary: s granted)
  case Nil
  then show ?case by (simp add: gate_joins_def)
next
  case (Cons e es)
  obtain ok s1 where e: "step e s = (ok, s1)" by (cases "step e s")
  obtain g where g: "gate_trace step es s1 = (g, s')"
    using Cons.prems e by (cases "gate_trace step es s1") auto
  note IH = Cons.IH[OF g]
  show ?case
  proof (cases e)
    case (G_join t)
    then show ?thesis using Cons.prems e g IH join_waiting[of t s] by (simp add: gate_joins_def)
  next
    case (G_try t now)
    show ?thesis
    proof (cases ok)
      case True
      then have "waiting s = t # waiting s1" using e G_try try_head[of t now s s1] by simp
      then show ?thesis using Cons.prems e g IH G_try True by (auto simp: gate_joins_def)
    next
      case False
      then have "waiting s1 = waiting s" using e G_try refused_waiting[of t now s s1] by simp
      then show ?thesis using Cons.prems e g IH G_try False by (auto simp: gate_joins_def)
    qed
  next
    case (G_renew t now)
    then show ?thesis using Cons.prems e g IH renew_waiting[of t now s] by (simp add: gate_joins_def)
  next
    case (G_leave t)
    then have "subseq (waiting s1) (waiting s)" using e leave_waiting[of t s] by simp
    then have "subseq (waiting s1 @ gate_joins es) (waiting s @ gate_joins es)"
      by (simp only: subseq_append)
    then show ?thesis using Cons.prems e g IH G_leave
      by (auto simp: gate_joins_def intro: subseq_order.order_trans)
  qed
qed

end

section \<open>The in-process queue is a first-come gate\<close>

fun queue_step :: "int \<Rightarrow> string gate_event \<Rightarrow> admission_queue \<Rightarrow> bool \<times> admission_queue" where
  "queue_step limit (G_join t) q = (True, queue_join t q)"
| "queue_step limit (G_try t now) q = (case queue_try limit t q of Inl _ \<Rightarrow> (False, q) | Inr r \<Rightarrow> r)"
| "queue_step limit (G_renew t now) q = (True, q)"
| "queue_step limit (G_leave t) q =
     (case queue_give_up t q of
        Inr q' \<Rightarrow> (True, q')
      | Inl _ \<Rightarrow> (if 0 < aq_active q then (True, queue_leave q) else (False, q)))"

lemma queue_try_granted:
  "queue_step limit (G_try t now) q = (True, q') \<Longrightarrow>
     aq_waiting q = t # aq_waiting q' \<and> aq_active q < limit \<and> aq_active q' = aq_active q + 1"
  by (auto simp: queue_try_def split: list.splits if_splits)

lemma queue_try_refused: "queue_step limit (G_try t now) q = (False, q') \<Longrightarrow> q' = q"
  by (auto simp: queue_try_def split: list.splits if_splits)

lemma queue_other:
  "\<forall>t now. e \<noteq> G_try t now \<Longrightarrow> aq_active (snd (queue_step limit e q)) \<le> aq_active q"
  by (cases e) (auto simp: queue_join_def queue_give_up_def queue_leave_def)

lemma subseq_remove1: "subseq (remove1 x xs) xs"
  by (induction xs) auto

lemma queue_active_nonneg: "0 \<le> aq_active q \<Longrightarrow> 0 \<le> aq_active (snd (queue_step limit e q))"
  by (cases e) (auto simp: queue_join_def queue_give_up_def queue_leave_def queue_try_def
      split: list.splits)

interpretation local_gate: fifo_gate "\<lambda>q. 0 \<le> aq_active q" "\<lambda>q. nat (aq_active q)" "\<lambda>_. True"
  "nat limit" "queue_step limit" aq_waiting for limit
proof unfold_locales
  fix q q' t now
  assume "queue_step limit (G_try t now) q = (True, q')" "0 \<le> aq_active q"
  then show "nat (aq_active q') \<le> nat limit"
    using queue_try_granted[of limit t now q q'] by (intro nat_mono) auto
next
  fix q and e :: "string gate_event"
  assume "\<forall>t now. e \<noteq> G_try t now"
  then show "nat (aq_active (snd (queue_step limit e q))) \<le> nat (aq_active q)"
    using queue_other[of e limit q] by simp
next
  fix q t
  show "subseq (aq_waiting (snd (queue_step limit (G_leave t) q))) (aq_waiting q)"
    by (auto simp: queue_give_up_def queue_leave_def subseq_remove1)
next
  fix q q' t now
  assume r: "queue_step limit (G_try t now) q = (False, q')"
  show "nat (aq_active q') \<le> nat (aq_active q)" "aq_waiting q' = aq_waiting q"
    using queue_try_refused[OF r] by simp_all
next
  fix q q' t now
  assume r: "queue_step limit (G_try t now) q = (True, q')"
  show "aq_waiting q = t # aq_waiting q'"
    using queue_try_granted[OF r] by simp
qed (simp_all add: queue_join_def queue_active_nonneg)

section \<open>The shared table is a gate for every endpoint\<close>

definition tickets_unique :: "provider_slots \<Rightarrow> bool" where
  "tickets_unique rows = distinct (map sl_ticket rows)"

fun table_step :: "(string \<Rightarrow> int) \<Rightarrow> (string \<times> string) gate_event \<Rightarrow> provider_slots
    \<Rightarrow> bool \<times> provider_slots" where
  "table_step limit_of (G_join t) rows = (True, rows)"
| "table_step limit_of (G_try t now) rows =
     distributed_acquire (fst t) (snd t) (limit_of (snd t)) now rows"
| "table_step limit_of (G_renew t now) rows = slot_renew (fst t) now now rows"
| "table_step limit_of (G_leave t) rows = (True, slot_release (fst t) rows)"

lemma map_ticket_update [simp]:
  "map sl_ticket (touch_ticket t u rows) = map sl_ticket rows"
  "map sl_ticket (activate_ticket t rows) = map sl_ticket rows"
  by (simp_all add: touch_ticket_def activate_ticket_def comp_def if_distrib cong: if_cong)

lemma tickets_unique_filter: "tickets_unique rows \<Longrightarrow> tickets_unique (filter P rows)"
  by (simp add: tickets_unique_def distinct_map_filter)

lemma tickets_unique_insert: "tickets_unique rows \<Longrightarrow> tickets_unique (insert_ticket t e now rows)"
  by (auto simp: tickets_unique_def insert_ticket_def)

lemma tickets_unique_step: "tickets_unique rows \<Longrightarrow> tickets_unique (snd (table_step l e rows))"
proof (cases e)
  case (G_try t now)
  assume u: "tickets_unique rows"
  let ?r = "touch_ticket (fst t) (now + 10)
    (insert_ticket (fst t) (snd t) now (purge_expired now rows))"
  have "tickets_unique ?r"
    using u tickets_unique_insert[of "purge_expired now rows"]
    by (simp add: tickets_unique_def purge_expired_def distinct_map_filter)
  with G_try show ?thesis by (simp add: distributed_acquire_def Let_def tickets_unique_def)
next
  case (G_renew t now)
  have "map sl_ticket (snd (slot_renew (fst t) now now rows)) = map sl_ticket rows"
    by (auto simp: slot_renew_def Let_def)
  moreover assume "tickets_unique rows"
  ultimately show ?thesis using G_renew by (simp add: tickets_unique_def)
qed (simp_all add: slot_release_def tickets_unique_filter)

lemma active_rows_touch [simp]: "length (active_rows e (touch_ticket t u rows)) = length (active_rows e rows)"
  by (induction rows) (auto simp: active_rows_def touch_ticket_def)

lemma active_rows_insert [simp]: "active_rows e (insert_ticket t e' now rows) = active_rows e rows"
  by (simp add: active_rows_def insert_ticket_def)

lemma active_rows_filter: "length (active_rows e (filter P rows)) \<le> length (active_rows e rows)"
proof -
  have "active_rows e (filter P rows) = filter P (active_rows e rows)"
    by (simp add: active_rows_def conj_commute)
  then show ?thesis by simp
qed

lemma activate_foreign:
  "(\<forall>r \<in> set rows. sl_ticket r = t \<longrightarrow> sl_endpoint r \<noteq> e) \<Longrightarrow>
     length (active_rows e (activate_ticket t rows)) = length (active_rows e rows)"
  by (induction rows) (auto simp: active_rows_def activate_ticket_def)

lemma activate_one:
  "tickets_unique rows \<Longrightarrow>
     length (active_rows e (activate_ticket t rows)) \<le> Suc (length (active_rows e rows))"
proof (induction rows)
  case (Cons r rows)
  have "length (active_rows e (activate_ticket t rows)) = length (active_rows e rows)"
    if "sl_ticket r = t"
  proof (rule arg_cong[where f = length])
    have "activate_ticket t rows = rows"
      using Cons.prems that unfolding tickets_unique_def activate_ticket_def
      by (intro map_idI) (metis (no_types, lifting) distinct.simps(2) image_eqI list.set_map list.simps(9))
    then show "active_rows e (activate_ticket t rows) = active_rows e rows" by simp
  qed
  with Cons show ?case by (auto simp: active_rows_def activate_ticket_def tickets_unique_def)
qed (simp add: active_rows_def activate_ticket_def)

lemma acquire_active:
  assumes "tickets_unique rows" "distributed_acquire t e l now rows = (ok, rows')"
  shows "\<not> ok \<Longrightarrow> length (active_rows e' rows') \<le> length (active_rows e' rows)"
    and "ok \<Longrightarrow> int (length (active_rows e rows')) \<le> l"
    and "ok \<Longrightarrow> e' \<noteq> e \<Longrightarrow> length (active_rows e' rows') \<le> length (active_rows e' rows)"
proof -
  let ?r = "touch_ticket t (now + 10) (insert_ticket t e now (purge_expired now rows))"
  have le: "length (active_rows x ?r) \<le> length (active_rows x rows)" for x
    using active_rows_filter[of x "\<lambda>r. now < sl_expires r" rows] by (simp add: purge_expired_def)
  have u: "tickets_unique ?r"
    using tickets_unique_insert[OF tickets_unique_filter[OF assms(1)]]
    by (simp add: tickets_unique_def purge_expired_def)
  have ok: "ok \<longleftrightarrow> int (length (active_rows e ?r)) < l
      \<and> (case waiting_rows e ?r of [] \<Rightarrow> False | r # _ \<Rightarrow> sl_ticket r = t)"
    and rows': "rows' = (if ok then activate_ticket t ?r else ?r)"
    using assms(2) by (auto simp: distributed_acquire_def Let_def)
  show "\<not> ok \<Longrightarrow> length (active_rows e' rows') \<le> length (active_rows e' rows)"
    using rows' le by simp
  show "ok \<Longrightarrow> int (length (active_rows e rows')) \<le> l"
    using rows' ok activate_one[OF u, of e t] by auto
  assume "ok" "e' \<noteq> e"
  then obtain w ws where "waiting_rows e ?r = w # ws" "sl_ticket w = t"
    using ok by (auto split: list.splits)
  then have w: "w \<in> set ?r" "sl_endpoint w = e" "sl_ticket w = t"
    using filter_eq_ConsD[of "\<lambda>r. sl_endpoint r = e \<and> \<not> sl_active r" ?r w ws]
    by (auto simp: waiting_rows_def)
  have "sl_endpoint r = e" if "r \<in> set ?r" "sl_ticket r = t" for r
    using u w that unfolding tickets_unique_def distinct_map by (metis inj_onD)
  then have "length (active_rows e' (activate_ticket t ?r)) = length (active_rows e' ?r)"
    using \<open>e' \<noteq> e\<close> by (intro activate_foreign) auto
  then show "length (active_rows e' rows') \<le> length (active_rows e' rows)"
    using rows' \<open>ok\<close> le by simp
qed

interpretation shared_gate: admission_gate tickets_unique "\<lambda>rows. length (active_rows endpoint rows)"
  "\<lambda>t. snd t = endpoint" "nat (limit_of endpoint)" "table_step limit_of" for endpoint limit_of
proof unfold_locales
  fix rows e
  show "tickets_unique rows \<Longrightarrow> tickets_unique (snd (table_step limit_of e rows))"
    by (rule tickets_unique_step)
next
  fix rows rows' now and t :: "string \<times> string"
  assume "tickets_unique rows" "snd t = endpoint" "table_step limit_of (G_try t now) rows = (True, rows')"
  then show "length (active_rows endpoint rows') \<le> nat (limit_of endpoint)"
    using acquire_active(2)[of rows "fst t" "snd t" _ now True rows'] by fastforce
next
  fix rows now and t :: "string \<times> string"
  assume a: "tickets_unique rows" "snd t \<noteq> endpoint"
  obtain ok rows' where "table_step limit_of (G_try t now) rows = (ok, rows')"
    by (cases "table_step limit_of (G_try t now) rows")
  with a show "length (active_rows endpoint (snd (table_step limit_of (G_try t now) rows)))
      \<le> length (active_rows endpoint rows)"
    using acquire_active(1,3)[of rows "fst t" "snd t" "limit_of (snd t)" now ok rows' endpoint]
    by (cases ok) auto
next
  fix rows rows' now and t :: "string \<times> string"
  assume "tickets_unique rows" "table_step limit_of (G_try t now) rows = (False, rows')"
  then show "length (active_rows endpoint rows') \<le> length (active_rows endpoint rows)"
    using acquire_active(1)[of rows "fst t" "snd t" _ now False rows'] by simp
next
  fix rows and e :: "(string \<times> string) gate_event"
  assume "\<forall>t now. e \<noteq> G_try t now"
  then show "length (active_rows endpoint (snd (table_step limit_of e rows)))
      \<le> length (active_rows endpoint rows)"
  proof (cases e)
    case (G_renew t now)
    have "length (active_rows endpoint (snd (slot_renew (fst t) now now rows)))
        = length (active_rows endpoint rows)"
      by (induction rows) (auto simp: active_rows_def slot_renew_def Let_def)
    with G_renew show ?thesis by simp
  qed (auto simp: slot_release_def active_rows_filter)
qed

section \<open>Theorems\<close>

text \<open>In the in-process queue no run of joins, tries, timeouts and releases ever has more turns
  in progress than the provider's limit.\<close>
theorem queue_capacity:
  assumes "0 \<le> aq_active q" "aq_active q \<le> limit"
  shows "aq_active (fold (\<lambda>e q. snd (queue_step limit e q)) es q) \<le> limit"
  using local_gate.run_capacity[of q limit es] assms by linarith

text \<open>Tickets are served in arrival order: the tickets granted by any run of the in-process
  queue, followed by those still waiting, are a subsequence of the order of arrival (tickets that
  gave up are missing).\<close>
theorem queue_fifo:
  assumes "gate_trace (queue_step limit) es q = (granted, q')"
  shows "subseq (granted @ aq_waiting q') (aq_waiting q @ gate_joins es)"
  using local_gate.served_in_order[OF assms] .

definition demo_queue_events :: "string gate_event list" where
  "demo_queue_events = [G_join ''a'', G_join ''b'', G_join ''c'', G_try ''b'' 0, G_try ''a'' 0,
     G_leave ''b'', G_leave ''a'', G_try ''c'' 1]"

lemma queue_fifo_witness:
  "subseq ([''a'', ''c''] @ [])
     (aq_waiting \<lparr>aq_active = 0, aq_waiting = []\<rparr> @ gate_joins demo_queue_events)"
proof -
  have "gate_trace (queue_step 1) demo_queue_events \<lparr>aq_active = 0, aq_waiting = []\<rparr>
      = ([''a'', ''c''], \<lparr>aq_active = 1, aq_waiting = []\<rparr>)"
    by (simp add: demo_queue_events_def queue_join_def queue_try_def queue_give_up_def queue_leave_def)
  from queue_fifo[OF this] show ?thesis by simp
qed

text \<open>Across any interleaving of acquisitions, renewals, expiries and releases by any number of
  processes on any endpoints, an endpoint of the shared ticket table never has more active rows
  than its limit.\<close>
theorem shared_table_capacity:
  assumes "tickets_unique rows" "int (length (active_rows endpoint rows)) \<le> limit_of endpoint"
  shows "int (length (active_rows endpoint (fold (\<lambda>e r. snd (table_step limit_of e r)) es rows)))
    \<le> limit_of endpoint"
  using shared_gate.run_capacity[of rows endpoint limit_of es] assms by linarith

lemma shared_table_capacity_witness:
  "int (length (active_rows ''ep'' (fold (\<lambda>e r. snd (table_step (\<lambda>_. 1) e r))
     [G_try (''t1'', ''ep'') 0, G_try (''t2'', ''ep'') 1, G_renew (''t1'', ''ep'') 8, G_try (''t2'', ''ep'') 12] []))) \<le> 1"
  using shared_table_capacity[of "[]" "''ep''" "\<lambda>_. 1"
      "[G_try (''t1'', ''ep'') 0, G_try (''t2'', ''ep'') 1, G_renew (''t1'', ''ep'') 8, G_try (''t2'', ''ep'') 12]"]
  by (simp add: tickets_unique_def active_rows_def)

lemma queue_capacity_witness:
  "aq_active (fold (\<lambda>e q. snd (queue_step 1 e q)) demo_queue_events \<lparr>aq_active = 0, aq_waiting = []\<rparr>) \<le> 1"
  by (rule queue_capacity) simp_all

end
