(* ===== verification/Run_Budget.thy ===== *)
theory Run_Budget
  imports Prelude
begin

text \<open>
  The physical-request budget of a run, \<^verbatim>\<open>backend/model_router/run_budget.py\<close>: charges are
  validated, checked against the run's limits and the verification reserve, and then reserved in
  the job's ledger (or handed to a persistence callback) before the request is sent. The ledger
  is the interface \<open>charge_ledger\<close>; the theory \<open>Jobs\<close> interprets it on the job store.
\<close>

section \<open>Dimensions\<close>

datatype dim = Elapsed_seconds | Tool_calls_used | Requests | Output_tokens | Input_bytes

instantiation dim :: enum
begin
definition "enum_dim = [Elapsed_seconds, Tool_calls_used, Requests, Output_tokens, Input_bytes]"
definition "enum_all_dim P \<longleftrightarrow> P Elapsed_seconds \<and> P Tool_calls_used \<and> P Requests \<and> P Output_tokens \<and> P Input_bytes"
definition "enum_ex_dim P \<longleftrightarrow> P Elapsed_seconds \<or> P Tool_calls_used \<or> P Requests \<or> P Output_tokens \<or> P Input_bytes"
instance
proof
  have u: "k \<in> {Elapsed_seconds, Tool_calls_used, Requests, Output_tokens, Input_bytes}" for k
    by (cases k) auto
  then show "(UNIV :: dim set) = set enum_class.enum"
    by (auto simp: enum_dim_def)
  show "distinct (enum_class.enum :: dim list)"
    by (simp add: enum_dim_def)
  show "enum_class.enum_all P \<longleftrightarrow> Ball UNIV P" for P :: "dim \<Rightarrow> bool"
    unfolding enum_all_dim_def by (metis UNIV_I dim.exhaust)
  show "enum_class.enum_ex P \<longleftrightarrow> Bex UNIV P" for P :: "dim \<Rightarrow> bool"
    unfolding enum_ex_dim_def by (metis UNIV_I dim.exhaust)
qed
end

definition provider_dims :: "dim list" where
  "provider_dims = [Requests, Output_tokens, Input_bytes]"

definition dim_key :: "dim \<Rightarrow> string" where
  "dim_key k = (case k of Elapsed_seconds \<Rightarrow> ''elapsed_seconds'' | Tool_calls_used \<Rightarrow> ''tool_calls_used''
     | Requests \<Rightarrow> ''requests'' | Output_tokens \<Rightarrow> ''output_tokens'' | Input_bytes \<Rightarrow> ''input_bytes'')"

definition LIMITS :: "dim \<Rightarrow> rat" where
  "LIMITS k = (case k of Requests \<Rightarrow> 120 | Output_tokens \<Rightarrow> 245760 | Input_bytes \<Rightarrow> 8000000 | _ \<Rightarrow> 0)"

type_synonym amounts = "dim \<Rightarrow> rat"

datatype budget_error =
    Budget_exceeded (be_dim: dim) (be_consumed: rat) (be_limit: rat) (be_charge: rat)
      (be_code: string) (be_origin: string)
  | Budget_persistence string
  | Budget_value_error string
  | Budget_key_error string
  | Budget_type_error

definition exceeded :: "dim \<Rightarrow> rat \<Rightarrow> rat \<Rightarrow> rat \<Rightarrow> string \<Rightarrow> budget_error" where
  "exceeded k consumed limit charge code = Budget_exceeded k consumed limit charge code ''job_budget''"

section \<open>Charges\<close>

text \<open>A non-boolean integer that is not negative: \<^verbatim>\<open>type(v) is int and v >= 0\<close>.\<close>

definition nat_charge :: "pyval \<Rightarrow> rat option" where
  "nat_charge v = (case v of VInt n \<Rightarrow> if 0 \<le> n then Some (of_int n) else None | _ \<Rightarrow> None)"

definition validate_attempt_charges :: "pyval \<Rightarrow> budget_error + (amounts \<times> string option)" where
  "validate_attempt_charges charges =
     (case charges of
        VDict kvs \<Rightarrow>
          (let d = dict_of kvs;
               names = map dim_key provider_dims;
               amount = (\<lambda>k. nat_charge (py_get d (dim_key k)));
               attempt = py_get d ''_attempt_id''
           in if (\<exists>key \<in> fst ` set kvs. key \<notin> set (''_attempt_id'' # names))
                 \<or> (\<exists>k \<in> set provider_dims. amount k = None)
              then Inl (Budget_value_error ''AGENT_BUDGET_CHARGE_INVALID'')
              else case attempt of
                  VNone \<Rightarrow> Inr (\<lambda>k. if k \<in> set provider_dims then the (amount k) else 0, None)
                | VStr s \<Rightarrow> if 1 \<le> length s \<and> length s \<le> 128
                    then Inr (\<lambda>k. if k \<in> set provider_dims then the (amount k) else 0, Some s)
                    else Inl (Budget_value_error ''AGENT_BUDGET_CHARGE_INVALID'')
                | _ \<Rightarrow> Inl (Budget_value_error ''AGENT_BUDGET_CHARGE_INVALID''))
      | _ \<Rightarrow> Inl (Budget_value_error ''AGENT_BUDGET_CHARGE_INVALID''))"

section \<open>The run's own copy of the budget\<close>

record run_budget =
  rb_used :: amounts
  rb_limits :: "amounts option"
  rb_phase_reserve :: "(dim \<times> rat) list"

text \<open>\<^verbatim>\<open>new_budget(saved)\<close>: the saved counters and limits, both clamped.\<close>

record saved_budget =
  sb_used :: "dim \<Rightarrow> rat option"
  sb_limits :: "(dim \<Rightarrow> rat option) option"

definition new_budget :: "saved_budget option \<Rightarrow> run_budget" where
  "new_budget saved =
     \<lparr>rb_used = (\<lambda>k. case saved of None \<Rightarrow> 0
          | Some b \<Rightarrow> max 0 (of_int (py_int (case sb_used b k of Some v \<Rightarrow> v | None \<Rightarrow> 0)))),
      rb_limits = Option.bind saved (\<lambda>b. map_option (\<lambda>l k.
          max 1 (min (of_int (py_int (case l k of Some v \<Rightarrow> v | None \<Rightarrow> LIMITS k))) (LIMITS k * 10)))
          (sb_limits b)),
      rb_phase_reserve = []\<rparr>"

definition budget_limits :: "run_budget \<Rightarrow> amounts" where
  "budget_limits b = (case rb_limits b of Some l \<Rightarrow> l | None \<Rightarrow> LIMITS)"

definition consumed :: "run_budget \<Rightarrow> dim \<Rightarrow> rat" where
  "consumed b k = of_int (py_int (rb_used b k))"

definition limit_violation :: "run_budget \<Rightarrow> amounts \<Rightarrow> budget_error option" where
  "limit_violation b charges =
     map_option (\<lambda>k. exceeded k (consumed b k) (budget_limits b k) (charges k)
        ''AGENT_PROVIDER_BUDGET_EXCEEDED'')
       (List.find (\<lambda>k. budget_limits b k < consumed b k + charges k) provider_dims)"

definition reserve_violation :: "run_budget \<Rightarrow> amounts \<Rightarrow> budget_error option" where
  "reserve_violation b charges =
     map_option (\<lambda>(k, reserve). Budget_exceeded k (consumed b k) (budget_limits b k) (charges k)
        ''AGENT_VERIFICATION_RESERVE_REACHED'' ''verification_reserve'')
       (List.find (\<lambda>(k, reserve). budget_limits b k - reserve < consumed b k + charges k)
          (rb_phase_reserve b))"

section \<open>Charging one attempt\<close>

text \<open>
  The two callbacks act on a shared store of type \<open>'st\<close>. An \<^verbatim>\<open>AgentBudgetExceeded\<close> raised by a
  callback passes through; any other exception becomes a persistence error.
\<close>

type_synonym 'st reserve_callback = "amounts \<Rightarrow> 'st \<Rightarrow> (budget_error + amounts) \<times> 'st"
type_synonym 'st persist_callback = "amounts \<Rightarrow> 'st \<Rightarrow> (budget_error + unit) \<times> 'st"

definition persistence_causes :: "string set" where
  "persistence_causes = {''AGENT_BUDGET_CHARGE_INVALID'', ''AGENT_ATTEMPT_CONFLICT'',
     ''AGENT_JOB_NOT_RUNNING'', ''AGENT_INTAKE_NOT_RUNNING'', ''AGENT_INTAKE_NOT_FOUND'',
     ''AGENT_ATTEMPT_USAGE_INVALID''}"

definition wrap_callback_error :: "budget_error \<Rightarrow> budget_error" where
  "wrap_callback_error e =
     (case e of
        Budget_exceeded _ _ _ _ _ _ \<Rightarrow> e
      | Budget_persistence c \<Rightarrow> Budget_persistence ''AGENT_BUDGET_STORAGE_FAILED''
      | Budget_value_error c \<Rightarrow> Budget_persistence
          (if c \<in> persistence_causes then c else ''AGENT_BUDGET_STORAGE_FAILED'')
      | Budget_key_error c \<Rightarrow> Budget_persistence ''AGENT_BUDGET_STORAGE_FAILED''
      | Budget_type_error \<Rightarrow> Budget_persistence ''AGENT_BUDGET_STORAGE_FAILED'')"

definition charge_attempt :: "run_budget option \<Rightarrow> bool \<Rightarrow> amounts
    \<Rightarrow> 'st reserve_callback option \<Rightarrow> 'st persist_callback option \<Rightarrow> 'st
    \<Rightarrow> (budget_error + run_budget option) \<times> 'st" where
  "charge_attempt budget generation charges reserve persist st =
     (case budget of None \<Rightarrow> (Inr None, st)
      | Some b \<Rightarrow>
         (case limit_violation b charges of Some e \<Rightarrow> (Inl e, st)
          | None \<Rightarrow>
         (case (if generation then reserve_violation b charges else None) of Some e \<Rightarrow> (Inl e, st)
          | None \<Rightarrow>
         (case reserve of
            Some f \<Rightarrow>
              (case f charges st of
                 (Inl e, st') \<Rightarrow> (Inl (wrap_callback_error e), st')
               | (Inr reserved, st') \<Rightarrow>
                   (Inr (Some (b\<lparr>rb_used := (\<lambda>k. if k \<in> set provider_dims then reserved k
                                                else rb_used b k)\<rparr>)), st'))
          | None \<Rightarrow>
              (let charged = b\<lparr>rb_used := (\<lambda>k. if k \<in> set provider_dims
                     then consumed b k + charges k else rb_used b k)\<rparr>
               in case persist of
                    None \<Rightarrow> (Inr (Some charged), st)
                  | Some f \<Rightarrow>
                      (case f (\<lambda>k. consumed b k + charges k) st of
                         (Inl e, st') \<Rightarrow> (Inl (wrap_callback_error e), st')
                       | (Inr _, st') \<Rightarrow> (Inr (Some charged), st')))))))"

section \<open>Settling one attempt\<close>

text \<open>
  \<^verbatim>\<open>settle_attempt\<close>: only a complete, non-negative integer usage is reported to the ledger, and
  only when the attempt has an identity. Every exception of the callback is wrapped, a budget
  exception too (its text is its code).
\<close>

type_synonym 'st settle_callback = "string \<Rightarrow> rat \<Rightarrow> 'st \<Rightarrow> (budget_error + amounts) \<times> 'st"

definition wrap_any_error :: "budget_error \<Rightarrow> budget_error" where
  "wrap_any_error e = (case e of Budget_exceeded _ _ _ _ code _ \<Rightarrow> wrap_callback_error (Budget_value_error code)
     | _ \<Rightarrow> wrap_callback_error e)"

definition settle_attempt :: "run_budget \<Rightarrow> pyval \<Rightarrow> bool \<Rightarrow> string option
    \<Rightarrow> 'st settle_callback option \<Rightarrow> 'st \<Rightarrow> (budget_error + run_budget) \<times> 'st" where
  "settle_attempt b actual_output is_complete attempt settle st =
     (if \<not> is_complete then (Inr b, st)
      else case nat_charge actual_output of None \<Rightarrow> (Inr b, st)
      | Some n \<Rightarrow>
         (case (settle, attempt) of
            (Some f, Some a) \<Rightarrow>
              if a = [] then (Inr b, st)
              else (case f a n st of
                 (Inl e, st') \<Rightarrow> (Inl (wrap_any_error e), st')
               | (Inr settled, st') \<Rightarrow>
                   (Inr (b\<lparr>rb_used := (\<lambda>k. if k \<in> set provider_dims then settled k else rb_used b k)\<rparr>), st'))
          | _ \<Rightarrow> (Inr b, st)))"

section \<open>The ledger behind the reserve callback\<close>

locale charge_ledger =
  fixes inv :: "'st \<Rightarrow> bool"
    and used :: "'st \<Rightarrow> amounts"
    and cap :: "'st \<Rightarrow> amounts"
    and reserve :: "'id \<Rightarrow> 'st reserve_callback"
  assumes reserve_ok: "inv s \<Longrightarrow> reserve a c s = (Inr r, s') \<Longrightarrow>
      inv s' \<and> cap s' = cap s \<and> (\<forall>k \<in> set provider_dims. r k = used s' k)"
    and reserve_fail: "reserve a c s = (Inl e, s') \<Longrightarrow> s' = s"
    and within_cap: "inv s \<Longrightarrow> \<forall>k \<in> set provider_dims. used s k \<le> cap s k"
begin

lemma charge_keeps_ledger:
  assumes "inv s" "charge_attempt b gen c (Some (reserve a)) p s = (r, s')"
  shows "inv s' \<and> cap s' = cap s"
proof (cases "s' = s")
  case False
  then obtain bud where "b = Some bud" "limit_violation bud c = None"
    "(if gen then reserve_violation bud c else None) = None"
    using assms(2) by (auto simp: charge_attempt_def split: option.splits if_splits)
  then have "\<exists>x. reserve a c s = (x, s')"
    using assms(2) by (cases "reserve a c s") (auto simp: charge_attempt_def split: sum.splits)
  then obtain x where x: "reserve a c s = (x, s')" by blast
  then obtain y where "x = Inr y"
    using reserve_fail False by (cases x) auto
  then show ?thesis using reserve_ok[OF assms(1)] x by blast
qed (use assms in auto)

text \<open>
  A parent and its child agents hold separate copies of the budget but charge one ledger; a
  sequence of such charges, each with its own copy, phase, amounts and attempt.
\<close>

lemma shared_ledger_bounded:
  assumes "inv s"
  shows "\<forall>k \<in> set provider_dims. used (fold (\<lambda>(b, gen, c, a) s.
      snd (charge_attempt b gen c (Some (reserve a)) None s)) cs s) k \<le> cap s k"
proof -
  have "inv (fold (\<lambda>(b, gen, c, a) s. snd (charge_attempt b gen c (Some (reserve a)) None s)) cs s)
      \<and> cap (fold (\<lambda>(b, gen, c, a) s. snd (charge_attempt b gen c (Some (reserve a)) None s)) cs s) = cap s"
    using assms
  proof (induction cs arbitrary: s)
    case (Cons x cs)
    obtain b gen c a where x: "x = (b, gen, c, a)" by (cases x)
    let ?s = "snd (charge_attempt b gen c (Some (reserve a)) None s)"
    have "inv ?s \<and> cap ?s = cap s"
      using charge_keeps_ledger[OF Cons.prems] by (metis prod.collapse)
    with Cons.IH[of ?s] x show ?case by simp
  qed simp
  then show ?thesis using within_cap by metis
qed

end

section \<open>Charging without a ledger\<close>

lemma find_dims_None:
  "List.find P provider_dims = None \<longleftrightarrow> \<not> P Requests \<and> \<not> P Output_tokens \<and> \<not> P Input_bytes"
  by (simp add: provider_dims_def)

lemma limit_violation_None:
  "limit_violation b c = None \<longleftrightarrow> (\<forall>k \<in> set provider_dims. consumed b k + c k \<le> budget_limits b k)"
  by (auto simp: limit_violation_def find_None_iff not_less)

lemma reserve_violation_None:
  "reserve_violation b c = None \<longleftrightarrow>
     (\<forall>(k, r) \<in> set (rb_phase_reserve b). consumed b k + c k \<le> budget_limits b k - r)"
  by (auto simp: reserve_violation_def find_None_iff not_less)

lemma charge_attempt_error_keeps:
  "charge_attempt (Some b) gen c None None st = (Inl e, st') \<Longrightarrow> st' = st"
  by (auto simp: charge_attempt_def Let_def split: option.splits if_splits)

lemma nat_charge_nonneg: "nat_charge v \<noteq> None \<Longrightarrow> 0 \<le> the (nat_charge v)"
  by (auto simp: nat_charge_def split: pyval.splits if_splits)

lemma validate_attempt_charges_nonneg:
  "validate_attempt_charges v = Inr (c, a) \<Longrightarrow> 0 \<le> c k"
  by (cases v) (auto simp: validate_attempt_charges_def Let_def nat_charge_nonneg
      split: pyval.splits if_splits)

section \<open>The property\<close>

text \<open>A charge that is accepted without a job ledger raises each of the three counters by exactly
  the charge, ends within the run's limit of each dimension, leaves the limits alone, and in the
  generation phase leaves the reserve kept for verification. A refused charge changes neither
  the counters nor the store behind the callbacks.\<close>
theorem charge_within_limits:
  assumes "charge_attempt (Some b) gen c None None st = (r, st')"
  shows "st' = st \<and> (\<forall>b'. r = Inr b' \<longrightarrow> (\<exists>b''. b' = Some b'' \<and> budget_limits b'' = budget_limits b
      \<and> (\<forall>k \<in> set provider_dims. rb_used b'' k = consumed b k + c k \<and> rb_used b'' k \<le> budget_limits b k)
      \<and> (gen \<longrightarrow> (\<forall>(k, reserve) \<in> set (rb_phase_reserve b).
            consumed b k + c k \<le> budget_limits b k - reserve))))
    \<and> (is_ok r \<longleftrightarrow> (\<forall>k \<in> set provider_dims. consumed b k + c k \<le> budget_limits b k)
      \<and> (gen \<longrightarrow> (\<forall>(k, reserve) \<in> set (rb_phase_reserve b).
            consumed b k + c k \<le> budget_limits b k - reserve)))"
  using assms limit_violation_None[of b c] reserve_violation_None[of b c]
  by (cases "limit_violation b c"; cases "reserve_violation b c"; cases gen)
     (auto simp: charge_attempt_def Let_def budget_limits_def)

lemma charge_within_limits_witness:
  "is_ok (fst (charge_attempt (Some (new_budget None)) False (\<lambda>k. 1) None None ()))
   \<and> \<not> is_ok (fst (charge_attempt (Some (new_budget None)) False (\<lambda>k. 121) None None ()))"
proof -
  have "new_budget None = \<lparr>rb_used = (\<lambda>_. 0), rb_limits = None, rb_phase_reserve = []\<rparr>"
    by (simp add: new_budget_def)
  then show ?thesis
    using charge_within_limits[OF surjective_pairing, of "new_budget None" False "\<lambda>k. 1" "()"]
      charge_within_limits[OF surjective_pairing, of "new_budget None" False "\<lambda>k. 121" "()"]
    by (simp add: provider_dims_def consumed_def budget_limits_def LIMITS_def py_int_def)
qed

end
