(* ===== verification/Jobs.thy ===== *)
theory Jobs
  imports Run_Budget
begin

text \<open>
  The persistent objectives above run attempts, \<^verbatim>\<open>AgentJobStore\<close> of
  \<^verbatim>\<open>backend/agent_runtime/jobs.py\<close>: creating, saving and mutating a job, the outage and recovery
  state machine, the idempotent budget extension and resume requests, and the ledger of physical
  provider attempts that owns the output-token dimension of a job.

  A job is the decoded JSON payload of its row; a key that the code pops is an option or a
  boolean. A transaction that raises rolls back, so an operation with an error returns no new
  store. Times are rational seconds and one operation reads the clock once; amounts are rationals
  because elapsed seconds are a float (the other four dimensions only ever receive integers).
  Rows older than schema version 2 are not modelled, and \<^verbatim>\<open>_upgrade\<close> only renumbers the others.
\<close>

section \<open>Jobs and the store\<close>

record outage =
  og_started :: rat
  og_deadline :: rat
  og_cycles :: int
  og_provider_id :: "string option"
  og_model_id :: "string option"
  og_error_code :: string
  og_http_status :: "int option"
  og_origin :: string
  og_reached :: bool

record recovery_claim =
  rc_owner :: string
  rc_expires :: rat

record request_recovery =
  rr_phase :: string
  rr_fields :: "(string \<times> pyval) list"

record job =
  j_project :: string
  j_session :: string
  j_root :: string
  j_current_run :: string
  j_run_ids :: "string list"
  j_status :: string
  j_recovery_policy :: string
  j_paused_by :: "string option"
  j_profile :: string
  j_limits :: amounts
  j_consumed :: amounts
  j_milestones :: "pyval list"
  j_blocking :: "string option"
  j_auto_count :: int
  j_retry_due :: "rat option"
  j_created :: rat
  j_updated :: rat
  j_pinned :: bool
  j_outage :: "outage option"
  j_wait_seconds :: rat
  j_wait_started :: "rat option"
  j_claim :: "recovery_claim option"
  j_ledger :: bool
  j_reserved_output :: rat
  j_request_recovery :: "request_recovery option"

record attempt_row =
  at_id :: string
  at_job :: string
  at_run :: string
  at_reserved :: rat
  at_actual :: "rat option"
  at_completed :: bool
  at_created :: rat
  at_settled :: "rat option"

record request_row =
  rq_fingerprint :: string
  rq_source_run :: "string option"

record trust_row =
  tr_root :: string
  tr_trusted :: bool

record job_store =
  js_jobs :: "string \<rightharpoonup> job"
  js_attempts :: "attempt_row list"
  js_requests :: "(string \<times> string) \<rightharpoonup> request_row"
  js_units :: "(string \<times> string \<times> string) \<rightharpoonup> (string \<times> string)"
  js_trust :: "string \<rightharpoonup> trust_row"

definition DEFAULT_LIMITS :: amounts where
  "DEFAULT_LIMITS k = (case k of Elapsed_seconds \<Rightarrow> 900 | Tool_calls_used \<Rightarrow> 100
     | Requests \<Rightarrow> 120 | Output_tokens \<Rightarrow> 245760 | Input_bytes \<Rightarrow> 8000000)"

definition EXECUTION_PROFILES :: "string \<rightharpoonup> amounts" where
  "EXECUTION_PROFILES = [''standard'' \<mapsto> DEFAULT_LIMITS,
     ''advanced'' \<mapsto> (\<lambda>k. case k of Elapsed_seconds \<Rightarrow> 2700 | Tool_calls_used \<Rightarrow> 300
       | Requests \<Rightarrow> 360 | Output_tokens \<Rightarrow> 737280 | Input_bytes \<Rightarrow> 24000000)]"

definition TRANSIENT_PROVIDER_ERRORS :: "string set" where
  "TRANSIENT_PROVIDER_ERRORS = {''API_RATE_LIMITED'', ''PROVIDER_RATE_LIMITED'', ''API_NETWORK_ERROR'',
     ''PROVIDER_TIMEOUT'', ''PROVIDER_BUSY'', ''PROVIDER_UNAVAILABLE''}"

definition OUTAGE_WINDOW_SECONDS :: rat where
  "OUTAGE_WINDOW_SECONDS = 600"

definition MAX_RECOVERY_CYCLES :: int where
  "MAX_RECOVERY_CYCLES = 3"

section \<open>Helpers on a job\<close>

definition finish_wait :: "rat \<Rightarrow> job \<Rightarrow> job" where
  "finish_wait now j =
     (case j_wait_started j of None \<Rightarrow> j
      | Some started \<Rightarrow> j\<lparr>j_wait_started := None, j_wait_seconds := j_wait_seconds j + max 0 (now - started)\<rparr>)"

definition outage_block :: "rat \<Rightarrow> job \<Rightarrow> string option" where
  "outage_block now j =
     (case j_outage j of None \<Rightarrow> None
      | Some og \<Rightarrow>
          if MAX_RECOVERY_CYCLES \<le> og_cycles og then Some ''AGENT_AUTO_RECOVERY_LIMIT''
          else if og_deadline og \<le> now
              \<or> (case j_retry_due j of Some due \<Rightarrow> og_deadline og \<le> due | None \<Rightarrow> False)
            then Some ''AGENT_OUTAGE_WINDOW_EXHAUSTED''
          else None)"

definition recovery_time_reserve :: "amounts \<Rightarrow> rat" where
  "recovery_time_reserve limits = min 120 (max 30 (limits Elapsed_seconds * (1 / 5)))"

definition TERMINAL :: "string set" where
  "TERMINAL = {''completed'', ''completed_with_warning'', ''failed'', ''cancelled'', ''blocked'', ''timed_out''}"

section \<open>Creating, saving and mutating\<close>

definition raise_to :: "amounts \<Rightarrow> amounts \<Rightarrow> amounts" where
  "raise_to x y = (\<lambda>k. max (x k) (y k))"

definition merge_saved :: "job \<Rightarrow> job \<Rightarrow> job" where
  "merge_saved prior j =
     (let merged = j\<lparr>j_consumed := (\<lambda>k. if k = Output_tokens \<and> j_ledger prior then j_consumed prior k
                        else max (j_consumed j k) (j_consumed prior k)),
                     j_limits := raise_to (j_limits j) (j_limits prior)\<rparr>
      in if j_ledger prior
         then merged\<lparr>j_ledger := True, j_reserved_output := j_reserved_output prior\<rparr>
         else merged)"

definition save_job :: "rat \<Rightarrow> string \<Rightarrow> job \<Rightarrow> job_store \<Rightarrow> job \<times> job_store" where
  "save_job now identity value st =
     (let j = value\<lparr>j_updated := now\<rparr>;
          j' = (case js_jobs st identity of Some prior \<Rightarrow> merge_saved prior j | None \<Rightarrow> j)
      in (j', st\<lparr>js_jobs := (js_jobs st)(identity \<mapsto> j')\<rparr>))"

definition create_job :: "rat \<Rightarrow> string \<Rightarrow> bool \<Rightarrow> string \<Rightarrow> string \<Rightarrow> string \<Rightarrow> string \<Rightarrow> bool \<Rightarrow> string
    \<Rightarrow> job_store \<Rightarrow> (budget_error + job) \<times> job_store" where
  "create_job now identity shared_engine project session workspace_root run_id legacy profile st =
     (case EXECUTION_PROFILES profile of
        None \<Rightarrow> (Inl (Budget_value_error ''AGENT_EXECUTION_PROFILE_INVALID''), st)
      | Some limits \<Rightarrow>
          (let value = \<lparr>j_project = project, j_session = session, j_root = workspace_root, j_current_run = run_id,
                 j_run_ids = [run_id], j_status = ''running'',
                 j_recovery_policy = (if legacy \<or> \<not> shared_engine then ''manual'' else ''safe_auto''),
                 j_paused_by = None, j_profile = profile, j_limits = limits, j_consumed = (\<lambda>_. 0),
                 j_milestones = [], j_blocking = None, j_auto_count = 0, j_retry_due = None,
                 j_created = now, j_updated = now, j_pinned = False, j_outage = None,
                 j_wait_seconds = 0, j_wait_started = None, j_claim = None, j_ledger = False,
                 j_reserved_output = 0, j_request_recovery = None\<rparr>;
               saved = save_job now identity value st
           in (Inr value, snd saved)))"

definition mutate :: "rat \<Rightarrow> string \<Rightarrow> (job \<Rightarrow> job) \<Rightarrow> job_store \<Rightarrow> (budget_error + job) \<times> job_store" where
  "mutate now identity change st =
     (case js_jobs st identity of
        None \<Rightarrow> (Inl (Budget_key_error identity), st)
      | Some j \<Rightarrow>
          (let j' = change j in
           if j' = j then (Inr j, st)
           else (let j'' = j'\<lparr>j_updated := now\<rparr>
                 in (Inr j'', st\<lparr>js_jobs := (js_jobs st)(identity \<mapsto> j'')\<rparr>))))"

definition get_job :: "string \<Rightarrow> job_store \<Rightarrow> budget_error + job" where
  "get_job identity st = (case js_jobs st identity of None \<Rightarrow> Inl (Budget_key_error identity) | Some j \<Rightarrow> Inr j)"

section \<open>Attaching and updating a run\<close>

definition attach :: "rat \<Rightarrow> string \<Rightarrow> string \<Rightarrow> job_store \<Rightarrow> (budget_error + job) \<times> job_store" where
  "attach now identity run_id =
     mutate now identity (\<lambda>j.
       let w = (finish_wait now j)\<lparr>j_claim := None\<rparr>
       in w\<lparr>j_run_ids := (if run_id \<in> set (j_run_ids w) then j_run_ids w else j_run_ids w @ [run_id]),
            j_current_run := run_id, j_status := ''running'', j_paused_by := None, j_retry_due := None,
            j_blocking := None, j_request_recovery := None\<rparr>)"

record run_view =
  rv_run_id :: string
  rv_status :: string
  rv_classification :: string
  rv_plan :: "pyval list"
  rv_provider_id :: "string option"
  rv_model_id :: "string option"
  rv_http_status :: "int option"
  rv_failure_origin :: "string option"
  rv_reached :: bool
  rv_retry_after_ms :: "int option"

record checkpoint_view =
  ck_resume :: "(string \<times> pyval) list"
  ck_fields :: "(string \<times> pyval) list"

text \<open>\<^verbatim>\<open>saved = (checkpoint or {}).get("resume") or checkpoint or {}\<close>\<close>

definition saved_values :: "checkpoint_view option \<Rightarrow> string \<rightharpoonup> pyval" where
  "saved_values checkpoint =
     (case checkpoint of None \<Rightarrow> Map.empty
      | Some c \<Rightarrow> dict_of (if ck_resume c \<noteq> [] then ck_resume c else ck_fields c))"

text \<open>
  \<^verbatim>\<open>max(0, used)\<close> of a number that is not a boolean; infinite counters are not representable and
  are left out like values of other types.
\<close>

definition used_number :: "pyval \<Rightarrow> rat option" where
  "used_number v = (case v of VInt n \<Rightarrow> Some (max 0 (of_int n)) | VFloat (Fin q) \<Rightarrow> Some (max 0 q)
     | VFloat NaN \<Rightarrow> Some 0 | VFloat NegInf \<Rightarrow> Some 0 | _ \<Rightarrow> None)"

definition saved_amount :: "(string \<rightharpoonup> pyval) \<Rightarrow> dim \<Rightarrow> rat option" where
  "saved_amount saved k =
     (let provider = (case py_get saved ''provider_budget'' of VDict kvs \<Rightarrow> dict_of kvs | _ \<Rightarrow> Map.empty);
          used = (case saved (dim_key k) of Some v \<Rightarrow> v
            | None \<Rightarrow> (case provider (dim_key k) of Some v \<Rightarrow> v | None \<Rightarrow> VInt 0))
      in used_number used)"

definition consume_saved :: "(string \<rightharpoonup> pyval) \<Rightarrow> job \<Rightarrow> job" where
  "consume_saved saved j = j\<lparr>j_consumed := (\<lambda>k.
     if k = Output_tokens \<and> j_ledger j then j_consumed j k
     else case saved_amount saved k of None \<Rightarrow> j_consumed j k | Some q \<Rightarrow> max (j_consumed j k) q)\<rparr>"

definition over_limit :: "job \<Rightarrow> bool" where
  "over_limit j = (\<exists>k. j_limits j k \<le> j_consumed j k)"

definition is_trusted :: "string \<Rightarrow> string \<Rightarrow> job_store \<Rightarrow> bool" where
  "is_trusted project workspace_root st =
     (case js_trust st project of None \<Rightarrow> False | Some t \<Rightarrow> tr_trusted t \<and> tr_root t = workspace_root)"

definition set_trust :: "string \<Rightarrow> string \<Rightarrow> bool \<Rightarrow> job_store \<Rightarrow> job_store" where
  "set_trust project workspace_root trusted st =
     st\<lparr>js_trust := (js_trust st)(project \<mapsto> \<lparr>tr_root = workspace_root, tr_trusted = trusted\<rparr>)\<rparr>"

definition settled_statuses :: "string set" where
  "settled_statuses = {''completed'', ''completed_with_warning'', ''cancelled''}"

definition recovery_delay :: "run_view \<Rightarrow> int \<Rightarrow> rat \<Rightarrow> rat" where
  "recovery_delay run auto_count jitter =
     (let base_delay = (if rv_classification run \<in> {''PROVIDER_UNAVAILABLE'', ''PROVIDER_TIMEOUT'',
            ''API_NETWORK_ERROR''} then 30 else 5);
          hint = (case rv_retry_after_ms run of Some ms \<Rightarrow> of_int ms / 1000 | None \<Rightarrow> 0)
      in max (min 120 (base_delay * 2 ^ nat (min auto_count 3)) * jitter) hint)"

definition transient_pause :: "run_view \<Rightarrow> bool" where
  "transient_pause run \<longleftrightarrow> rv_status run = ''paused_model_unavailable''
     \<and> rv_classification run \<in> TRANSIENT_PROVIDER_ERRORS"

definition schedule_retry :: "rat \<Rightarrow> rat \<Rightarrow> run_view \<Rightarrow> job \<Rightarrow> job" where
  "schedule_retry now jitter run j =
     (if transient_pause run \<and> j_retry_due j = None
      then (let og = (case j_outage j of Some og \<Rightarrow> og
                | None \<Rightarrow> \<lparr>og_started = now, og_deadline = now + OUTAGE_WINDOW_SECONDS,
                    og_cycles = j_auto_count j, og_provider_id = rv_provider_id run,
                    og_model_id = rv_model_id run, og_error_code = [], og_http_status = None,
                    og_origin = [], og_reached = False\<rparr>);
                og' = og\<lparr>og_error_code := rv_classification run, og_http_status := rv_http_status run,
                    og_origin := (case rv_failure_origin run of Some (c # cs) \<Rightarrow> c # cs | _ \<Rightarrow> ''provider''),
                    og_reached := rv_reached run\<rparr>;
                w = j\<lparr>j_outage := Some og',
                      j_retry_due := Some (now + recovery_delay run (j_auto_count j) jitter),
                      j_wait_started := Some now\<rparr>
            in case outage_block now w of None \<Rightarrow> w
               | Some reason \<Rightarrow> w\<lparr>j_status := ''paused_model_unavailable'', j_blocking := Some reason\<rparr>)
      else j)"

definition budget_classifications :: "string set" where
  "budget_classifications = {''AGENT_PROVIDER_BUDGET_EXCEEDED'', ''AGENT_JOB_BUDGET_EXHAUSTED'',
     ''AGENT_RUNTIME_TOOL_BUDGET_EXCEEDED'', ''AGENT_RUNTIME_LIMIT_EXCEEDED'',
     ''AGENT_VERIFICATION_RESERVE_REACHED''}"

definition pause_for_time :: "run_view \<Rightarrow> job \<Rightarrow> job" where
  "pause_for_time run j =
     (if transient_pause run
          \<and> j_limits j Elapsed_seconds - j_consumed j Elapsed_seconds < recovery_time_reserve (j_limits j)
      then j\<lparr>j_status := ''paused'', j_paused_by := Some ''budget'',
             j_blocking := Some ''AGENT_JOB_TIME_RESERVE_REQUIRED'', j_retry_due := None\<rparr>
      else j)"

definition pause_for_budget :: "run_view \<Rightarrow> job \<Rightarrow> job" where
  "pause_for_budget run j =
     (if rv_status run \<notin> {''completed'', ''completed_with_warning''}
          \<and> (rv_classification run \<in> budget_classifications \<or> over_limit j)
      then j\<lparr>j_status := ''paused'', j_paused_by := Some ''budget'',
             j_blocking := Some (if rv_classification run = ''AGENT_VERIFICATION_RESERVE_REACHED''
                                    \<and> \<not> over_limit j
               then ''AGENT_VERIFICATION_RESERVE_REACHED'' else ''AGENT_JOB_BUDGET_EXHAUSTED'')\<rparr>
      else j)"

definition apply_run_status :: "rat \<Rightarrow> run_view \<Rightarrow> job \<Rightarrow> job" where
  "apply_run_status now run j =
     (let a = j\<lparr>j_status := (if py_true_opt (j_paused_by j) then ''paused''
                  else if rv_classification run = ''AGENT_RUNTIME_INTERRUPTED'' then ''interrupted''
                  else rv_status run)\<rparr>;
          b = (if rv_status run \<noteq> ''running'' then a\<lparr>j_request_recovery := None\<rparr> else a)
      in if rv_status run \<in> settled_statuses
         then (finish_wait now b)\<lparr>j_outage := None, j_retry_due := None\<rparr> else b)"

definition update_job :: "rat \<Rightarrow> rat \<Rightarrow> run_view \<Rightarrow> checkpoint_view option \<Rightarrow> bool \<Rightarrow> job \<Rightarrow> job" where
  "update_job now jitter run checkpoint trusted j =
     (if j_current_run j \<noteq> rv_run_id run then j
      else
        let saved = saved_values checkpoint;
            plan = (if rv_plan run \<noteq> [] then rv_plan run
                    else case py_get saved ''plan'' of VList vs \<Rightarrow> vs | _ \<Rightarrow> []);
            a = apply_run_status now run ((consume_saved saved j)\<lparr>j_milestones := plan\<rparr>)
        in if j_blocking a = Some ''AGENT_RESUME_WORKSPACE_UNAVAILABLE''
           then (let b = (finish_wait now a)\<lparr>j_retry_due := None\<rparr>
                 in if rv_status run \<in> settled_statuses then b else b\<lparr>j_status := ''blocked''\<rparr>)
           else
             let b = (if rv_status run = ''blocked'' \<and> rv_classification run = ''AGENT_PROJECT_TRUST_REQUIRED''
                         \<and> \<not> trusted
                      then (finish_wait now a)\<lparr>j_blocking := Some ''AGENT_PROJECT_TRUST_REQUIRED'',
                             j_retry_due := None\<rparr>
                      else a)
             in pause_for_budget run (pause_for_time run (schedule_retry now jitter run b)))"

definition update_run :: "rat \<Rightarrow> rat \<Rightarrow> string \<Rightarrow> run_view \<Rightarrow> checkpoint_view option \<Rightarrow> job_store
    \<Rightarrow> (budget_error + job) \<times> job_store" where
  "update_run now jitter identity run checkpoint st =
     mutate now identity (\<lambda>j. update_job now jitter run checkpoint
       (is_trusted (j_project j) (j_root j) st) j) st"

section \<open>Recovery\<close>

definition last_segment :: "string \<Rightarrow> string" where
  "last_segment s = rev (takeWhile (\<lambda>c. c \<noteq> CHR ''.'') (rev s))"

definition record_retry :: "rat \<Rightarrow> string \<Rightarrow> string \<Rightarrow> string \<Rightarrow> (string \<rightharpoonup> pyval) \<Rightarrow> job_store
    \<Rightarrow> (budget_error + job) \<times> job_store" where
  "record_retry now identity run_id event_type event =
     mutate now identity (\<lambda>j.
       if j_current_run j \<noteq> run_id then j
       else let phase = last_segment event_type in
         if phase = ''settled''
         then (finish_wait now (j\<lparr>j_request_recovery := None\<rparr>))
                \<lparr>j_outage := None, j_auto_count := 0, j_retry_due := None\<rparr>
         else j\<lparr>j_request_recovery := Some
                \<lparr>rr_phase = (if phase = ''scheduled'' then ''retrying''
                    else if phase = ''started'' then ''running'' else ''cancelled''),
                 rr_fields = map (\<lambda>k. (k, py_get event k)) [''attempt'', ''max_attempts'', ''error_code'',
                   ''retry_due_at'', ''http_status'', ''provider_id'', ''model_id'', ''origin'',
                   ''request_reached_provider'']\<rparr>\<rparr>)"

definition begin_manual_recovery :: "rat \<Rightarrow> string \<Rightarrow> job_store \<Rightarrow> (budget_error + job) \<times> job_store" where
  "begin_manual_recovery now identity =
     mutate now identity (\<lambda>j.
       let w = (finish_wait now j)\<lparr>j_outage := None, j_auto_count := 0, j_claim := None\<rparr>
       in if j_blocking w = Some ''AGENT_AUTO_RECOVERY_LIMIT''
             \<or> j_blocking w = Some ''AGENT_OUTAGE_WINDOW_EXHAUSTED''
          then w\<lparr>j_blocking := None\<rparr> else w)"

definition recoverable_statuses :: "string set" where
  "recoverable_statuses = {''paused_model_unavailable'', ''interrupted'', ''failed''}"

definition claim_change :: "rat \<Rightarrow> string \<Rightarrow> job \<Rightarrow> bool \<times> job" where
  "claim_change now owner j =
     (if j_recovery_policy j \<noteq> ''safe_auto'' \<or> py_true_opt (j_paused_by j)
         \<or> j_status j \<notin> recoverable_statuses then (False, j)
      else case outage_block now j of
        Some reason \<Rightarrow> (False, j\<lparr>j_blocking := Some reason\<rparr>)
      | None \<Rightarrow>
          if (case j_retry_due j of Some due \<Rightarrow> now < due | None \<Rightarrow> False) then (False, j)
          else if (case j_claim j of Some c \<Rightarrow> now < rc_expires c | None \<Rightarrow> False) then (False, j)
          else (True, j\<lparr>j_claim := Some \<lparr>rc_owner = owner, rc_expires = now + 90\<rparr>,
                  j_auto_count := j_auto_count j + 1,
                  j_outage := map_option (\<lambda>og. og\<lparr>og_cycles := og_cycles og + 1\<rparr>) (j_outage j)\<rparr>))"

definition claim_recovery :: "rat \<Rightarrow> string \<Rightarrow> string \<Rightarrow> job_store \<Rightarrow> (budget_error + bool) \<times> job_store" where
  "claim_recovery now identity owner st =
     (case js_jobs st identity of
        None \<Rightarrow> (Inl (Budget_key_error identity), st)
      | Some j \<Rightarrow> (Inr (fst (claim_change now owner j)),
                   snd (mutate now identity (\<lambda>j. snd (claim_change now owner j)) st)))"

text \<open>The phase and the remaining budget of the public projection.\<close>

definition public_phase :: "rat \<Rightarrow> job \<Rightarrow> string option" where
  "public_phase now j =
     (case j_request_recovery j of Some r \<Rightarrow> Some (rr_phase r)
      | None \<Rightarrow> map_option (\<lambda>og.
          if py_true_opt (j_blocking j) \<or> py_true_opt (j_paused_by j) then ''blocked''
          else if j_claim j \<noteq> None then ''probe''
          else case j_retry_due j of Some due \<Rightarrow> if now < due then ''retry_wait'' else ''ready_to_resume''
             | None \<Rightarrow> ''ready_to_resume'') (j_outage j))"

definition public_remaining :: "job \<Rightarrow> amounts" where
  "public_remaining j = (\<lambda>k. max 0 (j_limits j k - j_consumed j k))"

section \<open>Budget extension and resume requests\<close>

definition extension_dims :: "dim list" where
  "extension_dims = [Elapsed_seconds, Tool_calls_used, Requests]"

definition extension_value :: "dim \<Rightarrow> pyval \<Rightarrow> int option" where
  "extension_value k v = (case v of VInt n \<Rightarrow> if 1 \<le> n \<and> of_int n \<le> DEFAULT_LIMITS k then Some n else None
     | _ \<Rightarrow> None)"

definition parse_extension :: "(string \<times> pyval) list \<Rightarrow> (dim \<Rightarrow> int option) option" where
  "parse_extension extension =
     (let d = dict_of extension in
      if set (map fst extension) \<subseteq> dim_key ` set extension_dims
         \<and> (\<forall>k \<in> set extension_dims. case d (dim_key k) of None \<Rightarrow> True | Some v \<Rightarrow> extension_value k v \<noteq> None)
      then Some (\<lambda>k. if k \<in> set extension_dims then Option.bind (d (dim_key k)) (extension_value k) else None)
      else None)"

definition extended_limits :: "(dim \<Rightarrow> int option) \<Rightarrow> amounts \<Rightarrow> amounts" where
  "extended_limits extension limits = (\<lambda>k.
     case extension k of
       Some n \<Rightarrow> min (DEFAULT_LIMITS k * 10) (limits k + of_int n)
     | None \<Rightarrow>
         (case extension Requests of
            Some n \<Rightarrow> if k = Output_tokens \<or> k = Input_bytes
              then min (DEFAULT_LIMITS k * 10)
                (limits k + of_int \<lfloor>DEFAULT_LIMITS k * of_int n / DEFAULT_LIMITS Requests\<rfloor>)
              else limits k
          | None \<Rightarrow> limits k))"

definition extend_budget :: "codec \<Rightarrow> rat \<Rightarrow> string \<Rightarrow> (string \<times> pyval) list \<Rightarrow> string \<Rightarrow> job_store
    \<Rightarrow> (budget_error + job) \<times> job_store" where
  "extend_budget cd now identity extension request_key st =
     (case parse_extension extension of
        None \<Rightarrow> (Inl (Budget_value_error ''AGENT_JOB_BUDGET_EXTENSION_INVALID''), st)
      | Some ext \<Rightarrow>
          (let fingerprint = sha256 cd (json_spaced cd (VDict extension)) in
           case js_jobs st identity of
             None \<Rightarrow> (Inl (Budget_key_error identity), st)
           | Some j \<Rightarrow>
               (case js_requests st (identity, request_key) of
                  Some row \<Rightarrow>
                    if rq_fingerprint row \<noteq> fingerprint
                    then (Inl (Budget_value_error ''AGENT_JOB_REQUEST_CONFLICT''), st) else (Inr j, st)
                | None \<Rightarrow>
                    (let j' = j\<lparr>j_limits := extended_limits ext (j_limits j), j_paused_by := None,
                                j_blocking := None, j_updated := now\<rparr>
                     in (Inr j', st\<lparr>
                          js_requests := (js_requests st)((identity, request_key) \<mapsto>
                            \<lparr>rq_fingerprint = fingerprint, rq_source_run = None\<rparr>),
                          js_jobs := (js_jobs st)(identity \<mapsto> j')\<rparr>)))))"

definition resume_fingerprint :: "codec \<Rightarrow> pyval \<Rightarrow> pyval \<Rightarrow> string" where
  "resume_fingerprint cd selection checkpoint_id =
     sha256 cd (if \<not> py_true selection \<and> \<not> py_true checkpoint_id then ''resume''
       else json_text cd (VDict [(''selection'', selection), (''checkpoint_id'', checkpoint_id)]))"

definition reserve_resume :: "codec \<Rightarrow> string \<Rightarrow> string \<Rightarrow> pyval \<Rightarrow> pyval \<Rightarrow> job_store
    \<Rightarrow> (budget_error + string) \<times> job_store" where
  "reserve_resume cd identity request_key selection checkpoint_id st =
     (let fingerprint = resume_fingerprint cd selection checkpoint_id in
      case js_requests st (identity, request_key) of
        Some row \<Rightarrow>
          if rq_fingerprint row \<noteq> fingerprint
          then (Inl (Budget_value_error ''AGENT_JOB_REQUEST_CONFLICT''), st)
          else (case rq_source_run row of
                  Some run \<Rightarrow> (Inr run, st) | None \<Rightarrow> (Inl (Budget_key_error ''source_run_id''), st))
      | None \<Rightarrow>
          (case js_jobs st identity of
             None \<Rightarrow> (Inl (Budget_key_error identity), st)
           | Some j \<Rightarrow> (Inr (j_current_run j), st\<lparr>js_requests := (js_requests st)((identity, request_key) \<mapsto>
                 \<lparr>rq_fingerprint = fingerprint, rq_source_run = Some (j_current_run j)\<rparr>)\<rparr>)))"

section \<open>The ledger of provider attempts\<close>

definition persist_provider_budget :: "rat \<Rightarrow> string \<Rightarrow> amounts \<Rightarrow> job_store \<Rightarrow> (budget_error + unit) \<times> job_store" where
  "persist_provider_budget now identity used st =
     (case js_jobs st identity of
        None \<Rightarrow> (Inl (Budget_key_error identity), st)
      | Some j \<Rightarrow>
          (case List.find (\<lambda>k. j_limits j k < used k) provider_dims of
             Some k \<Rightarrow> (Inl (exceeded k (j_consumed j k) (j_limits j k) (max 0 (used k - j_consumed j k))
                           ''AGENT_JOB_BUDGET_EXHAUSTED''), st)
           | None \<Rightarrow> (Inr (), st\<lparr>js_jobs := (js_jobs st)(identity \<mapsto>
               j\<lparr>j_consumed := (\<lambda>k. if k \<in> set provider_dims then max (j_consumed j k) (used k)
                                     else j_consumed j k), j_updated := now\<rparr>)\<rparr>)))"

definition find_attempt :: "string \<Rightarrow> job_store \<Rightarrow> attempt_row option" where
  "find_attempt attempt st = List.find (\<lambda>r. at_id r = attempt) (js_attempts st)"

definition reserve_attempt :: "rat \<Rightarrow> string \<Rightarrow> string \<Rightarrow> string \<Rightarrow> amounts \<Rightarrow> job_store
    \<Rightarrow> (budget_error + amounts) \<times> job_store" where
  "reserve_attempt now identity run_id attempt charges st =
     (case js_jobs st identity of
        None \<Rightarrow> (Inl (Budget_key_error identity), st)
      | Some j \<Rightarrow>
          if j_current_run j \<noteq> run_id \<or> j_status j \<notin> {''running'', ''queued''} \<or> py_true_opt (j_paused_by j)
          then (Inl (Budget_value_error ''AGENT_JOB_NOT_RUNNING''), st)
          else case find_attempt attempt st of
            Some row \<Rightarrow>
              if (at_job row, at_run row, at_reserved row) \<noteq> (identity, run_id, charges Output_tokens)
              then (Inl (Budget_value_error ''AGENT_ATTEMPT_CONFLICT''), st)
              else (Inr (j_consumed j), st)
          | None \<Rightarrow>
              (case List.find (\<lambda>k. j_limits j k < j_consumed j k + charges k) provider_dims of
                 Some k \<Rightarrow> (Inl (exceeded k (j_consumed j k) (j_limits j k) (charges k)
                              ''AGENT_JOB_BUDGET_EXHAUSTED''), st)
               | None \<Rightarrow>
                   (let reserved = (\<lambda>k. if k \<in> set provider_dims then j_consumed j k + charges k
                                        else j_consumed j k);
                        j' = j\<lparr>j_consumed := reserved, j_ledger := True,
                               j_reserved_output := j_reserved_output j + charges Output_tokens,
                               j_updated := now\<rparr>;
                        row = \<lparr>at_id = attempt, at_job = identity, at_run = run_id,
                               at_reserved = charges Output_tokens, at_actual = None,
                               at_completed = False, at_created = now, at_settled = None\<rparr>
                    in (Inr reserved, st\<lparr>js_attempts := js_attempts st @ [row],
                          js_jobs := (js_jobs st)(identity \<mapsto> j')\<rparr>))))"

definition reserve_provider_attempt :: "rat \<Rightarrow> string \<Rightarrow> string \<Rightarrow> string \<Rightarrow> pyval \<Rightarrow> job_store
    \<Rightarrow> (budget_error + amounts) \<times> job_store" where
  "reserve_provider_attempt now fresh identity run_id charges st =
     (case validate_attempt_charges charges of
        Inl e \<Rightarrow> (Inl e, st)
      | Inr (numeric, attempt) \<Rightarrow>
          reserve_attempt now identity run_id (case attempt of Some a \<Rightarrow> a | None \<Rightarrow> fresh) numeric st)"

definition settle_provider_attempt :: "rat \<Rightarrow> string \<Rightarrow> string \<Rightarrow> pyval \<Rightarrow> job_store
    \<Rightarrow> (budget_error + amounts) \<times> job_store" where
  "settle_provider_attempt now identity attempt actual_output st =
     (case nat_charge actual_output of
        None \<Rightarrow> (Inl (Budget_value_error ''AGENT_ATTEMPT_USAGE_INVALID''), st)
      | Some actual \<Rightarrow>
          (case List.find (\<lambda>r. at_id r = attempt \<and> at_job r = identity) (js_attempts st) of
             None \<Rightarrow> (Inl (Budget_value_error ''AGENT_ATTEMPT_USAGE_INVALID''), st)
           | Some row \<Rightarrow>
               if at_reserved row < actual
               then (Inl (Budget_value_error ''AGENT_ATTEMPT_USAGE_INVALID''), st)
               else case js_jobs st identity of
                 None \<Rightarrow> (Inl Budget_type_error, st)
               | Some j \<Rightarrow>
                   if at_completed row
                   then if at_actual row \<noteq> Some actual
                     then (Inl (Budget_value_error ''AGENT_ATTEMPT_USAGE_CONFLICT''), st)
                     else (Inr (j_consumed j), st)
                   else
                     (let j' = j\<lparr>j_consumed := (j_consumed j)(Output_tokens :=
                              j_consumed j Output_tokens - (at_reserved row - actual)), j_updated := now\<rparr>
                      in (Inr (j_consumed j'), st\<lparr>
                           js_attempts := map (\<lambda>r. if at_id r = attempt
                             then r\<lparr>at_actual := Some actual, at_completed := True, at_settled := Some now\<rparr>
                             else r) (js_attempts st),
                           js_jobs := (js_jobs st)(identity \<mapsto> j')\<rparr>))))"

record accounting =
  ac_reserved :: rat
  ac_completed :: rat
  ac_unresolved :: rat
  ac_attempts :: nat

definition job_attempts :: "string \<Rightarrow> job_store \<Rightarrow> attempt_row list" where
  "job_attempts identity st = filter (\<lambda>r. at_job r = identity) (js_attempts st)"

definition attempt_accounting :: "string \<Rightarrow> job_store \<Rightarrow> accounting" where
  "attempt_accounting identity st =
     (let rows = job_attempts identity st in
      \<lparr>ac_reserved = sum_list (map at_reserved rows),
       ac_completed = sum_list (map (\<lambda>r. if at_completed r then case at_actual r of Some n \<Rightarrow> n | None \<Rightarrow> 0
                                         else 0) rows),
       ac_unresolved = sum_list (map (\<lambda>r. if at_completed r then 0 else at_reserved r) rows),
       ac_attempts = length rows\<rparr>)"

section \<open>Tools, elapsed time and review units\<close>

definition charge_tool :: "rat \<Rightarrow> string \<Rightarrow> string \<Rightarrow> job_store \<Rightarrow> (budget_error + unit) \<times> job_store" where
  "charge_tool now identity operation st =
     (let key = ''tool:'' @ operation in
      case js_requests st (identity, key) of Some _ \<Rightarrow> (Inr (), st)
      | None \<Rightarrow>
         (case js_jobs st identity of
            None \<Rightarrow> (Inl (Budget_key_error identity), st)
          | Some j \<Rightarrow>
              if j_limits j Tool_calls_used \<le> j_consumed j Tool_calls_used
              then (Inl (Budget_value_error ''AGENT_JOB_BUDGET_EXHAUSTED''), st)
              else (Inr (), st\<lparr>
                js_requests := (js_requests st)((identity, key) \<mapsto> \<lparr>rq_fingerprint = ''tool'', rq_source_run = None\<rparr>),
                js_jobs := (js_jobs st)(identity \<mapsto> j\<lparr>j_consumed := (j_consumed j)(Tool_calls_used :=
                   j_consumed j Tool_calls_used + 1), j_updated := now\<rparr>)\<rparr>)))"

definition record_elapsed :: "rat \<Rightarrow> string \<Rightarrow> rat \<Rightarrow> job_store \<Rightarrow> (budget_error + unit) \<times> job_store" where
  "record_elapsed now identity elapsed st =
     (case js_jobs st identity of
        None \<Rightarrow> (Inl (Budget_key_error identity), st)
      | Some j \<Rightarrow> (Inr (), st\<lparr>js_jobs := (js_jobs st)(identity \<mapsto> j\<lparr>j_consumed := (j_consumed j)(Elapsed_seconds :=
          max (j_consumed j Elapsed_seconds) elapsed), j_updated := now\<rparr>)\<rparr>))"

definition review_unit :: "codec \<Rightarrow> string \<Rightarrow> string \<Rightarrow> string \<Rightarrow> job_store \<Rightarrow> string option" where
  "review_unit cd identity cache_key unit_id st =
     (case js_units st (identity, cache_key, unit_id) of
        None \<Rightarrow> None
      | Some (payload, checksum) \<Rightarrow> if sha256 cd payload = checksum then Some payload else None)"

definition save_review_unit :: "codec \<Rightarrow> string \<Rightarrow> string \<Rightarrow> (string \<times> pyval) list \<Rightarrow> job_store
    \<Rightarrow> (budget_error + unit) \<times> job_store" where
  "save_review_unit cd identity cache_key unit_items st =
     (let encoded = json_text cd (VDict unit_items) in
      if 16000 < length encoded then (Inl (Budget_value_error ''SEMANTIC_REVIEW_UNIT_RESULT_TOO_LARGE''), st)
      else case py_get (dict_of unit_items) ''unit_id'' of
          VStr unit_id \<Rightarrow> (Inr (), st\<lparr>js_units := (js_units st)((identity, cache_key, unit_id) \<mapsto>
              (encoded, sha256 cd encoded))\<rparr>)
        | _ \<Rightarrow> (Inl (Budget_key_error ''unit_id''), st))"

end
