(* ===== verification/Job_Ledger.thy ===== *)
theory Job_Ledger
  imports Jobs
begin

text \<open>
  Properties of the job store over arbitrary sequences of its operations: the output-token ledger
  follows the attempts and the totals that \<^verbatim>\<open>persist_provider_budget\<close> takes over, reservations and
  settlements are idempotent per attempt, budget extensions are idempotent and bounded, and recovery claims are exclusive and bounded. The charge of a request
  (\<open>Run_Budget\<close>) is tied to the ledger by interpreting \<open>charge_ledger\<close> on the job store, which is
  the binding made by \<^verbatim>\<open>bind_job_resources\<close> of \<^verbatim>\<open>backend/agent_runtime/lifecycle.py\<close>.
\<close>

section \<open>Sequences of operations\<close>

datatype job_event =
    Ev_create rat string bool string string string string bool string
  | Ev_save rat string job
  | Ev_attach rat string string
  | Ev_update rat rat string run_view "checkpoint_view option"
  | Ev_retry rat string string string "string \<rightharpoonup> pyval"
  | Ev_manual rat string
  | Ev_claim rat string string
  | Ev_extend rat string "(string \<times> pyval) list" string
  | Ev_resume string string pyval pyval
  | Ev_persist rat string amounts
  | Ev_reserve rat string string string pyval
  | Ev_settle rat string string pyval
  | Ev_tool rat string string
  | Ev_elapsed rat string rat
  | Ev_trust string string bool
  | Ev_unit string string "(string \<times> pyval) list"

fun job_step :: "codec \<Rightarrow> job_event \<Rightarrow> job_store \<Rightarrow> job_store" where
  "job_step cd (Ev_create now identity eng p s w r legacy profile) st =
     snd (create_job now identity eng p s w r legacy profile st)"
| "job_step cd (Ev_save now identity j) st = snd (save_job now identity j st)"
| "job_step cd (Ev_attach now identity run) st = snd (attach now identity run st)"
| "job_step cd (Ev_update now jitter identity run ck) st = snd (update_run now jitter identity run ck st)"
| "job_step cd (Ev_retry now identity run ty ev) st = snd (record_retry now identity run ty ev st)"
| "job_step cd (Ev_manual now identity) st = snd (begin_manual_recovery now identity st)"
| "job_step cd (Ev_claim now identity owner) st = snd (claim_recovery now identity owner st)"
| "job_step cd (Ev_extend now identity ext key) st = snd (extend_budget cd now identity ext key st)"
| "job_step cd (Ev_resume identity key sel ck) st = snd (reserve_resume cd identity key sel ck st)"
| "job_step cd (Ev_persist now identity used) st = snd (persist_provider_budget now identity used st)"
| "job_step cd (Ev_reserve now fresh identity run c) st =
     snd (reserve_provider_attempt now fresh identity run c st)"
| "job_step cd (Ev_settle now identity attempt n) st = snd (settle_provider_attempt now identity attempt n st)"
| "job_step cd (Ev_tool now identity op) st = snd (charge_tool now identity op st)"
| "job_step cd (Ev_elapsed now identity e) st = snd (record_elapsed now identity e st)"
| "job_step cd (Ev_trust p w b) st = set_trust p w b st"
| "job_step cd (Ev_unit identity cache items) st = snd (save_review_unit cd identity cache items st)"

section \<open>Operations that leave the ledger alone\<close>

definition keeps_ledger :: "job \<Rightarrow> job \<Rightarrow> bool" where
  "keeps_ledger j j' \<longleftrightarrow> (j_ledger j \<longrightarrow> j_ledger j' \<and> j_reserved_output j' = j_reserved_output j
     \<and> j_consumed j' Output_tokens = j_consumed j Output_tokens)"

lemma keeps_ledger_refl [simp]: "keeps_ledger j j"
  by (simp add: keeps_ledger_def)

lemma keeps_ledger_trans: "keeps_ledger a b \<Longrightarrow> keeps_ledger b c \<Longrightarrow> keeps_ledger a c"
  by (simp add: keeps_ledger_def)

lemma keeps_ledger_same:
  "j_ledger j' = j_ledger j \<Longrightarrow> j_reserved_output j' = j_reserved_output j \<Longrightarrow> j_consumed j' = j_consumed j
     \<Longrightarrow> keeps_ledger j j'"
  by (simp add: keeps_ledger_def)

named_theorems same_budget \<open>what a change of a job leaves of its budget\<close>

abbreviation budget_of :: "job \<Rightarrow> amounts \<times> amounts \<times> bool \<times> rat" where
  "budget_of j \<equiv> (j_limits j, j_consumed j, j_ledger j, j_reserved_output j)"

lemma finish_wait_budget [same_budget]: "budget_of (finish_wait now j) = budget_of j"
  by (simp add: finish_wait_def split: option.split)

lemma schedule_retry_budget [same_budget]: "budget_of (schedule_retry now jit run j) = budget_of j"
  by (simp add: schedule_retry_def Let_def split: option.split)

lemma pause_for_time_budget [same_budget]: "budget_of (pause_for_time run j) = budget_of j"
  by (simp add: pause_for_time_def)

lemma pause_for_budget_budget [same_budget]: "budget_of (pause_for_budget run j) = budget_of j"
  by (simp add: pause_for_budget_def)

lemma apply_run_status_budget [same_budget]: "budget_of (apply_run_status now run j) = budget_of j"
  using finish_wait_budget by (simp add: apply_run_status_def Let_def)

lemma claim_change_budget [same_budget]: "budget_of (snd (claim_change now owner j)) = budget_of j"
  by (simp add: claim_change_def split: option.split)

lemma consume_saved_keeps: "keeps_ledger j (consume_saved saved j)"
  by (simp add: consume_saved_def keeps_ledger_def)

lemma update_job_keeps: "keeps_ledger j (update_job now jit run ck tr j)"
proof (cases "j_current_run j = rv_run_id run")
  case True
  let ?s = "consume_saved (saved_values ck) j"
  have "budget_of (update_job now jit run ck tr j) = budget_of ?s"
    using True same_budget by (simp add: update_job_def Let_def)
  then show ?thesis
    using consume_saved_keeps[of j "saved_values ck"] by (simp add: keeps_ledger_def)
qed (simp add: update_job_def)

lemma merge_saved_keeps: "keeps_ledger j (merge_saved j v)"
  by (simp add: merge_saved_def keeps_ledger_def Let_def)

text \<open>A step that keeps the attempt rows and every job that is on the ledger.\<close>

definition ledger_frame :: "job_store \<Rightarrow> job_store \<Rightarrow> bool" where
  "ledger_frame st st' \<longleftrightarrow> js_attempts st' = js_attempts st
     \<and> (\<forall>identity j. js_jobs st identity = Some j \<longrightarrow>
          (\<exists>j'. js_jobs st' identity = Some j' \<and> keeps_ledger j j'))"

lemma ledger_frame_refl [simp]: "ledger_frame st st"
  by (simp add: ledger_frame_def)

lemma ledger_frame_jobs:
  "js_attempts st' = js_attempts st \<Longrightarrow> js_jobs st' = js_jobs st \<Longrightarrow> ledger_frame st st'"
  by (simp add: ledger_frame_def)

lemma ledger_frame_upd:
  assumes "js_attempts st' = js_attempts st" "js_jobs st' = (js_jobs st)(identity \<mapsto> j')"
    and "\<And>j. js_jobs st identity = Some j \<Longrightarrow> keeps_ledger j j'"
  shows "ledger_frame st st'"
  using assms by (auto simp: ledger_frame_def)

lemma mutate_frame:
  assumes "\<And>j. js_jobs st identity = Some j \<Longrightarrow> keeps_ledger j (change j)"
  shows "ledger_frame st (snd (mutate now identity change st))"
proof (cases "js_jobs st identity")
  case (Some j)
  then show ?thesis using assms[OF Some]
    by (auto simp: mutate_def Let_def ledger_frame_def keeps_ledger_def)
qed (simp add: mutate_def)

lemma keeps_budget: "budget_of j' = budget_of j \<Longrightarrow> keeps_ledger j j'"
  by (simp add: keeps_ledger_def)

lemma save_frame: "ledger_frame st (snd (save_job now identity v st))"
  by (rule ledger_frame_upd[where identity = identity])
     (auto simp: save_job_def Let_def merge_saved_keeps)

lemma create_frame: "ledger_frame st (snd (create_job now identity eng p s w r legacy profile st))"
  using save_frame by (simp add: create_job_def Let_def split: option.split)

lemma attach_frame: "ledger_frame st (snd (attach now identity run st))"
  unfolding attach_def using finish_wait_budget
  by (intro mutate_frame keeps_budget) (simp add: Let_def)

lemma update_frame: "ledger_frame st (snd (update_run now jit identity run ck st))"
  unfolding update_run_def by (intro mutate_frame update_job_keeps)

lemma retry_frame: "ledger_frame st (snd (record_retry now identity run ty ev st))"
  unfolding record_retry_def using finish_wait_budget
  by (intro mutate_frame keeps_budget) (simp add: Let_def)

lemma manual_frame: "ledger_frame st (snd (begin_manual_recovery now identity st))"
  unfolding begin_manual_recovery_def using finish_wait_budget
  by (intro mutate_frame keeps_budget) (simp add: Let_def)

lemma claim_frame: "ledger_frame st (snd (claim_recovery now identity owner st))"
  using mutate_frame[of st identity "\<lambda>j. snd (claim_change now owner j)" now]
    claim_change_budget keeps_budget
  by (simp add: claim_recovery_def split: option.split)

lemma extend_frame: "ledger_frame st (snd (extend_budget cd now identity ext key st))"
  by (auto simp: extend_budget_def Let_def ledger_frame_def keeps_ledger_def split: option.splits)

lemma resume_frame: "ledger_frame st (snd (reserve_resume cd identity key sel ck st))"
  by (auto simp: reserve_resume_def Let_def ledger_frame_def split: option.splits)

lemma tool_frame: "ledger_frame st (snd (charge_tool now identity op st))"
  by (auto simp: charge_tool_def Let_def ledger_frame_def keeps_ledger_def split: option.splits)

lemma elapsed_frame: "ledger_frame st (snd (record_elapsed now identity e st))"
  by (auto simp: record_elapsed_def ledger_frame_def keeps_ledger_def split: option.splits)

lemma unit_frame: "ledger_frame st (snd (save_review_unit cd identity cache items st))"
  by (auto simp: save_review_unit_def Let_def ledger_frame_def split: pyval.splits)

lemma trust_frame: "ledger_frame st (set_trust p w b st)"
  by (simp add: set_trust_def ledger_frame_jobs)

lemmas job_frames = save_frame create_frame attach_frame update_frame retry_frame manual_frame
  claim_frame extend_frame resume_frame tool_frame elapsed_frame unit_frame trust_frame

section \<open>The attempt rows\<close>

definition row_ok :: "attempt_row \<Rightarrow> bool" where
  "row_ok r \<longleftrightarrow> 0 \<le> at_reserved r
     \<and> (if at_completed r then \<exists>n. at_actual r = Some n \<and> 0 \<le> n \<and> n \<le> at_reserved r else at_actual r = None)"

definition attempts_wf :: "job_store \<Rightarrow> bool" where
  "attempts_wf st \<longleftrightarrow> distinct (map at_id (js_attempts st)) \<and> (\<forall>r \<in> set (js_attempts st). row_ok r)"

text \<open>What one attempt counts against its job: its usage once completed, its reservation until then.\<close>

definition row_usage :: "attempt_row \<Rightarrow> rat" where
  "row_usage r = (if at_completed r then case at_actual r of Some n \<Rightarrow> n | None \<Rightarrow> 0 else at_reserved r)"

definition usage_of :: "string \<Rightarrow> job_store \<Rightarrow> rat" where
  "usage_of identity st = sum_list (map row_usage (job_attempts identity st))"

lemma usage_of_accounting:
  "usage_of identity st = ac_completed (attempt_accounting identity st) + ac_unresolved (attempt_accounting identity st)"
proof -
  have "sum_list (map row_usage rows) =
      sum_list (map (\<lambda>r. if at_completed r then case at_actual r of Some n \<Rightarrow> n | None \<Rightarrow> 0 else 0) rows)
      + sum_list (map (\<lambda>r. if at_completed r then 0 else at_reserved r) rows)" for rows
    by (induction rows) (simp_all add: row_usage_def)
  then show ?thesis by (simp add: usage_of_def attempt_accounting_def Let_def)
qed

definition reserved_of :: "string \<Rightarrow> job_store \<Rightarrow> rat" where
  "reserved_of identity st = ac_reserved (attempt_accounting identity st)"

lemma reserved_of_sum: "reserved_of identity st = sum_list (map at_reserved (job_attempts identity st))"
  by (simp add: reserved_of_def attempt_accounting_def Let_def)

lemma usage_frame: "js_attempts st' = js_attempts st \<Longrightarrow>
  usage_of identity st' = usage_of identity st \<and> reserved_of identity st' = reserved_of identity st
  \<and> attempts_wf st' = attempts_wf st"
  by (simp add: usage_of_def reserved_of_sum job_attempts_def attempts_wf_def)

subsection \<open>Reserving\<close>

inductive reserve_outcome :: "rat \<Rightarrow> string \<Rightarrow> string \<Rightarrow> string \<Rightarrow> amounts \<Rightarrow> job_store \<Rightarrow> job_store \<Rightarrow> bool"
  for now identity run a c st where
    Same: "reserve_outcome now identity run a c st st"
  | Charged: "js_jobs st identity = Some j \<Longrightarrow> j_current_run j = run \<Longrightarrow> j_status j \<in> {''running'', ''queued''}
      \<Longrightarrow> find_attempt a st = None
      \<Longrightarrow> \<forall>k \<in> set provider_dims. j_consumed j k + c k \<le> j_limits j k
      \<Longrightarrow> st' = st\<lparr>js_attempts := js_attempts st @ [\<lparr>at_id = a, at_job = identity, at_run = run,
            at_reserved = c Output_tokens, at_actual = None, at_completed = False,
            at_created = now, at_settled = None\<rparr>],
          js_jobs := (js_jobs st)(identity \<mapsto> j\<lparr>j_consumed := (\<lambda>k. if k \<in> set provider_dims
              then j_consumed j k + c k else j_consumed j k), j_ledger := True,
            j_reserved_output := j_reserved_output j + c Output_tokens, j_updated := now\<rparr>)\<rparr>
      \<Longrightarrow> reserve_outcome now identity run a c st st'"

inductive_cases reserve_outcomeE: "reserve_outcome now identity run a c st st'"

lemma find_limit_None:
  "List.find (\<lambda>k. j_limits j k < j_consumed j k + c k) provider_dims = None
     \<longleftrightarrow> (\<forall>k \<in> set provider_dims. j_consumed j k + c k \<le> j_limits j k)"
  by (auto simp: find_None_iff not_less)

lemma reserve_attempt_outcome:
  "reserve_outcome now identity run a c st (snd (reserve_attempt now identity run a c st))"
proof (cases "js_jobs st identity")
  case None
  then show ?thesis by (simp add: reserve_attempt_def Same)
next
  case (Some j)
  let ?ok = "j_current_run j = run \<and> j_status j \<in> {''running'', ''queued''} \<and> \<not> py_true_opt (j_paused_by j)
    \<and> find_attempt a st = None \<and> (\<forall>k \<in> set provider_dims. j_consumed j k + c k \<le> j_limits j k)"
  show ?thesis
  proof (cases ?ok)
    case True
    then have "List.find (\<lambda>k. j_limits j k < j_consumed j k + c k) provider_dims = None"
      using find_limit_None by blast
    then have r: "snd (reserve_attempt now identity run a c st) = st\<lparr>js_attempts := js_attempts st @ [\<lparr>at_id = a, at_job = identity, at_run = run,
            at_reserved = c Output_tokens, at_actual = None, at_completed = False,
            at_created = now, at_settled = None\<rparr>],
          js_jobs := (js_jobs st)(identity \<mapsto> j\<lparr>j_consumed := (\<lambda>k. if k \<in> set provider_dims
              then j_consumed j k + c k else j_consumed j k), j_ledger := True,
            j_reserved_output := j_reserved_output j + c Output_tokens, j_updated := now\<rparr>)\<rparr>"
      using True Some by (simp add: reserve_attempt_def Let_def)
    show ?thesis unfolding r using True Some by (intro Charged[where j = j]) auto
  next
    case False
    then have "snd (reserve_attempt now identity run a c st) = st"
      using Some find_limit_None[of j c]
      by (auto simp: reserve_attempt_def Let_def split: option.split)
    then show ?thesis by (simp add: Same)
  qed
qed

lemma find_attempt_None: "find_attempt a st = None \<longleftrightarrow> a \<notin> at_id ` set (js_attempts st)"
  by (auto simp: find_attempt_def find_None_iff)

lemma find_attempt_Some: "find_attempt a st = Some r \<Longrightarrow> r \<in> set (js_attempts st) \<and> at_id r = a"
  by (auto simp: find_attempt_def find_Some_iff)

definition ledger_gap :: "string \<Rightarrow> job_store \<Rightarrow> (rat \<times> rat) option" where
  "ledger_gap identity st =
     (case js_jobs st identity of
        Some j \<Rightarrow> if j_ledger j then Some (j_consumed j Output_tokens - usage_of identity st,
                                       j_reserved_output j - reserved_of identity st) else None
      | None \<Rightarrow> None)"

lemma ledger_gap_frame:
  assumes "ledger_frame st st'" "ledger_gap identity st = Some g"
  shows "ledger_gap identity st' = Some g \<and> attempts_wf st' = attempts_wf st"
proof -
  obtain j where j: "js_jobs st identity = Some j" "j_ledger j"
    using assms(2) by (auto simp: ledger_gap_def split: option.splits if_splits)
  then obtain j' where "js_jobs st' identity = Some j'" "keeps_ledger j j'" "js_attempts st' = js_attempts st"
    using assms(1) by (auto simp: ledger_frame_def)
  then show ?thesis
    using assms(2) j usage_frame[of st' st identity] by (simp add: ledger_gap_def keeps_ledger_def)
qed

lemma ledger_gap_cong:
  "js_jobs st' i = js_jobs st i \<Longrightarrow> usage_of i st' = usage_of i st \<Longrightarrow> reserved_of i st' = reserved_of i st
     \<Longrightarrow> ledger_gap i st' = ledger_gap i st"
  by (simp add: ledger_gap_def split: option.split)

lemma reserve_outcome_gap:
  assumes "reserve_outcome now identity run a c st st'" "attempts_wf st" "0 \<le> c Output_tokens"
  shows "attempts_wf st' \<and> (ledger_gap i st = Some g \<longrightarrow> ledger_gap i st' = Some g)"
  using assms
proof cases
  case Same
  then show ?thesis using assms(2) by simp
next
  case (Charged j)
  then have "attempts_wf st'"
    using assms(2,3) by (auto simp: attempts_wf_def find_attempt_None row_ok_def)
  moreover have "usage_of i st' = usage_of i st + (if i = identity then c Output_tokens else 0)"
      "reserved_of i st' = reserved_of i st + (if i = identity then c Output_tokens else 0)"
    using Charged by (simp_all add: usage_of_def reserved_of_sum job_attempts_def row_usage_def)
  moreover have "Output_tokens \<in> set provider_dims" by (simp add: provider_dims_def)
  moreover have "js_jobs st' i = (if i = identity then Some (j\<lparr>j_consumed := (\<lambda>k. if k \<in> set provider_dims
              then j_consumed j k + c k else j_consumed j k), j_ledger := True,
            j_reserved_output := j_reserved_output j + c Output_tokens, j_updated := now\<rparr>)
      else js_jobs st i)"
    using Charged by simp
  ultimately show ?thesis using Charged(1) ledger_gap_cong[of st' i st]
    by (cases "i = identity") (simp_all add: ledger_gap_def)
qed

subsection \<open>Settling\<close>

definition settle_row :: "rat \<Rightarrow> string \<Rightarrow> rat \<Rightarrow> attempt_row \<Rightarrow> attempt_row" where
  "settle_row now a n r = (if at_id r = a
     then r\<lparr>at_actual := Some n, at_completed := True, at_settled := Some now\<rparr> else r)"

lemma settle_row_simps [simp]: "at_id (settle_row now a n r) = at_id r"
  "at_job (settle_row now a n r) = at_job r" "at_run (settle_row now a n r) = at_run r" "at_reserved (settle_row now a n r) = at_reserved r"
  by (simp_all add: settle_row_def)

inductive settle_outcome :: "rat \<Rightarrow> string \<Rightarrow> string \<Rightarrow> pyval \<Rightarrow> job_store \<Rightarrow> job_store \<Rightarrow> bool"
  for now identity a v st where
    Kept: "settle_outcome now identity a v st st"
  | Settled: "nat_charge v = Some n \<Longrightarrow> row \<in> set (js_attempts st) \<Longrightarrow> at_id row = a \<Longrightarrow> at_job row = identity
      \<Longrightarrow> \<not> at_completed row \<Longrightarrow> n \<le> at_reserved row \<Longrightarrow> js_jobs st identity = Some j
      \<Longrightarrow> st' = st\<lparr>js_attempts := map (settle_row now a n) (js_attempts st),
            js_jobs := (js_jobs st)(identity \<mapsto> j\<lparr>j_consumed := (j_consumed j)(Output_tokens :=
               j_consumed j Output_tokens - (at_reserved row - n)), j_updated := now\<rparr>)\<rparr>
      \<Longrightarrow> settle_outcome now identity a v st st'"

lemma settle_provider_outcome:
  "settle_outcome now identity a v st (snd (settle_provider_attempt now identity a v st))"
proof -
  define st' where "st' = snd (settle_provider_attempt now identity a v st)"
  have "st' = st \<or> (\<exists>n row j. nat_charge v = Some n
      \<and> List.find (\<lambda>r. at_id r = a \<and> at_job r = identity) (js_attempts st) = Some row
      \<and> \<not> at_completed row \<and> n \<le> at_reserved row \<and> js_jobs st identity = Some j
      \<and> st' = st\<lparr>js_attempts := map (settle_row now a n) (js_attempts st),
            js_jobs := (js_jobs st)(identity \<mapsto> j\<lparr>j_consumed := (j_consumed j)(Output_tokens :=
               j_consumed j Output_tokens - (at_reserved row - n)), j_updated := now\<rparr>)\<rparr>)"
    unfolding st'_def
    by (auto simp: settle_provider_attempt_def Let_def not_less settle_row_def[abs_def] split: option.split)
  then show ?thesis
    unfolding st'_def[symmetric] using Kept Settled by (auto simp: find_Some_iff)
qed

lemma sum_list_update_one:
  fixes f :: "'a \<Rightarrow> rat"
  assumes "distinct (map k xs)" "x \<in> set xs" "\<And>y. y \<in> set xs \<Longrightarrow> k y \<noteq> k x \<Longrightarrow> g y = y"
  shows "sum_list (map (\<lambda>y. f (g y)) xs) = sum_list (map f xs) + (f (g x) - f x)"
  using assms
proof (induction xs)
  case (Cons y ys)
  show ?case
  proof (cases "x = y")
    case True
    have "\<forall>z \<in> set ys. g z = z"
      using Cons.prems(1,3) True by (metis image_eqI list.set_intros(2) list.set_map distinct.simps(2) list.simps(9))
    then have "map (\<lambda>y. f (g y)) ys = map f ys" by simp
    then have "sum_list (map (\<lambda>y. f (g y)) ys) = sum_list (map f ys)" by (rule arg_cong)
    then show ?thesis using True by simp
  next
    case False
    then have x: "x \<in> set ys" using Cons.prems(2) by simp
    then have "k y \<noteq> k x" using Cons.prems(1) by auto
    then have "g y = y" using Cons.prems(3) by simp
    moreover have "sum_list (map (\<lambda>y. f (g y)) ys) = sum_list (map f ys) + (f (g x) - f x)"
      using Cons.IH Cons.prems x by simp
    ultimately show ?thesis by simp
  qed
qed simp

lemma settle_outcome_gap:
  assumes "settle_outcome now identity a v st st'" "attempts_wf st"
  shows "attempts_wf st' \<and> (ledger_gap i st = Some g \<longrightarrow> ledger_gap i st' = Some g)"
  using assms(1)
proof cases
  case Kept
  then show ?thesis using assms(2) by simp
next
  case (Settled n row j)
  let ?g = "settle_row now a n"
  have n: "0 \<le> n" using Settled(1) nat_charge_nonneg[of v] by simp
  have rest: "r = row" if "r \<in> set (js_attempts st)" "at_id r = a" for r
    using assms(2) Settled(2,3) that unfolding attempts_wf_def distinct_map inj_on_def by blast
  have "row_ok (?g r)" if "r \<in> set (js_attempts st)" for r
  proof (cases "at_id r = a")
    case True
    then have "r = row" using rest that by blast
    then show ?thesis using assms(2) that Settled(6) n
      by (simp add: row_ok_def settle_row_def attempts_wf_def)
  qed (use that assms(2) in \<open>simp add: settle_row_def attempts_wf_def\<close>)
  moreover have "map at_id (map ?g (js_attempts st)) = map at_id (js_attempts st)"
    by (simp add: comp_def)
  ultimately have wf: "attempts_wf st'"
    using assms(2) Settled(8) by (simp add: attempts_wf_def del: map_map)
  have usage: "usage_of i st' = usage_of i st + (if i = identity then n - at_reserved row else 0)"
  proof (cases "i = identity")
    case True
    have "usage_of i st' = sum_list (map (\<lambda>r. row_usage (?g r)) (job_attempts i st))"
      using Settled by (simp add: usage_of_def job_attempts_def filter_map comp_def)
    also have "\<dots> = sum_list (map row_usage (job_attempts i st)) + (row_usage (?g row) - row_usage row)"
      using assms(2) Settled True
      by (intro sum_list_update_one[where k = at_id])
         (auto simp: job_attempts_def attempts_wf_def distinct_map_filter settle_row_def)
    finally show ?thesis
      using True Settled by (simp add: usage_of_def row_usage_def settle_row_def)
  next
    case False
    then have "?g r = r" if "r \<in> set (job_attempts i st)" for r
      using that rest[of r] Settled(4) by (auto simp: job_attempts_def settle_row_def)
    then have "map ?g (job_attempts i st) = job_attempts i st"
      by (simp add: map_idI)
    moreover have "job_attempts i st' = map ?g (job_attempts i st)"
      using Settled by (simp add: job_attempts_def filter_map comp_def)
    ultimately show ?thesis using False by (simp add: usage_of_def)
  qed
  have res: "reserved_of i st' = reserved_of i st"
    using Settled by (simp add: reserved_of_sum job_attempts_def filter_map comp_def)
  have jobs: "js_jobs st' = (js_jobs st)(identity \<mapsto> j\<lparr>j_consumed := (j_consumed j)(Output_tokens :=
               j_consumed j Output_tokens - (at_reserved row - n)), j_updated := now\<rparr>)"
    using Settled(8) by simp
  have "ledger_gap i st' = ledger_gap i st"
  proof (cases "i = identity")
    case True
    then show ?thesis using Settled(7) usage res jobs by (simp add: ledger_gap_def)
  next
    case False
    then show ?thesis using usage res jobs by (intro ledger_gap_cong) simp_all
  qed
  with wf show ?thesis by simp
qed

section \<open>The ledger over sequences of operations\<close>

text \<open>\<^verbatim>\<open>persist_provider_budget\<close> takes over a total that was counted elsewhere, without an attempt: how far it raises the
  output account of a job, if it is accepted, in one operation and over a sequence of operations.\<close>

definition persist_raise :: "string \<Rightarrow> job_event \<Rightarrow> job_store \<Rightarrow> rat" where
  "persist_raise i ev st = (case ev of
     Ev_persist now identity used \<Rightarrow>
       (case js_jobs st i of
          Some j \<Rightarrow> if identity = i \<and> list_all (\<lambda>k. used k \<le> j_limits j k) provider_dims
                    then max 0 (used Output_tokens - j_consumed j Output_tokens) else 0
        | None \<Rightarrow> 0)
   | _ \<Rightarrow> 0)"

fun persisted_output :: "codec \<Rightarrow> string \<Rightarrow> job_event list \<Rightarrow> job_store \<Rightarrow> rat" where
  "persisted_output cd i [] st = 0"
| "persisted_output cd i (ev # evs) st = persist_raise i ev st + persisted_output cd i evs (job_step cd ev st)"

lemma persist_gap:
  "js_attempts (snd (persist_provider_budget now identity used st)) = js_attempts st"
  "ledger_gap i st = Some (a, b) \<Longrightarrow> ledger_gap i (snd (persist_provider_budget now identity used st))
     = Some (a + persist_raise i (Ev_persist now identity used) st, b)"
proof -
  let ?st = "snd (persist_provider_budget now identity used st)"
  show rows: "js_attempts ?st = js_attempts st"
    by (simp add: persist_provider_budget_def split: option.split)
  have same: "usage_of i ?st = usage_of i st" "reserved_of i ?st = reserved_of i st" for i
    using rows by (simp_all add: usage_of_def reserved_of_sum job_attempts_def)
  assume g: "ledger_gap i st = Some (a, b)"
  then obtain j where j: "js_jobs st i = Some j" by (auto simp: ledger_gap_def split: option.splits)
  show "ledger_gap i ?st = Some (a + persist_raise i (Ev_persist now identity used) st, b)"
  proof (cases "identity = i \<and> list_all (\<lambda>k. used k \<le> j_limits j k) provider_dims")
    case True
    then have "List.find (\<lambda>k. j_limits j k < used k) provider_dims = None"
      by (auto simp: find_None_iff list_all_iff not_less)
    then have "js_jobs ?st i = Some (j\<lparr>j_consumed := (\<lambda>k. if k \<in> set provider_dims then max (j_consumed j k) (used k)
        else j_consumed j k), j_updated := now\<rparr>)"
      using True j by (simp add: persist_provider_budget_def)
    then show ?thesis
      using g j True same by (auto simp: ledger_gap_def persist_raise_def provider_dims_def max_def split: if_splits)
  next
    case False
    have "js_jobs ?st i = js_jobs st i"
    proof (cases "identity = i")
      case True
      then have "List.find (\<lambda>k. j_limits j k < used k) provider_dims \<noteq> None"
        using False by (auto simp: find_None_iff list_all_iff not_less)
      then show ?thesis using True j by (auto simp: persist_provider_budget_def)
    qed (simp add: persist_provider_budget_def split: option.split)
    then have "ledger_gap i ?st = ledger_gap i st" using same by (intro ledger_gap_cong) simp_all
    moreover have "persist_raise i (Ev_persist now identity used) st = 0" using False j by (auto simp: persist_raise_def)
    ultimately show ?thesis using g by simp
  qed
qed

lemma job_step_gap:
  assumes "attempts_wf st"
  shows "attempts_wf (job_step cd ev st)
    \<and> (ledger_gap i st = Some (a, b) \<longrightarrow> ledger_gap i (job_step cd ev st) = Some (a + persist_raise i ev st, b))"
proof -
  have frame: "?thesis" if "ledger_frame st (job_step cd ev st)" "persist_raise i ev st = 0"
    using that(2) ledger_gap_frame[OF that(1)] usage_frame[of "job_step cd ev st" st] assms that(1)
    by (auto simp: ledger_frame_def)
  show ?thesis
  proof (cases ev)
    case (Ev_reserve now fresh identity run v)
    show ?thesis
    proof (cases "validate_attempt_charges v")
      case (Inr x)
      obtain c a where x: "x = (c, a)" by (cases x)
      let ?a = "case a of Some a \<Rightarrow> a | None \<Rightarrow> fresh"
      have "reserve_outcome now identity run ?a c st (job_step cd ev st)"
        using reserve_attempt_outcome[of now identity run ?a c st] Inr x Ev_reserve
        by (simp add: reserve_provider_attempt_def)
      then have "attempts_wf (job_step cd ev st) \<and> (ledger_gap i st = Some (a', b) \<longrightarrow> ledger_gap i (job_step cd ev st) = Some (a', b))" for a'
        using reserve_outcome_gap assms validate_attempt_charges_nonneg Inr x by blast
      then show ?thesis using Ev_reserve by (simp add: persist_raise_def)
    qed (use assms Ev_reserve in \<open>simp add: reserve_provider_attempt_def persist_raise_def\<close>)
  next
    case (Ev_settle now identity a' v)
    then show ?thesis
      using settle_outcome_gap[OF settle_provider_outcome assms] by (simp add: persist_raise_def)
  next
    case (Ev_persist now identity used)
    then show ?thesis
      using persist_gap(1)[of now identity used st] persist_gap(2)[of i st a b now identity used] usage_frame[OF persist_gap(1)] assms by simp
  qed (use frame job_frames in \<open>simp_all add: persist_raise_def\<close>)
qed

lemma job_steps_gap:
  "attempts_wf st \<Longrightarrow> attempts_wf (fold (job_step cd) evs st)
    \<and> (ledger_gap i st = Some (a, b) \<longrightarrow> ledger_gap i (fold (job_step cd) evs st) = Some (a + persisted_output cd i evs st, b))"
proof (induction evs arbitrary: st a)
  case (Cons ev evs)
  have "attempts_wf (job_step cd ev st)"
      "ledger_gap i st = Some (a, b) \<longrightarrow> ledger_gap i (job_step cd ev st) = Some (a + persist_raise i ev st, b)"
    using job_step_gap[OF Cons.prems] by auto
  with Cons.IH[of "job_step cd ev st" "a + persist_raise i ev st"] show ?case by (simp add: add.assoc)
qed simp

section \<open>Attempt rows are permanent\<close>

definition row_key :: "attempt_row \<Rightarrow> string \<times> string \<times> string \<times> rat" where
  "row_key r = (at_id r, at_job r, at_run r, at_reserved r)"

definition rows_extend :: "job_store \<Rightarrow> job_store \<Rightarrow> bool" where
  "rows_extend st st' \<longleftrightarrow>
     (\<exists>more. map row_key (js_attempts st') = map row_key (js_attempts st) @ more)
     \<and> {r \<in> set (js_attempts st). at_completed r} \<subseteq> set (js_attempts st')"

lemma rows_extend_refl [simp]: "rows_extend st st"
  by (simp add: rows_extend_def)

lemma rows_extend_trans: "rows_extend a b \<Longrightarrow> rows_extend b c \<Longrightarrow> rows_extend a c"
  unfolding rows_extend_def by (metis (no_types, lifting) append.assoc mem_Collect_eq subset_iff)

lemma rows_extend_frame: "ledger_frame st st' \<Longrightarrow> rows_extend st st'"
  by (auto simp: rows_extend_def ledger_frame_def)

lemma settle_outcome_rows:
  assumes "settle_outcome now identity a v st st'" "attempts_wf st"
  shows "rows_extend st st'"
  using assms(1)
proof cases
  case (Settled n row j)
  have keys: "map row_key (js_attempts st') = map row_key (js_attempts st)"
    using Settled(8) by (simp add: row_key_def comp_def)
  have "r \<in> set (js_attempts st')" if "r \<in> set (js_attempts st)" "at_completed r" for r
  proof -
    have "at_id r \<noteq> a"
      using assms(2) Settled(2,3,5) that unfolding attempts_wf_def distinct_map inj_on_def by blast
    then have "settle_row now a n r = r" by (simp add: settle_row_def)
    then show ?thesis using that(1) Settled(8) by (metis image_eqI job_store.select_convs(2)
          job_store.surjective job_store.update_convs(1,2) list.set_map)
  qed
  with keys show ?thesis by (auto simp: rows_extend_def)
qed simp

lemma job_step_rows:
  assumes "attempts_wf st"
  shows "rows_extend st (job_step cd ev st)"
proof (cases ev)
  case (Ev_reserve now fresh identity run v)
  show ?thesis
  proof (cases "validate_attempt_charges v")
    case (Inr x)
    obtain c a where x: "x = (c, a)" by (cases x)
    let ?a = "case a of Some a \<Rightarrow> a | None \<Rightarrow> fresh"
    have "reserve_outcome now identity run ?a c st (job_step cd ev st)"
      using reserve_attempt_outcome[of now identity run ?a c st] Inr x Ev_reserve
      by (simp add: reserve_provider_attempt_def)
    then show ?thesis by cases (auto simp: rows_extend_def)
  qed (use Ev_reserve in \<open>simp add: reserve_provider_attempt_def\<close>)
next
  case (Ev_settle now identity a v)
  then show ?thesis using settle_outcome_rows[OF settle_provider_outcome assms] by simp
next
  case (Ev_persist now identity used)
  then show ?thesis using persist_gap(1)[of now identity used st] by (auto simp: rows_extend_def)
qed (use rows_extend_frame job_frames in simp_all)

lemma job_steps_rows: "attempts_wf st \<Longrightarrow> rows_extend st (fold (job_step cd) evs st)"
proof (induction evs arbitrary: st)
  case (Cons ev evs)
  then have "attempts_wf (job_step cd ev st)" using job_step_gap by blast
  then show ?case using Cons job_step_rows rows_extend_trans by (metis fold_simps(2))
qed simp

lemma rows_extend_find:
  assumes "rows_extend st st'" "find_attempt a st = Some r"
  shows "\<exists>r'. find_attempt a st' = Some r' \<and> row_key r' = row_key r"
proof -
  obtain more where m: "map row_key (js_attempts st') = map row_key (js_attempts st) @ more"
    using assms(1) by (auto simp: rows_extend_def)
  have f: "map_option row_key (find_attempt a s) = List.find (\<lambda>k. fst k = a) (map row_key (js_attempts s))" for s
  proof -
    have "map_option row_key (List.find (\<lambda>r. at_id r = a) rows) = List.find (\<lambda>k. fst k = a) (map row_key rows)" for rows
      by (induction rows) (simp_all add: row_key_def)
    then show ?thesis by (simp add: find_attempt_def)
  qed
  have "List.find (\<lambda>k. fst k = a) (map row_key (js_attempts st)) = Some (row_key r)"
    using f[of st] assms(2) by simp
  moreover have "List.find P xs = Some x \<Longrightarrow> List.find P (xs @ ys) = Some x" for P xs ys and x :: "string \<times> string \<times> string \<times> rat"
    by (induction xs) (simp_all split: if_splits)
  ultimately have "List.find (\<lambda>k. fst k = a) (map row_key (js_attempts st) @ more) = Some (row_key r)"
    by blast
  then show ?thesis using f[of st'] m by (metis map_option_eq_Some)
qed

section \<open>The ledger as the budget's reserve callback\<close>

definition ledger_inv :: "string \<Rightarrow> job_store \<Rightarrow> bool" where
  "ledger_inv identity st \<longleftrightarrow> attempts_wf st \<and>
     (\<exists>j. js_jobs st identity = Some j \<and> (\<forall>k \<in> set provider_dims. j_consumed j k \<le> j_limits j k))"

definition ledger_used :: "string \<Rightarrow> job_store \<Rightarrow> amounts" where
  "ledger_used identity st = (case js_jobs st identity of Some j \<Rightarrow> j_consumed j | None \<Rightarrow> (\<lambda>_. 0))"

definition ledger_cap :: "string \<Rightarrow> job_store \<Rightarrow> amounts" where
  "ledger_cap identity st = (case js_jobs st identity of Some j \<Rightarrow> j_limits j | None \<Rightarrow> (\<lambda>_. 0))"

text \<open>The callback that \<^verbatim>\<open>bind_job_resources\<close> installs, for a charge with its attempt identity and
  the amounts of a physical request, which are never negative.\<close>

definition bound_reserve :: "string \<Rightarrow> rat \<times> string \<times> string \<Rightarrow> amounts \<Rightarrow> job_store
    \<Rightarrow> (budget_error + amounts) \<times> job_store" where
  "bound_reserve identity x charges st = (case x of (now, run, attempt) \<Rightarrow>
     if 0 \<le> charges Output_tokens then reserve_attempt now identity run attempt charges st
     else (Inl (Budget_value_error ''AGENT_BUDGET_CHARGE_INVALID''), st))"

lemma reserve_attempt_error_keeps:
  "reserve_attempt now identity run a c st = (Inl e, st') \<Longrightarrow> st' = st"
  by (auto simp: reserve_attempt_def Let_def split: option.splits if_splits)

lemma find_snoc: "List.find P xs = None \<Longrightarrow> P x \<Longrightarrow> List.find P (xs @ [x]) = Some x"
  by (induction xs) (simp_all split: if_splits)

lemma reserve_attempt_row:
  assumes "reserve_attempt now identity run a c st = (Inr r, st')"
  shows "\<exists>row. find_attempt a st' = Some row \<and> row_key row = (a, identity, run, c Output_tokens)"
proof (cases "find_attempt a st")
  case None
  let ?row = "\<lparr>at_id = a, at_job = identity, at_run = run, at_reserved = c Output_tokens, at_actual = None,
      at_completed = False, at_created = now, at_settled = None\<rparr>"
  have "js_attempts st' = js_attempts st @ [?row]"
    using assms None by (auto simp: reserve_attempt_def Let_def split: option.splits if_splits)
  then have "find_attempt a st' = Some ?row"
    using None by (simp add: find_attempt_def find_snoc)
  then show ?thesis by (simp add: row_key_def)
next
  case (Some row)
  then have "st' = st \<and> row_key row = (a, identity, run, c Output_tokens)"
    using assms find_attempt_Some[OF Some]
    by (auto simp: reserve_attempt_def row_key_def split: option.splits if_splits)
  with Some show ?thesis by simp
qed

lemma reserve_attempt_result:
  assumes "reserve_attempt now identity run a c st = (Inr r, st')" "k \<in> set provider_dims"
  shows "r k = ledger_used identity st' k"
  using assms
  by (auto simp: reserve_attempt_def Let_def ledger_used_def split: option.splits if_splits)

lemma bound_reserve_ok:
  assumes "ledger_inv identity st" "bound_reserve identity x c st = (Inr r, st')"
  shows "ledger_inv identity st' \<and> ledger_cap identity st' = ledger_cap identity st
    \<and> (\<forall>k \<in> set provider_dims. r k = ledger_used identity st' k)"
proof -
  obtain now run a where x: "x = (now, run, a)" by (cases x)
  then have c: "0 \<le> c Output_tokens" and r: "reserve_attempt now identity run a c st = (Inr r, st')"
    using assms(2) by (auto simp: bound_reserve_def split: if_splits)
  have o: "reserve_outcome now identity run a c st st'"
    using reserve_attempt_outcome[of now identity run a c st] r by simp
  then have "attempts_wf st'"
    using reserve_outcome_gap[OF o _ c] assms(1) by (simp add: ledger_inv_def)
  moreover have "ledger_cap identity st' = ledger_cap identity st
      \<and> (\<exists>j. js_jobs st' identity = Some j \<and> (\<forall>k \<in> set provider_dims. j_consumed j k \<le> j_limits j k))"
    using o assms(1) by cases (auto simp: ledger_inv_def ledger_cap_def)
  ultimately show ?thesis using reserve_attempt_result[OF r] by (simp add: ledger_inv_def)
qed

interpretation job_charges: charge_ledger "ledger_inv identity" "ledger_used identity"
    "ledger_cap identity" "bound_reserve identity" for identity
proof unfold_locales
  fix s a c r and s' :: job_store
  show "ledger_inv identity s \<Longrightarrow> bound_reserve identity a c s = (Inr r, s') \<Longrightarrow>
      ledger_inv identity s' \<and> ledger_cap identity s' = ledger_cap identity s
      \<and> (\<forall>k \<in> set provider_dims. r k = ledger_used identity s' k)"
    by (rule bound_reserve_ok)
next
  fix a c s e and s' :: job_store
  show "bound_reserve identity a c s = (Inl e, s') \<Longrightarrow> s' = s"
    by (auto simp: bound_reserve_def reserve_attempt_error_keeps split: prod.splits if_splits)
next
  fix s
  show "ledger_inv identity s \<Longrightarrow> \<forall>k \<in> set provider_dims. ledger_used identity s k \<le> ledger_cap identity s k"
    by (auto simp: ledger_inv_def ledger_used_def ledger_cap_def)
qed

section \<open>Properties\<close>

text \<open>C34. The output-token account of a job is exact: over any sequence of operations on the store,
  concurrent runs and replays included, what a ledger job has consumed is what it had consumed before, with the
  change of the sum over its attempts (the usage of the completed ones, the reservation of the others), and with
  what accepted calls of \<^verbatim>\<open>persist_provider_budget\<close> raised it to, the one operation that takes over a total counted
  elsewhere; the total it has reserved changes with the reservations of its attempts alone. No attempt is
  counted twice and no settlement is lost.\<close>
theorem output_ledger_exact:
  fixes cd :: codec and evs :: "job_event list"
  assumes "attempts_wf st" "js_jobs st identity = Some j" "j_ledger j"
  defines "st' \<equiv> fold (job_step cd) evs st"
  shows "\<exists>j'. js_jobs st' identity = Some j' \<and> j_ledger j'
    \<and> j_consumed j' Output_tokens - (ac_completed (attempt_accounting identity st')
         + ac_unresolved (attempt_accounting identity st'))
      = j_consumed j Output_tokens - (ac_completed (attempt_accounting identity st)
         + ac_unresolved (attempt_accounting identity st)) + persisted_output cd identity evs st
    \<and> j_reserved_output j' - ac_reserved (attempt_accounting identity st')
      = j_reserved_output j - ac_reserved (attempt_accounting identity st)"
proof -
  obtain a b where g: "ledger_gap identity st = Some (a, b)"
    using assms(2,3) by (simp add: ledger_gap_def)
  then have "ledger_gap identity st' = Some (a + persisted_output cd identity evs st, b)"
    using job_steps_gap[OF assms(1)] st'_def by blast
  with g show ?thesis using assms(2,3)
    by (auto simp: ledger_gap_def usage_of_accounting reserved_of_def split: option.splits if_splits)
qed

text \<open>Reserving is idempotent per attempt identity: once a reservation succeeded, presenting
  the same charge again, after any other operations on the store, changes nothing and is
  refused only when the job no longer runs that run.\<close>
theorem reserve_idempotent:
  fixes cd :: codec and evs :: "job_event list"
  assumes "attempts_wf st" "validate_attempt_charges v = Inr (c, Some a)"
    and "reserve_provider_attempt now fresh identity run v st = (Inr r, st1)"
  defines "st2 \<equiv> fold (job_step cd) evs st1"
  shows "snd (reserve_provider_attempt now' fresh' identity run v st2) = st2
    \<and> (case js_jobs st2 identity of None \<Rightarrow> True
       | Some j \<Rightarrow> j_current_run j = run \<and> j_status j \<in> {''running'', ''queued''} \<and> \<not> py_true_opt (j_paused_by j)
          \<longrightarrow> fst (reserve_provider_attempt now' fresh' identity run v st2) = Inr (j_consumed j))"
proof -
  have r: "reserve_attempt now identity run a c st = (Inr r, st1)"
    using assms(2,3) by (simp add: reserve_provider_attempt_def)
  have "\<exists>row. find_attempt a st1 = Some row \<and> row_key row = (a, identity, run, c Output_tokens)"
    using r by (rule reserve_attempt_row)
  moreover have "attempts_wf st1"
    using reserve_outcome_gap[OF reserve_attempt_outcome assms(1)] validate_attempt_charges_nonneg[OF assms(2)] r
    by (metis snd_conv)
  ultimately obtain row where "find_attempt a st2 = Some row" "row_key row = (a, identity, run, c Output_tokens)"
    using rows_extend_find[OF job_steps_rows] st2_def by metis
  then show ?thesis using assms(2)
    by (auto simp: reserve_provider_attempt_def reserve_attempt_def row_key_def split: option.split)
qed

definition demo_codec :: codec where
  "demo_codec = \<lparr>sha256 = (\<lambda>s. s), json_text = (\<lambda>_. []), json_spaced = (\<lambda>_. []),
     json_dict = (\<lambda>_. []), py_text = (\<lambda>_. [])\<rparr>"

definition demo_job :: job where
  "demo_job = \<lparr>j_project = ''p'', j_session = ''s'', j_root = ''w'', j_current_run = ''r1'', j_run_ids = [''r1''],
     j_status = ''running'', j_recovery_policy = ''safe_auto'', j_paused_by = None, j_profile = ''standard'',
     j_limits = DEFAULT_LIMITS, j_consumed = (\<lambda>_. 0), j_milestones = [], j_blocking = None,
     j_auto_count = 0, j_retry_due = None, j_created = 0, j_updated = 0, j_pinned = False, j_outage = None,
     j_wait_seconds = 0, j_wait_started = None, j_claim = None, j_ledger = True, j_reserved_output = 0,
     j_request_recovery = None\<rparr>"

definition demo_jobs :: job_store where
  "demo_jobs = \<lparr>js_jobs = [''j1'' \<mapsto> demo_job], js_attempts = [], js_requests = Map.empty,
     js_units = Map.empty, js_trust = Map.empty\<rparr>"

definition demo_charge :: pyval where
  "demo_charge = VDict [(''requests'', VInt 1), (''output_tokens'', VInt 4096), (''input_bytes'', VInt 10),
     (''_attempt_id'', VStr ''a1'')]"

definition demo_amounts :: amounts where
  "demo_amounts k = (case k of Requests \<Rightarrow> 1 | Output_tokens \<Rightarrow> 4096 | Input_bytes \<Rightarrow> 10 | _ \<Rightarrow> 0)"

lemma demo_charge_valid: "validate_attempt_charges demo_charge = Inr (demo_amounts, Some ''a1'')"
  by (simp add: demo_charge_def validate_attempt_charges_def Let_def dict_of_def py_get_def nat_charge_def
      provider_dims_def dim_key_def demo_amounts_def fun_eq_iff split: dim.split)

lemma demo_jobs_wf: "attempts_wf demo_jobs"
  by (simp add: attempts_wf_def demo_jobs_def)

lemma demo_reserve:
  "\<exists>r st'. reserve_provider_attempt 5 ''f'' ''j1'' ''r1'' demo_charge demo_jobs = (Inr r, st')"
  by (simp add: reserve_provider_attempt_def demo_charge_valid reserve_attempt_def demo_jobs_def demo_job_def
      find_attempt_def provider_dims_def DEFAULT_LIMITS_def demo_amounts_def py_true_opt_def Let_def)

definition demo_events :: "job_event list" where
  "demo_events = [Ev_reserve 5 ''f'' ''j1'' ''r1'' demo_charge, Ev_settle 6 ''j1'' ''a1'' (VInt 100),
     Ev_settle 7 ''j1'' ''a1'' (VInt 100), Ev_persist 8 ''j1'' (\<lambda>k. if k = Output_tokens then 150 else 0)]"

lemma output_ledger_exact_witness:
  "\<exists>j'. js_jobs (fold (job_step demo_codec) demo_events demo_jobs) ''j1'' = Some j' \<and> j_ledger j' \<and>
     j_consumed j' Output_tokens = ac_completed (attempt_accounting ''j1'' (fold (job_step demo_codec) demo_events demo_jobs))
       + ac_unresolved (attempt_accounting ''j1'' (fold (job_step demo_codec) demo_events demo_jobs))
       + persisted_output demo_codec ''j1'' demo_events demo_jobs"
proof -
  have "ac_completed (attempt_accounting ''j1'' demo_jobs) + ac_unresolved (attempt_accounting ''j1'' demo_jobs) = 0"
    by (simp add: attempt_accounting_def job_attempts_def demo_jobs_def Let_def)
  then show ?thesis
    using output_ledger_exact[where st = demo_jobs and identity = "''j1''" and j = demo_job and cd = demo_codec
        and evs = demo_events] demo_jobs_wf
    by (auto simp: demo_jobs_def demo_job_def)
qed

lemma reserve_idempotent_witness:
  "\<exists>st. snd (reserve_provider_attempt 9 ''g'' ''j1'' ''r1'' demo_charge st) = st
     \<and> st = snd (reserve_provider_attempt 5 ''f'' ''j1'' ''r1'' demo_charge demo_jobs)"
proof -
  obtain r st' where r: "reserve_provider_attempt 5 ''f'' ''j1'' ''r1'' demo_charge demo_jobs = (Inr r, st')"
    using demo_reserve by blast
  show ?thesis
    using reserve_idempotent[OF demo_jobs_wf demo_charge_valid r, where now' = 9 and fresh' = "''g''"
        and evs = "[]" and cd = demo_codec] r by simp
qed

lemma find_unique_attempt:
  assumes "attempts_wf st" "row \<in> set (js_attempts st)" "at_id row = a" "at_job row = identity"
  shows "List.find (\<lambda>r. at_id r = a \<and> at_job r = identity) (js_attempts st) = Some row"
proof (cases "List.find (\<lambda>r. at_id r = a \<and> at_job r = identity) (js_attempts st)")
  case None
  then show ?thesis using assms by (auto simp: find_None_iff)
next
  case (Some r)
  then have "r \<in> set (js_attempts st)" "at_id r = a" by (auto simp: find_Some_iff)
  then have "r = row"
    using assms unfolding attempts_wf_def distinct_map inj_on_def by blast
  with Some show ?thesis by simp
qed

lemma settled_row:
  assumes "attempts_wf st" "nat_charge v = Some n"
    and "settle_provider_attempt now identity a v st = (Inr r, st')"
  shows "\<exists>row \<in> set (js_attempts st'). at_id row = a \<and> at_job row = identity \<and> at_completed row
    \<and> at_actual row = Some n \<and> n \<le> at_reserved row"
proof -
  obtain row where f: "List.find (\<lambda>r. at_id r = a \<and> at_job r = identity) (js_attempts st) = Some row"
    using assms(2,3) by (auto simp: settle_provider_attempt_def split: option.splits)
  then have row: "row \<in> set (js_attempts st)" "at_id row = a" "at_job row = identity"
    by (auto simp: find_Some_iff)
  have n: "n \<le> at_reserved row"
    using assms(2,3) f by (auto simp: settle_provider_attempt_def split: if_splits)
  show ?thesis
  proof (cases "at_completed row")
    case True
    then show ?thesis using assms(2,3) f row n
      by (auto simp: settle_provider_attempt_def split: if_splits option.splits)
  next
    case False
    then have "js_attempts st' = map (settle_row now a n) (js_attempts st)"
      using assms(2,3) f n
      by (auto simp: settle_provider_attempt_def Let_def settle_row_def[abs_def] split: option.splits if_splits)
    then have "settle_row now a n row \<in> set (js_attempts st')"
      using row(1) by simp
    then show ?thesis using row n by (intro bexI[of _ "settle_row now a n row"]) (simp_all add: settle_row_def)
  qed
qed

text \<open>An attempt is settled exactly once: after a settlement succeeded, whatever else happens to
  the store, settling it again changes nothing; the same usage is accepted, any other is
  refused.\<close>
theorem settle_exactly_once:
  fixes cd :: codec and evs :: "job_event list"
  assumes "attempts_wf st" "nat_charge v = Some n"
    and "settle_provider_attempt now identity a v st = (Inr r, st1)"
  defines "st2 \<equiv> fold (job_step cd) evs st1"
  shows "snd (settle_provider_attempt now' identity a v' st2) = st2
    \<and> (is_ok (fst (settle_provider_attempt now' identity a v' st2))
         \<longrightarrow> nat_charge v' = Some n \<and> js_jobs st2 identity \<noteq> None)
    \<and> (nat_charge v' = Some n \<and> js_jobs st2 identity \<noteq> None
         \<longrightarrow> is_ok (fst (settle_provider_attempt now' identity a v' st2)))"
proof -
  obtain row where row: "row \<in> set (js_attempts st1)" "at_id row = a" "at_job row = identity"
      "at_completed row" "at_actual row = Some n" "n \<le> at_reserved row"
    using settled_row[OF assms(1-3)] by blast
  have wf1: "attempts_wf st1"
    using settle_outcome_gap[OF settle_provider_outcome assms(1)] assms(3) by (metis snd_conv)
  then have "row \<in> set (js_attempts st2)" and wf2: "attempts_wf st2"
    using job_steps_rows[OF wf1, of cd evs] job_steps_gap[OF wf1] row(1,4) st2_def
    by (auto simp: rows_extend_def)
  then have "List.find (\<lambda>r. at_id r = a \<and> at_job r = identity) (js_attempts st2) = Some row"
    using find_unique_attempt[OF wf2] row(2,3) by blast
  then show ?thesis
    using row by (auto simp: settle_provider_attempt_def split: option.split)
qed

lemma settle_exactly_once_witness:
  "\<exists>st n. n = 100 \<and> (\<forall>now v. snd (settle_provider_attempt now ''j1'' ''a1'' v st) = st)
      \<and> js_attempts st \<noteq> []"
proof -
  let ?st1 = "snd (reserve_provider_attempt 5 ''f'' ''j1'' ''r1'' demo_charge demo_jobs)"
  have wf: "attempts_wf ?st1"
    using job_step_gap[OF demo_jobs_wf, of demo_codec "Ev_reserve 5 ''f'' ''j1'' ''r1'' demo_charge"] by simp
  have v: "nat_charge (VInt 100) = Some 100" by (simp add: nat_charge_def)
  have "\<exists>r st2. settle_provider_attempt 6 ''j1'' ''a1'' (VInt 100) ?st1 = (Inr r, st2) \<and> js_attempts st2 \<noteq> []"
    by (simp add: reserve_provider_attempt_def demo_charge_valid reserve_attempt_def demo_jobs_def demo_job_def
      find_attempt_def provider_dims_def DEFAULT_LIMITS_def demo_amounts_def py_true_opt_def Let_def
      settle_provider_attempt_def v)
  then obtain r st2 where s: "settle_provider_attempt 6 ''j1'' ''a1'' (VInt 100) ?st1 = (Inr r, st2)"
      "js_attempts st2 \<noteq> []" by blast
  show ?thesis
    using settle_exactly_once[OF wf v s(1), where evs = "[]" and cd = demo_codec] s(2) by auto
qed

text \<open>C35. Agents of one job hold separate copies of the budget but charge the job's ledger; over any
  sequence of their charges the job never consumes more than its limits in any of the three
  physical dimensions, whatever their own copies say.\<close>
theorem shared_budget_within_limits:
  assumes "attempts_wf st" "js_jobs st identity = Some j"
    and "\<forall>k \<in> set provider_dims. j_consumed j k \<le> j_limits j k"
  shows "\<forall>k \<in> set provider_dims. ledger_used identity (fold (\<lambda>(b, gen, c, a) s.
      snd (charge_attempt b gen c (Some (bound_reserve identity a)) None s)) charges st) k \<le> j_limits j k"
proof -
  have inv: "ledger_inv identity st" using assms by (auto simp: ledger_inv_def)
  then have "ledger_cap identity st = j_limits j" using assms by (simp add: ledger_cap_def)
  with job_charges.shared_ledger_bounded[OF inv, of charges] show ?thesis by metis
qed

lemma shared_budget_within_limits_witness:
  "ledger_used ''j1'' (fold (\<lambda>(b, gen, c, a) s.
      snd (charge_attempt b gen c (Some (bound_reserve ''j1'' a)) None s))
      [(Some (new_budget None), False, demo_amounts, (5, ''r1'', ''a1'')),
       (Some (new_budget None), True, demo_amounts, (6, ''r1'', ''a2''))] demo_jobs) Requests \<le> 120"
  using shared_budget_within_limits[OF demo_jobs_wf, of "''j1''" demo_job
      "[(Some (new_budget None), False, demo_amounts, (5, ''r1'', ''a1'')),
       (Some (new_budget None), True, demo_amounts, (6, ''r1'', ''a2''))]"]
  by (simp add: demo_jobs_def demo_job_def provider_dims_def DEFAULT_LIMITS_def)

end
