(* ===== verification/Job_Recovery.thy ===== *)
theory Job_Recovery
  imports Job_Ledger
begin

text \<open>
  Recovery of paused jobs and extension of their budgets, over sequences of operations of
  \<^verbatim>\<open>backend/agent_runtime/jobs.py\<close>: the claim of a job by a scheduler is exclusive for its ninety
  seconds, an outage grants at most three claims, budget extensions are idempotent, and no
  operation but a settlement ever lowers a counter.
\<close>

section \<open>What one operation does to the recovery fields\<close>

fun releases_claim :: "string \<Rightarrow> job_event \<Rightarrow> bool" where
  "releases_claim i (Ev_create now identity eng p s w r legacy profile) = (identity = i)"
| "releases_claim i (Ev_save now identity j) = (identity = i)"
| "releases_claim i (Ev_attach now identity run) = (identity = i)"
| "releases_claim i (Ev_manual now identity) = (identity = i)"
| "releases_claim i _ = False"

fun ends_outage :: "string \<Rightarrow> job_event \<Rightarrow> bool" where
  "ends_outage i (Ev_create now identity eng p s w r legacy profile) = (identity = i)"
| "ends_outage i (Ev_save now identity j) = (identity = i)"
| "ends_outage i (Ev_manual now identity) = (identity = i)"
| "ends_outage i (Ev_retry now identity run ty ev) = (identity = i \<and> last_segment ty = ''settled'')"
| "ends_outage i (Ev_update now jit identity run ck) = (identity = i \<and> rv_status run \<in> settled_statuses)"
| "ends_outage i _ = False"

definition cycles_of :: "job \<Rightarrow> int option" where
  "cycles_of j = map_option og_cycles (j_outage j)"

definition grants :: "string \<Rightarrow> job_event \<Rightarrow> job \<Rightarrow> bool" where
  "grants i ev j = (case ev of Ev_claim now identity owner \<Rightarrow> identity = i \<and> fst (claim_change now owner j)
     | _ \<Rightarrow> False)"

lemma mutate_job:
  assumes "js_jobs st i = Some j"
  shows "\<exists>u. js_jobs (snd (mutate now identity change st)) i
     = Some (if identity = i then (change j)\<lparr>j_updated := u\<rparr> else j)"
proof (cases "identity = i")
  case True
  show ?thesis
  proof (cases "change j = j")
    case same: True
    then show ?thesis using assms True
      by (intro exI[of _ "j_updated j"]) (simp add: mutate_def)
  qed (use assms True in \<open>auto simp: mutate_def Let_def\<close>)
next
  case False
  then show ?thesis using assms by (auto simp: mutate_def Let_def split: option.split)
qed

lemma mutate_post:
  assumes "js_jobs st i = Some j" "identity \<noteq> i \<Longrightarrow> P j"
    "\<And>u. identity = i \<Longrightarrow> P ((change j)\<lparr>j_updated := u\<rparr>)"
  shows "\<exists>j'. js_jobs (snd (mutate now identity change st)) i = Some j' \<and> P j'"
  using mutate_job[OF assms(1), of now identity change] assms(2,3) by auto

lemma finish_wait_fields [simp]: "j_claim (finish_wait now j) = j_claim j"
  "j_outage (finish_wait now j) = j_outage j" "j_status (finish_wait now j) = j_status j"
  "j_blocking (finish_wait now j) = j_blocking j"
  by (simp_all add: finish_wait_def split: option.split)

lemma update_parts_claim:
  "j_claim (schedule_retry now jit run j) = j_claim j" "j_claim (pause_for_time run j) = j_claim j"
  "j_claim (pause_for_budget run j) = j_claim j" "j_claim (apply_run_status now run j) = j_claim j"
  "j_claim (consume_saved s j) = j_claim j"
  by (simp_all add: schedule_retry_def pause_for_time_def pause_for_budget_def apply_run_status_def
      consume_saved_def Let_def split: option.split)

lemma update_job_claim: "j_claim (update_job now jit run ck tr j) = j_claim j"
  by (simp add: update_job_def Let_def update_parts_claim)

lemma update_parts_outage:
  "cycles_of j \<noteq> None \<Longrightarrow> cycles_of (schedule_retry now jit run j) = cycles_of j"
  "cycles_of (pause_for_time run j) = cycles_of j" "cycles_of (pause_for_budget run j) = cycles_of j"
  "rv_status run \<notin> settled_statuses \<Longrightarrow> cycles_of (apply_run_status now run j) = cycles_of j"
  "cycles_of (consume_saved s j) = cycles_of j"
  by (auto simp: schedule_retry_def pause_for_time_def pause_for_budget_def apply_run_status_def
      consume_saved_def cycles_of_def Let_def split: option.split)

lemma cycles_of_updated [simp]: "cycles_of (j\<lparr>j_updated := u\<rparr>) = cycles_of j"
  by (simp add: cycles_of_def)

lemma update_job_outage:
  assumes "rv_status run \<notin> settled_statuses" "cycles_of j \<noteq> None"
  shows "cycles_of (update_job now jit run ck tr j) = cycles_of j"
proof (cases "j_current_run j = rv_run_id run")
  case True
  define plan where "plan = (if rv_plan run \<noteq> [] then rv_plan run
      else case py_get (saved_values ck) ''plan'' of VList vs \<Rightarrow> vs | _ \<Rightarrow> [])"
  define a where "a = apply_run_status now run ((consume_saved (saved_values ck) j)\<lparr>j_milestones := plan\<rparr>)"
  have a: "cycles_of a = cycles_of j"
    using assms(1) update_parts_outage(4,5) unfolding a_def by (simp add: cycles_of_def)
  have w: "cycles_of ((finish_wait now a)\<lparr>j_blocking := x, j_retry_due := y\<rparr>) = cycles_of j"
      "cycles_of ((finish_wait now a)\<lparr>j_retry_due := y\<rparr>) = cycles_of j"
      "cycles_of ((finish_wait now a)\<lparr>j_retry_due := y, j_status := z\<rparr>) = cycles_of j" for x y z
    using a by (simp_all add: cycles_of_def)
  show ?thesis
    using True assms(2) a w update_parts_outage(1-3)
    by (simp add: update_job_def Let_def plan_def[symmetric] a_def[symmetric])
qed (simp add: update_job_def)

lemma attach_recovery:
  "js_jobs st i = Some j \<Longrightarrow> \<exists>j'. js_jobs (snd (attach now identity run st)) i = Some j'
     \<and> (j_claim j' = j_claim j \<or> identity = i) \<and> j_outage j' = j_outage j"
  unfolding attach_def by (rule mutate_post, assumption) (simp_all add: Let_def)

lemma retry_recovery:
  "js_jobs st i = Some j \<Longrightarrow> \<exists>j'. js_jobs (snd (record_retry now identity run ty e st)) i = Some j'
     \<and> j_claim j' = j_claim j \<and> (j_outage j' = j_outage j \<or> identity = i \<and> last_segment ty = ''settled'')"
  unfolding record_retry_def by (rule mutate_post, assumption) (auto simp: Let_def)

lemma manual_recovery:
  "js_jobs st i = Some j \<Longrightarrow> identity \<noteq> i \<Longrightarrow> js_jobs (snd (begin_manual_recovery now identity st)) i = Some j"
  unfolding begin_manual_recovery_def using mutate_job[of st i j now identity] by auto

lemma update_recovery:
  "js_jobs st i = Some j \<Longrightarrow> \<exists>j'. js_jobs (snd (update_run now jit identity run ck st)) i = Some j'
     \<and> j_claim j' = j_claim j
     \<and> (cycles_of j \<noteq> None \<and> rv_status run \<notin> settled_statuses \<longrightarrow> cycles_of j' = cycles_of j)"
  unfolding update_run_def
  by (rule mutate_post, assumption) (simp_all add: update_job_claim update_job_outage)

lemma update_other:
  "js_jobs st i = Some j \<Longrightarrow> identity \<noteq> i \<Longrightarrow> js_jobs (snd (update_run now jit identity run ck st)) i = Some j"
  unfolding update_run_def using mutate_job[of st i j now identity] by auto

lemma claim_recovery_job:
  "js_jobs st i = Some j \<Longrightarrow> \<exists>j'. js_jobs (snd (claim_recovery now identity owner st)) i = Some j'
     \<and> (if identity = i then j_claim j' = j_claim (snd (claim_change now owner j))
          \<and> j_outage j' = j_outage (snd (claim_change now owner j)) else j' = j)"
proof -
  assume j: "js_jobs st i = Some j"
  have "js_jobs (snd (claim_recovery now identity owner st)) i
      = js_jobs (snd (mutate now identity (\<lambda>j. snd (claim_change now owner j)) st)) i"
    by (simp add: claim_recovery_def mutate_def split: option.split)
  then show ?thesis
    using mutate_post[OF j, where P = "\<lambda>j'. if identity = i then j_claim j' = j_claim (snd (claim_change now owner j))
          \<and> j_outage j' = j_outage (snd (claim_change now owner j)) else j' = j"] by simp
qed

lemma claim_change_fields:
  "if fst (claim_change now owner j)
   then j_claim (snd (claim_change now owner j)) = Some \<lparr>rc_owner = owner, rc_expires = now + 90\<rparr>
     \<and> (\<forall>n. cycles_of j = Some n \<longrightarrow> n < MAX_RECOVERY_CYCLES \<and> cycles_of (snd (claim_change now owner j)) = Some (n + 1))
   else j_claim (snd (claim_change now owner j)) = j_claim j \<and> j_outage (snd (claim_change now owner j)) = j_outage j"
  by (auto simp: claim_change_def cycles_of_def outage_block_def split: option.splits if_splits)

lemma reserve_keeps_recovery:
  assumes "js_jobs st i = Some j"
  shows "\<exists>j'. js_jobs (snd (reserve_provider_attempt now fresh identity run v st)) i = Some j'
    \<and> j_claim j' = j_claim j \<and> j_outage j' = j_outage j"
proof (cases "validate_attempt_charges v")
  case (Inr x)
  obtain c a where x: "x = (c, a)" by (cases x)
  let ?a = "case a of Some a \<Rightarrow> a | None \<Rightarrow> fresh"
  have "reserve_outcome now identity run ?a c st (snd (reserve_provider_attempt now fresh identity run v st))"
    using reserve_attempt_outcome[of now identity run ?a c st] Inr x
    by (simp add: reserve_provider_attempt_def)
  then show ?thesis by cases (use assms in auto)
qed (use assms in \<open>simp add: reserve_provider_attempt_def\<close>)

lemma settle_keeps_recovery:
  assumes "js_jobs st i = Some j"
  shows "\<exists>j'. js_jobs (snd (settle_provider_attempt now identity a v st)) i = Some j'
    \<and> j_claim j' = j_claim j \<and> j_outage j' = j_outage j"
  using settle_provider_outcome[of now identity a v st] by cases (use assms in auto)

lemma other_ops_keep_recovery:
  assumes "js_jobs st i = Some j"
  shows "\<exists>j'. js_jobs (snd (extend_budget cd now identity ext key st)) i = Some j'
      \<and> j_claim j' = j_claim j \<and> j_outage j' = j_outage j"
    and "\<exists>j'. js_jobs (snd (charge_tool now identity op st)) i = Some j'
      \<and> j_claim j' = j_claim j \<and> j_outage j' = j_outage j"
    and "\<exists>j'. js_jobs (snd (record_elapsed now identity e st)) i = Some j'
      \<and> j_claim j' = j_claim j \<and> j_outage j' = j_outage j"
    and "js_jobs (snd (reserve_resume cd identity key sel ck st)) i = Some j"
    and "js_jobs (snd (save_review_unit cd identity cache items st)) i = Some j"
    and "js_jobs (set_trust p w b st) i = Some j"
  using assms
  by (auto simp: extend_budget_def charge_tool_def record_elapsed_def reserve_resume_def set_trust_def
      save_review_unit_def Let_def split: option.split pyval.split)

lemma persist_keeps_recovery:
  assumes "js_jobs st i = Some j"
  shows "\<exists>j'. js_jobs (snd (persist_provider_budget now identity used st)) i = Some j' \<and> j_claim j' = j_claim j \<and> j_outage j' = j_outage j
    \<and> j_limits j' = j_limits j \<and> (\<forall>k. j_consumed j k \<le> j_consumed j' k)"
  using assms by (auto simp: persist_provider_budget_def split: option.split)

lemma save_other: "identity \<noteq> i \<Longrightarrow> js_jobs (snd (save_job now identity v st)) i = js_jobs st i"
  by (simp add: save_job_def Let_def)

lemma create_other:
  "identity \<noteq> i \<Longrightarrow> js_jobs (snd (create_job now identity eng p s w r legacy profile st)) i = js_jobs st i"
  by (simp add: create_job_def Let_def save_other split: option.split)

lemma step_claim:
  assumes j: "js_jobs st i = Some j" and "\<not> releases_claim i ev"
  shows "\<exists>j'. js_jobs (job_step cd ev st) i = Some j' \<and>
    (if grants i ev j then \<exists>now owner. ev = Ev_claim now i owner
       \<and> j_claim j' = Some \<lparr>rc_owner = owner, rc_expires = now + 90\<rparr>
     else j_claim j' = j_claim j)"
proof (cases ev)
  case (Ev_attach now identity run)
  then show ?thesis using assms attach_recovery[OF j, of now identity run] by (auto simp: grants_def)
next
  case (Ev_update now jit identity run ck)
  then show ?thesis using update_recovery[OF j, of now jit identity run ck] by (auto simp: grants_def)
next
  case (Ev_retry now identity run ty e)
  then show ?thesis using retry_recovery[OF j, of now identity run ty e] by (auto simp: grants_def)
next
  case (Ev_manual now identity)
  then show ?thesis using assms manual_recovery[OF j] by (auto simp: grants_def)
next
  case (Ev_claim now identity owner)
  then show ?thesis
    using claim_recovery_job[OF j, of now identity owner] claim_change_fields[of now owner j]
    by (auto simp: grants_def split: if_splits)
next
  case (Ev_reserve now fresh identity run v)
  then show ?thesis using reserve_keeps_recovery[OF j, of now fresh identity run v] by (auto simp: grants_def)
next
  case (Ev_settle now identity a v)
  then show ?thesis using settle_keeps_recovery[OF j, of now identity a v] by (auto simp: grants_def)
next
  case (Ev_extend now identity ext key)
  then show ?thesis using other_ops_keep_recovery(1)[OF j, of cd now identity ext key] by (auto simp: grants_def)
next
  case (Ev_tool now identity op)
  then show ?thesis using other_ops_keep_recovery(2)[OF j, of now identity op] by (auto simp: grants_def)
next
  case (Ev_elapsed now identity e)
  then show ?thesis using other_ops_keep_recovery(3)[OF j, of now identity e] by (auto simp: grants_def)
next
  case (Ev_persist now identity used)
  then show ?thesis using persist_keeps_recovery[OF j, of now identity used] by (auto simp: grants_def)
qed (use assms other_ops_keep_recovery(4-6)[OF j] save_other create_other in \<open>simp_all add: grants_def\<close>)

lemma step_cycles:
  assumes j: "js_jobs st i = Some j" and "\<not> ends_outage i ev" "cycles_of j = Some n"
  shows "\<exists>j'. js_jobs (job_step cd ev st) i = Some j' \<and>
    (if grants i ev j then cycles_of j' = Some (n + 1) \<and> n < MAX_RECOVERY_CYCLES else cycles_of j' = Some n)"
proof (cases ev)
  case (Ev_attach now identity run)
  then show ?thesis using assms attach_recovery[OF j, of now identity run]
    by (auto simp: grants_def cycles_of_def)
next
  case (Ev_update now jit identity run ck)
  show ?thesis
  proof (cases "identity = i")
    case True
    then show ?thesis using assms Ev_update update_recovery[OF j, of now jit identity run ck]
      by (auto simp: grants_def)
  next
    case False
    then show ?thesis using assms Ev_update update_other[OF j False] by (auto simp: grants_def)
  qed
next
  case (Ev_retry now identity run ty e)
  then show ?thesis using assms retry_recovery[OF j, of now identity run ty e]
    by (auto simp: grants_def cycles_of_def)
next
  case (Ev_manual now identity)
  then show ?thesis using assms manual_recovery[OF j] by (auto simp: grants_def)
next
  case (Ev_claim now identity owner)
  then show ?thesis
    using assms(3) claim_recovery_job[OF j, of now identity owner] claim_change_fields[of now owner j]
    by (cases "identity = i") (auto simp: grants_def cycles_of_def split: if_splits)
next
  case (Ev_reserve now fresh identity run v)
  then show ?thesis using assms(3) reserve_keeps_recovery[OF j, of now fresh identity run v]
    by (auto simp: grants_def cycles_of_def)
next
  case (Ev_settle now identity a v)
  then show ?thesis using assms(3) settle_keeps_recovery[OF j, of now identity a v]
    by (auto simp: grants_def cycles_of_def)
next
  case (Ev_extend now identity ext key)
  then show ?thesis using assms(3) other_ops_keep_recovery(1)[OF j, of cd now identity ext key]
    by (auto simp: grants_def cycles_of_def)
next
  case (Ev_tool now identity op)
  then show ?thesis using assms(3) other_ops_keep_recovery(2)[OF j, of now identity op]
    by (auto simp: grants_def cycles_of_def)
next
  case (Ev_elapsed now identity e)
  then show ?thesis using assms(3) other_ops_keep_recovery(3)[OF j, of now identity e]
    by (auto simp: grants_def cycles_of_def)
next
  case (Ev_persist now identity used)
  then show ?thesis using assms(3) persist_keeps_recovery[OF j, of now identity used]
    by (auto simp: grants_def cycles_of_def)
qed (use assms other_ops_keep_recovery(4-6)[OF j] save_other create_other in \<open>simp_all add: grants_def\<close>)

section \<open>Properties of recovery\<close>

text \<open>A recovery claim is exclusive: once a scheduler has claimed a job, no other claim of it
  succeeds within the ninety seconds of the claim, whatever other operations run in between,
  unless the job was re-attached to a run, rewritten or manually recovered.\<close>
theorem claim_exclusive:
  fixes cd :: codec and evs :: "job_event list"
  assumes "claim_recovery t i owner st = (Inr True, st1)" "\<forall>ev \<in> set evs. \<not> releases_claim i ev" "t' < t + 90"
  shows "\<exists>b. fst (claim_recovery t' i other (fold (job_step cd) evs st1)) = Inr b \<and> \<not> b"
proof -
  define held where "held = (\<lambda>st :: job_store. \<exists>j c. js_jobs st i = Some j \<and> j_claim j = Some c \<and> t + 90 \<le> rc_expires c)"
  obtain j where "js_jobs st i = Some j" "fst (claim_change t owner j)"
    using assms(1) by (auto simp: claim_recovery_def split: option.splits)
  then have "held st1"
    using claim_recovery_job[of st i j t i owner] claim_change_fields[of t owner j] assms(1)
    by (auto simp: held_def)
  then have "held (fold (job_step cd) evs st1)"
    using assms(2)
  proof (induction evs arbitrary: st1)
    case (Cons ev evs)
    then obtain j c where j: "js_jobs st1 i = Some j" "j_claim j = Some c" "t + 90 \<le> rc_expires c"
      by (auto simp: held_def)
    have "grants i ev j \<Longrightarrow> ev = Ev_claim now i own \<Longrightarrow> rc_expires c \<le> now" for now own
      using j(2) by (auto simp: grants_def claim_change_def split: if_splits option.splits)
    then have "held (job_step cd ev st1)"
      using step_claim[OF j(1), of ev cd] Cons.prems(2) j
      by (fastforce simp: held_def split: if_splits)
    then show ?case using Cons by simp
  qed simp
  then obtain j c where "js_jobs (fold (job_step cd) evs st1) i = Some j" "j_claim j = Some c" "t' < rc_expires c"
    using assms(3) by (auto simp: held_def)
  then show ?thesis
    by (auto simp: claim_recovery_def claim_change_def split: option.split)
qed

definition demo_paused_job :: job where
  "demo_paused_job = demo_job\<lparr>j_status := ''paused_model_unavailable'', j_outage := Some \<lparr>og_started = 0,
     og_deadline = 600, og_cycles = 1, og_provider_id = None, og_model_id = None,
     og_error_code = ''PROVIDER_BUSY'', og_http_status = None, og_origin = ''provider'', og_reached = False\<rparr>\<rparr>"

definition demo_paused_jobs :: job_store where
  "demo_paused_jobs = demo_jobs\<lparr>js_jobs := [''j1'' \<mapsto> demo_paused_job]\<rparr>"

lemma demo_claim: "\<exists>st. claim_recovery 10 ''j1'' ''a'' demo_paused_jobs = (Inr True, st)"
  by (simp add: claim_recovery_def claim_change_def demo_paused_jobs_def demo_paused_job_def demo_jobs_def
      demo_job_def py_true_opt_def recoverable_statuses_def outage_block_def MAX_RECOVERY_CYCLES_def)

lemma claim_exclusive_witness:
  "fst (claim_recovery 50 ''j1'' ''b'' (snd (claim_recovery 10 ''j1'' ''a'' demo_paused_jobs))) = Inr False"
  using demo_claim claim_exclusive[of 10 "''j1''" "''a''" demo_paused_jobs _ "[]" 50 "''b''" demo_codec]
  by auto

fun claims_granted :: "codec \<Rightarrow> string \<Rightarrow> job_event list \<Rightarrow> job_store \<Rightarrow> nat" where
  "claims_granted cd i [] st = 0"
| "claims_granted cd i (ev # evs) st =
     (case js_jobs st i of Some j \<Rightarrow> if grants i ev j then 1 else 0 | None \<Rightarrow> 0)
     + claims_granted cd i evs (job_step cd ev st)"

lemma claims_granted_cycles:
  assumes "js_jobs st i = Some j" "cycles_of j = Some n" "\<forall>ev \<in> set evs. \<not> ends_outage i ev"
  shows "\<exists>j' m. js_jobs (fold (job_step cd) evs st) i = Some j' \<and> cycles_of j' = Some m
    \<and> m = n + int (claims_granted cd i evs st) \<and> (claims_granted cd i evs st = 0 \<or> m \<le> MAX_RECOVERY_CYCLES)"
  using assms
proof (induction evs arbitrary: st j n)
  case (Cons ev evs)
  obtain j1 where j1: "js_jobs (job_step cd ev st) i = Some j1"
      "if grants i ev j then cycles_of j1 = Some (n + 1) \<and> n < MAX_RECOVERY_CYCLES else cycles_of j1 = Some n"
    using step_cycles[OF Cons.prems(1) _ Cons.prems(2), of ev cd] Cons.prems(3) by auto
  show ?case
  proof (cases "grants i ev j")
    case True
    then have "cycles_of j1 = Some (n + 1)" "n < MAX_RECOVERY_CYCLES" using j1(2) by auto
    then show ?thesis
      using Cons.IH[OF j1(1)] Cons.prems True by (fastforce simp: MAX_RECOVERY_CYCLES_def)
  next
    case False
    then show ?thesis using Cons.IH[OF j1(1)] j1(2) Cons.prems by simp
  qed
qed simp

text \<open>One outage grants at most three claims: over any sequence of operations that does not end the
  outage of a job, the number of successful recovery claims of the job is exactly the growth of
  its cycle counter and never brings the counter above three.\<close>
theorem claims_per_outage:
  fixes cd :: codec and evs :: "job_event list"
  assumes "js_jobs st i = Some j" "j_outage j = Some og" "0 \<le> og_cycles og"
    and "\<forall>ev \<in> set evs. \<not> ends_outage i ev"
  shows "claims_granted cd i evs st \<le> 3
    \<and> (\<exists>j' og'. js_jobs (fold (job_step cd) evs st) i = Some j' \<and> j_outage j' = Some og'
        \<and> og_cycles og' = og_cycles og + int (claims_granted cd i evs st)
        \<and> (0 < claims_granted cd i evs st \<longrightarrow> og_cycles og' \<le> 3))"
proof -
  obtain j' m where "js_jobs (fold (job_step cd) evs st) i = Some j'" "cycles_of j' = Some m"
      "m = og_cycles og + int (claims_granted cd i evs st)"
      "claims_granted cd i evs st = 0 \<or> m \<le> MAX_RECOVERY_CYCLES"
    using claims_granted_cycles[OF assms(1) _ assms(4), of "og_cycles og" cd] assms(2)
    by (auto simp: cycles_of_def)
  then show ?thesis using assms(3)
    by (auto simp: cycles_of_def MAX_RECOVERY_CYCLES_def)
qed

lemma claims_per_outage_witness:
  "claims_granted demo_codec ''j1'' [Ev_claim 10 ''j1'' ''a'', Ev_claim 110 ''j1'' ''b'', Ev_claim 210 ''j1'' ''c'']
     demo_paused_jobs \<le> 3"
  using claims_per_outage[where st = demo_paused_jobs and i = "''j1''" and j = demo_paused_job and cd = demo_codec
      and evs = "[Ev_claim 10 ''j1'' ''a'', Ev_claim 110 ''j1'' ''b'', Ev_claim 210 ''j1'' ''c'']"]
  by (simp add: demo_paused_jobs_def demo_paused_job_def demo_jobs_def)

section \<open>Budgets only grow\<close>

definition budget_le :: "job \<Rightarrow> job \<Rightarrow> bool" where
  "budget_le j j' \<longleftrightarrow> (\<forall>k. j_consumed j k \<le> j_consumed j' k \<and> j_limits j k \<le> j_limits j' k)"

lemma budget_le_same: "budget_of j' = budget_of j \<Longrightarrow> budget_le j j'"
  by (simp add: budget_le_def)

lemma budget_le_refl [simp]: "budget_le j j"
  by (simp add: budget_le_def)

lemma budget_le_updated [simp]: "budget_le j (j'\<lparr>j_updated := u\<rparr>) = budget_le j j'"
  by (simp add: budget_le_def)

lemma update_job_budget_le: "budget_le j (update_job now jit run ck tr j)"
proof (cases "j_current_run j = rv_run_id run")
  case True
  have "budget_of (update_job now jit run ck tr j) = budget_of (consume_saved (saved_values ck) j)"
    using True same_budget by (simp add: update_job_def Let_def)
  then show ?thesis by (auto simp: budget_le_def consume_saved_def split: option.split)
qed (simp add: update_job_def)

lemma mutate_budget_le:
  assumes "js_jobs st i = Some j" "budget_le j (change j)"
  shows "\<exists>j'. js_jobs (snd (mutate now identity change st)) i = Some j' \<and> budget_le j j'"
  by (rule mutate_post[OF assms(1)]) (simp_all add: assms(2))

lemma reserve_budget_le:
  assumes "js_jobs st i = Some j"
  shows "\<exists>j'. js_jobs (snd (reserve_provider_attempt now fresh identity run v st)) i = Some j' \<and> budget_le j j'"
proof (cases "validate_attempt_charges v")
  case (Inr x)
  obtain c a where x: "x = (c, a)" by (cases x)
  let ?a = "case a of Some a \<Rightarrow> a | None \<Rightarrow> fresh"
  have c: "0 \<le> c k" for k using validate_attempt_charges_nonneg Inr x by blast
  have "reserve_outcome now identity run ?a c st (snd (reserve_provider_attempt now fresh identity run v st))"
    using reserve_attempt_outcome[of now identity run ?a c st] Inr x
    by (simp add: reserve_provider_attempt_def)
  then show ?thesis by cases (use assms c in \<open>auto simp: budget_le_def\<close>)
qed (use assms in \<open>simp add: reserve_provider_attempt_def\<close>)

lemma extension_value_nonneg: "extension_value k v = Some n \<Longrightarrow> 0 \<le> n"
  by (auto simp: extension_value_def split: pyval.splits if_splits)

lemma extended_limits_ge:
  assumes "parse_extension extension = Some ext" "\<forall>k. limits k \<le> DEFAULT_LIMITS k * 10"
  shows "limits k \<le> extended_limits ext limits k \<and> extended_limits ext limits k \<le> DEFAULT_LIMITS k * 10"
proof -
  have pos: "0 \<le> n" if "ext d = Some n" for d n
    using assms(1) that extension_value_nonneg
    by (auto simp: parse_extension_def Let_def bind_eq_Some_conv split: if_splits)
  have D: "0 \<le> DEFAULT_LIMITS d" for d by (simp add: DEFAULT_LIMITS_def split: dim.split)
  have "0 \<le> \<lfloor>DEFAULT_LIMITS k * of_int n / DEFAULT_LIMITS Requests\<rfloor>" if "ext Requests = Some n" for n
    using pos[OF that] D[of k] by (simp add: DEFAULT_LIMITS_def)
  then show ?thesis
    using pos assms(2) by (auto simp: extended_limits_def split: option.split)
qed

lemma job_step_budget_le:
  assumes j: "js_jobs st i = Some j" and "\<forall>k. j_limits j k \<le> DEFAULT_LIMITS k * 10"
    and "\<nexists>now a v. ev = Ev_settle now i a v"
  shows "\<exists>j'. js_jobs (job_step cd ev st) i = Some j' \<and> budget_le j j'"
proof (cases ev)
  case (Ev_create now identity eng p s w r legacy profile)
  then show ?thesis using j
    by (auto simp: create_job_def save_job_def merge_saved_def raise_to_def budget_le_def Let_def split: option.split)
next
  case (Ev_save now identity v)
  then show ?thesis using j
    by (auto simp: save_job_def merge_saved_def raise_to_def budget_le_def Let_def)
next
  case (Ev_attach now identity run)
  then show ?thesis unfolding job_step.simps Ev_attach attach_def
    using finish_wait_budget by (intro mutate_budget_le[OF j] budget_le_same) (simp add: Let_def)
next
  case (Ev_update now jit identity run ck)
  then show ?thesis unfolding job_step.simps Ev_update update_run_def
    by (intro mutate_budget_le[OF j] update_job_budget_le)
next
  case (Ev_retry now identity run ty e)
  then show ?thesis unfolding job_step.simps Ev_retry record_retry_def
    using finish_wait_budget by (intro mutate_budget_le[OF j] budget_le_same) (simp add: Let_def)
next
  case (Ev_manual now identity)
  then show ?thesis unfolding job_step.simps Ev_manual begin_manual_recovery_def
    using finish_wait_budget by (intro mutate_budget_le[OF j] budget_le_same) (simp add: Let_def)
next
  case (Ev_claim now identity owner)
  have "js_jobs (snd (claim_recovery now identity owner st)) i
      = js_jobs (snd (mutate now identity (\<lambda>j. snd (claim_change now owner j)) st)) i"
    by (simp add: claim_recovery_def mutate_def split: option.split)
  then show ?thesis unfolding job_step.simps Ev_claim
    using claim_change_budget budget_le_same mutate_budget_le[OF j] by simp
next
  case (Ev_extend now identity ext key)
  then show ?thesis using j assms(2) extended_limits_ge[of ext _ "j_limits j"]
    by (auto simp: extend_budget_def budget_le_def Let_def split: option.split)
next
  case (Ev_settle now identity a v)
  then have "identity \<noteq> i" using assms(3) by blast
  moreover have "settle_outcome now identity a v st (job_step cd ev st)"
    using settle_provider_outcome Ev_settle by simp
  ultimately show ?thesis using j by (auto elim: settle_outcome.cases)
next
  case (Ev_tool now identity op)
  then show ?thesis using j
    by (auto simp: charge_tool_def budget_le_def Let_def split: option.split)
next
  case (Ev_elapsed now identity e)
  then show ?thesis using j
    by (auto simp: record_elapsed_def budget_le_def split: option.split)
next
  case (Ev_persist now identity used)
  then show ?thesis using persist_keeps_recovery[OF j, of now identity used] by (auto simp: budget_le_def)
qed (use j reserve_budget_le other_ops_keep_recovery(4-6)[OF j] in \<open>simp_all\<close>)

text \<open>Saved progress is never lost: whatever operation runs on the store, a stale save, a replayed
  run update and a concurrent creation included, no counter of a job and none of its limits
  decreases, except that settling one of its attempts releases output tokens. (The limits start at
  or below ten times the defaults, the cap of every extension.)\<close>
theorem job_budget_monotone:
  assumes "js_jobs st i = Some j" "\<forall>k. j_limits j k \<le> DEFAULT_LIMITS k * 10"
    and "\<nexists>now a v. ev = Ev_settle now i a v"
  shows "\<exists>j'. js_jobs (job_step cd ev st) i = Some j'
    \<and> (\<forall>k. j_consumed j k \<le> j_consumed j' k \<and> j_limits j k \<le> j_limits j' k)"
  using job_step_budget_le[OF assms, of cd] by (simp add: budget_le_def)

lemma job_budget_monotone_witness:
  "\<exists>j'. js_jobs (job_step demo_codec (Ev_save 9 ''j1'' demo_job) demo_jobs) ''j1'' = Some j'
     \<and> 0 \<le> j_consumed j' Requests"
proof -
  have "\<forall>k. j_limits demo_job k \<le> DEFAULT_LIMITS k * 10"
    by (simp add: demo_job_def DEFAULT_LIMITS_def split: dim.split)
  then show ?thesis
    using job_budget_monotone[of demo_jobs "''j1''" demo_job "Ev_save 9 ''j1'' demo_job" demo_codec]
    by (auto simp: demo_jobs_def demo_job_def)
qed

section \<open>Budget extensions\<close>

lemma request_rows_permanent:
  "js_requests st k = Some r \<Longrightarrow> js_requests (job_step cd ev st) k = Some r"
proof (cases ev)
  case (Ev_reserve now fresh identity run v)
  assume k: "js_requests st k = Some r"
  show ?thesis
  proof (cases "validate_attempt_charges v")
    case (Inr x)
    obtain c a where x: "x = (c, a)" by (cases x)
    let ?a = "case a of Some a \<Rightarrow> a | None \<Rightarrow> fresh"
    have "reserve_outcome now identity run ?a c st (job_step cd ev st)"
      using reserve_attempt_outcome[of now identity run ?a c st] Inr x Ev_reserve
      by (simp add: reserve_provider_attempt_def)
    then show ?thesis by cases (use k in auto)
  qed (use k Ev_reserve in \<open>simp add: reserve_provider_attempt_def\<close>)
next
  case (Ev_settle now identity a v)
  assume k: "js_requests st k = Some r"
  have "settle_outcome now identity a v st (job_step cd ev st)"
    using settle_provider_outcome Ev_settle by simp
  then show ?thesis by cases (use k in auto)
qed (auto simp: create_job_def save_job_def attach_def update_run_def record_retry_def begin_manual_recovery_def
    claim_recovery_def extend_budget_def reserve_resume_def charge_tool_def record_elapsed_def set_trust_def
    persist_provider_budget_def save_review_unit_def mutate_def Let_def split: option.split pyval.split)

lemma job_steps_requests:
  "js_requests st k = Some r \<Longrightarrow> js_requests (fold (job_step cd) evs st) k = Some r"
  by (induction evs arbitrary: st) (auto intro: request_rows_permanent)

lemma job_step_exists: "js_jobs st i \<noteq> None \<Longrightarrow> js_jobs (job_step cd ev st) i \<noteq> None"
  using job_frames settle_keeps_recovery reserve_keeps_recovery persist_keeps_recovery
  by (cases ev) (auto simp: ledger_frame_def, metis+)

lemma job_steps_exists: "js_jobs st i \<noteq> None \<Longrightarrow> js_jobs (fold (job_step cd) evs st) i \<noteq> None"
proof (induction evs arbitrary: st)
  case (Cons ev evs)
  then show ?case using job_step_exists[OF Cons.prems, of cd ev] Cons.IH by (metis fold_simps(2))
qed simp

text \<open>A budget extension is applied once per request key: repeating an accepted request after any
  other operations returns the job and changes nothing, a different request under the same key
  is refused, and an accepted extension raises limits only, up to ten times the defaults.\<close>
theorem extension_idempotent:
  fixes cd :: codec and evs :: "job_event list"
  assumes "extend_budget cd now i ext key st = (Inr j1, st1)"
  defines "st2 \<equiv> fold (job_step cd) evs st1"
  shows "snd (extend_budget cd now' i ext key st2) = st2 \<and> is_ok (fst (extend_budget cd now' i ext key st2))
    \<and> (parse_extension ext' \<noteq> None \<longrightarrow> sha256 cd (json_spaced cd (VDict ext')) \<noteq> sha256 cd (json_spaced cd (VDict ext))
        \<longrightarrow> extend_budget cd now' i ext' key st2 = (Inl (Budget_value_error ''AGENT_JOB_REQUEST_CONFLICT''), st2))
    \<and> (\<forall>j. js_jobs st i = Some j \<longrightarrow> (\<forall>k. j_limits j k \<le> DEFAULT_LIMITS k * 10)
        \<longrightarrow> (\<forall>k. j_limits j k \<le> j_limits j1 k \<and> j_limits j1 k \<le> DEFAULT_LIMITS k * 10))"
proof -
  obtain e j where e: "parse_extension ext = Some e" and j: "js_jobs st i = Some j"
    using assms(1) by (auto simp: extend_budget_def Let_def split: option.splits)
  have "\<exists>r. js_requests st1 (i, key) = Some r \<and> rq_fingerprint r = sha256 cd (json_spaced cd (VDict ext))"
    and ex: "js_jobs st1 i \<noteq> None"
    and lim: "j1 = j \<or> j_limits j1 = extended_limits e (j_limits j)"
    using assms(1) e j by (auto simp: extend_budget_def Let_def split: option.splits if_splits)
  then obtain r where "js_requests st2 (i, key) = Some r"
      "rq_fingerprint r = sha256 cd (json_spaced cd (VDict ext))"
    using job_steps_requests st2_def by blast
  moreover obtain j2 where "js_jobs st2 i = Some j2"
    using job_steps_exists[OF ex] st2_def by blast
  moreover have "\<forall>k. j_limits j k \<le> DEFAULT_LIMITS k * 10
      \<Longrightarrow> \<forall>k. j_limits j k \<le> j_limits j1 k \<and> j_limits j1 k \<le> DEFAULT_LIMITS k * 10"
    using lim extended_limits_ge[OF e] by auto
  ultimately show ?thesis
    using e j by (auto simp: extend_budget_def Let_def)
qed

lemma extension_idempotent_witness:
  "\<exists>st. snd (extend_budget demo_codec 20 ''j1'' [(''requests'', VInt 12)] ''k'' st) = st \<and> js_jobs st ''j1'' \<noteq> None"
proof -
  have "\<exists>j st. extend_budget demo_codec 10 ''j1'' [(''requests'', VInt 12)] ''k'' demo_jobs = (Inr j, st)
      \<and> js_jobs st ''j1'' \<noteq> None"
    by (simp add: extend_budget_def parse_extension_def demo_jobs_def dict_of_def extension_dims_def dim_key_def
        extension_value_def DEFAULT_LIMITS_def Let_def)
  then obtain j st where s: "extend_budget demo_codec 10 ''j1'' [(''requests'', VInt 12)] ''k'' demo_jobs = (Inr j, st)"
      "js_jobs st ''j1'' \<noteq> None" by blast
  show ?thesis
    using extension_idempotent[OF s(1), where evs = "[]" and now' = 20] s(2) by auto
qed

end
