(* ===== verification/Leases.thy ===== *)
theory Leases
  imports Prelude
begin

text \<open>
  Session ownership in the orchestration store, \<^verbatim>\<open>backend/agent_runtime/orchestration_store.py\<close>: a
  lease row per session with an epoch that fences earlier grants. The operations here are the bodies
  of the transactions; the health check of the journal that two of them make first is added in
  the theory \<open>Journal\<close>. The locale \<open>fencing\<close> is what a writer may rely on when it checks its
  grant in the transaction of its write.
\<close>

datatype store_error =
    Store_value_error string
  | Store_key_error string
  | Store_integrity_error

record lease_row =
  ls_owner :: string
  ls_epoch :: int
  ls_expires :: rat

type_synonym leases = "string \<rightharpoonup> lease_row"

record lease_grant =
  lg_session :: string
  lg_owner :: string
  lg_epoch :: int
  lg_expires :: rat

section \<open>The operations\<close>

definition lease_ttl :: "int \<Rightarrow> rat" where
  "lease_ttl ttl_seconds = of_int (clamp 5 300 ttl_seconds)"

definition acquire_lease_tx :: "string \<Rightarrow> string \<Rightarrow> int \<Rightarrow> rat \<Rightarrow> leases
    \<Rightarrow> store_error + (lease_grant \<times> leases)" where
  "acquire_lease_tx session owner ttl_seconds now st =
     (let expires = now + lease_ttl ttl_seconds;
          epoch = (case st session of Some row \<Rightarrow> ls_epoch row | None \<Rightarrow> 0) + 1
      in if (case st session of Some row \<Rightarrow> now < ls_expires row \<and> ls_owner row \<noteq> owner | None \<Rightarrow> False)
         then Inl (Store_value_error ''AGENT_SESSION_LEASE_HELD'')
         else Inr (\<lparr>lg_session = session, lg_owner = owner, lg_epoch = epoch, lg_expires = expires\<rparr>,
                st(session \<mapsto> \<lparr>ls_owner = owner, ls_epoch = epoch, ls_expires = expires\<rparr>)))"

definition grant_current :: "lease_grant \<Rightarrow> leases \<Rightarrow> bool" where
  "grant_current g st =
     (case st (lg_session g) of None \<Rightarrow> False
      | Some row \<Rightarrow> ls_owner row = lg_owner g \<and> ls_epoch row = lg_epoch g)"

definition renew_lease_tx :: "lease_grant \<Rightarrow> int \<Rightarrow> rat \<Rightarrow> leases \<Rightarrow> store_error + (lease_grant \<times> leases)" where
  "renew_lease_tx g ttl_seconds now st =
     (let expires = now + lease_ttl ttl_seconds in
      if \<not> grant_current g st then Inl (Store_value_error ''AGENT_SESSION_LEASE_FENCED'')
      else case st (lg_session g) of
        None \<Rightarrow> Inl (Store_value_error ''AGENT_SESSION_LEASE_FENCED'')
      | Some row \<Rightarrow>
          if ls_expires row \<le> now then Inl (Store_value_error ''AGENT_SESSION_LEASE_EXPIRED'')
          else Inr (g\<lparr>lg_expires := expires\<rparr>, st(lg_session g \<mapsto> row\<lparr>ls_expires := expires\<rparr>)))"

definition release_lease :: "lease_grant \<Rightarrow> rat \<Rightarrow> leases \<Rightarrow> store_error + leases" where
  "release_lease g now st =
     (if \<not> grant_current g st then Inl (Store_value_error ''AGENT_SESSION_LEASE_FENCED'')
      else case st (lg_session g) of
        None \<Rightarrow> Inl (Store_value_error ''AGENT_SESSION_LEASE_FENCED'')
      | Some row \<Rightarrow> Inr (st(lg_session g \<mapsto> row\<lparr>ls_owner := [], ls_expires := now\<rparr>)))"

definition assert_lease :: "lease_grant \<Rightarrow> rat \<Rightarrow> leases \<Rightarrow> store_error + unit" where
  "assert_lease g now st =
     (if \<not> grant_current g st then Inl (Store_value_error ''AGENT_SESSION_LEASE_FENCED'')
      else case st (lg_session g) of
        None \<Rightarrow> Inl (Store_value_error ''AGENT_SESSION_LEASE_FENCED'')
      | Some row \<Rightarrow>
          if ls_expires row \<le> now then Inl (Store_value_error ''AGENT_SESSION_LEASE_EXPIRED'') else Inr ())"

definition epoch_of :: "leases \<Rightarrow> string \<Rightarrow> int" where
  "epoch_of st session = (case st session of Some row \<Rightarrow> ls_epoch row | None \<Rightarrow> 0)"

section \<open>What a fenced writer relies on\<close>

locale fencing =
  fixes epoch :: "'st \<Rightarrow> 'key \<Rightarrow> int"
    and grant_key :: "'g \<Rightarrow> 'key"
    and grant_epoch :: "'g \<Rightarrow> int"
    and valid :: "'g \<Rightarrow> rat \<Rightarrow> 'st \<Rightarrow> bool"
    and step :: "'ev \<Rightarrow> 'st \<Rightarrow> 'st"
  assumes valid_epoch: "valid g now st \<Longrightarrow> grant_epoch g = epoch st (grant_key g)"
    and epoch_mono: "epoch st k \<le> epoch (step ev st) k"
begin

text \<open>The epochs under which guarded writes for one key succeed, in order.\<close>

fun guarded_log :: "'key \<Rightarrow> ('ev + 'g \<times> rat) list \<Rightarrow> 'st \<Rightarrow> int list" where
  "guarded_log k [] st = []"
| "guarded_log k (Inl ev # rest) st = guarded_log k rest (step ev st)"
| "guarded_log k (Inr (g, now) # rest) st =
     (if grant_key g = k \<and> valid g now st then [grant_epoch g] else []) @ guarded_log k rest st"

lemma guarded_log_ge: "e \<in> set (guarded_log k ops st) \<Longrightarrow> epoch st k \<le> e"
proof (induction k ops st rule: guarded_log.induct)
  case (2 k ev rest st)
  then show ?case using epoch_mono[of st k ev] by simp
qed (auto dest: valid_epoch split: if_splits)

lemma guarded_log_sorted: "sorted (guarded_log k ops st)"
proof (induction k ops st rule: guarded_log.induct)
  case (3 k g now rest st)
  then show ?case using guarded_log_ge[of _ k rest st] valid_epoch[of g now st] by auto
qed auto

text \<open>The invariant of a log that records the epoch of every guarded write.\<close>

definition log_inv :: "'st \<Rightarrow> 'key \<Rightarrow> int list \<Rightarrow> bool" where
  "log_inv st k es \<longleftrightarrow> sorted es \<and> (\<forall>e \<in> set es. e \<le> epoch st k)"

lemma log_inv_step: "log_inv st k es \<Longrightarrow> log_inv (step ev st) k es"
  using epoch_mono[of st k ev] by (fastforce simp: log_inv_def)

lemma log_inv_write:
  "log_inv st k es \<Longrightarrow> valid g now st \<Longrightarrow> grant_key g = k \<Longrightarrow> log_inv st k (es @ [grant_epoch g])"
  using valid_epoch[of g now st] by (auto simp: log_inv_def sorted_append)

text \<open>A grant whose epoch was passed never becomes valid again.\<close>

lemma fenced_forever:
  assumes "grant_epoch g < epoch st (grant_key g)"
  shows "\<not> valid g now (fold step evs st)"
proof -
  have "epoch st k \<le> epoch (fold step evs st) k" for k
  proof (induction evs arbitrary: st)
    case (Cons ev evs)
    then show ?case using epoch_mono[of st k ev] order_trans by (metis fold_simps(2))
  qed simp
  then show ?thesis using assms valid_epoch[of g now "fold step evs st"] by (metis not_less)
qed

end

section \<open>The lease table provides it\<close>

datatype lease_event =
    L_acquire string string int rat
  | L_renew lease_grant int rat
  | L_release lease_grant rat

fun lease_step :: "lease_event \<Rightarrow> leases \<Rightarrow> leases" where
  "lease_step (L_acquire session owner ttl now) st =
     (case acquire_lease_tx session owner ttl now st of Inr (g, st') \<Rightarrow> st' | Inl _ \<Rightarrow> st)"
| "lease_step (L_renew g ttl now) st = (case renew_lease_tx g ttl now st of Inr (g', st') \<Rightarrow> st' | Inl _ \<Rightarrow> st)"
| "lease_step (L_release g now) st = (case release_lease g now st of Inr st' \<Rightarrow> st' | Inl _ \<Rightarrow> st)"

lemma assert_lease_ok:
  "assert_lease g now st = Inr u \<longleftrightarrow>
     (\<exists>row. st (lg_session g) = Some row \<and> ls_owner row = lg_owner g \<and> ls_epoch row = lg_epoch g
        \<and> now < ls_expires row)"
  by (auto simp: assert_lease_def grant_current_def not_le split: option.split)

lemma acquire_epoch:
  "acquire_lease_tx session owner ttl now st = Inr (g, st') \<Longrightarrow>
     lg_session g = session \<and> lg_owner g = owner \<and> lg_epoch g = epoch_of st session + 1
     \<and> lg_expires g = now + lease_ttl ttl
     \<and> st' = st(session \<mapsto> \<lparr>ls_owner = owner, ls_epoch = lg_epoch g, ls_expires = lg_expires g\<rparr>)"
  by (auto simp: acquire_lease_tx_def Let_def epoch_of_def split: option.splits if_splits)

lemma lease_step_epoch:
  "epoch_of st k \<le> epoch_of (lease_step ev st) k"
proof (cases ev)
  case (L_acquire session owner ttl now)
  show ?thesis
  proof (cases "acquire_lease_tx session owner ttl now st")
    case (Inr x)
    then show ?thesis using acquire_epoch[of session owner ttl now st "fst x" "snd x"] L_acquire
      by (cases x) (auto simp: epoch_of_def)
  qed (use L_acquire in simp)
qed (auto simp: renew_lease_tx_def release_lease_def epoch_of_def Let_def split: option.split sum.split)

interpretation session_lease: fencing epoch_of lg_session lg_epoch
    "\<lambda>g now st. assert_lease g now st = Inr ()" lease_step
proof unfold_locales
  show "assert_lease g now st = Inr () \<Longrightarrow> lg_epoch g = epoch_of st (lg_session g)" for g now st
    by (auto simp: assert_lease_ok epoch_of_def)
qed (rule lease_step_epoch)

section \<open>Grants over time\<close>

text \<open>The grants issued, newest first, by a run of lease operations. A renewal issues no new one: it returns the renewed grant
  with a later expiry, and no operation reads the expiry of a grant.\<close>

fun grants_issued :: "lease_event list \<Rightarrow> leases \<Rightarrow> lease_grant list" where
  "grants_issued [] st = []"
| "grants_issued (L_acquire session owner ttl now # evs) st =
     (case acquire_lease_tx session owner ttl now st of
        Inr (g, st') \<Rightarrow> grants_issued evs st' @ [g] | Inl _ \<Rightarrow> grants_issued evs st)"
| "grants_issued (L_renew grant ttl now # evs) st = grants_issued evs (lease_step (L_renew grant ttl now) st)"
| "grants_issued (L_release grant now # evs) st = grants_issued evs (lease_step (L_release grant now) st)"

lemma grants_issued_epochs:
  "\<forall>g \<in> set (grants_issued evs st). epoch_of st (lg_session g) < lg_epoch g"
proof (induction evs st rule: grants_issued.induct)
  case (2 session owner ttl now evs st)
  show ?case
  proof (cases "acquire_lease_tx session owner ttl now st")
    case (Inr x)
    obtain g st' where x: "x = (g, st')" by (cases x)
    have "epoch_of st k \<le> epoch_of st' k" for k
      using lease_step_epoch[of st k "L_acquire session owner ttl now"] Inr x by simp
    moreover have "epoch_of st (lg_session g) < lg_epoch g"
      using acquire_epoch[of session owner ttl now st g st'] Inr x by simp
    ultimately show ?thesis using 2(2)[OF Inr x[symmetric]] Inr x by (auto intro: le_less_trans)
  qed (use 2(1) in simp)
next
  case (3 grant ttl now evs st)
  then show ?case using lease_step_epoch[of st _ "L_renew grant ttl now"]
    by (auto simp del: lease_step.simps intro: le_less_trans)
next
  case (4 grant now evs st)
  then show ?case using lease_step_epoch[of st _ "L_release grant now"]
    by (auto simp del: lease_step.simps intro: le_less_trans)
qed simp

lemma grants_issued_distinct: "distinct (map (\<lambda>g. (lg_session g, lg_epoch g)) (grants_issued evs st))"
proof (induction evs st rule: grants_issued.induct)
  case (2 session owner ttl now evs st)
  show ?case
  proof (cases "acquire_lease_tx session owner ttl now st")
    case (Inr x)
    obtain g st' where x: "x = (g, st')" by (cases x)
    have "epoch_of st' session = lg_epoch g \<and> lg_session g = session"
      using acquire_epoch[of session owner ttl now st g st'] Inr x by (simp add: epoch_of_def)
    then have "(lg_session g, lg_epoch g) \<notin> set (map (\<lambda>g. (lg_session g, lg_epoch g)) (grants_issued evs st'))"
      using grants_issued_epochs[of evs st'] by auto
    then show ?thesis using 2(2)[OF Inr x[symmetric]] Inr x by simp
  qed (use 2(1) in simp)
qed simp_all

lemma fold_lease_epoch: "epoch_of st k \<le> epoch_of (fold lease_step evs st) k"
proof (induction evs arbitrary: st)
  case (Cons ev evs)
  then show ?case using lease_step_epoch[of st k ev] order_trans by (metis fold_simps(2))
qed simp

lemma grants_issued_le:
  "g \<in> set (grants_issued evs st) \<Longrightarrow> lg_epoch g \<le> epoch_of (fold lease_step evs st) (lg_session g)"
proof (induction evs st rule: grants_issued.induct)
  case (2 session owner ttl now evs st)
  show ?case
  proof (cases "acquire_lease_tx session owner ttl now st")
    case (Inr x)
    obtain g' st' where x: "x = (g', st')" by (cases x)
    have "lg_epoch g' = epoch_of st' (lg_session g')"
      using acquire_epoch[of session owner ttl now st g' st'] Inr x by (simp add: epoch_of_def)
    then show ?thesis
      using 2(2)[OF Inr x[symmetric]] 2(3) Inr x fold_lease_epoch[of st' "lg_session g'" evs] by auto
  qed (use 2 in simp)
qed simp_all

section \<open>The property\<close>

text \<open>C39. A session has at most one valid owner: of all the grants that any sequence of acquisitions,
  renewals and releases ever issued, at most one passes the lease assertion at any time, and once a
  session has been acquired again, whatever happens next, the earlier grants never pass again. The grant that a renewal
  returns has the session, owner and epoch of the renewed one, all that the assertion reads of a grant, and counts as
  the same grant.\<close>
theorem lease_single_owner:
  fixes evs evs' :: "lease_event list"
  defines "st \<equiv> fold lease_step evs Map.empty"
  assumes "g \<in> set (grants_issued evs Map.empty)" "g' \<in> set (grants_issued evs Map.empty)"
    and "lg_session g = lg_session g'"
  shows "(assert_lease g now st = Inr () \<and> assert_lease g' now st = Inr () \<longrightarrow> g = g')
    \<and> (lg_epoch g < lg_epoch g' \<longrightarrow> assert_lease g now' (fold lease_step evs' st) \<noteq> Inr ())"
proof -
  have "inj_on (\<lambda>g. (lg_session g, lg_epoch g)) (set (grants_issued evs Map.empty))"
    using grants_issued_distinct[of evs Map.empty] by (simp add: distinct_map)
  moreover have "lg_epoch g < lg_epoch g' \<Longrightarrow> lg_epoch g < epoch_of st (lg_session g)"
    using grants_issued_le[OF assms(3)] assms(4) st_def by simp
  moreover have "lg_epoch g = lg_epoch g'"
    if "assert_lease g now st = Inr ()" "assert_lease g' now st = Inr ()"
    using that assms(4) session_lease.valid_epoch by metis
  ultimately show ?thesis
    using assms(2-4) session_lease.fenced_forever[of g st now' evs'] unfolding inj_on_def by blast
qed

definition demo_lease_events :: "lease_event list" where
  "demo_lease_events = [L_acquire ''s'' ''a'' 20 0, L_acquire ''s'' ''b'' 20 30]"

lemma demo_grants:
  "grants_issued demo_lease_events Map.empty =
     [\<lparr>lg_session = ''s'', lg_owner = ''b'', lg_epoch = 2, lg_expires = 50\<rparr>,
      \<lparr>lg_session = ''s'', lg_owner = ''a'', lg_epoch = 1, lg_expires = 20\<rparr>]"
  by (simp add: demo_lease_events_def acquire_lease_tx_def lease_ttl_def clamp_def Let_def)

lemma lease_single_owner_witness:
  "assert_lease \<lparr>lg_session = ''s'', lg_owner = ''a'', lg_epoch = 1, lg_expires = 20\<rparr> 10
     (fold lease_step [L_release \<lparr>lg_session = ''s'', lg_owner = ''b'', lg_epoch = 2, lg_expires = 50\<rparr> 40]
       (fold lease_step demo_lease_events Map.empty)) \<noteq> Inr ()"
  using lease_single_owner[where evs = demo_lease_events and
      g = "\<lparr>lg_session = ''s'', lg_owner = ''a'', lg_epoch = 1, lg_expires = 20\<rparr>" and
      g' = "\<lparr>lg_session = ''s'', lg_owner = ''b'', lg_epoch = 2, lg_expires = 50\<rparr>" and now' = 10 and
      evs' = "[L_release \<lparr>lg_session = ''s'', lg_owner = ''b'', lg_epoch = 2, lg_expires = 50\<rparr> 40]"]
  by (simp add: demo_grants)

end
