(* ===== verification/Journal.thy ===== *)
theory Journal
  imports Leases
begin

text \<open>
  The append-only session journal of \<^verbatim>\<open>backend/agent_runtime/orchestration_store.py\<close>: appending an
  event under a lease, the hash chain and its verification, quarantine, and the operations on
  leases as the store offers them, behind the health check.

  The payload column of an event row is the decoded dictionary (\<open>None\<close> for a text that does not
  decode); the projection of an event to an activity record (\<^verbatim>\<open>project_activity\<close>, another module)
  is an argument. A payload may carry an integer event version; a textual one is not modelled.
\<close>

type_synonym payload = "string \<rightharpoonup> pyval"

section \<open>State\<close>

record event_row =
  er_session :: string
  er_sequence :: int
  er_run :: "string option"
  er_node :: "string option"
  er_type :: string
  er_payload :: "payload option"
  er_event_id :: "string option"
  er_version :: int
  er_epoch :: int
  er_key :: "string option"
  er_prev :: string
  er_checksum :: string
  er_hash :: string

record head_row =
  hd_sequence :: int
  hd_checksum :: string
  hd_quarantined :: bool

record run_row =
  rn_session :: string
  rn_project :: string
  rn_status :: string
  rn_payload :: payload

record journal =
  jn_leases :: leases
  jn_heads :: "string \<rightharpoonup> head_row"
  jn_events :: "event_row list"
  jn_runs :: "string \<rightharpoonup> run_row"
  jn_quarantine :: "string \<rightharpoonup> string"

definition chain_keys :: "string set" where
  "chain_keys = {''event_checksum'', ''previous_checksum'', ''sequence'', ''session_seq''}"

definition sanitized :: "payload \<Rightarrow> payload" where
  "sanitized p = p |` (- chain_keys)"

definition payload_hash :: "codec \<Rightarrow> payload \<Rightarrow> string" where
  "payload_hash cd p = sha256 cd (json_dict cd (sanitized p))"

definition optional_text :: "codec \<Rightarrow> pyval \<Rightarrow> string option" where
  "optional_text cd v = (if v = VNone \<or> py_str cd v = [] then None else Some (py_str cd v))"

text \<open>\<^verbatim>\<open>int(v or default)\<close>\<close>

definition int_or :: "pyval \<Rightarrow> int \<Rightarrow> int option" where
  "int_or v alt = (if \<not> py_true v then Some alt else case v of VInt n \<Rightarrow> Some n
     | VBool b \<Rightarrow> Some 1 | VFloat (Fin q) \<Rightarrow> Some (py_int q) | _ \<Rightarrow> None)"

section \<open>Verification\<close>

datatype verdict = Healthy int string | Unhealthy string "int option"

definition session_rows :: "string \<Rightarrow> journal \<Rightarrow> event_row list" where
  "session_rows session jn = sort_key er_sequence (filter (\<lambda>r. er_session r = session) (jn_events jn))"

definition identity_ok :: "string \<Rightarrow> payload \<Rightarrow> event_row \<Rightarrow> bool" where
  "identity_ok session p r \<longleftrightarrow>
     py_get p ''session_id'' = VStr session \<and> py_eq_int (py_get p ''sequence'') (er_sequence r)
     \<and> py_eq_int (py_get p ''session_seq'') (er_sequence r)
     \<and> py_eq_opt (py_get p ''event_id'') (er_event_id r)
     \<and> py_eq_int (py_get p ''event_version'') (er_version r)
     \<and> py_eq_opt (py_get p ''run_id'') (er_run r) \<and> py_eq_opt (py_get p ''node_id'') (er_node r)
     \<and> (case p ''event_type'' of None \<Rightarrow> er_type r = ''activity.updated''
        | Some v \<Rightarrow> v = VStr (er_type r))
     \<and> py_get p ''previous_checksum'' = VStr (er_prev r)
     \<and> py_get p ''event_checksum'' = VStr (er_checksum r)"

definition verify_row :: "codec \<Rightarrow> string \<Rightarrow> event_row \<Rightarrow> string \<Rightarrow> int \<Rightarrow> string option" where
  "verify_row cd session r previous expected =
     (if er_sequence r \<noteq> expected then Some ''sequence_gap''
      else if er_prev r \<noteq> previous then Some ''checksum_parent_mismatch''
      else case er_payload r of
        None \<Rightarrow> Some ''payload_invalid''
      | Some p \<Rightarrow>
          if payload_hash cd p \<noteq> er_hash r then Some ''payload_hash_mismatch''
          else if \<not> identity_ok session p r then Some ''event_identity_mismatch''
          else if sha256 cd (previous @ er_hash r) \<noteq> er_checksum r then Some ''checksum_mismatch''
          else None)"

fun verify_rows :: "codec \<Rightarrow> string \<Rightarrow> event_row list \<Rightarrow> string \<Rightarrow> int \<Rightarrow> (string \<times> int) + (string \<times> int)" where
  "verify_rows cd session [] previous expected = Inr (previous, expected)"
| "verify_rows cd session (r # rs) previous expected =
     (case verify_row cd session r previous expected of
        Some reason \<Rightarrow> Inl (reason, er_sequence r)
      | None \<Rightarrow> verify_rows cd session rs (er_checksum r) (expected + 1))"

definition verify_journal :: "codec \<Rightarrow> string \<Rightarrow> journal \<Rightarrow> verdict" where
  "verify_journal cd session jn =
     (let head = jn_heads jn session in
      if (case head of Some h \<Rightarrow> hd_quarantined h | None \<Rightarrow> False)
      then Unhealthy ''quarantine_persisted'' None
      else case verify_rows cd session (session_rows session jn) [] 1 of
        Inl (reason, n) \<Rightarrow> Unhealthy reason (Some n)
      | Inr (previous, expected) \<Rightarrow>
          (let count = expected - 1 in
           if (case head of None \<Rightarrow> count \<noteq> 0
               | Some h \<Rightarrow> hd_sequence h \<noteq> count \<or> hd_checksum h \<noteq> previous)
           then Unhealthy ''head_mismatch'' None
           else Healthy count previous))"

definition QUARANTINED :: store_error where
  "QUARANTINED = Store_value_error ''AGENT_JOURNAL_QUARANTINED''"

definition require_healthy :: "codec \<Rightarrow> string \<Rightarrow> journal \<Rightarrow> (store_error + int \<times> string) \<times> journal" where
  "require_healthy cd session jn =
     (case verify_journal cd session jn of
        Unhealthy reason n \<Rightarrow>
          (Inl QUARANTINED, jn\<lparr>jn_quarantine := (jn_quarantine jn)(session \<mapsto> reason),
             jn_heads := (case jn_heads jn session of None \<Rightarrow> jn_heads jn
               | Some h \<Rightarrow> (jn_heads jn)(session \<mapsto> h\<lparr>hd_quarantined := True\<rparr>))\<rparr>)
      | Healthy count checksum \<Rightarrow>
          if jn_quarantine jn session \<noteq> None then (Inl QUARANTINED, jn) else (Inr (count, checksum), jn))"

section \<open>Leases behind the health check\<close>

definition acquire_lease :: "codec \<Rightarrow> string \<Rightarrow> string \<Rightarrow> int \<Rightarrow> rat \<Rightarrow> journal
    \<Rightarrow> (store_error + lease_grant) \<times> journal" where
  "acquire_lease cd session owner ttl_seconds now jn =
     (case require_healthy cd session jn of
        (Inl e, jn') \<Rightarrow> (Inl e, jn')
      | (Inr _, jn') \<Rightarrow>
          (case acquire_lease_tx session owner ttl_seconds now (jn_leases jn') of
             Inl e \<Rightarrow> (Inl e, jn')
           | Inr (g, ls) \<Rightarrow> (Inr g, jn'\<lparr>jn_leases := ls\<rparr>)))"

definition renew_lease :: "codec \<Rightarrow> lease_grant \<Rightarrow> int \<Rightarrow> rat \<Rightarrow> journal \<Rightarrow> (store_error + lease_grant) \<times> journal" where
  "renew_lease cd g ttl_seconds now jn =
     (case require_healthy cd (lg_session g) jn of
        (Inl e, jn') \<Rightarrow> (Inl e, jn')
      | (Inr _, jn') \<Rightarrow>
          (case renew_lease_tx g ttl_seconds now (jn_leases jn') of
             Inl e \<Rightarrow> (Inl e, jn')
           | Inr (g', ls) \<Rightarrow> (Inr g', jn'\<lparr>jn_leases := ls\<rparr>)))"

section \<open>Appending\<close>

definition find_key :: "string \<Rightarrow> string \<Rightarrow> journal \<Rightarrow> event_row option" where
  "find_key session key jn = List.find (\<lambda>r. er_session r = session \<and> er_key r = Some key) (jn_events jn)"

text \<open>The latest activity record of the same run and correlation, in any session.\<close>

definition correlation_of :: "pyval \<Rightarrow> pyval" where
  "correlation_of v = (case v of VDict kvs \<Rightarrow> py_get (dict_of kvs) ''correlation'' | _ \<Rightarrow> VNone)"

definition previous_activity :: "pyval \<Rightarrow> pyval \<Rightarrow> journal \<Rightarrow> pyval option" where
  "previous_activity run correlation jn =
     map_option (\<lambda>r. case er_payload r of Some p \<Rightarrow> py_get p ''activity_record'' | None \<Rightarrow> VNone)
       (List.find (\<lambda>_. True) (rev (sort_key er_sequence (filter (\<lambda>r. correlation \<noteq> VNone
          \<and> (case er_run r of Some s \<Rightarrow> run = VStr s | None \<Rightarrow> False)
          \<and> (case er_payload r of Some p \<Rightarrow> correlation_of (py_get p ''activity_record'') = correlation
             | None \<Rightarrow> False)) (jn_events jn)))))"

type_synonym activity_projection = "payload \<Rightarrow> pyval option \<Rightarrow> pyval option"

record append_input =
  ap_session :: string
  ap_payload :: payload
  ap_grant :: "lease_grant option"
  ap_key :: "string option"
  ap_version :: int
  ap_now :: rat
  ap_stamp :: string
  ap_fresh :: string
  ap_projection :: "payload option"

definition stamped_event :: "codec \<Rightarrow> append_input \<Rightarrow> int \<Rightarrow> int \<Rightarrow> payload" where
  "stamped_event cd inp version sequence =
     (let p = ap_payload inp;
          e = p(''event_id'' \<mapsto> VStr (py_or_str cd (py_get p ''event_id'') (''event-'' @ ap_fresh inp)),
                ''event_version'' \<mapsto> VInt version, ''session_id'' \<mapsto> VStr (ap_session inp),
                ''sequence'' \<mapsto> VInt sequence, ''session_seq'' \<mapsto> VInt sequence);
          e2 = (case ap_grant inp of Some g \<Rightarrow> e(''lease_epoch'' \<mapsto> VInt (lg_epoch g)) | None \<Rightarrow> e);
          e3 = (if e2 ''created_at'' = None then e2(''created_at'' \<mapsto> VStr (ap_stamp inp)) else e2)
      in if e3 ''timestamp'' = None then e3(''timestamp'' \<mapsto> py_get e3 ''created_at'') else e3)"

definition with_activity :: "activity_projection \<Rightarrow> journal \<Rightarrow> payload \<Rightarrow> payload" where
  "with_activity act jn e =
     (if py_true (py_get e ''run_id'')
      then (case act e None of
          None \<Rightarrow> e
        | Some candidate \<Rightarrow>
            if py_true candidate
            then e(''activity_record'' \<mapsto>
              (case act e (previous_activity (py_get e ''run_id'') (correlation_of candidate) jn) of
                 Some v \<Rightarrow> v | None \<Rightarrow> VNone))
            else e)
      else e)"

definition event_row_of :: "codec \<Rightarrow> append_input \<Rightarrow> int \<Rightarrow> int \<Rightarrow> int \<Rightarrow> string \<Rightarrow> payload \<Rightarrow> event_row" where
  "event_row_of cd inp version epoch sequence last_checksum e =
     (let event = e(''previous_checksum'' \<mapsto> VStr last_checksum);
          hash = payload_hash cd event;
          checksum = sha256 cd (last_checksum @ hash)
      in \<lparr>er_session = ap_session inp, er_sequence = sequence,
          er_run = optional_text cd (py_get e ''run_id''), er_node = optional_text cd (py_get e ''node_id''),
          er_type = py_or_str cd (py_get e ''event_type'') ''activity.updated'',
          er_payload = Some (event(''event_checksum'' \<mapsto> VStr checksum)),
          er_event_id = Some (py_or_str cd (py_get (ap_payload inp) ''event_id'') (''event-'' @ ap_fresh inp)),
          er_version = version, er_epoch = epoch, er_key = ap_key inp, er_prev = last_checksum,
          er_checksum = checksum, er_hash = hash\<rparr>)"

definition violates_unique :: "event_row \<Rightarrow> event_row list \<Rightarrow> bool" where
  "violates_unique r rows \<longleftrightarrow> (\<exists>x \<in> set rows.
     (er_session x = er_session r \<and> er_sequence x = er_sequence r)
     \<or> (er_event_id x \<noteq> None \<and> er_event_id x = er_event_id r)
     \<or> (er_session x = er_session r \<and> er_key x \<noteq> None \<and> er_key x = er_key r))"

definition project_run :: "codec \<Rightarrow> string \<Rightarrow> payload option \<Rightarrow> (string \<rightharpoonup> run_row) \<Rightarrow> (string \<rightharpoonup> run_row)" where
  "project_run cd session projection runs =
     (case projection of None \<Rightarrow> runs
      | Some p \<Rightarrow>
          (let identity = py_str cd (py_get p ''run_id'');
               status = py_str cd (py_get p ''status'')
           in runs(identity \<mapsto> (case runs identity of
                None \<Rightarrow> \<lparr>rn_session = session, rn_project = py_str cd (py_get p ''project_id''),
                         rn_status = status, rn_payload = p\<rparr>
              | Some r \<Rightarrow> r\<lparr>rn_status := status, rn_payload := p\<rparr>))))"

definition legacy_sequence :: "string \<Rightarrow> journal \<Rightarrow> int" where
  "legacy_sequence session jn =
     fold max (map er_sequence (filter (\<lambda>r. er_session r = session) (jn_events jn))) 0"

definition insert_event :: "codec \<Rightarrow> activity_projection \<Rightarrow> append_input \<Rightarrow> int \<Rightarrow> string \<Rightarrow> journal
    \<Rightarrow> (store_error + payload) \<times> journal" where
  "insert_event cd act inp last_sequence last_checksum jn =
     (let sequence = last_sequence + 1 in
      case int_or (py_get (ap_payload inp) ''event_version'') (ap_version inp) of
        None \<Rightarrow> (Inl (Store_value_error ''invalid literal for int''), jn)
      | Some version \<Rightarrow>
          (let e = with_activity act jn (stamped_event cd inp version sequence) in
           case int_or (py_get e ''lease_epoch'') 0 of
             None \<Rightarrow> (Inl (Store_value_error ''invalid literal for int''), jn)
           | Some epoch \<Rightarrow>
               (let row = event_row_of cd inp version epoch sequence last_checksum e in
                if violates_unique row (jn_events jn) then (Inl Store_integrity_error, jn)
                else (Inr (the (er_payload row)), jn\<lparr>
                   jn_events := jn_events jn @ [row],
                   jn_heads := (jn_heads jn)(ap_session inp \<mapsto>
                     \<lparr>hd_sequence = sequence, hd_checksum = er_checksum row, hd_quarantined = False\<rparr>),
                   jn_runs := project_run cd (ap_session inp) (ap_projection inp) (jn_runs jn)\<rparr>))))"

definition append_event :: "codec \<Rightarrow> activity_projection \<Rightarrow> append_input \<Rightarrow> journal
    \<Rightarrow> (store_error + payload) \<times> journal" where
  "append_event cd act inp jn =
     (let session = ap_session inp in
      if jn_quarantine jn session \<noteq> None then (Inl QUARANTINED, jn)
      else case (case ap_grant inp of None \<Rightarrow> Inr () | Some g \<Rightarrow> assert_lease g (ap_now inp) (jn_leases jn)) of
        Inl e \<Rightarrow> (Inl e, jn)
      | Inr _ \<Rightarrow>
          (case (if py_true_opt (ap_key inp) then find_key session (the (ap_key inp)) jn else None) of
             Some row \<Rightarrow>
               if payload_hash cd ((ap_payload inp)(''sequence'' := None, ''session_seq'' := None)) \<noteq> er_hash row
               then (Inl (Store_value_error ''AGENT_JOURNAL_IDEMPOTENCY_CONFLICT''), jn)
               else (case er_payload row of Some p \<Rightarrow> (Inr p, jn)
                  | None \<Rightarrow> (Inl (Store_value_error ''AGENT_STORE_PAYLOAD_INVALID''), jn))
           | None \<Rightarrow>
               (case jn_heads jn session of
                  None \<Rightarrow> insert_event cd act inp (legacy_sequence session jn) [] jn
                | Some h \<Rightarrow>
                    if hd_quarantined h
                    then (Inl QUARANTINED, jn\<lparr>jn_quarantine := (jn_quarantine jn)(session \<mapsto> ''quarantine_persisted'')\<rparr>)
                    else insert_event cd act inp (hd_sequence h) (hd_checksum h) jn)))"

text \<open>A page of events of a session, \<^verbatim>\<open>events\<close>.\<close>

definition events_page :: "string \<Rightarrow> int \<Rightarrow> string option \<Rightarrow> int \<Rightarrow> journal \<Rightarrow> payload option list" where
  "events_page session after_sequence run limit jn =
     map er_payload (take (nat (clamp 1 1000 limit))
       (filter (\<lambda>r. max 0 after_sequence < er_sequence r \<and> (py_true_opt run \<longrightarrow> er_run r = run))
         (session_rows session jn)))"

end
