(* ===== verification/Journal_Props.thy ===== *)
theory Journal_Props
  imports Journal
begin

text \<open>
  Properties of the session journal: appending extends a healthy journal by exactly one verified
  event and touches no other session, the hash chain is tamper-evident, quarantine is permanent,
  the lease epochs recorded in a session never decrease, and what an idempotent retry does.
\<close>

section \<open>Rows in sequence order\<close>

lemma sort_key_snoc:
  assumes "\<forall>y \<in> set xs. f y \<le> f x"
  shows "sort_key f (xs @ [x]) = sort_key f xs @ [x]"
proof -
  have "f a \<le> f x \<Longrightarrow> insort_key f a (ys @ [x]) = insort_key f a ys @ [x]" for a ys
    by (induction ys) auto
  with assms show ?thesis by (induction xs) simp_all
qed

lemma session_rows_set: "set (session_rows session jn) = {r \<in> set (jn_events jn). er_session r = session}"
  by (auto simp: session_rows_def)

lemma session_rows_append:
  assumes "jn_events jn' = jn_events jn @ [row]" "er_session row = s"
    and "\<forall>r \<in> set (session_rows s jn). er_sequence r \<le> er_sequence row"
  shows "session_rows s jn' = session_rows s jn @ [row]"
  using assms sort_key_snoc[of "filter (\<lambda>r. er_session r = s) (jn_events jn)" er_sequence row]
  by (simp add: session_rows_def)

lemma session_rows_other:
  "jn_events jn' = jn_events jn @ [row] \<Longrightarrow> er_session row \<noteq> s \<Longrightarrow> session_rows s jn' = session_rows s jn"
  by (simp add: session_rows_def)

lemma verify_rows_append:
  "verify_rows cd s (xs @ [r]) prev n =
     (case verify_rows cd s xs prev n of Inl e \<Rightarrow> Inl e
      | Inr (p, m) \<Rightarrow> (case verify_row cd s r p m of Some reason \<Rightarrow> Inl (reason, er_sequence r)
          | None \<Rightarrow> Inr (er_checksum r, m + 1)))"
  by (induction xs arbitrary: prev n) (auto split: option.split)

lemma verify_rows_ok:
  "verify_rows cd s xs prev n = Inr (p, m) \<Longrightarrow> m = n + int (length xs) \<and> (\<forall>r \<in> set xs. er_sequence r < m)
     \<and> map er_sequence xs = map (\<lambda>i. n + int i) [0..<length xs]"
proof (induction xs arbitrary: prev n)
  case (Cons r xs)
  then have v: "verify_row cd s r prev n = None" "verify_rows cd s xs (er_checksum r) (n + 1) = Inr (p, m)"
    by (auto split: option.splits)
  have "er_sequence r = n" using v(1) by (auto simp: verify_row_def split: if_splits)
  then show ?case using Cons.IH[OF v(2)]
    by (auto simp: map_upt_Suc simp del: upt_Suc)
qed simp

lemma verify_healthy_rows:
  assumes "verify_journal cd s jn = Healthy n c"
  shows "verify_rows cd s (session_rows s jn) [] 1 = Inr (c, n + 1)" "n = int (length (session_rows s jn))"
    "\<forall>r \<in> set (session_rows s jn). er_sequence r \<le> n"
    "jn_heads jn s = None \<and> n = 0 \<and> c = [] \<or> (\<exists>h. jn_heads jn s = Some h \<and> hd_sequence h = n
       \<and> hd_checksum h = c \<and> \<not> hd_quarantined h)"
proof -
  obtain p m where v: "verify_rows cd s (session_rows s jn) [] 1 = Inr (p, m)" "p = c" "m = n + 1"
    using assms by (auto simp: verify_journal_def Let_def split: if_splits sum.splits option.splits)
  then show *: "verify_rows cd s (session_rows s jn) [] 1 = Inr (c, n + 1)" by simp
  show len: "n = int (length (session_rows s jn))" "\<forall>r \<in> set (session_rows s jn). er_sequence r \<le> n"
    using verify_rows_ok[OF *] by auto
  have "jn_heads jn s = None \<and> n = 0 \<or> (\<exists>h. jn_heads jn s = Some h \<and> hd_sequence h = n
       \<and> hd_checksum h = c \<and> \<not> hd_quarantined h)"
    using assms * by (auto simp: verify_journal_def Let_def split: if_splits option.splits)
  moreover have "n = 0 \<Longrightarrow> c = []" using * len(1) by simp
  ultimately show "jn_heads jn s = None \<and> n = 0 \<and> c = [] \<or> (\<exists>h. jn_heads jn s = Some h \<and> hd_sequence h = n
       \<and> hd_checksum h = c \<and> \<not> hd_quarantined h)" by blast
qed

section \<open>The appended row verifies\<close>

text \<open>Payloads whose identity columns hold exactly what the payload says.\<close>

definition plain_text :: "pyval option \<Rightarrow> bool" where
  "plain_text v = (case v of None \<Rightarrow> True | Some VNone \<Rightarrow> True | Some (VStr s) \<Rightarrow> s \<noteq> [] | _ \<Rightarrow> False)"

definition plain_payload :: "payload \<Rightarrow> bool" where
  "plain_payload p \<longleftrightarrow> plain_text (p ''run_id'') \<and> plain_text (p ''node_id'')
     \<and> p ''event_type'' \<noteq> Some VNone \<and> plain_text (p ''event_type'')"

lemma stamped_event_keys:
  "k \<notin> {''event_id'', ''event_version'', ''session_id'', ''sequence'', ''session_seq'', ''lease_epoch'',
       ''created_at'', ''timestamp''} \<Longrightarrow> stamped_event cd inp v n k = ap_payload inp k"
  by (simp add: stamped_event_def Let_def split: option.split)

lemma stamped_event_fields:
  "stamped_event cd inp v n ''event_id'' =
     Some (VStr (py_or_str cd (py_get (ap_payload inp) ''event_id'') (''event-'' @ ap_fresh inp)))"
  "stamped_event cd inp v n ''event_version'' = Some (VInt v)"
  "stamped_event cd inp v n ''session_id'' = Some (VStr (ap_session inp))"
  "stamped_event cd inp v n ''sequence'' = Some (VInt n)"
  "stamped_event cd inp v n ''session_seq'' = Some (VInt n)"
  by (simp_all add: stamped_event_def Let_def split: option.split)

lemma with_activity_keys: "k \<noteq> ''activity_record'' \<Longrightarrow> with_activity act jn e k = e k"
  by (simp add: with_activity_def split: option.split)

lemma sanitized_chain: "k \<in> chain_keys \<Longrightarrow> sanitized (p(k \<mapsto> v)) = sanitized p"
  by (auto simp: sanitized_def restrict_map_def fun_eq_iff)

lemma optional_text_plain:
  "plain_text v \<Longrightarrow> py_eq_opt (case v of None \<Rightarrow> VNone | Some x \<Rightarrow> x)
     (optional_text cd (case v of None \<Rightarrow> VNone | Some x \<Rightarrow> x))"
  by (auto simp: plain_text_def py_eq_opt_def optional_text_def py_str_def split: option.splits pyval.splits)

lemma event_type_plain:
  "plain_text v \<Longrightarrow> v \<noteq> Some VNone \<Longrightarrow>
   (case v of None \<Rightarrow> py_or_str cd (py_get e ''event_type'') alt = alt | Some x \<Rightarrow>
      x = VStr (py_or_str cd (py_get e ''event_type'') alt))"
  if "e ''event_type'' = v"
  using that by (auto simp: plain_text_def py_get_def py_or_str_def py_str_def split: option.splits pyval.splits)

lemma verify_new_row:
  assumes "plain_payload (ap_payload inp)"
    and "row = event_row_of cd inp v epoch n c (with_activity act jn (stamped_event cd inp v n))"
  shows "verify_row cd (ap_session inp) row c n = None"
proof -
  define e where "e = with_activity act jn (stamped_event cd inp v n)"
  define event where "event = e(''previous_checksum'' \<mapsto> VStr c)"
  define final where "final = event(''event_checksum'' \<mapsto> VStr (sha256 cd (c @ payload_hash cd event)))"
  have e: "e ''event_id'' = Some (VStr (py_or_str cd (py_get (ap_payload inp) ''event_id'') (''event-'' @ ap_fresh inp)))"
      "e ''event_version'' = Some (VInt v)" "e ''session_id'' = Some (VStr (ap_session inp))"
      "e ''sequence'' = Some (VInt n)" "e ''session_seq'' = Some (VInt n)"
      "e ''run_id'' = ap_payload inp ''run_id''" "e ''node_id'' = ap_payload inp ''node_id''"
      "e ''event_type'' = ap_payload inp ''event_type''"
    unfolding e_def by (simp_all add: with_activity_keys stamped_event_fields stamped_event_keys)
  have "sanitized final = sanitized event"
    unfolding final_def by (rule sanitized_chain) (simp add: chain_keys_def)
  then have hash: "payload_hash cd final = payload_hash cd event"
    by (simp add: payload_hash_def)
  have row: "row = \<lparr>er_session = ap_session inp, er_sequence = n,
          er_run = optional_text cd (py_get e ''run_id''), er_node = optional_text cd (py_get e ''node_id''),
          er_type = py_or_str cd (py_get e ''event_type'') ''activity.updated'',
          er_payload = Some final,
          er_event_id = Some (py_or_str cd (py_get (ap_payload inp) ''event_id'') (''event-'' @ ap_fresh inp)),
          er_version = v, er_epoch = epoch, er_key = ap_key inp, er_prev = c,
          er_checksum = sha256 cd (c @ payload_hash cd event), er_hash = payload_hash cd event\<rparr>"
    unfolding assms(2) event_row_of_def Let_def final_def event_def e_def by simp
  have same: "final k = e k" if "k \<noteq> ''event_checksum''" "k \<noteq> ''previous_checksum''" for k
    using that by (simp add: final_def event_def)
  have "py_eq_opt (py_get final ''run_id'') (er_run row)" "py_eq_opt (py_get final ''node_id'') (er_node row)"
    using assms(1) e(6,7) optional_text_plain[of "e ''run_id''" cd] optional_text_plain[of "e ''node_id''" cd]
    by (simp_all add: row py_get_def same plain_payload_def)
  moreover have "case final ''event_type'' of None \<Rightarrow> er_type row = ''activity.updated''
      | Some x \<Rightarrow> x = VStr (er_type row)"
    using assms(1) e(8) event_type_plain[of e "e ''event_type''" cd "''activity.updated''"]
    by (auto simp: row same plain_payload_def split: option.splits)
  moreover have "py_get final ''previous_checksum'' = VStr (er_prev row)"
      "py_get final ''event_checksum'' = VStr (er_checksum row)"
    by (simp_all add: row final_def event_def py_get_def)
  moreover have "er_sequence row = n" "er_version row = v"
      "er_event_id row = Some (py_or_str cd (py_get (ap_payload inp) ''event_id'') (''event-'' @ ap_fresh inp))"
    by (simp_all add: row)
  moreover have "py_get final ''session_id'' = VStr (ap_session inp)" "py_get final ''sequence'' = VInt n"
      "py_get final ''session_seq'' = VInt n" "py_get final ''event_version'' = VInt v"
      "py_get final ''event_id'' = VStr (py_or_str cd (py_get (ap_payload inp) ''event_id'') (''event-'' @ ap_fresh inp))"
    by (simp_all add: py_get_def same e(1-5))
  ultimately have "identity_ok (ap_session inp) final row"
    by (simp add: identity_ok_def py_eq_int_def py_eq_opt_def)
  moreover have "er_sequence row = n" "er_prev row = c" "er_payload row = Some final"
      "er_hash row = payload_hash cd event" "er_checksum row = sha256 cd (c @ payload_hash cd event)"
    by (simp_all add: row)
  ultimately show ?thesis using hash by (simp add: verify_row_def)
qed

section \<open>Appending to a healthy journal\<close>

definition new_event_id :: "codec \<Rightarrow> append_input \<Rightarrow> string" where
  "new_event_id cd inp = py_or_str cd (py_get (ap_payload inp) ''event_id'') (''event-'' @ ap_fresh inp)"

definition may_append :: "codec \<Rightarrow> append_input \<Rightarrow> journal \<Rightarrow> bool" where
  "may_append cd inp jn \<longleftrightarrow>
     jn_quarantine jn (ap_session inp) = None \<and> ap_key inp = None
     \<and> (\<forall>g. ap_grant inp = Some g \<longrightarrow> assert_lease g (ap_now inp) (jn_leases jn) = Inr ())
     \<and> (\<forall>r \<in> set (jn_events jn). er_event_id r \<noteq> Some (new_event_id cd inp))
     \<and> int_or (py_get (ap_payload inp) ''event_version'') (ap_version inp) \<noteq> None
     \<and> (ap_grant inp = None \<longrightarrow> ap_payload inp ''lease_epoch'' = None)"

lemma legacy_sequence_none: "session_rows s jn = [] \<Longrightarrow> legacy_sequence s jn = 0"
proof -
  assume "session_rows s jn = []"
  then have "set (session_rows s jn) = {}" by simp
  then have "filter (\<lambda>r. er_session r = s) (jn_events jn) = []"
    unfolding session_rows_set by (auto simp: filter_empty_conv)
  then show ?thesis by (simp add: legacy_sequence_def)
qed

lemma event_row_fields [simp]:
  "er_session (event_row_of cd inp v ep n c e) = ap_session inp"
  "er_sequence (event_row_of cd inp v ep n c e) = n" "er_epoch (event_row_of cd inp v ep n c e) = ep"
  "er_event_id (event_row_of cd inp v ep n c e) = Some (new_event_id cd inp)"
  "er_key (event_row_of cd inp v ep n c e) = ap_key inp" "er_prev (event_row_of cd inp v ep n c e) = c"
  by (simp_all add: event_row_of_def new_event_id_def Let_def)

lemma lease_epoch_of_event:
  "ap_grant inp = Some g \<Longrightarrow>
     py_get (with_activity act jn (stamped_event cd inp v n)) ''lease_epoch'' = VInt (lg_epoch g)"
  "ap_grant inp = None \<Longrightarrow> ap_payload inp ''lease_epoch'' = None \<Longrightarrow>
     py_get (with_activity act jn (stamped_event cd inp v n)) ''lease_epoch'' = VNone"
  by (simp_all add: py_get_def with_activity_keys stamped_event_def Let_def)

lemma int_or_int: "int_or (VInt n) 0 = Some n" "int_or VNone 0 = Some 0"
  by (simp_all add: int_or_def)

definition same_session :: "string \<Rightarrow> journal \<Rightarrow> journal \<Rightarrow> bool" where
  "same_session s jn jn' \<longleftrightarrow> session_rows s jn' = session_rows s jn \<and> jn_heads jn' s = jn_heads jn s"

lemma same_session_verdict: "same_session s jn jn' \<Longrightarrow> verify_journal cd s jn' = verify_journal cd s jn"
  by (simp add: same_session_def verify_journal_def Let_def)

lemma append_healthy:
  assumes healthy: "verify_journal cd (ap_session inp) jn = Healthy n c" and ok: "may_append cd inp jn"
  obtains v ep e row jn' where
    "append_event cd act inp jn = (Inr (the (er_payload row)), jn')"
    "e = with_activity act jn (stamped_event cd inp v (n + 1))"
    "row = event_row_of cd inp v ep (n + 1) c e"
    "ep = (case ap_grant inp of Some g \<Rightarrow> lg_epoch g | None \<Rightarrow> 0)"
    "jn_events jn' = jn_events jn @ [row]" "jn_leases jn' = jn_leases jn" "jn_quarantine jn' = jn_quarantine jn"
    "jn_heads jn' = (jn_heads jn)(ap_session inp \<mapsto>
       \<lparr>hd_sequence = n + 1, hd_checksum = er_checksum row, hd_quarantined = False\<rparr>)"
proof -
  obtain v where v: "int_or (py_get (ap_payload inp) ''event_version'') (ap_version inp) = Some v"
    using ok by (auto simp: may_append_def)
  define e where "e = with_activity act jn (stamped_event cd inp v (n + 1))"
  define ep where "ep = (case ap_grant inp of Some g \<Rightarrow> lg_epoch g | None \<Rightarrow> 0)"
  define row where "row = event_row_of cd inp v ep (n + 1) c e"
  have ep: "int_or (py_get e ''lease_epoch'') 0 = Some ep"
    using ok lease_epoch_of_event int_or_int unfolding e_def ep_def may_append_def
    by (cases "ap_grant inp") auto
  have "\<not> violates_unique row (jn_events jn)"
  proof
    assume "violates_unique row (jn_events jn)"
    then obtain x where x: "x \<in> set (jn_events jn)" "er_session x = ap_session inp" "er_sequence x = n + 1"
      using ok by (auto simp: violates_unique_def row_def may_append_def)
    then have "x \<in> set (session_rows (ap_session inp) jn)" by (simp add: session_rows_set)
    then show False using verify_healthy_rows(3)[OF healthy] x(3) by fastforce
  qed
  then have ins: "insert_event cd act inp n c jn = (Inr (the (er_payload row)), jn\<lparr>
       jn_events := jn_events jn @ [row],
       jn_heads := (jn_heads jn)(ap_session inp \<mapsto>
         \<lparr>hd_sequence = n + 1, hd_checksum = er_checksum row, hd_quarantined = False\<rparr>),
       jn_runs := project_run cd (ap_session inp) (ap_projection inp) (jn_runs jn)\<rparr>)"
    using v ep by (simp add: insert_event_def Let_def e_def[symmetric] row_def[symmetric])
  have guards: "jn_quarantine jn (ap_session inp) = None" "ap_key inp = None"
      "(case ap_grant inp of None \<Rightarrow> Inr () | Some g \<Rightarrow> assert_lease g (ap_now inp) (jn_leases jn)) = Inr ()"
    using ok by (auto simp: may_append_def split: option.split)
  have "append_event cd act inp jn = insert_event cd act inp n c jn"
  proof (cases "jn_heads jn (ap_session inp)")
    case None
    then have "n = 0" "c = []" using verify_healthy_rows(4)[OF healthy] by auto
    moreover from this have "legacy_sequence (ap_session inp) jn = 0"
      using legacy_sequence_none[of "ap_session inp" jn] verify_healthy_rows(2)[OF healthy] by simp
    ultimately show ?thesis using None guards by (simp add: append_event_def Let_def py_true_opt_def)
  next
    case (Some h)
    then show ?thesis using verify_healthy_rows(4)[OF healthy] guards
      by (auto simp: append_event_def Let_def py_true_opt_def)
  qed
  then show thesis
    by (rule that[OF _ e_def row_def ep_def, OF trans[OF _ ins]]) simp_all
qed

text \<open>Appending to a healthy journal succeeds whenever its guards hold, and extends the journal by
  exactly one event: the session verifies again with the next sequence number, its earlier rows are
  unchanged, the new payload carries its sequence and the previous checksum, and every other
  session has the same events and the same verdict as before.\<close>
theorem append_extends_journal:
  assumes "verify_journal cd (ap_session inp) jn = Healthy n c" "may_append cd inp jn"
    and "plain_payload (ap_payload inp)"
  shows "\<exists>p jn' row. append_event cd act inp jn = (Inr p, jn')
    \<and> session_rows (ap_session inp) jn' = session_rows (ap_session inp) jn @ [row] \<and> er_payload row = Some p
    \<and> verify_journal cd (ap_session inp) jn' = Healthy (n + 1) (er_checksum row)
    \<and> py_get p ''sequence'' = VInt (n + 1) \<and> py_get p ''previous_checksum'' = VStr c
    \<and> (\<forall>s. s \<noteq> ap_session inp \<longrightarrow> session_rows s jn' = session_rows s jn
         \<and> verify_journal cd s jn' = verify_journal cd s jn)"
proof -
  obtain v ep e row jn' where a: "append_event cd act inp jn = (Inr (the (er_payload row)), jn')"
    "e = with_activity act jn (stamped_event cd inp v (n + 1))"
    "row = event_row_of cd inp v ep (n + 1) c e"
    "ep = (case ap_grant inp of Some g \<Rightarrow> lg_epoch g | None \<Rightarrow> 0)"
    "jn_events jn' = jn_events jn @ [row]" "jn_leases jn' = jn_leases jn" "jn_quarantine jn' = jn_quarantine jn"
    "jn_heads jn' = (jn_heads jn)(ap_session inp \<mapsto>
       \<lparr>hd_sequence = n + 1, hd_checksum = er_checksum row, hd_quarantined = False\<rparr>)"
    by (rule append_healthy[OF assms(1,2)])
  have rows: "session_rows (ap_session inp) jn' = session_rows (ap_session inp) jn @ [row]"
    using a(3,5) verify_healthy_rows(3)[OF assms(1)] by (intro session_rows_append) auto
  have "verify_row cd (ap_session inp) row c (n + 1) = None"
    by (rule verify_new_row[OF assms(3) a(3)[unfolded a(2)]])
  then have "verify_rows cd (ap_session inp) (session_rows (ap_session inp) jn') [] 1 = Inr (er_checksum row, n + 2)"
    using verify_healthy_rows(1)[OF assms(1)] by (simp add: rows verify_rows_append)
  then have v: "verify_journal cd (ap_session inp) jn' = Healthy (n + 1) (er_checksum row)"
    using a(8) by (simp add: verify_journal_def)
  have "same_session s jn jn'" if "s \<noteq> ap_session inp" for s
    using that a(3,5,8) session_rows_other[of jn' jn row s] by (simp add: same_session_def)
  moreover have "er_payload row = Some (the (er_payload row))
      \<and> py_get (the (er_payload row)) ''sequence'' = VInt (n + 1)
      \<and> py_get (the (er_payload row)) ''previous_checksum'' = VStr c"
    using a(2,3) by (simp add: event_row_of_def Let_def py_get_def with_activity_keys stamped_event_fields)
  ultimately show ?thesis
    using a(1) rows v same_session_verdict unfolding same_session_def by blast
qed

definition demo_codec64 :: codec where
  "demo_codec64 = \<lparr>sha256 = (\<lambda>_. replicate 64 CHR ''0''), json_text = (\<lambda>_. []), json_spaced = (\<lambda>_. []),
     json_dict = (\<lambda>_. []), py_text = (\<lambda>_. [])\<rparr>"

definition empty_journal :: journal where
  "empty_journal = \<lparr>jn_leases = Map.empty, jn_heads = Map.empty, jn_events = [], jn_runs = Map.empty,
     jn_quarantine = Map.empty\<rparr>"

definition demo_input :: append_input where
  "demo_input = \<lparr>ap_session = ''s1'', ap_payload = [''event_type'' \<mapsto> VStr ''turn.settled''], ap_grant = None,
     ap_key = None, ap_version = 1, ap_now = 0, ap_stamp = ''t'', ap_fresh = ''1'', ap_projection = None\<rparr>"

lemma demo_may_append: "may_append demo_codec64 demo_input empty_journal"
  "plain_payload (ap_payload demo_input)" "verify_journal cd (ap_session demo_input) empty_journal = Healthy 0 []"
  by (simp_all add: may_append_def demo_input_def empty_journal_def int_or_def py_get_def plain_payload_def
      plain_text_def verify_journal_def session_rows_def)

lemma append_extends_journal_witness:
  "\<exists>p jn'. append_event demo_codec64 (\<lambda>_ _. None) demo_input empty_journal = (Inr p, jn')
     \<and> py_get p ''sequence'' = VInt 1 \<and> (\<exists>c. verify_journal demo_codec64 ''s1'' jn' = Healthy 1 c)"
  using append_extends_journal[OF demo_may_append(3,1,2), of "\<lambda>_ _. None"]
  by (auto simp: demo_input_def)

section \<open>Tamper evidence\<close>

text \<open>What the hash of a row covers: the encoded payload without its chain fields.\<close>

definition row_text :: "codec \<Rightarrow> event_row \<Rightarrow> string option" where
  "row_text cd r = map_option (\<lambda>p. json_dict cd (sanitized p)) (er_payload r)"

text \<open>The texts that were hashed for the rows of a journal, and two different ones among some texts with the same hash.\<close>

definition hashed_texts :: "codec \<Rightarrow> event_row list \<Rightarrow> string set" where
  "hashed_texts cd rows = (\<lambda>r. er_prev r @ er_hash r) ` set rows \<union> {t. \<exists>r \<in> set rows. row_text cd r = Some t}"

definition collision_in :: "codec \<Rightarrow> string set \<Rightarrow> bool" where
  "collision_in cd texts \<longleftrightarrow> (\<exists>x \<in> texts. \<exists>y \<in> texts. x \<noteq> y \<and> sha256 cd x = sha256 cd y)"

lemma verify_row_facts:
  "verify_row cd s r prev n = None \<Longrightarrow> er_sequence r = n \<and> er_prev r = prev
     \<and> er_checksum r = sha256 cd (prev @ er_hash r) \<and> identity_ok s (the (er_payload r)) r
     \<and> (\<exists>t. row_text cd r = Some t \<and> er_hash r = sha256 cd t)"
  by (auto simp: verify_row_def row_text_def payload_hash_def split: if_splits option.splits)

lemma no_collision_eq: "\<not> collision_in cd texts \<Longrightarrow> x \<in> texts \<Longrightarrow> y \<in> texts \<Longrightarrow> sha256 cd x = sha256 cd y \<Longrightarrow> x = y"
  by (auto simp: collision_in_def)

lemma hashed_texts_tl: "hashed_texts cd rows \<subseteq> hashed_texts cd (r # rows)"
  by (auto simp: hashed_texts_def)

lemma chain_unique:
  assumes "\<forall>x. length (sha256 cd x) = 64" "\<not> collision_in cd texts"
    and "verify_rows cd s xs p n = Inr (c, m)" "verify_rows cd s' ys q n = Inr (c, m)"
    and "length p = length q" "hashed_texts cd xs \<subseteq> texts" "hashed_texts cd ys \<subseteq> texts"
  shows "map (\<lambda>r. (er_sequence r, er_checksum r, row_text cd r)) xs
      = map (\<lambda>r. (er_sequence r, er_checksum r, row_text cd r)) ys \<and> p = q"
  using assms(3-7)
proof (induction xs arbitrary: ys p q n)
  case Nil
  then have "ys = []" using verify_rows_ok[OF Nil(2)] by simp
  then show ?case using Nil by simp
next
  case (Cons x xs)
  have "length ys = length (x # xs)"
    using verify_rows_ok[OF Cons.prems(1)] verify_rows_ok[OF Cons.prems(2)] by simp
  then obtain y ys' where ys: "ys = y # ys'" by (cases ys) auto
  have x: "verify_row cd s x p n = None" "verify_rows cd s xs (er_checksum x) (n + 1) = Inr (c, m)"
    and y: "verify_row cd s' y q n = None" "verify_rows cd s' ys' (er_checksum y) (n + 1) = Inr (c, m)"
    using Cons.prems(1,2) ys by (auto split: option.splits)
  note fx = verify_row_facts[OF x(1)] and fy = verify_row_facts[OF y(1)]
  have "length (er_checksum x) = length (er_checksum y)" using fx fy assms(1) by simp
  moreover have "hashed_texts cd xs \<subseteq> texts" by (rule subset_trans [OF hashed_texts_tl Cons.prems(4)])
  moreover have "hashed_texts cd ys' \<subseteq> texts" by (rule subset_trans [OF hashed_texts_tl Cons.prems(5) [unfolded ys]])
  ultimately have rest: "map (\<lambda>r. (er_sequence r, er_checksum r, row_text cd r)) xs
        = map (\<lambda>r. (er_sequence r, er_checksum r, row_text cd r)) ys'"
      "er_checksum x = er_checksum y" using Cons.IH[OF x(2) y(2)] by simp_all
  have "p @ er_hash x \<in> texts" "q @ er_hash y \<in> texts"
    using Cons.prems(4,5) ys fx fy by (auto simp: hashed_texts_def)
  from no_collision_eq[OF assms(2) this] have "p @ er_hash x = q @ er_hash y" using rest(2) fx fy by simp
  then have pq: "p = q" "er_hash x = er_hash y" using Cons.prems(3) by simp_all
  obtain t u where tu: "row_text cd x = Some t" "er_hash x = sha256 cd t" "row_text cd y = Some u" "er_hash y = sha256 cd u"
    using fx fy by blast
  then have "t \<in> texts" "u \<in> texts" using Cons.prems(4,5) ys by (auto simp: hashed_texts_def)
  from no_collision_eq[OF assms(2) this] have "row_text cd x = row_text cd y" using tu pq(2) by simp
  then show ?case using rest pq ys fx fy by simp
qed

text \<open>C38. The journal is tamper-evident: two databases whose journals of a session both verify, with the same
  head (number of events and checksum), hold event by event the same sequence numbers, checksums and
  encoded payloads, or the texts hashed for their rows show a SHA-256 collision. An event that was altered, removed, inserted
  or moved cannot leave a verified journal with the head unchanged.\<close>

theorem journal_tamper_evident:
  assumes "\<forall>x. length (sha256 cd x) = 64"
    and "verify_journal cd s jn1 = Healthy n c" "verify_journal cd s jn2 = Healthy n c"
  shows "collision_in cd (hashed_texts cd (session_rows s jn1) \<union> hashed_texts cd (session_rows s jn2)) \<or>
    map (\<lambda>r. (er_sequence r, er_checksum r, row_text cd r)) (session_rows s jn1)
      = map (\<lambda>r. (er_sequence r, er_checksum r, row_text cd r)) (session_rows s jn2)"
proof (cases "collision_in cd (hashed_texts cd (session_rows s jn1) \<union> hashed_texts cd (session_rows s jn2))")
  case False
  then show ?thesis
    using chain_unique[OF assms(1) False verify_healthy_rows(1)[OF assms(2)] verify_healthy_rows(1)[OF assms(3)]]
    by simp
qed simp

lemma journal_tamper_evident_witness:
  "\<exists>jn jn' c. jn_events jn' \<noteq> [] \<and> jn_events jn \<noteq> [] \<and>
     verify_journal demo_codec64 ''s1'' jn = Healthy 1 c \<and> verify_journal demo_codec64 ''s1'' jn' = Healthy 1 c \<and>
     (collision_in demo_codec64 (hashed_texts demo_codec64 (session_rows ''s1'' jn) \<union> hashed_texts demo_codec64 (session_rows ''s1'' jn')) \<or>
      map (\<lambda>r. (er_sequence r, er_checksum r, row_text demo_codec64 r)) (session_rows ''s1'' jn)
        = map (\<lambda>r. (er_sequence r, er_checksum r, row_text demo_codec64 r)) (session_rows ''s1'' jn'))"
proof -
  obtain p jn c where a: "append_event demo_codec64 (\<lambda>_ _. None) demo_input empty_journal = (Inr p, jn)"
      and h: "verify_journal demo_codec64 ''s1'' jn = Healthy 1 c"
    using append_extends_journal[OF demo_may_append(3,1,2), of "\<lambda>_ _. None"] by (auto simp: demo_input_def)
  then have "jn_events jn \<noteq> []" using verify_healthy_rows [OF h] by (auto simp: session_rows_def verify_journal_def split: if_splits)
  then show ?thesis
    using h journal_tamper_evident[OF _ h h] by (auto simp: demo_codec64_def intro!: exI[of _ jn] exI[of _ c])
qed

section \<open>Sequences of journal operations\<close>

datatype journal_event =
    J_append append_input
  | J_acquire string string int rat
  | J_renew lease_grant int rat
  | J_release lease_grant rat
  | J_require string

fun journal_step :: "codec \<Rightarrow> activity_projection \<Rightarrow> journal_event \<Rightarrow> journal \<Rightarrow> journal" where
  "journal_step cd act (J_append inp) jn = snd (append_event cd act inp jn)"
| "journal_step cd act (J_acquire s owner ttl now) jn = snd (acquire_lease cd s owner ttl now jn)"
| "journal_step cd act (J_renew g ttl now) jn = snd (renew_lease cd g ttl now jn)"
| "journal_step cd act (J_release g now) jn =
     (case release_lease g now (jn_leases jn) of Inr ls \<Rightarrow> jn\<lparr>jn_leases := ls\<rparr> | Inl _ \<Rightarrow> jn)"
| "journal_step cd act (J_require s) jn = snd (require_healthy cd s jn)"

lemma require_healthy_keeps:
  "require_healthy cd s jn = (r, jn') \<Longrightarrow> jn_events jn' = jn_events jn \<and> jn_leases jn' = jn_leases jn
     \<and> (\<forall>k h. jn_heads jn k = Some h \<longrightarrow> (\<exists>h'. jn_heads jn' k = Some h' \<and> (hd_quarantined h \<longrightarrow> hd_quarantined h')))"
  by (auto simp: require_healthy_def split: verdict.splits if_splits option.splits)

definition quarantined :: "string \<Rightarrow> journal \<Rightarrow> bool" where
  "quarantined s jn \<longleftrightarrow> (\<exists>h. jn_heads jn s = Some h \<and> hd_quarantined h)"

lemma quarantined_verdict: "quarantined s jn \<Longrightarrow> verify_journal cd s jn = Unhealthy ''quarantine_persisted'' None"
  by (auto simp: quarantined_def verify_journal_def)

lemma quarantined_require:
  "quarantined s jn \<Longrightarrow> fst (require_healthy cd s jn) = Inl QUARANTINED \<and> jn_events (snd (require_healthy cd s jn)) = jn_events jn"
  by (simp add: require_healthy_def quarantined_verdict)

lemma insert_event_cases:
  "insert_event cd act inp n c jn = (r, jn') \<Longrightarrow> jn' = jn \<or>
     (\<exists>v ep. let row = event_row_of cd inp v ep (n + 1) c (with_activity act jn (stamped_event cd inp v (n + 1))) in
        int_or (py_get (with_activity act jn (stamped_event cd inp v (n + 1))) ''lease_epoch'') 0 = Some ep
        \<and> jn_events jn' = jn_events jn @ [row] \<and> jn_leases jn' = jn_leases jn
        \<and> jn_heads jn' = (jn_heads jn)(ap_session inp \<mapsto>
            \<lparr>hd_sequence = n + 1, hd_checksum = er_checksum row, hd_quarantined = False\<rparr>))"
proof (cases "jn' = jn")
  case False
  assume i: "insert_event cd act inp n c jn = (r, jn')"
  then obtain v where v: "int_or (py_get (ap_payload inp) ''event_version'') (ap_version inp) = Some v"
    using False by (auto simp: insert_event_def Let_def split: option.splits)
  define e where "e = with_activity act jn (stamped_event cd inp v (n + 1))"
  obtain ep where ep: "int_or (py_get e ''lease_epoch'') 0 = Some ep"
    using False i v by (auto simp: insert_event_def Let_def e_def split: option.splits)
  define row where "row = event_row_of cd inp v ep (n + 1) c e"
  have "jn' = jn\<lparr>jn_events := jn_events jn @ [row],
       jn_heads := (jn_heads jn)(ap_session inp \<mapsto>
         \<lparr>hd_sequence = n + 1, hd_checksum = er_checksum row, hd_quarantined = False\<rparr>),
       jn_runs := project_run cd (ap_session inp) (ap_projection inp) (jn_runs jn)\<rparr>"
    using False i v ep by (auto simp: insert_event_def Let_def e_def row_def split: if_splits)
  then show ?thesis
    using ep unfolding e_def row_def Let_def by (intro disjI2 exI[of _ v] exI[of _ ep]) simp
qed simp

lemma append_event_cases:
  assumes "append_event cd act inp jn = (r, jn')"
  obtains (kept) "jn_events jn' = jn_events jn" "jn_leases jn' = jn_leases jn" "jn_heads jn' = jn_heads jn"
  | (inserted) n c where "insert_event cd act inp n c jn = (r, jn')" "\<not> quarantined (ap_session inp) jn"
      "\<forall>g. ap_grant inp = Some g \<longrightarrow> assert_lease g (ap_now inp) (jn_leases jn) = Inr ()"
      "n = (case jn_heads jn (ap_session inp) of Some h \<Rightarrow> hd_sequence h | None \<Rightarrow> legacy_sequence (ap_session inp) jn)"
  using assms
  by (auto simp: append_event_def Let_def quarantined_def split: option.splits if_splits sum.splits)

lemma renew_leases: "renew_lease_tx g ttl now ls = Inr (g', ls') \<Longrightarrow> lease_step (L_renew g ttl now) ls = ls'"
  by simp

lemma step_leases:
  "jn_leases (journal_step cd act ev jn) = jn_leases jn
   \<or> (\<exists>lev. jn_leases (journal_step cd act ev jn) = lease_step lev (jn_leases jn))"
proof (cases ev)
  case (J_append inp)
  obtain r jn' where a: "append_event cd act inp jn = (r, jn')" by fastforce
  then have "jn_leases jn' = jn_leases jn"
    by (cases rule: append_event_cases) (auto dest!: insert_event_cases simp: Let_def)
  then show ?thesis using J_append a by simp
next
  case (J_acquire s owner ttl now)
  obtain r jn' where q: "require_healthy cd s jn = (r, jn')" by fastforce
  then have "jn_leases jn' = jn_leases jn" using require_healthy_keeps by blast
  then show ?thesis using J_acquire q
    by (auto simp: acquire_lease_def split: sum.split intro: exI[of _ "L_acquire s owner ttl now"])
next
  case (J_renew g ttl now)
  obtain r jn' where q: "require_healthy cd (lg_session g) jn = (r, jn')" by fastforce
  then have "jn_leases jn' = jn_leases jn" using require_healthy_keeps by blast
  then show ?thesis using J_renew q
    by (auto simp: renew_lease_def split: sum.split intro: exI[of _ "L_renew g ttl now"])
next
  case (J_release g now)
  then show ?thesis by (auto split: sum.split intro: exI[of _ "L_release g now"])
next
  case (J_require s)
  then show ?thesis using require_healthy_keeps[of cd s jn] by (metis journal_step.simps(5) prod.collapse)
qed

text \<open>What one operation does to the events: nothing, or one inserted row under a checked grant.\<close>

lemma step_events:
  "jn_events (journal_step cd act ev jn) = jn_events jn \<or>
   (\<exists>inp row. ev = J_append inp \<and> jn_events (journal_step cd act ev jn) = jn_events jn @ [row]
      \<and> jn_leases (journal_step cd act ev jn) = jn_leases jn
      \<and> er_session row = ap_session inp \<and> \<not> quarantined (ap_session inp) jn
      \<and> (\<forall>s. s \<noteq> ap_session inp \<longrightarrow> jn_heads (journal_step cd act ev jn) s = jn_heads jn s)
      \<and> (case ap_grant inp of
           Some g \<Rightarrow> assert_lease g (ap_now inp) (jn_leases jn) = Inr () \<and> er_epoch row = lg_epoch g
         | None \<Rightarrow> ap_payload inp ''lease_epoch'' = None \<longrightarrow> er_epoch row = 0))"
proof (cases ev)
  case (J_append inp)
  obtain r jn' where a: "append_event cd act inp jn = (r, jn')" by fastforce
  then show ?thesis
  proof (cases rule: append_event_cases)
    case kept
    then show ?thesis using J_append a by simp
  next
    case (inserted n c)
    show ?thesis
    proof (cases "jn' = jn")
      case False
      then obtain v ep row where i: "row = event_row_of cd inp v ep (n + 1) c (with_activity act jn (stamped_event cd inp v (n + 1)))"
        "int_or (py_get (with_activity act jn (stamped_event cd inp v (n + 1))) ''lease_epoch'') 0 = Some ep"
        "jn_events jn' = jn_events jn @ [row]" "jn_leases jn' = jn_leases jn"
        "jn_heads jn' = (jn_heads jn)(ap_session inp \<mapsto>
            \<lparr>hd_sequence = n + 1, hd_checksum = er_checksum row, hd_quarantined = False\<rparr>)"
        using insert_event_cases[OF inserted(1)] by (auto simp: Let_def)
      have "case ap_grant inp of
           Some g \<Rightarrow> assert_lease g (ap_now inp) (jn_leases jn) = Inr () \<and> er_epoch row = lg_epoch g
         | None \<Rightarrow> ap_payload inp ''lease_epoch'' = None \<longrightarrow> er_epoch row = 0"
        using i(1,2) inserted(3) lease_epoch_of_event int_or_int by (auto split: option.split)
      then show ?thesis using i J_append a inserted(2) by auto
    qed (use J_append a in simp)
  qed
next
  case (J_acquire s owner ttl now)
  obtain r jn' where "require_healthy cd s jn = (r, jn')" by fastforce
  then show ?thesis using J_acquire require_healthy_keeps[of cd s jn r jn']
    by (auto simp: acquire_lease_def split: sum.split)
next
  case (J_renew g ttl now)
  obtain r jn' where "require_healthy cd (lg_session g) jn = (r, jn')" by fastforce
  then show ?thesis using J_renew require_healthy_keeps[of cd "lg_session g" jn r jn']
    by (auto simp: renew_lease_def split: sum.split)
next
  case (J_release g now)
  then show ?thesis by (simp split: sum.split)
next
  case (J_require s)
  then show ?thesis using require_healthy_keeps[of cd s jn] by (metis journal_step.simps(5) prod.collapse)
qed

lemma step_quarantined:
  assumes q: "quarantined s jn"
  shows "quarantined s (journal_step cd act ev jn)
    \<and> session_rows s (journal_step cd act ev jn) = session_rows s jn"
proof
  show "session_rows s (journal_step cd act ev jn) = session_rows s jn"
    using step_events[of cd act ev jn] q session_rows_other[of "journal_step cd act ev jn" jn _ s]
    by (auto simp: session_rows_def)
  show "quarantined s (journal_step cd act ev jn)"
  proof (cases ev)
    case (J_append inp)
    obtain r jn' where a: "append_event cd act inp jn = (r, jn')" by fastforce
    then show ?thesis
    proof (cases rule: append_event_cases)
      case kept
      then show ?thesis using J_append a q by (simp add: quarantined_def)
    next
      case (inserted n c)
      then have "ap_session inp \<noteq> s" using q by blast
      then show ?thesis using insert_event_cases[OF inserted(1)] J_append a q
        by (auto simp: quarantined_def Let_def)
    qed
  next
    case (J_acquire s' owner ttl now)
    obtain r jn' where "require_healthy cd s' jn = (r, jn')" by fastforce
    then show ?thesis using J_acquire require_healthy_keeps[of cd s' jn r jn'] q
      by (fastforce simp: acquire_lease_def quarantined_def split: sum.split)
  next
    case (J_renew g ttl now)
    obtain r jn' where "require_healthy cd (lg_session g) jn = (r, jn')" by fastforce
    then show ?thesis using J_renew require_healthy_keeps[of cd "lg_session g" jn r jn'] q
      by (fastforce simp: renew_lease_def quarantined_def split: sum.split)
  next
    case (J_release g now)
    then show ?thesis using q by (simp add: quarantined_def split: sum.split)
  next
    case (J_require s')
    obtain r jn' where "require_healthy cd s' jn = (r, jn')" by fastforce
    then show ?thesis using J_require require_healthy_keeps[of cd s' jn r jn'] q
      by (fastforce simp: quarantined_def)
  qed
qed

text \<open>Quarantine is permanent: once a session's journal is quarantined, no sequence of operations on
  the store lifts it or changes the session's events; the session verifies as quarantined, no lease of it
  is acquired or renewed, and no event is appended to it (a keyed retry may still read an event back).\<close>
theorem quarantine_permanent:
  fixes cd :: codec and act :: activity_projection and evs :: "journal_event list"
  assumes "quarantined s jn"
  defines "jn' \<equiv> fold (journal_step cd act) evs jn"
  shows "quarantined s jn' \<and> session_rows s jn' = session_rows s jn
    \<and> verify_journal cd s jn' = Unhealthy ''quarantine_persisted'' None
    \<and> fst (acquire_lease cd s owner ttl now jn') = Inl QUARANTINED
    \<and> (lg_session g = s \<longrightarrow> fst (renew_lease cd g ttl now jn') = Inl QUARANTINED)
    \<and> (ap_session inp = s \<and> ap_key inp = None \<longrightarrow> \<not> is_ok (fst (append_event cd act inp jn')))"
proof -
  have *: "quarantined s jn' \<and> session_rows s jn' = session_rows s jn"
    unfolding jn'_def using assms(1)
  proof (induction evs arbitrary: jn)
    case (Cons ev evs)
    then show ?case using step_quarantined[OF Cons.prems, of cd act ev] by simp
  qed simp
  then obtain h where h: "jn_heads jn' s = Some h" "hd_quarantined h" by (auto simp: quarantined_def)
  obtain r jq where q: "require_healthy cd s jn' = (r, jq)" by fastforce
  then have "r = Inl QUARANTINED" using quarantined_require[of s jn' cd] * by simp
  then have "fst (acquire_lease cd s owner ttl now jn') = Inl QUARANTINED"
      "lg_session g = s \<longrightarrow> fst (renew_lease cd g ttl now jn') = Inl QUARANTINED"
    using q by (auto simp: acquire_lease_def renew_lease_def)
  moreover have "ap_session inp = s \<and> ap_key inp = None \<longrightarrow> \<not> is_ok (fst (append_event cd act inp jn'))"
    using h by (auto simp: append_event_def Let_def py_true_opt_def split: sum.split)
  ultimately show ?thesis using * quarantined_verdict by blast
qed

definition demo_quarantined :: journal where
  "demo_quarantined = empty_journal\<lparr>jn_heads := [''s1'' \<mapsto>
     \<lparr>hd_sequence = 3, hd_checksum = ''x'', hd_quarantined = True\<rparr>]\<rparr>"

lemma quarantine_permanent_witness:
  "quarantined ''s1'' (fold (journal_step demo_codec64 (\<lambda>_ _. None))
     [J_append demo_input, J_acquire ''s1'' ''a'' 20 5, J_append (demo_input\<lparr>ap_session := ''s2''\<rparr>)] demo_quarantined)"
  using quarantine_permanent[of "''s1''" demo_quarantined demo_codec64 "\<lambda>_ _. None"
      "[J_append demo_input, J_acquire ''s1'' ''a'' 20 5, J_append (demo_input\<lparr>ap_session := ''s2''\<rparr>)]"]
  by (simp add: quarantined_def demo_quarantined_def)

section \<open>Fencing of the journal\<close>

text \<open>The lease epochs of a session's events, in the order they were appended; zero means no lease.\<close>

definition event_epochs :: "string \<Rightarrow> journal \<Rightarrow> int list" where
  "event_epochs s jn = filter (\<lambda>e. 0 < e) (map er_epoch (filter (\<lambda>r. er_session r = s) (jn_events jn)))"

definition own_epochs :: "journal_event \<Rightarrow> bool" where
  "own_epochs ev = (case ev of J_append inp \<Rightarrow>
       (case ap_grant inp of Some g \<Rightarrow> lg_session g = ap_session inp | None \<Rightarrow> ap_payload inp ''lease_epoch'' = None)
     | _ \<Rightarrow> True)"

lemma step_epochs:
  assumes "session_lease.log_inv (jn_leases jn) s (event_epochs s jn)" "own_epochs ev"
  shows "session_lease.log_inv (jn_leases (journal_step cd act ev jn)) s (event_epochs s (journal_step cd act ev jn))"
  using step_events[of cd act ev jn]
proof (elim disjE exE conjE)
  assume "jn_events (journal_step cd act ev jn) = jn_events jn"
  then have "event_epochs s (journal_step cd act ev jn) = event_epochs s jn"
    by (simp add: event_epochs_def)
  then show ?thesis
    using step_leases[of cd act ev jn] assms(1) session_lease.log_inv_step by metis
next
  fix inp row
  assume i: "ev = J_append inp" "jn_events (journal_step cd act ev jn) = jn_events jn @ [row]"
    "jn_leases (journal_step cd act ev jn) = jn_leases jn" "er_session row = ap_session inp"
    "case ap_grant inp of
           Some g \<Rightarrow> assert_lease g (ap_now inp) (jn_leases jn) = Inr () \<and> er_epoch row = lg_epoch g
         | None \<Rightarrow> ap_payload inp ''lease_epoch'' = None \<longrightarrow> er_epoch row = 0"
  have ev: "event_epochs s (journal_step cd act ev jn) =
      event_epochs s jn @ (if ap_session inp = s \<and> 0 < er_epoch row then [er_epoch row] else [])"
    using i(2,4) by (simp add: event_epochs_def)
  show ?thesis
  proof (cases "ap_grant inp")
    case None
    then have "er_epoch row = 0" using i(1,5) assms(2) by (simp add: own_epochs_def)
    then show ?thesis using assms(1) ev i(3) by simp
  next
    case (Some g)
    then show ?thesis
      using assms i(1,3,5) ev session_lease.log_inv_write[of "jn_leases jn" s "event_epochs s jn" g "ap_now inp"]
      by (auto simp: own_epochs_def)
  qed
qed

text \<open>Events of a session appear in lease order: whatever owners append, and whatever acquisitions,
  renewals, releases and expiries happen in between, the lease epochs recorded with the events of a
  session never decrease, and none exceeds the current epoch. An owner that lost the session never
  writes after its successor.\<close>
theorem journal_epochs_ordered:
  fixes cd :: codec and act :: activity_projection and evs :: "journal_event list"
  assumes "\<forall>ev \<in> set evs. own_epochs ev"
  defines "jn \<equiv> fold (journal_step cd act) evs empty_journal"
  shows "sorted (event_epochs s jn) \<and> (\<forall>e \<in> set (event_epochs s jn). e \<le> epoch_of (jn_leases jn) s)"
proof -
  have "session_lease.log_inv (jn_leases (fold (journal_step cd act) evs j)) s
      (event_epochs s (fold (journal_step cd act) evs j))"
    if "session_lease.log_inv (jn_leases j) s (event_epochs s j)" for j
    using assms(1) that
  proof (induction evs arbitrary: j)
    case (Cons ev evs)
    then show ?case using step_epochs[of j s ev cd act] by simp
  qed simp
  moreover have "session_lease.log_inv (jn_leases empty_journal) s (event_epochs s empty_journal)"
    by (simp add: session_lease.log_inv_def event_epochs_def empty_journal_def)
  ultimately show ?thesis unfolding jn_def session_lease.log_inv_def by blast
qed

lemma journal_epochs_ordered_witness:
  "sorted (event_epochs ''s1'' (fold (journal_step demo_codec64 (\<lambda>_ _. None))
     [J_acquire ''s1'' ''a'' 20 0,
      J_append (demo_input\<lparr>ap_grant := Some \<lparr>lg_session = ''s1'', lg_owner = ''a'', lg_epoch = 1, lg_expires = 20\<rparr>\<rparr>),
      J_acquire ''s1'' ''b'' 20 30] empty_journal))"
  using journal_epochs_ordered[of "[J_acquire ''s1'' ''a'' 20 0,
      J_append (demo_input\<lparr>ap_grant := Some \<lparr>lg_session = ''s1'', lg_owner = ''a'', lg_epoch = 1, lg_expires = 20\<rparr>\<rparr>),
      J_acquire ''s1'' ''b'' 20 30]"]
  by (simp add: own_epochs_def demo_input_def)

section \<open>Idempotency keys\<close>

lemma find_snoc_last: "List.find P xs = None \<Longrightarrow> P x \<Longrightarrow> List.find P (xs @ [x]) = Some x"
  by (induction xs) (simp_all split: if_splits)

lemma insert_event_result:
  assumes "insert_event cd act inp n c jn = (Inr p, jn')"
  shows "\<exists>row. er_session row = ap_session inp \<and> er_key row = ap_key inp
    \<and> jn_events jn' = jn_events jn @ [row] \<and> er_payload row = Some p \<and> er_hash row = payload_hash cd p
    \<and> p ''session_id'' = Some (VStr (ap_session inp)) \<and> jn_quarantine jn' = jn_quarantine jn"
proof -
  obtain v where v: "int_or (py_get (ap_payload inp) ''event_version'') (ap_version inp) = Some v"
    using assms by (auto simp: insert_event_def Let_def split: option.splits)
  define e where "e = with_activity act jn (stamped_event cd inp v (n + 1))"
  obtain ep where ep: "int_or (py_get e ''lease_epoch'') 0 = Some ep"
    using assms v by (auto simp: insert_event_def Let_def e_def split: option.splits)
  define row where "row = event_row_of cd inp v ep (n + 1) c e"
  have i: "p = the (er_payload row)" "jn_events jn' = jn_events jn @ [row]" "jn_quarantine jn' = jn_quarantine jn"
    using assms v ep by (auto simp: insert_event_def Let_def e_def row_def split: if_splits)
  define event where "event = e(''previous_checksum'' \<mapsto> VStr c)"
  have p: "er_payload row = Some (event(''event_checksum'' \<mapsto> VStr (sha256 cd (c @ payload_hash cd event))))"
      "er_hash row = payload_hash cd event"
    by (simp_all add: row_def event_row_of_def Let_def event_def)
  then have "er_hash row = payload_hash cd p"
    using i(1) sanitized_chain[of "''event_checksum''" event] by (simp add: payload_hash_def chain_keys_def)
  moreover have "p ''session_id'' = Some (VStr (ap_session inp))"
    using i(1) p by (simp add: event_def e_def with_activity_keys stamped_event_fields)
  moreover have "er_payload row = Some p" using i(1) p(1) by simp
  moreover have "er_session row = ap_session inp" "er_key row = ap_key inp" by (simp_all add: row_def)
  ultimately show ?thesis using i(2,3) by blast
qed

text \<open>The dictionary that the retry of an append hashes.\<close>

definition retried_payload :: "append_input \<Rightarrow> (string \<rightharpoonup> pyval)" where
  "retried_payload inp = (ap_payload inp)(''sequence'' := None, ''session_seq'' := None)"

text \<open>C40. An idempotency key does not make an append idempotent: when an append under a key, whose payload does not name its
  session itself (no \<^verbatim>\<open>session_id\<close> field), inserted an event, the identical call (without a lease) hashes a dictionary
  other than the stored one, which has the fields the store added, and is refused as a conflict unless these two
  dictionaries have the same hash. (A payload that already carries every field the store adds is outside this claim.)\<close>
theorem keyed_retry_conflicts:
  assumes "append_event cd act inp jn = (Inr p, jn')" "jn_events jn' \<noteq> jn_events jn"
    and "ap_key inp = Some k" "k \<noteq> []" "ap_grant inp = None" "ap_payload inp ''session_id'' = None"
  shows "sanitized (retried_payload inp) \<noteq> sanitized p \<and>
    (append_event cd act inp jn' = (Inl (Store_value_error ''AGENT_JOURNAL_IDEMPOTENCY_CONFLICT''), jn') \<or>
     payload_hash cd (retried_payload inp) = payload_hash cd p)"
proof -
  let ?s = "ap_session inp"
  have nq: "jn_quarantine jn ?s = None" using assms(1) by (auto simp: append_event_def Let_def split: if_splits)
  have fk: "find_key ?s k jn = None"
    using assms(1-5) nq by (auto simp: append_event_def Let_def py_true_opt_def split: option.splits if_splits)
  have "append_event cd act inp jn =
     (case jn_heads jn ?s of None \<Rightarrow> insert_event cd act inp (legacy_sequence ?s jn) [] jn
      | Some h \<Rightarrow> if hd_quarantined h
          then (Inl QUARANTINED, jn\<lparr>jn_quarantine := (jn_quarantine jn)(?s \<mapsto> ''quarantine_persisted'')\<rparr>)
          else insert_event cd act inp (hd_sequence h) (hd_checksum h) jn)"
    using nq fk assms(3-5) by (simp add: append_event_def Let_def py_true_opt_def)
  then obtain n c where "insert_event cd act inp n c jn = (Inr p, jn')"
    using assms(1) by (auto split: option.splits if_splits)
  then obtain row where r: "er_session row = ?s \<and> er_key row = ap_key inp"
    "jn_events jn' = jn_events jn @ [row]" "er_hash row = payload_hash cd p"
    "p ''session_id'' = Some (VStr ?s)" "jn_quarantine jn' = jn_quarantine jn"
    using insert_event_result by blast
  have "find_key ?s k jn' = Some row"
    using fk r(1,2) assms(3) by (simp add: find_key_def find_snoc_last)
  moreover have "sanitized (retried_payload inp) ''session_id'' \<noteq> sanitized p ''session_id''"
    using r(4) assms(6) by (simp add: retried_payload_def sanitized_def chain_keys_def restrict_map_def)
  then have "sanitized (retried_payload inp) \<noteq> sanitized p" by metis
  ultimately show ?thesis
    using nq r(3,5) assms(3-5) by (simp add: append_event_def Let_def py_true_opt_def retried_payload_def)
qed

text \<open>A codec that tells whether a dictionary names its session.\<close>

definition session_codec :: codec where
  "session_codec = demo_codec64\<lparr>sha256 := (\<lambda>s. s), json_dict := (\<lambda>d. if d ''session_id'' = None then ''n'' else ''s'')\<rparr>"

lemma keyed_retry_conflicts_witness:
  "\<exists>jn. jn_events jn \<noteq> [] \<and>
     append_event session_codec (\<lambda>_ _. None) (demo_input\<lparr>ap_key := Some ''k''\<rparr>) jn
        = (Inl (Store_value_error ''AGENT_JOURNAL_IDEMPOTENCY_CONFLICT''), jn)"
proof -
  let ?i = "demo_input\<lparr>ap_key := Some ''k''\<rparr>"
  have "\<exists>p jn. append_event session_codec (\<lambda>_ _. None) ?i empty_journal = (Inr p, jn) \<and> jn_events jn \<noteq> []
      \<and> p ''session_id'' \<noteq> None"
    by (simp add: append_event_def insert_event_def violates_unique_def find_key_def py_true_opt_def Let_def
        demo_input_def empty_journal_def int_or_def py_get_def with_activity_keys stamped_event_def
        with_activity_def py_true_opt_def event_row_of_def)
  then obtain p jn where a: "append_event session_codec (\<lambda>_ _. None) ?i empty_journal = (Inr p, jn)" "jn_events jn \<noteq> []"
      "p ''session_id'' \<noteq> None" by blast
  have "payload_hash session_codec (retried_payload ?i) \<noteq> payload_hash session_codec p"
    using a(3) by (simp add: payload_hash_def session_codec_def sanitized_def chain_keys_def restrict_map_def
      retried_payload_def demo_input_def)
  then show ?thesis
    using keyed_retry_conflicts[OF a(1), of "''k''"] a(2) by (auto simp: empty_journal_def demo_input_def)
qed

end
