(* ===== verification/Store_Records.thy ===== *)
theory Store_Records
  imports Leases
begin

text \<open>
  Three tables of \<^verbatim>\<open>backend/agent_runtime/orchestration_store.py\<close> whose rows are small state machines:
  the one-time approvals of hardware actions (with \<^verbatim>\<open>ApprovalService\<close> of
  \<^verbatim>\<open>backend/agent_runtime/approvals.py\<close>), the effect journal of operations, and the reservations
  of replacement runs. Each operation is one transaction: an error leaves the table unchanged.
\<close>

section \<open>Approvals\<close>

record approval =
  apv_run :: string
  apv_action :: string
  apv_fingerprint :: string
  apv_status :: string
  apv_expires :: rat
  apv_created :: rat
  apv_summary :: string
  apv_closed_at :: "rat option"
  apv_reason :: "string option"

type_synonym approvals = "string \<rightharpoonup> approval"

definition approval_ttl :: "int \<Rightarrow> rat" where
  "approval_ttl ttl_seconds = of_int (clamp 60 3600 ttl_seconds)"

definition approval_fingerprint :: "codec \<Rightarrow> string \<Rightarrow> (string \<times> pyval) list \<Rightarrow> string" where
  "approval_fingerprint cd action_type binding =
     sha256 cd (json_text cd (VDict [(''action_type'', VStr action_type), (''binding'', VDict binding)]))"

definition save_approval :: "string \<Rightarrow> approval \<Rightarrow> approvals \<Rightarrow> store_error + approvals" where
  "save_approval identity a st =
     (if st identity \<noteq> None then Inl Store_integrity_error else Inr (st(identity \<mapsto> a)))"

definition issue_approval :: "codec \<Rightarrow> int \<Rightarrow> rat \<Rightarrow> string \<Rightarrow> string \<Rightarrow> string \<Rightarrow> (string \<times> pyval) list \<Rightarrow> string
    \<Rightarrow> approvals \<Rightarrow> store_error + (approval \<times> approvals)" where
  "issue_approval cd ttl_seconds now identity run action_type binding summary st =
     (let a = \<lparr>apv_run = run, apv_action = action_type,
               apv_fingerprint = approval_fingerprint cd action_type binding, apv_status = ''pending'',
               apv_expires = now + approval_ttl ttl_seconds, apv_created = now,
               apv_summary = take 512 (squeeze summary), apv_closed_at = None, apv_reason = None\<rparr>
      in bind_result (save_approval identity a st) (\<lambda>st'. Inr (a, st')))"

definition consume_approval :: "string \<Rightarrow> string \<Rightarrow> rat \<Rightarrow> approvals \<Rightarrow> store_error + (approval \<times> approvals)" where
  "consume_approval identity fingerprint now st =
     (case st identity of
        None \<Rightarrow> Inl (Store_value_error ''AGENT_APPROVAL_NOT_FOUND'')
      | Some a \<Rightarrow>
          if apv_status a \<noteq> ''pending'' then Inl (Store_value_error ''AGENT_APPROVAL_ALREADY_CONSUMED'')
          else if apv_fingerprint a \<noteq> fingerprint
            then Inl (Store_value_error ''AGENT_APPROVAL_FINGERPRINT_CHANGED'')
          else if apv_expires a \<le> now
            then Inl (Store_value_error ''AGENT_APPROVAL_EXPIRED'')  \<comment> \<open>the update to expired is rolled back\<close>
          else (let a' = a\<lparr>apv_status := ''consumed'', apv_closed_at := Some now\<rparr>
                in Inr (a', st(identity \<mapsto> a'))))"

definition consume_action :: "codec \<Rightarrow> string \<Rightarrow> string \<Rightarrow> (string \<times> pyval) list \<Rightarrow> rat \<Rightarrow> approvals
    \<Rightarrow> store_error + (approval \<times> approvals)" where
  "consume_action cd identity action_type binding now st =
     consume_approval identity (approval_fingerprint cd action_type binding) now st"

definition invalidate_pending :: "string \<Rightarrow> string \<Rightarrow> rat \<Rightarrow> approvals \<Rightarrow> approvals" where
  "invalidate_pending run reason now st = (\<lambda>identity.
     case st identity of None \<Rightarrow> None
     | Some a \<Rightarrow> Some (if apv_run a = run \<and> apv_status a = ''pending''
         then a\<lparr>apv_status := ''invalidated'', apv_closed_at := Some now, apv_reason := Some (take 256 reason)\<rparr>
         else a))"

datatype approval_event =
    A_issue int rat string string string "(string \<times> pyval) list" string
  | A_consume string string "(string \<times> pyval) list" rat
  | A_invalidate string string rat

fun approval_step :: "codec \<Rightarrow> approval_event \<Rightarrow> approvals \<Rightarrow> approvals" where
  "approval_step cd (A_issue ttl now identity run action binding summary) st =
     (case issue_approval cd ttl now identity run action binding summary st of Inr (a, st') \<Rightarrow> st' | Inl e \<Rightarrow> st)"
| "approval_step cd (A_consume identity action binding now) st =
     (case consume_action cd identity action binding now st of Inr (a, st') \<Rightarrow> st' | Inl e \<Rightarrow> st)"
| "approval_step cd (A_invalidate run reason now) st = invalidate_pending run reason now st"

text \<open>An approval keeps what it was issued for, and once it left the pending state it never changes.\<close>

definition same_terms :: "approval \<Rightarrow> approval \<Rightarrow> bool" where
  "same_terms a a' \<longleftrightarrow> apv_run a' = apv_run a \<and> apv_action a' = apv_action a
     \<and> apv_fingerprint a' = apv_fingerprint a \<and> apv_expires a' = apv_expires a
     \<and> (apv_status a \<noteq> ''pending'' \<longrightarrow> a' = a)"

lemma approval_step_terms:
  "st i = Some a \<Longrightarrow> \<exists>a'. approval_step cd ev st i = Some a' \<and> same_terms a a'"
  by (cases ev)
     (auto simp: issue_approval_def save_approval_def consume_action_def consume_approval_def
       invalidate_pending_def same_terms_def Let_def split: sum.splits if_splits option.splits)

lemma approval_steps_terms:
  "st i = Some a \<Longrightarrow> \<exists>a'. fold (approval_step cd) evs st i = Some a' \<and> same_terms a a'"
proof (induction evs arbitrary: st a)
  case (Cons ev evs)
  obtain b where b: "approval_step cd ev st i = Some b" "same_terms a b"
    using approval_step_terms[of st i a cd ev] Cons.prems by blast
  obtain a' where "fold (approval_step cd) evs (approval_step cd ev st) i = Some a'" "same_terms b a'"
    using Cons.IH[of "approval_step cd ev st" b] b(1) by blast
  then show ?case using b(2) by (auto simp: same_terms_def)
qed (simp add: same_terms_def)

text \<open>An approval authorises one action once: a consumption that succeeds presents the fingerprint the
  approval was issued with, before its expiry, after any operations in between; and after it, and
  after an invalidation, every further consumption of that approval is refused, for good.\<close>
theorem approval_single_use:
  fixes cd :: codec and evs evs' :: "approval_event list"
  assumes "issue_approval cd ttl now i run action binding summary st0 = Inr (a0, st1)"
    and "consume_action cd i action' binding' now' (fold (approval_step cd) evs st1) = Inr (a, st2)"
  shows "approval_fingerprint cd action' binding' = approval_fingerprint cd action binding
    \<and> now' < now + approval_ttl ttl \<and> approval_ttl ttl \<le> 3600
    \<and> consume_action cd i action'' binding'' now'' (fold (approval_step cd) evs' st2)
        = Inl (Store_value_error ''AGENT_APPROVAL_ALREADY_CONSUMED'')"
proof -
  have a0: "st1 i = Some a0" "apv_fingerprint a0 = approval_fingerprint cd action binding"
      "apv_expires a0 = now + approval_ttl ttl"
    using assms(1) by (auto simp: issue_approval_def save_approval_def Let_def split: if_splits)
  then obtain b where b: "fold (approval_step cd) evs st1 i = Some b" "same_terms a0 b"
    using approval_steps_terms by blast
  then have c: "apv_fingerprint b = approval_fingerprint cd action' binding'" "now' < apv_expires b"
      "st2 i = Some (b\<lparr>apv_status := ''consumed'', apv_closed_at := Some now'\<rparr>)"
    using assms(2) by (auto simp: consume_action_def consume_approval_def Let_def split: if_splits)
  obtain d where "fold (approval_step cd) evs' st2 i = Some d" "apv_status d = ''consumed''"
    using approval_steps_terms[of st2 i _ cd evs'] c(3) by (auto simp: same_terms_def)
  then show ?thesis
    using a0 b(2) c by (simp add: same_terms_def consume_action_def consume_approval_def approval_ttl_def clamp_def)
qed

definition demo_approval_codec :: codec where
  "demo_approval_codec = \<lparr>sha256 = (\<lambda>s. s), json_text = (\<lambda>_. []), json_spaced = (\<lambda>_. []),
     json_dict = (\<lambda>_. []), py_text = (\<lambda>_. [])\<rparr>"

lemma approval_single_use_witness:
  "\<exists>st. consume_action demo_approval_codec ''a1'' ''upload'' [] 20 st
     = Inl (Store_value_error ''AGENT_APPROVAL_ALREADY_CONSUMED'')"
proof -
  obtain a0 st1 where i: "issue_approval demo_approval_codec 900 0 ''a1'' ''r'' ''upload'' [] ''x'' Map.empty = Inr (a0, st1)"
    by (simp add: issue_approval_def save_approval_def Let_def)
  then have "st1 ''a1'' = Some a0" "apv_status a0 = ''pending''" "apv_expires a0 = 900"
      "apv_fingerprint a0 = approval_fingerprint demo_approval_codec ''upload'' []"
    by (auto simp: issue_approval_def save_approval_def Let_def approval_ttl_def clamp_def)
  then have "\<exists>a st2. consume_action demo_approval_codec ''a1'' ''upload'' [] 10 (fold (approval_step demo_approval_codec) [] st1) = Inr (a, st2)"
    by (simp add: consume_action_def consume_approval_def Let_def)
  then obtain a st2 where "consume_action demo_approval_codec ''a1'' ''upload'' [] 10 (fold (approval_step demo_approval_codec) [] st1) = Inr (a, st2)"
    by blast
  from approval_single_use[OF i this, of "''upload''" "[]" 20 "[]"] show ?thesis by auto
qed

text \<open>An expired approval is never recorded as expired: consuming it after its expiry is refused, but the
  row keeps its pending status, because the error rolls the status update back.\<close>
theorem expired_approval_stays_pending:
  assumes "st i = Some a" "apv_status a = ''pending''" "apv_fingerprint a = approval_fingerprint cd action binding"
    and "apv_expires a \<le> now"
  shows "consume_action cd i action binding now st = Inl (Store_value_error ''AGENT_APPROVAL_EXPIRED'')
    \<and> approval_step cd (A_consume i action binding now) st i = Some a"
  using assms by (simp add: consume_action_def consume_approval_def)

lemma expired_approval_stays_pending_witness:
  "\<exists>a. approval_step demo_approval_codec (A_consume ''a1'' ''upload'' [] 901)
     (approval_step demo_approval_codec (A_issue 900 0 ''a1'' ''r'' ''upload'' [] ''x'') Map.empty) ''a1'' = Some a
     \<and> apv_status a = ''pending''"
proof -
  obtain a0 st1 where i: "issue_approval demo_approval_codec 900 0 ''a1'' ''r'' ''upload'' [] ''x'' Map.empty = Inr (a0, st1)"
    by (simp add: issue_approval_def save_approval_def Let_def)
  then have "st1 ''a1'' = Some a0" "apv_status a0 = ''pending''" "apv_expires a0 = 900"
      "apv_fingerprint a0 = approval_fingerprint demo_approval_codec ''upload'' []"
    by (auto simp: issue_approval_def save_approval_def Let_def approval_ttl_def clamp_def)
  then show ?thesis
    using expired_approval_stays_pending[of st1 "''a1''" a0 demo_approval_codec "''upload''" "[]" 901] i
    by simp
qed

section \<open>Operations\<close>

record operation_row =
  opr_run :: string
  opr_kind :: string
  opr_fingerprint :: string
  opr_status :: string
  opr_payload :: "string \<rightharpoonup> pyval"
  opr_updated :: rat

type_synonym operations = "string \<rightharpoonup> operation_row"

definition operation_statuses :: "string set" where
  "operation_statuses = {''prepared'', ''started'', ''completed'', ''failed'', ''unknown''}"

definition settled_operation :: "string set" where
  "settled_operation = {''completed'', ''failed'', ''unknown''}"

definition record_operation :: "codec \<Rightarrow> string \<Rightarrow> string \<Rightarrow> string \<Rightarrow> string \<Rightarrow> (string \<rightharpoonup> pyval) \<Rightarrow> rat \<Rightarrow> operations
    \<Rightarrow> store_error + operations" where
  "record_operation cd identity run kind status payload now st =
     (if status \<notin> operation_statuses then Inl (Store_value_error ''AGENT_OPERATION_STATUS_INVALID'')
      else let fingerprint = sha256 cd (json_dict cd payload) in
        case st identity of
          Some row \<Rightarrow>
            if opr_fingerprint row \<noteq> fingerprint then Inl (Store_value_error ''AGENT_OPERATION_CONFLICT'')
            else if opr_status row \<in> settled_operation \<and> opr_status row \<noteq> status
              then Inl (Store_value_error ''AGENT_OPERATION_ALREADY_SETTLED'')
            else Inr (st(identity \<mapsto> row\<lparr>opr_status := status, opr_updated := now\<rparr>))
        | None \<Rightarrow>
            if status \<notin> {''prepared'', ''started''}
            then Inl (Store_value_error ''AGENT_OPERATION_NOT_PREPARED'')
            else Inr (st(identity \<mapsto> \<lparr>opr_run = run, opr_kind = kind, opr_fingerprint = fingerprint,
                   opr_status = status, opr_payload = payload, opr_updated = now\<rparr>)))"

definition interrupt_operations :: "string \<Rightarrow> rat \<Rightarrow> operations \<Rightarrow> operations" where
  "interrupt_operations run now st = (\<lambda>identity. map_option (\<lambda>row.
     if opr_run row = run \<and> opr_status row = ''started''
     then row\<lparr>opr_status := ''unknown'', opr_updated := now\<rparr> else row) (st identity))"

datatype operation_event =
    O_record string string string string "string \<rightharpoonup> pyval" rat
  | O_interrupt string rat

fun operation_step :: "codec \<Rightarrow> operation_event \<Rightarrow> operations \<Rightarrow> operations" where
  "operation_step cd (O_record identity run kind status payload now) st =
     (case record_operation cd identity run kind status payload now st of Inr st' \<Rightarrow> st' | Inl e \<Rightarrow> st)"
| "operation_step cd (O_interrupt run now) st = interrupt_operations run now st"

definition operation_le :: "operation_row \<Rightarrow> operation_row \<Rightarrow> bool" where
  "operation_le r r' \<longleftrightarrow> opr_run r' = opr_run r \<and> opr_kind r' = opr_kind r
     \<and> opr_fingerprint r' = opr_fingerprint r \<and> opr_payload r' = opr_payload r
     \<and> (opr_status r \<in> settled_operation \<longrightarrow> opr_status r' = opr_status r)"

lemma operation_step_le:
  "st i = Some r \<Longrightarrow> \<exists>r'. operation_step cd ev st i = Some r' \<and> operation_le r r'"
  by (cases ev)
     (auto simp: record_operation_def interrupt_operations_def operation_le_def settled_operation_def Let_def
       split: sum.splits if_splits option.splits)

lemma operation_steps_le:
  "st i = Some r \<Longrightarrow> \<exists>r'. fold (operation_step cd) evs st i = Some r' \<and> operation_le r r'"
proof (induction evs arbitrary: st r)
  case (Cons ev evs)
  obtain b where b: "operation_step cd ev st i = Some b" "operation_le r b"
    using operation_step_le[of st i r cd ev] Cons.prems by blast
  obtain r' where "fold (operation_step cd) evs (operation_step cd ev st) i = Some r'" "operation_le b r'"
    using Cons.IH[of "operation_step cd ev st" b] b(1) by blast
  then show ?case using b(2) by (auto simp: operation_le_def)
qed (simp add: operation_le_def)

text \<open>The outcome of an operation is final: once an operation is completed, failed or unknown, no sequence
  of reports and interruptions changes its outcome, its run, its kind or its payload; a report of another
  outcome is refused, and so is any report with a different payload fingerprint.\<close>
theorem operation_outcome_final:
  fixes cd :: codec and evs :: "operation_event list"
  assumes "st i = Some r" "opr_status r \<in> settled_operation"
  defines "st' \<equiv> fold (operation_step cd) evs st"
  shows "\<exists>r'. st' i = Some r' \<and> opr_status r' = opr_status r \<and> opr_payload r' = opr_payload r
    \<and> opr_run r' = opr_run r \<and> opr_kind r' = opr_kind r
    \<and> (\<forall>run kind status payload now. status \<noteq> opr_status r \<or> sha256 cd (json_dict cd payload) \<noteq> opr_fingerprint r
         \<longrightarrow> \<not> is_ok (record_operation cd i run kind status payload now st'))"
proof -
  obtain r' where "st' i = Some r'" "operation_le r r'"
    using operation_steps_le[of st i r cd evs] assms(1) st'_def by blast
  then show ?thesis using assms(2)
    by (auto simp: operation_le_def record_operation_def Let_def)
qed

definition demo_operation :: operation_row where
  "demo_operation = \<lparr>opr_run = ''r'', opr_kind = ''upload'', opr_fingerprint = [], opr_status = ''unknown'',
     opr_payload = Map.empty, opr_updated = 0\<rparr>"

lemma operation_outcome_final_witness:
  "\<exists>r'. fold (operation_step demo_approval_codec) [O_record ''o'' ''r'' ''upload'' ''completed'' Map.empty 5,
       O_interrupt ''r'' 6] [''o'' \<mapsto> demo_operation] ''o'' = Some r' \<and> opr_status r' = ''unknown''"
  using operation_outcome_final[of "[''o'' \<mapsto> demo_operation]" "''o''" demo_operation demo_approval_codec
      "[O_record ''o'' ''r'' ''upload'' ''completed'' Map.empty 5, O_interrupt ''r'' 6]"]
  by (auto simp: demo_operation_def settled_operation_def)

section \<open>Replacement runs\<close>

record recovery_row =
  rcv_replacement :: string
  rcv_key :: string
  rcv_fingerprint :: string
  rcv_status :: string

type_synonym recoveries = "string \<rightharpoonup> recovery_row"

definition reserve_recovery :: "string \<Rightarrow> string \<Rightarrow> string \<Rightarrow> string \<Rightarrow> recoveries
    \<Rightarrow> store_error + (string \<times> recoveries)" where
  "reserve_recovery run key fingerprint fresh st =
     (case st run of
        Some row \<Rightarrow>
          if rcv_fingerprint row \<noteq> fingerprint
          then Inl (Store_value_error ''AGENT_RECOVERY_IDEMPOTENCY_CONFLICT'') else Inr (rcv_replacement row, st)
      | None \<Rightarrow> (let replacement = ''agent-run-'' @ fresh in
          Inr (replacement, st(run \<mapsto> \<lparr>rcv_replacement = replacement, rcv_key = key,
            rcv_fingerprint = fingerprint, rcv_status = ''prepared''\<rparr>))))"

definition complete_recovery :: "string \<Rightarrow> string \<Rightarrow> recoveries \<Rightarrow> recoveries" where
  "complete_recovery run replacement st =
     (case st run of None \<Rightarrow> st
      | Some row \<Rightarrow> if rcv_replacement row = replacement
          then st(run \<mapsto> row\<lparr>rcv_status := ''completed''\<rparr>) else st)"

definition recovery_replacement :: "string \<Rightarrow> recoveries \<Rightarrow> string option" where
  "recovery_replacement run st = map_option rcv_replacement (st run)"

lemma reserve_recovery_same:
  "reserve_recovery run key fp fresh st = Inr (r, st') \<Longrightarrow>
     recovery_replacement run st' = Some r \<and> rcv_fingerprint (the (st' run)) = fp
     \<and> reserve_recovery run key' fp fresh' st' = Inr (r, st')"
  by (cases "st run") (auto simp: reserve_recovery_def recovery_replacement_def Let_def split: if_splits)

lemma complete_recovery_keeps:
  "recovery_replacement run (complete_recovery run' r st) = recovery_replacement run st"
  by (auto simp: complete_recovery_def recovery_replacement_def split: option.split)

end
