(* ===== verification/Input_Queue.thy ===== *)
theory Input_Queue
  imports Journal
begin

text \<open>
  The durable input queue of \<^verbatim>\<open>backend/agent_runtime/orchestration_store.py\<close>: messages of the user are
  queued per session, edited or removed while they wait, claimed by a run in insertion order,
  acknowledged when the run has settled a turn that saw them, and put back when the run is replaced.

  Every operation commits its change of the queue table first and appends its journal event after
  that, in a second transaction; the state is the pair of the two. When the journal refuses the
  event the caller sees the error, but the queue keeps the change. Rows are listed in the order of
  their insertion.
\<close>

section \<open>State\<close>

record queue_row =
  qi_id :: string
  qi_session :: string
  qi_run :: "string option"
  qi_mode :: string
  qi_source :: string
  qi_content :: string
  qi_status :: string
  qi_sequence :: int
  qi_created :: rat
  qi_updated :: rat
  qi_claimed_at :: "rat option"

record inbox =
  ib_rows :: "queue_row list"
  ib_journal :: journal

definition queue_modes :: "string set" where
  "queue_modes = {''FOLLOW_UP'', ''STEER'', ''CONTEXT_INJECTION''}"

definition upper_char :: "char \<Rightarrow> char" where
  "upper_char c = (let n = of_char c :: nat in if 97 \<le> n \<and> n \<le> 122 then char_of (n - 32) else c)"

definition opt_val :: "string option \<Rightarrow> pyval" where
  "opt_val s = (case s of None \<Rightarrow> VNone | Some t \<Rightarrow> VStr t)"

text \<open>The journal event of a queue operation; no lease is presented.\<close>

record event_env =
  ee_now :: rat
  ee_stamp :: string
  ee_fresh :: string

definition inbox_event :: "codec \<Rightarrow> activity_projection \<Rightarrow> event_env \<Rightarrow> string \<Rightarrow> payload \<Rightarrow> journal
    \<Rightarrow> (store_error + payload) \<times> journal" where
  "inbox_event cd act env session p jn =
     append_event cd act \<lparr>ap_session = session, ap_payload = p, ap_grant = None, ap_key = None,
       ap_version = 1, ap_now = ee_now env, ap_stamp = ee_stamp env, ap_fresh = ee_fresh env,
       ap_projection = None\<rparr> jn"

definition after_commit :: "codec \<Rightarrow> activity_projection \<Rightarrow> event_env \<Rightarrow> string \<Rightarrow> payload \<Rightarrow> 'a \<Rightarrow> inbox
    \<Rightarrow> (store_error + 'a) \<times> inbox" where
  "after_commit cd act env session p result ib =
     (case inbox_event cd act env session p (ib_journal ib) of
        (Inl e, jn) \<Rightarrow> (Inl e, ib\<lparr>ib_journal := jn\<rparr>)
      | (Inr _, jn) \<Rightarrow> (Inr result, ib\<lparr>ib_journal := jn\<rparr>))"

section \<open>Operations\<close>

definition max_sequence :: "string \<Rightarrow> queue_row list \<Rightarrow> int" where
  "max_sequence session rows = fold max (map qi_sequence (filter (\<lambda>r. qi_session r = session) rows)) 0"

definition enqueue_input :: "codec \<Rightarrow> activity_projection \<Rightarrow> event_env \<Rightarrow> string \<Rightarrow> string \<Rightarrow> string option \<Rightarrow> string
    \<Rightarrow> string \<Rightarrow> string \<Rightarrow> inbox \<Rightarrow> (store_error + queue_row) \<times> inbox" where
  "enqueue_input cd act env fresh session run mode content source ib =
     (let m = map upper_char mode; body = squeeze content in
      if m \<notin> queue_modes then (Inl (Store_value_error ''AGENT_QUEUE_MODE_INVALID''), ib)
      else if body = [] \<or> 8000 < length body then (Inl (Store_value_error ''AGENT_QUEUE_CONTENT_INVALID''), ib)
      else let item = ''queue-'' @ fresh in
        if item \<in> qi_id ` set (ib_rows ib) then (Inl Store_integrity_error, ib)
        else let row = \<lparr>qi_id = item, qi_session = session, qi_run = run, qi_mode = m, qi_source = source,
               qi_content = body, qi_status = ''queued'',
               qi_sequence = max_sequence session (ib_rows ib) + 1, qi_created = ee_now env,
               qi_updated = ee_now env, qi_claimed_at = None\<rparr>
             in after_commit cd act env session [''event_type'' \<mapsto> VStr ''agent.inbox.inserted'',
                  ''run_id'' \<mapsto> opt_val run, ''queue_item_id'' \<mapsto> VStr item, ''mode'' \<mapsto> VStr m,
                  ''message'' \<mapsto> VStr (take 500 body)] row (ib\<lparr>ib_rows := ib_rows ib @ [row]\<rparr>))"

definition queue_items :: "string \<Rightarrow> string option \<Rightarrow> string option \<Rightarrow> inbox \<Rightarrow> queue_row list" where
  "queue_items session run status ib =
     sort_key qi_sequence (filter (\<lambda>r. qi_session r = session
        \<and> (case run of None \<Rightarrow> True | Some x \<Rightarrow> qi_run r = Some x)
        \<and> (case status of None \<Rightarrow> True | Some x \<Rightarrow> qi_status r = x)) (ib_rows ib))"

definition find_item :: "string \<Rightarrow> inbox \<Rightarrow> queue_row option" where
  "find_item item ib = List.find (\<lambda>r. qi_id r = item) (ib_rows ib)"

definition update_item :: "string \<Rightarrow> (queue_row \<Rightarrow> queue_row) \<Rightarrow> inbox \<Rightarrow> inbox" where
  "update_item item f ib = ib\<lparr>ib_rows := map (\<lambda>r. if qi_id r = item then f r else r) (ib_rows ib)\<rparr>"

definition edit_queue_item :: "codec \<Rightarrow> activity_projection \<Rightarrow> event_env \<Rightarrow> string \<Rightarrow> string \<Rightarrow> inbox
    \<Rightarrow> (store_error + queue_row) \<times> inbox" where
  "edit_queue_item cd act env item content ib =
     (let body = squeeze content in
      if body = [] \<or> 8000 < length body then (Inl (Store_value_error ''AGENT_QUEUE_CONTENT_INVALID''), ib)
      else case find_item item ib of
        None \<Rightarrow> (Inl (Store_key_error item), ib)
      | Some row \<Rightarrow>
          if qi_status row \<noteq> ''queued'' then (Inl (Store_value_error ''AGENT_QUEUE_ITEM_NOT_EDITABLE''), ib)
          else let f = (\<lambda>r. r\<lparr>qi_content := body, qi_updated := ee_now env\<rparr>)
               in after_commit cd act env (qi_session row) [''event_type'' \<mapsto> VStr ''agent.inbox.edited'',
                    ''run_id'' \<mapsto> opt_val (qi_run row), ''queue_item_id'' \<mapsto> VStr item,
                    ''message'' \<mapsto> VStr (take 500 body)] (f row) (update_item item f ib))"

definition remove_queue_item :: "codec \<Rightarrow> activity_projection \<Rightarrow> event_env \<Rightarrow> string \<Rightarrow> inbox
    \<Rightarrow> (store_error + queue_row) \<times> inbox" where
  "remove_queue_item cd act env item ib =
     (case find_item item ib of
        None \<Rightarrow> (Inl (Store_key_error item), ib)
      | Some row \<Rightarrow>
          if qi_status row \<noteq> ''queued'' then (Inl (Store_value_error ''AGENT_QUEUE_ITEM_NOT_REMOVABLE''), ib)
          else let f = (\<lambda>r. r\<lparr>qi_status := ''removed'', qi_updated := ee_now env\<rparr>)
               in after_commit cd act env (qi_session row) [''event_type'' \<mapsto> VStr ''agent.inbox.removed'',
                    ''run_id'' \<mapsto> opt_val (qi_run row), ''queue_item_id'' \<mapsto> VStr item] (f row)
                    (update_item item f ib))"

definition claimable :: "string \<Rightarrow> string option \<Rightarrow> string list \<Rightarrow> queue_row \<Rightarrow> bool" where
  "claimable session run modes r \<longleftrightarrow> qi_session r = session \<and> qi_status r = ''queued'' \<and> qi_mode r \<in> set modes
     \<and> (case run of None \<Rightarrow> True | Some x \<Rightarrow> qi_run r = Some x \<or> qi_run r = None)"

definition claim_row :: "rat \<Rightarrow> string option \<Rightarrow> queue_row \<Rightarrow> queue_row" where
  "claim_row now run r = r\<lparr>qi_status := ''claimed'', qi_claimed_at := Some now, qi_updated := now,
     qi_run := (if py_true_opt run then run else qi_run r)\<rparr>"

definition claim_rows :: "string \<Rightarrow> string option \<Rightarrow> string list \<Rightarrow> int \<Rightarrow> inbox \<Rightarrow> queue_row list" where
  "claim_rows session run modes limit ib =
     take (nat (clamp 1 32 limit)) (sort_key qi_sequence (filter (claimable session run modes) (ib_rows ib)))"

text \<open>The events of a claim, one per claimed item; the first refusal is raised.\<close>

fun claim_events :: "codec \<Rightarrow> activity_projection \<Rightarrow> string \<Rightarrow> (event_env \<times> queue_row) list \<Rightarrow> journal
    \<Rightarrow> (store_error + unit) \<times> journal" where
  "claim_events cd act session [] jn = (Inr (), jn)"
| "claim_events cd act session ((env, r) # rest) jn =
     (case inbox_event cd act env session [''event_type'' \<mapsto> VStr ''agent.inbox.claimed'',
          ''run_id'' \<mapsto> opt_val (qi_run r), ''queue_item_id'' \<mapsto> VStr (qi_id r), ''mode'' \<mapsto> VStr (qi_mode r)] jn of
        (Inl e, jn') \<Rightarrow> (Inl e, jn')
      | (Inr _, jn') \<Rightarrow> claim_events cd act session rest jn')"

definition claim_queue_items :: "codec \<Rightarrow> activity_projection \<Rightarrow> rat \<Rightarrow> event_env list \<Rightarrow> string \<Rightarrow> string option
    \<Rightarrow> string list \<Rightarrow> int \<Rightarrow> inbox \<Rightarrow> (store_error + queue_row list) \<times> inbox" where
  "claim_queue_items cd act now envs session run modes limit ib =
     (let taken = claim_rows session run modes limit ib;
          ids = qi_id ` set taken;
          claimed = map (claim_row now run) taken;
          ib' = ib\<lparr>ib_rows := map (\<lambda>r. if qi_id r \<in> ids \<and> qi_status r = ''queued'' then claim_row now run r else r)
                   (ib_rows ib)\<rparr>
      in case claim_events cd act session (zip envs claimed) (ib_journal ib') of
           (Inl e, jn) \<Rightarrow> (Inl e, ib'\<lparr>ib_journal := jn\<rparr>)
         | (Inr _, jn) \<Rightarrow> (Inr claimed, ib'\<lparr>ib_journal := jn\<rparr>))"

definition acknowledge_guidance :: "string \<Rightarrow> rat \<Rightarrow> inbox \<Rightarrow> inbox" where
  "acknowledge_guidance run now ib = ib\<lparr>ib_rows := map (\<lambda>r.
     if qi_run r = Some run \<and> qi_status r = ''claimed''
     then r\<lparr>qi_status := ''acknowledged'', qi_updated := now\<rparr> else r) (ib_rows ib)\<rparr>"

definition transfer_guidance :: "string \<Rightarrow> string \<Rightarrow> rat \<Rightarrow> inbox \<Rightarrow> inbox" where
  "transfer_guidance source replacement now ib = ib\<lparr>ib_rows := map (\<lambda>r.
     if qi_run r = Some source \<and> qi_status r \<in> {''claimed'', ''queued''}
     then r\<lparr>qi_run := Some replacement, qi_status := ''queued'', qi_updated := now\<rparr> else r) (ib_rows ib)\<rparr>"

section \<open>Sequences of operations\<close>

datatype inbox_op =
    I_enqueue event_env string string "string option" string string string
  | I_edit event_env string string
  | I_remove event_env string
  | I_claim rat "event_env list" string "string option" "string list" int
  | I_acknowledge string rat
  | I_transfer string string rat

fun inbox_step :: "codec \<Rightarrow> activity_projection \<Rightarrow> inbox_op \<Rightarrow> inbox \<Rightarrow> inbox" where
  "inbox_step cd act (I_enqueue env fresh session run mode content source) ib =
     snd (enqueue_input cd act env fresh session run mode content source ib)"
| "inbox_step cd act (I_edit env item content) ib = snd (edit_queue_item cd act env item content ib)"
| "inbox_step cd act (I_remove env item) ib = snd (remove_queue_item cd act env item ib)"
| "inbox_step cd act (I_claim now envs session run modes limit) ib =
     snd (claim_queue_items cd act now envs session run modes limit ib)"
| "inbox_step cd act (I_acknowledge run now) ib = acknowledge_guidance run now ib"
| "inbox_step cd act (I_transfer source replacement now) ib = transfer_guidance source replacement now ib"

text \<open>What the queue table becomes, whatever the journal answers.\<close>

lemma after_commit_rows [simp]: "ib_rows (snd (after_commit cd act env s p r ib)) = ib_rows ib"
  by (simp add: after_commit_def split: prod.split sum.split)

lemma claim_rows_step:
  "ib_rows (snd (claim_queue_items cd act now envs session run modes limit ib)) =
     map (\<lambda>r. if qi_id r \<in> qi_id ` set (claim_rows session run modes limit ib) \<and> qi_status r = ''queued''
              then claim_row now run r else r) (ib_rows ib)"
  by (simp add: claim_queue_items_def Let_def split: prod.split sum.split)

section \<open>Invariant\<close>

definition inbox_inv :: "inbox \<Rightarrow> bool" where
  "inbox_inv ib \<longleftrightarrow> distinct (map qi_id (ib_rows ib))
     \<and> (\<forall>s. sorted_wrt (<) (map qi_sequence (filter (\<lambda>r. qi_session r = s) (ib_rows ib))))
     \<and> (\<forall>r \<in> set (ib_rows ib). 0 < qi_sequence r)"

text \<open>The part of a row that no operation changes, and the order of the life of an item.\<close>

definition row_identity :: "queue_row \<Rightarrow> string \<times> string \<times> int" where
  "row_identity r = (qi_id r, qi_session r, qi_sequence r)"

lemma inbox_inv_rows:
  assumes "inbox_inv ib" "map row_identity rows = map row_identity (ib_rows ib)"
  shows "inbox_inv (ib\<lparr>ib_rows := rows\<rparr>)"
proof -
  have f: "map qi_sequence (filter (\<lambda>r. qi_session r = s) xs)
      = map (\<lambda>(i, t, n). n) (filter (\<lambda>(i, t, n). t = s) (map row_identity xs))" for s xs
    by (induction xs) (simp_all add: row_identity_def)
  have i: "map qi_id xs = map fst (map row_identity xs)" for xs
    by (simp add: row_identity_def)
  have p: "(\<forall>r \<in> set xs. 0 < qi_sequence r) \<longleftrightarrow> (\<forall>(i, t, n) \<in> set (map row_identity xs). 0 < n)" for xs
    by (simp add: row_identity_def)
  show ?thesis
    using assms(1) unfolding inbox_inv_def f[of _ "ib_rows ib"] i[of "ib_rows ib"] p[of "ib_rows ib"]
    by (simp add: f i p assms(2) del: map_map)
qed

lemma fold_max_ge: "a \<le> fold max xs (a::int) \<and> (\<forall>x \<in> set xs. x \<le> fold max xs a)"
proof (induction xs arbitrary: a)
  case (Cons y ys)
  have "max y a \<le> fold max ys (max y a)" "\<forall>x \<in> set ys. x \<le> fold max ys (max y a)"
    using Cons.IH by blast+
  then show ?case by (simp add: max.bounded_iff)
qed simp

lemma max_sequence_ge: "r \<in> set rows \<Longrightarrow> qi_session r = s \<Longrightarrow> qi_sequence r \<le> max_sequence s rows"
  using fold_max_ge by (auto simp: max_sequence_def)

lemma max_sequence_nonneg: "0 \<le> max_sequence s rows"
  using fold_max_ge by (auto simp: max_sequence_def)

text \<open>How one operation changes one row.\<close>

definition row_step :: "queue_row \<Rightarrow> queue_row \<Rightarrow> bool" where
  "row_step r r' \<longleftrightarrow> row_identity r' = row_identity r \<and> qi_mode r' = qi_mode r
     \<and> (qi_status r \<in> {''removed'', ''acknowledged''} \<longrightarrow> r' = r)
     \<and> (qi_status r = ''claimed'' \<longrightarrow> qi_content r' = qi_content r)
     \<and> qi_status r' \<in> {qi_status r, ''queued'', ''claimed'', ''removed'', ''acknowledged''}
     \<and> (qi_status r' = ''removed'' \<and> qi_status r \<noteq> ''removed'' \<longrightarrow> qi_status r = ''queued'')
     \<and> (qi_status r' = ''acknowledged'' \<and> qi_status r \<noteq> ''acknowledged'' \<longrightarrow> qi_status r = ''claimed'')
     \<and> (qi_status r' = ''claimed'' \<and> qi_status r \<noteq> ''claimed'' \<longrightarrow> qi_status r = ''queued'')"

lemma row_step_refl [simp]: "row_step r r"
  by (simp add: row_step_def)

lemma find_item_Some: "find_item item ib = Some r \<Longrightarrow> r \<in> set (ib_rows ib) \<and> qi_id r = item"
  by (auto simp: find_item_def find_Some_iff)

lemma unique_item: "inbox_inv ib \<Longrightarrow> r \<in> set (ib_rows ib) \<Longrightarrow> x \<in> set (ib_rows ib) \<Longrightarrow> qi_id r = qi_id x \<Longrightarrow> r = x"
  unfolding inbox_inv_def distinct_map inj_on_def by blast

lemma update_item_steps:
  assumes "inbox_inv ib" "find_item item ib = Some row" "row_step row (f row)"
  shows "list_all2 row_step (ib_rows ib) (ib_rows (update_item item f ib))"
proof -
  have "row_step r (if qi_id r = item then f r else r)" if "r \<in> set (ib_rows ib)" for r
    using that assms(3) unique_item[OF assms(1) that, of row] find_item_Some[OF assms(2)] by auto
  then show ?thesis
    by (auto simp: update_item_def list_all2_conv_all_nth)
qed

definition new_row_ok :: "queue_row list \<Rightarrow> queue_row \<Rightarrow> bool" where
  "new_row_ok rows r \<longleftrightarrow> qi_id r \<notin> qi_id ` set rows \<and> qi_status r = ''queued''
     \<and> qi_sequence r = max_sequence (qi_session r) rows + 1 \<and> qi_content r \<noteq> [] \<and> length (qi_content r) \<le> 8000"

lemma inbox_step_rows:
  assumes "inbox_inv ib"
  shows "list_all2 row_step (ib_rows ib) (ib_rows (inbox_step cd act ev ib))
    \<or> (\<exists>r. new_row_ok (ib_rows ib) r \<and> ib_rows (inbox_step cd act ev ib) = ib_rows ib @ [r])"
proof -
  have refl: "list_all2 row_step rows rows" for rows by (simp add: list_all2_refl)
  have mapped: "list_all2 row_step rows (map g rows)" if "\<And>r. row_step r (g r)" for g rows
    using that by (simp add: list_all2_conv_all_nth)
  show ?thesis
  proof (cases ev)
    case (I_enqueue env fresh session run mode content source)
    then show ?thesis using refl
      by (auto simp: enqueue_input_def Let_def new_row_ok_def not_less)
  next
    case (I_edit env item content)
    show ?thesis
    proof (cases "ib_rows (inbox_step cd act ev ib) = ib_rows ib")
      case False
      then obtain row where "find_item item ib = Some row" "qi_status row = ''queued''"
          "ib_rows (inbox_step cd act ev ib) = ib_rows (update_item item (\<lambda>r. r\<lparr>qi_content := squeeze content, qi_updated := ee_now env\<rparr>) ib)"
        using I_edit by (auto simp: edit_queue_item_def Let_def split: if_splits option.splits)
      moreover from this have "row_step row (row\<lparr>qi_content := squeeze content, qi_updated := ee_now env\<rparr>)"
        by (simp add: row_step_def row_identity_def)
      ultimately show ?thesis using update_item_steps[OF assms] by metis
    qed (simp add: refl)
  next
    case (I_remove env item)
    show ?thesis
    proof (cases "ib_rows (inbox_step cd act ev ib) = ib_rows ib")
      case False
      then obtain row where "find_item item ib = Some row" "qi_status row = ''queued''"
          "ib_rows (inbox_step cd act ev ib) = ib_rows (update_item item (\<lambda>r. r\<lparr>qi_status := ''removed'', qi_updated := ee_now env\<rparr>) ib)"
        using I_remove by (auto simp: remove_queue_item_def Let_def split: if_splits option.splits)
      moreover from this have "row_step row (row\<lparr>qi_status := ''removed'', qi_updated := ee_now env\<rparr>)"
        by (simp add: row_step_def row_identity_def)
      ultimately show ?thesis using update_item_steps[OF assms] by metis
    qed (simp add: refl)
  next
    case (I_claim now envs session run modes limit)
    then show ?thesis
      by (simp add: claim_rows_step, intro disjI1 mapped) (simp add: row_step_def row_identity_def claim_row_def)
  next
    case (I_acknowledge run now)
    then show ?thesis
      by (simp add: acknowledge_guidance_def, intro disjI1 mapped) (simp add: row_step_def row_identity_def)
  next
    case (I_transfer source replacement now)
    then show ?thesis
      by (simp add: transfer_guidance_def, intro disjI1 mapped) (simp add: row_step_def row_identity_def)
  qed
qed

lemma inbox_step_inv: "inbox_inv ib \<Longrightarrow> inbox_inv (inbox_step cd act ev ib)"
proof -
  assume inv: "inbox_inv ib"
  from inbox_step_rows[OF inv, of cd act ev] show ?thesis
  proof (elim disjE exE conjE)
    assume l: "list_all2 row_step (ib_rows ib) (ib_rows (inbox_step cd act ev ib))"
    have "map row_identity ys = map row_identity xs" if "list_all2 row_step xs ys" for xs ys
      using that by (induction rule: list_all2_induct) (simp_all add: row_step_def)
    with l have "map row_identity (ib_rows (inbox_step cd act ev ib)) = map row_identity (ib_rows ib)" by blast
    from inbox_inv_rows[OF inv this] show ?thesis by (simp add: inbox_inv_def)
  next
    fix r assume r: "new_row_ok (ib_rows ib) r" "ib_rows (inbox_step cd act ev ib) = ib_rows ib @ [r]"
    then show ?thesis
      using inv max_sequence_ge[of _ "ib_rows ib"] max_sequence_nonneg[of "qi_session r" "ib_rows ib"]
      by (fastforce simp: inbox_inv_def new_row_ok_def sorted_wrt_append)
  qed
qed

lemma inbox_steps_inv: "inbox_inv ib \<Longrightarrow> inbox_inv (fold (inbox_step cd act) evs ib)"
  by (induction evs arbitrary: ib) (simp_all add: inbox_step_inv)

lemma inbox_step_keeps:
  assumes "inbox_inv ib" "r \<in> set (ib_rows ib)"
  shows "\<exists>b \<in> set (ib_rows (inbox_step cd act ev ib)). row_step r b"
  using inbox_step_rows[OF assms(1), of cd act ev]
proof (elim disjE exE conjE)
  assume "list_all2 row_step (ib_rows ib) (ib_rows (inbox_step cd act ev ib))"
  then show ?thesis using assms(2) by (metis in_set_conv_nth list_all2_conv_all_nth)
next
  fix x assume "ib_rows (inbox_step cd act ev ib) = ib_rows ib @ [x]"
  then show ?thesis using assms(2) by (metis UnI1 row_step_refl set_append)
qed

definition row_kept :: "queue_row \<Rightarrow> queue_row \<Rightarrow> bool" where
  "row_kept r r' \<longleftrightarrow> row_identity r' = row_identity r \<and> qi_mode r' = qi_mode r
     \<and> (qi_status r \<in> {''removed'', ''acknowledged''} \<longrightarrow> r' = r)"

lemma row_step_kept: "row_step r r' \<Longrightarrow> row_kept r r'"
  unfolding row_step_def row_kept_def by blast

lemma row_kept_trans: "row_kept a b \<Longrightarrow> row_kept b c \<Longrightarrow> row_kept a c"
  unfolding row_kept_def by metis

lemma row_step_status:
  assumes "row_step r r'"
  shows "(qi_status r' = ''removed'' \<longrightarrow> qi_status r \<in> {''queued'', ''removed''})
    \<and> (qi_status r' = ''acknowledged'' \<longrightarrow> qi_status r \<in> {''claimed'', ''acknowledged''})"
  using assms unfolding row_step_def by blast

lemma inbox_steps_keep:
  assumes "inbox_inv ib" "r \<in> set (ib_rows ib)"
  shows "\<exists>r' \<in> set (ib_rows (fold (inbox_step cd act) evs ib)). row_kept r r'"
  using assms
proof (induction evs arbitrary: ib r)
  case Nil
  then show ?case by (auto simp: row_kept_def)
next
  case (Cons ev evs)
  obtain b where b: "b \<in> set (ib_rows (inbox_step cd act ev ib))" "row_step r b"
    using inbox_step_keeps[OF Cons.prems] by blast
  then show ?case
    using Cons.IH[OF inbox_step_inv[OF Cons.prems(1)] b(1)] row_kept_trans[OF row_step_kept[OF b(2)]]
    by auto
qed

section \<open>Properties\<close>

lemma claim_row_simps [simp]:
  "qi_sequence (claim_row now run r) = qi_sequence r" "qi_id (claim_row now run r) = qi_id r"
  "qi_status (claim_row now run r) = ''claimed''"
  by (simp_all add: claim_row_def)

lemma claimables_strict:
  assumes "inbox_inv ib"
  shows "sorted_wrt (<) (map qi_sequence (sort_key qi_sequence (filter (claimable session run modes) (ib_rows ib))))"
proof -
  have "sorted_wrt (<) (map qi_sequence (filter (\<lambda>r. qi_session r = session) (ib_rows ib)))"
    using assms by (simp add: inbox_inv_def)
  then have "distinct (map qi_sequence (filter (\<lambda>r. qi_session r = session) (ib_rows ib)))"
    by (simp add: strict_sorted_iff)
  then have "inj_on qi_sequence {r \<in> set (ib_rows ib). qi_session r = session}"
    by (simp add: distinct_map)
  moreover have "distinct (ib_rows ib)" using assms by (simp add: inbox_inv_def distinct_map)
  ultimately show ?thesis
    by (auto simp: strict_sorted_iff distinct_map claimable_def inj_on_def)
qed

lemma take_strict_first:
  fixes f :: "'a \<Rightarrow> int"
  assumes "sorted_wrt (<) (map f c)" "r \<in> set c" "r \<notin> set (take n c)"
  shows "length (take n c) = n \<and> (\<forall>x \<in> set (take n c). f x < f r)"
proof -
  have "r \<in> set (take n c) \<union> set (drop n c)"
    using assms(2) by (metis append_take_drop_id set_append)
  then have d: "r \<in> set (drop n c)" using assms(3) by blast
  have "sorted_wrt (<) (map f (take n c) @ map f (drop n c))"
    using assms(1) by (metis append_take_drop_id map_append)
  then show ?thesis using d by (cases "length c \<le> n") (simp_all add: sorted_wrt_append)
qed

lemma claimed_rows_status:
  assumes "inbox_inv ib" "set c \<subseteq> {r \<in> set (ib_rows ib). qi_status r = ''queued''}"
    and "r' \<in> set (map (\<lambda>r. if qi_id r \<in> qi_id ` set c \<and> qi_status r = ''queued'' then claim_row now run r else r) (ib_rows ib))"
    and "qi_id r' \<in> qi_id ` set c"
  shows "qi_status r' = ''claimed''"
proof -
  obtain r where r: "r \<in> set (ib_rows ib)" "r' = (if qi_id r \<in> qi_id ` set c \<and> qi_status r = ''queued''
      then claim_row now run r else r)"
    using assms(3) by auto
  then have id: "qi_id r \<in> qi_id ` set c"
    using assms(4) by (auto split: if_splits)
  then obtain x where x: "x \<in> set c" "qi_id x = qi_id r" by auto
  then have xs: "x \<in> set (ib_rows ib)" "qi_status x = ''queued''" using assms(2) by blast+
  have "r = x" by (rule unique_item[OF assms(1) r(1) xs(1) x(2)[symmetric]])
  then have "qi_status r = ''queued''" using xs(2) by simp
  then show ?thesis using r(2) id by simp
qed

text \<open>A claim takes the waiting messages in the order they were queued: it returns the first (at most
  thirty-two) waiting items of the session and mode that are addressed to the run or to no run, in
  strictly increasing insertion order; every claimable item it leaves was inserted after them; and
  afterwards no item it returned can be claimed again.\<close>
theorem claim_in_order:
  fixes cd :: codec and act :: activity_projection
  assumes "inbox_inv ib"
    and "claim_queue_items cd act now envs session run modes limit ib = (Inr items, ib')"
  shows "length items \<le> 32 \<and> sorted_wrt (<) (map qi_sequence items)
    \<and> (\<forall>x \<in> set items. \<exists>r \<in> set (ib_rows ib). claimable session run modes r \<and> x = claim_row now run r)
    \<and> (\<forall>r \<in> set (ib_rows ib). claimable session run modes r \<longrightarrow>
         claim_row now run r \<in> set items \<or> length items = nat (clamp 1 32 limit) \<and> (\<forall>x \<in> set items. qi_sequence x < qi_sequence r))
    \<and> (\<forall>r' \<in> set (ib_rows ib'). qi_id r' \<in> qi_id ` set items \<longrightarrow> qi_status r' = ''claimed'')"
proof -
  define c where "c = sort_key qi_sequence (filter (claimable session run modes) (ib_rows ib))"
  define n where "n = nat (clamp 1 32 limit)"
  have c: "set c = {r \<in> set (ib_rows ib). claimable session run modes r}" by (auto simp: c_def)
  have tc: "set (take n c) \<subseteq> set c" by (rule set_take_subset)
  have items: "items = map (claim_row now run) (take n c)"
    using assms(2) by (auto simp: claim_queue_items_def claim_rows_def Let_def c_def n_def split: prod.splits sum.splits)
  have rows': "ib_rows ib' = map (\<lambda>r. if qi_id r \<in> qi_id ` set (take n c) \<and> qi_status r = ''queued''
      then claim_row now run r else r) (ib_rows ib)"
    using claim_rows_step[of cd act now envs session run modes limit ib] assms(2)
    by (simp add: claim_rows_def c_def n_def)
  have strict: "sorted_wrt (<) (map qi_sequence c)"
    unfolding c_def by (rule claimables_strict[OF assms(1)])
  have "sorted_wrt (<) (map qi_sequence (take n c))"
    using strict by (simp add: take_map[symmetric] sorted_wrt_take)
  then have "sorted_wrt (<) (map qi_sequence items)" "length items \<le> 32"
    by (simp_all add: items comp_def n_def clamp_def)
  moreover have "claim_row now run r \<in> set items \<or> length items = n \<and> (\<forall>x \<in> set items. qi_sequence x < qi_sequence r)"
    if "r \<in> set (ib_rows ib)" "claimable session run modes r" for r
    using take_strict_first[OF strict, of r n] that c by (auto simp: items)
  moreover have "\<forall>r' \<in> set (ib_rows ib'). qi_id r' \<in> qi_id ` set items \<longrightarrow> qi_status r' = ''claimed''"
    using claimed_rows_status[OF assms(1), of "take n c"] tc c rows' by (auto simp: items image_image claimable_def)
  ultimately show ?thesis using tc c unfolding n_def items by auto
qed

definition demo_item :: "string \<Rightarrow> int \<Rightarrow> queue_row" where
  "demo_item i n = \<lparr>qi_id = i, qi_session = ''s1'', qi_run = None, qi_mode = ''STEER'', qi_source = ''user'',
     qi_content = ''go'', qi_status = ''queued'', qi_sequence = n, qi_created = 0, qi_updated = 0,
     qi_claimed_at = None\<rparr>"

definition demo_inbox :: inbox where
  "demo_inbox = \<lparr>ib_rows = [demo_item ''a'' 1, demo_item ''b'' 2], ib_journal = \<lparr>jn_leases = Map.empty,
     jn_heads = Map.empty, jn_events = [], jn_runs = Map.empty, jn_quarantine = Map.empty\<rparr>\<rparr>"

lemma demo_inbox_inv: "inbox_inv demo_inbox"
  by (simp add: inbox_inv_def demo_inbox_def demo_item_def)

lemma claim_in_order_witness:
  "\<forall>cd act. \<exists>items ib'. claim_queue_items cd act 5 [] ''s1'' (Some ''r'') [''STEER''] 1 demo_inbox = (Inr items, ib')
     \<and> length items \<le> 32 \<and> items \<noteq> []"
proof (intro allI)
  fix cd :: codec and act :: activity_projection
  have "\<exists>items ib'. claim_queue_items cd act 5 [] ''s1'' (Some ''r'') [''STEER''] 1 demo_inbox = (Inr items, ib') \<and> items \<noteq> []"
    by (simp add: claim_queue_items_def claim_rows_def Let_def demo_inbox_def demo_item_def claimable_def clamp_def)
  then show "\<exists>items ib'. claim_queue_items cd act 5 [] ''s1'' (Some ''r'') [''STEER''] 1 demo_inbox = (Inr items, ib')
     \<and> length items \<le> 32 \<and> items \<noteq> []"
    using claim_in_order[OF demo_inbox_inv] by blast
qed

text \<open>No message is lost or delivered after it was withdrawn: over any sequence of operations every queued item
  stays in the queue with its identity, session, position and mode, in one of its four states; an item that
  was removed or acknowledged never changes again; and an item is removed only while it waits and
  acknowledged only after it was claimed.\<close>
theorem inbox_items_permanent:
  fixes cd :: codec and act :: activity_projection and evs :: "inbox_op list"
  assumes "inbox_inv ib" "r \<in> set (ib_rows ib)"
  defines "ib' \<equiv> fold (inbox_step cd act) evs ib"
  shows "\<exists>r' \<in> set (ib_rows ib'). row_identity r' = row_identity r \<and> qi_mode r' = qi_mode r
    \<and> (qi_status r \<in> {''removed'', ''acknowledged''} \<longrightarrow> r' = r)
    \<and> (\<forall>ev r''. r'' \<in> set (ib_rows (inbox_step cd act ev ib')) \<and> qi_id r'' = qi_id r \<longrightarrow>
         (qi_status r'' = ''removed'' \<longrightarrow> qi_status r' \<in> {''queued'', ''removed''})
         \<and> (qi_status r'' = ''acknowledged'' \<longrightarrow> qi_status r' \<in> {''claimed'', ''acknowledged''}))"
proof -
  have "\<exists>r' \<in> set (ib_rows ib'). row_kept r r'"
    unfolding ib'_def by (rule inbox_steps_keep[OF assms(1,2)])
  then obtain r' where r': "r' \<in> set (ib_rows ib')" "row_identity r' = row_identity r" "qi_mode r' = qi_mode r"
      "qi_status r \<in> {''removed'', ''acknowledged''} \<longrightarrow> r' = r"
    unfolding row_kept_def by blast
  have inv: "inbox_inv ib'" unfolding ib'_def by (rule inbox_steps_inv[OF assms(1)])
  have st: "(qi_status r'' = ''removed'' \<longrightarrow> qi_status r' \<in> {''queued'', ''removed''})
         \<and> (qi_status r'' = ''acknowledged'' \<longrightarrow> qi_status r' \<in> {''claimed'', ''acknowledged''})"
    if r'': "r'' \<in> set (ib_rows (inbox_step cd act ev ib'))" "qi_id r'' = qi_id r" for ev r''
  proof -
    obtain b where b: "b \<in> set (ib_rows (inbox_step cd act ev ib'))" "row_step r' b"
      using inbox_step_keeps[OF inv r'(1)] by blast
    then have "qi_id b = qi_id r''" using r'' r'(2) by (simp add: row_step_def row_identity_def)
    then have "b = r''" using unique_item[OF inbox_step_inv[OF inv] b(1) r''(1)] by blast
    then show ?thesis using row_step_status[OF b(2)] by (simp only:)
  qed
  show ?thesis
  proof (rule bexI[OF _ r'(1)], intro conjI allI impI)
    fix ev r''
    assume r'': "r'' \<in> set (ib_rows (inbox_step cd act ev ib')) \<and> qi_id r'' = qi_id r"
    show "qi_status r'' = ''removed'' \<Longrightarrow> qi_status r' \<in> {''queued'', ''removed''}"
      using st[OF conjunct1[OF r''] conjunct2[OF r'']] by (elim conjE mp)
    show "qi_status r'' = ''acknowledged'' \<Longrightarrow> qi_status r' \<in> {''claimed'', ''acknowledged''}"
      using st[OF conjunct1[OF r''] conjunct2[OF r'']] by (elim conjE mp)
  qed (use r' in \<open>simp_all only:\<close>)
qed

lemma inbox_items_permanent_witness:
  "\<forall>cd act. \<exists>r' \<in> set (ib_rows (fold (inbox_step cd act) [I_claim 5 [] ''s1'' (Some ''r'') [''STEER''] 4,
       I_acknowledge ''r'' 6, I_transfer ''r'' ''q'' 7] demo_inbox)). qi_sequence r' = 1"
proof (intro allI)
  fix cd :: codec and act :: activity_projection
  have "demo_item ''a'' 1 \<in> set (ib_rows demo_inbox)" by (simp add: demo_inbox_def)
  from inbox_items_permanent[OF demo_inbox_inv this, of cd act "[I_claim 5 [] ''s1'' (Some ''r'') [''STEER''] 4,
       I_acknowledge ''r'' 6, I_transfer ''r'' ''q'' 7]"]
  show "\<exists>r' \<in> set (ib_rows (fold (inbox_step cd act) [I_claim 5 [] ''s1'' (Some ''r'') [''STEER''] 4,
       I_acknowledge ''r'' 6, I_transfer ''r'' ''q'' 7] demo_inbox)). qi_sequence r' = 1"
    by (auto simp: row_identity_def demo_item_def)
qed

end
