(* ===== verification/Context_Artifacts.thy ===== *)
theory Context_Artifacts
  imports Leases
begin

text \<open>
  The chain of compacted context artifacts of a run,
  \<^verbatim>\<open>backend/agent_runtime/orchestration_store.py\<close> (\<^verbatim>\<open>save_context_artifact\<close>, \<^verbatim>\<open>context_artifact\<close>):
  every artifact stores only the observations added since its parent, with the digest of the whole
  reconstructed list and the digest of its own segment.

  The encoder and the decoder of a list of observations (\<^verbatim>\<open>json.dumps\<close> with default separators,
  \<^verbatim>\<open>json.loads\<close>) and SHA-256 are arguments; the texts are ASCII, so a length counts bytes. Rows are
  listed in the order of their insertion.
\<close>

record list_codec =
  lc_sha :: "string \<Rightarrow> string"
  lc_encode :: "pyval list \<Rightarrow> string"
  lc_decode :: "string \<Rightarrow> pyval list option"

record artifact =
  ca_id :: string
  ca_run :: string
  ca_session :: string
  ca_parent :: "string option"
  ca_count :: int
  ca_digest :: string
  ca_delta_digest :: string
  ca_payload :: string
  ca_created :: rat

type_synonym artifacts = "artifact list"

definition artifact_error :: "string \<Rightarrow> store_error" where
  "artifact_error suffix = Store_value_error (''AGENT_CONTEXT_ARTIFACT_'' @ suffix)"

definition MAX_CHAIN :: nat where
  "MAX_CHAIN = 4096"

section \<open>Loading a chain\<close>

definition find_artifact :: "string \<Rightarrow> string \<Rightarrow> artifacts \<Rightarrow> artifact option" where
  "find_artifact identity run rows = List.find (\<lambda>r. ca_id r = identity \<and> ca_run r = run) rows"

text \<open>
  The segments from the root to an artifact. The counter is what is left of the limit on the number of
  visited artifacts, so that at zero the loop of the code raises.
\<close>

primrec load_chain :: "nat \<Rightarrow> list_codec \<Rightarrow> artifacts \<Rightarrow> string \<Rightarrow> string list \<Rightarrow> string
    \<Rightarrow> store_error + pyval list list" where
  "load_chain 0 cd rows run seen current = Inl (artifact_error ''CHAIN_INVALID'')"
| "load_chain (Suc n) cd rows run seen current =
     (if current \<in> set seen then Inl (artifact_error ''CHAIN_INVALID'')
      else case find_artifact current run rows of
        None \<Rightarrow> Inl (artifact_error ''PARENT_MISSING'')
      | Some r \<Rightarrow>
          if lc_sha cd (ca_payload r) \<noteq> ca_delta_digest r then Inl (artifact_error ''SEGMENT_CORRUPT'')
          else case lc_decode cd (ca_payload r) of
            None \<Rightarrow> Inl (artifact_error ''PAYLOAD_INVALID'')
          | Some segment \<Rightarrow>
              if \<not> py_true_opt (ca_parent r) then Inr [segment]
              else bind_result (load_chain n cd rows run (current # seen) (the (ca_parent r)))
                (\<lambda>segments. Inr (segments @ [segment])))"

definition load_observations :: "list_codec \<Rightarrow> artifacts \<Rightarrow> string \<Rightarrow> string \<Rightarrow> store_error + pyval list" where
  "load_observations cd rows run identity =
     bind_result (load_chain MAX_CHAIN cd rows run [] identity) (\<lambda>segments. Inr (concat segments))"

section \<open>Saving and reading\<close>

definition is_hex_digest :: "string \<Rightarrow> bool" where
  "is_hex_digest s \<longleftrightarrow> length s = 64 \<and> set s \<subseteq> set ''0123456789abcdef''"

text \<open>\<^verbatim>\<open>ORDER BY observation_count DESC, created_at DESC LIMIT 1\<close>\<close>

fun latest_artifact :: "artifacts \<Rightarrow> artifact option" where
  "latest_artifact [] = None"
| "latest_artifact (r # rs) =
     (case latest_artifact rs of None \<Rightarrow> Some r
      | Some x \<Rightarrow> if ca_count x > ca_count r \<or> ca_count x = ca_count r \<and> ca_created x > ca_created r
          then Some x else Some r)"

definition artifact_id_of :: "list_codec \<Rightarrow> string \<Rightarrow> string \<Rightarrow> string" where
  "artifact_id_of cd run digest = ''context-'' @ take 40 (lc_sha cd (run @ '':'' @ digest))"

definition save_context_artifact :: "list_codec \<Rightarrow> rat \<Rightarrow> string \<Rightarrow> string \<Rightarrow> int \<Rightarrow> string \<Rightarrow> pyval list
    \<Rightarrow> artifacts \<Rightarrow> store_error + (artifact \<times> artifacts)" where
  "save_context_artifact cd now run session count content_sha256 delta rows =
     (let digest = py_lower content_sha256 in
      if count < 1 \<or> \<not> is_hex_digest digest then Inl (artifact_error ''DIGEST_INVALID'')
      else if delta = [] then Inl (artifact_error ''DELTA_EMPTY'')
      else let delta_json = lc_encode cd delta in
      if 4194304 < length delta_json then Inl (artifact_error ''SEGMENT_TOO_LARGE'')
      else case List.find (\<lambda>r. ca_run r = run \<and> ca_digest r = digest) rows of
        Some r \<Rightarrow> Inr (r, rows)
      | None \<Rightarrow>
          (let previous = latest_artifact (filter (\<lambda>r. ca_run r = run) rows);
               previous_count = (case previous of Some r \<Rightarrow> ca_count r | None \<Rightarrow> 0);
               parent = map_option ca_id previous
           in if count \<noteq> previous_count + int (length delta) then Inl (artifact_error ''CHAIN_GAP'')
           else bind_result (case parent of None \<Rightarrow> Inr [] | Some p \<Rightarrow> load_observations cd rows run p)
             (\<lambda>prefix.
               if int (length (prefix @ delta)) \<noteq> count then Inl (artifact_error ''COUNT_MISMATCH'')
               else if lc_sha cd (lc_encode cd (prefix @ delta)) \<noteq> digest
                 then Inl (artifact_error ''DIGEST_MISMATCH'')
               else let r = \<lparr>ca_id = artifact_id_of cd run digest, ca_run = run, ca_session = session,
                          ca_parent = parent, ca_count = count, ca_digest = digest,
                          ca_delta_digest = lc_sha cd delta_json, ca_payload = delta_json,
                          ca_created = now\<rparr>
                    in if ca_id r \<in> ca_id ` set rows
                          \<or> (\<exists>x \<in> set rows. ca_run x = run \<and> ca_count x = count)
                       then Inl Store_integrity_error
                       else Inr (r, rows @ [r]))))"

definition context_artifact :: "list_codec \<Rightarrow> string \<Rightarrow> string \<Rightarrow> artifacts \<Rightarrow> store_error + pyval list" where
  "context_artifact cd run identity rows =
     (case find_artifact identity run rows of
        None \<Rightarrow> Inl (Store_key_error identity)
      | Some target \<Rightarrow>
          bind_result (load_observations cd rows run identity) (\<lambda>observations.
            if int (length observations) \<noteq> ca_count target then Inl (artifact_error ''COUNT_MISMATCH'')
            else if lc_sha cd (lc_encode cd observations) \<noteq> ca_digest target
              then Inl (artifact_error ''DIGEST_MISMATCH'')
            else Inr observations))"

section \<open>Chains under extension\<close>

lemma find_artifact_append:
  "find_artifact i run rows = Some r \<Longrightarrow> find_artifact i run (rows @ xs) = Some r"
proof -
  have "List.find P ys = Some y \<Longrightarrow> List.find P (ys @ xs) = Some y" for P ys and y :: artifact
    by (induction ys) (simp_all split: if_splits)
  then show "find_artifact i run rows = Some r \<Longrightarrow> ?thesis" by (simp add: find_artifact_def)
qed

lemma find_artifact_id: "find_artifact i run rows = Some r \<Longrightarrow> i \<in> ca_id ` set rows"
  by (auto simp: find_artifact_def find_Some_iff)

text \<open>A chain that loads does so with any larger limit, in any extension of the table, and whatever
  foreign identifiers count as seen; with a smaller limit than its length it does not load.\<close>

lemma load_chain_extend:
  assumes "load_chain n cd rows run seen i = Inr segs" "length segs \<le> m"
    and "set seen' \<inter> ca_id ` set rows \<subseteq> set seen"
  shows "load_chain m cd (rows @ xs) run seen' i = Inr segs"
  using assms
proof (induction n arbitrary: i seen seen' segs m)
  case (Suc n)
  then obtain r segment where r: "i \<notin> set seen" "find_artifact i run rows = Some r"
      "lc_sha cd (ca_payload r) = ca_delta_digest r" "lc_decode cd (ca_payload r) = Some segment"
    by (auto split: if_splits option.splits)
  have i: "i \<notin> set seen'" using Suc.prems(3) r(1) find_artifact_id[OF r(2)] by blast
  obtain m' where m: "m = Suc m'"
    using Suc.prems(1,2) r by (cases m) (auto simp: sum_case_simps split: if_splits)
  show ?case
  proof (cases "py_true_opt (ca_parent r)")
    case False
    then show ?thesis using Suc.prems(1) r i m find_artifact_append[OF r(2)] by simp
  next
    case True
    then obtain ps where ps: "load_chain n cd rows run (i # seen) (the (ca_parent r)) = Inr ps" "segs = ps @ [segment]"
      using Suc.prems(1) r by (auto simp: sum_case_simps)
    have "load_chain m' cd (rows @ xs) run (i # seen') (the (ca_parent r)) = Inr ps"
      using Suc.prems(2,3) ps(2) m by (intro Suc.IH[OF ps(1)]) auto
    then show ?thesis using True r i m ps(2) find_artifact_append[OF r(2)] by simp
  qed
qed simp

lemma load_chain_too_long:
  assumes "load_chain n cd rows run seen i = Inr segs" "m < length segs"
    and "set seen' \<inter> ca_id ` set rows \<subseteq> set seen"
  shows "load_chain m cd (rows @ xs) run seen' i = Inl (artifact_error ''CHAIN_INVALID'')"
  using assms
proof (induction n arbitrary: i seen seen' segs m)
  case (Suc n)
  then obtain r segment where r: "i \<notin> set seen" "find_artifact i run rows = Some r"
      "lc_sha cd (ca_payload r) = ca_delta_digest r" "lc_decode cd (ca_payload r) = Some segment"
    by (auto split: if_splits option.splits)
  have i: "i \<notin> set seen'" using Suc.prems(3) r(1) find_artifact_id[OF r(2)] by blast
  show ?case
  proof (cases m)
    case (Suc m')
    have True: "py_true_opt (ca_parent r)"
      using Suc.prems(1,2) r Suc by (auto split: if_splits)
    then obtain ps where ps: "load_chain n cd rows run (i # seen) (the (ca_parent r)) = Inr ps" "segs = ps @ [segment]"
      using Suc.prems(1) r by (auto simp: sum_case_simps)
    have "load_chain m' cd (rows @ xs) run (i # seen') (the (ca_parent r)) = Inl (artifact_error ''CHAIN_INVALID'')"
      using Suc.prems(2,3) ps(2) Suc by (intro Suc.IH[OF ps(1)]) auto
    then show ?thesis using True r i Suc find_artifact_append[OF r(2)] by simp
  qed simp
qed simp

lemma load_chain_length: "load_chain n cd rows run seen i = Inr segs \<Longrightarrow> length segs \<le> n"
  by (induction n arbitrary: i seen segs) (auto simp: sum_case_simps split: if_splits option.splits)

section \<open>What a successful save did\<close>

lemma save_new_artifact:
  assumes "save_context_artifact cd now run session count dg delta rows = Inr (r, rows')" "rows' \<noteq> rows"
  obtains prefix where
    "rows' = rows @ [r]" "ca_id r \<notin> ca_id ` set rows" "ca_run r = run" "ca_count r = count"
    "ca_payload r = lc_encode cd delta" "ca_delta_digest r = lc_sha cd (lc_encode cd delta)"
    "(case ca_parent r of None \<Rightarrow> Inr [] | Some p \<Rightarrow> load_observations cd rows run p) = Inr prefix"
    "int (length (prefix @ delta)) = count" "lc_sha cd (lc_encode cd (prefix @ delta)) = ca_digest r"
    "\<forall>p. ca_parent r = Some p \<longrightarrow> p \<in> ca_id ` set rows"
proof -
  define digest where "digest = py_lower dg"
  define previous where "previous = latest_artifact (filter (\<lambda>r. ca_run r = run) rows)"
  have nf: "List.find (\<lambda>r. ca_run r = run \<and> ca_digest r = digest) rows = None"
    using assms by (auto simp: save_context_artifact_def Let_def digest_def split: if_splits option.splits)
  have c: "\<not> (count < 1 \<or> \<not> is_hex_digest digest)" "\<not> delta = []" "\<not> 4194304 < length (lc_encode cd delta)"
      "\<not> count \<noteq> (case previous of Some r \<Rightarrow> ca_count r | None \<Rightarrow> 0) + int (length delta)"
    using assms(1) nf unfolding save_context_artifact_def Let_def digest_def[symmetric] previous_def[symmetric]
    by (auto split: if_split_asm)
  have s: "bind_result (case map_option ca_id previous of None \<Rightarrow> Inr [] | Some p \<Rightarrow> load_observations cd rows run p)
             (\<lambda>prefix.
               if int (length (prefix @ delta)) \<noteq> count then Inl (artifact_error ''COUNT_MISMATCH'')
               else if lc_sha cd (lc_encode cd (prefix @ delta)) \<noteq> digest
                 then Inl (artifact_error ''DIGEST_MISMATCH'')
               else let r = \<lparr>ca_id = artifact_id_of cd run digest, ca_run = run, ca_session = session,
                          ca_parent = map_option ca_id previous, ca_count = count, ca_digest = digest,
                          ca_delta_digest = lc_sha cd (lc_encode cd delta), ca_payload = lc_encode cd delta,
                          ca_created = now\<rparr>
                    in if ca_id r \<in> ca_id ` set rows
                          \<or> (\<exists>x \<in> set rows. ca_run x = run \<and> ca_count x = count)
                       then Inl Store_integrity_error
                       else Inr (r, rows @ [r])) = Inr (r, rows')"
    using assms(1) nf c unfolding save_context_artifact_def Let_def digest_def[symmetric] previous_def[symmetric]
    by (simp only: if_False if_True option.case simp_thms)
  then obtain prefix where p: "(case map_option ca_id previous of None \<Rightarrow> Inr [] | Some p \<Rightarrow> load_observations cd rows run p) = Inr prefix"
      "int (length (prefix @ delta)) = count" "lc_sha cd (lc_encode cd (prefix @ delta)) = digest"
      "rows' = rows @ [r]" "ca_id r \<notin> ca_id ` set rows"
      "r = \<lparr>ca_id = artifact_id_of cd run digest, ca_run = run, ca_session = session,
                          ca_parent = map_option ca_id previous, ca_count = count, ca_digest = digest,
                          ca_delta_digest = lc_sha cd (lc_encode cd delta), ca_payload = lc_encode cd delta,
                          ca_created = now\<rparr>"
  proof -
    obtain prefix where b: "(case map_option ca_id previous of None \<Rightarrow> Inr [] | Some p \<Rightarrow> load_observations cd rows run p) = Inr prefix"
      and f: "(if int (length (prefix @ delta)) \<noteq> count then Inl (artifact_error ''COUNT_MISMATCH'')
               else if lc_sha cd (lc_encode cd (prefix @ delta)) \<noteq> digest
                 then Inl (artifact_error ''DIGEST_MISMATCH'')
               else let r = \<lparr>ca_id = artifact_id_of cd run digest, ca_run = run, ca_session = session,
                          ca_parent = map_option ca_id previous, ca_count = count, ca_digest = digest,
                          ca_delta_digest = lc_sha cd (lc_encode cd delta), ca_payload = lc_encode cd delta,
                          ca_created = now\<rparr>
                    in if ca_id r \<in> ca_id ` set rows
                          \<or> (\<exists>x \<in> set rows. ca_run x = run \<and> ca_count x = count)
                       then Inl Store_integrity_error
                       else Inr (r, rows @ [r])) = Inr (r, rows')"
      using s unfolding bind_result_Inr by blast
    show ?thesis
      by (rule that[OF b]) (use f in \<open>auto simp: Let_def split: if_split_asm\<close>)
  qed
  have "latest_artifact xs = Some x \<Longrightarrow> x \<in> set xs" for xs x
    by (induction xs arbitrary: x) (auto split: option.splits if_splits)
  then have "\<forall>q. map_option ca_id previous = Some q \<longrightarrow> q \<in> ca_id ` set rows"
    unfolding previous_def by fastforce
  with p that[of prefix] show thesis by simp
qed

lemma find_new_artifact:
  assumes "rows' = rows @ [r]" "ca_id r \<notin> ca_id ` set rows" "ca_run r = run"
  shows "find_artifact (ca_id r) run rows' = Some r"
proof -
  have "List.find P xs = None \<Longrightarrow> P x \<Longrightarrow> List.find P (xs @ [x]) = Some x" for P xs and x :: artifact
    by (induction xs) (simp_all split: if_splits)
  moreover have "List.find (\<lambda>x. ca_id x = ca_id r \<and> ca_run x = run) rows = None"
    using assms(2) by (simp add: find_None_iff) (metis imageI)
  ultimately show ?thesis
    using assms(1,3) by (simp add: find_artifact_def)
qed

lemma load_new_artifact:
  assumes "rows' = rows @ [r]" "ca_id r \<notin> ca_id ` set rows" "ca_run r = run"
    "ca_delta_digest r = lc_sha cd (ca_payload r)" "lc_decode cd (ca_payload r) = Some delta"
  shows "load_chain (Suc n) cd rows' run [] (ca_id r) =
    (if \<not> py_true_opt (ca_parent r) then Inr [delta]
     else bind_result (load_chain n cd rows' run [ca_id r] (the (ca_parent r))) (\<lambda>segs. Inr (segs @ [delta])))"
  using find_new_artifact[OF assms(1-3)] assms(4,5) by simp

lemma older_artifacts_load:
  assumes "context_artifact cd run i rows = Inr obs"
  shows "context_artifact cd run i (rows @ xs) = Inr obs"
proof -
  obtain target segs where t: "find_artifact i run rows = Some target"
      "load_chain MAX_CHAIN cd rows run [] i = Inr segs"
    using assms by (auto simp: context_artifact_def load_observations_def sum_case_simps split: option.splits)
  moreover have "length segs \<le> MAX_CHAIN"
    using t(2) load_chain_length by blast
  ultimately have "load_chain MAX_CHAIN cd (rows @ xs) run [] i = Inr segs"
    using load_chain_extend[OF t(2)] by simp
  then show ?thesis
    using assms t find_artifact_append[OF t(1)] by (simp add: context_artifact_def load_observations_def)
qed

text \<open>A saved context reads back: an artifact that was just saved reads as the observations of its parent
  followed by the new segment, with every digest verified, provided the parent's chain is shorter
  than the limit of 4096 segments and the decoder inverts the encoder on the segment; and every artifact
  that could be read before still reads as the same observations.\<close>
theorem artifact_roundtrip:
  assumes "save_context_artifact cd now run session count dg delta rows = Inr (r, rows')" "rows' \<noteq> rows"
    and "lc_decode cd (lc_encode cd delta) = Some delta" "\<forall>x \<in> set rows. ca_id x \<noteq> []"
    and "\<forall>p segs. ca_parent r = Some p \<and> load_chain MAX_CHAIN cd rows run [] p = Inr segs \<longrightarrow> length segs < MAX_CHAIN"
  shows "\<exists>prefix. context_artifact cd run (ca_id r) rows' = Inr (prefix @ delta)
      \<and> (case ca_parent r of None \<Rightarrow> prefix = [] | Some p \<Rightarrow> load_observations cd rows run p = Inr prefix)
    \<and> (\<forall>run' i obs. context_artifact cd run' i rows = Inr obs \<longrightarrow> context_artifact cd run' i rows' = Inr obs)"
proof -
  obtain prefix where p: "rows' = rows @ [r]" "ca_id r \<notin> ca_id ` set rows" "ca_run r = run" "ca_count r = count"
    "ca_payload r = lc_encode cd delta" "ca_delta_digest r = lc_sha cd (lc_encode cd delta)"
    "(case ca_parent r of None \<Rightarrow> Inr [] | Some p \<Rightarrow> load_observations cd rows run p) = Inr prefix"
    "int (length (prefix @ delta)) = count" "lc_sha cd (lc_encode cd (prefix @ delta)) = ca_digest r"
    "\<forall>p. ca_parent r = Some p \<longrightarrow> p \<in> ca_id ` set rows"
    by (rule save_new_artifact[OF assms(1,2)])
  have n: "MAX_CHAIN = Suc 4095" by (simp add: MAX_CHAIN_def)
  have new: "load_chain MAX_CHAIN cd rows' run [] (ca_id r) =
      (if \<not> py_true_opt (ca_parent r) then Inr [delta]
       else bind_result (load_chain 4095 cd rows' run [ca_id r] (the (ca_parent r))) (\<lambda>segs. Inr (segs @ [delta])))"
    unfolding n by (rule load_new_artifact[OF p(1-3)]) (simp_all add: p(5,6) assms(3))
  have "load_observations cd rows' run (ca_id r) = Inr (prefix @ delta)"
  proof (cases "ca_parent r")
    case None
    then show ?thesis using new p(7) by (simp add: load_observations_def py_true_opt_def)
  next
    case (Some q)
    then have "q \<in> ca_id ` set rows" using p(10) by blast
    then have q: "q \<noteq> []" using assms(4) by auto
    obtain segs where segs: "load_chain MAX_CHAIN cd rows run [] q = Inr segs" "prefix = concat segs"
      using p(7) Some by (auto simp: load_observations_def sum_case_simps)
    have "length segs \<le> 4095" using assms(5) Some segs(1) n by auto
    then have "load_chain 4095 cd rows' run [ca_id r] q = Inr segs"
      unfolding p(1) using p(2) by (intro load_chain_extend[OF segs(1)]) auto
    then show ?thesis using new Some q segs(2) by (simp add: load_observations_def py_true_opt_def)
  qed
  then have "context_artifact cd run (ca_id r) rows' = Inr (prefix @ delta)"
    using p(4,8,9) find_new_artifact[OF p(1-3)] by (simp add: context_artifact_def)
  moreover have "case ca_parent r of None \<Rightarrow> prefix = [] | Some q \<Rightarrow> load_observations cd rows run q = Inr prefix"
    using p(7) by (simp split: option.splits)
  ultimately show ?thesis using older_artifacts_load p(1) by blast
qed

definition demo_list_codec :: list_codec where
  "demo_list_codec = \<lparr>lc_sha = (\<lambda>_. replicate 64 CHR ''0''), lc_encode = (\<lambda>_. []), lc_decode = (\<lambda>_. Some [VNone])\<rparr>"

lemma demo_digest: "py_lower (replicate 64 CHR ''0'') = replicate 64 CHR ''0''"
  "is_hex_digest (replicate 64 CHR ''0'')"
  by (simp_all add: py_lower_def lower_char_def is_hex_digest_def)

lemma artifact_roundtrip_witness:
  "\<exists>i rows. context_artifact demo_list_codec ''r'' i rows = Inr [VNone]"
proof -
  have "\<exists>r rows. save_context_artifact demo_list_codec 0 ''r'' ''s'' 1 (replicate 64 CHR ''0'') [VNone] [] = Inr (r, rows)
      \<and> rows \<noteq> [] \<and> ca_parent r = None"
    unfolding save_context_artifact_def Let_def demo_digest
    by (simp add: demo_digest demo_list_codec_def del: replicate.simps)
  then obtain r rows where s: "save_context_artifact demo_list_codec 0 ''r'' ''s'' 1 (replicate 64 CHR ''0'') [VNone] [] = Inr (r, rows)"
      "rows \<noteq> []" "ca_parent r = None" by blast
  from artifact_roundtrip[OF s(1,2)] s(3) show ?thesis
    by (auto simp: demo_list_codec_def)
qed

text \<open>The depth limit is off by one: when the parent's chain already has 4096 segments, the save still succeeds
  (it only walks the parent's chain), but the artifact it stored can never be read.\<close>
theorem artifact_depth_limit:
  assumes "save_context_artifact cd now run session count dg delta rows = Inr (r, rows')" "rows' \<noteq> rows"
    and "lc_decode cd (lc_encode cd delta) = Some delta" "ca_parent r = Some q" "q \<noteq> []"
    and "load_chain MAX_CHAIN cd rows run [] q = Inr segs" "length segs = MAX_CHAIN"
  shows "context_artifact cd run (ca_id r) rows' = Inl (artifact_error ''CHAIN_INVALID'')"
proof -
  obtain prefix where p: "rows' = rows @ [r]" "ca_id r \<notin> ca_id ` set rows" "ca_run r = run" "ca_count r = count"
    "ca_payload r = lc_encode cd delta" "ca_delta_digest r = lc_sha cd (lc_encode cd delta)"
    "(case ca_parent r of None \<Rightarrow> Inr [] | Some p \<Rightarrow> load_observations cd rows run p) = Inr prefix"
    "int (length (prefix @ delta)) = count" "lc_sha cd (lc_encode cd (prefix @ delta)) = ca_digest r"
    "\<forall>p. ca_parent r = Some p \<longrightarrow> p \<in> ca_id ` set rows"
    by (rule save_new_artifact[OF assms(1,2)])
  have n: "MAX_CHAIN = Suc 4095" by (simp add: MAX_CHAIN_def)
  have new: "load_chain MAX_CHAIN cd rows' run [] (ca_id r) =
      (if \<not> py_true_opt (ca_parent r) then Inr [delta]
       else bind_result (load_chain 4095 cd rows' run [ca_id r] (the (ca_parent r))) (\<lambda>segs. Inr (segs @ [delta])))"
    unfolding n by (rule load_new_artifact[OF p(1-3)]) (simp_all add: p(5,6) assms(3))
  have "load_chain 4095 cd rows' run [ca_id r] q = Inl (artifact_error ''CHAIN_INVALID'')"
    unfolding p(1) using p(2) assms(7) n by (intro load_chain_too_long[OF assms(6)]) auto
  then have "load_observations cd rows' run (ca_id r) = Inl (artifact_error ''CHAIN_INVALID'')"
    using new assms(4,5) by (simp add: load_observations_def py_true_opt_def)
  then show ?thesis using find_new_artifact[OF p(1-3)] by (simp add: context_artifact_def)
qed

text \<open>A chain of \<open>n\<close> one-observation artifacts.\<close>

definition demo_id :: "nat \<Rightarrow> string" where
  "demo_id k = replicate (Suc k) CHR ''a''"

definition demo_artifact :: "nat \<Rightarrow> artifact" where
  "demo_artifact k = \<lparr>ca_id = demo_id k, ca_run = ''r'', ca_session = ''s'',
     ca_parent = (if k = 0 then None else Some (demo_id (k - 1))), ca_count = int k + 1, ca_digest = [],
     ca_delta_digest = replicate 64 CHR ''0'', ca_payload = [], ca_created = 0\<rparr>"

definition demo_chain :: "nat \<Rightarrow> artifacts" where
  "demo_chain n = map demo_artifact [0..<n]"

lemma demo_id_inj [simp]: "demo_id k = demo_id l \<longleftrightarrow> k = l"
  by (auto simp: demo_id_def dest: arg_cong[where f = length])

lemma demo_chain_find: "k < n \<Longrightarrow> find_artifact (demo_id k) ''r'' (demo_chain n) = Some (demo_artifact k)"
proof (induction n)
  case (Suc n)
  have c: "demo_chain (Suc n) = demo_chain n @ [demo_artifact n]" by (simp add: demo_chain_def)
  have a: "ca_id (demo_artifact l) = demo_id l" "ca_run (demo_artifact l) = ''r''" for l
    by (simp_all add: demo_artifact_def)
  then have "demo_id n \<notin> ca_id ` set (demo_chain n)" by (auto simp: demo_chain_def)
  then have "find_artifact (demo_id n) ''r'' (demo_chain (Suc n)) = Some (demo_artifact n)"
    using find_new_artifact[OF c, of "''r''"] a by simp
  moreover have "k \<noteq> n \<Longrightarrow> find_artifact (demo_id k) ''r'' (demo_chain (Suc n)) = Some (demo_artifact k)"
    using Suc find_artifact_append[of "demo_id k" "''r''" "demo_chain n" "demo_artifact k" "[demo_artifact n]"] c
    by simp
  ultimately show ?case by blast
qed simp

lemma demo_chain_load:
  "k < n \<Longrightarrow> k < m \<Longrightarrow> (\<forall>l \<le> k. demo_id l \<notin> set seen) \<Longrightarrow>
   load_chain m demo_list_codec (demo_chain n) ''r'' seen (demo_id k) = Inr (replicate (Suc k) [VNone])"
proof (induction m arbitrary: k seen)
  case (Suc m)
  show ?case
  proof (cases k)
    case 0
    then show ?thesis using Suc.prems demo_chain_find[of 0 n]
      by (simp add: demo_artifact_def demo_list_codec_def py_true_opt_def)
  next
    case (Suc j)
    have "load_chain m demo_list_codec (demo_chain n) ''r'' (demo_id k # seen) (demo_id j) = Inr (replicate (Suc j) [VNone])"
      using Suc Suc.prems by (intro Suc.IH) auto
    moreover have "replicate (Suc j) x @ [x] = replicate (Suc (Suc j)) x" for x :: "pyval list"
      by (simp add: replicate_append_same)
    moreover have "demo_id j \<noteq> []" by (simp add: demo_id_def)
    ultimately show ?thesis using Suc Suc.prems demo_chain_find[of k n]
      by (simp add: demo_artifact_def demo_list_codec_def py_true_opt_def)
  qed
qed simp

lemma demo_chain_latest: "latest_artifact (map demo_artifact [j..<Suc n]) = Some (demo_artifact n)" if "j \<le> n" for j n
  using that
proof (induction "n - j" arbitrary: j)
  case (Suc d)
  then have "latest_artifact (map demo_artifact [Suc j..<Suc n]) = Some (demo_artifact n)" by simp
  moreover have "[j..<Suc n] = j # [Suc j..<Suc n]" using Suc.prems by (simp add: upt_rec)
  ultimately show ?case using Suc by (simp add: demo_artifact_def)
qed (simp add: upt_rec)

lemma demo_chain_save:
  "\<exists>r. save_context_artifact demo_list_codec 1 ''r'' ''s'' 4097 (replicate 64 CHR ''0'') [VNone] (demo_chain MAX_CHAIN)
      = Inr (r, demo_chain MAX_CHAIN @ [r]) \<and> ca_parent r = Some (demo_id 4095)"
proof -
  let ?rows = "demo_chain MAX_CHAIN"
  have f: "List.find (\<lambda>r. ca_run r = ''r'' \<and> ca_digest r = replicate 64 CHR ''0'') ?rows = None"
    by (auto simp: find_None_iff demo_chain_def demo_artifact_def)
  have "filter (\<lambda>r. ca_run r = ''r'') ?rows = ?rows"
    by (simp add: demo_chain_def demo_artifact_def)
  moreover have "MAX_CHAIN = Suc 4095" by (simp add: MAX_CHAIN_def)
  ultimately have l: "latest_artifact (filter (\<lambda>r. ca_run r = ''r'') ?rows) = Some (demo_artifact 4095)"
    using demo_chain_latest[of 0 4095] by (simp only: demo_chain_def)
  have load: "load_observations demo_list_codec ?rows ''r'' (demo_id 4095) = Inr (replicate 4096 VNone)"
    using demo_chain_load[of 4095 MAX_CHAIN MAX_CHAIN "[]"]
    by (simp add: load_observations_def MAX_CHAIN_def concat_replicate_single del: replicate.simps)
  show ?thesis
    using f l load unfolding save_context_artifact_def Let_def demo_digest
    by (simp add: demo_digest demo_list_codec_def demo_artifact_def artifact_id_of_def demo_chain_def demo_id_def
        image_image MAX_CHAIN_def del: replicate.simps) (auto dest!: arg_cong[where f = hd])
qed

lemma artifact_depth_limit_witness:
  "\<exists>i rows. context_artifact demo_list_codec ''r'' i rows = Inl (artifact_error ''CHAIN_INVALID'') \<and> length rows = 4097"
proof -
  obtain r where s: "save_context_artifact demo_list_codec 1 ''r'' ''s'' 4097 (replicate 64 CHR ''0'') [VNone] (demo_chain MAX_CHAIN)
      = Inr (r, demo_chain MAX_CHAIN @ [r])" "ca_parent r = Some (demo_id 4095)"
    using demo_chain_save by blast
  have "load_chain MAX_CHAIN demo_list_codec (demo_chain MAX_CHAIN) ''r'' [] (demo_id 4095) = Inr (replicate (Suc 4095) [VNone])"
    by (rule demo_chain_load) (simp_all add: MAX_CHAIN_def)
  from artifact_depth_limit[OF s(1) _ _ s(2) _ this]
  have "context_artifact demo_list_codec ''r'' (ca_id r) (demo_chain MAX_CHAIN @ [r]) = Inl (artifact_error ''CHAIN_INVALID'')"
    by (simp add: demo_list_codec_def demo_id_def MAX_CHAIN_def)
  moreover have "length (demo_chain MAX_CHAIN @ [r]) = 4097"
    by (simp add: demo_chain_def MAX_CHAIN_def)
  ultimately show ?thesis by blast
qed

end
