(* ===== verification/Change_Incidents.thy ===== *)
theory Change_Incidents
  imports Change_Drafts
begin

text \<open>
  Runs of the publication protocol of \<^verbatim>\<open>backend/changes/service.py\<close> that do not end as they should, evaluated on
  a concrete change set: what the properties of the theories before do not promise.
\<close>

text \<open>When the metadata of a finished publication cannot be written, \<^verbatim>\<open>apply\<close> raises with the change set still pending and its
  journal in place. A \<^verbatim>\<open>discard\<close> is then accepted: it deletes the backups that recovery needs, and the
  workspace keeps the new content for good.\<close>

lemma discard_after_failed_commit:
  "let (r1, _, w1) = apply_set demo_env 5 ''c1'' (replicate 7 Go @ [Fail]) demo_world;
       (r2, _, w2) = discard_set demo_env ''c1'' [] w1;
       w3 = run_op demo_env ''c1'' (Op_start [''c1'']) [] w2
   in r1 = Raised Os_error \<and> r2 \<noteq> Raised Os_error \<and> cw_stages w2 ''/s/c1'' = None
      \<and> look (ws_tree w3 ''/w'') ''a'' = Some (Regular ''2'') \<and> map_option cs_status (cw_sets w3 ''c1'') = Some ''conflicted''"
  by code_simp

text \<open>The process dies after it made the backup directory and before it wrote the journal: the change set stays pending, and
  every later \<^verbatim>\<open>apply\<close> fails on the left-over directory.\<close>

lemma apply_after_early_death:
  "let (r1, _, w1) = apply_set demo_env 5 ''c1'' [Go, Go, Go, Go, Die] demo_world;
       w2 = run_op demo_env ''c1'' (Op_start [''c1'']) [] w1;
       (r3, _, w3) = apply_set demo_env 6 ''c1'' [] w2
   in r1 = Died \<and> map_option cs_status (cw_sets w2 ''c1'') = Some ''pending''
      \<and> r3 = Raised (Change_error ''CHANGE_APPLY_FAILED'') \<and> map_option cs_status (cw_sets w3 ''c1'') = Some ''failed''"
  by code_simp

text \<open>A committed publication whose journal cannot be removed at the next start is marked as conflicted, and the start after
  that rolls it back.\<close>

lemma committed_then_rolled_back:
  "let (r1, _, w1) = apply_set demo_env 5 ''c1'' (replicate 8 Go @ [Die]) demo_world;
       w2 = run_op demo_env ''c1'' (Op_start [''c1'']) [Go, Fail] w1;
       w3 = run_op demo_env ''c1'' (Op_start [''c1'']) [] w2
   in map_option cs_status (cw_meta w1 ''c1'') = Some ''applied'' \<and> map_option cs_status (cw_sets w2 ''c1'') = Some ''conflicted''
      \<and> map_option cs_status (cw_sets w3 ''c1'') = Some ''pending'' \<and> look (ws_tree w3 ''/w'') ''a'' = Some (Regular ''1'')"
  by code_simp

text \<open>An \<^verbatim>\<open>undo\<close> that cannot write its journal has changed nothing, but marks the applied change set as conflicted: it can never
  be undone.\<close>

lemma undo_lost_by_journal_failure:
  "let (r1, _, w1) = apply_set demo_env 5 ''c1'' [] demo_world;
       (r2, _, w2) = undo_set demo_env 6 ''c1'' [Go, Go, Fail] w1;
       (r3, _, w3) = undo_set demo_env 7 ''c1'' [] w2
   in r2 = Raised (Change_error ''CHANGE_UNDO_FAILED'') \<and> look (ws_tree w2 ''/w'') ''a'' = Some (Regular ''2'')
      \<and> r3 = Raised (Change_error ''CHANGE_SET_NOT_APPLIED'')"
  by code_simp

text \<open>A stage puts a file where the workspace has a directory: the change set is created, and \<^verbatim>\<open>apply\<close> refuses it before it
  writes anything and marks it as conflicted.\<close>

lemma directory_in_the_way:
  "let t = [(''a/b'', Regular ''1'')];
       w = demo_world\<lparr>cw_ws := [''/w'' \<mapsto> t], cw_sets := Map.empty, cw_meta := Map.empty\<rparr>;
       (r1, _, w1) = create_from_stage demo_env 1 ''c2'' ''p'' ''/w'' ''/s/c1'' (inspect_tree demo_env ''/w'' t) [''a''] [] None [] [] True False [] w;
       (r2, _, w2) = apply_set demo_env 2 ''c2'' [] w1
   in map_option cs_status (cw_sets w1 ''c2'') = Some ''pending'' \<and> r2 = Raised (Change_error ''CHANGE_TARGET_UNSAFE'')
      \<and> map_option cs_status (cw_sets w2 ''c2'') = Some ''conflicted'' \<and> ws_tree w2 ''/w'' = t"
  by code_simp

end
