(* ===== verification/Tool_Contracts.thy ===== *)
theory Tool_Contracts
  imports Prelude
begin

text \<open>
  The contracts of agent tools, \<^verbatim>\<open>backend/agent_runtime/tool_contracts.py\<close>, with the host catalog of
  \<^verbatim>\<open>tool_registry.py\<close> and the requirement arguments of \<^verbatim>\<open>requirement_arguments.py\<close>: tool names and their wire
  aliases, the JSON schemas of their arguments, and the parsers that turn what a model sends into calls.
  A decoded JSON value is a \<open>pyval\<close>; the keys of a JSON object are distinct. The JSON decoder is an argument.
\<close>

section \<open>Tool names\<close>

datatype tool_name =
    LIST_FILES | GLOB_FILES | GREP_SEARCH | READ_FILE
  | WRITE_FILE | EDIT_FILE_SIMPLE | APPLY_PATCH | DELETE_FILE | MOVE_FILE
  | UPDATE_PLAN | LOAD_SKILL | MEMORY_SEARCH | SPAWN_SUBAGENT | PRESENT_FILES
  | SESSION_EVENT_READ | SESSION_EVENT_SEARCH | SESSION_TRACE
  | BUILD_FIRMWARE | VERIFY_REQUIREMENTS | RUN_SIMULATION | RUN_COMMAND
  | PROJECT_DOCTOR | INSPECT_SYMBOLS | RESOLVE_DEPENDENCY | SEARCH_DOCS | FETCH_DOCS
  | VALIDATE_HARDWARE_CONFIG | RUN_UNIT_TESTS | ANALYZE_FIRMWARE | OBSERVE_SERIAL | DECODE_CRASH
  | VERIFY_ACCEPTANCE

definition all_tools :: "tool_name list" where
  "all_tools = [LIST_FILES, GLOB_FILES, GREP_SEARCH, READ_FILE, WRITE_FILE, EDIT_FILE_SIMPLE, APPLY_PATCH, DELETE_FILE,
     MOVE_FILE, UPDATE_PLAN, LOAD_SKILL, MEMORY_SEARCH, SPAWN_SUBAGENT, PRESENT_FILES, SESSION_EVENT_READ,
     SESSION_EVENT_SEARCH, SESSION_TRACE, BUILD_FIRMWARE, VERIFY_REQUIREMENTS, RUN_SIMULATION, RUN_COMMAND, PROJECT_DOCTOR,
     INSPECT_SYMBOLS, RESOLVE_DEPENDENCY, SEARCH_DOCS, FETCH_DOCS, VALIDATE_HARDWARE_CONFIG, RUN_UNIT_TESTS,
     ANALYZE_FIRMWARE, OBSERVE_SERIAL, DECODE_CRASH, VERIFY_ACCEPTANCE]"

fun tool_value :: "tool_name \<Rightarrow> string" where
  "tool_value LIST_FILES = ''list_files''"
| "tool_value GLOB_FILES = ''glob_files''"
| "tool_value GREP_SEARCH = ''grep_search''"
| "tool_value READ_FILE = ''read_file''"
| "tool_value WRITE_FILE = ''write_file''"
| "tool_value EDIT_FILE_SIMPLE = ''edit_file_simple''"
| "tool_value APPLY_PATCH = ''apply_patch''"
| "tool_value DELETE_FILE = ''delete_file''"
| "tool_value MOVE_FILE = ''move_file''"
| "tool_value UPDATE_PLAN = ''update_plan''"
| "tool_value LOAD_SKILL = ''load_skill''"
| "tool_value MEMORY_SEARCH = ''memory_search''"
| "tool_value SPAWN_SUBAGENT = ''spawn_subagent''"
| "tool_value PRESENT_FILES = ''present_files''"
| "tool_value SESSION_EVENT_READ = ''session_event_read''"
| "tool_value SESSION_EVENT_SEARCH = ''session_event_search''"
| "tool_value SESSION_TRACE = ''session_trace''"
| "tool_value BUILD_FIRMWARE = ''build_firmware''"
| "tool_value VERIFY_REQUIREMENTS = ''verify_requirements''"
| "tool_value RUN_SIMULATION = ''run_simulation''"
| "tool_value RUN_COMMAND = ''run_command''"
| "tool_value PROJECT_DOCTOR = ''project_doctor''"
| "tool_value INSPECT_SYMBOLS = ''inspect_symbols''"
| "tool_value RESOLVE_DEPENDENCY = ''resolve_dependency''"
| "tool_value SEARCH_DOCS = ''search_docs''"
| "tool_value FETCH_DOCS = ''fetch_docs''"
| "tool_value VALIDATE_HARDWARE_CONFIG = ''validate_hardware_config''"
| "tool_value RUN_UNIT_TESTS = ''run_unit_tests''"
| "tool_value ANALYZE_FIRMWARE = ''analyze_firmware''"
| "tool_value OBSERVE_SERIAL = ''observe_serial''"
| "tool_value DECODE_CRASH = ''decode_crash''"
| "tool_value VERIFY_ACCEPTANCE = ''verify_acceptance''"

definition READ_ONLY_TOOLS :: "tool_name list" where
  "READ_ONLY_TOOLS = [LIST_FILES, GLOB_FILES, GREP_SEARCH, READ_FILE, UPDATE_PLAN, LOAD_SKILL, MEMORY_SEARCH, SPAWN_SUBAGENT,
     SESSION_EVENT_READ, SESSION_EVENT_SEARCH, SESSION_TRACE, VERIFY_REQUIREMENTS, PROJECT_DOCTOR, INSPECT_SYMBOLS,
     SEARCH_DOCS, FETCH_DOCS, VALIDATE_HARDWARE_CONFIG, RESOLVE_DEPENDENCY, ANALYZE_FIRMWARE, VERIFY_ACCEPTANCE]"

definition WRITE_TOOLS :: "tool_name list" where
  "WRITE_TOOLS = [WRITE_FILE, EDIT_FILE_SIMPLE, APPLY_PATCH, DELETE_FILE, MOVE_FILE]"

definition EXECUTION_TOOLS :: "tool_name list" where
  "EXECUTION_TOOLS = [BUILD_FIRMWARE, RUN_SIMULATION, RUN_COMMAND, RUN_UNIT_TESTS, OBSERVE_SERIAL, DECODE_CRASH]"

definition TOOL_WIRE_ALIASES :: "(string \<times> tool_name) list" where
  "TOOL_WIRE_ALIASES = [(''read'', READ_FILE), (''write'', WRITE_FILE), (''edit'', EDIT_FILE_SIMPLE), (''list'', LIST_FILES),
     (''glob'', GLOB_FILES), (''grep'', GREP_SEARCH), (''bash'', RUN_COMMAND), (''pwsh'', RUN_COMMAND),
     (''todo_write'', UPDATE_PLAN), (''skill'', LOAD_SKILL), (''memory_search'', MEMORY_SEARCH),
     (''subagent'', SPAWN_SUBAGENT), (''present'', PRESENT_FILES), (''session_event_read'', SESSION_EVENT_READ),
     (''session_event_search'', SESSION_EVENT_SEARCH), (''session_trace'', SESSION_TRACE), (''build'', BUILD_FIRMWARE),
     (''simulate'', RUN_SIMULATION)]"

definition TOOL_PROVIDER_NAMES :: "(tool_name \<times> string) list" where
  "TOOL_PROVIDER_NAMES = [(READ_FILE, ''read''), (WRITE_FILE, ''write''), (EDIT_FILE_SIMPLE, ''edit''), (LIST_FILES, ''list''),
     (GLOB_FILES, ''glob''), (GREP_SEARCH, ''grep''), (RUN_COMMAND, ''bash''), (UPDATE_PLAN, ''todo_write''),
     (LOAD_SKILL, ''skill''), (MEMORY_SEARCH, ''memory_search''), (SPAWN_SUBAGENT, ''subagent''),
     (PRESENT_FILES, ''present''), (SESSION_EVENT_READ, ''session_event_read''),
     (SESSION_EVENT_SEARCH, ''session_event_search''), (SESSION_TRACE, ''session_trace''), (BUILD_FIRMWARE, ''build''),
     (RUN_SIMULATION, ''simulate'')]"

text \<open>\<^verbatim>\<open>ToolName(value)\<close>, and the two directions of the wire names.\<close>

definition tool_of_value :: "string \<Rightarrow> tool_name option" where
  "tool_of_value v = List.find (\<lambda>t. tool_value t = v) all_tools"

definition parse_tool_name :: "string \<Rightarrow> tool_name option" where
  "parse_tool_name v = (case map_of TOOL_WIRE_ALIASES v of Some t \<Rightarrow> Some t | None \<Rightarrow> tool_of_value v)"

definition provider_tool_name :: "tool_name \<Rightarrow> string" where
  "provider_tool_name t = (case map_of TOOL_PROVIDER_NAMES t of Some n \<Rightarrow> n | None \<Rightarrow> tool_value t)"

lemma all_tools_all [simp]: "t \<in> set all_tools"
  by (cases t) (simp_all add: all_tools_def)

lemma parse_provider_name: "parse_tool_name (provider_tool_name t) = Some t"
proof -
  have "list_all (\<lambda>t. parse_tool_name (provider_tool_name t) = Some t) all_tools" by code_simp
  then show ?thesis unfolding list_all_iff by simp
qed

lemma parse_tool_value: "parse_tool_name (tool_value t) = Some t"
proof -
  have "list_all (\<lambda>t. parse_tool_name (tool_value t) = Some t) all_tools" by code_simp
  then show ?thesis unfolding list_all_iff by simp
qed

section \<open>Errors\<close>

datatype runtime_classification = PASS | PROVIDER_INVALID | MODEL_OUTPUT_INVALID | POLICY_DENIED | PATH_UNSAFE | FILE_NOT_FOUND
  | CONTENT_INVALID | EXTRA_CHANGES | NO_CHANGES | CHANGESET_CREATED | UNSAFE_ABORTED | UNKNOWN_SAFE_FAILURE | CANCELLED
  | MAX_TURNS | NO_PROGRESS | REQUIREMENTS_UNVERIFIED | LIMIT_EXCEEDED

text \<open>\<^verbatim>\<open>ToolPolicyError\<close>, \<^verbatim>\<open>ValueError\<close>, \<^verbatim>\<open>TypeError\<close>, \<^verbatim>\<open>PermissionError\<close>, \<^verbatim>\<open>KeyError\<close> and \<^verbatim>\<open>OSError\<close>.\<close>

datatype tool_error = Tool_denied runtime_classification string | Tool_value_error string | Tool_type_error
  | Tool_permission_error string | Tool_key_error string | Tool_os_error

abbreviation arguments_invalid :: tool_error where
  "arguments_invalid \<equiv> Tool_value_error ''product_tool_arguments_invalid''"

definition require :: "bool \<Rightarrow> tool_error \<Rightarrow> tool_error + unit" where
  "require b e = (if b then Inr () else Inl e)"

lemma require_iff [simp]: "require b e = Inr u \<longleftrightarrow> b" "require b e = Inl e' \<longleftrightarrow> \<not> b \<and> e' = e"
  by (auto simp: require_def)

fun each_ok :: "('a \<Rightarrow> tool_error + unit) \<Rightarrow> 'a list \<Rightarrow> tool_error + unit" where
  "each_ok f [] = Inr ()"
| "each_ok f (x # xs) = bind_result (f x) (\<lambda>_. each_ok f xs)"

lemma each_ok_iff: "each_ok f xs = Inr u \<longleftrightarrow> (\<forall>x \<in> set xs. f x = Inr ())"
  by (induction xs) (auto simp: sum_case_simps)

section \<open>JSON objects\<close>

definition dict_items :: "pyval \<Rightarrow> (string \<times> pyval) list" where
  "dict_items v = (case v of VDict kvs \<Rightarrow> kvs | _ \<Rightarrow> [])"

definition dict_at :: "pyval \<Rightarrow> string \<Rightarrow> pyval option" where
  "dict_at v k = dict_of (dict_items v) k"

definition dict_keys :: "pyval \<Rightarrow> string list" where
  "dict_keys v = map fst (dict_items v)"

definition same_keys :: "string list \<Rightarrow> string list \<Rightarrow> bool" where
  "same_keys xs ys = (set xs = set ys)"

definition is_mapping :: "pyval \<Rightarrow> bool" where
  "is_mapping v = (case v of VDict _ \<Rightarrow> True | _ \<Rightarrow> False)"

definition str_of :: "pyval \<Rightarrow> string option" where
  "str_of v = (case v of VStr s \<Rightarrow> Some s | _ \<Rightarrow> None)"

definition list_of :: "pyval \<Rightarrow> pyval list option" where
  "list_of v = (case v of VList vs \<Rightarrow> Some vs | _ \<Rightarrow> None)"

definition int_between :: "pyval option \<Rightarrow> int \<Rightarrow> int \<Rightarrow> bool" where
  "int_between v lo hi = (case v of Some (VInt n) \<Rightarrow> lo \<le> n \<and> n \<le> hi | _ \<Rightarrow> False)"

definition strs_in :: "string list \<Rightarrow> pyval list" where
  "strs_in xs = map VStr xs"

text \<open>Membership of a value in a set of strings: a list or a mapping cannot be hashed.\<close>

definition in_names :: "pyval \<Rightarrow> string list \<Rightarrow> tool_error + bool" where
  "in_names v names = (case v of VStr s \<Rightarrow> Inr (s \<in> set names) | VList _ \<Rightarrow> Inl Tool_type_error | VDict _ \<Rightarrow> Inl Tool_type_error
     | _ \<Rightarrow> Inr False)"

section \<open>Schemas and the host catalog\<close>

definition object_schema :: "(string \<times> pyval) list \<Rightarrow> string list \<Rightarrow> pyval" where
  "object_schema properties required = VDict [(''type'', VStr ''object''), (''additionalProperties'', VBool False),
     (''properties'', VDict properties), (''required'', VList (strs_in required))]"

definition string_schema :: "int \<Rightarrow> int \<Rightarrow> pyval" where
  "string_schema lo hi = VDict [(''type'', VStr ''string''), (''minLength'', VInt lo), (''maxLength'', VInt hi)]"

definition integer_schema :: "int \<Rightarrow> int \<Rightarrow> pyval" where
  "integer_schema lo hi = VDict [(''type'', VStr ''integer''), (''minimum'', VInt lo), (''maximum'', VInt hi)]"

definition enum_schema :: "string list \<Rightarrow> pyval" where
  "enum_schema names = VDict [(''enum'', VList (strs_in names))]"

definition array_schema :: "int \<Rightarrow> int \<Rightarrow> pyval \<Rightarrow> pyval" where
  "array_schema lo hi items = VDict [(''type'', VStr ''array''), (''minItems'', VInt lo), (''maxItems'', VInt hi), (''items'', items)]"

definition TEXT_SCHEMA :: pyval where
  "TEXT_SCHEMA = string_schema 1 1000"

definition ADDRESS_PATTERN :: string where
  "ADDRESS_PATTERN = ''^0x[0-9a-fA-F]{8}$''"

text \<open>A tool of the catalog, without its description.\<close>

record tool_definition =
  td_schema :: pyval
  td_handler :: string
  td_scheduler :: string
  td_recovery :: string
  td_timeout :: int

definition local_tool :: "pyval \<Rightarrow> tool_definition" where
  "local_tool s = \<lparr>td_schema = s, td_handler = ''local'', td_scheduler = ''read'', td_recovery = ''pure'', td_timeout = 15\<rparr>"

definition host_tool :: "pyval \<Rightarrow> tool_definition" where
  "host_tool s = (local_tool s)\<lparr>td_handler := ''host''\<rparr>"

definition NEW_TOOLS :: "(tool_name \<times> tool_definition) list" where
  "NEW_TOOLS = [
     (PROJECT_DOCTOR, local_tool (object_schema [] [])),
     (INSPECT_SYMBOLS, local_tool (object_schema [(''symbol'', TEXT_SCHEMA)] [''symbol''])),
     (RESOLVE_DEPENDENCY, host_tool (object_schema [(''query'', TEXT_SCHEMA)] [''query''])),
     (SEARCH_DOCS, local_tool (object_schema [(''query'', TEXT_SCHEMA)] [''query''])),
     (FETCH_DOCS, (local_tool (object_schema [(''url'', string_schema 1 2000)] [''url'']))\<lparr>td_timeout := 12\<rparr>),
     (VALIDATE_HARDWARE_CONFIG, local_tool (object_schema [] [])),
     (RUN_UNIT_TESTS, (host_tool (object_schema [(''environment'', TEXT_SCHEMA)] [''environment'']))
        \<lparr>td_scheduler := ''process'', td_recovery := ''non_idempotent'', td_timeout := 180\<rparr>),
     (ANALYZE_FIRMWARE, host_tool (object_schema [] [])),
     (OBSERVE_SERIAL, (host_tool (object_schema [(''duration_seconds'', integer_schema 1 15)] []))
        \<lparr>td_scheduler := ''device'', td_recovery := ''hardware_non_replayable'', td_timeout := 20\<rparr>),
     (DECODE_CRASH, (host_tool (object_schema [(''addresses'', array_schema 1 32
          (VDict [(''type'', VStr ''string''), (''pattern'', VStr ADDRESS_PATTERN)]))] [''addresses'']))\<lparr>td_scheduler := ''process''\<rparr>),
     (VERIFY_ACCEPTANCE, host_tool (object_schema [] []))]"

definition HOST_TOOLS :: "tool_name list" where
  "HOST_TOOLS = [MEMORY_SEARCH, SPAWN_SUBAGENT, BUILD_FIRMWARE, RUN_COMMAND, RUN_SIMULATION, SESSION_EVENT_READ,
     SESSION_EVENT_SEARCH, SESSION_TRACE, VERIFY_REQUIREMENTS] @ map fst (filter (\<lambda>(t, d). td_handler d = ''host'') NEW_TOOLS)"

definition is_hex :: "char \<Rightarrow> bool" where
  "is_hex c = (let n = of_char c :: nat in (48 \<le> n \<and> n \<le> 57) \<or> (65 \<le> n \<and> n \<le> 70) \<or> (97 \<le> n \<and> n \<le> 102))"

text \<open>\<^verbatim>\<open>re.fullmatch\<close> of the one pattern that the catalog uses.\<close>

definition pattern_matches :: "string \<Rightarrow> string \<Rightarrow> bool" where
  "pattern_matches pattern s = (pattern = ADDRESS_PATTERN \<and> length s = 10 \<and> starts_with s ''0x'' \<and> list_all is_hex (drop 2 s))"

definition spec_int :: "pyval \<Rightarrow> string \<Rightarrow> int \<Rightarrow> int" where
  "spec_int spec k alt = (case dict_at spec k of Some (VInt n) \<Rightarrow> n | _ \<Rightarrow> alt)"

definition spec_kind :: "pyval \<Rightarrow> string" where
  "spec_kind spec = (case dict_at spec ''type'' of Some (VStr k) \<Rightarrow> k | _ \<Rightarrow> [])"

definition spec_part :: "pyval \<Rightarrow> string \<Rightarrow> pyval" where
  "spec_part spec k = (case dict_at spec k of Some v \<Rightarrow> v | None \<Rightarrow> VNone)"

definition spec_names :: "pyval \<Rightarrow> string \<Rightarrow> string list" where
  "spec_names spec k = (case dict_at spec k of Some (VList vs) \<Rightarrow> concat (map (\<lambda>v. case v of VStr s \<Rightarrow> [s] | _ \<Rightarrow> []) vs) | _ \<Rightarrow> [])"

fun check_spec :: "pyval \<Rightarrow> pyval \<Rightarrow> bool" where
  "check_spec (VDict kvs) spec =
     (if spec_kind spec = ''object''
      then set (map fst kvs) \<subseteq> set (dict_keys (spec_part spec ''properties'')) \<and> set (spec_names spec ''required'') \<subseteq> set (map fst kvs)
        \<and> list_all (\<lambda>(k, item). check_spec item (spec_part (spec_part spec ''properties'') k)) kvs
      else spec_kind spec \<notin> {''string'', ''integer'', ''array''})"
| "check_spec (VList vs) spec =
     (if spec_kind spec = ''array''
      then spec_int spec ''minItems'' 0 \<le> int (length vs) \<and> int (length vs) \<le> spec_int spec ''maxItems'' 100
        \<and> list_all (\<lambda>item. check_spec item (spec_part spec ''items'')) vs
      else spec_kind spec \<notin> {''string'', ''integer'', ''object''})"
| "check_spec (VStr s) spec =
     (if spec_kind spec = ''string''
      then spec_int spec ''minLength'' 0 \<le> int (length s) \<and> int (length s) \<le> spec_int spec ''maxLength'' 10000
        \<and> (case dict_at spec ''pattern'' of Some (VStr p) \<Rightarrow> pattern_matches p s | _ \<Rightarrow> True)
      else spec_kind spec \<notin> {''array'', ''integer'', ''object''})"
| "check_spec (VInt n) spec =
     (if spec_kind spec = ''integer'' then spec_int spec ''minimum'' 0 \<le> n \<and> n \<le> spec_int spec ''maximum'' 1000000
      else spec_kind spec \<notin> {''string'', ''array'', ''object''})"
| "check_spec v spec = (spec_kind spec \<notin> {''string'', ''integer'', ''array'', ''object''})"

definition validate_new_arguments :: "tool_definition \<Rightarrow> (string \<times> pyval) list \<Rightarrow> tool_error + unit" where
  "validate_new_arguments d args = require (check_spec (VDict args) (td_schema d)) arguments_invalid"

section \<open>The schemas of the other tools\<close>

definition STRING :: pyval where
  "STRING = string_schema 1 4096"

definition PATH :: pyval where
  "PATH = string_schema 1 1024"

definition bounded_text :: "int \<Rightarrow> pyval" where
  "bounded_text hi = VDict [(''type'', VStr ''string''), (''maxLength'', VInt hi)]"

definition unique_array :: "int \<Rightarrow> pyval \<Rightarrow> pyval" where
  "unique_array hi items = VDict [(''type'', VStr ''array''), (''maxItems'', VInt hi), (''uniqueItems'', VBool True), (''items'', items)]"

definition number_schema :: "int \<Rightarrow> int \<Rightarrow> pyval" where
  "number_schema lo hi = VDict [(''type'', VStr ''number''), (''minimum'', VInt lo), (''maximum'', VInt hi)]"

definition REFERENCE_SCHEMA :: pyval where
  "REFERENCE_SCHEMA = VDict [(''type'', VStr ''array''), (''maxItems'', VInt 8), (''items'', VDict [(''anyOf'', VList [
     object_schema [(''path'', PATH), (''quote'', STRING)] [''path'', ''quote''],
     object_schema [(''path'', PATH), (''start_line'', integer_schema 1 10000000), (''end_line'', integer_schema 1 10000000)]
       [''path'', ''start_line'', ''end_line'']])])]"

definition CHECK_SCHEMA :: pyval where
  "CHECK_SCHEMA = object_schema [(''id'', STRING), (''status'', enum_schema [''implemented'', ''unmet'']), (''evidence'', REFERENCE_SCHEMA)]
     [''id'', ''status'', ''evidence'']"

definition STEP_STATUSES :: "string list" where
  "STEP_STATUSES = [''pending'', ''in_progress'', ''completed'', ''failed'', ''skipped'', ''cancelled'']"

definition STEP_VERIFICATIONS :: "string list" where
  "STEP_VERIFICATIONS = [''inspection'', ''edit'', ''build'', ''simulation'']"

definition STEP_SCHEMA :: pyval where
  "STEP_SCHEMA = object_schema [(''text'', string_schema 1 300), (''status'', enum_schema STEP_STATUSES),
     (''verification'', enum_schema STEP_VERIFICATIONS),
     (''key'', VDict [(''type'', VStr ''string''), (''pattern'', VStr ''^[A-Za-z0-9_-]{1,64}$'')]),
     (''paths'', unique_array 64 PATH), (''requirement_ids'', unique_array 64 (string_schema 1 128)),
     (''depends_on'', unique_array 32 (string_schema 1 64))] [''text'', ''status'']"

fun old_tool_schema :: "tool_name \<Rightarrow> ((string \<times> pyval) list \<times> string list) option" where
  "old_tool_schema VERIFY_REQUIREMENTS = Some ([(''checks'', array_schema 1 256 CHECK_SCHEMA)], [''checks''])"
| "old_tool_schema LIST_FILES = Some ([(''path'', PATH)], [])"
| "old_tool_schema GLOB_FILES = Some ([(''pattern'', STRING), (''path'', PATH)], [''pattern''])"
| "old_tool_schema GREP_SEARCH = Some ([(''query'', STRING), (''path'', PATH), (''max_results'', integer_schema 1 200)], [''query''])"
| "old_tool_schema READ_FILE = Some ([(''path'', PATH), (''offset'', integer_schema 1 10000000), (''limit'', integer_schema 1 2000)], [''path''])"
| "old_tool_schema WRITE_FILE = Some ([(''path'', PATH), (''content'', bounded_text 65536)], [''path'', ''content''])"
| "old_tool_schema EDIT_FILE_SIMPLE = Some ([(''path'', PATH), (''old_text'', string_schema 1 65536), (''new_text'', bounded_text 65536)],
     [''path'', ''old_text'', ''new_text''])"
| "old_tool_schema APPLY_PATCH = Some ([(''path'', PATH), (''patch'', string_schema 1 65536)], [''path'', ''patch''])"
| "old_tool_schema DELETE_FILE = Some ([(''path'', PATH)], [''path''])"
| "old_tool_schema MOVE_FILE = Some ([(''path'', PATH), (''destination'', PATH)], [''path'', ''destination''])"
| "old_tool_schema UPDATE_PLAN = Some ([(''steps'', array_schema 1 32 STEP_SCHEMA)], [''steps''])"
| "old_tool_schema LOAD_SKILL = Some ([(''name'', string_schema 1 128)], [''name''])"
| "old_tool_schema MEMORY_SEARCH = Some ([(''query'', STRING), (''limit'', integer_schema 1 20)], [''query''])"
| "old_tool_schema SPAWN_SUBAGENT = Some ([(''role'', enum_schema [''explore'', ''review'', ''verify'']), (''task'', string_schema 1 4000)],
     [''role'', ''task''])"
| "old_tool_schema PRESENT_FILES = Some ([(''files'', array_schema 1 32 (object_schema [(''path'', PATH), (''description'', bounded_text 300)]
     [''path'']))], [''files''])"
| "old_tool_schema SESSION_EVENT_READ = Some ([(''after_sequence'', VDict [(''type'', VStr ''integer''), (''minimum'', VInt 0)]),
     (''limit'', integer_schema 1 100)], [])"
| "old_tool_schema SESSION_EVENT_SEARCH = Some ([(''query'', string_schema 1 300), (''limit'', integer_schema 1 50)], [''query''])"
| "old_tool_schema SESSION_TRACE = Some ([(''limit'', integer_schema 1 100)], [])"
| "old_tool_schema BUILD_FIRMWARE = Some ([(''environment'', STRING)], [])"
| "old_tool_schema RUN_SIMULATION = Some ([(''timeout_seconds'', number_schema 1 120)], [])"
| "old_tool_schema RUN_COMMAND = Some ([(''argv'', array_schema 1 32 (string_schema 1 512)), (''timeout_seconds'', number_schema 1 180)], [''argv''])"
| "old_tool_schema _ = None"

definition tool_arguments_json_schema :: "tool_name \<Rightarrow> pyval" where
  "tool_arguments_json_schema t = (case map_of NEW_TOOLS t of Some d \<Rightarrow> td_schema d
     | None \<Rightarrow> (case old_tool_schema t of Some (properties, required) \<Rightarrow> object_schema properties required | None \<Rightarrow> VNone))"

end
