(* ===== verification/Tool_Plans.thy ===== *)
theory Tool_Plans
  imports Tool_Contracts Change_Paths "HOL-Library.Code_Target_Nat"
begin

text \<open>
  Parsing of tool plans: the requirement arguments of \<^verbatim>\<open>requirement_arguments.py\<close>, the plan steps of
  \<^verbatim>\<open>generation_controller.py\<close> with their dependency check, and the calls and plans of \<^verbatim>\<open>tool_contracts.py\<close>.
  \<^verbatim>\<open>hashlib.sha256(..).hexdigest()\<close> and \<^verbatim>\<open>json.loads\<close> (which gives nothing for a text it
  rejects, also for one with a repeated key or a constant such as \<^verbatim>\<open>NaN\<close>) are arguments.
\<close>

section \<open>Requirement arguments\<close>

text \<open>\<^verbatim>\<open>{**d, k: v}\<close>\<close>

definition dict_put :: "string \<Rightarrow> pyval \<Rightarrow> (string \<times> pyval) list \<Rightarrow> (string \<times> pyval) list" where
  "dict_put k v kvs = (if k \<in> fst ` set kvs then map (\<lambda>(j, w). (j, if j = k then v else w)) kvs else kvs @ [(k, v)])"

text \<open>The spans of at most eighty lines that cover the lines from \<open>a\<close> to \<open>b\<close>.\<close>

function line_spans :: "int \<Rightarrow> int \<Rightarrow> (int \<times> int) list" where
  "line_spans a b = (if b < a then [] else (a, min (a + 79) b) # line_spans (a + 80) b)"
  by pat_completeness auto
termination
  by (relation "measure (\<lambda>(a, b). nat (b + 1 - a))") auto

declare line_spans.simps [simp del]

definition span_of :: "pyval \<Rightarrow> (pyval \<times> int \<times> int) option" where
  "span_of r = (if is_mapping r \<and> same_keys (dict_keys r) [''path'', ''start_line'', ''end_line'']
     then (case (dict_at r ''path'', dict_at r ''start_line'', dict_at r ''end_line'') of
        (Some p, Some (VInt a), Some (VInt b)) \<Rightarrow> Some (p, a, b) | _ \<Rightarrow> None)
     else None)"

definition reference_of :: "pyval \<Rightarrow> int \<times> int \<Rightarrow> pyval" where
  "reference_of p ab = VDict [(''path'', p), (''start_line'', VInt (fst ab)), (''end_line'', VInt (snd ab))]"

definition split_reference :: "pyval \<Rightarrow> pyval list" where
  "split_reference r = (case span_of r of
     Some (p, a, b) \<Rightarrow> if 1 \<le> a \<and> a \<le> b \<and> b \<le> 10000000 \<and> 80 < b - a + 1 \<and> b - a + 1 \<le> 640
        then map (reference_of p) (line_spans a b) else [r]
   | None \<Rightarrow> [r])"

definition split_check :: "pyval \<Rightarrow> pyval" where
  "split_check c = (case (c, dict_at c ''evidence'') of
     (VDict kvs, Some (VList refs)) \<Rightarrow>
        (let evidence = concat (map split_reference refs) in
         if length evidence \<le> 8 then VDict (dict_put ''evidence'' (VList evidence) kvs) else c)
   | _ \<Rightarrow> c)"

definition split_requirement_spans :: "pyval \<Rightarrow> pyval" where
  "split_requirement_spans checks = (case checks of
     VList cs \<Rightarrow> if 1 \<le> length cs \<and> length cs \<le> 256 then VList (map split_check cs) else checks
   | _ \<Rightarrow> checks)"

definition text_between :: "pyval option \<Rightarrow> nat \<Rightarrow> nat \<Rightarrow> bool" where
  "text_between v lo hi = (case v of Some (VStr s) \<Rightarrow> lo \<le> length s \<and> length s \<le> hi | _ \<Rightarrow> False)"

definition reference_ok :: "pyval \<Rightarrow> bool" where
  "reference_ok r = (is_mapping r \<and> text_between (dict_at r ''path'') 1 1024
     \<and> (if same_keys (dict_keys r) [''path'', ''quote''] then text_between (dict_at r ''quote'') 1 4096
        else case span_of r of Some (p, a, b) \<Rightarrow> 1 \<le> a \<and> a \<le> b \<and> b \<le> 10000000 \<and> b - a < 80 | None \<Rightarrow> False))"

definition requirement_check_ok :: "pyval \<Rightarrow> bool" where
  "requirement_check_ok c = (is_mapping c \<and> same_keys (dict_keys c) [''id'', ''status'', ''evidence'']
     \<and> text_between (dict_at c ''id'') 1 4096
     \<and> (case dict_at c ''status'' of Some (VStr s) \<Rightarrow> s \<in> {''implemented'', ''unmet''} | _ \<Rightarrow> False)
     \<and> (case dict_at c ''evidence'' of Some (VList refs) \<Rightarrow> length refs \<le> 8 \<and> list_all reference_ok refs | _ \<Rightarrow> False))"

definition validate_requirement_checks :: "pyval \<Rightarrow> tool_error + unit" where
  "validate_requirement_checks checks = require (case checks of
     VList cs \<Rightarrow> 1 \<le> length cs \<and> length cs \<le> 256 \<and> list_all requirement_check_ok cs | _ \<Rightarrow> False) arguments_invalid"

section \<open>Plan steps\<close>

definition is_key_char :: "char \<Rightarrow> bool" where
  "is_key_char c = (let n = of_char c :: nat in
     (48 \<le> n \<and> n \<le> 57) \<or> (65 \<le> n \<and> n \<le> 90) \<or> (97 \<le> n \<and> n \<le> 122) \<or> c = CHR ''_'' \<or> c = CHR ''-'')"

definition step_key :: "(string \<Rightarrow> string) \<Rightarrow> pyval \<Rightarrow> pyval" where
  "step_key sha step = (case dict_at step ''key'' of Some k \<Rightarrow> k
     | None \<Rightarrow> VStr (case dict_at step ''text'' of Some (VStr t) \<Rightarrow> take 16 (sha t) | _ \<Rightarrow> []))"

definition key_ok :: "pyval \<Rightarrow> string list \<Rightarrow> bool" where
  "key_ok k keys = (case k of VStr s \<Rightarrow> 1 \<le> length s \<and> length s \<le> 64 \<and> list_all is_key_char s \<and> s \<notin> set keys | _ \<Rightarrow> False)"

text \<open>A list of distinct non-empty texts under a key of the step, none if the key is absent.\<close>

definition step_texts :: "pyval \<Rightarrow> string \<Rightarrow> nat \<Rightarrow> string list option" where
  "step_texts step k limit = (case dict_at step k of
     None \<Rightarrow> Some []
   | Some (VList vs) \<Rightarrow> if length vs \<le> limit \<and> list_all (\<lambda>v. text_between (Some v) 1 512) vs \<and> distinct (map str_of vs)
        then Some (map (\<lambda>v. case v of VStr s \<Rightarrow> s | _ \<Rightarrow> []) vs) else None
   | Some _ \<Rightarrow> None)"

definition plan_path_unsafe :: "string \<Rightarrow> bool" where
  "plan_path_unsafe p = (starts_with p ''/'' \<or> list_ex (\<lambda>part. starts_with part ''.'') (split_on slash_char p)
     \<or> backslash_char \<in> set p \<or> CHR '':'' \<in> set p \<or> nul_char \<in> set p \<or> contains_sub p ''//'')"

definition step_head_ok :: "pyval \<Rightarrow> tool_error + unit" where
  "step_head_ok raw = (if \<not> is_mapping raw
        \<or> \<not> set (dict_keys raw) \<subseteq> set [''text'', ''status'', ''verification'', ''key'', ''paths'', ''requirement_ids'', ''depends_on'']
        \<or> \<not> (case dict_at raw ''text'' of Some (VStr t) \<Rightarrow> 1 \<le> length (py_strip t) \<and> length (py_strip t) \<le> 300 | _ \<Rightarrow> False)
     then Inl (Tool_value_error ''PLAN_STEP_INVALID'')
     else bind_result (in_names (case dict_at raw ''status'' of Some v \<Rightarrow> v | None \<Rightarrow> VNone) STEP_STATUSES)
       (\<lambda>b. require b (Tool_value_error ''PLAN_STEP_INVALID'')))"

definition plan_step :: "(string \<Rightarrow> string) \<Rightarrow> string list option \<Rightarrow> string list \<Rightarrow> pyval \<Rightarrow> tool_error + string \<times> string list" where
  "plan_step sha requirement_ids keys raw =
     bind_result (step_head_ok raw) (\<lambda>_.
     if \<not> key_ok (step_key sha raw) keys then Inl (Tool_value_error ''PLAN_STEP_KEY_INVALID'')
     else bind_result (case dict_at raw ''verification'' of None \<Rightarrow> Inr True | Some v \<Rightarrow> in_names v STEP_VERIFICATIONS) (\<lambda>b.
     if \<not> b then Inl (Tool_value_error ''PLAN_VERIFICATION_INVALID'')
     else case (step_texts raw ''paths'' 64, step_texts raw ''requirement_ids'' 64, step_texts raw ''depends_on'' 32) of
       (Some paths, Some ids, Some deps) \<Rightarrow>
         if list_ex plan_path_unsafe paths then Inl (Tool_value_error ''PLAN_PATH_UNSAFE'')
         else if (case requirement_ids of None \<Rightarrow> False | Some known \<Rightarrow> \<not> set ids \<subseteq> set known)
         then Inl (Tool_value_error ''PLAN_REQUIREMENT_UNKNOWN'')
         else Inr ((case step_key sha raw of VStr k \<Rightarrow> k | _ \<Rightarrow> []), deps)
     | _ \<Rightarrow> Inl (Tool_value_error ''PLAN_REFERENCES_INVALID'')))"

fun plan_steps :: "(string \<Rightarrow> string) \<Rightarrow> string list option \<Rightarrow> string list \<Rightarrow> pyval list \<Rightarrow> tool_error + (string \<times> string list) list" where
  "plan_steps sha ids keys [] = Inr []"
| "plan_steps sha ids keys (raw # steps) = bind_result (plan_step sha ids keys raw) (\<lambda>(k, deps).
     bind_result (plan_steps sha ids (keys @ [k]) steps) (\<lambda>graph. Inr ((k, deps) # graph)))"

text \<open>The depth-first search of the dependencies: \<open>visiting\<close> is the path to the node, \<open>visited\<close> what is finished.\<close>

function visit_all :: "(string \<times> string list) list \<Rightarrow> string list \<Rightarrow> string list \<Rightarrow> string list \<Rightarrow> tool_error + string list" where
  "visit_all graph visiting visited [] = Inr visited"
| "visit_all graph visiting visited (k # ks) =
     (if k \<in> set visiting then Inl (Tool_value_error ''PLAN_DEPENDENCY_CYCLE'')
      else case map_of graph k of
        None \<Rightarrow> Inl (Tool_value_error ''PLAN_DEPENDENCY_UNKNOWN'')
      | Some deps \<Rightarrow> if k \<in> set visited then visit_all graph visiting visited ks
          else bind_result (visit_all graph (k # visiting) visited deps) (\<lambda>visited'. visit_all graph visiting (k # visited') ks))"
  by pat_completeness auto
termination
proof (relation "measures [\<lambda>(graph, visiting, visited, ks). card (fst ` set graph - set visiting), \<lambda>(graph, visiting, visited, ks). length ks]")
  fix graph :: "(string \<times> string list) list" and visiting visited ks deps :: "string list" and k :: string
  assume a: "k \<notin> set visiting" "map_of graph k = Some deps"
  then have "k \<in> fst ` set graph" by (force dest: map_of_SomeD)
  then have "card (fst ` set graph - set (k # visiting)) < card (fst ` set graph - set visiting)"
    using a by (intro psubset_card_mono) auto
  then show "((graph, k # visiting, visited, deps), (graph, visiting, visited, k # ks))
      \<in> measures [\<lambda>(graph, visiting, visited, ks). card (fst ` set graph - set visiting), \<lambda>(graph, visiting, visited, ks). length ks]"
    by simp
qed auto

text \<open>The steps of a plan are returned as they are.\<close>

definition validate_plan_steps :: "(string \<Rightarrow> string) \<Rightarrow> string list option \<Rightarrow> pyval \<Rightarrow> tool_error + pyval list" where
  "validate_plan_steps sha requirement_ids steps = (case steps of
     VList raws \<Rightarrow>
       if length raws < 1 \<or> 32 < length raws then Inl (Tool_value_error ''PLAN_STEPS_INVALID'')
       else bind_result (plan_steps sha requirement_ids [] raws) (\<lambda>graph.
         bind_result (visit_all graph [] [] (map fst graph)) (\<lambda>_. Inr raws))
   | _ \<Rightarrow> Inl (Tool_value_error ''PLAN_STEPS_INVALID''))"

section \<open>The dependency check accepts exactly the acyclic plans\<close>

definition depends_on :: "(string \<times> string list) list \<Rightarrow> (string \<times> string) set" where
  "depends_on graph = {(k, d). \<exists>deps. map_of graph k = Some deps \<and> d \<in> set deps}"

definition finished :: "(string \<times> string list) list \<Rightarrow> string set \<Rightarrow> bool" where
  "finished graph V \<longleftrightarrow> V \<subseteq> dom (map_of graph) \<and> depends_on graph `` V \<subseteq> V \<and> acyclic (depends_on graph \<inter> V \<times> V)"

lemma acyclic_new_node:
  assumes "acyclic (R \<inter> V \<times> V)" "R `` V \<subseteq> V" "R `` {k} \<subseteq> V" "k \<notin> V"
  shows "acyclic (R \<inter> insert k V \<times> insert k V)"
proof -
  let ?S = "R \<inter> insert k V \<times> insert k V"
  have step: "y \<in> V" if "(x, y) \<in> ?S" for x y
    using that assms(2-4) by blast
  have stay: "(x, y) \<in> (R \<inter> V \<times> V)\<^sup>+" if "(x, y) \<in> ?S\<^sup>+" "x \<in> V" for x y
    using that
  proof (induction rule: trancl_induct)
    case (base y)
    then show ?case using assms(2) by blast
  next
    case (step y z)
    then have "(x, y) \<in> (R \<inter> V \<times> V)\<^sup>+" by blast
    moreover from this have "y \<in> V" by (auto dest: tranclD2)
    ultimately show ?case using step(2) assms(2) by (meson IntI ImageI SigmaI IntD1 subsetD trancl.trancl_into_trancl)
  qed
  have "(x, x) \<notin> ?S\<^sup>+" for x
  proof
    assume x: "(x, x) \<in> ?S\<^sup>+"
    then have "x \<in> V" using step by (metis tranclD2)
    then show False using stay[OF x] assms(1) by (auto simp: acyclic_def)
  qed
  then show ?thesis by (simp add: acyclic_def)
qed

lemma visit_all_finished:
  assumes "visit_all graph visiting visited ks = Inr done" "finished graph (set visited)" "set visited \<inter> set visiting = {}"
  shows "finished graph (set done) \<and> set visited \<union> set ks \<subseteq> set done \<and> set done \<inter> set visiting = {}"
  using assms
proof (induction graph visiting visited ks arbitrary: "done" rule: visit_all.induct)
  case (2 graph visiting visited k ks)
  obtain deps where k: "k \<notin> set visiting" "map_of graph k = Some deps"
    using 2(4) by (auto split: if_splits option.splits)
  show ?case
  proof (cases "k \<in> set visited")
    case True
    then show ?thesis using 2(1)[OF k True, of "done"] 2(4-6) k by auto
  next
    case False
    then obtain visited' where v: "visit_all graph (k # visiting) visited deps = Inr visited'"
        "visit_all graph visiting (k # visited') ks = Inr done"
      using 2(4) k by (auto simp: sum_case_simps)
    have f: "finished graph (set visited')" "set visited \<union> set deps \<subseteq> set visited'" "set visited' \<inter> set (k # visiting) = {}"
      using 2(2)[OF k False v(1) 2(5)] 2(6) False by auto
    have "finished graph (set (k # visited'))"
    proof -
      have "depends_on graph `` {k} \<subseteq> set visited'" using k(2) f(2) by (auto simp: depends_on_def)
      then show ?thesis
        using f(1,3) k(2) acyclic_new_node[of "depends_on graph" "set visited'" k] by (auto simp: finished_def)
    qed
    then show ?thesis using 2(3)[OF k False v(2)] f k(1) by auto
  qed
qed simp

lemma visit_all_accepts:
  assumes "acyclic (depends_on graph)" "depends_on graph `` UNIV \<subseteq> dom (map_of graph)" "set ks \<subseteq> dom (map_of graph)"
    and "\<And>v k. v \<in> set visiting \<Longrightarrow> k \<in> set ks \<Longrightarrow> (v, k) \<in> (depends_on graph)\<^sup>+"
  shows "\<exists>done. visit_all graph visiting visited ks = Inr done"
  using assms
proof (induction graph visiting visited ks rule: visit_all.induct)
  case (2 graph visiting visited k ks)
  have k: "k \<notin> set visiting" using 2(4,7) by (auto simp: acyclic_def)
  obtain deps where deps: "map_of graph k = Some deps" using 2(6) by auto
  show ?case
  proof (cases "k \<in> set visited")
    case True
    then show ?thesis using 2(1)[OF k deps True 2(4,5)] 2(6,7) k deps by auto
  next
    case False
    have dep: "(k, d) \<in> depends_on graph" if "d \<in> set deps" for d
      using that deps by (auto simp: depends_on_def)
    have "\<exists>done. visit_all graph (k # visiting) visited deps = Inr done"
    proof (rule 2(2)[OF k deps False 2(4,5)])
      show "set deps \<subseteq> dom (map_of graph)" using dep 2(5) by blast
      show "(v, d) \<in> (depends_on graph)\<^sup>+" if "v \<in> set (k # visiting)" "d \<in> set deps" for v d
        using that dep 2(7)[of v k] by (auto intro: trancl.trancl_into_trancl)
    qed
    then obtain visited' where v: "visit_all graph (k # visiting) visited deps = Inr visited'" by blast
    then show ?thesis using 2(3)[OF k deps False 2(4,5)] 2(6,7) k deps False by auto
  qed
qed simp

text \<open>C27. The dependency check of a plan terminates and accepts exactly the plans that can be carried out: it reports no error if and
  only if every step that is depended on exists and no step depends on itself, directly or through others.\<close>
theorem plan_check_exact:
  "(\<exists>done. visit_all graph [] [] (map fst graph) = Inr done)
     \<longleftrightarrow> depends_on graph `` UNIV \<subseteq> fst ` set graph \<and> acyclic (depends_on graph)"
proof
  have dom: "dom (map_of graph) = fst ` set graph" by (rule dom_map_of_conv_image_fst)
  assume "\<exists>done. visit_all graph [] [] (map fst graph) = Inr done"
  then obtain "done" where "visit_all graph [] [] (map fst graph) = Inr done" by blast
  then have f: "finished graph (set done)" "fst ` set graph \<subseteq> set done"
    using visit_all_finished[of graph "[]" "[]" "map fst graph" "done"] by (auto simp: finished_def acyclic_def)
  have sub: "depends_on graph \<subseteq> set done \<times> set done"
  proof
    fix x assume x: "x \<in> depends_on graph"
    then have "fst x \<in> dom (map_of graph)" by (auto simp: depends_on_def)
    then have "fst x \<in> set done" using f(2) dom by blast
    then show "x \<in> set done \<times> set done" using x f(1) by (cases x) (auto simp: finished_def)
  qed
  then have "acyclic (depends_on graph)" using f(1) by (auto simp: finished_def Int_absorb2)
  then show "depends_on graph `` UNIV \<subseteq> fst ` set graph \<and> acyclic (depends_on graph)"
    using sub f(1) unfolding finished_def dom by blast
next
  assume "depends_on graph `` UNIV \<subseteq> fst ` set graph \<and> acyclic (depends_on graph)"
  then show "\<exists>done. visit_all graph [] [] (map fst graph) = Inr done"
    by (intro visit_all_accepts) (auto simp: dom_map_of_conv_image_fst)
qed

section \<open>Calls\<close>

record tool_env =
  te_sha :: "string \<Rightarrow> string"
  te_json :: "string \<Rightarrow> pyval option"
  te_strict_json :: "string \<Rightarrow> pyval option"

record tool_call =
  tc_tool :: tool_name
  tc_args :: "(string \<times> pyval) list"

definition parse_tool_call :: "pyval \<Rightarrow> tool_error + tool_call" where
  "parse_tool_call value =
     (if \<not> is_mapping value \<or> \<not> same_keys (dict_keys value) [''tool'', ''arguments''] then Inl (Tool_value_error ''provider_tool_call_invalid'')
      else case (dict_at value ''tool'', dict_at value ''arguments'') of
        (Some (VStr raw), Some (VDict args)) \<Rightarrow> (case parse_tool_name raw of
            None \<Rightarrow> Inl (Tool_value_error ''provider_tool_unknown'') | Some t \<Rightarrow> Inr \<lparr>tc_tool = t, tc_args = args\<rparr>)
      | _ \<Rightarrow> Inl (Tool_value_error ''provider_tool_call_invalid''))"

fun results :: "('a \<Rightarrow> tool_error + 'b) \<Rightarrow> 'a list \<Rightarrow> tool_error + 'b list" where
  "results f [] = Inr []"
| "results f (x # xs) = bind_result (f x) (\<lambda>y. bind_result (results f xs) (\<lambda>ys. Inr (y # ys)))"

definition parse_tool_plan :: "nat \<Rightarrow> pyval \<Rightarrow> tool_error + tool_call list" where
  "parse_tool_plan max_calls value = (case value of
     VList vs \<Rightarrow> if vs = [] \<or> max_calls < length vs then Inl (Tool_value_error ''provider_plan_invalid'') else results parse_tool_call vs
   | _ \<Rightarrow> Inl (Tool_value_error ''provider_plan_invalid''))"

definition parse_api_payload :: "nat \<Rightarrow> pyval \<Rightarrow> tool_error + tool_call list" where
  "parse_api_payload max_calls value =
     (if \<not> is_mapping value \<or> \<not> same_keys (dict_keys value) [''tool_calls''] then Inl (Tool_value_error ''provider_plan_schema_invalid'')
      else parse_tool_plan max_calls (spec_part value ''tool_calls''))"

text \<open>One JSON layer is decoded, only for arguments that the schema declares as an array or an object.\<close>

definition normalize_argument :: "tool_env \<Rightarrow> pyval \<Rightarrow> string \<times> pyval \<Rightarrow> tool_error + string \<times> pyval" where
  "normalize_argument te properties = (\<lambda>(k, v).
     let expected = spec_kind (spec_part properties k) in
     case v of
       VStr s \<Rightarrow> if expected \<noteq> ''array'' \<and> expected \<noteq> ''object'' then Inr (k, v)
         else if 524288 < length s then Inl arguments_invalid
         else (case te_strict_json te s of
           None \<Rightarrow> Inl arguments_invalid
         | Some d \<Rightarrow> if (if expected = ''array'' then list_of d \<noteq> None else is_mapping d) then Inr (k, d) else Inl arguments_invalid)
     | _ \<Rightarrow> Inr (k, v))"

definition normalize_structured_arguments :: "tool_env \<Rightarrow> tool_name \<Rightarrow> (string \<times> pyval) list \<Rightarrow> tool_error + (string \<times> pyval) list" where
  "normalize_structured_arguments te t args =
     results (normalize_argument te (spec_part (tool_arguments_json_schema t) ''properties'')) args"

definition required_arguments :: "tool_name \<Rightarrow> string list" where
  "required_arguments t = (case t of
      VERIFY_REQUIREMENTS \<Rightarrow> [''checks''] | GLOB_FILES \<Rightarrow> [''pattern''] | GREP_SEARCH \<Rightarrow> [''query''] | READ_FILE \<Rightarrow> [''path'']
    | WRITE_FILE \<Rightarrow> [''path'', ''content''] | EDIT_FILE_SIMPLE \<Rightarrow> [''path'', ''old_text'', ''new_text'']
    | APPLY_PATCH \<Rightarrow> [''path'', ''patch''] | DELETE_FILE \<Rightarrow> [''path''] | MOVE_FILE \<Rightarrow> [''path'', ''destination'']
    | UPDATE_PLAN \<Rightarrow> [''steps''] | LOAD_SKILL \<Rightarrow> [''name''] | MEMORY_SEARCH \<Rightarrow> [''query''] | SPAWN_SUBAGENT \<Rightarrow> [''role'', ''task'']
    | PRESENT_FILES \<Rightarrow> [''files''] | SESSION_EVENT_SEARCH \<Rightarrow> [''query''] | RUN_COMMAND \<Rightarrow> [''argv''] | _ \<Rightarrow> [])"

definition present_file_ok :: "pyval \<Rightarrow> bool" where
  "present_file_ok item = (is_mapping item \<and> set (dict_keys item) \<subseteq> {''path'', ''description''}
     \<and> (case dict_at item ''path'' of Some (VStr p) \<Rightarrow> py_strip p \<noteq> [] | _ \<Rightarrow> False)
     \<and> (case dict_at item ''description'' of None \<Rightarrow> True | Some d \<Rightarrow> str_of d \<noteq> None))"

definition special_arguments_ok :: "tool_env \<Rightarrow> tool_name \<Rightarrow> pyval \<Rightarrow> tool_error + unit" where
  "special_arguments_ok te t args = (case t of
      EDIT_FILE_SIMPLE \<Rightarrow> require (dict_at args ''old_text'' \<noteq> Some (VStr [])) arguments_invalid
    | APPLY_PATCH \<Rightarrow> require (case dict_at args ''patch'' of Some (VStr p) \<Rightarrow> py_strip p \<noteq> [] | _ \<Rightarrow> False) arguments_invalid
    | RUN_COMMAND \<Rightarrow> require (case dict_at args ''argv'' of
          Some (VList vs) \<Rightarrow> vs \<noteq> [] \<and> list_all (\<lambda>v. case v of VStr s \<Rightarrow> s \<noteq> [] | _ \<Rightarrow> False) vs | _ \<Rightarrow> False) arguments_invalid
    | UPDATE_PLAN \<Rightarrow> (case validate_plan_steps (te_sha te) None (spec_part args ''steps'') of
          Inr _ \<Rightarrow> Inr () | Inl (Tool_value_error _) \<Rightarrow> Inl arguments_invalid | Inl e \<Rightarrow> Inl e)
    | VERIFY_REQUIREMENTS \<Rightarrow> validate_requirement_checks (spec_part args ''checks'')
    | PRESENT_FILES \<Rightarrow> require (case dict_at args ''files'' of
          Some (VList vs) \<Rightarrow> 1 \<le> length vs \<and> length vs \<le> 32 \<and> list_all present_file_ok vs | _ \<Rightarrow> False) arguments_invalid
    | _ \<Rightarrow> Inr ())"

definition validate_product_tool_arguments :: "tool_env \<Rightarrow> tool_name \<Rightarrow> (string \<times> pyval) list \<Rightarrow> tool_error + unit" where
  "validate_product_tool_arguments te t args = (case map_of NEW_TOOLS t of
     Some d \<Rightarrow> validate_new_arguments d args
   | None \<Rightarrow>
      (let keys = map fst args; allowed = dict_keys (spec_part (tool_arguments_json_schema t) ''properties'') in
       bind_result (require (set (required_arguments t) \<subseteq> set keys \<and> set keys \<subseteq> set allowed) arguments_invalid) (\<lambda>_.
       bind_result (require (list_all (\<lambda>k. case dict_of args k of None \<Rightarrow> True | Some (VStr s) \<Rightarrow> py_strip s \<noteq> [] | Some _ \<Rightarrow> False)
           [''path'', ''destination'', ''pattern'', ''query'', ''name'', ''environment'', ''role'', ''task'']) arguments_invalid) (\<lambda>_.
       bind_result (require (list_all (\<lambda>k. case dict_of args k of None \<Rightarrow> True | Some v \<Rightarrow> str_of v \<noteq> None)
           [''content'', ''old_text'', ''new_text'', ''patch'']) arguments_invalid) (\<lambda>_.
       special_arguments_ok te t (VDict args))))))"

record product_call =
  pc_id :: string
  pc_type :: string
  pc_args :: "(string \<times> pyval) list"

definition validated_call :: "tool_env \<Rightarrow> string \<Rightarrow> string \<Rightarrow> (string \<times> pyval) list \<Rightarrow> tool_error + product_call" where
  "validated_call te call_id tool_type args =
     (if call_id = [] \<or> 128 < length call_id \<or> tool_type = [] \<or> 64 < length tool_type
      then Inl (Tool_value_error ''product_tool_call_schema_invalid'')
      else case parse_tool_name tool_type of
        None \<Rightarrow> Inl (Tool_value_error ''product_tool_not_available'')
      | Some t \<Rightarrow> bind_result (normalize_structured_arguments te t args) (\<lambda>decoded.
          let plain = (if t = VERIFY_REQUIREMENTS
              then dict_put ''checks'' (split_requirement_spans (spec_part (VDict decoded) ''checks'')) decoded else decoded) in
          bind_result (validate_product_tool_arguments te t plain) (\<lambda>_.
            Inr \<lparr>pc_id = call_id, pc_type = tool_value t, pc_args = plain\<rparr>)))"

definition parse_product_call :: "tool_env \<Rightarrow> pyval \<Rightarrow> tool_error + product_call" where
  "parse_product_call te value =
     (if \<not> is_mapping value then Inl (Tool_value_error ''product_tool_call_schema_invalid'')
      else if same_keys (dict_keys value) [''id'', ''type'', ''path'', ''content'']
      then (case (dict_at value ''id'', dict_at value ''type'', dict_at value ''path'', dict_at value ''content'') of
          (Some (VStr i), Some (VStr ty), Some (VStr p), Some (VStr c)) \<Rightarrow>
             validated_call te i ty [(''path'', VStr p), (''content'', VStr c)]
        | _ \<Rightarrow> Inl (Tool_value_error ''product_tool_call_schema_invalid''))
      else if \<not> same_keys (dict_keys value) [''id'', ''type'', ''arguments'']
      then Inl (Tool_value_error ''product_tool_call_schema_invalid'')
      else case (dict_at value ''id'', dict_at value ''type'', dict_at value ''arguments'') of
          (Some (VStr i), Some (VStr ty), Some (VDict args)) \<Rightarrow> validated_call te i ty args
        | _ \<Rightarrow> Inl (Tool_value_error ''product_tool_call_schema_invalid''))"

definition as_runtime_call :: "product_call \<Rightarrow> tool_error + tool_call" where
  "as_runtime_call c = (case tool_of_value (pc_type c) of
     None \<Rightarrow> Inl (Tool_value_error ''product_tool_not_available'') | Some t \<Rightarrow> Inr \<lparr>tc_tool = t, tc_args = pc_args c\<rparr>)"

definition to_provider_dict :: "product_call \<Rightarrow> pyval" where
  "to_provider_dict c = VDict [(''id'', VStr (pc_id c)), (''type'', VStr (pc_type c)), (''arguments'', VDict (pc_args c))]"

section \<open>Plans\<close>

record product_plan =
  pp_version :: string
  pp_summary :: string
  pp_calls :: "product_call list"
  pp_final :: bool

definition PLAN_VERSIONS :: "string list" where
  "PLAN_VERSIONS = [''forgex.toolplan.v2'', ''forgex.toolplan.v1'']"

definition plan_error :: "string \<Rightarrow> tool_error" where
  "plan_error reason = Tool_value_error (''product_toolplan_'' @ reason)"

definition parse_product_plan :: "tool_env \<Rightarrow> nat \<Rightarrow> pyval \<Rightarrow> tool_error + product_plan" where
  "parse_product_plan te max_calls value =
     (if \<not> is_mapping value \<or> \<not> same_keys (dict_keys value) [''version'', ''summary'', ''tool_calls'', ''final'']
      then Inl (plan_error ''schema_invalid'')
      else bind_result (in_names (spec_part value ''version'') PLAN_VERSIONS) (\<lambda>known.
        if \<not> known then Inl (plan_error ''version_invalid'')
        else case spec_part value ''summary'' of
          VStr summary \<Rightarrow>
            if (if spec_part value ''final'' = VBool True then 16000 else 512) < length summary then Inl (plan_error ''summary_invalid'')
            else (case (spec_part value ''tool_calls'', spec_part value ''final'') of
              (VList calls, VBool final) \<Rightarrow>
                if max_calls < length calls then Inl (plan_error ''schema_invalid'')
                else bind_result (results (parse_product_call te) calls) (\<lambda>parsed.
                  if final \<and> parsed \<noteq> [] then Inl (plan_error ''final_has_calls'')
                  else if \<not> final \<and> parsed = [] then Inl (plan_error ''empty_turn'')
                  else Inr \<lparr>pp_version = (case spec_part value ''version'' of VStr s \<Rightarrow> s | _ \<Rightarrow> []), pp_summary = summary,
                        pp_calls = parsed, pp_final = final\<rparr>)
            | _ \<Rightarrow> Inl (plan_error ''schema_invalid''))
        | _ \<Rightarrow> Inl (plan_error ''summary_invalid'')))"

definition parse_plan_json :: "tool_env \<Rightarrow> nat \<Rightarrow> nat \<Rightarrow> string \<Rightarrow> tool_error + product_plan" where
  "parse_plan_json te max_calls max_bytes text = (if max_bytes < length text then Inl (plan_error ''json_invalid'')
     else case te_json te text of None \<Rightarrow> Inl (plan_error ''json_invalid'') | Some v \<Rightarrow> parse_product_plan te max_calls v)"

section \<open>A parsed call survives its own serialization\<close>

lemma line_spans_bounds: "(x, y) \<in> set (line_spans a b) \<Longrightarrow> a \<le> x \<and> x \<le> y \<and> y \<le> b \<and> y - x < 80"
  by (induction a b rule: line_spans.induct) (subst (asm) (2) line_spans.simps, fastforce split: if_splits)

lemma span_of_reference [simp]: "span_of (reference_of p (x, y)) = Some (p, x, y)"
  by (auto simp: span_of_def reference_of_def is_mapping_def same_keys_def dict_keys_def dict_items_def dict_at_def dict_of_def)

lemma split_reference_fixed: "r' \<in> set (split_reference r) \<Longrightarrow> split_reference r' = [r']"
  by (auto simp: split_reference_def split: option.splits if_splits dest: line_spans_bounds)

lemma concat_fixed: "(\<And>r. r \<in> set rs \<Longrightarrow> f r = [r]) \<Longrightarrow> concat (map f rs) = rs"
  by (induction rs) auto

lemma put_keys [simp]: "map fst (map (\<lambda>(j, w). (j, if j = k then v else w)) kvs) = map fst kvs"
  by (induction kvs) auto

lemma put_map_same: "map (\<lambda>(j, w). (j, if j = k then v else w)) (map (\<lambda>(j, w). (j, if j = k then v else w)) kvs)
    = map (\<lambda>(j, w). (j, if j = k then v else w)) kvs"
  by (induction kvs) auto

lemma put_map_other: "k \<notin> set (map fst kvs) \<Longrightarrow> map (\<lambda>(j, w). (j, if j = k then v else w)) kvs = kvs"
  by (induction kvs) auto

lemma dict_put_alt: "dict_put k v kvs = (let m = map (\<lambda>(j, w). (j, if j = k then v else w)) kvs in
    if k \<in> set (map fst kvs) then m else m @ [(k, v)])"
  using put_map_other[of k kvs v] by (simp add: dict_put_def Let_def)

lemma dict_put_same [simp]: "dict_put k v (dict_put k v kvs) = dict_put k v kvs"
proof (cases "k \<in> set (map fst kvs)")
  case True
  then show ?thesis by (simp only: dict_put_alt Let_def put_keys if_True put_map_same)
next
  case False
  then show ?thesis by (simp add: dict_put_def put_map_other)
qed

lemma dict_of_put [simp]: "dict_of (dict_put k v kvs) k = Some v"
proof -
  have "map_of (rev (map (\<lambda>(j, w). (j, if j = k then v else w)) kvs)) k = (if k \<in> set (map fst kvs) then Some v else None)"
  proof (induction kvs)
    case (Cons x kvs)
    obtain j w where x: "x = (j, w)" by (cases x)
    have "map_of (rev (map (\<lambda>(j, w). (j, if j = k then v else w)) kvs)) k = None" if "k \<notin> fst ` set kvs"
      using Cons that by simp
    then show ?case using Cons x by (auto simp: map_add_def)
  qed simp
  then show ?thesis by (auto simp: dict_put_alt Let_def dict_of_def image_iff)
qed

lemma dict_put_items: "x \<in> set (dict_put k v kvs) \<Longrightarrow> x = (k, v) \<or> x \<in> set kvs"
  by (auto simp: dict_put_def split: if_splits)

lemma split_check_fixed: "split_check (split_check c) = split_check c"
proof (cases "(c, dict_at c ''evidence'')")
  case (Pair d e)
  let ?ev = "\<lambda>refs. concat (map split_reference refs)"
  have fixed: "?ev (?ev refs) = ?ev refs" for refs
    by (rule concat_fixed) (auto dest: split_reference_fixed)
  show ?thesis
    using fixed by (cases c) (auto simp: split_check_def Let_def dict_at_def dict_items_def split: option.splits pyval.splits)
qed

lemma split_spans_fixed: "split_requirement_spans (split_requirement_spans c) = split_requirement_spans c"
  by (auto simp: split_requirement_spans_def split_check_fixed split: pyval.splits)

lemma results_all: "results f ys = Inr ys \<longleftrightarrow> (\<forall>y \<in> set ys. f y = Inr y)"
  by (induction ys) (auto simp: sum_case_simps)

lemma results_fixed:
  assumes "results f xs = Inr ys" "\<And>x y. f x = Inr y \<Longrightarrow> f y = Inr y"
  shows "results f ys = Inr ys"
  using assms(1) by (induction xs arbitrary: ys) (auto simp: sum_case_simps intro: assms(2))

lemma normalize_fixed: "normalize_argument te properties x = Inr y \<Longrightarrow> normalize_argument te properties y = Inr y"
  by (auto simp: normalize_argument_def Let_def list_of_def is_mapping_def split: prod.splits pyval.splits if_splits option.splits)

lemma tool_value_length: "tool_value t \<noteq> [] \<and> length (tool_value t) \<le> 64"
proof -
  have "list_all (\<lambda>t. tool_value t \<noteq> [] \<and> length (tool_value t) \<le> 64) all_tools" by code_simp
  then show ?thesis unfolding list_all_iff by simp
qed

lemma validated_call_fixed:
  assumes "validated_call te i ty args = Inr c"
  shows "validated_call te (pc_id c) (pc_type c) (pc_args c) = Inr c"
proof -
  obtain t decoded where d: "parse_tool_name ty = Some t" "normalize_structured_arguments te t args = Inr decoded"
    and i: "i \<noteq> []" "length i \<le> 128"
    using assms by (auto simp: validated_call_def sum_case_simps Let_def split: if_splits option.splits)
  define X where "X = split_requirement_spans (spec_part (VDict decoded) ''checks'')"
  define plain where "plain = (if t = VERIFY_REQUIREMENTS then dict_put ''checks'' X decoded else decoded)"
  have v: "validate_product_tool_arguments te t plain = Inr ()" and c: "c = \<lparr>pc_id = i, pc_type = tool_value t, pc_args = plain\<rparr>"
    using assms d i by (auto simp: validated_call_def sum_case_simps Let_def plain_def X_def split: if_splits)
  have n: "normalize_structured_arguments te t decoded = Inr decoded"
    using d(2) unfolding normalize_structured_arguments_def by (rule results_fixed) (rule normalize_fixed)
  have list: "\<exists>vs. X = VList vs" if "t = VERIFY_REQUIREMENTS"
    using v that by (auto simp: plain_def validate_product_tool_arguments_def special_arguments_ok_def validate_requirement_checks_def
        NEW_TOOLS_def Let_def sum_case_simps spec_part_def dict_at_def dict_items_def require_def split: if_splits pyval.splits)
  have n': "normalize_structured_arguments te t plain = Inr plain"
  proof (cases "t = VERIFY_REQUIREMENTS")
    case True
    then obtain vs where "X = VList vs" using list by blast
    then show ?thesis
      using n True unfolding normalize_structured_arguments_def results_all plain_def
      by (auto dest!: dict_put_items simp: normalize_argument_def Let_def)
  qed (use n in \<open>simp add: plain_def\<close>)
  have "(if t = VERIFY_REQUIREMENTS then dict_put ''checks'' (split_requirement_spans (spec_part (VDict plain) ''checks'')) plain else plain) = plain"
    by (simp add: plain_def spec_part_def dict_at_def dict_items_def X_def split_spans_fixed)
  then show ?thesis
    using v n' i tool_value_length[of t] parse_tool_value[of t] by (simp add: validated_call_def c Let_def)
qed

text \<open>C26. A parsed call survives its own serialization: whatever spelling, encoding or span layout a model used, the call that the
  parser accepts names a canonical tool, and writing it out and parsing it again gives the same call, which is also
  what the runtime executes.\<close>
theorem product_call_roundtrip:
  assumes "parse_product_call te value = Inr c"
  shows "parse_product_call te (to_provider_dict c) = Inr c
    \<and> (\<exists>t. as_runtime_call c = Inr \<lparr>tc_tool = t, tc_args = pc_args c\<rparr> \<and> pc_type c = tool_value t)"
proof -
  obtain i ty args where v: "validated_call te i ty args = Inr c"
    using assms by (auto simp: parse_product_call_def split: if_splits option.splits pyval.splits)
  have "parse_product_call te (to_provider_dict c) = validated_call te (pc_id c) (pc_type c) (pc_args c)"
  proof -
    have "\<not> same_keys [''id'', ''type'', ''arguments''] [''id'', ''type'', ''path'', ''content'']" "same_keys ks ks" for ks
      by code_simp (simp add: same_keys_def)
    then show ?thesis
      by (simp add: parse_product_call_def to_provider_dict_def is_mapping_def dict_keys_def dict_items_def dict_at_def dict_of_def)
  qed
  moreover have "\<exists>t. pc_type c = tool_value t"
    using v by (auto simp: validated_call_def sum_case_simps Let_def simp del: tool_value.simps split: if_splits option.splits)
  moreover have "tool_of_value (tool_value t) = Some t" for t
  proof -
    have "list_all (\<lambda>t. tool_of_value (tool_value t) = Some t) all_tools" by code_simp
    then show ?thesis unfolding list_all_iff by simp
  qed
  ultimately show ?thesis using validated_call_fixed[OF v] by (auto simp: as_runtime_call_def)
qed

definition demo_tool_env :: tool_env where
  "demo_tool_env = \<lparr>te_sha = id, te_json = (\<lambda>_. None), te_strict_json = (\<lambda>_. Some (VList [VDict [(''id'', VStr ''R1''),
     (''status'', VStr ''implemented''), (''evidence'', VList [reference_of (VStr ''main.c'') (1, 100)])]]))\<rparr>"

text \<open>A call that spells its checks as a JSON text and cites a hundred lines at once.\<close>

definition demo_call_value :: pyval where
  "demo_call_value = VDict [(''id'', VStr ''c1''), (''type'', VStr ''verify_requirements''), (''arguments'', VDict [(''checks'', VStr ''[..]'')])]"

definition demo_call :: product_call where
  "demo_call = \<lparr>pc_id = ''c1'', pc_type = ''verify_requirements'', pc_args = [(''checks'', VList [VDict [(''id'', VStr ''R1''),
     (''status'', VStr ''implemented''), (''evidence'', VList [reference_of (VStr ''main.c'') (1, 80), reference_of (VStr ''main.c'') (81, 100)])]])]\<rparr>"

lemma product_call_roundtrip_witness:
  "parse_product_call demo_tool_env (to_provider_dict demo_call) = Inr demo_call
     \<and> (\<exists>t. as_runtime_call demo_call = Inr \<lparr>tc_tool = t, tc_args = pc_args demo_call\<rparr> \<and> pc_type demo_call = tool_value t)"
proof (rule product_call_roundtrip)
  show "parse_product_call demo_tool_env demo_call_value = Inr demo_call" by code_simp
qed

end
