(* ===== verification/Tool_Policy.thy ===== *)
theory Tool_Policy
  imports Tool_Plans
begin

text \<open>
  The permission, path and content policy of staged agent tools, \<^verbatim>\<open>backend/agent_runtime/tool_policy.py\<close>, with the
  scanner of \<^verbatim>\<open>backend/security/secret_scanner.py\<close>.

  A project directory is an association list from the components of a path below it to a node; the root itself
  is the empty list of components and a directory. A link (or a reparse point) is taken to lead out of the
  directory; what a path through a link finds there is an argument. Texts are ASCII.
\<close>

section \<open>Secrets\<close>

definition is_word :: "char \<Rightarrow> bool" where
  "is_word c = (is_key_char c \<and> c \<noteq> CHR ''-'')"

definition is_upper_digit :: "char \<Rightarrow> bool" where
  "is_upper_digit c = (let n = of_char c :: nat in (48 \<le> n \<and> n \<le> 57) \<or> (65 \<le> n \<and> n \<le> 90))"

definition is_letter_digit :: "char \<Rightarrow> bool" where
  "is_letter_digit c = (is_word c \<and> c \<noteq> CHR ''_'')"

text \<open>A pattern \<^verbatim>\<open>\b(p1|..|pn)C{lo,hi}\b\<close> at a position: the character before it, and the text from it on.\<close>

record secret_pattern =
  sp_prefixes :: "string list"
  sp_class :: "char \<Rightarrow> bool"
  sp_lo :: nat
  sp_hi :: "nat option"

definition boundary :: "char option \<Rightarrow> char option \<Rightarrow> bool" where
  "boundary a b = ((case a of Some c \<Rightarrow> is_word c | None \<Rightarrow> False) \<noteq> (case b of Some c \<Rightarrow> is_word c | None \<Rightarrow> False))"

definition first_of :: "string \<Rightarrow> char option" where
  "first_of s = (case s of [] \<Rightarrow> None | c # _ \<Rightarrow> Some c)"

definition pattern_at :: "secret_pattern \<Rightarrow> char option \<Rightarrow> string \<Rightarrow> bool" where
  "pattern_at sp before s = (boundary before (first_of s) \<and> list_ex (\<lambda>p. starts_with s p \<and>
     (let rest = drop (length p) s; run = length (takeWhile (sp_class sp) rest);
          most = (case sp_hi sp of None \<Rightarrow> run | Some h \<Rightarrow> min h run) in
      list_ex (\<lambda>n. boundary (first_of (rev (take n rest))) (first_of (drop n rest))) [sp_lo sp..<Suc most])) (sp_prefixes sp))"

fun pattern_search :: "secret_pattern \<Rightarrow> char option \<Rightarrow> string \<Rightarrow> bool" where
  "pattern_search sp before [] = pattern_at sp before []"
| "pattern_search sp before (c # cs) = (pattern_at sp before (c # cs) \<or> pattern_search sp (Some c) cs)"

definition SECRET_PATTERNS :: "secret_pattern list" where
  "SECRET_PATTERNS = [
     \<lparr>sp_prefixes = [''sk-''], sp_class = is_key_char, sp_lo = 20, sp_hi = None\<rparr>,
     \<lparr>sp_prefixes = map (\<lambda>c. ''gh'' @ [c] @ ''_'') ''pousr'', sp_class = is_letter_digit, sp_lo = 30, sp_hi = None\<rparr>,
     \<lparr>sp_prefixes = [''AKIA'', ''ASIA''], sp_class = is_upper_digit, sp_lo = 16, sp_hi = Some 16\<rparr>,
     \<lparr>sp_prefixes = [''AIza''], sp_class = is_key_char, sp_lo = 35, sp_hi = Some 35\<rparr>,
     \<lparr>sp_prefixes = map (\<lambda>c. ''xox'' @ [c] @ ''-'') ''baprs'', sp_class = (\<lambda>c. is_letter_digit c \<or> c = CHR ''-''), sp_lo = 20, sp_hi = None\<rparr>]"

definition PRIVATE_KEY_LINES :: "string list" where
  "PRIVATE_KEY_LINES = map (\<lambda>k. ''-----BEGIN '' @ k @ ''PRIVATE KEY-----'') [[], ''RSA '', ''EC '', ''OPENSSH '']"

definition has_high_confidence_secret :: "string \<Rightarrow> bool" where
  "has_high_confidence_secret text = (list_ex (contains_sub text) PRIVATE_KEY_LINES
     \<or> list_ex (\<lambda>sp. pattern_search sp None text) SECRET_PATTERNS)"

section \<open>Paths\<close>

definition RESERVED_WINDOWS_NAMES :: "string list" where
  "RESERVED_WINDOWS_NAMES = [''CON'', ''PRN'', ''AUX'', ''NUL'', ''CLOCK$''] @ map (\<lambda>d. ''COM'' @ [d]) ''123456789'' @ map (\<lambda>d. ''LPT'' @ [d]) ''123456789''"

definition SENSITIVE_NAMES :: "string list" where
  "SENSITIVE_NAMES = [''.env'', ''.env.local'', ''.npmrc'', ''.pypirc'', ''credentials'', ''credentials.json'', ''secrets.json'',
     ''id_rsa'', ''id_ed25519'', ''known_hosts'']"

definition SENSITIVE_PARTS :: "string list" where
  "SENSITIVE_PARTS = [''credential'', ''secret'', ''token'', ''private_key'', ''apikey'', ''api_key'']"

definition is_sensitive_path :: "string \<Rightarrow> bool" where
  "is_sensitive_path value = list_ex (\<lambda>part. part \<in> set SENSITIVE_NAMES \<or> list_ex (contains_sub part) SENSITIVE_PARTS)
     (split_on slash_char (py_lower (map (\<lambda>c. if c = backslash_char then slash_char else c) value)))"

definition upper_char :: "char \<Rightarrow> char" where
  "upper_char c = (let n = of_char c :: nat in if 97 \<le> n \<and> n \<le> 122 then char_of (n - 32) else c)"

definition device_name :: "string \<Rightarrow> string" where
  "device_name part = map upper_char (hd (split_on (CHR ''.'') part))"

abbreviation path_unsafe :: "string \<Rightarrow> tool_error" where
  "path_unsafe reason \<equiv> Tool_denied PATH_UNSAFE reason"

definition validate_relative_path :: "string \<Rightarrow> tool_error + string" where
  "validate_relative_path value =
     (if value = [] \<or> nul_char \<in> set value \<or> backslash_char \<in> set value then Inl (path_unsafe ''path_format_unsafe'')
      else if \<not> list_all (\<lambda>c. (of_char c :: nat) < 128) value then Inl (path_unsafe ''unicode_path_unsupported'')
      else if has_drive value \<or> starts_with value ''/'' then Inl (path_unsafe ''absolute_path_forbidden'')
      else if value = ''.'' then Inr value
      else let parts = split_on slash_char value in
        if list_ex (\<lambda>part. part = [] \<or> part = ''..'' \<or> starts_with part ''.'' \<or> last part = CHR '' '' \<or> last part = CHR ''.'') parts
        then Inl (path_unsafe ''path_segment_unsafe'')
        else if list_ex (\<lambda>part. device_name part \<in> set RESERVED_WINDOWS_NAMES \<or> CHR '':'' \<in> set part) parts
        then Inl (path_unsafe ''reserved_path_forbidden'')
        else Inr (join_on slash_char parts))"

section \<open>Directories\<close>

datatype vnode = Vdir | Vfile string | Vlink | Vother

type_synonym vtree = "(string list \<times> vnode) list"

text \<open>What a path through a link finds: whether it exists, and whether it is a directory.\<close>

record beyond =
  by_exists :: "string list \<Rightarrow> bool"
  by_dir :: "string list \<Rightarrow> bool"

definition node_at :: "vtree \<Rightarrow> string list \<Rightarrow> vnode option" where
  "node_at t p = (if p = [] then Some Vdir else map_of t p)"

definition through_link :: "vtree \<Rightarrow> string list \<Rightarrow> bool" where
  "through_link t p = list_ex (\<lambda>n. node_at t (take n p) = Some Vlink) [1..<Suc (length p)]"

definition exists_at :: "beyond \<Rightarrow> vtree \<Rightarrow> string list \<Rightarrow> bool" where
  "exists_at by t p = (if through_link t p then by_exists by p else node_at t p \<noteq> None)"

definition is_dir_at :: "beyond \<Rightarrow> vtree \<Rightarrow> string list \<Rightarrow> bool" where
  "is_dir_at by t p = (if through_link t p then by_exists by p \<and> by_dir by p else node_at t p = Some Vdir)"

function nearest_existing :: "(string list \<Rightarrow> bool) \<Rightarrow> string list \<Rightarrow> string list" where
  "nearest_existing ex p = (if p = [] \<or> ex p then p else nearest_existing ex (butlast p))"
  by pat_completeness auto
termination
  by (relation "measure (\<lambda>(ex, p). length p)") auto

declare nearest_existing.simps [simp del]

definition validate_existing_components :: "vtree \<Rightarrow> string list \<Rightarrow> tool_error + unit" where
  "validate_existing_components t p = require (\<not> through_link t p) (path_unsafe ''link_or_reparse_forbidden'')"

definition suffix_of :: "string \<Rightarrow> string" where
  "suffix_of name = (let r = takeWhile (\<lambda>c. c \<noteq> CHR ''.'') (rev name) in
     if CHR ''.'' \<in> set name \<and> r \<noteq> [] \<and> length r + 1 < length name then CHR ''.'' # rev r else [])"

record tool_policy =
  tp_id :: string
  tp_decisions :: "(tool_name \<times> string) list"
  tp_extensions :: "string list"
  tp_names :: "string list"
  tp_max_file :: int
  tp_max_content :: int

definition extension_ok :: "tool_policy \<Rightarrow> string list \<Rightarrow> bool" where
  "extension_ok pol p = (py_lower (suffix_of (last p)) \<in> set (tp_extensions pol) \<or> last p \<in> set (tp_names pol))"

definition resolve_path :: "beyond \<Rightarrow> tool_policy \<Rightarrow> vtree \<Rightarrow> string \<Rightarrow> bool \<Rightarrow> bool \<Rightarrow> tool_error + string list" where
  "resolve_path by pol t relative must_exist allow_directory =
     bind_result (validate_relative_path relative) (\<lambda>normalized.
     let candidate = (if normalized = ''.'' then [] else split_on slash_char normalized); parent = butlast candidate in
     bind_result
       (if \<not> exists_at by t parent
        then if must_exist then Inl (path_unsafe ''parent_directory_missing'')
          else let ancestor = nearest_existing (exists_at by t) parent in
            if \<not> is_dir_at by t ancestor then Inl (path_unsafe ''parent_directory_missing'')
            else validate_existing_components t ancestor
        else if \<not> is_dir_at by t parent then Inl (path_unsafe ''parent_directory_missing'')
        else validate_existing_components t parent) (\<lambda>_.
     if through_link t candidate then Inl (path_unsafe ''staging_escape'')
     else bind_result
       (case node_at t candidate of
          Some node \<Rightarrow>
            if must_exist \<and> \<not> allow_directory \<and> (case node of Vfile _ \<Rightarrow> False | _ \<Rightarrow> True) then Inl (path_unsafe ''regular_file_required'')
            else if allow_directory \<and> node \<noteq> Vdir then Inl (path_unsafe ''directory_required'') else Inr ()
        | None \<Rightarrow> if must_exist then Inl (path_unsafe ''path_missing'') else Inr ()) (\<lambda>_.
     if candidate \<noteq> [] \<and> \<not> allow_directory \<and> \<not> extension_ok pol candidate
     then Inl (Tool_denied POLICY_DENIED ''extension_not_allowed'')
     else Inr candidate)))"

definition validate_content :: "tool_policy \<Rightarrow> string \<Rightarrow> tool_error + unit" where
  "validate_content pol content =
     (if nul_char \<in> set content then Inl (Tool_denied CONTENT_INVALID ''binary_content_forbidden'')
      else if tp_max_content pol < int (length content) \<or> tp_max_file pol < int (length content)
      then Inl (Tool_denied CONTENT_INVALID ''content_too_large'')
      else if has_high_confidence_secret content then Inl (Tool_denied POLICY_DENIED ''secret_content_forbidden'')
      else Inr ())"

section \<open>Policies\<close>

definition ALLOWED_EXTENSIONS :: "string list" where
  "ALLOWED_EXTENSIONS = [''.c'', ''.cc'', ''.cs'', ''.cpp'', ''.csv'', ''.css'', ''.fs'', ''.go'', ''.gradle'', ''.h'', ''.hpp'', ''.html'',
     ''.ini'', ''.ino'', ''.js'', ''.json'', ''.java'', ''.kt'', ''.kts'', ''.md'', ''.mjs'', ''.php'', ''.properties'', ''.py'', ''.rb'',
     ''.rs'', ''.scss'', ''.sh'', ''.sql'', ''.svelte'', ''.svg'', ''.toml'', ''.ts'', ''.tsx'', ''.txt'', ''.vue'', ''.xml'', ''.yaml'', ''.yml'']"

definition allow_all :: "tool_name list \<Rightarrow> (tool_name \<times> string) list" where
  "allow_all ts = map (\<lambda>t. (t, ''allow'')) ts"

definition default_tool_policy :: tool_policy where
  "default_tool_policy = \<lparr>tp_id = ''forgex-tool-runtime-default-v1'',
     tp_decisions = allow_all [LIST_FILES, GLOB_FILES, GREP_SEARCH, READ_FILE]
       @ map (\<lambda>t. (t, ''ask'')) [WRITE_FILE, EDIT_FILE_SIMPLE, APPLY_PATCH, DELETE_FILE, MOVE_FILE]
       @ allow_all [UPDATE_PLAN, LOAD_SKILL, MEMORY_SEARCH]
       @ [(SPAWN_SUBAGENT, ''deny'')]
       @ allow_all [PRESENT_FILES, SESSION_EVENT_READ, SESSION_EVENT_SEARCH, SESSION_TRACE]
       @ map (\<lambda>t. (t, ''deny'')) [BUILD_FIRMWARE, RUN_SIMULATION, RUN_COMMAND],
     tp_extensions = ALLOWED_EXTENSIONS, tp_names = [''Makefile'', ''Dockerfile''], tp_max_file = 512000, tp_max_content = 128000\<rparr>"

definition bounded_size :: "int \<Rightarrow> int" where
  "bounded_size n = max 1 (min n 512000)"

definition product_agent_policy :: "int \<Rightarrow> tool_policy" where
  "product_agent_policy max_bytes = default_tool_policy\<lparr>tp_id := ''forgex-product-agent-v1'',
     tp_decisions := allow_all [LIST_FILES, GLOB_FILES, GREP_SEARCH, READ_FILE, WRITE_FILE, EDIT_FILE_SIMPLE, APPLY_PATCH, DELETE_FILE,
         MOVE_FILE, UPDATE_PLAN, LOAD_SKILL, MEMORY_SEARCH, SPAWN_SUBAGENT, PRESENT_FILES, SESSION_EVENT_READ, SESSION_EVENT_SEARCH,
         SESSION_TRACE, BUILD_FIRMWARE, VERIFY_REQUIREMENTS, PROJECT_DOCTOR, INSPECT_SYMBOLS, SEARCH_DOCS, FETCH_DOCS,
         VALIDATE_HARDWARE_CONFIG] @ map (\<lambda>t. (t, ''deny'')) [RUN_SIMULATION, RUN_COMMAND],
     tp_max_file := bounded_size max_bytes, tp_max_content := bounded_size max_bytes\<rparr>"

definition SUBAGENT_TOOLS :: "tool_name list" where
  "SUBAGENT_TOOLS = [LIST_FILES, GLOB_FILES, GREP_SEARCH, READ_FILE, UPDATE_PLAN, LOAD_SKILL, MEMORY_SEARCH, SESSION_EVENT_READ,
     SESSION_EVENT_SEARCH, SESSION_TRACE]"

definition subagent_policy :: "bool \<Rightarrow> int \<Rightarrow> tool_policy" where
  "subagent_policy allow_build max_bytes = default_tool_policy\<lparr>tp_id := ''forgex-subagent-readonly-v1'',
     tp_decisions := map (\<lambda>t. (t, if t \<in> set SUBAGENT_TOOLS \<or> allow_build \<and> t = BUILD_FIRMWARE then ''allow'' else ''deny'')) all_tools,
     tp_max_file := bounded_size max_bytes, tp_max_content := bounded_size max_bytes\<rparr>"

definition decision :: "tool_policy \<Rightarrow> tool_name \<Rightarrow> string" where
  "decision pol t = (case map_of (tp_decisions pol) t of Some d \<Rightarrow> d | None \<Rightarrow> ''deny'')"

definition available_tools :: "tool_policy \<Rightarrow> tool_name list \<Rightarrow> string list" where
  "available_tools pol implemented = map tool_value (filter (\<lambda>t. decision pol t = ''allow'' \<and> (t \<in> set HOST_TOOLS \<longrightarrow> t \<in> set implemented)) all_tools)"

section \<open>The arguments of a call\<close>

abbreviation bad_arguments :: tool_error where
  "bad_arguments \<equiv> Tool_denied PROVIDER_INVALID ''tool_arguments_invalid''"

definition require_keys :: "(string \<times> pyval) list \<Rightarrow> string list \<Rightarrow> string list \<Rightarrow> tool_error + unit" where
  "require_keys args required optional = require
     (set required \<subseteq> fst ` set args \<and> fst ` set args \<subseteq> set required \<union> set optional) bad_arguments"

definition string_value :: "pyval \<Rightarrow> tool_error + string" where
  "string_value v = (case v of VStr s \<Rightarrow> Inr s | _ \<Rightarrow> Inl (Tool_denied PROVIDER_INVALID ''tool_argument_must_be_string''))"

definition arg_or :: "(string \<times> pyval) list \<Rightarrow> string \<Rightarrow> pyval \<Rightarrow> pyval" where
  "arg_or args k alt = (case dict_of args k of Some v \<Rightarrow> v | None \<Rightarrow> alt)"

definition string_arg :: "(string \<times> pyval) list \<Rightarrow> string \<Rightarrow> tool_error + string" where
  "string_arg args k = string_value (arg_or args k VNone)"

definition int_in :: "pyval \<Rightarrow> int \<Rightarrow> int \<Rightarrow> bool" where
  "int_in v lo hi = (case v of VInt n \<Rightarrow> lo \<le> n \<and> n \<le> hi | _ \<Rightarrow> False)"

definition number_in :: "pyval \<Rightarrow> int \<Rightarrow> int \<Rightarrow> bool" where
  "number_in v lo hi = (case v of VInt n \<Rightarrow> lo \<le> n \<and> n \<le> hi | VFloat (Fin q) \<Rightarrow> of_int lo \<le> q \<and> q \<le> of_int hi | _ \<Rightarrow> False)"

definition check_directory :: "beyond \<Rightarrow> tool_policy \<Rightarrow> vtree \<Rightarrow> (string \<times> pyval) list \<Rightarrow> tool_error + unit" where
  "check_directory by pol t args = bind_result (string_value (arg_or args ''path'' (VStr ''.''))) (\<lambda>path.
     bind_result (resolve_path by pol t path False True) (\<lambda>_. Inr ()))"

definition check_file :: "beyond \<Rightarrow> tool_policy \<Rightarrow> vtree \<Rightarrow> string \<Rightarrow> string \<Rightarrow> tool_error + unit" where
  "check_file by pol t reason path = (if is_sensitive_path path then Inl (Tool_denied POLICY_DENIED reason)
     else bind_result (resolve_path by pol t path False False) (\<lambda>_. Inr ()))"

definition check_grep :: "beyond \<Rightarrow> tool_policy \<Rightarrow> vtree \<Rightarrow> (string \<times> pyval) list \<Rightarrow> tool_error + unit" where
  "check_grep by pol t args = bind_result (require_keys args [''query''] [''path'', ''max_results'']) (\<lambda>_.
     bind_result (string_arg args ''query'') (\<lambda>_.
     bind_result (check_directory by pol t args) (\<lambda>_.
     require (int_in (arg_or args ''max_results'' (VInt 50)) 1 200) bad_arguments)))"

definition check_read :: "beyond \<Rightarrow> tool_policy \<Rightarrow> vtree \<Rightarrow> (string \<times> pyval) list \<Rightarrow> tool_error + unit" where
  "check_read by pol t args = bind_result (require_keys args [''path''] [''offset'', ''limit'']) (\<lambda>_.
     bind_result (require (int_in (arg_or args ''offset'' (VInt 1)) 1 10000000 \<and> int_in (arg_or args ''limit'' (VInt 200)) 1 2000) bad_arguments) (\<lambda>_.
     bind_result (string_arg args ''path'') (check_file by pol t ''credential_read_forbidden'')))"

definition check_write :: "beyond \<Rightarrow> tool_policy \<Rightarrow> vtree \<Rightarrow> (string \<times> pyval) list \<Rightarrow> tool_error + unit" where
  "check_write by pol t args = bind_result (require_keys args [''path'', ''content''] []) (\<lambda>_.
     bind_result (string_arg args ''path'') (\<lambda>path. bind_result (string_arg args ''content'') (\<lambda>content.
     bind_result (check_file by pol t ''credential_write_forbidden'' path) (\<lambda>_. validate_content pol content))))"

definition check_edit :: "beyond \<Rightarrow> tool_policy \<Rightarrow> vtree \<Rightarrow> (string \<times> pyval) list \<Rightarrow> tool_error + unit" where
  "check_edit by pol t args = bind_result (require_keys args [''path'', ''old_text'', ''new_text''] []) (\<lambda>_.
     bind_result (string_arg args ''path'') (\<lambda>path.
     bind_result (check_file by pol t ''credential_read_forbidden'' path) (\<lambda>_.
     bind_result (string_arg args ''new_text'') (\<lambda>new_text.
     bind_result (validate_content pol new_text) (\<lambda>_.
     bind_result (string_arg args ''old_text'') (\<lambda>_. Inr ()))))))"

definition check_patch :: "beyond \<Rightarrow> tool_policy \<Rightarrow> vtree \<Rightarrow> (string \<times> pyval) list \<Rightarrow> tool_error + unit" where
  "check_patch by pol t args = bind_result (require_keys args [''path'', ''patch''] []) (\<lambda>_.
     bind_result (string_arg args ''path'') (\<lambda>path. bind_result (string_arg args ''patch'') (\<lambda>patch.
     bind_result (check_file by pol t ''credential_write_forbidden'' path) (\<lambda>_.
     require (py_strip patch \<noteq> [] \<and> int (length patch) \<le> tp_max_content pol) (Tool_denied CONTENT_INVALID ''patch_too_large_or_empty'')))))"

definition check_move :: "beyond \<Rightarrow> tool_policy \<Rightarrow> vtree \<Rightarrow> string list \<Rightarrow> (string \<times> pyval) list \<Rightarrow> tool_error + unit" where
  "check_move by pol t required args = bind_result (require_keys args required []) (\<lambda>_.
     each_ok (\<lambda>k. bind_result (string_arg args k) (check_file by pol t ''credential_write_forbidden'')) required)"

definition check_step :: "pyval \<Rightarrow> tool_error + unit" where
  "check_step step =
     (if \<not> is_mapping step \<or> \<not> {''text'', ''status''} \<subseteq> set (dict_keys step)
        \<or> \<not> set (dict_keys step) \<subseteq> {''text'', ''status'', ''verification''} then Inl bad_arguments
      else if \<not> (case dict_at step ''text'' of Some (VStr s) \<Rightarrow> py_strip s \<noteq> [] \<and> length s \<le> 300 | _ \<Rightarrow> False) then Inl bad_arguments
      else bind_result (in_names (spec_part step ''status'') STEP_STATUSES) (\<lambda>b. if \<not> b then Inl bad_arguments
      else bind_result (in_names (case dict_at step ''verification'' of Some v \<Rightarrow> v | None \<Rightarrow> VStr ''inspection'') STEP_VERIFICATIONS)
        (\<lambda>b. require b bad_arguments)))"

definition check_plan :: "(string \<times> pyval) list \<Rightarrow> tool_error + unit" where
  "check_plan args = bind_result (require_keys args [''steps''] []) (\<lambda>_. case arg_or args ''steps'' VNone of
     VList steps \<Rightarrow> if 1 \<le> length steps \<and> length steps \<le> 32 then each_ok check_step steps else Inl bad_arguments
   | _ \<Rightarrow> Inl bad_arguments)"

definition check_skill :: "(string \<times> pyval) list \<Rightarrow> tool_error + unit" where
  "check_skill args = bind_result (require_keys args [''name''] []) (\<lambda>_. bind_result (string_arg args ''name'') (\<lambda>name.
     require (name \<noteq> [] \<and> length name \<le> 128 \<and> list_all is_key_char name) bad_arguments))"

definition check_memory :: "(string \<times> pyval) list \<Rightarrow> tool_error + unit" where
  "check_memory args = bind_result (require_keys args [''query''] [''limit'']) (\<lambda>_. bind_result (string_arg args ''query'') (\<lambda>_.
     require (int_in (arg_or args ''limit'' (VInt 5)) 1 20) bad_arguments))"

definition check_spawn :: "(string \<times> pyval) list \<Rightarrow> tool_error + unit" where
  "check_spawn args = bind_result (require_keys args [''role'', ''task''] []) (\<lambda>_. bind_result (string_arg args ''role'') (\<lambda>role.
     bind_result (string_arg args ''task'') (\<lambda>task.
     require (py_lower role \<in> {''explore'', ''review'', ''verify''} \<and> py_strip task \<noteq> [] \<and> length task \<le> 4000) bad_arguments)))"

definition check_presented :: "beyond \<Rightarrow> tool_policy \<Rightarrow> vtree \<Rightarrow> pyval \<Rightarrow> tool_error + unit" where
  "check_presented by pol t item =
     (if \<not> is_mapping item \<or> ''path'' \<notin> set (dict_keys item) \<or> \<not> set (dict_keys item) \<subseteq> {''path'', ''description''} then Inl bad_arguments
      else bind_result (string_value (spec_part item ''path'')) (\<lambda>path.
        if (case dict_at item ''description'' of None \<Rightarrow> False
            | Some (VStr s) \<Rightarrow> 300 < length s | Some v \<Rightarrow> py_true v) then Inl bad_arguments
        else check_file by pol t ''credential_read_forbidden'' path))"

definition check_present :: "beyond \<Rightarrow> tool_policy \<Rightarrow> vtree \<Rightarrow> (string \<times> pyval) list \<Rightarrow> tool_error + unit" where
  "check_present by pol t args = bind_result (require_keys args [''files''] []) (\<lambda>_. case arg_or args ''files'' VNone of
     VList files \<Rightarrow> if 1 \<le> length files \<and> length files \<le> 32 then each_ok (check_presented by pol t) files else Inl bad_arguments
   | _ \<Rightarrow> Inl bad_arguments)"

definition check_session :: "tool_name \<Rightarrow> (string \<times> pyval) list \<Rightarrow> tool_error + unit" where
  "check_session tool args = (case tool of
     SESSION_EVENT_READ \<Rightarrow> bind_result (require_keys args [] [''after_sequence'', ''limit'']) (\<lambda>_.
       require ((case arg_or args ''after_sequence'' (VInt 0) of VInt n \<Rightarrow> 0 \<le> n | _ \<Rightarrow> False) \<and> int_in (arg_or args ''limit'' (VInt 50)) 1 100)
         bad_arguments)
   | SESSION_EVENT_SEARCH \<Rightarrow> bind_result (require_keys args [''query''] [''limit'']) (\<lambda>_. bind_result (string_arg args ''query'') (\<lambda>query.
       require (py_strip query \<noteq> [] \<and> length query \<le> 300 \<and> int_in (arg_or args ''limit'' (VInt 20)) 1 50) bad_arguments))
   | _ \<Rightarrow> bind_result (require_keys args [] [''limit'']) (\<lambda>_. require (int_in (arg_or args ''limit'' (VInt 50)) 1 100) bad_arguments))"

definition check_execution :: "tool_name \<Rightarrow> (string \<times> pyval) list \<Rightarrow> tool_error + unit" where
  "check_execution tool args = (case tool of
     BUILD_FIRMWARE \<Rightarrow> bind_result (require_keys args [] [''environment'']) (\<lambda>_.
       case dict_of args ''environment'' of None \<Rightarrow> Inr () | Some v \<Rightarrow> bind_result (string_value v) (\<lambda>_. Inr ()))
   | RUN_SIMULATION \<Rightarrow> bind_result (require_keys args [] [''timeout_seconds'']) (\<lambda>_.
       require (number_in (arg_or args ''timeout_seconds'' (VInt 15)) 1 120) bad_arguments)
   | _ \<Rightarrow> bind_result (require_keys args [''argv''] [''timeout_seconds'']) (\<lambda>_.
       bind_result (require (case arg_or args ''argv'' VNone of
           VList vs \<Rightarrow> vs \<noteq> [] \<and> length vs \<le> 32 \<and> list_all (\<lambda>v. case v of VStr s \<Rightarrow> s \<noteq> [] \<and> length s \<le> 512 | _ \<Rightarrow> False) vs
         | _ \<Rightarrow> False) bad_arguments) (\<lambda>_.
       require (number_in (arg_or args ''timeout_seconds'' (VInt 60)) 1 180) bad_arguments)))"

definition check_arguments :: "beyond \<Rightarrow> tool_policy \<Rightarrow> vtree \<Rightarrow> tool_call \<Rightarrow> tool_error + unit" where
  "check_arguments by pol t call = (let args = tc_args call in case tc_tool call of
     LIST_FILES \<Rightarrow> bind_result (require_keys args [] [''path'']) (\<lambda>_. check_directory by pol t args)
   | GLOB_FILES \<Rightarrow> bind_result (require_keys args [''pattern''] [''path'']) (\<lambda>_.
       bind_result (string_arg args ''pattern'') (\<lambda>_. check_directory by pol t args))
   | GREP_SEARCH \<Rightarrow> check_grep by pol t args
   | READ_FILE \<Rightarrow> check_read by pol t args
   | WRITE_FILE \<Rightarrow> check_write by pol t args
   | EDIT_FILE_SIMPLE \<Rightarrow> check_edit by pol t args
   | APPLY_PATCH \<Rightarrow> check_patch by pol t args
   | DELETE_FILE \<Rightarrow> check_move by pol t [''path''] args
   | MOVE_FILE \<Rightarrow> check_move by pol t [''path'', ''destination''] args
   | UPDATE_PLAN \<Rightarrow> check_plan args
   | LOAD_SKILL \<Rightarrow> check_skill args
   | MEMORY_SEARCH \<Rightarrow> check_memory args
   | SPAWN_SUBAGENT \<Rightarrow> check_spawn args
   | PRESENT_FILES \<Rightarrow> check_present by pol t args
   | SESSION_EVENT_READ \<Rightarrow> check_session SESSION_EVENT_READ args
   | SESSION_EVENT_SEARCH \<Rightarrow> check_session SESSION_EVENT_SEARCH args
   | SESSION_TRACE \<Rightarrow> check_session SESSION_TRACE args
   | BUILD_FIRMWARE \<Rightarrow> check_execution BUILD_FIRMWARE args
   | RUN_SIMULATION \<Rightarrow> check_execution RUN_SIMULATION args
   | RUN_COMMAND \<Rightarrow> check_execution RUN_COMMAND args
   | _ \<Rightarrow> Inr ())"

definition validate_call :: "tool_env \<Rightarrow> beyond \<Rightarrow> tool_policy \<Rightarrow> vtree \<Rightarrow> tool_call \<Rightarrow> tool_error + unit" where
  "validate_call te by pol t call = (case map_of NEW_TOOLS (tc_tool call) of
     Some d \<Rightarrow> if decision pol (tc_tool call) \<noteq> ''allow'' then Inl (Tool_denied POLICY_DENIED ''tool_not_allowed'')
         else validate_new_arguments d (tc_args call)
   | None \<Rightarrow>
       if tc_tool call = VERIFY_REQUIREMENTS
       then if decision pol VERIFY_REQUIREMENTS \<noteq> ''allow'' then Inl (Tool_denied POLICY_DENIED ''tool_not_allowed'')
         else validate_product_tool_arguments te VERIFY_REQUIREMENTS (tc_args call)
       else if decision pol (tc_tool call) = ''deny'' then Inl (Tool_denied POLICY_DENIED ''tool_not_provider_executable'')
       else if decision pol (tc_tool call) = ''ask'' then Inl (Tool_denied POLICY_DENIED ''tool_requires_user_approval'')
       else check_arguments by pol t call)"

text \<open>A plan with keyed steps passes the parser of plan steps but never the policy: any field of a step besides its text,
  status and verification is refused.\<close>

lemma keyed_step_denied:
  assumes "VList steps = arg_or args ''steps'' VNone" "step \<in> set steps" "k \<in> set (dict_keys step)" "k \<notin> {''text'', ''status'', ''verification''}"
  shows "check_plan args \<noteq> Inr ()"
proof
  assume "check_plan args = Inr ()"
  then have "each_ok check_step steps = Inr ()"
    unfolding check_plan_def assms(1)[symmetric] by (simp add: sum_case_simps split: if_splits)
  then have "check_step step = Inr ()" using assms(2) by (simp add: each_ok_iff)
  then show False using assms(3,4) by (auto simp: check_step_def split: if_splits)
qed

end
