(* ===== verification/Capabilities.thy ===== *)
theory Capabilities
  imports Tool_Policy "HOL-Library.AList"
begin

text \<open>
  Capability grants, \<^verbatim>\<open>backend/agent_runtime/capabilities.py\<close>: the engine that issues grants for a run and checks every tool
  call and service use against them. Every operation holds the engine's lock, so an execution of several
  threads is a sequence of operations; the clock is monotonic.
\<close>

definition SERVICE_CAPABILITIES :: "string list" where
  "SERVICE_CAPABILITIES = [''workspace_stage'', ''build'', ''network'', ''hardware'', ''serial_monitor'']"

record capability_grant =
  gr_id :: string
  gr_session :: "string option"
  gr_run :: string
  gr_node :: string
  gr_root :: string
  gr_tools :: "tool_name list"
  gr_services :: "string list"
  gr_source :: string
  gr_expires :: rat
  gr_max_calls :: int
  gr_write :: bool
  gr_build :: bool
  gr_network :: bool
  gr_hardware :: bool

record policy_engine =
  en_ttl :: rat
  en_revoked :: "string set"
  en_fenced :: "string set"
  en_usage :: "string \<Rightarrow> int"
  en_grants :: "(string \<times> capability_grant) list"

definition new_engine :: "rat \<Rightarrow> policy_engine" where
  "new_engine ttl = \<lparr>en_ttl = max 1 (min ttl 3600), en_revoked = {}, en_fenced = {}, en_usage = (\<lambda>_. 0), en_grants = []\<rparr>"

text \<open>What a host asks for; the fresh identifier and the clock reading are arguments.\<close>

record grant_request =
  rq_run :: string
  rq_node :: string
  rq_root :: string
  rq_tools :: "tool_name list"
  rq_services :: "string list"
  rq_source :: string
  rq_session :: "string option"
  rq_ttl :: "rat option"
  rq_max_calls :: int
  rq_write :: bool
  rq_build :: bool
  rq_network :: bool
  rq_hardware :: bool

definition required_id :: "string \<Rightarrow> tool_error + string" where
  "required_id value = (let candidate = py_strip value in
     if candidate = [] \<or> 160 < length candidate then Inl (Tool_value_error ''CAPABILITY_ID_INVALID'') else Inr candidate)"

definition grant_of :: "rat \<Rightarrow> policy_engine \<Rightarrow> string \<Rightarrow> grant_request \<Rightarrow> tool_error + capability_grant" where
  "grant_of now en fresh rq =
     (let services = map (\<lambda>s. py_lower (py_strip s)) (rq_services rq);
          ttl = (case rq_ttl rq of None \<Rightarrow> en_ttl en | Some s \<Rightarrow> max 1 (min s 3600)) in
      if \<not> set services \<subseteq> set SERVICE_CAPABILITIES then Inl (Tool_value_error ''CAPABILITY_SERVICE_INVALID'')
      else if rq_tools rq = [] \<and> services = [] then Inl (Tool_value_error ''CAPABILITY_SCOPE_REQUIRED'')
      else if set (rq_tools rq) \<inter> set WRITE_TOOLS \<noteq> {}
          \<and> rq_source rq \<notin> {''explicit_edit_request'', ''explicit_review'', ''repair_task'', ''system_test''}
      then Inl (Tool_permission_error ''CAPABILITY_WRITE_AUTHORIZATION_REQUIRED'')
      else if BUILD_FIRMWARE \<in> set (rq_tools rq) \<and> \<not> rq_build rq then Inl (Tool_permission_error ''CAPABILITY_BUILD_AUTHORIZATION_REQUIRED'')
      else bind_result (required_id (rq_run rq)) (\<lambda>run. bind_result (required_id (rq_node rq)) (\<lambda>node.
        Inr \<lparr>gr_id = ''grant-'' @ fresh, gr_session = rq_session rq, gr_run = run, gr_node = node, gr_root = rq_root rq,
          gr_tools = rq_tools rq, gr_services = services, gr_source = rq_source rq, gr_expires = now + ttl,
          gr_max_calls = max 1 (min (rq_max_calls rq) 100), gr_write = rq_write rq, gr_build = rq_build rq,
          gr_network = rq_network rq, gr_hardware = rq_hardware rq\<rparr>)))"

definition issue_grant :: "rat \<Rightarrow> string \<Rightarrow> grant_request \<Rightarrow> policy_engine \<Rightarrow> (tool_error + capability_grant) \<times> policy_engine" where
  "issue_grant now fresh rq en = (case grant_of now en fresh rq of
     Inl e \<Rightarrow> (Inl e, en)
   | Inr g \<Rightarrow> let en' = en\<lparr>en_grants := AList.update (gr_id g) g (en_grants en)\<rparr> in
       if rq_run rq \<in> en_fenced en
       then (Inl (Tool_denied POLICY_DENIED ''capability_run_fenced''), en'\<lparr>en_revoked := insert (gr_id g) (en_revoked en)\<rparr>)
       else (Inr g, en'))"

definition validate_live_grant :: "rat \<Rightarrow> capability_grant \<Rightarrow> string \<Rightarrow> policy_engine \<Rightarrow> (tool_error + unit) \<times> policy_engine" where
  "validate_live_grant now g rt en =
     (if gr_run g \<in> en_fenced en then (Inl (Tool_denied POLICY_DENIED ''capability_run_fenced''), en)
      else if map_of (en_grants en) (gr_id g) \<noteq> Some g then (Inl (Tool_denied POLICY_DENIED ''capability_not_issued''), en)
      else if gr_id g \<in> en_revoked en then (Inl (Tool_denied POLICY_DENIED ''capability_revoked''), en)
      else if gr_expires g \<le> now
      then (Inl (Tool_denied POLICY_DENIED ''capability_expired''), en\<lparr>en_revoked := insert (gr_id g) (en_revoked en)\<rparr>)
      else if gr_root g \<noteq> rt then (Inl (path_unsafe ''capability_workspace_mismatch''), en)
      else (Inr (), en))"

definition use_grant :: "bool \<Rightarrow> capability_grant \<Rightarrow> policy_engine \<Rightarrow> policy_engine" where
  "use_grant consume g en = (if consume then en\<lparr>en_usage := (en_usage en)(gr_id g := en_usage en (gr_id g) + 1)\<rparr> else en)"

definition grant_call :: "tool_env \<Rightarrow> beyond \<Rightarrow> tool_policy \<Rightarrow> vtree \<Rightarrow> rat \<Rightarrow> capability_grant \<Rightarrow> tool_call \<Rightarrow> string \<Rightarrow> bool \<Rightarrow> policy_engine
    \<Rightarrow> (tool_error + unit) \<times> policy_engine" where
  "grant_call te by pol t now g call rt consume en = (case validate_live_grant now g rt en of
     (Inl e, en') \<Rightarrow> (Inl e, en')
   | (Inr _, en') \<Rightarrow>
       if tc_tool call \<notin> set (gr_tools g) then (Inl (Tool_denied POLICY_DENIED ''tool_capability_denied''), en')
       else if gr_max_calls g \<le> en_usage en' (gr_id g) then (Inl (Tool_denied LIMIT_EXCEEDED ''capability_call_limit''), en')
       else (case validate_call te by pol t call of
           Inl e \<Rightarrow> (Inl e, en') | Inr _ \<Rightarrow> (Inr (), use_grant consume g en')))"

definition service_gate :: "capability_grant \<Rightarrow> string \<Rightarrow> bool" where
  "service_gate g capability = (if capability = ''workspace_stage'' then gr_write g
     else if capability = ''build'' then gr_build g
     else if capability = ''network'' then gr_network g
     else if capability = ''hardware'' \<or> capability = ''serial_monitor'' then gr_hardware g
     else False)"

definition validate_service :: "rat \<Rightarrow> capability_grant \<Rightarrow> string \<Rightarrow> string \<Rightarrow> bool \<Rightarrow> policy_engine \<Rightarrow> (tool_error + unit) \<times> policy_engine" where
  "validate_service now g service rt consume en = (let capability = py_lower (py_strip service) in
     case validate_live_grant now g rt en of
       (Inl e, en') \<Rightarrow> (Inl e, en')
     | (Inr _, en') \<Rightarrow>
         if capability \<notin> set (gr_services g) then (Inl (Tool_denied POLICY_DENIED ''service_capability_denied''), en')
         else if \<not> service_gate g capability then (Inl (Tool_denied POLICY_DENIED ''service_capability_gate_closed''), en')
         else if gr_max_calls g \<le> en_usage en' (gr_id g) then (Inl (Tool_denied LIMIT_EXCEEDED ''capability_call_limit''), en')
         else (Inr (), use_grant consume g en'))"

definition revoke :: "string \<Rightarrow> policy_engine \<Rightarrow> policy_engine" where
  "revoke i en = en\<lparr>en_revoked := insert i (en_revoked en)\<rparr>"

definition revoke_run :: "string \<Rightarrow> policy_engine \<Rightarrow> policy_engine" where
  "revoke_run run en = en\<lparr>en_revoked := en_revoked en \<union> fst ` set (filter (\<lambda>(i, g). gr_run g = run) (en_grants en))\<rparr>"

definition fence_run :: "string \<Rightarrow> policy_engine \<Rightarrow> policy_engine" where
  "fence_run run en = revoke_run run (en\<lparr>en_fenced := insert run (en_fenced en)\<rparr>)"

definition remaining_calls :: "capability_grant \<Rightarrow> policy_engine \<Rightarrow> int" where
  "remaining_calls g en = max 0 (gr_max_calls g - en_usage en (gr_id g))"

section \<open>Runs of the engine\<close>

datatype engine_op = Issue string grant_request | Use_tool tool_env beyond tool_policy vtree capability_grant tool_call string bool
  | Use_service capability_grant string string bool | Revoke string | Revoke_run string | Fence_run string

text \<open>An operation at a time: whether it let a call or a service use through under a grant, and the engine after it.\<close>

fun engine_step :: "rat \<Rightarrow> engine_op \<Rightarrow> policy_engine \<Rightarrow> capability_grant option \<times> policy_engine" where
  "engine_step now (Issue fresh rq) en = (None, snd (issue_grant now fresh rq en))"
| "engine_step now (Use_tool te by pol t g call rt consume) en =
     (let (r, en') = grant_call te by pol t now g call rt consume en in (if is_ok r then Some g else None, en'))"
| "engine_step now (Use_service g service rt consume) en =
     (let (r, en') = validate_service now g service rt consume en in (if is_ok r then Some g else None, en'))"
| "engine_step now (Revoke i) en = (None, revoke i en)"
| "engine_step now (Revoke_run run) en = (None, revoke_run run en)"
| "engine_step now (Fence_run run) en = (None, fence_run run en)"

definition consumes :: "engine_op \<Rightarrow> bool" where
  "consumes op = (case op of Use_tool _ _ _ _ _ _ _ c \<Rightarrow> c | Use_service _ _ _ c \<Rightarrow> c | _ \<Rightarrow> False)"

fun engine_run :: "(rat \<times> engine_op) list \<Rightarrow> policy_engine \<Rightarrow> (rat \<times> engine_op \<times> capability_grant) list \<times> policy_engine" where
  "engine_run [] en = ([], en)"
| "engine_run ((now, op) # ops) en = (let (r, en1) = engine_step now op en; (rest, en2) = engine_run ops en1 in
     ((case r of Some g \<Rightarrow> [(now, op, g)] | None \<Rightarrow> []) @ rest, en2))"

text \<open>What a use that was let through may rest on.\<close>

definition op_in_scope :: "engine_op \<Rightarrow> capability_grant \<Rightarrow> bool" where
  "op_in_scope op g = (case op of
     Use_tool te by pol t h call rt c \<Rightarrow> g = h \<and> gr_root g = rt \<and> tc_tool call \<in> set (gr_tools g) \<and> validate_call te by pol t call = Inr ()
   | Use_service h service rt c \<Rightarrow> g = h \<and> gr_root g = rt \<and> py_lower (py_strip service) \<in> set (gr_services g)
       \<and> service_gate g (py_lower (py_strip service))
   | _ \<Rightarrow> False)"

lemma live_grant_result:
  assumes "validate_live_grant now g rt en = (r, en1)"
  shows "en_fenced en1 = en_fenced en \<and> en_revoked en \<subseteq> en_revoked en1 \<and> en_usage en1 = en_usage en \<and> en_grants en1 = en_grants en
    \<and> (is_ok r \<longrightarrow> en1 = en \<and> now < gr_expires g \<and> gr_run g \<notin> en_fenced en \<and> gr_id g \<notin> en_revoked en \<and> gr_root g = rt)"
  using assms by (auto simp: validate_live_grant_def split: if_splits)

definition step_ok :: "rat \<Rightarrow> engine_op \<Rightarrow> policy_engine \<Rightarrow> capability_grant option \<Rightarrow> policy_engine \<Rightarrow> bool" where
  "step_ok now op en r en1 \<longleftrightarrow> en_fenced en \<subseteq> en_fenced en1 \<and> en_revoked en \<subseteq> en_revoked en1
     \<and> (\<forall>i. en_usage en1 i = en_usage en i + (if consumes op \<and> (\<exists>g. r = Some g \<and> gr_id g = i) then 1 else 0))
     \<and> (\<forall>g. r = Some g \<longrightarrow> op_in_scope op g \<and> en_usage en (gr_id g) < gr_max_calls g \<and> now < gr_expires g
          \<and> gr_run g \<notin> en_fenced en \<and> gr_id g \<notin> en_revoked en)"

lemma engine_step_ok:
  assumes "engine_step now op en = (r, en1)"
  shows "step_ok now op en r en1"
proof (cases op)
  case (Use_tool te bd pol t g call rt c)
  obtain x en' where l: "validate_live_grant now g rt en = (x, en')" by (cases "validate_live_grant now g rt en")
  show ?thesis
    using assms live_grant_result[OF l] Use_tool l
    by (cases x) (auto simp: grant_call_def step_ok_def use_grant_def consumes_def op_in_scope_def Let_def split: if_splits sum.splits)
next
  case (Use_service g service rt c)
  obtain x en' where l: "validate_live_grant now g rt en = (x, en')" by (cases "validate_live_grant now g rt en")
  show ?thesis
    using assms live_grant_result[OF l] Use_service l
    by (cases x) (auto simp: validate_service_def step_ok_def use_grant_def consumes_def op_in_scope_def Let_def split: if_splits)
next
  case (Issue fresh rq)
  then show ?thesis using assms by (auto simp: issue_grant_def step_ok_def consumes_def Let_def split: sum.splits if_splits)
qed (use assms in \<open>auto simp: step_ok_def consumes_def revoke_def revoke_run_def fence_run_def\<close>)

text \<open>C17. A grant confines what it allows: in any sequence of uses, revocations and fences by any threads, from any state of the
  engine, at most the calls that its limit leaves are charged to a grant; and whatever is let through under a
  grant is in its scope and for its workspace, before it expired, and neither revoked nor for a fenced run when it
  was used, so that nothing of a run is let through after the run is fenced.\<close>
theorem grant_confined:
  assumes "engine_run ops en = (trace, en')"
  shows "int (length (filter (\<lambda>(now, op, h). consumes op \<and> h = g) trace)) \<le> max 0 (gr_max_calls g - en_usage en (gr_id g))
    \<and> (\<forall>(now, op, h) \<in> set trace. op_in_scope op h \<and> now < gr_expires h \<and> gr_id h \<notin> en_revoked en \<and> gr_run h \<notin> en_fenced en)"
  using assms
proof (induction ops arbitrary: en en' trace)
  case (Cons x ops)
  obtain now op where x: "x = (now, op)" by (cases x)
  obtain r en1 where s: "engine_step now op en = (r, en1)" by (cases "engine_step now op en")
  obtain rest en2 where n: "engine_run ops en1 = (rest, en2)" by (cases "engine_run ops en1")
  have t: "trace = (case r of Some h \<Rightarrow> [(now, op, h)] | None \<Rightarrow> []) @ rest" using Cons.prems x s n by simp
  note ok = engine_step_ok[OF s]
  note ih = Cons.IH[OF n]
  have "en_usage en (gr_id g) \<le> en_usage en1 (gr_id g)" using ok by (auto simp: step_ok_def)
  moreover have "en_usage en1 (gr_id g) = en_usage en (gr_id g) + 1 \<and> en_usage en (gr_id g) < gr_max_calls g" if "r = Some g" "consumes op"
    using ok that by (auto simp: step_ok_def)
  ultimately have "int (length (filter (\<lambda>(now, op, h). consumes op \<and> h = g) trace)) \<le> max 0 (gr_max_calls g - en_usage en (gr_id g))"
    using ih unfolding t by (cases r) (auto simp: max_def split: if_splits)
  moreover have "\<forall>(now, op, h) \<in> set trace. op_in_scope op h \<and> now < gr_expires h \<and> gr_id h \<notin> en_revoked en \<and> gr_run h \<notin> en_fenced en"
    using ih ok unfolding t step_ok_def by (cases r) auto
  ultimately show ?case by blast
qed simp

definition demo_request :: grant_request where
  "demo_request = \<lparr>rq_run = ''r'', rq_node = ''n'', rq_root = ''/w'', rq_tools = [LOAD_SKILL], rq_services = [], rq_source = ''s'', rq_session = None,
     rq_ttl = None, rq_max_calls = 1, rq_write = False, rq_build = False, rq_network = False, rq_hardware = False\<rparr>"

definition demo_grant :: capability_grant where
  "demo_grant = \<lparr>gr_id = ''grant-1'', gr_session = None, gr_run = ''r'', gr_node = ''n'', gr_root = ''/w'', gr_tools = [LOAD_SKILL], gr_services = [],
     gr_source = ''s'', gr_expires = 301, gr_max_calls = 1, gr_write = False, gr_build = False, gr_network = False, gr_hardware = False\<rparr>"

text \<open>The second use exceeds the limit of one call; the third comes after the run is fenced.\<close>

definition demo_engine_ops :: "(rat \<times> engine_op) list" where
  "demo_engine_ops = (let use = Use_tool \<lparr>te_sha = id, te_json = (\<lambda>_. None), te_strict_json = (\<lambda>_. None)\<rparr>
        \<lparr>by_exists = (\<lambda>_. False), by_dir = (\<lambda>_. False)\<rparr> default_tool_policy [] demo_grant \<lparr>tc_tool = LOAD_SKILL, tc_args = [(''name'', VStr ''esp32'')]\<rparr> ''/w'' True
     in [(1, Issue ''1'' demo_request), (2, use), (3, use), (4, Fence_run ''r''), (5, use)])"

lemma grant_confined_witness:
  "map (\<lambda>(now, op, g). (now, g = demo_grant)) (fst (engine_run demo_engine_ops (new_engine 300))) = [(2, True)]
   \<and> length (filter (\<lambda>(now, op, h). consumes op \<and> h = demo_grant) (fst (engine_run demo_engine_ops (new_engine 300)))) \<le> 1"
proof -
  have "map (\<lambda>(now, op, g). (now, g = demo_grant)) (fst (engine_run demo_engine_ops (new_engine 300))) = [(2, True)]"
    by code_simp
  moreover obtain trace en' where r: "engine_run demo_engine_ops (new_engine 300) = (trace, en')"
    by (cases "engine_run demo_engine_ops (new_engine 300)")
  moreover have "int (length (filter (\<lambda>(now, op, h). consumes op \<and> h = demo_grant) trace)) \<le> 1"
    using grant_confined[OF r, of demo_grant] by (simp add: new_engine_def demo_grant_def)
  ultimately show ?thesis by simp
qed

end
