(* ===== verification/Tool_Text.thy ===== *)
theory Tool_Text
  imports Tool_Contracts Change_Sets "HOL-Library.Code_Target_Nat"
begin

text \<open>
  The text routines of the tool executor, \<^verbatim>\<open>backend/agent_runtime/tool_executor.py\<close>: lines, unified patches with
  exact context and their meaning as hunks of an edit script, the bounded window of a read, the edit that must match once, glob patterns and the
  environment sections of a \<^verbatim>\<open>platformio.ini\<close>. Texts are ASCII.
\<close>

section \<open>Lines\<close>

definition lf_char :: char where
  "lf_char = char_of (10 :: nat)"

definition cr_char :: char where
  "cr_char = char_of (13 :: nat)"

definition tab_char :: char where
  "tab_char = char_of (9 :: nat)"

definition is_break :: "char \<Rightarrow> bool" where
  "is_break c = (let n = of_char c :: nat in (10 \<le> n \<and> n \<le> 13) \<or> (28 \<le> n \<and> n \<le> 30))"

text \<open>\<^verbatim>\<open>splitlines(keepends=True)\<close>; a carriage return and the line feed after it are one line end.\<close>

fun split_keep :: "string \<Rightarrow> string list" where
  "split_keep [] = []"
| "split_keep [c] = [[c]]"
| "split_keep (c # d # cs) =
     (if c = cr_char \<and> d = lf_char then [c, d] # split_keep cs
      else if is_break c then [c] # split_keep (d # cs)
      else case split_keep (d # cs) of [] \<Rightarrow> [[c]] | l # ls \<Rightarrow> (c # l) # ls)"

definition line_text :: "string \<Rightarrow> string" where
  "line_text l = (if l \<noteq> [] \<and> last l = lf_char \<and> butlast l \<noteq> [] \<and> last (butlast l) = cr_char then butlast (butlast l)
     else if l \<noteq> [] \<and> is_break (last l) then butlast l else l)"

definition splitlines :: "string \<Rightarrow> string list" where
  "splitlines s = map line_text (split_keep s)"

fun join_lines :: "string \<Rightarrow> string list \<Rightarrow> string" where
  "join_lines sep [] = []"
| "join_lines sep [l] = l"
| "join_lines sep (l # ls) = l @ sep @ join_lines sep ls"

lemma split_keep_some [simp]: "split_keep (c # cs) \<noteq> []"
  by (cases cs) (auto split: list.split)

lemma concat_split_keep: "concat (split_keep s) = s"
  by (induction s rule: split_keep.induct) (auto split: list.split)

lemma split_keep_nonempty: "[] \<notin> set (split_keep s)"
  by (induction s rule: split_keep.induct) (auto split: list.split)

section \<open>Unified patches\<close>

abbreviation patch_error :: "string \<Rightarrow> tool_error" where
  "patch_error reason \<equiv> Tool_value_error (''patch_'' @ reason)"

definition is_digit :: "char \<Rightarrow> bool" where
  "is_digit c = (let n = of_char c :: nat in 48 \<le> n \<and> n \<le> 57)"

definition digits_value :: "string \<Rightarrow> nat" where
  "digits_value ds = foldl (\<lambda>n c. 10 * n + (of_char c - 48)) 0 ds"

definition expect :: "string \<Rightarrow> string \<Rightarrow> string option" where
  "expect p s = (if starts_with s p then Some (drop (length p) s) else None)"

definition parse_number :: "string \<Rightarrow> (nat \<times> string) option" where
  "parse_number s = (let ds = takeWhile is_digit s in if ds = [] then None else Some (digits_value ds, dropWhile is_digit s))"

text \<open>\<^verbatim>\<open>(\d+)(?:,(\d+))?\<close>; the count of a range without one is 1.\<close>

definition parse_range :: "string \<Rightarrow> (nat \<times> nat \<times> string) option" where
  "parse_range s = (case parse_number s of
     None \<Rightarrow> None
   | Some (start, rest) \<Rightarrow> (case (case expect '','' rest of None \<Rightarrow> None | Some r \<Rightarrow> parse_number r) of
       Some (count, rest') \<Rightarrow> Some (start, count, rest') | None \<Rightarrow> Some (start, 1, rest)))"

text \<open>The header of a hunk: where it starts in the old text, and its line counts in the old and in the new text.\<close>

definition hunk_header :: "string \<Rightarrow> (nat \<times> nat \<times> nat) option" where
  "hunk_header line = (case expect ''@@ -'' line of
     None \<Rightarrow> None
   | Some s \<Rightarrow> (case parse_range s of
       None \<Rightarrow> None
     | Some (old_start, old_count, s1) \<Rightarrow> (case expect '' +'' s1 of
         None \<Rightarrow> None
       | Some s2 \<Rightarrow> (case parse_range s2 of
           None \<Rightarrow> None
         | Some (_, new_count, s3) \<Rightarrow> (case expect '' @@'' s3 of
             None \<Rightarrow> None
           | Some s4 \<Rightarrow> if s4 = [] \<or> starts_with s4 '' '' then Some (old_start, old_count, new_count) else None)))))"

text \<open>The file names of the lines before the first hunk, and the lines from it on.\<close>

definition header_path :: "string \<Rightarrow> string list" where
  "header_path line = (let token = py_strip (takeWhile (\<lambda>c. c \<noteq> tab_char) (drop 4 line)) in
     if token = ''/dev/null'' then []
     else [map (\<lambda>c. if c = backslash_char then slash_char else c)
         (if starts_with token ''a/'' \<or> starts_with token ''b/'' then drop 2 token else token)])"

fun patch_headers :: "string list \<Rightarrow> string list \<times> string list" where
  "patch_headers [] = ([], [])"
| "patch_headers (line # lines) =
     (if starts_with line ''--- '' \<or> starts_with line ''+++ ''
      then let (paths, rest) = patch_headers lines in (header_path line @ paths, rest)
      else ([], line # lines))"

definition NO_NEWLINE :: string where
  "NO_NEWLINE = backslash_char # '' No newline at end of file''"

text \<open>The body of a hunk, up to the next header: the position in the source, the text so far, and how many lines the
  hunk consumed and produced.\<close>

fun patch_body :: "string list \<Rightarrow> nat \<Rightarrow> string list \<Rightarrow> nat \<Rightarrow> nat \<Rightarrow> string list
    \<Rightarrow> tool_error + nat \<times> string list \<times> nat \<times> nat \<times> string list" where
  "patch_body source pos result old new [] = Inr (pos, result, old, new, [])"
| "patch_body source pos result old new (line # lines) =
     (if starts_with line ''@@'' then Inr (pos, result, old, new, line # lines)
      else if line = NO_NEWLINE then patch_body source pos result old new lines
      else case line of
        [] \<Rightarrow> Inl (patch_error ''line_invalid'')
      | marker # body \<Rightarrow>
          if marker \<noteq> CHR '' '' \<and> marker \<noteq> CHR ''+'' \<and> marker \<noteq> CHR ''-'' then Inl (patch_error ''line_invalid'')
          else if marker = CHR ''+'' then patch_body source pos (result @ [body]) old (Suc new) lines
          else if length source \<le> pos \<or> source ! pos \<noteq> body then Inl (patch_error ''context_mismatch'')
          else if marker = CHR '' '' then patch_body source (Suc pos) (result @ [source ! pos]) (Suc old) (Suc new) lines
          else patch_body source (Suc pos) result (Suc old) new lines)"

lemma starts_with_Nil [simp]: "starts_with [] p \<longleftrightarrow> p = []"
  by (auto simp: starts_with_def)

lemma patch_body_shorter:
  "patch_body source pos result old new lines = Inr (pos', result', old', new', rest) \<Longrightarrow> length rest \<le> length lines"
proof (induction source pos result old new lines rule: patch_body.induct)
  case (2 source pos result old new line lines)
  then show ?case by (cases line) (auto split: if_splits)
qed simp

function patch_hunks :: "string list \<Rightarrow> nat \<Rightarrow> string list \<Rightarrow> string list \<Rightarrow> tool_error + nat \<times> string list" where
  "patch_hunks source pos result [] = Inr (pos, result)"
| "patch_hunks source pos result (line # lines) = (case hunk_header line of
     None \<Rightarrow> Inl (patch_error ''hunk_header_invalid'')
   | Some (old_start, old_count, new_count) \<Rightarrow>
       let target = (if old_start = 0 then 0 else old_start - 1) in
       if target < pos \<or> length source < target then Inl (patch_error ''hunk_range_invalid'')
       else (case patch_body source target (result @ take (target - pos) (drop pos source)) 0 0 lines of
           Inl e \<Rightarrow> Inl e
         | Inr (pos', result', old, new, rest) \<Rightarrow>
             if old \<noteq> old_count \<or> new \<noteq> new_count then Inl (patch_error ''hunk_count_mismatch'')
             else patch_hunks source pos' result' rest))"
  by pat_completeness auto
termination
  by (relation "measure (\<lambda>(source, pos, result, lines). length lines)") (auto dest!: patch_body_shorter)

definition newline_of :: "string \<Rightarrow> string" where
  "newline_of current = (if contains_sub current [cr_char, lf_char] then [cr_char, lf_char] else [lf_char])"

definition ends_line :: "string \<Rightarrow> bool" where
  "ends_line current = (current \<noteq> [] \<and> (last current = lf_char \<or> last current = cr_char))"

definition text_of_lines :: "string \<Rightarrow> bool \<Rightarrow> string list \<Rightarrow> string" where
  "text_of_lines newline final ls = join_lines newline ls @ (if final then newline else [])"

definition apply_unified_patch :: "string \<Rightarrow> string \<Rightarrow> string \<Rightarrow> tool_error + string" where
  "apply_unified_patch current patch expected_path =
     (if py_strip patch = [] then Inl (patch_error ''empty'')
      else let (paths, hunks) = patch_headers (splitlines patch) in
        if list_ex (\<lambda>p. p \<noteq> expected_path) paths then Inl (patch_error ''path_mismatch'')
        else if hunks = [] \<or> \<not> starts_with (hd hunks) ''@@'' then Inl (patch_error ''hunk_missing'')
        else let source = splitlines current in
          bind_result (patch_hunks source 0 [] hunks) (\<lambda>(pos, result).
            Inr (text_of_lines (newline_of current) (ends_line current) (result @ drop pos source))))"

section \<open>A patch makes exactly the changes it lists\<close>

text \<open>What a patch says, without the text it is applied to: the lines of a hunk as an edit script, and a list of hunks with
  the line each starts at.\<close>

datatype edit_op = Keep_line string | Delete_line string | Insert_line string

definition old_side :: "edit_op list \<Rightarrow> string list" where
  "old_side ops = concat (map (\<lambda>op. case op of Keep_line l \<Rightarrow> [l] | Delete_line l \<Rightarrow> [l] | Insert_line l \<Rightarrow> []) ops)"

definition new_side :: "edit_op list \<Rightarrow> string list" where
  "new_side ops = concat (map (\<lambda>op. case op of Keep_line l \<Rightarrow> [l] | Delete_line l \<Rightarrow> [] | Insert_line l \<Rightarrow> [l]) ops)"

fun hunk_ops :: "string list \<Rightarrow> edit_op list option" where
  "hunk_ops [] = Some []"
| "hunk_ops (line # lines) =
     (if line = NO_NEWLINE then hunk_ops lines
      else case line of
        [] \<Rightarrow> None
      | marker # body \<Rightarrow>
          if marker = CHR '' '' then map_option ((#) (Keep_line body)) (hunk_ops lines)
          else if marker = CHR ''-'' then map_option ((#) (Delete_line body)) (hunk_ops lines)
          else if marker = CHR ''+'' then map_option ((#) (Insert_line body)) (hunk_ops lines)
          else None)"

abbreviation in_hunk :: "string \<Rightarrow> bool" where
  "in_hunk line \<equiv> \<not> starts_with line ''@@''"

function listed_hunks :: "string list \<Rightarrow> (nat \<times> edit_op list) list option" where
  "listed_hunks [] = Some []"
| "listed_hunks (line # lines) =
     (case hunk_header line of
        None \<Rightarrow> None
      | Some (start, old_count, new_count) \<Rightarrow>
          (case hunk_ops (takeWhile in_hunk lines) of
             None \<Rightarrow> None
           | Some ops \<Rightarrow>
               if length (old_side ops) \<noteq> old_count \<or> length (new_side ops) \<noteq> new_count then None
               else map_option ((#) (start, ops)) (listed_hunks (dropWhile in_hunk lines))))"
  by pat_completeness auto
termination
  by (relation "measure length") (auto intro: le_imp_less_Suc length_dropWhile_le)

text \<open>The meaning of hunks: from a line on, the text is kept up to the line a hunk names, then reads the old side of the hunk, which
  the new side replaces, and the next hunk follows; what comes after the last one is kept. Line numbers start at 1, and 0
  also names the first line.\<close>

fun patched :: "nat \<Rightarrow> (nat \<times> edit_op list) list \<Rightarrow> string list \<Rightarrow> string list \<Rightarrow> bool" where
  "patched pos [] source result \<longleftrightarrow> result = source"
| "patched pos ((start, ops) # hunks) source result \<longleftrightarrow>
     (\<exists>kept source' result'. source = kept @ old_side ops @ source' \<and> result = kept @ new_side ops @ result' \<and>
        pos + length kept = start - 1 \<and> patched (pos + length kept + length (old_side ops)) hunks source' result')"

lemma sides [simp]:
  "old_side [] = []" "new_side [] = []"
  "old_side (op # ops) = (case op of Insert_line _ \<Rightarrow> old_side ops | Keep_line l \<Rightarrow> l # old_side ops | Delete_line l \<Rightarrow> l # old_side ops)"
  "new_side (op # ops) = (case op of Insert_line l \<Rightarrow> l # new_side ops | Keep_line l \<Rightarrow> l # new_side ops | Delete_line _ \<Rightarrow> new_side ops)"
  by (simp_all add: old_side_def new_side_def split: edit_op.splits)

definition reads_from :: "string list \<Rightarrow> nat \<Rightarrow> string list \<Rightarrow> bool" where
  "reads_from source pos ls \<longleftrightarrow> (\<exists>rest. drop pos source = ls @ rest)"

lemma reads_from_simps [simp]:
  "reads_from source pos []"
  "reads_from source pos (l # ls) \<longleftrightarrow> pos < length source \<and> source ! pos = l \<and> reads_from source (Suc pos) ls"
  by (auto simp: reads_from_def) (metis Cons_nth_drop_Suc drop_eq_Nil2 list.discI list.inject not_le)+

definition body_result :: "string list \<Rightarrow> nat \<Rightarrow> string list \<Rightarrow> nat \<Rightarrow> nat \<Rightarrow> edit_op list \<Rightarrow> string list
    \<Rightarrow> nat \<times> string list \<times> nat \<times> nat \<times> string list \<Rightarrow> bool" where
  "body_result source pos result old new ops rest x \<longleftrightarrow> reads_from source pos (old_side ops) \<and>
     x = (pos + length (old_side ops), result @ new_side ops, old + length (old_side ops), new + length (new_side ops), rest)"

lemma patch_body_iff:
  "patch_body source pos result old new lines = Inr x \<longleftrightarrow>
     (\<exists>ops. hunk_ops (takeWhile in_hunk lines) = Some ops \<and> body_result source pos result old new ops (dropWhile in_hunk lines) x)"
proof (induction source pos result old new lines arbitrary: x rule: patch_body.induct)
  case (1 source pos result old new)
  then show ?case by (auto simp: body_result_def)
next
  case (2 source pos result old new line lines)
  consider "starts_with line ''@@''" | "\<not> starts_with line ''@@''" "line = NO_NEWLINE" | "\<not> starts_with line ''@@''" "line \<noteq> NO_NEWLINE" "line = []"
    | m body where "\<not> starts_with line ''@@''" "line \<noteq> NO_NEWLINE" "line = m # body"
    by (cases line) blast+
  then show ?case
  proof cases
    case 1
    then show ?thesis by (auto simp: body_result_def)
  next
    case b: 2
    then show ?thesis using "2"(1)[OF b] by simp
  next
    case 3
    then show ?thesis by simp
  next
    case c: (4 m body)
    show ?thesis
      using c "2.IH"(2)[OF c(1,2,3)] "2.IH"(3)[OF c(1,2,3)] "2.IH"(4)[OF c(1,2,3)]
      by (auto simp: body_result_def)
  qed
qed

text \<open>The next hunk at a definite place of the whole source.\<close>

lemma patched_from:
  assumes "pos \<le> length source" "t = start - 1"
  shows "patched pos ((start, ops) # hunks) (drop pos source) out \<longleftrightarrow> pos \<le> t \<and> t \<le> length source \<and> reads_from source t (old_side ops) \<and>
     (\<exists>out'. out = take (t - pos) (drop pos source) @ new_side ops @ out' \<and>
        patched (t + length (old_side ops)) hunks (drop (t + length (old_side ops)) source) out')"
  (is "?l \<longleftrightarrow> ?r")
proof
  assume ?l
  then obtain kept source' out' where k: "drop pos source = kept @ old_side ops @ source'" "out = kept @ new_side ops @ out'"
      "pos + length kept = t" "patched (pos + length kept + length (old_side ops)) hunks source' out'"
    using assms(2) by auto
  have "drop t source = drop (length kept) (drop pos source)" using k(3) by (simp add: add.commute)
  then have d: "drop t source = old_side ops @ source'" by (simp add: k(1))
  have "drop (t + length (old_side ops)) source = source'"
    using arg_cong[OF d, of "drop (length (old_side ops))"] by (simp add: add.commute)
  moreover have "length kept \<le> length source - pos" using arg_cong[OF k(1), of length] by simp
  moreover have "take (t - pos) (drop pos source) = kept" using k(3) by (auto simp: k(1))
  ultimately show ?r using k d assms(1) by (auto simp: reads_from_def)
next
  assume r: ?r
  then obtain out' where o: "out = take (t - pos) (drop pos source) @ new_side ops @ out'"
      "patched (t + length (old_side ops)) hunks (drop (t + length (old_side ops)) source) out'" by blast
  let ?kept = "take (t - pos) (drop pos source)" and ?rest = "drop (t + length (old_side ops)) source"
  obtain rest where d: "drop t source = old_side ops @ rest" using r by (auto simp: reads_from_def)
  have rest: "rest = ?rest" using arg_cong[OF d, of "drop (length (old_side ops))"] by (simp add: add.commute)
  have "drop (t - pos) (drop pos source) = drop t source" using r by simp
  then have src: "drop pos source = ?kept @ old_side ops @ ?rest" using d rest by (metis append_take_drop_id)
  have len: "pos + length ?kept = t" using r by auto
  have "patched (pos + length ?kept + length (old_side ops)) hunks ?rest out'" unfolding len by (rule o(2))
  then show ?l unfolding patched.simps assms(2)[symmetric] using src o(1) len by blast
qed

lemma patch_hunks_iff:
  assumes "pos \<le> length source"
  shows "(\<exists>pos' result'. patch_hunks source pos result lines = Inr (pos', result') \<and> out = result' @ drop pos' source) \<longleftrightarrow>
    (\<exists>hunks out'. listed_hunks lines = Some hunks \<and> patched pos hunks (drop pos source) out' \<and> out = result @ out')"
  using assms
proof (induction source pos result lines rule: patch_hunks.induct)
  case (1 source pos result)
  then show ?case by simp
next
  case (2 source pos result line lines)
  show ?case
  proof (cases "hunk_header line")
    case None
    then show ?thesis by simp
  next
    case (Some h)
    obtain start old_count new_count where h: "hunk_header line = Some (start, old_count, new_count)" using Some by (cases h) auto
    have target: "(if start = 0 then 0 else start - 1) = start - 1" by simp
    show ?thesis
    proof (cases "start - 1 < pos \<or> length source < start - 1")
      case True
      then have "\<not> patched pos ((start, ops) # hunks) (drop pos source) out" for ops hunks out
        using patched_from[OF "2.prems" refl] by auto
      then show ?thesis using h True by (simp del: patched.simps split: option.splits) fastforce
    next
      case range: False
      let ?result = "result @ take (start - 1 - pos) (drop pos source)"
      let ?body = "patch_body source (start - 1) ?result 0 0 lines"
      have step: "patch_hunks source pos result (line # lines) = (case ?body of Inl e \<Rightarrow> Inl e
          | Inr (pos', result', old, new, rest) \<Rightarrow>
             if old \<noteq> old_count \<or> new \<noteq> new_count then Inl (patch_error ''hunk_count_mismatch'')
             else patch_hunks source pos' result' rest)"
        unfolding patch_hunks.simps h by (simp only: option.case prod.case Let_def target if_not_P[OF range])
      show ?thesis
      proof (cases "hunk_ops (takeWhile in_hunk lines)")
        case None
        then have "\<nexists>x. ?body = Inr x" by (simp add: patch_body_iff)
        then obtain e where "?body = Inl e" by (cases ?body) auto
        then show ?thesis unfolding step using h None by simp
      next
        case ops: (Some ops)
        let ?next = "start - 1 + length (old_side ops)"
        show ?thesis
        proof (cases "reads_from source (start - 1) (old_side ops)")
          case False
          then have "\<nexists>x. ?body = Inr x" by (simp add: patch_body_iff ops body_result_def)
          then obtain e where "?body = Inl e" by (cases ?body) auto
          moreover have "\<not> patched pos ((start, ops) # hunks) (drop pos source) out" for hunks out
            using False patched_from[OF "2.prems" refl] by auto
          ultimately show ?thesis unfolding step using h ops by (simp del: patched.simps) fastforce
        next
          case True
          have b: "?body = Inr (?next, ?result @ new_side ops, length (old_side ops), length (new_side ops), dropWhile in_hunk lines)"
            using True by (simp add: patch_body_iff ops body_result_def)
          have le: "?next \<le> length source" using True range by (auto simp: reads_from_def dest!: arg_cong[of _ _ length])
          show ?thesis
          proof (cases "length (old_side ops) \<noteq> old_count \<or> length (new_side ops) \<noteq> new_count")
            case True
            then show ?thesis unfolding step using h b ops by auto
          next
            case count: False
            have ih: "(\<exists>pos' result'. patch_hunks source ?next (?result @ new_side ops) (dropWhile in_hunk lines) = Inr (pos', result') \<and> out = result' @ drop pos' source) \<longleftrightarrow>
                (\<exists>hunks out'. listed_hunks (dropWhile in_hunk lines) = Some hunks \<and> patched ?next hunks (drop ?next source) out' \<and> out = (?result @ new_side ops) @ out')"
              by (rule 2(1)[OF h refl refl target[symmetric] range b refl refl refl refl count le])
            have "patch_hunks source pos result (line # lines) = patch_hunks source ?next (?result @ new_side ops) (dropWhile in_hunk lines)"
              unfolding step b using count by simp
            moreover have "listed_hunks (line # lines) = map_option ((#) (start, ops)) (listed_hunks (dropWhile in_hunk lines))"
              using h ops count by simp
            ultimately show ?thesis
              using ih True range patched_from[OF "2.prems" refl]
              by (auto simp del: patched.simps listed_hunks.simps patch_hunks.simps)
          qed
        qed
      qed
    qed
  qed
qed

lemma hunk_header_marker: "hunk_header line \<noteq> None \<Longrightarrow> starts_with line ''@@''"
proof -
  assume "hunk_header line \<noteq> None"
  then have "starts_with line ''@@ -''" by (auto simp: hunk_header_def expect_def split: if_splits)
  then have "take (Suc (Suc 0)) (take (Suc (Suc (Suc (Suc 0)))) line) = ''@@''" by (simp add: starts_with_def del: take_take)
  then show ?thesis by (simp add: starts_with_def)
qed

lemma listed_hunks_header: "listed_hunks lines = Some hunks \<Longrightarrow> hunks \<noteq> [] \<longleftrightarrow> lines \<noteq> [] \<and> starts_with (hd lines) ''@@''"
  using hunk_header_marker[of "hd lines"] by (cases lines) (auto split: option.splits if_splits)

text \<open>C28. A patch is applied exactly as written, line by line: it is accepted if and only if it is not blank, every file name in its headers is the
  expected path, and its hunks, each with the line counts of its header, can be read in the text at the lines they name, context
  and deleted lines matching exactly; and then the lines of the new text are those of the old one with every hunk replaced by its
  kept and inserted lines at its place. The text is taken as lines: all line ends are written as the newline of the file.\<close>
theorem patch_exact:
  "apply_unified_patch current patch path = Inr updated \<longleftrightarrow>
     py_strip patch \<noteq> [] \<and> list_all (\<lambda>p. p = path) (fst (patch_headers (splitlines patch))) \<and>
     (\<exists>hunks result. listed_hunks (snd (patch_headers (splitlines patch))) = Some hunks \<and> hunks \<noteq> [] \<and>
        patched 0 hunks (splitlines current) result \<and>
        updated = text_of_lines (newline_of current) (ends_line current) result)"
proof -
  obtain paths lines where p: "patch_headers (splitlines patch) = (paths, lines)" by (cases "patch_headers (splitlines patch)")
  let ?source = "splitlines current"
  have hunks: "(\<exists>pos' result'. patch_hunks ?source 0 [] lines = Inr (pos', result') \<and> out = result' @ drop pos' ?source) \<longleftrightarrow>
      (\<exists>hunks. listed_hunks lines = Some hunks \<and> patched 0 hunks ?source out)" for out
    using patch_hunks_iff[of 0 ?source "[]" lines out] by simp
  have "apply_unified_patch current patch path = Inr updated \<longleftrightarrow> py_strip patch \<noteq> [] \<and> list_all (\<lambda>p. p = path) paths \<and>
      lines \<noteq> [] \<and> starts_with (hd lines) ''@@'' \<and>
      (\<exists>out. (\<exists>pos' result'. patch_hunks ?source 0 [] lines = Inr (pos', result') \<and> out = result' @ drop pos' ?source) \<and>
        updated = text_of_lines (newline_of current) (ends_line current) out)"
    using p by (auto simp: apply_unified_patch_def Let_def sum_case_simps list_all_iff list_ex_iff)
  then show ?thesis
    unfolding hunks p fst_conv snd_conv using listed_hunks_header by blast
qed

definition demo_patch :: string where
  "demo_patch = join_lines [lf_char] [''--- a/main.c'', ''+++ b/main.c'', ''@@ -2,2 +2,2 @@'', ''-two'', ''+2'', '' three'']"

lemma patch_exact_witness:
  "\<exists>hunks result. hunks = [(2, [Delete_line ''two'', Insert_line ''2'', Keep_line ''three''])] \<and>
     patched 0 hunks [''one'', ''two'', ''three''] result \<and> result = [''one'', ''2'', ''three'']"
proof -
  let ?text = "join_lines [lf_char] [''one'', ''two'', ''three'', []]"
  have "apply_unified_patch ?text demo_patch ''main.c'' = Inr (join_lines [lf_char] [''one'', ''2'', ''three'', []])"
    by code_simp
  moreover have "splitlines ?text = [''one'', ''two'', ''three'']" by code_simp
  moreover have "newline_of ?text = [lf_char]" by code_simp
  moreover have "ends_line ?text" by code_simp
  moreover have "listed_hunks (snd (patch_headers (splitlines demo_patch))) = Some [(2, [Delete_line ''two'', Insert_line ''2'', Keep_line ''three''])]"
    by code_simp
  ultimately obtain result where "patched 0 [(2, [Delete_line ''two'', Insert_line ''2'', Keep_line ''three''])] [''one'', ''two'', ''three''] result"
    using patch_exact[of ?text demo_patch "''main.c''" "join_lines [lf_char] [''one'', ''2'', ''three'', []]"] by auto
  then show ?thesis by (auto simp: Cons_eq_append_conv)
qed

text \<open>A form feed counts as a line end, and every line end is written back as the newline of the file: a patch of one
  line changes text that it does not list.\<close>

lemma patch_rewrites_line_ends:
  "apply_unified_patch (''a'' @ [char_of (12 :: nat)] @ ''b'' @ [lf_char] @ ''c'' @ [lf_char]) (join_lines [lf_char] [''@@ -3 +3 @@'', ''-c'', ''+d'']) ''main.c''
     = Inr (''a'' @ [lf_char] @ ''b'' @ [lf_char] @ ''d'' @ [lf_char])"
  by code_simp

section \<open>The window of a read\<close>

text \<open>The length of \<^verbatim>\<open>json.dumps\<close> of a text.\<close>

definition json_char_len :: "char \<Rightarrow> nat" where
  "json_char_len c = (let n = of_char c :: nat in
     if n = 34 \<or> n = 92 \<or> n = 8 \<or> n = 9 \<or> n = 10 \<or> n = 12 \<or> n = 13 then 2 else if 32 \<le> n \<and> n \<le> 126 then 1 else 6)"

definition json_len :: "string \<Rightarrow> nat" where
  "json_len s = 2 + sum_list (map json_char_len s)"

definition numbered_line :: "nat \<Rightarrow> string \<Rightarrow> string" where
  "numbered_line number line = show_nat number @ '': '' @ rev (dropWhile (\<lambda>c. c = lf_char \<or> c = cr_char) (rev line)) @ [lf_char]"

definition omitted_line :: "nat \<Rightarrow> string \<Rightarrow> string" where
  "omitted_line number line = show_nat number @ '': '' @ line @ [lf_char] @ ''[remainder of line omitted]'' @ [lf_char]"

definition WINDOW :: nat where
  "WINDOW = 12000"

text \<open>A line that exceeds the window alone is halved until it fits; the empty line always does.\<close>

function shrink_line :: "nat \<Rightarrow> string \<Rightarrow> string" where
  "shrink_line number line = (if line = [] \<or> json_len line + json_len (omitted_line number line) \<le> WINDOW then line
     else shrink_line number (take (length line div 2) line))"
  by pat_completeness auto
termination
  by (relation "measure (\<lambda>(number, line). length line)") auto

declare shrink_line.simps [simp del]

text \<open>The lines of a read with their numbered forms, and the number of a line that is cut.\<close>

fun read_lines :: "nat \<Rightarrow> nat \<Rightarrow> bool \<Rightarrow> string list \<Rightarrow> (string \<times> string) list \<times> nat option" where
  "read_lines number used first [] = ([], None)"
| "read_lines number used first (line # lines) =
     (let annotated = numbered_line number line; size = json_len line + json_len annotated in
      if WINDOW < used + size
      then if \<not> first then ([], None)
        else let short = shrink_line number (take 2000 line) in ([(short, omitted_line number short)], Some number)
      else let (rest, cut) = read_lines (Suc number) (used + size) False lines in ((line, annotated) # rest, cut))"

definition read_page :: "string list \<Rightarrow> nat \<Rightarrow> nat \<Rightarrow> (string \<times> string) list \<times> nat option" where
  "read_page ls offset limit = read_lines offset 0 True (take limit (drop (offset - 1) ls))"

section \<open>Edits, patterns and environments\<close>

text \<open>\<^verbatim>\<open>s.count(sub)\<close> and \<^verbatim>\<open>s.replace(sub, new, 1)\<close> for a text \<open>sub\<close> that is not empty.\<close>

function count_sub :: "string \<Rightarrow> string \<Rightarrow> nat" where
  "count_sub sub s = (if sub = [] \<or> s = [] then 0
     else if starts_with s sub then Suc (count_sub sub (drop (length sub) s)) else count_sub sub (tl s))"
  by pat_completeness auto
termination
  by (relation "measure (\<lambda>(sub, s). length s)") auto

declare count_sub.simps [simp del]

fun replace_first :: "string \<Rightarrow> string \<Rightarrow> string \<Rightarrow> string" where
  "replace_first sub new [] = []"
| "replace_first sub new (c # cs) = (if starts_with (c # cs) sub then new @ drop (length sub) (c # cs) else c # replace_first sub new cs)"

definition to_crlf :: "string \<Rightarrow> string" where
  "to_crlf s = concat (map (\<lambda>c. if c = lf_char then [cr_char, lf_char] else [c]) s)"

text \<open>The character classes of \<^verbatim>\<open>fnmatch\<close>, without the brackets; a class that is not closed is a plain bracket.\<close>

fun in_class :: "string \<Rightarrow> char \<Rightarrow> bool" where
  "in_class [] c = False"
| "in_class [a] c = (c = a)"
| "in_class [a, b] c = (c = a \<or> c = b)"
| "in_class (a # b # d # rest) c = (if b = CHR ''-''
     then (of_char a \<le> (of_char c :: nat) \<and> of_char c \<le> (of_char d :: nat)) \<or> in_class rest c
     else c = a \<or> in_class (b # d # rest) c)"

definition class_matches :: "string \<Rightarrow> char \<Rightarrow> bool" where
  "class_matches cls c = (if starts_with cls ''!'' then \<not> in_class (tl cls) c else in_class cls c)"

definition bracket_class :: "string \<Rightarrow> (string \<times> string) option" where
  "bracket_class ps = (let skip = (if starts_with ps ''!'' then 1 else 0); skip' = (if starts_with (drop skip ps) '']'' then Suc skip else skip);
       rest = dropWhile (\<lambda>c. c \<noteq> CHR '']'') (drop skip' ps) in
     if rest = [] then None else Some (take (length ps - length rest) ps, tl rest))"

lemma bracket_class_shorter: "bracket_class ps = Some (cls, rest) \<Longrightarrow> length rest < length ps"
proof -
  have le: "length (dropWhile (\<lambda>c. c \<noteq> CHR '']'') (drop k ps)) \<le> length ps" for k
    using length_dropWhile_le[of _ "drop k ps"] by (rule order_trans) simp
  assume "bracket_class ps = Some (cls, rest)"
  then have "\<exists>k. rest = tl (dropWhile (\<lambda>c. c \<noteq> CHR '']'') (drop k ps)) \<and> dropWhile (\<lambda>c. c \<noteq> CHR '']'') (drop k ps) \<noteq> []"
    unfolding bracket_class_def Let_def by (metis option.distinct(1) option.inject prod.inject)
  then obtain k where "rest = tl (dropWhile (\<lambda>c. c \<noteq> CHR '']'') (drop k ps))" "dropWhile (\<lambda>c. c \<noteq> CHR '']'') (drop k ps) \<noteq> []"
    by blast
  then show ?thesis using le[of k] by (cases "dropWhile (\<lambda>c. c \<noteq> CHR '']'') (drop k ps)") simp_all
qed

function fnmatch :: "string \<Rightarrow> string \<Rightarrow> bool" where
  "fnmatch [] s = (s = [])"
| "fnmatch (p # ps) [] = (p = CHR ''*'' \<and> fnmatch ps [])"
| "fnmatch (p # ps) (c # cs) =
     (if p = CHR ''*'' then fnmatch ps (c # cs) \<or> fnmatch (p # ps) cs
      else if p = CHR ''?'' then fnmatch ps cs
      else if p = CHR ''['' then (case bracket_class ps of None \<Rightarrow> c = p \<and> fnmatch ps cs
          | Some (cls, rest) \<Rightarrow> class_matches cls c \<and> fnmatch rest cs)
      else c = p \<and> fnmatch ps cs)"
  by pat_completeness auto
termination
  by (relation "measure (\<lambda>(ps, s). length ps + length s)") (auto dest!: bracket_class_shorter)

text \<open>\<^verbatim>\<open>(?mi)^\s*\[\s*env:[^\]\r\n]+\]\s*$\<close>\<close>

definition env_section_at :: "string \<Rightarrow> bool" where
  "env_section_at s = (case expect ''['' (py_lstrip s) of None \<Rightarrow> False
     | Some s1 \<Rightarrow> let s2 = py_lstrip s1; name = takeWhile (\<lambda>c. c \<noteq> CHR '']'' \<and> c \<noteq> cr_char \<and> c \<noteq> lf_char) (drop 4 s2) in
         starts_with (py_lower s2) ''env:'' \<and> name \<noteq> [] \<and>
         (case expect '']'' (drop (4 + length name) s2) of None \<Rightarrow> False
          | Some rest \<Rightarrow> lf_char \<in> set (takeWhile is_space rest) \<or> py_lstrip rest = []))"

fun env_search :: "bool \<Rightarrow> string \<Rightarrow> bool" where
  "env_search line_start [] = False"
| "env_search line_start (c # cs) = (line_start \<and> env_section_at (c # cs) \<or> env_search (c = lf_char) cs)"

definition has_platformio_environment :: "string \<Rightarrow> bool" where
  "has_platformio_environment content = env_search True content"

section \<open>The lines of a page\<close>

lemma read_lines_bound: "length (fst (read_lines n u f ls)) \<le> length ls"
  by (induction n u f ls rule: read_lines.induct) (auto simp: Let_def split: prod.split)

lemma read_lines_progress: "ls \<noteq> [] \<Longrightarrow> fst (read_lines n u True ls) \<noteq> []"
  by (cases ls) (auto simp: Let_def split: prod.split)

definition line_fits :: "nat \<Rightarrow> string \<Rightarrow> bool" where
  "line_fits number line \<longleftrightarrow> json_len line + json_len (numbered_line number line) \<le> WINDOW"

lemma read_lines_fitting:
  assumes "\<And>i. i < length ls \<Longrightarrow> line_fits (n + i) (ls ! i)"  "u = 0 \<or> \<not> f"
  shows "map fst (fst (read_lines n u f ls)) = take (length (fst (read_lines n u f ls))) ls"
  using assms
proof (induction n u f ls rule: read_lines.induct)
  case (2 n u f l ls)
  let ?size = "json_len l + json_len (numbered_line n l)"
  have fits: "?size \<le> WINDOW" using "2.prems"(1)[of 0] by (simp add: line_fits_def)
  show ?case
  proof (cases "WINDOW < u + ?size")
    case True
    then have "\<not> f" using "2.prems"(2) fits by auto
    then show ?thesis using True by (simp add: Let_def)
  next
    case False
    have "line_fits (Suc n + i) (ls ! i)" if "i < length ls" for i
      using "2.prems"(1)[of "Suc i"] that by simp
    then show ?thesis using 2(1)[OF refl refl False] False by (auto simp: Let_def split: prod.split)
  qed
qed simp

text \<open>A page starts with the line that its offset names, has a line if there is one, and gives each line in full if every line
  fits the window.\<close>

lemma read_page_lines:
  assumes "1 \<le> limit" "1 \<le> offset" "page = fst (read_page ls offset limit)"
  shows "length page \<le> length ls - (offset - 1)" "offset \<le> length ls \<Longrightarrow> page \<noteq> []"
    "\<forall>i < length ls. line_fits (Suc i) (ls ! i) \<Longrightarrow> map fst page = take (length page) (drop (offset - 1) ls)"
proof -
  let ?rest = "take limit (drop (offset - 1) ls)"
  have len: "length page \<le> length ?rest" unfolding assms(3) read_page_def by (rule read_lines_bound)
  then show "length page \<le> length ls - (offset - 1)" by simp
  show "page \<noteq> []" if "offset \<le> length ls"
    unfolding assms(3) read_page_def by (rule read_lines_progress) (use that assms(1,2) in auto)
  show "map fst page = take (length page) (drop (offset - 1) ls)" if f: "\<forall>i < length ls. line_fits (Suc i) (ls ! i)"
  proof -
    have "line_fits (offset + i) (?rest ! i)" if "i < length ?rest" for i
    proof -
      have i: "offset - 1 + i < length ls" using that assms(2) by (simp, linarith)
      have "?rest ! i = ls ! (offset - 1 + i)" using that i by simp
      then show ?thesis using f[rule_format, OF i] assms(2) by simp
    qed
    from read_lines_fitting[OF this, of 0 True]
    have "map fst page = take (length page) ?rest" by (simp add: assms(3) read_page_def)
    moreover have "length page \<le> limit" using len by simp
    ultimately show ?thesis by (simp add: min_absorb1)
  qed
qed

end
