(* ===== verification/Tool_Executor.thy ===== *)
theory Tool_Executor
  imports Capabilities Tool_Text
begin

text \<open>
  The executor of agent tools, \<^verbatim>\<open>backend/agent_runtime/tool_executor.py\<close>: an overlay of a writable stage over the
  immutable active project. Reads prefer staged files, mutations go to the stage, a deletion hides the file of the
  active project, and every call is validated by the policy and charged to its capability grant first.

  Each step on the file system may fail, by the schedule of \<open>Fault_Io\<close>. Between the validation of a call and the
  publication of what it writes, other threads may use the engine: their operations are part of the environment.
  Paths are compared as on POSIX, where \<^verbatim>\<open>os.path.normcase\<close> is the identity. The temporary file of a write
  exists only during the call and is not part of the state. The line differ (\<^verbatim>\<open>difflib.unified_diff\<close>), the host's
  service handlers, the skill registry and the local tools of \<^verbatim>\<open>esp32_tools.py\<close>, which only read, are arguments; the advice
  that a failed edit carries is not modelled.
\<close>

section \<open>State\<close>

record executor =
  ex_stage :: vtree
  ex_deleted :: "string set"
  ex_edit_read :: "string set"
  ex_plan :: "pyval list"
  ex_engine :: "policy_engine option"

type_synonym tool_args = "(string \<times> pyval) list"

record exec_env =
  xe_active :: vtree
  xe_tools :: tool_env
  xe_by_active :: beyond
  xe_by_stage :: beyond
  xe_policy :: tool_policy
  xe_grant :: "capability_grant option"
  xe_root :: string
  xe_requirements :: "string list option"
  xe_now :: rat
  xe_later :: rat
  xe_between :: "(rat \<times> engine_op) list"
  xe_diff :: "string list \<Rightarrow> string list \<Rightarrow> string list"
  xe_local :: "tool_name \<Rightarrow> tool_args \<Rightarrow> executor \<Rightarrow> tool_error + pyval"
  xe_skill :: "string \<Rightarrow> tool_error + string"
  xe_service :: "tool_name \<Rightarrow> (tool_args \<Rightarrow> tool_error + pyval) option"

type_synonym 'a exec = "(executor, tool_error, 'a) io"

definition ask_io :: "(executor \<Rightarrow> tool_error + 'a) \<Rightarrow> 'a exec" where
  "ask_io f = bind_io (gets_io f) lift_io"

definition put_file :: "string list \<Rightarrow> vnode \<Rightarrow> vtree \<Rightarrow> vtree" where
  "put_file p n t = (p, n) # filter (\<lambda>(q, _). q \<noteq> p) t"

definition drop_file :: "string list \<Rightarrow> vtree \<Rightarrow> vtree" where
  "drop_file p t = filter (\<lambda>(q, _). q \<noteq> p) t"

text \<open>\<^verbatim>\<open>path.parent.mkdir(parents=True, exist_ok=True)\<close>\<close>

definition make_parents :: "string list \<Rightarrow> vtree \<Rightarrow> vtree" where
  "make_parents p t = t @ map (\<lambda>n. (take n p, Vdir)) (filter (\<lambda>n. node_at t (take n p) = None) [1..<length p])"

definition posix :: "string list \<Rightarrow> string" where
  "posix p = (if p = [] then ''.'' else join_on slash_char p)"

definition str_arg :: "tool_args \<Rightarrow> string \<Rightarrow> string \<Rightarrow> string" where
  "str_arg args k alt = (case dict_of args k of Some (VStr s) \<Rightarrow> s | _ \<Rightarrow> alt)"

definition nat_arg :: "tool_args \<Rightarrow> string \<Rightarrow> nat \<Rightarrow> nat" where
  "nat_arg args k alt = (case dict_of args k of Some (VInt n) \<Rightarrow> nat n | _ \<Rightarrow> alt)"

section \<open>The overlay\<close>

definition resolve_active :: "exec_env \<Rightarrow> string \<Rightarrow> tool_error + string list" where
  "resolve_active ev relative = resolve_path (xe_by_active ev) (xe_policy ev) (xe_active ev) relative False False"

definition resolve_stage :: "exec_env \<Rightarrow> string \<Rightarrow> executor \<Rightarrow> tool_error + string list" where
  "resolve_stage ev relative s = resolve_path (xe_by_stage ev) (xe_policy ev) (ex_stage s) relative False False"

definition overlay_directory :: "exec_env \<Rightarrow> string \<Rightarrow> executor \<Rightarrow> tool_error + string" where
  "overlay_directory ev relative s =
     bind_result (resolve_path (xe_by_active ev) (xe_policy ev) (xe_active ev) relative False True) (\<lambda>a.
     bind_result (resolve_path (xe_by_stage ev) (xe_policy ev) (ex_stage s) relative False True) (\<lambda>b.
     let directories = (if is_dir_at (xe_by_active ev) (xe_active ev) a then [join_on slash_char a] else [])
       @ (if is_dir_at (xe_by_stage ev) (ex_stage s) b then [join_on slash_char b] else []) in
     if directories = [] then Inl (Tool_denied FILE_NOT_FOUND ''directory_missing'') else Inr (last directories)))"

definition is_file_in :: "vtree \<Rightarrow> string list \<Rightarrow> bool" where
  "is_file_in t p = (case node_at t p of Some (Vfile _) \<Rightarrow> True | _ \<Rightarrow> False)"

definition overlay_files :: "exec_env \<Rightarrow> executor \<Rightarrow> string list" where
  "overlay_files ev s = sorted_set (filter (\<lambda>rel. rel \<notin> ex_deleted s)
     (map posix (filter (\<lambda>p. \<not> is_sensitive_path (posix p) \<and> \<not> list_ex (\<lambda>part. starts_with part ''.'') p)
       (filter (is_file_in (xe_active ev)) (map fst (xe_active ev)) @ filter (is_file_in (ex_stage s)) (map fst (ex_stage s))))))"

text \<open>Where the overlay finds a file: whether in the stage, and its path.\<close>

definition overlay_path :: "exec_env \<Rightarrow> string \<Rightarrow> executor \<Rightarrow> tool_error + (bool \<times> string list) option" where
  "overlay_path ev relative s =
     (if relative \<in> ex_deleted s then Inr None
      else bind_result (resolve_stage ev relative s) (\<lambda>p.
        if is_file_in (ex_stage s) p then Inr (Some (True, p))
        else bind_result (resolve_active ev relative) (\<lambda>q.
          Inr (if is_file_in (xe_active ev) q then Some (False, q) else None))))"

definition overlay_exists :: "exec_env \<Rightarrow> string \<Rightarrow> executor \<Rightarrow> tool_error + bool" where
  "overlay_exists ev relative s = bind_result (overlay_path ev relative s) (\<lambda>found. Inr (found \<noteq> None))"

definition file_bytes :: "exec_env \<Rightarrow> executor \<Rightarrow> bool \<times> string list \<Rightarrow> string" where
  "file_bytes ev s found = (case node_at (if fst found then ex_stage s else xe_active ev) (snd found) of Some (Vfile c) \<Rightarrow> c | _ \<Rightarrow> [])"

definition read_overlay_text :: "exec_env \<Rightarrow> string \<Rightarrow> executor \<Rightarrow> tool_error + string" where
  "read_overlay_text ev relative s =
     (if is_sensitive_path relative then Inl (Tool_denied POLICY_DENIED ''credential_read_forbidden'')
      else bind_result (overlay_path ev relative s) (\<lambda>found. case found of
        None \<Rightarrow> Inl (Tool_denied FILE_NOT_FOUND ''path_missing'')
      | Some f \<Rightarrow> let data = file_bytes ev s f in
          if tp_max_file (xe_policy ev) < int (length data) then Inl (Tool_denied CONTENT_INVALID ''file_too_large'')
          else if nul_char \<in> set data then Inl (Tool_denied CONTENT_INVALID ''binary_content_forbidden'')
          else if \<not> list_all (\<lambda>c. (of_char c :: nat) < 128) data then Inl (Tool_denied CONTENT_INVALID ''utf8_text_required'')
          else if has_high_confidence_secret data then Inl (Tool_denied POLICY_DENIED ''secret_content_forbidden'')
          else Inr data))"

definition mutation_relative :: "exec_env \<Rightarrow> string \<Rightarrow> executor \<Rightarrow> tool_error + string" where
  "mutation_relative ev relative s = bind_result (overlay_path ev relative s) (\<lambda>found. case found of
     None \<Rightarrow> Inl (Tool_value_error ''mutation_source_missing'') | Some f \<Rightarrow> Inr (posix (snd f)))"

definition mutation_source :: "exec_env \<Rightarrow> string \<Rightarrow> executor \<Rightarrow> tool_error + string" where
  "mutation_source ev relative s = bind_result (overlay_exists ev relative s) (\<lambda>found.
     if \<not> found then Inl (Tool_value_error ''mutation_source_missing'') else read_overlay_text ev relative s)"

section \<open>Writing and deleting in the stage\<close>

text \<open>The line ends of a file as \<^verbatim>\<open>read_text\<close> gives them.\<close>

fun universal_newlines :: "string \<Rightarrow> string" where
  "universal_newlines [] = []"
| "universal_newlines [c] = (if c = cr_char then [lf_char] else [c])"
| "universal_newlines (c # d # cs) = (if c = cr_char then lf_char # universal_newlines (if d = lf_char then cs else d # cs)
     else c # universal_newlines (d # cs))"

definition project_file_regression :: "exec_env \<Rightarrow> string \<Rightarrow> string \<Rightarrow> executor \<Rightarrow> tool_error + unit" where
  "project_file_regression ev relative content s =
     (if py_lower (map (\<lambda>c. if c = backslash_char then slash_char else c) relative) \<noteq> ''platformio.ini'' then Inr ()
      else bind_result (overlay_path ev relative s) (\<lambda>found. case found of
        None \<Rightarrow> Inr ()
      | Some f \<Rightarrow> let previous = universal_newlines (file_bytes ev s f) in
          require (\<not> (list_all (\<lambda>c. (of_char c :: nat) < 128) previous \<and> has_platformio_environment previous
            \<and> \<not> has_platformio_environment content)) (Tool_value_error ''platformio_environment_section_required'')))"

text \<open>The engine as the publication guard finds it, after what other threads did; the guard holds the engine's lock while
  the file is replaced.\<close>

definition publication_guard :: "exec_env \<Rightarrow> unit exec" where
  "publication_guard ev = bind_io (gets_io ex_engine) (\<lambda>engine. case (engine, xe_grant ev) of
     (Some en, Some g) \<Rightarrow> (case validate_live_grant (xe_later ev) g (xe_root ev) (snd (engine_run (xe_between ev) en)) of (r, en') \<Rightarrow>
        seq_io (modify_io (\<lambda>s. s\<lparr>ex_engine := Some en'\<rparr>)) (lift_io r))
   | _ \<Rightarrow> return_io ())"

definition replace_file :: "exec_env \<Rightarrow> string \<Rightarrow> string \<Rightarrow> unit exec" where
  "replace_file ev relative content =
     bind_io (ask_io (resolve_stage ev relative)) (\<lambda>q.
     bind_io (gets_io ex_stage) (\<lambda>stage.
     if node_at stage q = Some Vdir then raise_io Tool_os_error
     else step_io Tool_os_error (modify_io (\<lambda>s. s\<lparr>ex_stage := put_file q (Vfile content) (ex_stage s),
         ex_deleted := ex_deleted s - {relative}\<rparr>))))"

definition write_stage :: "exec_env \<Rightarrow> string \<Rightarrow> string \<Rightarrow> unit exec" where
  "write_stage ev relative content =
     seq_io (lift_io (validate_content (xe_policy ev) content))
     (seq_io (ask_io (project_file_regression ev relative content))
     (bind_io (ask_io (resolve_stage ev relative)) (\<lambda>p.
     seq_io (step_io Tool_os_error (modify_io (\<lambda>s. s\<lparr>ex_stage := make_parents p (ex_stage s)\<rparr>)))
     (seq_io (ask_io (resolve_stage ev relative))
     (seq_io (step_io Tool_os_error (return_io ()))
     (seq_io (publication_guard ev) (replace_file ev relative content)))))))"

definition unlink_io :: "string list \<Rightarrow> unit exec" where
  "unlink_io p = bind_io (gets_io ex_stage) (\<lambda>stage.
     if node_at stage p = Some Vdir then raise_io Tool_os_error
     else step_io Tool_os_error (modify_io (\<lambda>s. s\<lparr>ex_stage := drop_file p (ex_stage s)\<rparr>)))"

definition delete_stage_file :: "exec_env \<Rightarrow> string \<Rightarrow> unit exec" where
  "delete_stage_file ev relative =
     bind_io (ask_io (resolve_stage ev relative)) (\<lambda>p.
     bind_io (gets_io ex_stage) (\<lambda>stage.
     seq_io (when_io (exists_at (xe_by_stage ev) stage p) (unlink_io p))
       (modify_io (\<lambda>s. s\<lparr>ex_deleted := insert relative (ex_deleted s)\<rparr>))))"

section \<open>Results\<close>

definition edit_evidence :: "exec_env \<Rightarrow> string \<Rightarrow> string \<Rightarrow> (string \<times> pyval) list" where
  "edit_evidence ev before after = (let ls = xe_diff ev (splitlines before) (splitlines after);
       count = (\<lambda>c. VInt (int (length (filter (\<lambda>l. starts_with l [c] \<and> \<not> starts_with l [c, c, c]) ls)))) in
     [(''added'', count (CHR ''+'')), (''removed'', count (CHR ''-'')), (''diff'', VStr (take 16000 (join_lines [lf_char] ls)))])"

definition read_result :: "exec_env \<Rightarrow> string \<Rightarrow> string \<Rightarrow> nat \<Rightarrow> nat \<Rightarrow> pyval" where
  "read_result ev relative text offset limit =
     (let ls = split_keep text; (page, cut) = read_page ls offset limit; count = length page;
          starts = (if cut \<noteq> None then [] else map (\<lambda>k. offset + 80 * k) [0..<(count + 79) div 80]) in
      VDict [(''path'', VStr relative), (''offset'', VInt (int offset)),
        (''end_line'', if page = [] then VNone else VInt (int (offset + count - 1))),
        (''total_lines'', VInt (int (length ls))),
        (''next_offset'', if offset + count \<le> length ls then VInt (int (offset + count)) else VNone),
        (''content'', VStr (concat (map fst page))), (''numbered_content'', VStr (concat (map snd page))),
        (''content_sha256'', VStr (te_sha (xe_tools ev) text)),
        (''truncated_lines'', VList (case cut of None \<Rightarrow> [] | Some n \<Rightarrow> [VInt (int n)])),
        (''citation_ranges'', VList (map (\<lambda>start. VDict [(''start_line'', VInt (int start)),
            (''end_line'', VInt (int (min (start + 79) (offset + count - 1))))]) starts))])"

definition written_result :: "exec_env \<Rightarrow> string \<Rightarrow> string \<Rightarrow> string \<Rightarrow> (string \<times> pyval) list" where
  "written_result ev relative before after = [(''bytes'', VInt (int (length after))), (''path'', VStr relative)] @ edit_evidence ev before after"

section \<open>The tools\<close>

definition list_files :: "exec_env \<Rightarrow> tool_args \<Rightarrow> executor \<Rightarrow> tool_error + pyval" where
  "list_files ev args s = bind_result (overlay_directory ev (str_arg args ''path'' ''.'') s) (\<lambda>prefix.
     Inr (VList (strs_in (filter (\<lambda>path. prefix = [] \<or> path = prefix \<or> starts_with path (prefix @ ''/'')) (overlay_files ev s)))))"

definition directory_prefix :: "string \<Rightarrow> string" where
  "directory_prefix directory = (if directory = [] then [] else directory @ ''/'')"

definition glob_files :: "exec_env \<Rightarrow> tool_args \<Rightarrow> executor \<Rightarrow> tool_error + pyval" where
  "glob_files ev args s = bind_result (overlay_directory ev (str_arg args ''path'' ''.'') s) (\<lambda>directory.
     let prefix = directory_prefix directory in
     Inr (VList (strs_in (take 200 (filter (\<lambda>path. starts_with path prefix \<and> fnmatch (str_arg args ''pattern'' []) (drop (length prefix) path))
       (overlay_files ev s))))))"

definition grep_file :: "exec_env \<Rightarrow> string \<Rightarrow> executor \<Rightarrow> string \<Rightarrow> pyval list" where
  "grep_file ev query s path = (case read_overlay_text ev path s of
     Inl _ \<Rightarrow> []
   | Inr text \<Rightarrow> map (\<lambda>(line_no, line). VDict [(''path'', VStr path), (''line'', VInt (int line_no)), (''text'', VStr (take 500 line))])
       (filter (\<lambda>(line_no, line). contains_sub (py_lower line) query) (enumerate 1 (splitlines text))))"

definition grep_search :: "exec_env \<Rightarrow> tool_args \<Rightarrow> executor \<Rightarrow> tool_error + pyval" where
  "grep_search ev args s = bind_result (overlay_directory ev (str_arg args ''path'' ''.'') s) (\<lambda>directory.
     Inr (VList (take (nat_arg args ''max_results'' 50) (concat (map (grep_file ev (py_lower (str_arg args ''query'' [])) s)
       (filter (\<lambda>path. starts_with path (directory_prefix directory)) (overlay_files ev s)))))))"

definition read_file :: "exec_env \<Rightarrow> tool_args \<Rightarrow> pyval exec" where
  "read_file ev args = (let relative = str_arg args ''path'' [] in
     bind_io (ask_io (read_overlay_text ev relative)) (\<lambda>text.
     seq_io (modify_io (\<lambda>s. s\<lparr>ex_edit_read := ex_edit_read s - {relative}\<rparr>))
     (return_io (read_result ev relative text (nat_arg args ''offset'' 1) (nat_arg args ''limit'' 200)))))"

definition delete_file :: "exec_env \<Rightarrow> tool_args \<Rightarrow> pyval exec" where
  "delete_file ev args =
     bind_io (ask_io (mutation_relative ev (str_arg args ''path'' []))) (\<lambda>relative.
     bind_io (ask_io (mutation_source ev relative)) (\<lambda>before.
     seq_io (delete_stage_file ev relative)
     (return_io (VDict ([(''path'', VStr relative), (''change_type'', VStr ''deleted'')] @ edit_evidence ev before [])))))"

text \<open>When the source of a move cannot be removed, the destination is removed again.\<close>

definition undo_move :: "exec_env \<Rightarrow> string \<Rightarrow> string set \<Rightarrow> tool_error \<Rightarrow> unit exec" where
  "undo_move ev destination prior e =
     bind_io (ask_io (\<lambda>s. resolve_path (xe_by_stage ev) (xe_policy ev) (ex_stage s) destination True False)) (\<lambda>target.
     seq_io (unlink_io target) (seq_io (modify_io (\<lambda>s. s\<lparr>ex_deleted := prior\<rparr>)) (raise_io e)))"

definition move_file :: "exec_env \<Rightarrow> tool_args \<Rightarrow> pyval exec" where
  "move_file ev args =
     bind_io (ask_io (mutation_relative ev (str_arg args ''path'' []))) (\<lambda>relative.
     bind_io (lift_io (resolve_active ev (str_arg args ''destination'' []))) (\<lambda>d.
     bind_io (ask_io (mutation_source ev relative)) (\<lambda>before.
     bind_io (ask_io (overlay_exists ev (posix d))) (\<lambda>found.
     seq_io (lift_io (require (\<not> found) (Tool_value_error ''move_destination_exists'')))
     (seq_io (lift_io (validate_content (xe_policy ev) before))
     (bind_io (gets_io ex_deleted) (\<lambda>prior.
     seq_io (write_stage ev (posix d) before)
     (seq_io (catch_io (delete_stage_file ev relative) (undo_move ev (posix d) prior))
     (return_io (VDict [(''path'', VStr relative), (''destination'', VStr (posix d)), (''change_type'', VStr ''moved'')]))))))))))"

text \<open>A text given for a file whose lines end with a carriage return and a line feed gets the same line ends.\<close>

definition keep_crlf :: "string \<Rightarrow> string \<Rightarrow> string" where
  "keep_crlf active_bytes given = (if contains_sub active_bytes [cr_char, lf_char] \<and> \<not> contains_sub given [cr_char, lf_char]
     then to_crlf given else given)"

definition store_write :: "exec_env \<Rightarrow> string \<Rightarrow> bool \<Rightarrow> string \<Rightarrow> string \<Rightarrow> pyval exec" where
  "store_write ev relative existed before content = (let changed = (\<not> existed \<or> before \<noteq> content) in
     seq_io (when_io changed (write_stage ev relative content))
     (return_io (VDict ([(''created'', VBool (\<not> existed)), (''modified'', VBool (existed \<and> changed))]
        @ written_result ev relative before content))))"

definition write_file :: "exec_env \<Rightarrow> tool_args \<Rightarrow> pyval exec" where
  "write_file ev args = (let relative = str_arg args ''path'' [] in
     bind_io (ask_io (overlay_path ev relative)) (\<lambda>prior.
     bind_io (gets_io (\<lambda>s. case prior of None \<Rightarrow> [] | Some f \<Rightarrow> file_bytes ev s f)) (\<lambda>active_bytes.
     bind_io (if prior \<noteq> None then ask_io (read_overlay_text ev relative) else return_io []) (\<lambda>before.
     store_write ev relative (prior \<noteq> None) before (keep_crlf active_bytes (str_arg args ''content'' []))))))"

definition edit_file :: "exec_env \<Rightarrow> tool_args \<Rightarrow> pyval exec" where
  "edit_file ev args = (let relative = str_arg args ''path'' []; old_text = str_arg args ''old_text'' []; new_text = str_arg args ''new_text'' [] in
     bind_io (ask_io (read_overlay_text ev relative)) (\<lambda>current.
     bind_io (gets_io ex_edit_read) (\<lambda>required.
     if count_sub old_text current \<noteq> 1 \<or> relative \<in> required
     then seq_io (modify_io (\<lambda>s. s\<lparr>ex_edit_read := insert relative (ex_edit_read s)\<rparr>))
       (raise_io (Tool_value_error ''edit_match_must_be_exactly_one''))
     else let updated = replace_first old_text new_text current in
       seq_io (when_io (updated \<noteq> current) (write_stage ev relative updated))
       (return_io (VDict ((''modified'', VBool (updated \<noteq> current)) # written_result ev relative current updated))))))"

definition patch_file :: "exec_env \<Rightarrow> tool_args \<Rightarrow> pyval exec" where
  "patch_file ev args = (let relative = str_arg args ''path'' []; patch = str_arg args ''patch'' [] in
     bind_io (ask_io (read_overlay_text ev relative)) (\<lambda>current.
     bind_io (lift_io (apply_unified_patch current patch relative)) (\<lambda>updated.
     seq_io (when_io (updated \<noteq> current) (write_stage ev relative updated))
     (return_io (VDict ((''modified'', VBool (updated \<noteq> current)) # written_result ev relative current updated
        @ [(''patch_hunks'', VInt (int (count_sub ''@@'' patch div 2)))]))))))"

definition update_plan :: "exec_env \<Rightarrow> tool_args \<Rightarrow> pyval exec" where
  "update_plan ev args = bind_io (lift_io (validate_plan_steps (te_sha (xe_tools ev)) (xe_requirements ev) (spec_part (VDict args) ''steps'')))
     (\<lambda>steps. seq_io (modify_io (\<lambda>s. s\<lparr>ex_plan := steps\<rparr>)) (return_io (VDict [(''steps'', VList steps)])))"

definition present_file :: "exec_env \<Rightarrow> executor \<Rightarrow> pyval \<Rightarrow> tool_error + pyval" where
  "present_file ev s item = (let relative = (case dict_at item ''path'' of Some (VStr p) \<Rightarrow> p | _ \<Rightarrow> []) in
     if is_sensitive_path relative then Inl (Tool_denied POLICY_DENIED ''credential_read_forbidden'')
     else bind_result (overlay_path ev relative s) (\<lambda>found. case found of
       None \<Rightarrow> Inl (path_unsafe ''present_file_missing'')
     | Some f \<Rightarrow> let payload = file_bytes ev s f in
         Inr (VDict [(''path'', VStr relative),
           (''description'', VStr (case dict_at item ''description'' of Some (VStr d) \<Rightarrow> take 300 d | _ \<Rightarrow> [])),
           (''bytes'', VInt (int (length payload))), (''sha256'', VStr (te_sha (xe_tools ev) payload)), (''staged'', VBool (fst f))])))"

definition present_files :: "exec_env \<Rightarrow> tool_args \<Rightarrow> executor \<Rightarrow> tool_error + pyval" where
  "present_files ev args s = bind_result (results (present_file ev s) (case dict_of args ''files'' of Some (VList vs) \<Rightarrow> vs | _ \<Rightarrow> []))
     (\<lambda>files. Inr (VDict [(''files'', VList files), (''count'', VInt (int (length files)))]))"

definition host_service :: "exec_env \<Rightarrow> tool_name \<Rightarrow> tool_args \<Rightarrow> tool_error + pyval" where
  "host_service ev tool args = (case xe_service ev tool of
     Some handler \<Rightarrow> handler args
   | None \<Rightarrow> if tool \<in> set HOST_TOOLS then Inl (Tool_denied POLICY_DENIED ''tool_host_handler_unavailable'')
       else Inl (Tool_permission_error ''tool_not_executable''))"

section \<open>A call\<close>

definition validate_io :: "exec_env \<Rightarrow> tool_call \<Rightarrow> bool \<Rightarrow> unit exec" where
  "validate_io ev call consume =
     seq_io (bind_io (gets_io ex_engine) (\<lambda>engine. case engine of
         None \<Rightarrow> lift_io (validate_call (xe_tools ev) (xe_by_active ev) (xe_policy ev) (xe_active ev) call)
       | Some en \<Rightarrow> (case xe_grant ev of
           None \<Rightarrow> raise_io (Tool_denied POLICY_DENIED ''capability_required'')
         | Some g \<Rightarrow> (case grant_call (xe_tools ev) (xe_by_active ev) (xe_policy ev) (xe_active ev) (xe_now ev) g call (xe_root ev) consume en of
             (r, en') \<Rightarrow> seq_io (modify_io (\<lambda>s. s\<lparr>ex_engine := Some en'\<rparr>)) (lift_io r)))))
       (when_io (tc_tool call \<in> {LIST_FILES, GLOB_FILES, GREP_SEARCH})
         (seq_io (ask_io (overlay_directory ev (str_arg (tc_args call) ''path'' ''.''))) (return_io ())))"

definition run_tool :: "exec_env \<Rightarrow> tool_call \<Rightarrow> pyval exec" where
  "run_tool ev call = (let args = tc_args call in
     if (case map_of NEW_TOOLS (tc_tool call) of Some d \<Rightarrow> td_handler d = ''local'' | None \<Rightarrow> False)
     then ask_io (xe_local ev (tc_tool call) args)
     else case tc_tool call of
       LIST_FILES \<Rightarrow> ask_io (list_files ev args)
     | GLOB_FILES \<Rightarrow> ask_io (glob_files ev args)
     | GREP_SEARCH \<Rightarrow> ask_io (grep_search ev args)
     | READ_FILE \<Rightarrow> read_file ev args
     | DELETE_FILE \<Rightarrow> delete_file ev args
     | MOVE_FILE \<Rightarrow> move_file ev args
     | WRITE_FILE \<Rightarrow> write_file ev args
     | EDIT_FILE_SIMPLE \<Rightarrow> edit_file ev args
     | APPLY_PATCH \<Rightarrow> patch_file ev args
     | UPDATE_PLAN \<Rightarrow> update_plan ev args
     | LOAD_SKILL \<Rightarrow> let name = str_arg args ''name'' [] in
         bind_io (lift_io (xe_skill ev name)) (\<lambda>content. return_io (VDict [(''name'', VStr name), (''content'', VStr content)]))
     | PRESENT_FILES \<Rightarrow> ask_io (present_files ev args)
     | tool \<Rightarrow> lift_io (host_service ev tool args))"

definition execute :: "exec_env \<Rightarrow> tool_call \<Rightarrow> pyval exec" where
  "execute ev call = seq_io (validate_io ev call True) (run_tool ev call)"

end
