(* ===== verification/Executor_Props.thy ===== *)
theory Executor_Props
  imports Tool_Executor
begin

text \<open>
  Properties of the tool executor: the overlay implements a single project of texts by path, whatever fails; nothing that
  the policy refuses is ever staged; and a reader that goes on at the next offset of each answer gets the whole file.
\<close>

section \<open>Paths\<close>

definition path_of :: "string \<Rightarrow> string list" where
  "path_of relative = (if relative = ''.'' then [] else split_on slash_char relative)"

lemma posix_path_of [simp]: "posix (path_of relative) = relative"
  by (simp add: posix_def path_of_def)

lemma path_of_inject [simp]: "path_of a = path_of b \<longleftrightarrow> a = b"
  by (metis posix_path_of)

lemma valid_relative: "validate_relative_path v = Inr w \<Longrightarrow> w = v"
  by (auto simp: validate_relative_path_def Let_def split: if_splits)

lemma resolve_path_facts:
  assumes "resolve_path by pol t relative must allow = Inr p"
  shows "p = path_of relative \<and> validate_relative_path relative = Inr relative \<and> \<not> through_link t p
    \<and> (p \<noteq> [] \<and> \<not> allow \<longrightarrow> extension_ok pol p)"
proof -
  obtain w where w: "validate_relative_path relative = Inr w" using assms by (auto simp: resolve_path_def sum_case_simps)
  then have "w = relative" by (rule valid_relative)
  then show ?thesis using assms w by (auto simp: resolve_path_def path_of_def sum_case_simps Let_def split: if_splits)
qed

section \<open>The tree after an operation\<close>

lemma map_of_others: "map_of (filter (\<lambda>(q, _). q \<noteq> p) t) q = (if q = p then None else map_of t q)"
  by (induction t) auto

lemma node_put: "p \<noteq> [] \<Longrightarrow> node_at (put_file p n t) q = (if q = p then Some n else node_at t q)"
  by (simp add: node_at_def put_file_def map_of_others)

lemma node_drop: "node_at (drop_file p t) q = (if q = p \<and> p \<noteq> [] then None else node_at t q)"
  by (simp add: node_at_def drop_file_def map_of_others)

lemma map_of_append_first: "map_of xs k \<noteq> None \<Longrightarrow> map_of (xs @ ys) k = map_of xs k"
  by (auto simp: map_add_def split: option.splits)

lemma map_of_dirs: "map_of (map (\<lambda>n. (f n, Vdir)) ns) q = (if q \<in> f ` set ns then Some Vdir else None)"
  by (induction ns) auto

lemma node_make_parents: "node_at (make_parents p t) q = node_at t q \<or> node_at t q = None \<and> node_at (make_parents p t) q = Some Vdir"
  by (auto simp: node_at_def make_parents_def map_add_def map_of_dirs split: option.split)

lemma make_parents_exist: "node_at (make_parents p t) (butlast p) \<noteq> None"
proof (cases "length p \<le> 1")
  case True
  then have "butlast p = []" by (cases p) (auto simp: le_Suc_eq)
  then show ?thesis by (simp add: node_at_def)
next
  case False
  then have "length p - 1 \<in> set [1..<length p]" "take (length p - 1) p = butlast p" by (auto simp: butlast_conv_take)
  then show ?thesis
    using node_make_parents[of p t "butlast p"]
    by (auto simp: node_at_def make_parents_def map_add_def map_of_dirs image_iff split: option.splits if_splits)
qed

lemma through_link_put: "p \<noteq> [] \<Longrightarrow> through_link (put_file p (Vfile c) t) q \<Longrightarrow> through_link t q"
  by (auto simp: through_link_def list_ex_iff node_put split: if_splits)

text \<open>A file that has just been put below an existing directory is found again.\<close>

lemma resolve_put:
  assumes "resolve_path by pol t relative False False = Inr p" "p \<noteq> []" "node_at t (butlast p) \<noteq> None"
  shows "resolve_path by pol (put_file p (Vfile c) t) relative True False = Inr p"
proof -
  have facts: "p = path_of relative" "validate_relative_path relative = Inr relative" "\<not> through_link t p" "extension_ok pol p"
    using resolve_path_facts[OF assms(1)] assms(2) by auto
  have links: "\<not> through_link (put_file p (Vfile c) t) p" using through_link_put[OF assms(2)] facts(3) by blast
  have "butlast p \<noteq> p" using assms(2) by (metis append_butlast_last_id length_append_singleton n_not_Suc_n)
  have up: "\<not> through_link u (butlast p)" if "\<not> through_link u p" for u
  proof
    assume "through_link u (butlast p)"
    then obtain n where "n \<in> set [1..<Suc (length (butlast p))]" and n: "node_at u (take n (butlast p)) = Some Vlink"
      unfolding through_link_def list_ex_iff by blast
    then have "n \<in> {1..length p - 1}" by (simp only: set_upt length_butlast atLeastLessThanSuc_atLeastAtMost)
    note n = this n
    then have "n < length p" by (simp, linarith)
    then show False using n that by (auto simp: through_link_def list_ex_iff take_butlast)
  qed
  have dir: "node_at t (butlast p) = Some Vdir"
    using assms facts(2) up[OF facts(3)] facts(1)
    by (auto simp: resolve_path_def exists_at_def is_dir_at_def Let_def sum_case_simps path_of_def split: if_splits)
  then show ?thesis
    using facts links up[OF links] assms(2) \<open>butlast p \<noteq> p\<close>
    by (simp add: resolve_path_def exists_at_def is_dir_at_def validate_existing_components_def require_def Let_def node_put path_of_def split: if_splits)
qed

section \<open>The project that the overlay shows\<close>

definition view :: "exec_env \<Rightarrow> executor \<Rightarrow> string \<Rightarrow> string option" where
  "view ev s relative =
     (if relative \<in> ex_deleted s then None
      else case node_at (ex_stage s) (path_of relative) of
        Some (Vfile c) \<Rightarrow> Some c
      | _ \<Rightarrow> (case node_at (xe_active ev) (path_of relative) of Some (Vfile c) \<Rightarrow> Some c | _ \<Rightarrow> None))"

definition written_text :: "string option \<Rightarrow> string \<Rightarrow> string" where
  "written_text old given = (case old of None \<Rightarrow> given
     | Some c \<Rightarrow> if contains_sub c [cr_char, lf_char] \<and> \<not> contains_sub given [cr_char, lf_char] then to_crlf given else given)"

text \<open>What a call does to a project: a partial map from paths to texts.\<close>

definition project_call :: "tool_call \<Rightarrow> (string \<rightharpoonup> string) \<Rightarrow> (string \<rightharpoonup> string)" where
  "project_call call m = (let arg = (\<lambda>k. str_arg (tc_args call) k []); path = arg ''path'' in
     case (tc_tool call, m path) of
       (WRITE_FILE, old) \<Rightarrow> m(path \<mapsto> written_text old (arg ''content''))
     | (EDIT_FILE_SIMPLE, Some c) \<Rightarrow> m(path \<mapsto> replace_first (arg ''old_text'') (arg ''new_text'') c)
     | (APPLY_PATCH, Some c) \<Rightarrow> (case apply_unified_patch c (arg ''patch'') path of Inr u \<Rightarrow> m(path \<mapsto> u) | Inl _ \<Rightarrow> m)
     | (DELETE_FILE, _) \<Rightarrow> m(path := None)
     | (MOVE_FILE, Some c) \<Rightarrow> m(arg ''destination'' \<mapsto> c, path := None)
     | _ \<Rightarrow> m)"

text \<open>A move that has written its destination but not removed its source.\<close>

definition half_moved :: "tool_call \<Rightarrow> (string \<rightharpoonup> string) \<Rightarrow> (string \<rightharpoonup> string)" where
  "half_moved call m = (case (tc_tool call, m (str_arg (tc_args call) ''path'' [])) of
     (MOVE_FILE, Some c) \<Rightarrow> m(str_arg (tc_args call) ''destination'' [] \<mapsto> c) | _ \<Rightarrow> m)"

lemma view_other_fields [simp]:
  "view ev (s\<lparr>ex_engine := x\<rparr>) = view ev s" "view ev (s\<lparr>ex_edit_read := y\<rparr>) = view ev s" "view ev (s\<lparr>ex_plan := z\<rparr>) = view ev s"
  by (auto simp: view_def)

lemma view_make_parents [simp]: "view ev (s\<lparr>ex_stage := make_parents p (ex_stage s)\<rparr>) = view ev s"
proof
  fix r
  show "view ev (s\<lparr>ex_stage := make_parents p (ex_stage s)\<rparr>) r = view ev s r"
    using node_make_parents[of p "ex_stage s" "path_of r"] by (auto simp: view_def)
qed

lemma view_put:
  assumes "path_of r \<noteq> []"
  shows "view ev (s\<lparr>ex_stage := put_file (path_of r) (Vfile c) (ex_stage s), ex_deleted := ex_deleted s - {r}\<rparr>) = (view ev s)(r \<mapsto> c)"
  using assms by (auto simp: view_def node_put)

lemma view_drop:
  assumes "path_of r \<noteq> []"
  shows "view ev (s\<lparr>ex_stage := drop_file (path_of r) (ex_stage s), ex_deleted := insert r (ex_deleted s)\<rparr>) = (view ev s)(r := None)"
  using assms by (auto simp: view_def node_drop)

lemma overlay_path_view:
  assumes "overlay_path ev r s = Inr found"
  shows "view ev s r = map_option (file_bytes ev s) found \<and> (\<forall>f. found = Some f \<longrightarrow> snd f = path_of r)"
proof (cases "r \<in> ex_deleted s")
  case False
  then obtain p where p: "resolve_stage ev r s = Inr p" using assms by (auto simp: overlay_path_def sum_case_simps)
  then have "p = path_of r" using resolve_path_facts unfolding resolve_stage_def by blast
  moreover have "q = path_of r" if "resolve_active ev r = Inr q" for q
    using that resolve_path_facts unfolding resolve_active_def by blast
  ultimately show ?thesis
    using assms False p
    by (auto simp: overlay_path_def sum_case_simps view_def is_file_in_def file_bytes_def split: if_splits option.splits vnode.splits)
qed (use assms in \<open>auto simp: overlay_path_def view_def\<close>)

lemma read_overlay_view:
  assumes "read_overlay_text ev r s = Inr text"
  shows "view ev s r = Some text"
proof -
  obtain found where "overlay_path ev r s = Inr found" using assms by (auto simp: read_overlay_text_def sum_case_simps split: if_splits)
  moreover from this have "map_option (file_bytes ev s) found = Some text"
    using assms by (auto simp: read_overlay_text_def Let_def split: if_splits option.splits)
  ultimately show ?thesis using overlay_path_view by metis
qed

section \<open>Rules for the steps\<close>

lemma triple_ask:
  assumes "\<And>a. triple calm (\<lambda>s. P s \<and> f s = Inr a) (k a) Q E D" "\<And>e s. P s \<Longrightarrow> f s = Inl e \<Longrightarrow> E e s"
  shows "triple calm P (bind_io (ask_io f) k) Q E D"
proof (rule triple_bind)
  show "triple calm P (ask_io f) (\<lambda>a s. P s \<and> f s = Inr a) E D"
    using assms(2) by (auto simp: ask_io_def triple_def bind_io_def gets_io_def lift_io_def raise_io_def return_io_def split: sum.splits)
qed (rule assms(1))

lemma triple_ask_seq:
  assumes "\<And>a. triple calm (\<lambda>s. P s \<and> f s = Inr a) k Q E D" "\<And>e s. P s \<Longrightarrow> f s = Inl e \<Longrightarrow> E e s"
  shows "triple calm P (seq_io (ask_io f) k) Q E D"
  unfolding seq_io_def by (rule triple_ask) (rule assms)+

lemma triple_ask_only: "(\<And>e s. P s \<Longrightarrow> f s = Inl e \<Longrightarrow> E e s) \<Longrightarrow> triple calm P (ask_io f) (\<lambda>_. P) E D"
  by (auto simp: ask_io_def triple_def bind_io_def gets_io_def lift_io_def raise_io_def return_io_def split: sum.splits)

section \<open>Mutations of the stage\<close>

definition in_view :: "exec_env \<Rightarrow> (string \<rightharpoonup> string) \<Rightarrow> string set \<Rightarrow> executor \<Rightarrow> bool" where
  "in_view ev m D s \<longleftrightarrow> view ev s = m \<and> ex_deleted s = D"

lemma in_view_fields [simp]:
  "in_view ev m D (s\<lparr>ex_engine := x\<rparr>) = in_view ev m D s" "in_view ev m D (s\<lparr>ex_edit_read := y\<rparr>) = in_view ev m D s"
  "in_view ev m D (s\<lparr>ex_plan := z\<rparr>) = in_view ev m D s"
  "in_view ev m D (s\<lparr>ex_stage := make_parents p (ex_stage s)\<rparr>) = in_view ev m D s"
  by (simp_all add: in_view_def)

definition just_written :: "exec_env \<Rightarrow> string \<Rightarrow> executor \<Rightarrow> bool" where
  "just_written ev r s \<longleftrightarrow> resolve_path (xe_by_stage ev) (xe_policy ev) (ex_stage s) r True False = Inr (path_of r)
     \<and> is_file_in (ex_stage s) (path_of r)"

lemma resolve_stage_path: "resolve_stage ev r s = Inr p \<Longrightarrow> p = path_of r"
  using resolve_path_facts unfolding resolve_stage_def by blast

lemma guard_triple:
  assumes "\<And>s x. P s \<Longrightarrow> P (s\<lparr>ex_engine := x\<rparr>)"
  shows "triple calm P (publication_guard ev) (\<lambda>_. P) (\<lambda>_. P) D"
  unfolding publication_guard_def
proof (rule triple_gets_bind)
  fix engine
  show "triple calm (\<lambda>s. P s \<and> engine = ex_engine s)
     (case (engine, xe_grant ev) of
       (Some en, Some g) \<Rightarrow> (case validate_live_grant (xe_later ev) g (xe_root ev) (snd (engine_run (xe_between ev) en)) of (r, en') \<Rightarrow>
          seq_io (modify_io (\<lambda>s. s\<lparr>ex_engine := Some en'\<rparr>)) (lift_io r))
     | _ \<Rightarrow> return_io ()) (\<lambda>_. P) (\<lambda>_. P) D"
    by (auto split: option.split prod.split intro!: triple_imp_return triple_seq[of _ _ _ P] triple_modify_rule triple_lift assms)
qed

lemma replace_triple:
  "triple calm (\<lambda>s. in_view ev m D s \<and> node_at (ex_stage s) (butlast (path_of r)) \<noteq> None) (replace_file ev r content)
     (\<lambda>_ s. in_view ev (m(r \<mapsto> content)) (D - {r}) s \<and> just_written ev r s) (\<lambda>_. in_view ev m D) (in_view ev m D)"
  unfolding replace_file_def
proof (rule triple_ask, rule triple_gets_bind)
  fix q stage
  let ?f = "\<lambda>s. s\<lparr>ex_stage := put_file q (Vfile content) (ex_stage s), ex_deleted := ex_deleted s - {r}\<rparr>"
  let ?P = "\<lambda>s. ((in_view ev m D s \<and> node_at (ex_stage s) (butlast (path_of r)) \<noteq> None) \<and> resolve_stage ev r s = Inr q) \<and> stage = ex_stage s"
  show "triple calm ?P (if node_at stage q = Some Vdir then raise_io Tool_os_error else step_io Tool_os_error (modify_io ?f))
      (\<lambda>_ s. in_view ev (m(r \<mapsto> content)) (D - {r}) s \<and> just_written ev r s) (\<lambda>_. in_view ev m D) (in_view ev m D)"
  proof (cases "node_at stage q = Some Vdir")
    case False
    then have q: "q \<noteq> []" by (auto simp: node_at_def)
    have "in_view ev (m(r \<mapsto> content)) (D - {r}) (?f s) \<and> just_written ev r (?f s)" if "?P s" for s
    proof -
      have "q = path_of r" using that resolve_stage_path by blast
      then show ?thesis
        using that q resolve_put[of "xe_by_stage ev" "xe_policy ev" "ex_stage s" r q content] view_put[of r ev s content]
        by (auto simp: in_view_def just_written_def resolve_stage_def is_file_in_def node_put)
    qed
    then show ?thesis using False by (auto intro!: triple_step_modify)
  qed (auto intro!: triple_imp_raise)
qed auto

lemma write_stage_triple:
  "triple calm (in_view ev m D) (write_stage ev r content) (\<lambda>_ s. in_view ev (m(r \<mapsto> content)) (D - {r}) s \<and> just_written ev r s)
     (\<lambda>_. in_view ev m D) (in_view ev m D)" (is "triple calm ?P _ ?Q ?E ?D")
proof -
  define R where "R = (\<lambda>s. ?P s \<and> node_at (ex_stage s) (butlast (path_of r)) \<noteq> None)"
  have guard: "triple calm R (seq_io (publication_guard ev) (replace_file ev r content)) ?Q ?E ?D"
    unfolding R_def by (rule triple_seq[OF triple_post[OF guard_triple] replace_triple]) auto
  have temporary: "triple calm R (step_io Tool_os_error (return_io ())) (\<lambda>_. R) ?E ?D"
    by (rule triple_step) (auto simp: R_def intro: triple_imp_return)
  have rest: "triple calm R (seq_io (ask_io (resolve_stage ev r)) (seq_io (step_io Tool_os_error (return_io ()))
      (seq_io (publication_guard ev) (replace_file ev r content)))) ?Q ?E ?D"
    by (rule triple_ask_seq, rule triple_pre[OF triple_seq[OF temporary guard]]) (auto simp: R_def)
  have made: "triple calm (\<lambda>s. ?P s \<and> resolve_stage ev r s = Inr p)
      (step_io Tool_os_error (modify_io (\<lambda>s. s\<lparr>ex_stage := make_parents p (ex_stage s)\<rparr>))) (\<lambda>_. R) ?E ?D" for p
  proof (rule triple_step_modify)
    fix s assume "?P s \<and> resolve_stage ev r s = Inr p"
    then show "R (s\<lparr>ex_stage := make_parents p (ex_stage s)\<rparr>)"
      using make_parents_exist[of p "ex_stage s"] resolve_stage_path[of ev r s p] by (simp add: R_def)
  qed auto
  show ?thesis
    unfolding write_stage_def
    by (intro triple_lift_seq triple_ask_seq triple_ask triple_pre[OF triple_seq[OF made rest]]) auto
qed

text \<open>Removing a file of the stage; without faults it is removed.\<close>

lemma unlink_triple:
  assumes "\<And>s. P s \<Longrightarrow> Q (s\<lparr>ex_stage := drop_file p (ex_stage s)\<rparr>)" "\<And>s. \<not> (calm \<and> is_file) \<Longrightarrow> P s \<Longrightarrow> E Tool_os_error s \<and> D s"
    "\<And>s. P s \<Longrightarrow> is_file \<Longrightarrow> is_file_in (ex_stage s) p"
  shows "triple calm P (unlink_io p) (\<lambda>_. Q) E D"
  unfolding unlink_io_def
proof (rule triple_gets_bind)
  fix stage
  have dir: "\<not> is_file_in (ex_stage s) p" if "node_at (ex_stage s) p = Some Vdir" for s
    using that by (simp add: is_file_in_def)
  show "triple calm (\<lambda>s. P s \<and> stage = ex_stage s) (if node_at stage p = Some Vdir then raise_io Tool_os_error
      else step_io Tool_os_error (modify_io (\<lambda>s. s\<lparr>ex_stage := drop_file p (ex_stage s)\<rparr>))) (\<lambda>_. Q) E D"
  proof (cases "node_at stage p = Some Vdir")
    case True
    then show ?thesis using assms(2,3) dir by (auto intro!: triple_imp_raise)
  next
    case False
    then show ?thesis using assms(1,2) by (auto intro!: triple_step triple_modify_rule)
  qed
qed

text \<open>A deletion that fails has changed nothing.\<close>

lemma delete_stage_triple:
  assumes "\<And>s. P s \<Longrightarrow> in_view ev m D s"
  shows "triple calm P (delete_stage_file ev r) (\<lambda>_. in_view ev (m(r := None)) (insert r D)) (\<lambda>_. P) P"
  unfolding delete_stage_file_def
proof (rule triple_ask, rule triple_gets_bind)
  fix p stage
  let ?P = "\<lambda>s. (P s \<and> resolve_stage ev r s = Inr p) \<and> stage = ex_stage s"
  let ?R = "\<lambda>s. in_view ev (m(r := None)) (insert r D) (s\<lparr>ex_deleted := insert r (ex_deleted s)\<rparr>)"
  have hide: "?R s" if "?P s" for s using that assms[of s] by (auto simp: in_view_def view_def)
  have "?R (s\<lparr>ex_stage := drop_file p (ex_stage s)\<rparr>)" if "?P s" for s
  proof -
    have "p = path_of r" using that resolve_stage_path by blast
    then show ?thesis using that assms[of s] by (auto simp: in_view_def view_def node_drop split: if_splits)
  qed
  then show "triple calm ?P (seq_io (when_io (exists_at (xe_by_stage ev) stage p) (unlink_io p))
      (modify_io (\<lambda>s. s\<lparr>ex_deleted := insert r (ex_deleted s)\<rparr>)))
      (\<lambda>_. in_view ev (m(r := None)) (insert r D)) (\<lambda>_. P) P"
    by (intro triple_seq[of _ _ _ ?R] triple_modify_rule triple_when unlink_triple[where is_file = False]) (use hide in auto)
qed auto

text \<open>Undoing a move: the destination goes, what was deleted before is deleted again.\<close>

lemma undo_move_triple:
  assumes "m dst = None" "dst \<notin> D \<Longrightarrow> \<not> is_file_in (xe_active ev) (path_of dst)"
  shows "triple calm (\<lambda>s. in_view ev (m(dst \<mapsto> c)) (D - {dst}) s \<and> just_written ev dst s) (undo_move ev dst D e)
    (\<lambda>_ _. False) (\<lambda>_ s. view ev s = m \<or> \<not> calm \<and> view ev s = m(dst \<mapsto> c)) (\<lambda>s. view ev s = m(dst \<mapsto> c))"
  unfolding undo_move_def
proof (rule triple_ask)
  fix p
  let ?P = "\<lambda>s. (in_view ev (m(dst \<mapsto> c)) (D - {dst}) s \<and> just_written ev dst s)
      \<and> resolve_path (xe_by_stage ev) (xe_policy ev) (ex_stage s) dst True False = Inr p"
  let ?R = "\<lambda>s. view ev (s\<lparr>ex_deleted := D\<rparr>) = m"
  have "?R (s\<lparr>ex_stage := drop_file p (ex_stage s)\<rparr>)" if "?P s" for s
  proof
    fix r
    have "Inr p = (Inr (path_of dst) :: tool_error + string list)" using that unfolding just_written_def by metis
    then have p: "p = path_of dst" by simp
    moreover have "path_of dst \<noteq> []" and v: "view ev s r = (m(dst \<mapsto> c)) r" "ex_deleted s = D - {dst}"
      using that by (simp_all add: just_written_def in_view_def is_file_in_def node_at_def split: if_splits)
    ultimately have p: "p = path_of dst" "path_of dst \<noteq> []" by blast+
    show "view ev (s\<lparr>ex_stage := drop_file p (ex_stage s), ex_deleted := D\<rparr>) r = m r"
    proof (cases "r = dst")
      case True
      then show ?thesis
        using p assms by (cases "dst \<in> D") (auto simp: view_def node_drop is_file_in_def split: option.split vnode.split)
    next
      case False
      then have "view ev (s\<lparr>ex_stage := drop_file p (ex_stage s), ex_deleted := D\<rparr>) r = view ev s r"
        using p v(2) by (simp add: view_def node_drop)
      then show ?thesis using v(1) False by simp
    qed
  qed
  then show "triple calm ?P (seq_io (unlink_io p) (seq_io (modify_io (\<lambda>s. s\<lparr>ex_deleted := D\<rparr>)) (raise_io e)))
    (\<lambda>_ _. False) (\<lambda>_ s. view ev s = m \<or> \<not> calm \<and> view ev s = m(dst \<mapsto> c)) (\<lambda>s. view ev s = m(dst \<mapsto> c))"
    by (intro triple_seq[of _ _ _ ?R] triple_seq[of _ ?R _ "\<lambda>s. view ev s = m"] triple_modify_rule triple_imp_raise
        unlink_triple[where is_file = True]) (auto simp: in_view_def just_written_def)
qed (auto simp: just_written_def in_view_def)

section \<open>The calls\<close>

lemma ask_view: "triple calm (in_view ev m D) (ask_io f) (\<lambda>_. in_view ev m D) (\<lambda>_. in_view ev m D) (in_view ev m D)"
  by (rule triple_ask_only)

lemma store_triple:
  assumes "\<not> b \<Longrightarrow> m r = Some c"
  shows "triple calm (in_view ev m D) (seq_io (when_io b (write_stage ev r c)) (return_io v))
    (\<lambda>_ s. view ev s = m(r \<mapsto> c)) (\<lambda>_. in_view ev m D) (in_view ev m D)"
proof (rule triple_seq[where R = "\<lambda>s. view ev s = m(r \<mapsto> c)"], rule triple_when)
  show "triple calm (in_view ev m D) (write_stage ev r c) (\<lambda>_ s. view ev s = m(r \<mapsto> c)) (\<lambda>_. in_view ev m D) (in_view ev m D)"
    by (rule triple_post[OF write_stage_triple]) (auto simp: in_view_def)
  show "view ev s = m(r \<mapsto> c)" if "\<not> b" "in_view ev m D s" for s
    using assms that by (auto simp: in_view_def fun_eq_iff)
qed (auto intro: triple_imp_return)

lemma write_file_triple:
  assumes r: "r = str_arg args ''path'' []" and given: "given = str_arg args ''content'' []"
  shows "triple calm (in_view ev m D) (write_file ev args)
    (\<lambda>_ s. view ev s = m(r \<mapsto> written_text (m r) given)) (\<lambda>_. in_view ev m D) (in_view ev m D)"
  unfolding write_file_def Let_def r[symmetric] given[symmetric]
proof (rule triple_ask, rule triple_gets_bind, rule triple_inhabited)
  fix prior bytes s0
  let ?P = "\<lambda>s. (in_view ev m D s \<and> overlay_path ev r s = Inr prior) \<and> bytes = (case prior of None \<Rightarrow> [] | Some f \<Rightarrow> file_bytes ev s f)"
  assume s0: "?P s0"
  have "m r = map_option (\<lambda>_. bytes) prior"
    using s0 overlay_path_view[of ev r s0 prior] by (cases prior) (auto simp: in_view_def)
  then have content: "keep_crlf bytes given = written_text (m r) given"
    using s0 by (cases prior) (auto simp: written_text_def keep_crlf_def)
  have store: "triple calm (in_view ev m D) (store_write ev r existed before (keep_crlf bytes given))
      (\<lambda>_ s. view ev s = m(r \<mapsto> written_text (m r) given)) (\<lambda>_. in_view ev m D) (in_view ev m D)"
    if "existed \<Longrightarrow> m r = Some before" for existed before
    unfolding store_write_def Let_def content by (rule store_triple) (use that in simp)
  show "triple calm ?P (bind_io (if prior \<noteq> None then ask_io (read_overlay_text ev r) else return_io [])
      (\<lambda>before. store_write ev r (prior \<noteq> None) before (keep_crlf bytes given)))
      (\<lambda>_ s. view ev s = m(r \<mapsto> written_text (m r) given)) (\<lambda>_. in_view ev m D) (in_view ev m D)"
  proof (cases prior)
    case None
    have "triple calm ?P (store_write ev r False [] (keep_crlf bytes given))
        (\<lambda>_ s. view ev s = m(r \<mapsto> written_text (m r) given)) (\<lambda>_. in_view ev m D) (in_view ev m D)"
      by (rule triple_pre[OF store]) auto
    then show ?thesis using None by simp
  next
    case (Some f)
    have "triple calm (\<lambda>s. ?P s \<and> read_overlay_text ev r s = Inr before) (store_write ev r True before (keep_crlf bytes given))
        (\<lambda>_ s. view ev s = m(r \<mapsto> written_text (m r) given)) (\<lambda>_. in_view ev m D) (in_view ev m D)" for before
      by (rule triple_inhabited, rule triple_pre[OF store]) (use read_overlay_view[of ev r _ before] in \<open>auto simp: in_view_def\<close>)
    from triple_ask[OF this] Some show ?thesis by simp
  qed
qed auto

lemma edit_file_triple:
  assumes r: "r = str_arg args ''path'' []"
  shows "triple calm (in_view ev m D) (edit_file ev args)
    (\<lambda>_ s. \<exists>c. m r = Some c \<and> view ev s = m(r \<mapsto> replace_first (str_arg args ''old_text'' []) (str_arg args ''new_text'' []) c))
    (\<lambda>_. in_view ev m D) (in_view ev m D)"
  unfolding edit_file_def Let_def r[symmetric]
proof (rule triple_ask, rule triple_gets_bind, rule triple_inhabited)
  fix c required s0
  let ?P = "\<lambda>s. (in_view ev m D s \<and> read_overlay_text ev r s = Inr c) \<and> required = ex_edit_read s"
  let ?c = "replace_first (str_arg args ''old_text'' []) (str_arg args ''new_text'' []) c"
  let ?Q = "\<lambda>_ s. \<exists>c. m r = Some c \<and> view ev s = m(r \<mapsto> replace_first (str_arg args ''old_text'' []) (str_arg args ''new_text'' []) c)"
  assume "?P s0"
  then have c: "m r = Some c" using read_overlay_view[of ev r s0 c] by (auto simp: in_view_def)
  have refuse: "triple calm ?P (seq_io (modify_io (\<lambda>s. s\<lparr>ex_edit_read := insert r (ex_edit_read s)\<rparr>))
      (raise_io (Tool_value_error ''edit_match_must_be_exactly_one''))) ?Q (\<lambda>_. in_view ev m D) (in_view ev m D)"
    by (rule triple_seq[where R = "in_view ev m D"], rule triple_modify_rule) (auto intro: triple_imp_raise)
  have store: "triple calm ?P (seq_io (when_io (?c \<noteq> c) (write_stage ev r ?c)) (return_io v)) ?Q (\<lambda>_. in_view ev m D) (in_view ev m D)" for v
    by (rule triple_pre[OF triple_post[OF store_triple[where m = m and D = D]]]) (use c in auto)
  show "triple calm ?P (if count_sub (str_arg args ''old_text'' []) c \<noteq> 1 \<or> r \<in> required
      then seq_io (modify_io (\<lambda>s. s\<lparr>ex_edit_read := insert r (ex_edit_read s)\<rparr>)) (raise_io (Tool_value_error ''edit_match_must_be_exactly_one''))
      else seq_io (when_io (?c \<noteq> c) (write_stage ev r ?c)) (return_io (VDict ((''modified'', VBool (?c \<noteq> c)) # written_result ev r c ?c))))
      ?Q (\<lambda>_. in_view ev m D) (in_view ev m D)"
    by (rule triple_if) (rule refuse, rule store)
qed auto

lemma patch_file_triple:
  assumes r: "r = str_arg args ''path'' []"
  shows "triple calm (in_view ev m D) (patch_file ev args)
    (\<lambda>_ s. \<exists>c u. m r = Some c \<and> apply_unified_patch c (str_arg args ''patch'' []) r = Inr u \<and> view ev s = m(r \<mapsto> u))
    (\<lambda>_. in_view ev m D) (in_view ev m D)"
  unfolding patch_file_def Let_def r[symmetric]
proof (rule triple_ask, rule triple_inhabited, rule triple_lift_bind)
  fix c s0 u
  assume "in_view ev m D s0 \<and> read_overlay_text ev r s0 = Inr c"
  then have c: "m r = Some c" using read_overlay_view[of ev r s0 c] by (auto simp: in_view_def)
  assume u: "apply_unified_patch c (str_arg args ''patch'' []) r = Inr u"
  have "triple calm (in_view ev m D) (seq_io (when_io (u \<noteq> c) (write_stage ev r u)) (return_io v))
      (\<lambda>_ s. \<exists>c u. m r = Some c \<and> apply_unified_patch c (str_arg args ''patch'' []) r = Inr u \<and> view ev s = m(r \<mapsto> u))
      (\<lambda>_. in_view ev m D) (in_view ev m D)" for v
    by (rule triple_post[OF store_triple]) (use c u in auto)
  then show "triple calm (\<lambda>s. in_view ev m D s \<and> read_overlay_text ev r s = Inr c)
      (seq_io (when_io (u \<noteq> c) (write_stage ev r u)) (return_io (VDict ((''modified'', VBool (u \<noteq> c)) # written_result ev r c u
        @ [(''patch_hunks'', VInt (int (count_sub ''@@'' (str_arg args ''patch'' []) div 2)))]))))
      (\<lambda>_ s. \<exists>c u. m r = Some c \<and> apply_unified_patch c (str_arg args ''patch'' []) r = Inr u \<and> view ev s = m(r \<mapsto> u))
      (\<lambda>_. in_view ev m D) (in_view ev m D)"
    by (rule triple_pre) auto
qed auto

lemma mutation_relative_path: "mutation_relative ev r s = Inr q \<Longrightarrow> q = r"
  using overlay_path_view by (fastforce simp: mutation_relative_def sum_case_simps split: option.splits)

lemma mutation_source_view: "mutation_source ev r s = Inr c \<Longrightarrow> view ev s r = Some c"
  by (auto simp: mutation_source_def sum_case_simps dest: read_overlay_view split: if_splits)

lemma delete_file_triple:
  assumes r: "r = str_arg args ''path'' []"
  shows "triple calm (in_view ev m D) (delete_file ev args) (\<lambda>_ s. view ev s = m(r := None)) (\<lambda>_. in_view ev m D) (in_view ev m D)"
  unfolding delete_file_def r[symmetric]
proof (rule triple_ask, rule triple_inhabited, rule triple_ask)
  fix q c s0
  assume "in_view ev m D s0 \<and> mutation_relative ev r s0 = Inr q"
  then have q: "q = r" by (auto dest: mutation_relative_path)
  show "triple calm (\<lambda>s. (in_view ev m D s \<and> mutation_relative ev r s = Inr q) \<and> mutation_source ev q s = Inr c)
      (seq_io (delete_stage_file ev q) (return_io (VDict ([(''path'', VStr q), (''change_type'', VStr ''deleted'')] @ edit_evidence ev c []))))
      (\<lambda>_ s. view ev s = m(r := None)) (\<lambda>_. in_view ev m D) (in_view ev m D)"
    unfolding q by (rule triple_pre[OF triple_seq[OF delete_stage_triple[where P = "in_view ev m D"]]])
      (auto intro: triple_imp_return simp: in_view_def)
qed auto

lemma overlay_missing:
  assumes "overlay_exists ev r s = Inr False"
  shows "view ev s r = None \<and> (r \<notin> ex_deleted s \<longrightarrow> \<not> is_file_in (xe_active ev) (path_of r))"
proof -
  have "overlay_path ev r s = Inr None" using assms by (cases "overlay_path ev r s") (simp_all add: overlay_exists_def del: not_None_eq)
  moreover from this have "view ev s r = None" using overlay_path_view by fastforce
  ultimately show ?thesis
    by (auto simp: view_def is_file_in_def split: option.splits vnode.splits if_splits)
qed

lemma move_file_triple:
  assumes r: "r = str_arg args ''path'' []" and d: "dst = str_arg args ''destination'' []"
  shows "triple calm (in_view ev m D) (move_file ev args) (\<lambda>_ s. \<exists>c. m r = Some c \<and> view ev s = m(dst \<mapsto> c, r := None))
    (\<lambda>_ s. view ev s = m \<or> \<not> calm \<and> (\<exists>c. m r = Some c \<and> view ev s = m(dst \<mapsto> c)))
    (\<lambda>s. view ev s = m \<or> (\<exists>c. m r = Some c \<and> view ev s = m(dst \<mapsto> c)))" (is "triple calm ?P _ ?Q ?E ?D")
  unfolding move_file_def r[symmetric] d[symmetric]
proof (rule triple_ask, rule triple_inhabited, rule triple_lift_bind, rule triple_ask, rule triple_inhabited, rule triple_ask,
    rule triple_inhabited, rule triple_lift_seq, rule triple_lift_seq, rule triple_gets_bind, rule triple_inhabited)
  fix q s0 p c s1 found s2 u v prior s3
  let ?P3 = "\<lambda>s. (((?P s \<and> mutation_relative ev r s = Inr q) \<and> mutation_source ev q s = Inr c) \<and> overlay_exists ev (posix p) s = Inr found)
    \<and> prior = ex_deleted s"
  assume q: "?P s0 \<and> mutation_relative ev r s0 = Inr q" and p: "resolve_active ev dst = Inr p"
    and found: "require (\<not> found) (Tool_value_error ''move_destination_exists'') = Inr u" and s3: "?P3 s3"
  have p: "p = path_of dst" using p resolve_path_facts unfolding resolve_active_def by blast
  have q: "q = r" using q by (auto dest: mutation_relative_path)
  have prior: "prior = D" and c: "m r = Some c" using s3 q mutation_source_view[of ev q s3 c] by (auto simp: in_view_def)
  have new: "m dst = None" "dst \<notin> D \<Longrightarrow> \<not> is_file_in (xe_active ev) (path_of dst)"
    using s3 found p overlay_missing[of ev dst s3] by (auto simp: in_view_def)
  let ?W = "\<lambda>s. in_view ev (m(dst \<mapsto> c)) (D - {dst}) s \<and> just_written ev dst s"
  have store: "triple calm ?P3 (write_stage ev dst c) (\<lambda>_. ?W) ?E ?D"
    by (rule triple_pre[OF triple_post[OF write_stage_triple[where m = m and D = D]]]) (auto simp: in_view_def)
  have undo: "triple calm ?W (undo_move ev dst D e) (\<lambda>_ _. False) ?E ?D" for e
    by (rule triple_post[OF undo_move_triple]) (use new c in auto)
  have remove: "triple calm ?W (catch_io (delete_stage_file ev r) (undo_move ev dst D)) (\<lambda>_. in_view ev (m(dst \<mapsto> c, r := None)) (insert r (D - {dst}))) ?E ?D"
    by (rule triple_catch[OF triple_post[OF delete_stage_triple[where P = ?W]] triple_post[OF undo]]) (use c in \<open>auto simp: in_view_def\<close>)
  have finish: "triple calm (in_view ev (m(dst \<mapsto> c, r := None)) (insert r (D - {dst}))) (return_io v) ?Q ?E ?D" for v :: pyval
    by (rule triple_imp_return) (use c in \<open>auto simp: in_view_def\<close>)
  show "triple calm ?P3 (seq_io (write_stage ev (posix p) c) (seq_io (catch_io (delete_stage_file ev q) (undo_move ev (posix p) prior))
      (return_io (VDict [(''path'', VStr q), (''destination'', VStr (posix p)), (''change_type'', VStr ''moved'')])))) ?Q ?E ?D"
    using triple_seq[OF store triple_seq[OF remove finish]] by (simp only: p q prior posix_path_of)
qed (auto simp: in_view_def)

definition permitted :: "exec_env \<Rightarrow> tool_call \<Rightarrow> bool" where
  "permitted ev call \<longleftrightarrow> validate_call (xe_tools ev) (xe_by_active ev) (xe_policy ev) (xe_active ev) call = Inr ()"

lemma validate_triple:
  assumes "\<And>s x. P s \<Longrightarrow> P (s\<lparr>ex_engine := Some x\<rparr>)"
  shows "triple calm P (validate_io ev call consume) (\<lambda>_ s. P s \<and> permitted ev call) (\<lambda>_. P) P"
  unfolding validate_io_def
proof (intro triple_seq[of _ _ _ "\<lambda>s. P s \<and> permitted ev call"] triple_gets_bind triple_when triple_ask_seq)
  fix engine
  have granted: "permitted ev call" if "grant_call (xe_tools ev) (xe_by_active ev) (xe_policy ev) (xe_active ev) t g call rt c en = (Inr u, en')" for t g rt c en u en'
    using that by (auto simp: permitted_def grant_call_def split: prod.splits sum.splits if_splits)
  show "triple calm (\<lambda>s. P s \<and> engine = ex_engine s)
      (case engine of
        None \<Rightarrow> lift_io (validate_call (xe_tools ev) (xe_by_active ev) (xe_policy ev) (xe_active ev) call)
      | Some en \<Rightarrow> (case xe_grant ev of
          None \<Rightarrow> raise_io (Tool_denied POLICY_DENIED ''capability_required'')
        | Some g \<Rightarrow> (case grant_call (xe_tools ev) (xe_by_active ev) (xe_policy ev) (xe_active ev) (xe_now ev) g call (xe_root ev) consume en of
            (r, en') \<Rightarrow> seq_io (modify_io (\<lambda>s. s\<lparr>ex_engine := Some en'\<rparr>)) (lift_io r)))) (\<lambda>_ s. P s \<and> permitted ev call) (\<lambda>_. P) P"
    by (auto split: option.split prod.split intro!: triple_imp_raise triple_lift triple_seq[of _ _ _ P] triple_modify_rule assms
        dest: granted simp: permitted_def)
qed (auto intro: triple_imp_return triple_ask_only)

text \<open>Only the write tools touch the stage.\<close>

lemma other_tools_triple:
  assumes "tc_tool call \<notin> set WRITE_TOOLS" "\<And>s x. P s \<Longrightarrow> P (s\<lparr>ex_edit_read := x\<rparr>)" "\<And>s x. P s \<Longrightarrow> P (s\<lparr>ex_plan := x\<rparr>)"
  shows "triple calm P (run_tool ev call) (\<lambda>_. P) (\<lambda>_. P) P"
proof -
  have ask: "triple calm P (ask_io f) (\<lambda>_. P) (\<lambda>_. P) P" for f :: "executor \<Rightarrow> tool_error + pyval"
    by (rule triple_ask_only)
  have lift: "triple calm P (lift_io x) (\<lambda>_. P) (\<lambda>_. P) P" for x :: "tool_error + pyval"
    by (rule triple_lift)
  have read: "triple calm P (read_file ev args) (\<lambda>_. P) (\<lambda>_. P) P" for args
    unfolding read_file_def Let_def
    by (intro triple_ask triple_seq[of _ _ _ P] triple_modify_rule triple_imp_return) (auto intro: assms)
  have plan: "triple calm P (update_plan ev args) (\<lambda>_. P) (\<lambda>_. P) P" for args
    unfolding update_plan_def
    by (intro triple_lift_bind triple_seq[of _ _ _ P] triple_modify_rule triple_imp_return) (auto intro: assms)
  have skill: "triple calm P (bind_io (lift_io x) (\<lambda>c. return_io (f c))) (\<lambda>_. P) (\<lambda>_. P) P" for x :: "tool_error + string" and f :: "string \<Rightarrow> pyval"
    by (intro triple_lift_bind triple_imp_return)
  show ?thesis
    using assms(1) ask lift read plan skill
    by (cases "tc_tool call") (simp_all add: run_tool_def NEW_TOOLS_def WRITE_TOOLS_def local_tool_def host_tool_def Let_def)
qed

lemma write_tool_runs:
  "tc_tool call = WRITE_FILE \<Longrightarrow> run_tool ev call = write_file ev (tc_args call)"
  "tc_tool call = EDIT_FILE_SIMPLE \<Longrightarrow> run_tool ev call = edit_file ev (tc_args call)"
  "tc_tool call = APPLY_PATCH \<Longrightarrow> run_tool ev call = patch_file ev (tc_args call)"
  "tc_tool call = DELETE_FILE \<Longrightarrow> run_tool ev call = delete_file ev (tc_args call)"
  "tc_tool call = MOVE_FILE \<Longrightarrow> run_tool ev call = move_file ev (tc_args call)"
  by (simp_all add: run_tool_def NEW_TOOLS_def Let_def)

definition settles :: "bool \<Rightarrow> exec_env \<Rightarrow> tool_call \<Rightarrow> (string \<rightharpoonup> string) \<Rightarrow> string set \<Rightarrow> bool" where
  "settles calm ev call m D \<longleftrightarrow> triple calm (in_view ev m D) (run_tool ev call) (\<lambda>_ s. view ev s = project_call call m)
     (\<lambda>_ s. view ev s = m \<or> \<not> calm \<and> view ev s = half_moved call m) (\<lambda>s. view ev s = m \<or> view ev s = half_moved call m)"

lemma run_tool_settles: "settles calm ev call m D"
proof (cases "tc_tool call \<in> set WRITE_TOOLS")
  case False
  then have "project_call call m = m" by (cases "tc_tool call") (auto simp: project_call_def WRITE_TOOLS_def Let_def split: option.split)
  then show ?thesis
    using False unfolding settles_def by (intro triple_post[OF other_tools_triple[where P = "in_view ev m D"]]) (auto simp: in_view_def)
next
  case True
  let ?r = "str_arg (tc_args call) ''path'' []"
  consider "tc_tool call = WRITE_FILE" | "tc_tool call = EDIT_FILE_SIMPLE" | "tc_tool call = APPLY_PATCH" | "tc_tool call = DELETE_FILE"
    | "tc_tool call = MOVE_FILE"
    using True by (auto simp: WRITE_TOOLS_def)
  then show ?thesis
  proof cases
    case 1
    then show ?thesis unfolding settles_def
      by (simp only: write_tool_runs, intro triple_post[OF write_file_triple[OF refl refl]])
        (auto simp: in_view_def project_call_def Let_def)
  next
    case 2
    then show ?thesis unfolding settles_def
      by (simp only: write_tool_runs, intro triple_post[OF edit_file_triple[OF refl]]) (auto simp: in_view_def project_call_def Let_def)
  next
    case 3
    then show ?thesis unfolding settles_def
      by (simp only: write_tool_runs, intro triple_post[OF patch_file_triple[OF refl]]) (auto simp: in_view_def project_call_def Let_def)
  next
    case 4
    then show ?thesis unfolding settles_def
      by (simp only: write_tool_runs, intro triple_post[OF delete_file_triple[OF refl]])
        (auto simp: in_view_def project_call_def Let_def split: option.split)
  next
    case 5
    then show ?thesis unfolding settles_def
      by (simp only: write_tool_runs, intro triple_post[OF move_file_triple[OF refl refl]])
        (auto simp: in_view_def project_call_def half_moved_def Let_def)
  qed
qed

text \<open>C7. The overlay implements a project of texts: a call that returns has done to the project shown by the overlay exactly what the
  call says, a write, an edit, a patch, a deletion or a move of one text and nothing else; and a call that raises, at whatever
  failing step, has left the project as it was, but for a move whose undoing fails as well: it leaves the text under both names.\<close>
theorem executor_refines_project:
  assumes "execute ev call sch s = (r, sch', s')"
  shows "case r of
      Done _ \<Rightarrow> view ev s' = project_call call (view ev s)
    | Raised _ \<Rightarrow> view ev s' = view ev s \<or> sch \<noteq> [] \<and> view ev s' = half_moved call (view ev s)
    | Died \<Rightarrow> view ev s' = view ev s \<or> view ev s' = half_moved call (view ev s)"
proof -
  let ?P = "in_view ev (view ev s) (ex_deleted s)" and ?calm = "sch = []"
  have "triple ?calm ?P (execute ev call) (\<lambda>_ s'. view ev s' = project_call call (view ev s))
      (\<lambda>_ s'. view ev s' = view ev s \<or> \<not> ?calm \<and> view ev s' = half_moved call (view ev s))
      (\<lambda>s'. view ev s' = view ev s \<or> view ev s' = half_moved call (view ev s))"
    unfolding execute_def
    by (rule triple_seq[OF triple_post[OF validate_triple] run_tool_settles[unfolded settles_def]]) (auto simp: in_view_def)
  from tripleD[OF this _ _ assms] show ?thesis by (cases r) (auto simp: in_view_def)
qed

section \<open>What is staged\<close>

definition acceptable :: "tool_policy \<Rightarrow> string list \<Rightarrow> string \<Rightarrow> bool" where
  "acceptable pol p c \<longleftrightarrow> validate_content pol c = Inr () \<and> validate_relative_path (posix p) = Inr (posix p) \<and> extension_ok pol p
     \<and> \<not> is_sensitive_path (posix p)"

definition clean :: "tool_policy \<Rightarrow> vtree \<Rightarrow> executor \<Rightarrow> bool" where
  "clean pol t s \<longleftrightarrow> (\<forall>p c. node_at (ex_stage s) p = Some (Vfile c) \<longrightarrow> node_at t p = Some (Vfile c) \<or> acceptable pol p c)"

lemma clean_fields [simp]:
  "clean pol t (s\<lparr>ex_engine := x\<rparr>) = clean pol t s" "clean pol t (s\<lparr>ex_edit_read := y\<rparr>) = clean pol t s"
  "clean pol t (s\<lparr>ex_plan := z\<rparr>) = clean pol t s" "clean pol t (s\<lparr>ex_deleted := w\<rparr>) = clean pol t s"
  by (simp_all add: clean_def)

lemma clean_parents: "clean pol t s \<Longrightarrow> clean pol t (s\<lparr>ex_stage := make_parents p (ex_stage s)\<rparr>)"
  unfolding clean_def
proof (intro allI impI)
  fix q c
  assume clean: "\<forall>p c. node_at (ex_stage s) p = Some (Vfile c) \<longrightarrow> node_at t p = Some (Vfile c) \<or> acceptable pol p c"
  assume "node_at (ex_stage (s\<lparr>ex_stage := make_parents p (ex_stage s)\<rparr>)) q = Some (Vfile c)"
  then have "node_at (ex_stage s) q = Some (Vfile c)" using node_make_parents[of p "ex_stage s" q] by auto
  then show "node_at t q = Some (Vfile c) \<or> acceptable pol q c" using clean by blast
qed

lemma clean_drop: "clean pol t s \<Longrightarrow> clean pol t (s\<lparr>ex_stage := drop_file p (ex_stage s)\<rparr>)"
  by (auto simp: clean_def node_drop)

lemma clean_put: "clean pol t s \<Longrightarrow> acceptable pol p c \<Longrightarrow> p \<noteq> [] \<Longrightarrow> clean pol t (s\<lparr>ex_stage := put_file p (Vfile c) (ex_stage s), ex_deleted := d\<rparr>)"
  by (auto simp: clean_def node_put)

lemma write_stage_clean:
  assumes "\<not> is_sensitive_path r" and pol: "xe_policy ev = pol"
  shows "triple calm (clean pol t) (write_stage ev r c) (\<lambda>_. clean pol t) (\<lambda>_. clean pol t) (clean pol t)"
proof (cases "validate_content pol c")
  case (Inl e)
  then show ?thesis unfolding write_stage_def pol by (intro triple_lift_seq) simp_all
next
  case (Inr u)
  have put: "clean pol t (s\<lparr>ex_stage := put_file q (Vfile c) (ex_stage s), ex_deleted := d\<rparr>)"
    if "clean pol t s" "resolve_stage ev r s = Inr q" "node_at (ex_stage s) q \<noteq> Some Vdir" for s q d
  proof -
    have "q \<noteq> []" using that(3) by (auto simp: node_at_def)
    then have "acceptable pol q c"
      using resolve_path_facts[OF that(2)[unfolded resolve_stage_def]] assms Inr by (auto simp: acceptable_def)
    then show ?thesis using clean_put that(1) \<open>q \<noteq> []\<close> by blast
  qed
  have replace: "triple calm (clean pol t) (replace_file ev r c) (\<lambda>_. clean pol t) (\<lambda>_. clean pol t) (clean pol t)"
    unfolding replace_file_def
  proof (intro triple_ask triple_gets_bind)
    fix q stage
    show "triple calm (\<lambda>s. (clean pol t s \<and> resolve_stage ev r s = Inr q) \<and> stage = ex_stage s)
       (if node_at stage q = Some Vdir then raise_io Tool_os_error
        else step_io Tool_os_error (modify_io (\<lambda>s. s\<lparr>ex_stage := put_file q (Vfile c) (ex_stage s), ex_deleted := ex_deleted s - {r}\<rparr>)))
       (\<lambda>_. clean pol t) (\<lambda>_. clean pol t) (clean pol t)"
      by (cases "node_at stage q = Some Vdir") (auto intro!: triple_imp_raise triple_step_modify intro: put)
  qed auto
  have steps: "triple calm (\<lambda>s. clean pol t s \<and> resolve_stage ev r s = Inr p)
      (step_io Tool_os_error (modify_io (\<lambda>s. s\<lparr>ex_stage := make_parents p (ex_stage s)\<rparr>))) (\<lambda>_. clean pol t) (\<lambda>_. clean pol t) (clean pol t)"
      "triple calm (\<lambda>s. clean pol t s \<and> resolve_stage ev r s = Inr p) (step_io Tool_os_error (return_io ())) (\<lambda>_. clean pol t) (\<lambda>_. clean pol t) (clean pol t)" for p
    by (rule triple_step_modify, auto intro: clean_parents) (rule triple_step, auto intro: triple_imp_return)
  show ?thesis
    unfolding write_stage_def
    by (intro triple_lift_seq triple_ask_seq triple_ask triple_seq[OF triple_pre[OF steps(1)]] triple_seq[OF triple_pre[OF steps(2)]]
        triple_seq[OF guard_triple replace]) auto
qed

lemma unlink_clean: "triple calm (clean pol t) (unlink_io p) (\<lambda>_. clean pol t) (\<lambda>_. clean pol t) (clean pol t)"
  by (rule unlink_triple[where is_file = False]) (auto intro: clean_drop)

lemma delete_stage_clean: "triple calm (clean pol t) (delete_stage_file ev r) (\<lambda>_. clean pol t) (\<lambda>_. clean pol t) (clean pol t)"
  unfolding delete_stage_file_def
  by (intro triple_ask triple_gets_bind triple_seq[of _ _ _ "clean pol t"] triple_when triple_modify_rule triple_pre[OF unlink_clean]) auto

lemma undo_move_clean: "triple calm (clean pol t) (undo_move ev d D e) (\<lambda>_. clean pol t) (\<lambda>_. clean pol t) (clean pol t)"
  unfolding undo_move_def
  by (intro triple_ask triple_seq[OF triple_pre[OF unlink_clean]] triple_seq[of _ _ _ "clean pol t"] triple_modify_rule triple_imp_raise) auto

text \<open>The policy lets no call through that names a sensitive path for a mutation.\<close>

lemma string_arg_str: "string_arg args k = Inr s \<Longrightarrow> str_arg args k d = s"
  by (auto simp: string_arg_def string_value_def arg_or_def str_arg_def split: pyval.splits option.splits)

lemma check_file_safe: "check_file by pol t reason path = Inr u \<Longrightarrow> \<not> is_sensitive_path path"
  by (auto simp: check_file_def split: if_splits)

lemma permitted_path:
  assumes "permitted ev call" "tc_tool call \<in> set WRITE_TOOLS"
  shows "\<not> is_sensitive_path (str_arg (tc_args call) ''path'' [])"
    and "tc_tool call = MOVE_FILE \<Longrightarrow> \<not> is_sensitive_path (str_arg (tc_args call) ''destination'' [])"
proof -
  have c: "check_arguments (xe_by_active ev) (xe_policy ev) (xe_active ev) call = Inr ()"
    using assms by (auto simp: permitted_def validate_call_def WRITE_TOOLS_def NEW_TOOLS_def split: if_splits)
  show "\<not> is_sensitive_path (str_arg (tc_args call) ''path'' [])"
    using c assms(2) unfolding WRITE_TOOLS_def
    by (auto simp: check_arguments_def check_write_def check_edit_def check_patch_def check_move_def sum_case_simps Let_def
        dest!: check_file_safe string_arg_str[where d = "[]"])
  show "\<not> is_sensitive_path (str_arg (tc_args call) ''destination'' [])" if "tc_tool call = MOVE_FILE"
    using c that by (auto simp: check_arguments_def check_move_def sum_case_simps Let_def
        dest!: check_file_safe string_arg_str[where d = "[]"])
qed

lemma write_tools_clean:
  assumes "xe_policy ev = pol" "\<not> is_sensitive_path (str_arg args ''path'' [])"
  shows "triple calm (clean pol t) (write_file ev args) (\<lambda>_. clean pol t) (\<lambda>_. clean pol t) (clean pol t)"
    and "triple calm (clean pol t) (edit_file ev args) (\<lambda>_. clean pol t) (\<lambda>_. clean pol t) (clean pol t)"
    and "triple calm (clean pol t) (patch_file ev args) (\<lambda>_. clean pol t) (\<lambda>_. clean pol t) (clean pol t)"
    and "triple calm (clean pol t) (delete_file ev args) (\<lambda>_. clean pol t) (\<lambda>_. clean pol t) (clean pol t)"
    and "\<not> is_sensitive_path (str_arg args ''destination'' []) \<Longrightarrow>
      triple calm (clean pol t) (move_file ev args) (\<lambda>_. clean pol t) (\<lambda>_. clean pol t) (clean pol t)"
proof -
  note stage = write_stage_clean[OF _ assms(1)]
  have store: "triple calm (clean pol t) (seq_io (when_io b (write_stage ev (str_arg args ''path'' []) c)) (return_io v))
      (\<lambda>_. clean pol t) (\<lambda>_. clean pol t) (clean pol t)" for b c and v :: pyval
    by (intro triple_seq[of _ _ _ "clean pol t"] triple_when triple_imp_return stage assms(2))
  have read: "triple calm (clean pol t) (if b then ask_io f else return_io []) (\<lambda>_. clean pol t) (\<lambda>_. clean pol t) (clean pol t)"
    for b and f :: "executor \<Rightarrow> tool_error + string"
    by (intro triple_if triple_ask_only triple_imp_return)
  show "triple calm (clean pol t) (write_file ev args) (\<lambda>_. clean pol t) (\<lambda>_. clean pol t) (clean pol t)"
    unfolding write_file_def store_write_def Let_def
    by (intro triple_ask triple_gets_bind triple_bind[OF triple_pre[OF read]] store) auto
  show "triple calm (clean pol t) (edit_file ev args) (\<lambda>_. clean pol t) (\<lambda>_. clean pol t) (clean pol t)"
    unfolding edit_file_def Let_def
    by (intro triple_ask triple_gets_bind triple_if triple_pre[OF store] triple_seq[of _ _ _ "clean pol t"] triple_modify_rule triple_imp_raise) auto
  show "triple calm (clean pol t) (patch_file ev args) (\<lambda>_. clean pol t) (\<lambda>_. clean pol t) (clean pol t)"
    unfolding patch_file_def Let_def by (intro triple_ask triple_lift_bind triple_pre[OF store]) auto
  show "triple calm (clean pol t) (delete_file ev args) (\<lambda>_. clean pol t) (\<lambda>_. clean pol t) (clean pol t)"
    unfolding delete_file_def
    by (intro triple_ask triple_seq[OF triple_pre[OF delete_stage_clean]] triple_imp_return) auto
  assume d: "\<not> is_sensitive_path (str_arg args ''destination'' [])"
  have "\<not> is_sensitive_path (posix p)" if "resolve_active ev (str_arg args ''destination'' []) = Inr p" for p
    using resolve_path_facts[OF that[unfolded resolve_active_def]] d by simp
  then show "triple calm (clean pol t) (move_file ev args) (\<lambda>_. clean pol t) (\<lambda>_. clean pol t) (clean pol t)"
    unfolding move_file_def
    by (intro triple_ask triple_lift_bind triple_lift_seq triple_gets_bind triple_seq[OF triple_pre[OF stage]]
        triple_seq[OF triple_catch[OF delete_stage_clean undo_move_clean]] triple_imp_return) auto
qed

lemma execute_clean:
  assumes "xe_policy ev = pol"
  shows "triple calm (clean pol t) (execute ev call) (\<lambda>_. clean pol t) (\<lambda>_. clean pol t) (clean pol t)"
  unfolding execute_def
proof (rule triple_seq[OF validate_triple])
  show "triple calm (\<lambda>s. clean pol t s \<and> permitted ev call) (run_tool ev call) (\<lambda>_. clean pol t) (\<lambda>_. clean pol t) (clean pol t)"
  proof (rule triple_inhabited)
    fix s0 assume p: "clean pol t s0 \<and> permitted ev call"
    have "triple calm (clean pol t) (run_tool ev call) (\<lambda>_. clean pol t) (\<lambda>_. clean pol t) (clean pol t)"
    proof (cases "tc_tool call \<in> set WRITE_TOOLS")
      case True
      note safe = permitted_path[of ev call]
      from True safe p show ?thesis
        unfolding WRITE_TOOLS_def by (auto simp: write_tool_runs intro!: write_tools_clean assms)
    qed (auto intro: other_tools_triple)
    then show "triple calm (\<lambda>s. clean pol t s \<and> permitted ev call) (run_tool ev call) (\<lambda>_. clean pol t) (\<lambda>_. clean pol t) (clean pol t)"
      by (rule triple_pre) auto
  qed
qed simp

text \<open>A session of calls, each in its own environment and with its own faults.\<close>

fun run_calls :: "(exec_env \<times> tool_call \<times> fault list) list \<Rightarrow> executor \<Rightarrow> executor" where
  "run_calls [] s = s"
| "run_calls ((ev, call, sch) # calls) s = run_calls calls (snd (snd (execute ev call sch s)))"

lemma run_calls_clean:
  "\<forall>(ev, call, sch) \<in> set calls. xe_policy ev = pol \<Longrightarrow> clean pol t s \<Longrightarrow> clean pol t (run_calls calls s)"
proof (induction calls s rule: run_calls.induct)
  case (2 ev call sch calls s)
  obtain r sch' s' where e: "execute ev call sch s = (r, sch', s')" by (cases "execute ev call sch s")
  have "holds (\<lambda>_. clean pol t) (\<lambda>_. clean pol t) (clean pol t) r s'"
    using tripleD[OF execute_clean[of ev pol False t call] "2.prems"(2) _ e] "2.prems"(1) by simp
  then have "clean pol t s'" by (cases r) simp_all
  then show ?case using 2 e by simp
qed simp

text \<open>C8. Nothing that the policy refuses is ever staged: after any session of tool calls under a policy, whatever steps fail and
  wherever a call dies, a file of the stage is one that was there before, or has a valid relative path with an allowed
  extension that names no credential, and a text within the size limit, without binary data or secrets.\<close>
theorem staged_files_acceptable:
  assumes "\<forall>(ev, call, sch) \<in> set calls. xe_policy ev = pol"
    and "node_at (ex_stage (run_calls calls s)) p = Some (Vfile c)"
  shows "node_at (ex_stage s) p = Some (Vfile c) \<or> acceptable pol p c"
proof -
  have "clean pol (ex_stage s) s" by (simp add: clean_def)
  from run_calls_clean[OF assms(1) this] have "clean pol (ex_stage s) (run_calls calls s)" .
  then show ?thesis using assms(2) by (auto simp: clean_def)
qed

section \<open>Reading on reaches the end\<close>

text \<open>A reader that asks again with the \<^verbatim>\<open>next_offset\<close> of each answer until there is none, for at most so many answers.\<close>

fun read_pages :: "(nat \<Rightarrow> pyval) \<Rightarrow> nat \<Rightarrow> nat \<Rightarrow> pyval list option" where
  "read_pages ask 0 offset = None"
| "read_pages ask (Suc n) offset = (let answer = ask offset in
     case dict_at answer ''next_offset'' of
       Some (VInt next_offset) \<Rightarrow> map_option ((#) answer) (read_pages ask n (nat next_offset))
     | _ \<Rightarrow> Some [answer])"

text \<open>The line numbers an answer names, and its text.\<close>

definition answer_lines :: "pyval \<Rightarrow> nat list" where
  "answer_lines answer = (case (dict_at answer ''offset'', dict_at answer ''end_line'') of
     (Some (VInt a), Some (VInt b)) \<Rightarrow> [nat a..<Suc (nat b)] | _ \<Rightarrow> [])"

definition answer_text :: "pyval \<Rightarrow> string" where
  "answer_text answer = (case dict_at answer ''content'' of Some (VStr text) \<Rightarrow> text | _ \<Rightarrow> [])"

lemma read_result_fields:
  assumes "page = fst (read_page (split_keep text) offset limit)"
  shows "dict_at (read_result ev relative text offset limit) ''offset'' = Some (VInt (int offset))"
    "dict_at (read_result ev relative text offset limit) ''end_line'' = Some (if page = [] then VNone else VInt (int (offset + length page - 1)))"
    "dict_at (read_result ev relative text offset limit) ''next_offset'' =
       Some (if offset + length page \<le> length (split_keep text) then VInt (int (offset + length page)) else VNone)"
    "dict_at (read_result ev relative text offset limit) ''content'' = Some (VStr (concat (map fst page)))"
  by (simp_all add: read_result_def dict_at_def dict_items_def dict_of_def Let_def case_prod_beta assms)

lemma read_on_from:
  assumes "1 \<le> limit" "1 \<le> offset" "Suc (length (split_keep text)) - offset < n"
  shows "\<exists>pages. read_pages (\<lambda>o'. read_result ev relative text o' limit) n offset = Some pages \<and>
    concat (map answer_lines pages) = [offset..<Suc (length (split_keep text))] \<and>
    ((\<forall>i < length (split_keep text). line_fits (Suc i) (split_keep text ! i)) \<longrightarrow>
      concat (map answer_text pages) = concat (drop (offset - 1) (split_keep text)))"
  using assms(2,3)
proof (induction n arbitrary: offset)
  case (Suc n)
  let ?ls = "split_keep text" and ?r = "read_result ev relative text offset limit"
  define page where "page = fst (read_page ?ls offset limit)"
  note lines = read_page_lines[OF assms(1) Suc.prems(1) page_def]
  note fields = read_result_fields[OF page_def, of ev relative]
  have contents: "answer_text ?r = concat (map fst page)" by (simp add: answer_text_def fields(4))
  have names: "answer_lines ?r = [offset..<offset + length page]"
    using Suc.prems(1) by (cases page) (simp_all add: answer_lines_def fields(1,2) nat_int_add)
  show ?case
  proof (cases "offset + length page \<le> length ?ls")
    case True
    have some: "page \<noteq> []" using lines(2) True by simp
    let ?next = "offset + length page"
    have pre: "1 \<le> ?next" "Suc (length ?ls) - ?next < n"
    proof -
      have "0 < length page" using some by simp
      then show "1 \<le> ?next" "Suc (length ?ls) - ?next < n" using Suc.prems True by linarith+
    qed
    obtain pages where p: "read_pages (\<lambda>o'. read_result ev relative text o' limit) n ?next = Some pages"
        "concat (map answer_lines pages) = [?next..<Suc (length ?ls)]"
        "(\<forall>i < length ?ls. line_fits (Suc i) (?ls ! i)) \<longrightarrow> concat (map answer_text pages) = concat (drop (?next - 1) ?ls)"
      using Suc.IH[OF pre] by blast
    have "read_pages (\<lambda>o'. read_result ev relative text o' limit) (Suc n) offset = Some (?r # pages)"
      using True p(1) by (simp add: fields(3) Let_def nat_int_add)
    moreover have "[offset..<?next] @ [?next..<Suc (length ?ls)] = [offset..<Suc (length ?ls)]"
      using True upt_add_eq_append[of offset ?next "Suc (length ?ls) - ?next"] by simp
    moreover have "concat (map fst page) @ concat (drop (?next - 1) ?ls) = concat (drop (offset - 1) ?ls)"
      if "\<forall>i < length ?ls. line_fits (Suc i) (?ls ! i)"
    proof -
      have "?next - 1 = length page + (offset - 1)" using Suc.prems(1) by simp
      then have "drop (?next - 1) ?ls = drop (length page) (drop (offset - 1) ?ls)" by simp
      then show ?thesis using lines(3)[OF that] by (metis append_take_drop_id concat_append)
    qed
    ultimately show ?thesis using p(2,3) contents names by (intro exI[of _ "?r # pages"]) auto
  next
    case False
    have upto: "[offset..<offset + length page] = [offset..<Suc (length ?ls)]"
    proof (cases "offset \<le> length ?ls")
      case True
      have "offset + length page = Suc (length ?ls)" using False lines(1) Suc.prems(1) True by linarith
      then show ?thesis by (simp only:)
    qed (use False lines(1) Suc.prems(1) in auto)
    have "read_pages (\<lambda>o'. read_result ev relative text o' limit) (Suc n) offset = Some [?r]"
      using False by (simp add: fields(3) Let_def)
    moreover have "map fst page = drop (offset - 1) ?ls" if "\<forall>i < length ?ls. line_fits (Suc i) (?ls ! i)"
      using lines(3)[OF that] False Suc.prems(1) by (simp add: take_all_iff)
    ultimately show ?thesis using upto names contents by (intro exI[of _ "[?r]"]) auto
  qed
qed simp

text \<open>C29. Reading on always reaches the end of a file: a reader that asks \<^verbatim>\<open>read_file\<close> for at least one line from line 1 on and
  goes on at the \<^verbatim>\<open>next_offset\<close> of each answer until an answer has none gets, after at most one answer more than the file has lines,
  answers whose line ranges name every line of the file exactly once and in order; and when no line exceeds the
  window of a read, the contents of the answers make up the text itself.\<close>
theorem reading_on_complete:
  assumes "1 \<le> limit"
  shows "\<exists>pages. read_pages (\<lambda>offset. read_result ev relative text offset limit) (Suc (length (split_keep text))) 1 = Some pages \<and>
    concat (map answer_lines pages) = [1..<Suc (length (split_keep text))] \<and>
    ((\<forall>i < length (split_keep text). line_fits (Suc i) (split_keep text ! i)) \<longrightarrow> concat (map answer_text pages) = text)"
  using read_on_from[OF assms, of 1 "text" "Suc (length (split_keep text))" ev relative] by (simp add: concat_split_keep)

end
