(* ===== verification/Executor_Fence.thy ===== *)
theory Executor_Fence
  imports Executor_Props
begin

text \<open>
  Fenced runs and the tool executor: between the validation of a call and the publication of what it writes, another
  thread may fence the run of its grant. A write is then held back by the publication guard; a deletion is not.
  The theory also holds the concrete sessions that witness the properties of the executor.
\<close>

section \<open>The publication guard\<close>

lemma fence_kept: "run \<in> en_fenced en \<or> (t, Fence_run run) \<in> set ops \<Longrightarrow> run \<in> en_fenced (snd (engine_run ops en))"
proof (induction ops arbitrary: en)
  case (Cons x ops)
  obtain now op where x: "x = (now, op)" by (cases x)
  obtain r en1 where s: "engine_step now op en = (r, en1)" by (cases "engine_step now op en")
  have "en_fenced en \<subseteq> en_fenced en1" using engine_step_ok[OF s] by (simp add: step_ok_def)
  moreover have "run \<in> en_fenced en1" if "op = Fence_run run"
    using s that by (auto simp: fence_run_def revoke_run_def)
  ultimately have "run \<in> en_fenced en1 \<or> (t, Fence_run run) \<in> set ops" using Cons.prems x by auto
  from Cons.IH[OF this] show ?case using x s by (simp add: split_beta)
qed simp

text \<open>The state that a held back call keeps: the project as it was, under an engine.\<close>

definition held :: "exec_env \<Rightarrow> (string \<rightharpoonup> string) \<Rightarrow> string set \<Rightarrow> executor \<Rightarrow> bool" where
  "held ev m D s \<longleftrightarrow> in_view ev m D s \<and> ex_engine s \<noteq> None"

lemma held_view: "held ev m D s \<Longrightarrow> in_view ev m D s"
  by (simp add: held_def)

lemma guard_fenced:
  assumes "xe_grant ev = Some g" "(t, Fence_run (gr_run g)) \<in> set (xe_between ev)"
  shows "triple calm (held ev m D) (publication_guard ev) (\<lambda>_ _. False) (\<lambda>_. in_view ev m D) (in_view ev m D)"
  unfolding publication_guard_def
proof (rule triple_gets_bind, rule triple_inhabited)
  fix engine s0
  assume "held ev m D s0 \<and> engine = ex_engine s0"
  then obtain en where en: "engine = Some en" by (auto simp: held_def)
  obtain r en' where live: "validate_live_grant (xe_later ev) g (xe_root ev) (snd (engine_run (xe_between ev) en)) = (r, en')"
    by (cases "validate_live_grant (xe_later ev) g (xe_root ev) (snd (engine_run (xe_between ev) en))")
  have "gr_run g \<in> en_fenced (snd (engine_run (xe_between ev) en))" using fence_kept assms(2) by blast
  then have "r = Inl (Tool_denied POLICY_DENIED ''capability_run_fenced'')" using live by (simp add: validate_live_grant_def)
  then show "triple calm (\<lambda>s. held ev m D s \<and> engine = ex_engine s)
      (case (engine, xe_grant ev) of
        (Some en, Some g) \<Rightarrow> (case validate_live_grant (xe_later ev) g (xe_root ev) (snd (engine_run (xe_between ev) en)) of (r, en') \<Rightarrow>
          seq_io (modify_io (\<lambda>s. s\<lparr>ex_engine := Some en'\<rparr>)) (lift_io r))
      | _ \<Rightarrow> return_io ()) (\<lambda>_ _. False) (\<lambda>_. in_view ev m D) (in_view ev m D)"
    by (auto simp: en live assms(1) held_def intro!: triple_seq[of _ _ _ "in_view ev m D"] triple_modify_rule triple_lift)
qed

lemma write_stage_fenced:
  assumes "xe_grant ev = Some g" "(t, Fence_run (gr_run g)) \<in> set (xe_between ev)"
  shows "triple calm (held ev m D) (write_stage ev r c) (\<lambda>_ _. False) (\<lambda>_. in_view ev m D) (in_view ev m D)"
proof -
  have guard: "triple calm (held ev m D) (seq_io (publication_guard ev) (replace_file ev r c)) (\<lambda>_ _. False) (\<lambda>_. in_view ev m D) (in_view ev m D)"
    by (rule triple_seq[OF guard_fenced[OF assms] triple_never])
  have temporary: "triple calm (held ev m D) (step_io Tool_os_error (return_io ())) (\<lambda>_. held ev m D) (\<lambda>_. in_view ev m D) (in_view ev m D)"
    by (rule triple_step) (auto intro: triple_imp_return held_view)
  have made: "triple calm (held ev m D) (step_io Tool_os_error (modify_io (\<lambda>s. s\<lparr>ex_stage := make_parents p (ex_stage s)\<rparr>)))
      (\<lambda>_. held ev m D) (\<lambda>_. in_view ev m D) (in_view ev m D)" for p
    by (rule triple_step_modify) (auto simp: held_def)
  show ?thesis
    unfolding write_stage_def
    by (intro triple_lift_seq triple_ask_seq triple_ask triple_seq[OF triple_pre[OF made]] triple_seq[OF triple_pre[OF temporary]] guard)
      (auto intro: held_view)
qed

lemma tools_fenced:
  assumes "xe_grant ev = Some g" "(t, Fence_run (gr_run g)) \<in> set (xe_between ev)"
  shows "triple calm (held ev m D) (write_file ev args) (\<lambda>_. in_view ev m D) (\<lambda>_. in_view ev m D) (in_view ev m D)"
    and "triple calm (held ev m D) (edit_file ev args) (\<lambda>_. in_view ev m D) (\<lambda>_. in_view ev m D) (in_view ev m D)"
    and "triple calm (held ev m D) (patch_file ev args) (\<lambda>_. in_view ev m D) (\<lambda>_. in_view ev m D) (in_view ev m D)"
    and "triple calm (held ev m D) (move_file ev args) (\<lambda>_. in_view ev m D) (\<lambda>_. in_view ev m D) (in_view ev m D)"
proof -
  note stage = write_stage_fenced[OF assms]
  have store: "triple calm (held ev m D) (seq_io (when_io b (write_stage ev r c)) (return_io v))
      (\<lambda>_. in_view ev m D) (\<lambda>_. in_view ev m D) (in_view ev m D)" for b r c and v :: pyval
    by (intro triple_seq[of _ _ _ "in_view ev m D"] triple_when triple_imp_return triple_post[OF stage]) (auto intro: held_view)
  have read: "triple calm (held ev m D) (if b then ask_io f else return_io []) (\<lambda>_. held ev m D) (\<lambda>_. in_view ev m D) (in_view ev m D)"
    for b and f :: "executor \<Rightarrow> tool_error + string"
    by (intro triple_if triple_ask_only triple_imp_return) (auto intro: held_view)
  show "triple calm (held ev m D) (write_file ev args) (\<lambda>_. in_view ev m D) (\<lambda>_. in_view ev m D) (in_view ev m D)"
    unfolding write_file_def store_write_def Let_def
    by (intro triple_ask triple_gets_bind triple_bind[OF triple_pre[OF read]] store) (auto intro: held_view)
  show "triple calm (held ev m D) (edit_file ev args) (\<lambda>_. in_view ev m D) (\<lambda>_. in_view ev m D) (in_view ev m D)"
    unfolding edit_file_def Let_def
    by (intro triple_ask triple_gets_bind triple_if triple_pre[OF store] triple_seq[of _ _ _ "in_view ev m D"] triple_modify_rule triple_imp_raise)
      (auto intro: held_view simp: held_def)
  show "triple calm (held ev m D) (patch_file ev args) (\<lambda>_. in_view ev m D) (\<lambda>_. in_view ev m D) (in_view ev m D)"
    unfolding patch_file_def Let_def by (intro triple_ask triple_lift_bind triple_pre[OF store]) (auto intro: held_view)
  show "triple calm (held ev m D) (move_file ev args) (\<lambda>_. in_view ev m D) (\<lambda>_. in_view ev m D) (in_view ev m D)"
    unfolding move_file_def
    by (intro triple_ask triple_lift_bind triple_lift_seq triple_gets_bind triple_seq[OF triple_pre[OF stage]] triple_never) (auto intro: held_view)
qed

text \<open>C9. Nothing is published for a fenced run: when the run of the grant is fenced at any time between the validation of a call and
  the replacement of the staged file, the project that the overlay shows is left as it was, whatever the call and whatever steps
  fail; the call may only be a deletion, which no guard protects.\<close>
theorem fence_stops_publication:
  assumes "execute ev call sch s = (r, sch', s')" "ex_engine s \<noteq> None" "xe_grant ev = Some g"
    "(t, Fence_run (gr_run g)) \<in> set (xe_between ev)" "tc_tool call \<noteq> DELETE_FILE"
  shows "view ev s' = view ev s"
proof -
  let ?H = "held ev (view ev s) (ex_deleted s)" and ?V = "in_view ev (view ev s) (ex_deleted s)"
  have run: "triple False ?H (run_tool ev call) (\<lambda>_. ?V) (\<lambda>_. ?V) ?V"
  proof (cases "tc_tool call \<in> set WRITE_TOOLS")
    case True
    then show ?thesis
      using tools_fenced[OF assms(3,4)] assms(5) by (auto simp: WRITE_TOOLS_def write_tool_runs)
  next
    case False
    then show ?thesis by (rule triple_pre[OF other_tools_triple[where P = ?V]]) (auto simp: held_def)
  qed
  have all: "triple False ?H (execute ev call) (\<lambda>_. ?V) (\<lambda>_. ?V) ?V"
    unfolding execute_def
    by (rule triple_seq[OF triple_post[OF validate_triple[where P = ?H]] run]) (auto simp: held_def)
  have "?H s" using assms(2) by (auto simp: held_def in_view_def)
  from tripleD[OF all this _ assms(1)] show ?thesis by (cases r) (auto simp: in_view_def)
qed

section \<open>Sessions\<close>

definition demo_write_grant :: capability_grant where
  "demo_write_grant = demo_grant\<lparr>gr_tools := WRITE_TOOLS, gr_max_calls := 20\<rparr>"

definition demo_exec_env :: "(rat \<times> engine_op) list \<Rightarrow> exec_env" where
  "demo_exec_env between = \<lparr>xe_active = [([''main.c''], Vfile ''int main;'')],
     xe_tools = \<lparr>te_sha = id, te_json = (\<lambda>_. None), te_strict_json = (\<lambda>_. None)\<rparr>,
     xe_by_active = \<lparr>by_exists = (\<lambda>_. False), by_dir = (\<lambda>_. False)\<rparr>, xe_by_stage = \<lparr>by_exists = (\<lambda>_. False), by_dir = (\<lambda>_. False)\<rparr>,
     xe_policy = product_agent_policy 128000, xe_grant = Some demo_write_grant, xe_root = ''/w'', xe_requirements = None, xe_now = 2, xe_later = 3,
     xe_between = between, xe_diff = (\<lambda>_ _. []), xe_local = (\<lambda>_ _ _. Inr VNone), xe_skill = (\<lambda>_. Inr []), xe_service = (\<lambda>_. None)\<rparr>"

definition demo_executor :: executor where
  "demo_executor = \<lparr>ex_stage = [], ex_deleted = {}, ex_edit_read = {}, ex_plan = [],
     ex_engine = Some ((new_engine 300)\<lparr>en_grants := [(''grant-1'', demo_write_grant)]\<rparr>)\<rparr>"

definition demo_edit :: tool_call where
  "demo_edit = \<lparr>tc_tool = EDIT_FILE_SIMPLE, tc_args = [(''path'', VStr ''main.c''), (''old_text'', VStr ''main''), (''new_text'', VStr ''setup'')]\<rparr>"

definition demo_move :: tool_call where
  "demo_move = \<lparr>tc_tool = MOVE_FILE, tc_args = [(''path'', VStr ''main.c''), (''destination'', VStr ''app.c'')]\<rparr>"

definition demo_delete :: tool_call where
  "demo_delete = \<lparr>tc_tool = DELETE_FILE, tc_args = [(''path'', VStr ''main.c'')]\<rparr>"

text \<open>An edit; and a move whose destination is written, before the process fails at the removal of the source of the stage.\<close>

lemma executor_refines_project_witness:
  "view (demo_exec_env []) (snd (snd (execute (demo_exec_env []) demo_edit [] demo_executor))) ''main.c'' = Some ''int setup;''"
proof -
  let ?ev = "demo_exec_env []"
  obtain r sch' s' where e: "execute ?ev demo_edit [] demo_executor = (r, sch', s')" by (cases "execute ?ev demo_edit [] demo_executor")
  have "(case fst (execute ?ev demo_edit [] demo_executor) of Done _ \<Rightarrow> True | _ \<Rightarrow> False)" by code_simp
  then obtain v where "r = Done v" using e by (cases r) simp_all
  then have "view ?ev s' = project_call demo_edit (view ?ev demo_executor)" using executor_refines_project[OF e] by simp
  moreover have "project_call demo_edit (view ?ev demo_executor) ''main.c'' = Some ''int setup;''" by code_simp
  ultimately show ?thesis using e by simp
qed

definition demo_session :: "(exec_env \<times> tool_call \<times> fault list) list" where
  "demo_session = [(demo_exec_env [], demo_edit, []), (demo_exec_env [], demo_move, [Go, Go, Go, Fail])]"

lemma staged_files_acceptable_witness:
  "acceptable (product_agent_policy 128000) [''main.c''] ''int setup;''"
proof -
  have "\<forall>(ev, call, sch) \<in> set demo_session. xe_policy ev = product_agent_policy 128000"
    by (simp add: demo_session_def demo_exec_env_def)
  moreover have "node_at (ex_stage (run_calls demo_session demo_executor)) [''main.c''] = Some (Vfile ''int setup;'')" by code_simp
  ultimately have "node_at (ex_stage demo_executor) [''main.c''] = Some (Vfile ''int setup;'') \<or> acceptable (product_agent_policy 128000) [''main.c''] ''int setup;''"
    by (rule staged_files_acceptable)
  then show ?thesis by (simp add: demo_executor_def node_at_def)
qed

lemma fence_stops_publication_witness:
  "view (demo_exec_env [(5/2, Fence_run ''r'')]) (snd (snd (execute (demo_exec_env [(5/2, Fence_run ''r'')]) demo_move [] demo_executor))) ''main.c''
     = Some ''int main;''"
proof -
  let ?ev = "demo_exec_env [(5/2, Fence_run ''r'')]"
  obtain r sch' s' where e: "execute ?ev demo_move [] demo_executor = (r, sch', s')" by (cases "execute ?ev demo_move [] demo_executor")
  have g: "xe_grant ?ev = Some demo_write_grant" "(5/2, Fence_run (gr_run demo_write_grant)) \<in> set (xe_between ?ev)"
    by (simp_all add: demo_exec_env_def demo_write_grant_def demo_grant_def)
  have "view ?ev s' = view ?ev demo_executor"
    by (rule fence_stops_publication[OF e _ g]) (simp_all add: demo_executor_def demo_move_def)
  moreover have "view ?ev demo_executor ''main.c'' = Some ''int main;''" by code_simp
  ultimately show ?thesis using e by simp
qed

text \<open>The guard covers the replacement of a file only: a deletion that was validated before the fence hides the file after it.\<close>

lemma delete_passes_fence:
  "view (demo_exec_env [(5/2, Fence_run ''r'')]) (snd (snd (execute (demo_exec_env [(5/2, Fence_run ''r'')]) demo_delete [] demo_executor))) ''main.c'' = None"
  by code_simp

lemma reading_on_complete_witness:
  "\<exists>pages. read_pages (\<lambda>offset. read_result (demo_exec_env []) ''a'' (''a'' @ [lf_char] @ ''b'' @ [lf_char]) offset 1) 3 1 = Some pages \<and>
     concat (map answer_lines pages) = [1, 2] \<and> concat (map answer_text pages) = ''a'' @ [lf_char] @ ''b'' @ [lf_char]"
proof -
  let ?text = "''a'' @ [lf_char] @ ''b'' @ [lf_char]"
  have s: "split_keep ?text = [[CHR ''a'', lf_char], [CHR ''b'', lf_char]]" by code_simp
  have f: "line_fits 1 [CHR ''a'', lf_char]" "line_fits 2 [CHR ''b'', lf_char]" by code_simp+
  have fits: "\<forall>i < length (split_keep ?text). line_fits (Suc i) (split_keep ?text ! i)"
    using f unfolding s by (auto simp: less_Suc_eq nth_Cons' numeral_2_eq_2)
  have n: "Suc (length (split_keep ?text)) = 3" unfolding s by simp
  obtain pages where p: "read_pages (\<lambda>offset. read_result (demo_exec_env []) ''a'' ?text offset 1) 3 1 = Some pages"
      "concat (map answer_lines pages) = [1..<3]" "concat (map answer_text pages) = ?text"
    using reading_on_complete[of 1 "demo_exec_env []" "''a''" ?text] fits unfolding n by blast
  have u: "[1..<3] = [1, 2::nat]" by (simp add: upt_rec)
  show ?thesis by (intro exI[of _ pages] conjI) (use p in \<open>simp_all only: u\<close>)
qed

end
