(* ===== verification/Urls.thy ===== *)
theory Urls
  imports Change_Paths
begin

text \<open>
  \<^verbatim>\<open>urllib.parse.urlsplit\<close> of Python 3.13 (the version the project's workflow pins), as far as
  \<^verbatim>\<open>backend/model_router/registry.py\<close> uses it: scheme, host, user, password and fragment of an ASCII text. The test of
  \<^verbatim>\<open>ipaddress\<close> on a bracketed host is the argument \<open>ip\<close>. The last section shows that an endpoint that was accepted
  stays acceptable when the registry strips white space and slashes from it.
\<close>

section \<open>Parsing\<close>

record url =
  url_scheme :: string
  url_host :: "string option"
  url_user :: "string option"
  url_password :: "string option"
  url_fragment :: string

text \<open>The two ends of \<^verbatim>\<open>partition\<close> at the first occurrence of a character, and of \<^verbatim>\<open>rpartition\<close> at the last.\<close>

definition before :: "char \<Rightarrow> string \<Rightarrow> string" where
  "before c s = takeWhile (\<lambda>d. d \<noteq> c) s"

definition behind :: "char \<Rightarrow> string \<Rightarrow> string" where
  "behind c s = tl (dropWhile (\<lambda>d. d \<noteq> c) s)"

definition behind_last :: "char \<Rightarrow> string \<Rightarrow> string" where
  "behind_last c s = rev (takeWhile (\<lambda>d. d \<noteq> c) (rev s))"

definition before_last :: "char \<Rightarrow> string \<Rightarrow> string" where
  "before_last c s = rev (tl (dropWhile (\<lambda>d. d \<noteq> c) (rev s)))"

definition low_char :: "char \<Rightarrow> bool" where
  "low_char c \<longleftrightarrow> of_char c \<le> (32 :: nat)"

definition unsafe_char :: "char \<Rightarrow> bool" where
  "unsafe_char c \<longleftrightarrow> of_char c \<in> {9, 10, 13 :: nat}"

definition clean_url :: "string \<Rightarrow> string" where
  "clean_url s = filter (\<lambda>c. \<not> unsafe_char c) (dropWhile low_char s)"

definition alpha_char :: "char \<Rightarrow> bool" where
  "alpha_char c = (let n = of_char (lower_char c) :: nat in 97 \<le> n \<and> n \<le> 122)"

definition scheme_char :: "char \<Rightarrow> bool" where
  "scheme_char c \<longleftrightarrow> alpha_char c \<or> c \<in> set ''0123456789+-.''"

definition scheme_split :: "string \<Rightarrow> string \<times> string" where
  "scheme_split s =
     (let p = before CHR '':'' s in
      if CHR '':'' \<in> set s \<and> p \<noteq> [] \<and> alpha_char (hd p) \<and> list_all scheme_char p
      then (py_lower p, behind CHR '':'' s) else ([], s))"

definition net_end :: "char \<Rightarrow> bool" where
  "net_end c \<longleftrightarrow> c \<in> {CHR ''/'', CHR ''?'', CHR ''#''}"

definition netloc_of :: "string \<Rightarrow> string" where
  "netloc_of s = (if take 2 s = ''//'' then takeWhile (\<lambda>c. \<not> net_end c) (drop 2 s) else [])"

definition url_path_of :: "string \<Rightarrow> string" where
  "url_path_of s = (if take 2 s = ''//'' then dropWhile (\<lambda>c. \<not> net_end c) (drop 2 s) else s)"

text \<open>\<^verbatim>\<open>_check_bracketed_netloc\<close>\<close>

definition brackets_ok :: "(string \<Rightarrow> bool) \<Rightarrow> string \<Rightarrow> bool" where
  "brackets_ok ip netloc =
     (let info = behind_last CHR ''@'' netloc in
      if CHR ''['' \<in> set info
      then before CHR ''['' info = [] \<and>
        (let port = behind CHR '']'' (behind CHR ''['' info) in port = [] \<or> hd port = CHR '':'') \<and>
        ip (before CHR '']'' (behind CHR ''['' info))
      else ip (before CHR '':'' info))"

definition netloc_ok :: "(string \<Rightarrow> bool) \<Rightarrow> string \<Rightarrow> bool" where
  "netloc_ok ip netloc =
     ((CHR ''['' \<in> set netloc \<longleftrightarrow> CHR '']'' \<in> set netloc) \<and> (CHR ''['' \<in> set netloc \<longrightarrow> brackets_ok ip netloc))"

text \<open>The host, in lower case up to the zone of a scoped address.\<close>

definition host_of :: "string \<Rightarrow> string option" where
  "host_of netloc =
     (let info = behind_last CHR ''@'' netloc;
          h = (if CHR ''['' \<in> set info then before CHR '']'' (behind CHR ''['' info) else before CHR '':'' info) in
      if h = [] then None
      else Some (py_lower (before CHR ''%'' h) @ dropWhile (\<lambda>d. d \<noteq> CHR ''%'') h))"

definition user_of :: "string \<Rightarrow> string option" where
  "user_of netloc =
     (if CHR ''@'' \<in> set netloc then Some (before CHR '':'' (before_last CHR ''@'' netloc)) else None)"

definition password_of :: "string \<Rightarrow> string option" where
  "password_of netloc =
     (if CHR ''@'' \<in> set netloc \<and> CHR '':'' \<in> set (before_last CHR ''@'' netloc)
      then Some (behind CHR '':'' (before_last CHR ''@'' netloc)) else None)"

text \<open>The parse of a cleaned text, \<^verbatim>\<open>None\<close> where \<^verbatim>\<open>urlsplit\<close> raises \<^verbatim>\<open>ValueError\<close>.\<close>

definition parse_url :: "(string \<Rightarrow> bool) \<Rightarrow> string \<Rightarrow> url option" where
  "parse_url ip s =
     (case scheme_split s of (scheme, rest) \<Rightarrow>
        if \<not> netloc_ok ip (netloc_of rest) then None
        else Some \<lparr>url_scheme = scheme, url_host = host_of (netloc_of rest), url_user = user_of (netloc_of rest),
                   url_password = password_of (netloc_of rest), url_fragment = behind CHR ''#'' (url_path_of rest)\<rparr>)"

definition urlsplit :: "(string \<Rightarrow> bool) \<Rightarrow> string \<Rightarrow> url option" where
  "urlsplit ip s = parse_url ip (clean_url s)"

definition LOOPBACK :: "string set" where
  "LOOPBACK = {''localhost'', ''127.0.0.1'', ''::1''}"

definition loopback_url :: "url \<Rightarrow> bool" where
  "loopback_url u = (case url_host u of None \<Rightarrow> False | Some h \<Rightarrow> h \<in> LOOPBACK)"

text \<open>An endpoint nobody on the way can read: it is encrypted, or does not leave the machine; and carries no login.\<close>

definition safe_url :: "url \<Rightarrow> bool" where
  "safe_url u \<longleftrightarrow> (url_scheme u = ''https'' \<or> loopback_url u) \<and>
     \<not> py_true_opt (url_user u) \<and> \<not> py_true_opt (url_password u)"

definition safe_endpoint :: "(string \<Rightarrow> bool) \<Rightarrow> string \<Rightarrow> bool" where
  "safe_endpoint ip s = (case urlsplit ip s of None \<Rightarrow> False | Some u \<Rightarrow> safe_url u)"

section \<open>Stripping an endpoint\<close>

lemma before_snoc: "before d (s @ [c]) = (if d \<in> set s then before d s else if c = d then s else s @ [c])"
  by (induction s) (auto simp: before_def)

lemma behind_snoc: "behind d (s @ [c]) = (if d \<in> set s then behind d s @ [c] else [])"
  by (induction s) (auto simp: behind_def)

lemma behind_last_snoc: "behind_last d (s @ [c]) = (if c = d then [] else behind_last d s @ [c])"
  by (simp add: behind_last_def)

lemma before_last_snoc: "c \<noteq> d \<Longrightarrow> before_last d (s @ [c]) = before_last d s"
  by (simp add: before_last_def)

lemmas snoc_simps = before_snoc behind_snoc behind_last_snoc before_last_snoc

lemma split_last: "d \<in> set s \<Longrightarrow> s = before_last d s @ d # behind_last d s"
proof -
  assume "d \<in> set s"
  then obtain xs ys where s: "rev s = xs @ d # ys" "d \<notin> set xs" by (metis set_rev split_list_first)
  have "\<forall>c \<in> set xs. c \<noteq> d" using s(2) by auto
  then have "behind_last d s = rev xs" "before_last d s = rev ys"
    by (simp_all add: behind_last_def before_last_def s takeWhile_append2 dropWhile_append2)
  moreover have "s = rev ys @ d # rev xs" using arg_cong [OF s(1), of rev] by simp
  ultimately show ?thesis by simp
qed

lemma behind_last_whole: "d \<notin> set s \<Longrightarrow> behind_last d s = s"
proof -
  assume "d \<notin> set s"
  then have "\<forall>c \<in> set (rev s). c \<noteq> d" by auto
  then have "takeWhile (\<lambda>c. c \<noteq> d) (rev s) = rev s" by (simp only: takeWhile_eq_all_conv)
  then show ?thesis by (simp only: behind_last_def rev_rev_ident)
qed

lemma behind_of_first: "before d s = [] \<Longrightarrow> d \<in> set s \<Longrightarrow> s = d # behind d s"
  by (cases s) (auto simp: before_def behind_def split: if_splits)

text \<open>White space is none of the characters that separate the parts of a URL.\<close>

lemma space_char:
  assumes "is_space c"
  shows "c \<noteq> CHR '':''" "c \<noteq> CHR ''@''" "c \<noteq> CHR ''[''" "c \<noteq> CHR '']''" "c \<noteq> CHR ''%''" "c \<noteq> CHR ''t''" "c \<noteq> CHR ''1''"
    "lower_char c = c"
proof -
  show "c \<noteq> CHR '':''" "c \<noteq> CHR ''@''" "c \<noteq> CHR ''[''" "c \<noteq> CHR '']''" "c \<noteq> CHR ''%''" "c \<noteq> CHR ''t''" "c \<noteq> CHR ''1''"
    using assms by (auto simp: is_space_def)
  show "lower_char c = c"
    using assms unfolding is_space_def lower_char_def Let_def by (simp split: if_splits) linarith
qed

lemma no_login_brackets:
  assumes "\<not> py_true_opt (user_of n)" "\<not> py_true_opt (password_of n)" "d \<in> set n" "d \<noteq> CHR ''@''" "d \<noteq> CHR '':''"
  shows "d \<in> set (behind_last CHR ''@'' n)"
proof (cases "CHR ''@'' \<in> set n")
  case True
  let ?p = "before_last CHR ''@'' n"
  have "before CHR '':'' ?p = []" using assms(1) True by (simp add: user_of_def py_true_opt_def)
  moreover have "CHR '':'' \<in> set ?p \<Longrightarrow> behind CHR '':'' ?p = []"
    using assms(2) True by (simp add: password_of_def py_true_opt_def)
  ultimately have "set ?p \<subseteq> {CHR '':''}"
    by (cases ?p) (auto simp: before_def behind_def split: if_splits)
  moreover have "d \<in> set (?p @ CHR ''@'' # behind_last CHR ''@'' n)"
    using split_last [OF True] assms(3) by simp
  ultimately show ?thesis using assms(4,5) by auto
qed (simp add: behind_last_whole assms)

text \<open>A white space at the end of the network location.\<close>

lemma netloc_snoc:
  assumes c: "is_space c" and ok: "netloc_ok ip (n @ [c])"
    and login: "\<not> py_true_opt (user_of n)" "\<not> py_true_opt (password_of n)"
  shows "netloc_ok ip n"
proof (cases "CHR ''['' \<in> set n")
  case True
  let ?i = "behind_last CHR ''@'' n" and ?b = "behind CHR ''['' (behind_last CHR ''@'' n)"
  have both: "CHR '']'' \<in> set n" using ok True space_char [OF c] by (auto simp: netloc_ok_def)
  have i: "CHR ''['' \<in> set ?i" "CHR '']'' \<in> set ?i"
    using no_login_brackets [OF login] True both by simp_all
  have whole: "brackets_ok ip (n @ [c])" using ok True by (simp add: netloc_ok_def)
  then have first: "before CHR ''['' ?i = []"
    using i(1) space_char(2,3) [OF c] by (simp add: brackets_ok_def Let_def snoc_simps)
  have "CHR '']'' \<in> set (CHR ''['' # ?b)" using behind_of_first [OF first i(1)] i(2) by simp
  then have b: "CHR '']'' \<in> set ?b" by simp
  have "brackets_ok ip n"
    using whole b i(1) space_char(1-3) [OF c]
    by (cases "behind CHR '']'' ?b") (simp_all add: brackets_ok_def Let_def snoc_simps)
  then show ?thesis using both True by (simp add: netloc_ok_def)
next
  case False
  then show ?thesis using ok space_char [OF c] by (auto simp: netloc_ok_def)
qed

lemma login_snoc:
  assumes "is_space c"
  shows "user_of (n @ [c]) = user_of n" "password_of (n @ [c]) = password_of n"
  using space_char [OF assms] by (auto simp: user_of_def password_of_def snoc_simps)

definition loop_host :: "string \<Rightarrow> bool" where
  "loop_host n \<longleftrightarrow> (case host_of n of None \<Rightarrow> False | Some h \<Rightarrow> h \<in> LOOPBACK)"

lemma loop_host_snoc:
  assumes c: "is_space c" and "loop_host (n @ [c])"
  shows "loop_host n"
proof -
  note sp = space_char [OF c]
  let ?i = "behind_last CHR ''@'' n"
  have zone: "py_lower (before CHR ''%'' (t @ [c])) @ dropWhile (\<lambda>d. d \<noteq> CHR ''%'') (t @ [c]) \<noteq> v" if "v \<in> LOOPBACK" for t v
  proof
    assume e: "py_lower (before CHR ''%'' (t @ [c])) @ dropWhile (\<lambda>d. d \<noteq> CHR ''%'') (t @ [c]) = v"
    have "last (py_lower (before CHR ''%'' (t @ [c])) @ dropWhile (\<lambda>d. d \<noteq> CHR ''%'') (t @ [c])) = c"
      using sp by (cases "CHR ''%'' \<in> set t") (auto simp: snoc_simps py_lower_def dropWhile_append)
    then show False using e that sp by (auto simp: LOOPBACK_def)
  qed
  show ?thesis
    using assms(2) zone [of _ ?i] zone [of _ "behind CHR ''['' ?i"] sp
    by (auto simp: loop_host_def host_of_def Let_def snoc_simps split: if_splits)
qed

text \<open>The cleaned text: scheme, network location and path.\<close>

lemma scheme_snoc:
  "c \<noteq> CHR '':'' \<Longrightarrow> scheme_split (s @ [c]) = (fst (scheme_split s), snd (scheme_split s) @ [c])"
  by (auto simp: scheme_split_def Let_def snoc_simps)

lemma take_two_snoc:
  "take 2 (r @ [c]) = ''//'' \<longleftrightarrow> take 2 r = ''//'' \<or> (r = ''/'' \<and> c = CHR ''/'')"
  by (cases r rule: list.exhaust [case_product list.exhaust]; cases "tl r") auto

lemma netloc_of_snoc:
  "netloc_of (r @ [c]) = netloc_of r \<or> (netloc_of (r @ [c]) = netloc_of r @ [c] \<and> \<not> net_end c)"
proof (cases "take 2 r = ''//''")
  case True
  have "length (take 2 r) = 2" by (simp only: True) simp
  then have two: "2 \<le> length r" by simp
  have "netloc_of (r @ [c]) = takeWhile (\<lambda>c. \<not> net_end c) (drop 2 r @ [c])"
    using True two by (simp add: netloc_of_def)
  also have "\<dots> = netloc_of r \<or> (\<dots> = netloc_of r @ [c] \<and> \<not> net_end c)"
  proof (cases "\<exists>d \<in> set (drop 2 r). net_end d")
    case found: True
    then show ?thesis using True by (auto simp: netloc_of_def takeWhile_append1)
  next
    case False
    then have all: "\<forall>d \<in> set (drop 2 r). \<not> net_end d" by blast
    then have whole: "takeWhile (\<lambda>c. \<not> net_end c) (drop 2 r) = drop 2 r" by (simp only: takeWhile_eq_all_conv)
    then show ?thesis using True all by (simp add: netloc_of_def takeWhile_append2 whole)
  qed
  finally show ?thesis .
next
  case False
  show ?thesis
  proof (cases "take 2 (r @ [c]) = ''//''")
    case True
    then have "r = ''/''" "c = CHR ''/''" using False take_two_snoc [of r c] by blast+
    then show ?thesis by (simp add: netloc_of_def)
  next
    case none: False
    then show ?thesis using False unfolding netloc_of_def by (simp only: if_False) simp
  qed
qed

definition safe_parse :: "(string \<Rightarrow> bool) \<Rightarrow> string \<Rightarrow> bool" where
  "safe_parse ip s = (case parse_url ip s of None \<Rightarrow> False | Some u \<Rightarrow> safe_url u)"

lemma safe_parse_def2:
  "safe_parse ip s \<longleftrightarrow>
     (let n = netloc_of (snd (scheme_split s)) in
      netloc_ok ip n \<and> (fst (scheme_split s) = ''https'' \<or> loop_host n) \<and>
      \<not> py_true_opt (user_of n) \<and> \<not> py_true_opt (password_of n))"
  by (simp add: safe_parse_def parse_url_def safe_url_def loopback_url_def loop_host_def Let_def split: prod.split)

lemma safe_parse_snoc:
  assumes c: "is_space c \<or> c = CHR ''/''" and safe: "safe_parse ip (s @ [c])"
  shows "safe_parse ip s"
proof -
  have colon: "c \<noteq> CHR '':''" using c space_char(1) by auto
  show ?thesis
  proof (cases "netloc_of (snd (scheme_split s) @ [c]) = netloc_of (snd (scheme_split s))")
    case True
    then show ?thesis using safe by (simp add: safe_parse_def2 Let_def scheme_snoc [OF colon])
  next
    case False
    then have n: "netloc_of (snd (scheme_split s) @ [c]) = netloc_of (snd (scheme_split s)) @ [c]" "\<not> net_end c"
      using netloc_of_snoc by blast+
    then have sp: "is_space c" using c by (auto simp: net_end_def)
    show ?thesis
      using safe netloc_snoc [OF sp] loop_host_snoc [OF sp]
      by (auto simp: safe_parse_def2 Let_def scheme_snoc [OF colon] n login_snoc [OF sp])
  qed
qed

lemma clean_snoc:
  "clean_url (s @ [c]) = clean_url s \<or> clean_url (s @ [c]) = clean_url s @ [c]"
  by (induction s) (auto simp: clean_url_def)

lemma safe_endpoint_snoc: "is_space c \<or> c = CHR ''/'' \<Longrightarrow> safe_endpoint ip (s @ [c]) \<Longrightarrow> safe_endpoint ip s"
  using clean_snoc [of s c] safe_parse_snoc [of c ip "clean_url s"]
  by (auto simp: safe_endpoint_def urlsplit_def safe_parse_def)

lemma safe_endpoint_strip_end:
  assumes "\<And>c. P c \<Longrightarrow> is_space c \<or> c = CHR ''/''"
  shows "safe_endpoint ip s \<Longrightarrow> safe_endpoint ip (rev (dropWhile P (rev s)))"
  by (induction s rule: rev_induct) (auto dest!: safe_endpoint_snoc [rotated] assms)

lemma clean_lstrip: "clean_url (py_lstrip s) = clean_url s"
proof -
  have "is_space c \<Longrightarrow> low_char c" for c by (auto simp: is_space_def low_char_def Let_def)
  then show ?thesis by (induction s) (auto simp: py_lstrip_def clean_url_def)
qed

lemma safe_endpoint_lstrip: "safe_endpoint ip (py_lstrip s) = safe_endpoint ip s"
  by (simp add: safe_endpoint_def urlsplit_def clean_lstrip)

lemma safe_endpoint_strip: "safe_endpoint ip s \<Longrightarrow> safe_endpoint ip (py_strip s)"
  using safe_endpoint_strip_end [of is_space ip "py_lstrip s"]
  by (simp add: py_strip_def py_lstrip_def [of "rev _"] safe_endpoint_lstrip)

end
