(* ===== verification/Model_Registry.thy ===== *)
theory Model_Registry
  imports Urls
begin

text \<open>
  The registry of model providers, \<^verbatim>\<open>backend/model_router/registry.py\<close>, over the state that
  \<^verbatim>\<open>backend/model_router/storage.py\<close> keeps: provider definitions and settings, credentials, custom providers, routes,
  retired models and model capabilities.

  The settings document is a record of its sections, the credential store of the operating system a map from its
  entries to secrets; every operation of the storage is one atomic update of the document. The catalog that ships
  as data (providers beside the built-in ones, capabilities and environment names), the environment and the
  JSON parser of stored options are arguments. Plaintext keys of earlier releases, the display lists of models and the
  masked keys shown to the user are not modelled. Texts are ASCII.
\<close>

section \<open>Data\<close>

record provider_def =
  pd_id :: string
  pd_name :: string
  pd_auth :: string
  pd_local :: bool
  pd_default :: string
  pd_env_key :: "string option"
  pd_base :: "string option"
  pd_env_model :: "string option"
  pd_available :: bool
  pd_protocol :: string

record custom_def =
  cd_name :: string
  cd_protocol :: string
  cd_base :: string
  cd_default :: string
  cd_models :: "string list"
  cd_local :: bool
  cd_auth :: string

record provider_settings =
  ps_base :: "string option"
  ps_default :: "string option"
  ps_enabled :: "bool option"
  ps_credential :: "string option"

text \<open>Settings of a request: a field is absent, or a value that may be \<^verbatim>\<open>None\<close>.\<close>

record settings_update =
  su_key :: "string option option"
  su_base :: "string option option"
  su_default :: "string option option"
  su_enabled :: "bool option option"
  su_options :: "string option option"

record model_caps =
  mc_streaming :: bool
  mc_json_object :: bool
  mc_json_schema :: bool
  mc_tools :: bool
  mc_reasoning :: bool
  mc_system :: bool
  mc_text :: bool
  mc_vision :: bool
  mc_embeddings :: bool
  mc_reranking :: bool
  mc_window :: "int option"

text \<open>A discovered model: its identity, whether it is free, its capabilities or its supported parameters.\<close>

record cached_model =
  cm_id :: string
  cm_free :: "bool option"
  cm_caps :: "model_caps option"
  cm_params :: "string list option"

record availability =
  av_status :: string
  av_reason :: string
  av_endpoint :: string

record model_route =
  mr_task :: string
  mr_provider :: string
  mr_model :: string
  mr_local :: bool

record router_state =
  rs_settings :: "string \<rightharpoonup> provider_settings"
  rs_custom :: "string \<rightharpoonup> custom_def"
  rs_routes :: "string \<rightharpoonup> model_route"
  rs_health :: "string \<rightharpoonup> string \<times> string option"
  rs_models :: "string \<rightharpoonup> cached_model list"
  rs_retired :: "string \<times> string \<rightharpoonup> availability"
  rs_secrets :: "string \<rightharpoonup> string"

text \<open>
  The surroundings: \<open>re_catalog\<close> the catalog's providers, \<open>re_facts\<close> its capabilities of a model with its prices of
  input and output, \<open>re_names\<close> its environment names, \<open>re_quarantine\<close> the reason that disables an adapter, \<open>re_ip\<close>
  the test of an IP address in brackets, \<open>re_json\<close> the JSON parser (\<^verbatim>\<open>None\<close> when it raises), \<open>re_vault\<close> whether the credential store takes secrets.
\<close>

record registry_env =
  re_catalog :: "string \<rightharpoonup> provider_def"
  re_facts :: "string \<Rightarrow> string \<Rightarrow> (model_caps \<times> bool) option"
  re_names :: "string \<Rightarrow> string list"
  re_quarantine :: "string \<Rightarrow> string option"
  re_environ :: "string \<rightharpoonup> string"
  re_ip :: "string \<Rightarrow> bool"
  re_json :: "string \<Rightarrow> (string \<rightharpoonup> pyval) option"
  re_vault :: bool

datatype router_error =
    Router_value_error string
  | Json_decode_error
  | Credential_error string
  | Configuration_error string
  | Capability_error string

definition no_settings :: provider_settings where
  "no_settings = \<lparr>ps_base = None, ps_default = None, ps_enabled = None, ps_credential = None\<rparr>"

definition empty_router :: router_state where
  "empty_router = \<lparr>rs_settings = Map.empty, rs_custom = Map.empty, rs_routes = Map.empty, rs_health = Map.empty,
     rs_models = Map.empty, rs_retired = Map.empty, rs_secrets = Map.empty\<rparr>"

definition DEFAULT_OPENROUTER_MODEL :: string where
  "DEFAULT_OPENROUTER_MODEL = ''cohere/north-mini-code:free''"

definition RETIRED_OPENROUTER_MODELS :: "string set" where
  "RETIRED_OPENROUTER_MODELS = {''minimax/minimax-m3:free''}"

definition RETIRED_NVIDIA_MODELS :: "string set" where
  "RETIRED_NVIDIA_MODELS = {''qwen/qwen3-coder-480b-a35b-instruct''}"

definition TASK_TYPES :: "string list" where
  "TASK_TYPES = [''code_generation'', ''planning'', ''debugging'', ''documentation'', ''serial_analysis'',
     ''hardware_analysis'', ''testing'', ''review'', ''general_chat'']"

definition api_provider :: "string \<Rightarrow> string \<Rightarrow> string \<Rightarrow> string \<Rightarrow> string \<Rightarrow> string \<Rightarrow> string \<Rightarrow> provider_def" where
  "api_provider i name model key base env_model protocol =
     \<lparr>pd_id = i, pd_name = name, pd_auth = ''api_key'', pd_local = False, pd_default = model, pd_env_key = Some key,
      pd_base = Some base, pd_env_model = Some env_model, pd_available = True, pd_protocol = protocol\<rparr>"

definition local_provider :: "string \<Rightarrow> string \<Rightarrow> string \<Rightarrow> string \<Rightarrow> string \<Rightarrow> provider_def" where
  "local_provider i name model base env_model =
     \<lparr>pd_id = i, pd_name = name, pd_auth = ''none'', pd_local = True, pd_default = model, pd_env_key = None,
      pd_base = Some base, pd_env_model = Some env_model, pd_available = True, pd_protocol = ''openai-completions''\<rparr>"

definition BUILTIN_PROVIDERS :: "provider_def list" where
  "BUILTIN_PROVIDERS =
     [api_provider ''deepseek'' ''DeepSeek API'' ''deepseek-chat'' ''DEEPSEEK_API_KEY'' ''https://api.deepseek.com''
        ''DEEPSEEK_MODEL'' ''openai-completions'',
      api_provider ''anthropic'' ''Anthropic API'' ''claude-sonnet-4-5'' ''ANTHROPIC_API_KEY''
        ''https://api.anthropic.com/v1'' ''ANTHROPIC_MODEL'' ''anthropic-messages'',
      api_provider ''openrouter'' ''OpenRouter API'' DEFAULT_OPENROUTER_MODEL ''OPENROUTER_API_KEY''
        ''https://openrouter.ai/api/v1'' ''OPENROUTER_MODEL'' ''openai-completions'',
      api_provider ''openai'' ''OpenAI API'' ''gpt-4o-mini'' ''OPENAI_API_KEY'' ''https://api.openai.com/v1''
        ''OPENAI_MODEL'' ''openai-responses'',
      api_provider ''groq'' ''Groq API'' ''llama-3.3-70b-versatile'' ''GROQ_API_KEY'' ''https://api.groq.com/openai/v1''
        ''GROQ_MODEL'' ''openai-completions'',
      api_provider ''cerebras'' ''Cerebras'' ''gpt-oss-120b'' ''CEREBRAS_API_KEY'' ''https://api.cerebras.ai/v1''
        ''CEREBRAS_MODEL'' ''openai-completions'',
      api_provider ''nvidia_nim'' ''NVIDIA NIM'' ''nvidia/nemotron-3-super-120b-a12b'' ''NVIDIA_API_KEY''
        ''https://integrate.api.nvidia.com/v1'' ''NVIDIA_MODEL'' ''openai-completions'',
      api_provider ''gemini'' ''Gemini API'' ''gemini-2.5-flash'' ''GEMINI_API_KEY''
        ''https://generativelanguage.googleapis.com/v1beta'' ''GEMINI_MODEL'' ''google-generate-content'',
      local_provider ''lmstudio'' ''LM Studio'' ''local-model'' ''http://localhost:1234/v1'' ''LMSTUDIO_MODEL'',
      local_provider ''ollama'' ''Ollama'' ''llama3.1'' ''http://localhost:11434'' ''OLLAMA_MODEL'']"

section \<open>Lookups\<close>

text \<open>\<^verbatim>\<open>PROVIDERS\<close>: the built-in providers, extended by those of the catalog.\<close>

definition shipped_provider :: "registry_env \<Rightarrow> string \<Rightarrow> provider_def option" where
  "shipped_provider re i =
     (case List.find (\<lambda>d. pd_id d = i) BUILTIN_PROVIDERS of Some d \<Rightarrow> Some d | None \<Rightarrow> re_catalog re i)"

definition definition_of :: "registry_env \<Rightarrow> router_state \<Rightarrow> string \<Rightarrow> router_error + provider_def" where
  "definition_of re s i =
     (case shipped_provider re i of
        Some d \<Rightarrow> Inr d
      | None \<Rightarrow> (case rs_custom s i of
            None \<Rightarrow> Inl (Router_value_error ''Unknown model provider'')
          | Some c \<Rightarrow> Inr \<lparr>pd_id = i, pd_name = cd_name c, pd_auth = (if cd_auth c = [] then ''api_key'' else cd_auth c),
              pd_local = cd_local c, pd_default = cd_default c, pd_env_key = None, pd_base = Some (cd_base c),
              pd_env_model = None, pd_available = True, pd_protocol = cd_protocol c\<rparr>))"

definition settings_of :: "router_state \<Rightarrow> string \<Rightarrow> provider_settings" where
  "settings_of s i = (case rs_settings s i of None \<Rightarrow> no_settings | Some ps \<Rightarrow> ps)"

definition rstrip_slash :: "string \<Rightarrow> string" where
  "rstrip_slash s = rev (dropWhile (\<lambda>c. c = slash_char) (rev s))"

definition strip_quotes :: "string \<Rightarrow> string" where
  "strip_quotes s = (let q = (\<lambda>c. c = CHR ''\"'' \<or> of_char c = (39 :: nat)) in
     rev (dropWhile q (rev (dropWhile q s))))"

definition clean_model_id :: "string \<Rightarrow> string" where
  "clean_model_id v = strip_quotes (py_strip v)"

definition resolve_model_id :: "string \<Rightarrow> string \<Rightarrow> string" where
  "resolve_model_id i model =
     (if i = ''openrouter'' \<and> clean_model_id model \<in> RETIRED_OPENROUTER_MODELS then DEFAULT_OPENROUTER_MODEL
      else clean_model_id model)"

text \<open>\<^verbatim>\<open>os.getenv(name, "").strip()\<close>\<close>

definition env_text :: "registry_env \<Rightarrow> string \<Rightarrow> string" where
  "env_text re name = (case re_environ re name of None \<Rightarrow> [] | Some v \<Rightarrow> py_strip v)"

text \<open>\<^verbatim>\<open>os.getenv(name)\<close> as a truth value.\<close>

definition env_set :: "registry_env \<Rightarrow> string \<Rightarrow> bool" where
  "env_set re name = py_true_opt (re_environ re name)"

definition base_url :: "registry_env \<Rightarrow> router_state \<Rightarrow> string \<Rightarrow> router_error + string option" where
  "base_url re s i =
     bind_result (definition_of re s i) (\<lambda>d.
       Inr (case ps_base (settings_of s i) of
              Some raw \<Rightarrow> if py_strip raw \<noteq> [] then Some (rstrip_slash (py_strip raw)) else pd_base d
            | None \<Rightarrow> pd_base d))"

definition default_model :: "registry_env \<Rightarrow> router_state \<Rightarrow> string \<Rightarrow> router_error + string" where
  "default_model re s i =
     bind_result (definition_of re s i) (\<lambda>d.
       Inr (case ps_default (settings_of s i) of
              Some raw \<Rightarrow> if py_strip raw \<noteq> [] then resolve_model_id i raw
                else (case pd_env_model d of
                        Some name \<Rightarrow> if env_text re name \<noteq> [] then clean_model_id (env_text re name) else pd_default d
                      | None \<Rightarrow> pd_default d)
            | None \<Rightarrow> (case pd_env_model d of
                  Some name \<Rightarrow> if env_text re name \<noteq> [] then clean_model_id (env_text re name) else pd_default d
                | None \<Rightarrow> pd_default d)))"

section \<open>Credentials and options\<close>

definition options_entry :: "string \<Rightarrow> string" where
  "options_entry i = i @ ''-options''"

definition OPTION_NAMES :: "string \<Rightarrow> (string \<times> string) list" where
  "OPTION_NAMES i =
     [(''AWS_REGION'', ''region''), (''AWS_PROFILE'', ''profile''), (''GOOGLE_VERTEX_PROJECT'', ''project''),
      (''GOOGLE_VERTEX_LOCATION'', ''location''), (''CLOUDFLARE_ACCOUNT_ID'', ''accountId''),
      (''CLOUDFLARE_GATEWAY_ID'', ''gatewayId''), (''WATSONX_AI_PROJECT_ID'', ''projectId'')] @
     (if i = ''azure'' then [(''AZURE_RESOURCE_NAME'', ''resourceName'')]
      else if i = ''azure-cognitive-services'' then [(''AZURE_COGNITIVE_SERVICES_RESOURCE_NAME'', ''resourceName'')] else [])"

fun env_options :: "registry_env \<Rightarrow> (string \<times> string) list \<Rightarrow> (string \<rightharpoonup> pyval) \<Rightarrow> (string \<rightharpoonup> pyval)" where
  "env_options re [] options = options"
| "env_options re ((name, key) # ns) options =
     env_options re ns
       (if env_set re name \<and> options key = None then options(key \<mapsto> VStr (the (re_environ re name))) else options)"

definition provider_options :: "registry_env \<Rightarrow> router_state \<Rightarrow> string \<Rightarrow> router_error + (string \<rightharpoonup> pyval)" where
  "provider_options re s i =
     bind_result (definition_of re s i) (\<lambda>d.
     bind_result
       (case rs_secrets s (options_entry i) of
          None \<Rightarrow> Inr Map.empty
        | Some v \<Rightarrow> if v = [] then Inr Map.empty
                   else (case re_json re v of None \<Rightarrow> Inl Json_decode_error | Some options \<Rightarrow> Inr options))
       (\<lambda>options. Inr (env_options re (OPTION_NAMES i) options)))"

fun first_text :: "string list \<Rightarrow> string option" where
  "first_text [] = None"
| "first_text (t # ts) = (if t \<noteq> [] then Some t else first_text ts)"

definition option_text :: "(string \<rightharpoonup> pyval) \<Rightarrow> string \<Rightarrow> string" where
  "option_text options key = (case options key of Some (VStr v) \<Rightarrow> py_strip v | _ \<Rightarrow> [])"

definition key_like :: "string \<Rightarrow> bool" where
  "key_like name = ((contains_sub name ''KEY'' \<or> contains_sub name ''TOKEN'' \<or> contains_sub name ''PAT'') \<and>
     name \<notin> {''AWS_ACCESS_KEY_ID'', ''AWS_SECRET_ACCESS_KEY''})"

definition api_key :: "registry_env \<Rightarrow> router_state \<Rightarrow> string \<Rightarrow> router_error + string option" where
  "api_key re s i =
     bind_result (definition_of re s i) (\<lambda>d.
       if pd_auth d \<noteq> ''api_key'' then Inr None
       else if py_true_opt (rs_secrets s i) then Inr (rs_secrets s i)
       else case first_text (case pd_env_key d of None \<Rightarrow> [] | Some name \<Rightarrow> [env_text re name]) of
           Some v \<Rightarrow> Inr (Some v)
         | None \<Rightarrow>
             bind_result (provider_options re s i) (\<lambda>options.
               case first_text ([option_text options ''apiKey'', option_text options ''token''] @
                                map (env_text re) (filter key_like (re_names re i))) of
                 Some v \<Rightarrow> Inr (Some v)
               | None \<Rightarrow> Inr (if i = ''opencode'' then Some ''public'' else None)))"

section \<open>Providers\<close>

record model_provider =
  mp_id :: string
  mp_local :: bool
  mp_default :: string
  mp_base :: "string option"
  mp_enabled :: bool
  mp_configured :: bool
  mp_health :: string
  mp_error :: "string option"
  mp_custom :: bool
  mp_protocol :: string

definition option_set :: "(string \<rightharpoonup> pyval) \<Rightarrow> string \<Rightarrow> bool" where
  "option_set options key = py_true (py_get options key)"

text \<open>Providers of cloud platforms may be authorised by the environment instead of a key.\<close>

definition cloud_auth :: "registry_env \<Rightarrow> string \<Rightarrow> (string \<rightharpoonup> pyval) \<Rightarrow> bool" where
  "cloud_auth re i options =
     (i = ''amazon-bedrock'' \<and>
        (option_set options ''credentials'' \<or> option_set options ''profile'' \<or> env_set re ''AWS_PROFILE'' \<or>
         (env_set re ''AWS_ACCESS_KEY_ID'' \<and> env_set re ''AWS_SECRET_ACCESS_KEY'') \<or>
         env_set re ''AWS_WEB_IDENTITY_TOKEN_FILE'' \<or> env_set re ''AWS_CONTAINER_CREDENTIALS_RELATIVE_URI'' \<or>
         env_set re ''AWS_CONTAINER_CREDENTIALS_FULL_URI'') \<or>
      starts_with i ''google-vertex'' \<and>
        (option_set options ''project'' \<or> option_set options ''googleAuthOptions'' \<or>
         env_set re ''GOOGLE_APPLICATION_CREDENTIALS''))"

definition provider_of :: "registry_env \<Rightarrow> router_state \<Rightarrow> string \<Rightarrow> router_error + model_provider" where
  "provider_of re s i =
     bind_result (definition_of re s i) (\<lambda>d.
     bind_result (api_key re s i) (\<lambda>key.
     bind_result (default_model re s i) (\<lambda>model.
     bind_result (base_url re s i) (\<lambda>base.
     bind_result (provider_options re s i) (\<lambda>options.
       let configured = (if pd_auth d = ''api_key'' then py_true_opt key \<or> cloud_auth re i options
                         else pd_local d \<or> pd_auth d = ''none'');
           wanted = ((case ps_enabled (settings_of s i) of None \<Rightarrow> configured | Some b \<Rightarrow> b) \<and> pd_available d);
           quarantine = re_quarantine re i;
           enabled = (wanted \<and> \<not> py_true_opt quarantine \<and> (configured \<or> pd_local d));
           (status, message) = (case rs_health s i of None \<Rightarrow> (''unknown'', None)
                                | Some (st, msg) \<Rightarrow> (if st = [] then ''unknown'' else st, msg));
           (status, message) =
             (if \<not> configured then (''not_configured'', Some (''Add an API key to use '' @ pd_name d @ ''.''))
              else if \<not> pd_available d then (''disabled'', Some ''Adapter prepared for a later release.'')
              else if \<not> enabled then (''disabled'', message) else (status, message));
           (status, message) = (if py_true_opt quarantine then (''disabled'', quarantine) else (status, message)) in
       Inr \<lparr>mp_id = pd_id d, mp_local = pd_local d, mp_default = model, mp_base = base, mp_enabled = enabled,
            mp_configured = configured, mp_health = status, mp_error = message,
            mp_custom = (shipped_provider re i = None), mp_protocol = pd_protocol d\<rparr>)))))"

section \<open>Changing settings\<close>

text \<open>The credential store refuses secrets where no secure store exists.\<close>

definition vault_set :: "registry_env \<Rightarrow> string \<Rightarrow> string \<Rightarrow> router_state \<Rightarrow> router_error + router_state" where
  "vault_set re entry secret s =
     (if \<not> re_vault re then Inl (Credential_error ''secure_credential_store_unavailable'')
      else Inr (s\<lparr>rs_secrets := (rs_secrets s)(entry \<mapsto> secret)\<rparr>))"

definition vault_delete :: "string \<Rightarrow> router_state \<Rightarrow> router_state" where
  "vault_delete entry s = s\<lparr>rs_secrets := (rs_secrets s)(entry := None)\<rparr>"

definition merge_field :: "'a option option \<Rightarrow> 'a option \<Rightarrow> 'a option" where
  "merge_field update old = (case update of None \<Rightarrow> old | Some v \<Rightarrow> v)"

text \<open>\<^verbatim>\<open>save_provider_settings\<close>: the secret goes to the credential store, and only then the document is written.\<close>

definition save_settings :: "registry_env \<Rightarrow> string \<Rightarrow> settings_update \<Rightarrow> router_state \<Rightarrow> router_error + router_state" where
  "save_settings re i u s =
     (let old = settings_of s i in
      bind_result
        (case su_key u of
           None \<Rightarrow> Inr (s, ps_credential old)
         | Some None \<Rightarrow> Inr (vault_delete i s, None)
         | Some (Some secret) \<Rightarrow>
             if py_strip secret = [] then Inl (Credential_error ''credential_secret_invalid'')
             else bind_result (vault_set re i (py_strip secret) s) (\<lambda>s'. Inr (s', Some i)))
        (\<lambda>(s', reference). Inr (s'\<lparr>rs_settings := (rs_settings s')(i \<mapsto>
           \<lparr>ps_base = merge_field (su_base u) (ps_base old), ps_default = merge_field (su_default u) (ps_default old),
            ps_enabled = merge_field (su_enabled u) (ps_enabled old), ps_credential = reference\<rparr>)\<rparr>)))"

definition id_char :: "char \<Rightarrow> bool" where
  "id_char c = (let n = of_char c :: nat in (97 \<le> n \<and> n \<le> 122) \<or> (48 \<le> n \<and> n \<le> 57) \<or> n = 95 \<or> n = 45)"

definition PROTOCOLS :: "string set" where
  "PROTOCOLS = {''openai-completions'', ''openai-responses'', ''anthropic-messages''}"

record registration =
  rg_id :: string
  rg_name :: string
  rg_protocol :: string
  rg_base :: string
  rg_default :: string
  rg_models :: "string list"
  rg_local :: bool
  rg_key :: "string option"

definition normal_id :: "string \<Rightarrow> string" where
  "normal_id i = py_lower (py_strip i)"

text \<open>The checks of \<^verbatim>\<open>register_custom_provider\<close>, in their order.\<close>

definition check_registration :: "registry_env \<Rightarrow> router_state \<Rightarrow> registration \<Rightarrow> router_error + unit" where
  "check_registration re s r =
     (let i = normal_id (rg_id r) in
      if i = [] \<or> \<not> list_all id_char i then Inl (Router_value_error ''Custom provider ID is invalid'')
      else if shipped_provider re i \<noteq> None \<or> rs_custom s i \<noteq> None
      then Inl (Router_value_error ''Custom provider ID already exists'')
      else if rg_protocol r \<notin> PROTOCOLS then Inl (Router_value_error ''Custom provider protocol is invalid'')
      else if py_strip (rg_name r) = [] \<or> py_strip (rg_default r) = [] \<or>
              \<not> (starts_with (rg_base r) ''http://'' \<or> starts_with (rg_base r) ''https://'')
      then Inl (Router_value_error ''Custom provider definition is invalid'')
      else case urlsplit (re_ip re) (rg_base r) of
          None \<Rightarrow> Inl (Router_value_error ''Invalid URL'')
        | Some u \<Rightarrow>
            if py_true_opt (url_user u) \<or> py_true_opt (url_password u) \<or> \<not> py_true_opt (url_host u) \<or> url_fragment u \<noteq> []
            then Inl (Router_value_error ''Custom provider URL is invalid'')
            else if url_scheme u \<noteq> ''https'' \<and> \<not> loopback_url u
            then Inl (Router_value_error ''Remote model providers require HTTPS (HTTP is only allowed for loopback local runtimes)'')
            else Inr ())"

definition custom_of :: "registration \<Rightarrow> custom_def" where
  "custom_of r =
     \<lparr>cd_name = py_strip (rg_name r), cd_protocol = rg_protocol r, cd_base = rstrip_slash (rg_base r),
      cd_default = py_strip (rg_default r),
      cd_models = rev (remdups (rev (py_strip (rg_default r) # filter (\<lambda>m. m \<noteq> []) (map py_strip (rg_models r))))),
      cd_local = rg_local r, cd_auth = (if rg_local r \<and> \<not> py_true_opt (rg_key r) then ''none'' else ''api_key'')\<rparr>"

definition save_custom :: "string \<Rightarrow> custom_def \<Rightarrow> router_state \<Rightarrow> router_state" where
  "save_custom i c s = s\<lparr>rs_custom := (rs_custom s)(i \<mapsto> c)\<rparr>"

text \<open>
  The outcome of an operation, and the state it leaves behind: \<^verbatim>\<open>register_custom_provider\<close> writes the definition before
  the settings and the key.
\<close>

definition register_provider :: "registry_env \<Rightarrow> registration \<Rightarrow> router_state \<Rightarrow> (router_error + model_provider) \<times> router_state" where
  "register_provider re r s =
     (case check_registration re s r of
        Inl e \<Rightarrow> (Inl e, s)
      | Inr _ \<Rightarrow>
          (let i = normal_id (rg_id r); s = save_custom i (custom_of r) s in
           case save_settings re i
               \<lparr>su_key = (if py_true_opt (rg_key r) then Some (rg_key r) else None),
                su_base = Some (Some (rstrip_slash (rg_base r))), su_default = Some (Some (py_strip (rg_default r))),
                su_enabled = Some (Some True), su_options = None\<rparr> s of
             Inl e \<Rightarrow> (Inl e, s)
           | Inr s' \<Rightarrow> (provider_of re s' i, s')))"

definition check_endpoint :: "registry_env \<Rightarrow> string option option \<Rightarrow> router_error + unit" where
  "check_endpoint re base =
     (case base of
        Some (Some b) \<Rightarrow>
          if b = [] then Inr ()
          else (case urlsplit (re_ip re) b of
              None \<Rightarrow> Inl (Router_value_error ''Invalid URL'')
            | Some u \<Rightarrow>
                if py_true_opt (url_user u) \<or> py_true_opt (url_password u) \<or> url_fragment u \<noteq> [] \<or>
                   url_scheme u \<notin> {''http'', ''https''} \<or> \<not> py_true_opt (url_host u)
                then Inl (Router_value_error ''Provider endpoint is invalid'')
                else if url_scheme u \<noteq> ''https'' \<and> \<not> loopback_url u
                then Inl (Router_value_error ''Remote provider endpoints require HTTPS'')
                else Inr ())
      | _ \<Rightarrow> Inr ())"

text \<open>\<open>su_options\<close> is the encoded object; its length limit counts two bytes for each character.\<close>

definition save_options :: "registry_env \<Rightarrow> string \<Rightarrow> string option option \<Rightarrow> router_state \<Rightarrow> router_error + router_state" where
  "save_options re i options s =
     (case options of
        None \<Rightarrow> Inr s
      | Some None \<Rightarrow> Inr (vault_delete (options_entry i) s)
      | Some (Some encoded) \<Rightarrow>
          if 2500 < 2 * length encoded
          then Inl (Router_value_error ''Provider options exceed secure credential storage limit'')
          else vault_set re (options_entry i) encoded s)"

definition configure_provider :: "registry_env \<Rightarrow> string \<Rightarrow> settings_update \<Rightarrow> router_state
    \<Rightarrow> (router_error + model_provider) \<times> router_state" where
  "configure_provider re i u s =
     (case bind_result (definition_of re s i) (\<lambda>d. bind_result (check_endpoint re (su_base u)) (\<lambda>_. save_options re i (su_options u) s)) of
        Inl e \<Rightarrow> (Inl e, s)
      | Inr s \<Rightarrow>
          (case save_settings re i u s of Inl e \<Rightarrow> (Inl e, s) | Inr s' \<Rightarrow> (provider_of re s' i, s')))"

section \<open>Retired models and routes\<close>

text \<open>\<^verbatim>\<open>(self.base_url(provider_id) or "").rstrip("/")\<close>\<close>

definition endpoint_text :: "string option \<Rightarrow> string" where
  "endpoint_text base = rstrip_slash (case base of None \<Rightarrow> [] | Some b \<Rightarrow> b)"

definition model_availability :: "registry_env \<Rightarrow> router_state \<Rightarrow> string \<Rightarrow> string \<Rightarrow> router_error + availability option" where
  "model_availability re s i model =
     bind_result (base_url re s i) (\<lambda>base.
       let endpoint = endpoint_text base in
       if i \<in> {''nvidia_nim'', ''nvidia''} \<and> model \<in> RETIRED_NVIDIA_MODELS \<and>
          (case urlsplit (re_ip re) endpoint of Some u \<Rightarrow> url_host u = Some ''integrate.api.nvidia.com'' | None \<Rightarrow> False)
       then Inr (Some \<lparr>av_status = ''retired'',
           av_reason = ''NVIDIA retired this model on 11 June 2026. Choose another model to continue the saved draft.'',
           av_endpoint = endpoint\<rparr>)
       else Inr (case rs_retired s (i, model) of
                   Some a \<Rightarrow> if av_endpoint a = endpoint then Some a else None
                 | None \<Rightarrow> None))"

definition is_retired :: "availability option \<Rightarrow> bool" where
  "is_retired a = (case a of Some a \<Rightarrow> av_status a = ''retired'' | None \<Rightarrow> False)"

definition mark_retired :: "registry_env \<Rightarrow> string \<Rightarrow> string \<Rightarrow> string option \<Rightarrow> router_state \<Rightarrow> router_error + router_state" where
  "mark_retired re i model endpoint s =
     bind_result (case endpoint of Some e \<Rightarrow> Inr (Some e) | None \<Rightarrow> base_url re s i) (\<lambda>base.
       Inr (s\<lparr>rs_retired := (rs_retired s)((i, model) \<mapsto>
         \<lparr>av_status = ''retired'',
          av_reason = ''The provider retired this model. Choose another model to continue the saved draft.'',
          av_endpoint = endpoint_text base\<rparr>)\<rparr>))"

definition route_for_task :: "registry_env \<Rightarrow> router_state \<Rightarrow> string \<Rightarrow> router_error + model_route" where
  "route_for_task re s task =
     (case rs_routes s task of
        Some r \<Rightarrow>
          bind_result (if mr_model r \<noteq> [] then Inr (mr_model r) else default_model re s (mr_provider r)) (\<lambda>model.
            Inr \<lparr>mr_task = task, mr_provider = mr_provider r, mr_model = resolve_model_id (mr_provider r) model,
                 mr_local = mr_local r\<rparr>)
      | None \<Rightarrow>
          bind_result (default_model re s ''openrouter'') (\<lambda>model.
            Inr \<lparr>mr_task = task, mr_provider = ''openrouter'', mr_model = model, mr_local = False\<rparr>))"

fun list_routes :: "registry_env \<Rightarrow> router_state \<Rightarrow> string list \<Rightarrow> router_error + model_route list" where
  "list_routes re s [] = Inr []"
| "list_routes re s (t # ts) =
     bind_result (route_for_task re s t) (\<lambda>r. bind_result (list_routes re s ts) (\<lambda>rs. Inr (r # rs)))"

definition save_route :: "registry_env \<Rightarrow> model_route \<Rightarrow> string option \<Rightarrow> router_state \<Rightarrow> router_error + router_state" where
  "save_route re r fallback s =
     bind_result (definition_of re s (mr_provider r)) (\<lambda>d.
     bind_result (model_availability re s (mr_provider r) (resolve_model_id (mr_provider r) (mr_model r))) (\<lambda>a.
       if is_retired a then Inl (Router_value_error ''MODEL_RETIRED: Choose another model to continue the saved work.'')
       else if mr_local r \<and> \<not> pd_local d then Inl (Router_value_error ''local_only routes require a local provider'')
       else if fallback = Some (mr_provider r)
       then Inl (Router_value_error ''fallback provider cannot equal the primary provider'')
       else Inr (s\<lparr>rs_routes := (rs_routes s)(mr_task r \<mapsto>
              r\<lparr>mr_model := resolve_model_id (mr_provider r) (mr_model r)\<rparr>)\<rparr>)))"

definition delete_provider :: "registry_env \<Rightarrow> string \<Rightarrow> router_state \<Rightarrow> router_error + router_state" where
  "delete_provider re i s =
     (if shipped_provider re i \<noteq> None then Inl (Router_value_error ''Built-in providers cannot be deleted'')
      else bind_result (definition_of re s i) (\<lambda>d.
        bind_result (list_routes re s TASK_TYPES) (\<lambda>routes.
          if \<exists>r \<in> set routes. mr_provider r = i
          then Inl (Router_value_error ''Custom provider is referenced by routes'')
          else Inr (let s = vault_delete (options_entry i) (vault_delete i s) in
            s\<lparr>rs_settings := (rs_settings s)(i := None), rs_custom := (rs_custom s)(i := None),
              rs_health := (rs_health s)(i := None), rs_models := (rs_models s)(i := None),
              rs_retired := (\<lambda>(j, m). if j = i then None else rs_retired s (j, m))\<rparr>))))"

definition save_models :: "registry_env \<Rightarrow> string \<Rightarrow> cached_model list \<Rightarrow> router_state \<Rightarrow> router_error + router_state" where
  "save_models re i models s =
     bind_result (definition_of re s i) (\<lambda>d. Inr (s\<lparr>rs_models := (rs_models s)(i \<mapsto> models)\<rparr>))"

definition save_health :: "registry_env \<Rightarrow> string \<Rightarrow> string \<Rightarrow> string option \<Rightarrow> router_state \<Rightarrow> router_error + router_state" where
  "save_health re i status message s =
     bind_result (definition_of re s i) (\<lambda>d. Inr (s\<lparr>rs_health := (rs_health s)(i \<mapsto> (status, message))\<rparr>))"

end
