(* ===== verification/Model_Resolver.thy ===== *)
theory Model_Resolver
  imports Model_Registry
begin

text \<open>
  From a request to a concrete model: the selections of users and sessions (\<^verbatim>\<open>backend/model_router/selection.py\<close>), the
  capabilities of a model (\<^verbatim>\<open>registry.py\<close>, \<^verbatim>\<open>catalog.py\<close>, \<^verbatim>\<open>models.py\<close>), and the resolver
  (\<^verbatim>\<open>backend/model_router/resolver.py\<close>) that every generation goes through.
\<close>

section \<open>Selections\<close>

type_synonym model_pair = "string \<times> string"

text \<open>The table of selections, keyed by scope and role; the empty scope is the application.\<close>

type_synonym selections = "string \<times> string \<rightharpoonup> model_pair"

definition ROLES :: "string set" where
  "ROLES = {''main'', ''explore'', ''review'', ''verify'', ''compact'', ''title''}"

definition valid_scope :: "string option \<Rightarrow> string \<Rightarrow> router_error + unit" where
  "valid_scope session role =
     (if role \<notin> ROLES then Inl (Router_value_error ''model_role_invalid'')
      else if (case session of None \<Rightarrow> False
               | Some i \<Rightarrow> py_strip i = [] \<or> i \<noteq> py_strip i \<or> 256 < length i \<or> (\<exists>c \<in> set i. of_char c < (32 :: nat)))
      then Inl (Router_value_error ''model_session_invalid'')
      else Inr ())"

definition model_ref :: "string \<Rightarrow> string \<Rightarrow> router_error + model_pair" where
  "model_ref provider model =
     (if py_strip provider = [] \<or> py_strip model = [] then Inl (Router_value_error ''model_reference_empty'')
      else Inr (provider, model))"

definition scope_of :: "string option \<Rightarrow> string" where
  "scope_of session = (case session of None \<Rightarrow> [] | Some i \<Rightarrow> i)"

definition set_selection :: "model_pair \<Rightarrow> string option \<Rightarrow> string \<Rightarrow> selections \<Rightarrow> router_error + selections" where
  "set_selection m session role t =
     bind_result (valid_scope session role) (\<lambda>_. Inr (t((scope_of session, role) \<mapsto> m)))"

definition get_selection :: "string option \<Rightarrow> string \<Rightarrow> selections \<Rightarrow> router_error + model_pair option" where
  "get_selection session role t = bind_result (valid_scope session role) (\<lambda>_. Inr (t (scope_of session, role)))"

definition clear_selection :: "string option \<Rightarrow> string \<Rightarrow> selections \<Rightarrow> router_error + bool \<times> selections" where
  "clear_selection session role t =
     bind_result (valid_scope session role) (\<lambda>_.
       Inr (t (scope_of session, role) \<noteq> None, t((scope_of session, role) := None)))"

definition selection_references :: "string \<Rightarrow> selections \<Rightarrow> bool" where
  "selection_references provider t \<longleftrightarrow> provider \<in> fst ` ran t"

definition resolve_selection :: "string option \<Rightarrow> string \<Rightarrow> selections \<Rightarrow> router_error + model_pair option \<times> string" where
  "resolve_selection session role t =
     bind_result (valid_scope session role) (\<lambda>_.
       let has_session = py_true_opt session;
           own = (if role \<noteq> ''main'' \<and> has_session then t (scope_of session, role) else None);
           shared = (if role \<noteq> ''main'' then t ([], role) else None);
           main = (if has_session then t (scope_of session, ''main'') else None) in
       case own of Some m \<Rightarrow> Inr (Some m, ''session_role'')
       | None \<Rightarrow> (case shared of Some m \<Rightarrow> Inr (Some m, ''role'')
         | None \<Rightarrow> (case main of Some m \<Rightarrow> Inr (Some m, ''session'')
           | None \<Rightarrow> (case t ([], ''main'') of Some m \<Rightarrow> Inr (Some m, ''application'')
             | None \<Rightarrow> Inr (None, ''task_route'')))))"

section \<open>Capabilities\<close>

definition basic_caps :: model_caps where
  "basic_caps = \<lparr>mc_streaming = True, mc_json_object = False, mc_json_schema = False, mc_tools = False, mc_reasoning = False,
     mc_system = True, mc_text = True, mc_vision = False, mc_embeddings = False, mc_reranking = False, mc_window = None\<rparr>"

definition caps :: "bool \<Rightarrow> bool \<Rightarrow> bool \<Rightarrow> bool \<Rightarrow> model_caps" where
  "caps json_object json_schema tools reasoning =
     basic_caps\<lparr>mc_json_object := json_object, mc_json_schema := json_schema, mc_tools := tools, mc_reasoning := reasoning\<rparr>"

definition any_token :: "string list \<Rightarrow> string \<Rightarrow> bool" where
  "any_token tokens s = (\<exists>t \<in> set tokens. contains_sub s t)"

text \<open>The last resort of \<^verbatim>\<open>model_capabilities\<close>: what the family of a provider is known to support.\<close>

definition family_caps :: "string \<Rightarrow> string \<Rightarrow> string \<Rightarrow> model_caps" where
  "family_caps i model protocol =
     (if i = ''openai'' then
        (let modern = any_token [''gpt-4o'', ''gpt-4.1'', ''gpt-5'', ''o1'', ''o3'', ''o4''] model in
         caps modern modern modern (any_token [''gpt-5'', ''o1'', ''o3'', ''o4''] model))
      else if i = ''gemini'' then
        (let modern = (starts_with model ''gemini-2'' \<or> starts_with model ''gemini-3'') in
         caps modern modern modern (contains_sub model ''thinking'' \<or> modern))
      else if i = ''anthropic'' then caps False False True (contains_sub model ''claude'')
      else if i = ''deepseek'' then caps True False True (contains_sub model ''reasoner'')
      else if i = ''nvidia_nim'' \<and> model \<in> {''nvidia/nemotron-3-super-120b-a12b'', ''nvidia/nemotron-3-ultra-550b-a55b''}
      then (caps False False True True)\<lparr>mc_window := Some 1000000\<rparr>
      else if protocol = ''openai-responses'' then caps True True True True
      else if protocol = ''anthropic-messages'' then caps False False True True
      else basic_caps)"

definition cached_caps :: "cached_model \<Rightarrow> model_caps option" where
  "cached_caps m =
     (case cm_caps m of
        Some c \<Rightarrow> Some (c\<lparr>mc_window := (case mc_window c of Some n \<Rightarrow> if 0 < n then Some n else None | None \<Rightarrow> None)\<rparr>)
      | None \<Rightarrow> (case cm_params m of
            Some ps \<Rightarrow> (let ps = map py_lower ps in
              Some (caps (''response_format'' \<in> set ps) (''structured_outputs'' \<in> set ps) (''tools'' \<in> set ps)
                (''reasoning'' \<in> set ps \<or> ''include_reasoning'' \<in> set ps)))
          | None \<Rightarrow> None))"

fun first_caps :: "string \<Rightarrow> cached_model list \<Rightarrow> model_caps option" where
  "first_caps model [] = None"
| "first_caps model (m # ms) =
     (if py_lower (cm_id m) \<noteq> model then first_caps model ms
      else case cached_caps m of Some c \<Rightarrow> Some c | None \<Rightarrow> first_caps model ms)"

definition cached_models :: "router_state \<Rightarrow> string \<Rightarrow> cached_model list" where
  "cached_models s i = (case rs_models s i of None \<Rightarrow> [] | Some ms \<Rightarrow> ms)"

definition model_capabilities :: "registry_env \<Rightarrow> router_state \<Rightarrow> string \<Rightarrow> string \<Rightarrow> router_error + model_caps" where
  "model_capabilities re s i model_id =
     (let model = py_lower (resolve_model_id i model_id) in
      case first_caps model (cached_models s i) of
        Some c \<Rightarrow> Inr c
      | None \<Rightarrow> (case re_facts re i model_id of
            Some (c, free) \<Rightarrow> Inr c
          | None \<Rightarrow>
              if i \<in> {''openai'', ''gemini'', ''anthropic'', ''deepseek''} then Inr (family_caps i model [])
              else bind_result (definition_of re s i) (\<lambda>d. Inr (family_caps i model (pd_protocol d)))))"

text \<open>The adjustment of \<^verbatim>\<open>ModelCatalog.capabilities\<close> for models that generate no text.\<close>

definition catalog_capabilities :: "registry_env \<Rightarrow> router_state \<Rightarrow> string \<Rightarrow> string \<Rightarrow> router_error + model_caps" where
  "catalog_capabilities re s i model_id =
     bind_result (model_capabilities re s i model_id) (\<lambda>c.
       let lowered = py_lower model_id in
       if i = ''nvidia_nim'' \<and>
          any_token [''embed'', ''embedding'', ''rerank'', ''reward'', ''guard'', ''safety'', ''translate''] lowered
       then Inr (c\<lparr>mc_text := False, mc_embeddings := contains_sub lowered ''embed'',
            mc_reranking := any_token [''rerank'', ''reward''] lowered, mc_tools := False, mc_json_object := False,
            mc_json_schema := False, mc_reasoning := False\<rparr>)
       else Inr c)"

definition model_is_free :: "registry_env \<Rightarrow> router_state \<Rightarrow> string \<Rightarrow> string \<Rightarrow> router_error + bool" where
  "model_is_free re s i model_id =
     (let model = resolve_model_id i model_id in
      case List.find (\<lambda>m. py_lower (cm_id m) = py_lower model \<and> cm_free m \<noteq> None) (cached_models s i) of
        Some m \<Rightarrow> Inr (the (cm_free m))
      | None \<Rightarrow>
          bind_result (definition_of re s i) (\<lambda>d.
            Inr (if pd_local d then True
                 else if i = ''nvidia_nim'' then False
                 else if starts_with (rev model) (rev '':free'') \<or> (i = ''openrouter'' \<and> model = ''openrouter/free'') then True
                 else (case re_facts re i model of Some (c, free) \<Rightarrow> free | None \<Rightarrow> False))))"

record route_request =
  rr_text :: bool
  rr_streaming :: bool
  rr_json_object :: bool
  rr_json_schema :: bool
  rr_tools :: bool
  rr_reasoning :: bool
  rr_vision :: bool
  rr_embeddings :: bool
  rr_reranking :: bool
  rr_window :: "int option"

definition satisfies :: "model_caps \<Rightarrow> route_request \<Rightarrow> bool" where
  "satisfies c r =
     (if rr_text r \<and> \<not> mc_text c then False
      else if rr_streaming r \<and> \<not> mc_streaming c then False
      else if rr_json_object r \<and> \<not> mc_json_object c then False
      else if rr_json_schema r \<and> \<not> mc_json_schema c then False
      else if rr_tools r \<and> \<not> mc_tools c then False
      else if rr_reasoning r \<and> \<not> mc_reasoning c then False
      else if rr_vision r \<and> \<not> mc_vision c then False
      else if rr_embeddings r \<and> \<not> mc_embeddings c then False
      else if rr_reranking r \<and> \<not> mc_reranking c then False
      else case rr_window r of
          None \<Rightarrow> True
        | Some n \<Rightarrow> (case mc_window c of None \<Rightarrow> False | Some w \<Rightarrow> n \<le> w))"

section \<open>The resolver\<close>

text \<open>
  A model request; \<open>mq_session\<close> and \<open>mq_role\<close> come from its metadata, \<open>mq_schema\<close> says whether it asks for a strict
  structured output without a fallback to the prompt.
\<close>

record model_request =
  mq_task :: string
  mq_provider :: "string option"
  mq_model :: "string option"
  mq_local :: bool
  mq_session :: "string option"
  mq_role :: "string option"
  mq_schema :: bool

record resolved_model =
  rm_provider :: string
  rm_model :: string
  rm_protocol :: string
  rm_caps :: model_caps
  rm_source :: string

definition given :: "string option \<Rightarrow> bool" where
  "given v = py_true_opt v"

definition chosen_selection :: "selections \<Rightarrow> model_request \<Rightarrow> router_error + model_pair option \<times> string" where
  "chosen_selection t q =
     (if given (mq_provider q) \<or> given (mq_model q) then Inr (None, ''explicit'')
      else resolve_selection (mq_session q) (if given (mq_role q) then the (mq_role q) else ''main'') t)"

definition named_model :: "registry_env \<Rightarrow> router_state \<Rightarrow> model_request \<Rightarrow> model_route \<Rightarrow> model_pair option
    \<Rightarrow> router_error + model_pair" where
  "named_model re s q route selected =
     (let provider_id = (if given (mq_provider q) then the (mq_provider q)
                         else case selected of Some (p, m) \<Rightarrow> p | None \<Rightarrow> mr_provider route) in
      bind_result
        (if given (mq_model q) then Inr (the (mq_model q))
         else case selected of
             Some (p, m) \<Rightarrow> Inr m
           | None \<Rightarrow> if provider_id = mr_provider route then Inr (mr_model route) else default_model re s provider_id)
        (\<lambda>wanted. Inr (provider_id, resolve_model_id provider_id wanted)))"

definition requirements :: "model_request \<Rightarrow> bool \<Rightarrow> route_request" where
  "requirements q streaming =
     \<lparr>rr_text = True, rr_streaming = streaming, rr_json_object = False, rr_json_schema = mq_schema q, rr_tools = False,
      rr_reasoning = False, rr_vision = False, rr_embeddings = False, rr_reranking = False, rr_window = None\<rparr>"

definition resolve :: "registry_env \<Rightarrow> router_state \<Rightarrow> selections \<Rightarrow> model_request \<Rightarrow> bool \<Rightarrow> router_error + resolved_model" where
  "resolve re s t q streaming =
     bind_result (route_for_task re s (mq_task q)) (\<lambda>route.
     bind_result (chosen_selection t q) (\<lambda>(selected, source).
     bind_result (named_model re s q route selected) (\<lambda>(provider_id, model_id).
     bind_result (provider_of re s provider_id) (\<lambda>provider.
     bind_result (model_availability re s provider_id model_id) (\<lambda>state.
       if is_retired state then Inl (Configuration_error ''MODEL_RETIRED'')
       else if (mq_local q \<or> mr_local route) \<and> \<not> mp_local provider then Inl (Configuration_error ''MODEL_ROUTE_LOCAL_ONLY'')
       else if \<not> mp_configured provider \<or> \<not> mp_enabled provider then Inl (Configuration_error ''MODEL_PROVIDER_UNAVAILABLE'')
       else bind_result (catalog_capabilities re s provider_id model_id) (\<lambda>c.
         if \<not> satisfies c (requirements q streaming) then Inl (Capability_error ''MODEL_CAPABILITY_MISMATCH'')
         else bind_result (definition_of re s provider_id) (\<lambda>d.
           Inr \<lparr>rm_provider = provider_id, rm_model = model_id, rm_protocol = pd_protocol d, rm_caps = c,
                rm_source = source\<rparr>)))))))"

end
