(* ===== verification/Router_Props.thy ===== *)
theory Router_Props
  imports Model_Resolver
begin

text \<open>
  Properties of the model router over any sequence of operations on its registry: endpoints stay encrypted or local,
  routes never dangle, and a resolved model is usable; with two ways in which registering a provider goes wrong.
\<close>

section \<open>Operations\<close>

datatype router_op =
    Register registration
  | Configure string settings_update
  | Route model_route "string option"
  | Delete_provider string
  | Models string "cached_model list"
  | Health string string "string option"
  | Retire string string "string option"

definition after :: "router_state \<Rightarrow> router_error + router_state \<Rightarrow> router_state" where
  "after s result = (case result of Inl e \<Rightarrow> s | Inr s' \<Rightarrow> s')"

fun router_step :: "registry_env \<Rightarrow> router_op \<Rightarrow> router_state \<Rightarrow> router_state" where
  "router_step re (Register r) s = snd (register_provider re r s)"
| "router_step re (Configure i u) s = snd (configure_provider re i u s)"
| "router_step re (Route r fallback) s = after s (save_route re r fallback s)"
| "router_step re (Delete_provider i) s = after s (delete_provider re i s)"
| "router_step re (Models i ms) s = after s (save_models re i ms s)"
| "router_step re (Health i st msg) s = after s (save_health re i st msg s)"
| "router_step re (Retire i m e) s = after s (mark_retired re i m e s)"

definition router_run :: "registry_env \<Rightarrow> router_op list \<Rightarrow> router_state" where
  "router_run re ops = fold (router_step re) ops empty_router"

lemma after_simps [simp]: "after s (Inl e) = s" "after s (Inr s') = s'"
  by (simp_all add: after_def)

text \<open>What the single operations do to the sections of the document.\<close>

lemma save_settings_keeps:
  assumes "save_settings re i u s = Inr s'"
  shows "rs_custom s' = rs_custom s" "rs_routes s' = rs_routes s"
    "\<exists>ps. rs_settings s' = (rs_settings s)(i \<mapsto> ps) \<and> ps_base ps = merge_field (su_base u) (ps_base (settings_of s i))"
  using assms
  by (auto simp: save_settings_def Let_def sum_case_simps vault_set_def vault_delete_def split: option.splits if_splits)

lemma vault_keeps:
  "rs_custom (vault_delete e s) = rs_custom s" "rs_routes (vault_delete e s) = rs_routes s"
  "rs_settings (vault_delete e s) = rs_settings s"
  by (simp_all add: vault_delete_def)

lemma save_options_keeps:
  "save_options re i options s = Inr s' \<Longrightarrow>
     rs_custom s' = rs_custom s \<and> rs_routes s' = rs_routes s \<and> rs_settings s' = rs_settings s"
  by (auto simp: save_options_def vault_set_def vault_delete_def split: option.splits if_splits)

lemma configure_cases:
  obtains (kept) "rs_custom (snd (configure_provider re i u s)) = rs_custom s"
      "rs_routes (snd (configure_provider re i u s)) = rs_routes s"
      "rs_settings (snd (configure_provider re i u s)) = rs_settings s"
  | (saved) ps where "rs_custom (snd (configure_provider re i u s)) = rs_custom s"
      "rs_routes (snd (configure_provider re i u s)) = rs_routes s" "check_endpoint re (su_base u) = Inr ()"
      "rs_settings (snd (configure_provider re i u s)) = (rs_settings s)(i \<mapsto> ps)"
      "ps_base ps = merge_field (su_base u) (ps_base (settings_of s i))"
proof (cases "bind_result (definition_of re s i) (\<lambda>d. bind_result (check_endpoint re (su_base u))
    (\<lambda>_. save_options re i (su_options u) s))")
  case (Inl e)
  then show ?thesis using kept by (simp add: configure_provider_def)
next
  case (Inr s1)
  then have check: "check_endpoint re (su_base u) = Inr ()" and s1: "save_options re i (su_options u) s = Inr s1"
    by (auto simp: sum_case_simps)
  note same = save_options_keeps [OF s1]
  show ?thesis
  proof (cases "save_settings re i u s1")
    case (Inl e)
    then show ?thesis using kept same Inr by (simp add: configure_provider_def)
  next
    case (Inr s2)
    have "settings_of s1 i = settings_of s i" using same by (simp add: settings_of_def)
    then show ?thesis
      using saved same check save_settings_keeps [OF Inr] Inr \<open>bind_result _ _ = Inr s1\<close>
      by (auto simp: configure_provider_def)
  qed
qed

lemma register_cases:
  obtains (refused) "snd (register_provider re r s) = s"
  | (stored) "check_registration re s r = Inr ()" "rs_routes (snd (register_provider re r s)) = rs_routes s"
      "rs_custom (snd (register_provider re r s)) = (rs_custom s)(normal_id (rg_id r) \<mapsto> custom_of r)"
      "rs_settings (snd (register_provider re r s)) = rs_settings s \<or>
       (\<exists>ps. rs_settings (snd (register_provider re r s)) = (rs_settings s)(normal_id (rg_id r) \<mapsto> ps) \<and>
             ps_base ps = Some (rstrip_slash (rg_base r)))"
proof (cases "check_registration re s r")
  case (Inl e)
  then show ?thesis using refused by (simp add: register_provider_def)
next
  case (Inr x)
  let ?i = "normal_id (rg_id r)" and ?s = "save_custom (normal_id (rg_id r)) (custom_of r) s"
  let ?u = "\<lparr>su_key = (if py_true_opt (rg_key r) then Some (rg_key r) else None),
      su_base = Some (Some (rstrip_slash (rg_base r))), su_default = Some (Some (py_strip (rg_default r))),
      su_enabled = Some (Some True), su_options = None\<rparr>"
  show ?thesis
  proof (cases "save_settings re ?i ?u ?s")
    case (Inl e)
    then show ?thesis using stored Inr by (simp add: register_provider_def Let_def save_custom_def)
  next
    case (Inr s2)
    then show ?thesis
      using stored \<open>check_registration re s r = Inr x\<close> save_settings_keeps [OF Inr]
      by (auto simp: register_provider_def Let_def save_custom_def merge_field_def)
  qed
qed

lemma saved_keeps:
  "save_route re r fb s = Inr s' \<Longrightarrow> rs_custom s' = rs_custom s \<and> rs_settings s' = rs_settings s"
  "save_models re i ms s = Inr s' \<Longrightarrow> rs_custom s' = rs_custom s \<and> rs_settings s' = rs_settings s \<and> rs_routes s' = rs_routes s"
  "save_health re i st msg s = Inr s' \<Longrightarrow> rs_custom s' = rs_custom s \<and> rs_settings s' = rs_settings s \<and> rs_routes s' = rs_routes s"
  "mark_retired re i m e s = Inr s' \<Longrightarrow> rs_custom s' = rs_custom s \<and> rs_settings s' = rs_settings s \<and> rs_routes s' = rs_routes s"
  by (auto simp: save_route_def save_models_def save_health_def mark_retired_def sum_case_simps split: if_splits)

lemma other_ops_keep:
  "rs_custom (after s (save_route re r fb s)) = rs_custom s" "rs_settings (after s (save_route re r fb s)) = rs_settings s"
  "rs_custom (after s (save_models re i ms s)) = rs_custom s" "rs_settings (after s (save_models re i ms s)) = rs_settings s"
  "rs_custom (after s (save_health re i st msg s)) = rs_custom s" "rs_settings (after s (save_health re i st msg s)) = rs_settings s"
  "rs_custom (after s (mark_retired re i m e s)) = rs_custom s" "rs_settings (after s (mark_retired re i m e s)) = rs_settings s"
  "rs_routes (after s (save_models re i ms s)) = rs_routes s" "rs_routes (after s (save_health re i st msg s)) = rs_routes s"
  "rs_routes (after s (mark_retired re i m e s)) = rs_routes s"
  by (auto simp: after_def split: sum.splits dest: saved_keeps)

section \<open>Endpoints\<close>

definition base_safe :: "registry_env \<Rightarrow> string option \<Rightarrow> bool" where
  "base_safe re base = (case base of None \<Rightarrow> True | Some b \<Rightarrow> b = [] \<or> safe_endpoint (re_ip re) b)"

definition endpoints_inv :: "registry_env \<Rightarrow> router_state \<Rightarrow> bool" where
  "endpoints_inv re s \<longleftrightarrow>
     (\<forall>i c. rs_custom s i = Some c \<longrightarrow> safe_endpoint (re_ip re) (cd_base c)) \<and>
     (\<forall>i ps. rs_settings s i = Some ps \<longrightarrow> base_safe re (ps_base ps))"

lemma settings_of_safe: "endpoints_inv re s \<Longrightarrow> base_safe re (ps_base (settings_of s i))"
  by (auto simp: endpoints_inv_def settings_of_def no_settings_def base_safe_def [of re None] split: option.splits)

lemma safe_endpoint_rstrip: "safe_endpoint ip s \<Longrightarrow> safe_endpoint ip (rstrip_slash s)"
  unfolding rstrip_slash_def by (rule safe_endpoint_strip_end) (simp_all add: slash_char_def)

lemma check_registration_safe:
  "check_registration re s r = Inr () \<Longrightarrow> safe_endpoint (re_ip re) (rg_base r)"
  by (auto simp: check_registration_def Let_def safe_endpoint_def safe_url_def split: if_splits option.splits)

lemma check_endpoint_safe:
  "check_endpoint re base = Inr () \<Longrightarrow> base_safe re old \<Longrightarrow> base_safe re (merge_field base old)"
  by (auto simp: check_endpoint_def base_safe_def merge_field_def safe_endpoint_def safe_url_def split: if_splits option.splits)

lemma endpoints_inv_keeps:
  "endpoints_inv re s \<Longrightarrow> rs_custom s' = rs_custom s \<Longrightarrow> rs_settings s' = rs_settings s \<Longrightarrow> endpoints_inv re s'"
  by (simp add: endpoints_inv_def)

lemma endpoints_inv_register:
  assumes inv: "endpoints_inv re s"
  shows "endpoints_inv re (snd (register_provider re r s))"
proof (cases rule: register_cases [of re r s])
  case refused
  then show ?thesis using inv by simp
next
  case stored
  have safe: "safe_endpoint (re_ip re) (rstrip_slash (rg_base r))"
    using safe_endpoint_rstrip [OF check_registration_safe [OF stored(1)]] .
  then have "safe_endpoint (re_ip re) (cd_base (custom_of r))" "base_safe re (Some (rstrip_slash (rg_base r)))"
    by (simp_all add: custom_of_def base_safe_def)
  then show ?thesis using inv stored(3,4) by (auto simp: endpoints_inv_def split: if_splits)
qed

lemma endpoints_inv_configure:
  assumes inv: "endpoints_inv re s"
  shows "endpoints_inv re (snd (configure_provider re i u s))"
proof (cases rule: configure_cases [of re i u s])
  case kept
  then show ?thesis using endpoints_inv_keeps [OF inv] by blast
next
  case (saved ps)
  have "base_safe re (ps_base ps)"
    using check_endpoint_safe [OF saved(3) settings_of_safe [OF inv]] saved(5) by simp
  then show ?thesis using inv saved(1,4) by (auto simp: endpoints_inv_def split: if_splits)
qed

lemma endpoints_inv_delete:
  "endpoints_inv re s \<Longrightarrow> delete_provider re i s = Inr s' \<Longrightarrow> endpoints_inv re s'"
  by (auto simp: delete_provider_def vault_delete_def Let_def endpoints_inv_def sum_case_simps split: if_splits)

lemma endpoints_inv_others:
  assumes "endpoints_inv re s"
  shows "endpoints_inv re (after s (save_route re r fb s))" "endpoints_inv re (after s (save_models re i ms s))"
    "endpoints_inv re (after s (save_health re i st msg s))" "endpoints_inv re (after s (mark_retired re i m e s))"
  by (rule endpoints_inv_keeps [OF assms]; rule other_ops_keep)+

lemma endpoints_inv_step: "endpoints_inv re s \<Longrightarrow> endpoints_inv re (router_step re op s)"
proof (cases op)
  case (Delete_provider i)
  then show "endpoints_inv re s \<Longrightarrow> ?thesis"
    by (cases "delete_provider re i s") (simp_all add: endpoints_inv_delete)
qed (simp_all add: endpoints_inv_register endpoints_inv_configure endpoints_inv_others)

lemma endpoints_inv_run: "endpoints_inv re (router_run re ops)"
proof -
  have "endpoints_inv re s \<Longrightarrow> endpoints_inv re (fold (router_step re) ops s)" for s
    by (induction ops arbitrary: s) (simp_all add: endpoints_inv_step)
  moreover have "endpoints_inv re empty_router" by (simp add: endpoints_inv_def empty_router_def)
  ultimately show ?thesis unfolding router_run_def by blast
qed

text \<open>C24. Whatever providers are registered, configured and removed, the endpoint the registry gives for a provider is
  encrypted or on this machine and carries no login, unless it is the one the provider ships with.\<close>

theorem endpoints_secure:
  assumes "base_url re (router_run re ops) i = Inr (Some b)"
  shows "safe_endpoint (re_ip re) b \<or> (\<exists>d. shipped_provider re i = Some d \<and> pd_base d = Some b)"
proof -
  let ?s = "router_run re ops"
  have inv: "endpoints_inv re ?s" by (rule endpoints_inv_run)
  obtain d where d: "definition_of re ?s i = Inr d" using assms by (auto simp: base_url_def sum_case_simps)
  have base: "safe_endpoint (re_ip re) b \<or> shipped_provider re i = Some d" if "pd_base d = Some b"
    using d that inv by (force simp: definition_of_def endpoints_inv_def split: option.splits)
  show ?thesis
  proof (cases "ps_base (settings_of ?s i)")
    case None
    then show ?thesis using assms d base by (auto simp: base_url_def)
  next
    case (Some raw)
    then have "raw = [] \<or> safe_endpoint (re_ip re) raw"
      using settings_of_safe [OF inv, of i] by (simp add: base_safe_def)
    moreover have "py_strip [] = []" by (simp add: py_strip_def py_lstrip_def)
    ultimately have "py_strip raw \<noteq> [] \<Longrightarrow> safe_endpoint (re_ip re) (rstrip_slash (py_strip raw))"
      using safe_endpoint_rstrip safe_endpoint_strip by blast
    then show ?thesis using assms d base Some by (auto simp: base_url_def split: if_splits)
  qed
qed

definition lab_env :: registry_env where
  "lab_env = \<lparr>re_catalog = Map.empty, re_facts = (\<lambda>i m. None), re_names = (\<lambda>i. []), re_quarantine = (\<lambda>i. None),
     re_environ = Map.empty, re_ip = (\<lambda>h. h = ''::1''), re_json = (\<lambda>t. None), re_vault = True\<rparr>"

definition lab_box :: "string \<Rightarrow> string option \<Rightarrow> registration" where
  "lab_box i key = \<lparr>rg_id = i, rg_name = ''Lab'', rg_protocol = ''openai-completions'', rg_base = ''http://localhost:80/v1/'',
     rg_default = ''lab-model'', rg_models = [], rg_local = True, rg_key = key\<rparr>"

definition lab_route :: "string \<Rightarrow> model_route" where
  "lab_route i = \<lparr>mr_task = ''planning'', mr_provider = i, mr_model = ''lab-model'', mr_local = True\<rparr>"

lemma endpoints_secure_witness:
  "safe_endpoint (re_ip lab_env) ''http://localhost:80/v1'' \<or>
   (\<exists>d. shipped_provider lab_env ''labbox'' = Some d \<and> pd_base d = Some ''http://localhost:80/v1'')"
proof (rule endpoints_secure)
  show "base_url lab_env (router_run lab_env [Register (lab_box '' LabBox'' None)]) ''labbox'' = Inr (Some ''http://localhost:80/v1'')"
    by code_simp
qed

section \<open>Routes\<close>

lemma definition_of_cong: "rs_custom s' i = rs_custom s i \<Longrightarrow> definition_of re s' i = definition_of re s i"
  unfolding definition_of_def by (simp only:)

definition routes_inv :: "registry_env \<Rightarrow> router_state \<Rightarrow> bool" where
  "routes_inv re s \<longleftrightarrow>
     (\<forall>task r. rs_routes s task = Some r \<longrightarrow> task \<in> set TASK_TYPES \<and>
        (\<exists>d. definition_of re s (mr_provider r) = Inr d \<and> (mr_local r \<longrightarrow> pd_local d)))"

lemma routes_inv_mono:
  assumes "routes_inv re s" "rs_routes s' = rs_routes s"
    "\<And>i d. definition_of re s i = Inr d \<Longrightarrow> definition_of re s' i = Inr d"
  shows "routes_inv re s'"
  using assms unfolding routes_inv_def by metis

lemma routes_inv_same:
  assumes "routes_inv re s" "rs_routes s' = rs_routes s" "rs_custom s' = rs_custom s"
  shows "routes_inv re s'"
proof (rule routes_inv_mono [OF assms(1,2)])
  have "definition_of re s' i = definition_of re s i" for i by (rule definition_of_cong) (simp add: assms(3))
  then show "definition_of re s i = Inr d \<Longrightarrow> definition_of re s' i = Inr d" for i d by simp
qed

lemma routes_inv_register: "routes_inv re s \<Longrightarrow> routes_inv re (snd (register_provider re r s))"
proof (cases rule: register_cases [of re r s])
  case stored
  have "shipped_provider re (normal_id (rg_id r)) = None" "rs_custom s (normal_id (rg_id r)) = None"
    using stored(1) by (auto simp: check_registration_def Let_def split: if_splits)
  then have "definition_of re s i = Inr d \<Longrightarrow> definition_of re (snd (register_provider re r s)) i = Inr d" for i d
    using stored(3) by (auto simp: definition_of_def split: option.splits if_splits)
  then show "routes_inv re s \<Longrightarrow> ?thesis" using routes_inv_mono stored(2) by blast
qed simp

lemma routes_inv_configure: "routes_inv re s \<Longrightarrow> routes_inv re (snd (configure_provider re i u s))"
  by (cases rule: configure_cases [of re i u s]; erule routes_inv_same) simp_all

lemma routes_inv_route:
  "routes_inv re s \<Longrightarrow> mr_task r \<in> set TASK_TYPES \<Longrightarrow> save_route re r fb s = Inr s' \<Longrightarrow> routes_inv re s'"
proof -
  assume inv: "routes_inv re s" and task: "mr_task r \<in> set TASK_TYPES" and saved: "save_route re r fb s = Inr s'"
  obtain d where d: "definition_of re s (mr_provider r) = Inr d" "mr_local r \<longrightarrow> pd_local d"
    and s': "rs_routes s' = (rs_routes s)(mr_task r \<mapsto> r\<lparr>mr_model := resolve_model_id (mr_provider r) (mr_model r)\<rparr>)"
    using saved by (auto simp: save_route_def sum_case_simps split: if_splits)
  have "rs_custom s' = rs_custom s" using saved_keeps(1) [OF saved] by blast
  then have "definition_of re s' i = definition_of re s i" for i by (simp add: definition_of_cong [of s' i s])
  then show ?thesis using inv task d unfolding routes_inv_def by (simp add: s')
qed

lemma list_routes_member:
  "list_routes re s ts = Inr rs \<Longrightarrow> t \<in> set ts \<Longrightarrow> rs_routes s t = Some r \<Longrightarrow> \<exists>r' \<in> set rs. mr_provider r' = mr_provider r"
proof (induction ts arbitrary: rs)
  case (Cons u us)
  then obtain r1 rs1 where "route_for_task re s u = Inr r1" "list_routes re s us = Inr rs1" "rs = r1 # rs1"
    by (auto simp: sum_case_simps)
  then show ?case using Cons by (auto simp: route_for_task_def sum_case_simps split: if_splits)
qed simp

lemma routes_inv_delete:
  assumes inv: "routes_inv re s" and "delete_provider re i s = Inr s'"
  shows "routes_inv re s'"
proof -
  obtain rs where rs: "list_routes re s TASK_TYPES = Inr rs" "\<forall>r \<in> set rs. mr_provider r \<noteq> i"
    and s': "rs_routes s' = rs_routes s" "rs_custom s' = (rs_custom s)(i := None)"
    using assms(2) by (auto simp: delete_provider_def vault_delete_def Let_def sum_case_simps split: if_splits)
  have "mr_provider r \<noteq> i" if "rs_routes s t = Some r" for t r
    using list_routes_member [OF rs(1) _ that] rs(2) inv that by (auto simp: routes_inv_def)
  moreover have "j \<noteq> i \<Longrightarrow> definition_of re s' j = definition_of re s j" for j
    by (rule definition_of_cong) (simp add: s')
  ultimately show ?thesis using inv s'(1) unfolding routes_inv_def by metis
qed

lemma routes_inv_step:
  assumes "routes_inv re s" "\<And>r fb. op = Route r fb \<Longrightarrow> mr_task r \<in> set TASK_TYPES"
  shows "routes_inv re (router_step re op s)"
proof (cases op)
  case (Route r fb)
  then show ?thesis using routes_inv_route [OF assms(1)] assms by (cases "save_route re r fb s") simp_all
next
  case (Delete_provider i)
  then show ?thesis using routes_inv_delete [OF assms(1)] assms(1) by (cases "delete_provider re i s") simp_all
next
  case (Models i ms)
  then show ?thesis
    by (simp, intro routes_inv_same [OF assms(1)]) (simp_all add: other_ops_keep)
next
  case (Health i st msg)
  then show ?thesis
    by (simp, intro routes_inv_same [OF assms(1)]) (simp_all add: other_ops_keep)
next
  case (Retire i m e)
  then show ?thesis
    by (simp, intro routes_inv_same [OF assms(1)]) (simp_all add: other_ops_keep)
qed (simp_all add: assms(1) routes_inv_register routes_inv_configure)

lemma routes_inv_run:
  assumes "\<forall>r fb. Route r fb \<in> set ops \<longrightarrow> mr_task r \<in> set TASK_TYPES"
  shows "routes_inv re (router_run re ops)"
proof -
  have "routes_inv re s \<Longrightarrow> routes_inv re (fold (router_step re) ops s)" for s
    using assms
  proof (induction ops arbitrary: s)
    case (Cons op ops)
    have "routes_inv re (router_step re op s)" by (rule routes_inv_step) (use Cons.prems in auto)
    then show ?case using Cons.IH [of "router_step re op s"] Cons.prems(2) by (simp, blast)
  qed simp
  moreover have "routes_inv re empty_router" by (simp add: routes_inv_def empty_router_def)
  ultimately show ?thesis unfolding router_run_def by blast
qed

lemma default_model_defined: "definition_of re s i = Inr d \<Longrightarrow> \<exists>m. default_model re s i = Inr m"
  by (simp add: default_model_def)

text \<open>Routes never dangle: after any operations, every task has a route, the provider of that route is still defined,
  and a route restricted to local providers leads to a local one.\<close>

theorem routes_well_founded:
  assumes "\<forall>r fb. Route r fb \<in> set ops \<longrightarrow> mr_task r \<in> set TASK_TYPES"
  shows "\<exists>route d. route_for_task re (router_run re ops) task = Inr route \<and>
    definition_of re (router_run re ops) (mr_provider route) = Inr d \<and> (mr_local route \<longrightarrow> pd_local d)"
proof (cases "rs_routes (router_run re ops) task")
  case None
  have "\<exists>d. definition_of re (router_run re ops) ''openrouter'' = Inr d"
    by (simp add: definition_of_def shipped_provider_def BUILTIN_PROVIDERS_def api_provider_def)
  then show ?thesis using None default_model_defined by (fastforce simp: route_for_task_def)
next
  case (Some r)
  obtain d where d: "definition_of re (router_run re ops) (mr_provider r) = Inr d" "mr_local r \<longrightarrow> pd_local d"
    using routes_inv_run [OF assms, of re] Some by (auto simp: routes_inv_def)
  then show ?thesis using Some default_model_defined [OF d(1)] by (auto simp: route_for_task_def)
qed

lemma routes_well_founded_witness:
  "\<exists>route d. route_for_task lab_env (router_run lab_env [Register (lab_box ''labbox'' None), Route (lab_route ''labbox'') None,
        Delete_provider ''labbox'']) ''planning'' = Inr route \<and>
     definition_of lab_env (router_run lab_env [Register (lab_box ''labbox'' None), Route (lab_route ''labbox'') None,
        Delete_provider ''labbox'']) (mr_provider route) = Inr d \<and> (mr_local route \<longrightarrow> pd_local d)"
  by (rule routes_well_founded) (simp add: lab_route_def TASK_TYPES_def)

section \<open>Resolved models\<close>

lemma bind_resultE:
  assumes "bind_result x f = Inr y"
  obtains z where "x = Inr z" "f z = Inr y"
  using assms by (cases x) simp_all

lemma enabled_provider:
  assumes "provider_of re s i = Inr p" "mp_enabled p"
  shows "\<not> py_true_opt (re_quarantine re i)" "mp_configured p \<or> mp_local p"
    "\<exists>d. definition_of re s i = Inr d \<and> mp_local p = pd_local d \<and> pd_available d"
  using assms unfolding provider_of_def by (elim bind_resultE, simp add: Let_def case_prod_beta, force)+

lemma satisfies_parts:
  "satisfies c r \<Longrightarrow> (rr_text r \<longrightarrow> mc_text c) \<and> (rr_streaming r \<longrightarrow> mc_streaming c) \<and> (rr_json_schema r \<longrightarrow> mc_json_schema c)"
  by (auto simp: satisfies_def split: if_splits)

text \<open>C25. A request resolves only to a model that can serve it: its provider is configured, enabled and not quarantined, and local
  when the request or the route of its task demands it; the model is not retired, generates text, and streams or answers
  by a schema when asked to; and the provider and model that the request names are never exchanged for others.\<close>

theorem resolved_model_usable:
  assumes "resolve re s t q streaming = Inr r"
  shows "(\<exists>p. provider_of re s (rm_provider r) = Inr p \<and> mp_configured p \<and> mp_enabled p \<and>
            \<not> py_true_opt (re_quarantine re (rm_provider r)) \<and>
            (mq_local q \<or> (\<exists>route. route_for_task re s (mq_task q) = Inr route \<and> mr_local route) \<longrightarrow> mp_local p)) \<and>
         (\<exists>a. model_availability re s (rm_provider r) (rm_model r) = Inr a \<and> \<not> is_retired a) \<and>
         mc_text (rm_caps r) \<and> (streaming \<longrightarrow> mc_streaming (rm_caps r)) \<and> (mq_schema q \<longrightarrow> mc_json_schema (rm_caps r)) \<and>
         (\<forall>i. mq_provider q = Some i \<and> i \<noteq> [] \<longrightarrow> rm_provider r = i) \<and>
         (\<forall>m. mq_model q = Some m \<and> m \<noteq> [] \<longrightarrow> rm_model r = resolve_model_id (rm_provider r) m)"
proof -
  obtain route selected source i m p a c where
    route: "route_for_task re s (mq_task q) = Inr route" and named: "named_model re s q route selected = Inr (i, m)"
    and p: "provider_of re s i = Inr p" and a: "model_availability re s i m = Inr a"
    and checks: "\<not> is_retired a" "mq_local q \<or> mr_local route \<longrightarrow> mp_local p" "mp_configured p" "mp_enabled p"
      "satisfies c (requirements q streaming)"
    and r: "rm_provider r = i" "rm_model r = m" "rm_caps r = c"
    using assms unfolding resolve_def by (elim bind_resultE) (auto split: if_splits elim!: bind_resultE)
  have "\<forall>j. mq_provider q = Some j \<and> j \<noteq> [] \<longrightarrow> i = j"
    "\<forall>k. mq_model q = Some k \<and> k \<noteq> [] \<longrightarrow> m = resolve_model_id i k"
    using named by (auto simp: named_model_def given_def py_true_opt_def Let_def sum_case_simps)
  moreover have "mc_text c" "streaming \<longrightarrow> mc_streaming c" "mq_schema q \<longrightarrow> mc_json_schema c"
    using satisfies_parts [OF checks(5)] by (simp_all add: requirements_def)
  ultimately show ?thesis
    using route p a checks(1-4) enabled_provider(1) [OF p checks(4)] by (simp add: r)
qed

definition lab_request :: model_request where
  "lab_request = \<lparr>mq_task = ''planning'', mq_provider = None, mq_model = None, mq_local = False, mq_session = Some ''s1'',
     mq_role = None, mq_schema = False\<rparr>"

definition lab_state :: router_state where
  "lab_state = router_run lab_env [Register (lab_box ''labbox'' None), Route (lab_route ''labbox'') None]"

definition lab_model :: resolved_model where
  "lab_model = \<lparr>rm_provider = ''labbox'', rm_model = ''lab-model'', rm_protocol = ''openai-completions'', rm_caps = basic_caps,
     rm_source = ''task_route''\<rparr>"

lemma resolved_model_usable_witness:
  "mc_text (rm_caps lab_model) \<and> (\<exists>p. provider_of lab_env lab_state ''labbox'' = Inr p \<and> mp_enabled p \<and> mp_local p)"
proof -
  have "resolve lab_env lab_state Map.empty lab_request True = Inr lab_model" by code_simp
  note usable = resolved_model_usable [OF this]
  have "route_for_task lab_env lab_state (mq_task lab_request) = Inr (lab_route ''labbox'')" by code_simp
  moreover have "mr_local (lab_route ''labbox'')" "rm_provider lab_model = ''labbox''" by (simp_all add: lab_route_def lab_model_def)
  ultimately show ?thesis using usable by auto
qed

section \<open>Two ways a registration goes wrong\<close>

lemma default_base_defined:
  "definition_of re s i = Inr d \<Longrightarrow> \<exists>m b. default_model re s i = Inr m \<and> base_url re s i = Inr b"
  by (simp add: default_model_def base_url_def)

lemma broken_options:
  assumes "definition_of re s i = Inr d" "provider_options re s i = Inl e"
  shows "provider_of re s i = Inl e"
proof -
  have "api_key re s i = Inl e \<or> (\<exists>k. api_key re s i = Inr k)"
    using assms by (auto simp: api_key_def split: option.splits)
  then show ?thesis using assms default_base_defined [OF assms(1)] by (auto simp: provider_of_def)
qed

text \<open>A custom provider may be named after another one with \<^verbatim>\<open>-options\<close> at the end; its key then sits in the credential
  entry of the other provider's options, and the other provider can no longer be read.\<close>

theorem options_entry_collision:
  assumes "check_registration re s r = Inr ()" "normal_id (rg_id r) = i @ ''-options''"
    "rg_key r = Some key" "py_strip key \<noteq> []" "re_vault re" "re_json re (py_strip key) = None"
    "definition_of re s i = Inr d"
  shows "provider_of re (snd (register_provider re r s)) i = Inl Json_decode_error"
proof -
  let ?s = "snd (register_provider re r s)"
  have new: "key \<noteq> []" using assms(4) by (auto simp: py_strip_def py_lstrip_def)
  have "rs_secrets ?s (options_entry i) = Some (py_strip key)" "rs_custom ?s i = rs_custom s i"
    using assms(1-5) new
    by (simp_all add: register_provider_def save_settings_def vault_set_def Let_def options_entry_def py_true_opt_def save_custom_def)
  moreover from this have "definition_of re ?s i = Inr d" using assms(7) definition_of_cong [of ?s i s re] by simp
  ultimately show ?thesis using assms(4,6) by (intro broken_options [of _ _ _ d]) (simp_all add: provider_options_def)
qed

lemma options_entry_collision_witness:
  "provider_of lab_env (snd (register_provider lab_env (lab_box ''openai-options'' (Some ''sk-lab'')) empty_router)) ''openai'' =
     Inl Json_decode_error"
  by (rule options_entry_collision [of lab_env empty_router _ _ "''sk-lab''" "BUILTIN_PROVIDERS ! 3"]) code_simp+

text \<open>A registration whose key is refused reports the failure and leaves the provider defined, without a key: the next
  attempt is told that it exists already.\<close>

theorem failed_registration_persists:
  assumes "check_registration re s r = Inr ()" "rg_key r = Some key" "key \<noteq> []" "py_strip key = [] \<or> \<not> re_vault re"
  shows "\<exists>e s' d. register_provider re r s = (Inl e, s') \<and> definition_of re s' (normal_id (rg_id r)) = Inr d \<and>
    fst (register_provider re r s') = Inl (Router_value_error ''Custom provider ID already exists'')"
proof -
  let ?i = "normal_id (rg_id r)" and ?s = "save_custom (normal_id (rg_id r)) (custom_of r) s"
  have fresh: "?i \<noteq> []" "list_all id_char ?i" "shipped_provider re ?i = None"
    using assms(1) by (auto simp: check_registration_def Let_def split: if_splits)
  have failed: "\<exists>e. register_provider re r s = (Inl e, ?s)"
    using assms by (auto simp: register_provider_def save_settings_def vault_set_def Let_def py_true_opt_def)
  have defined: "rs_custom ?s ?i = Some (custom_of r)" by (simp add: save_custom_def)
  then have "\<exists>d. definition_of re ?s ?i = Inr d" using fresh by (simp add: definition_of_def)
  moreover have "check_registration re ?s r = Inl (Router_value_error ''Custom provider ID already exists'')"
    using fresh defined by (simp add: check_registration_def Let_def)
  then have "fst (register_provider re r ?s) = Inl (Router_value_error ''Custom provider ID already exists'')"
    by (simp add: register_provider_def)
  ultimately show ?thesis using failed by blast
qed

lemma failed_registration_persists_witness:
  "\<exists>e s' d. register_provider lab_env (lab_box ''labbox'' (Some '' '')) empty_router = (Inl e, s') \<and>
     definition_of lab_env s' (normal_id (rg_id (lab_box ''labbox'' (Some '' '')))) = Inr d \<and>
     fst (register_provider lab_env (lab_box ''labbox'' (Some '' '')) s') =
       Inl (Router_value_error ''Custom provider ID already exists'')"
  by (rule failed_registration_persists [of _ _ _ "'' ''"]) (code_simp | simp add: lab_box_def py_strip_def py_lstrip_def is_space_def)+

end
