(* ===== verification/Request_Recovery.thy ===== *)
theory Request_Recovery
  imports Retry
begin

text \<open>
  Retrying one logical model request, \<^verbatim>\<open>backend/model_router/request_recovery.py\<close> and the loop of
  \<^verbatim>\<open>backend/model_router/runtime.py\<close>: the decision after a failed attempt, and the drivers that turn a sequence of physical
  attempts into one answer. What the attempts of a request do (their events and how they end) is an argument, a function of
  the attempt's number; so are the clock, the random samples and cancellations between attempts. The recovery hook is taken
  not to raise, and details that the code compares with numbers to be numbers.
\<close>

section \<open>The decision after a failure\<close>

text \<open>\<open>rv_limit\<close> is \<^verbatim>\<open>None\<close> when the request carries no attempt counter.\<close>

record recovery_env =
  rv_managed :: bool
  rv_enabled :: bool
  rv_limit :: "int option"
  rv_deadline :: "rat option"
  rv_useful :: rat
  rv_hints :: hint_env
  rv_transient :: "string \<Rightarrow> bool"

text \<open>The moment an attempt failed: the attempts charged so far, the clock, two samples, and whether the wait is cancelled.\<close>

record moment =
  mo_used :: int
  mo_clock :: rat
  mo_first :: rat
  mo_second :: rat
  mo_cancelled :: bool

definition attempt_limit :: "recovery_env \<Rightarrow> int" where
  "attempt_limit v = (case rv_limit v of None \<Rightarrow> 6 | Some l \<Rightarrow> l)"

definition remaining :: "recovery_env \<Rightarrow> moment \<Rightarrow> int" where
  "remaining v m = (case rv_limit v of None \<Rightarrow> 6 | Some l \<Rightarrow> max 0 (l - mo_used m))"

definition reached :: "pyval \<Rightarrow> rat \<Rightarrow> bool" where
  "reached x bound = (case x of VInt n \<Rightarrow> bound \<le> of_int n | VFloat (Fin q) \<Rightarrow> bound \<le> q | _ \<Rightarrow> False)"

definition spent_window :: "exn \<Rightarrow> bool" where
  "spent_window e \<longleftrightarrow> exn_cls e = LLMTimeoutError_cls \<and>
     py_str_in (detail e ''timeout_stage'') {''first_event'', ''stream_idle'', ''attempt_total'', ''job_deadline'', ''turn_deadline''} \<and>
     (reached (detail e ''duration_ms'') 30000 \<or> py_str_in (detail e ''timeout_stage'') {''job_deadline'', ''turn_deadline''})"

datatype wait_result = Surface | Wait_retry int | Wait_cancelled int

definition retry_hint :: "recovery_env \<Rightarrow> exn \<Rightarrow> int option" where
  "retry_hint v e = retry_after_ms_from_details (rv_hints v) (exn_details e)"

definition retry_wait :: "recovery_env \<Rightarrow> moment \<Rightarrow> exn \<Rightarrow> int \<Rightarrow> wait_result" where
  "retry_wait v m e attempt =
     (if \<not> rv_managed v \<or> \<not> rv_enabled v then Surface
      else if detail e ''origin'' = VStr ''provider_circuit'' \<or> py_true (detail e ''circuit_open'') then Surface
      else if spent_window e then Surface
      else let max_attempts = min 6 (attempt_limit v) in
        if remaining v m = 0 \<or> max_attempts \<le> attempt then Surface
        else if exn_code e = ''PROVIDER_STREAM_INVALID'' \<and> 3 \<le> attempt then Surface
        else let decision = decide (make_policy max_attempts 30000) (rv_hints v) (rv_transient v) e attempt (mo_first m);
                 response_retry = (exn_cls e = LLMResponseError_cls \<and> exn_retryable e);
                 rate_retry = (exn_cls e = LLMRateLimitError_cls \<and> retry_hint v e = None) in
          if \<not> rd_retry decision \<and> \<not> response_retry \<and> \<not> rate_retry then Surface
          else let delay = (case retry_hint v e of Some h \<Rightarrow> h
                            | None \<Rightarrow> transient_retry_delay_ms (rv_hints v) e attempt (mo_second m)) in
            if 30000 < delay then Surface
            else if (case rv_deadline v of None \<Rightarrow> False
                     | Some t \<Rightarrow> t \<le> mo_clock m + of_int delay / 1000 + rv_useful v) then Surface
            else if mo_cancelled m then Wait_cancelled delay else Wait_retry delay)"

text \<open>What is published around a wait: the phase, the attempts charged and the delay.\<close>

definition wait_events :: "moment \<Rightarrow> wait_result \<Rightarrow> (string \<times> int \<times> int) list" where
  "wait_events m w =
     (case w of
        Surface \<Rightarrow> []
      | Wait_retry d \<Rightarrow> [(''model.retry.scheduled'', mo_used m, d), (''model.retry.started'', mo_used m, d)]
      | Wait_cancelled d \<Rightarrow> [(''model.retry.scheduled'', mo_used m, d), (''model.retry.cancelled'', mo_used m, d)])"

section \<open>Streams of an agent\<close>

text \<open>How an attempt ends; \<open>Stream_interrupted\<close> is a cancellation or another exception that no driver handles.\<close>

datatype attempt_end = Stream_done | Stream_failed exn | Stream_interrupted

type_synonym 'e attempt = "'e list \<times> attempt_end"

datatype request_end = Delivered | Raised exn | Interrupted | Cancelled_wait int | Fell_through

definition STREAM_TOO_LARGE :: exn where
  "STREAM_TOO_LARGE = \<lparr>exn_cls = LLMResponseError_cls, exn_message = ''Agent stream exceeded its bounded buffer'',
     exn_code = ''PROVIDER_STREAM_TOO_LARGE'', exn_status = None, exn_retryable = False, exn_details = []\<rparr>"

fun fits_buffer :: "('e \<Rightarrow> nat) \<Rightarrow> nat \<Rightarrow> nat \<Rightarrow> 'e list \<Rightarrow> bool" where
  "fits_buffer len n amount [] = True"
| "fits_buffer len n amount (e # es) =
     (if 50000 \<le> n \<or> 8000000 < amount + len e then False else fits_buffer len (n + 1) (amount + len e) es)"

definition buffered_end :: "('e \<Rightarrow> nat) \<Rightarrow> 'e attempt \<Rightarrow> attempt_end" where
  "buffered_end len a = (if fits_buffer len 0 0 (fst a) then snd a else Stream_failed STREAM_TOO_LARGE)"

fun agent_attempts :: "('e \<Rightarrow> nat) \<Rightarrow> recovery_env \<Rightarrow> (int \<Rightarrow> moment) \<Rightarrow> (int \<Rightarrow> 'e attempt) \<Rightarrow> int list
    \<Rightarrow> 'e list \<times> request_end" where
  "agent_attempts len v mo stream [] = ([], Fell_through)"
| "agent_attempts len v mo stream (k # ks) =
     (case buffered_end len (stream k) of
        Stream_done \<Rightarrow> (fst (stream k), Delivered)
      | Stream_interrupted \<Rightarrow> ([], Interrupted)
      | Stream_failed e \<Rightarrow>
          if \<not> is_llm_error e then ([], Raised e)
          else (case retry_wait v (mo k) e k of
                  Surface \<Rightarrow> ([], Raised e)
                | Wait_cancelled d \<Rightarrow> ([], Cancelled_wait d)
                | Wait_retry d \<Rightarrow> agent_attempts len v mo stream ks))"

definition agent_stream :: "('e \<Rightarrow> nat) \<Rightarrow> recovery_env \<Rightarrow> (int \<Rightarrow> moment) \<Rightarrow> (int \<Rightarrow> 'e attempt) \<Rightarrow> 'e list \<times> request_end" where
  "agent_stream len v mo stream = agent_attempts len v mo stream [1..6]"

section \<open>Streams of a user\<close>

definition with_events :: "'e list \<Rightarrow> 'e list \<times> request_end \<Rightarrow> 'e list \<times> request_end" where
  "with_events es r = (es @ fst r, snd r)"

text \<open>The events of an attempt are shown as they come.\<close>

fun public_attempts :: "recovery_env \<Rightarrow> (int \<Rightarrow> moment) \<Rightarrow> (int \<Rightarrow> 'e attempt) \<Rightarrow> int list \<Rightarrow> 'e list \<times> request_end" where
  "public_attempts v mo stream [] = ([], Fell_through)"
| "public_attempts v mo stream (k # ks) = with_events (fst (stream k))
     (case snd (stream k) of
        Stream_done \<Rightarrow> ([], Delivered)
      | Stream_interrupted \<Rightarrow> ([], Interrupted)
      | Stream_failed e \<Rightarrow>
          if \<not> is_llm_error e then ([], Raised e)
          else let decision = decide (make_policy (min 6 (attempt_limit v)) 30000) (rv_hints v) (rv_transient v) e k (mo_first (mo k)) in
            if fst (stream k) \<noteq> [] \<or> \<not> rd_retry decision \<or> remaining v (mo k) = 0 \<or>
               (case rv_deadline v of None \<Rightarrow> False | Some t \<Rightarrow> t \<le> mo_clock (mo k) + of_int (rd_delay_ms decision) / 1000)
            then ([], Raised e)
            else if mo_cancelled (mo k) then ([], Cancelled_wait (rd_delay_ms decision))
            else public_attempts v mo stream ks)"

definition public_stream :: "recovery_env \<Rightarrow> (int \<Rightarrow> moment) \<Rightarrow> (int \<Rightarrow> 'e attempt) \<Rightarrow> 'e list \<times> request_end" where
  "public_stream v mo stream =
     public_attempts v mo stream [1..rp_max_attempts (make_policy (min 6 (attempt_limit v)) 30000)]"

text \<open>
  A text stream falls back to one complete answer when it ends without a text, and gives up an attempt whose first text is
  late: \<open>ta_late\<close> says so, \<open>ta_answer\<close> is the outcome of \<^verbatim>\<open>generate\<close>.
\<close>

record text_attempt =
  ta_events :: "string list"
  ta_end :: attempt_end
  ta_late :: bool
  ta_answer :: "exn + string"

definition FIRST_TOKEN_LATE :: exn where
  "FIRST_TOKEN_LATE = \<lparr>exn_cls = LLMTimeoutError_cls, exn_message = ''The provider did not return a first token in time'',
     exn_code = ''PROVIDER_TIMEOUT'', exn_status = None, exn_retryable = True, exn_details = []\<rparr>"

definition EMPTY_RESPONSE :: exn where
  "EMPTY_RESPONSE = \<lparr>exn_cls = LLMResponseError_cls, exn_message = ''The provider returned an empty response'',
     exn_code = ''PROVIDER_ENVELOPE_INVALID'', exn_status = None, exn_retryable = False, exn_details = []\<rparr>"

definition text_of_attempt :: "text_attempt \<Rightarrow> string attempt" where
  "text_of_attempt a =
     (if ta_late a then ([], Stream_failed FIRST_TOKEN_LATE)
      else if ta_events a = [] \<and> ta_end a = Stream_done
      then (case ta_answer a of
              Inl e \<Rightarrow> ([], Stream_failed e)
            | Inr content \<Rightarrow> if py_strip content = [] then ([], Stream_failed EMPTY_RESPONSE) else ([content], Stream_done))
      else (ta_events a, ta_end a))"

fun text_attempts :: "recovery_env \<Rightarrow> (int \<Rightarrow> moment) \<Rightarrow> (int \<Rightarrow> text_attempt) \<Rightarrow> int list \<Rightarrow> string list \<times> request_end" where
  "text_attempts v mo stream [] = ([], Fell_through)"
| "text_attempts v mo stream (k # ks) =
     (case text_of_attempt (stream k) of (events, ending) \<Rightarrow> with_events events
        (case ending of
           Stream_done \<Rightarrow> ([], Delivered)
         | Stream_interrupted \<Rightarrow> ([], Interrupted)
         | Stream_failed e \<Rightarrow>
             if \<not> is_llm_error e \<or> events \<noteq> [] then ([], Raised e)
             else (case retry_wait v (mo k) e k of
                     Surface \<Rightarrow> ([], Raised e)
                   | Wait_cancelled d \<Rightarrow> ([], Cancelled_wait d)
                   | Wait_retry d \<Rightarrow> text_attempts v mo stream ks)))"

definition text_stream :: "recovery_env \<Rightarrow> (int \<Rightarrow> moment) \<Rightarrow> (int \<Rightarrow> text_attempt) \<Rightarrow> string list \<times> request_end" where
  "text_stream v mo stream = text_attempts v mo stream [1..6]"

section \<open>Whole answers\<close>

text \<open>
  The loop of \<^verbatim>\<open>ModelRuntime.generate\<close> under the default policy; \<open>deadline\<close> is that of the logical request, an attempt is its
  answer or its exception, and the timeout around the loop counts as a cancellation. The last component lists the attempts made, with the code of their failure.
\<close>

fun generate_attempts :: "recovery_env \<Rightarrow> rat \<Rightarrow> (int \<Rightarrow> moment) \<Rightarrow> (int \<Rightarrow> exn + 'r) \<Rightarrow> int list
    \<Rightarrow> 'r option \<times> request_end \<times> (int \<times> string option) list" where
  "generate_attempts v deadline mo answer [] = (None, Fell_through, [])"
| "generate_attempts v deadline mo answer (k # ks) =
     (case answer k of
        Inr r \<Rightarrow> (Some r, Delivered, [(k, None)])
      | Inl e \<Rightarrow>
          (let raise = (None, Raised e, [(k, Some (exn_code e))]);
               (r, result, attempts) = generate_attempts v deadline mo answer ks;
               again = (r, result, (k, Some (exn_code e)) # attempts) in
           if rv_managed v
           then (case retry_wait v (mo k) e k of
                   Surface \<Rightarrow> raise
                 | Wait_cancelled d \<Rightarrow> (None, Cancelled_wait d, [(k, Some (exn_code e))])
                 | Wait_retry d \<Rightarrow> again)
           else let decision = decide default_policy (rv_hints v) (rv_transient v) e k (mo_first (mo k));
                    exhausted = (case rv_limit v of None \<Rightarrow> False | Some l \<Rightarrow> l \<le> mo_used (mo k) \<or> l \<le> k) in
             if \<not> rd_retry decision \<or> exhausted \<or> deadline \<le> mo_clock (mo k) + of_int (rd_delay_ms decision) / 1000
             then raise
             else if mo_cancelled (mo k) then (None, Cancelled_wait (rd_delay_ms decision), [(k, Some (exn_code e))])
             else again))"

definition generate_request :: "recovery_env \<Rightarrow> rat \<Rightarrow> (int \<Rightarrow> moment) \<Rightarrow> (int \<Rightarrow> exn + 'r)
    \<Rightarrow> 'r option \<times> request_end \<times> (int \<times> string option) list" where
  "generate_request v deadline mo answer = generate_attempts v deadline mo answer [1..rp_max_attempts default_policy]"

section \<open>The decision keeps the promises of the policy\<close>

lemma decide_class:
  "rd_retry (decide p env re e k sample) \<Longrightarrow>
     exn_cls e \<notin> {LLMConfigurationError_cls, LLMAuthenticationError_cls, Other_exception_cls}"
  by (auto simp: decide_def no_retry_def is_llm_error_def split: if_splits)

definition wait_delay :: "recovery_env \<Rightarrow> moment \<Rightarrow> exn \<Rightarrow> int \<Rightarrow> int" where
  "wait_delay v m e k = (case retry_hint v e of Some h \<Rightarrow> h
     | None \<Rightarrow> transient_retry_delay_ms (rv_hints v) e k (mo_second m))"

lemma retry_wait_guards:
  assumes "retry_wait v m e k = Wait_retry d"
  shows "d = wait_delay v m e k" "d \<le> 30000" "remaining v m \<noteq> 0" "k < min 6 (attempt_limit v)"
    "\<not> (case rv_deadline v of None \<Rightarrow> False | Some t \<Rightarrow> t \<le> mo_clock m + of_int d / 1000 + rv_useful v)"
    "rd_retry (decide (make_policy (min 6 (attempt_limit v)) 30000) (rv_hints v) (rv_transient v) e k (mo_first m)) \<or>
     exn_cls e = LLMResponseError_cls \<or> exn_cls e = LLMRateLimitError_cls"
  using assms unfolding retry_wait_def Let_def wait_delay_def [symmetric] by (simp_all split: if_splits) (linarith | simp | blast)+

lemma retried_llm_error:
  assumes "retry_wait v m e k = Wait_retry d"
  shows "is_llm_error e"
  using retry_wait_guards(6) [OF assms] decide_class by (auto simp: is_llm_error_def)

text \<open>C32. A failed attempt is followed by a wait only within the limits of the request: another attempt is left in the counter and
  in the policy, the wait is never longer than thirty seconds, never shorter than the provider asked for, and leaves time for
  an answer before the deadline; errors of configuration and authentication are never retried.\<close>

theorem retry_wait_within_limits:
  assumes "retry_wait v m e k = Wait_retry d"
  shows "0 \<le> d \<and> d \<le> 30000 \<and> (\<forall>h. retry_hint v e = Some h \<longrightarrow> d = h) \<and> k < 6 \<and> k < attempt_limit v \<and>
    (\<forall>l. rv_limit v = Some l \<longrightarrow> mo_used m < l) \<and>
    (\<forall>t. rv_deadline v = Some t \<longrightarrow> mo_clock m + of_int d / 1000 + rv_useful v < t) \<and>
    exn_cls e \<notin> {LLMConfigurationError_cls, LLMAuthenticationError_cls, Other_exception_cls}"
proof -
  note g = retry_wait_guards [OF assms]
  have "0 \<le> d" "\<forall>h. retry_hint v e = Some h \<longrightarrow> d = h"
    using transient_delay_nonneg retry_after_bounds
    by (auto simp: g(1) wait_delay_def retry_hint_def split: option.splits)
  moreover have "\<forall>l. rv_limit v = Some l \<longrightarrow> mo_used m < l" using g(3) by (auto simp: remaining_def)
  moreover have "\<forall>t. rv_deadline v = Some t \<longrightarrow> mo_clock m + of_int d / 1000 + rv_useful v < t" using g(5) by auto
  moreover have "exn_cls e \<notin> {LLMConfigurationError_cls, LLMAuthenticationError_cls, Other_exception_cls}"
    using g(6) decide_class by auto
  ultimately show ?thesis using g(2,4) by simp
qed

section \<open>What a request delivers\<close>

text \<open>The attempt that decided an agent's stream, and the failures before it.\<close>

definition retried :: "('e \<Rightarrow> nat) \<Rightarrow> recovery_env \<Rightarrow> (int \<Rightarrow> moment) \<Rightarrow> (int \<Rightarrow> 'e attempt) \<Rightarrow> int \<Rightarrow> bool" where
  "retried len v mo stream k \<longleftrightarrow>
     (\<exists>e d. buffered_end len (stream k) = Stream_failed e \<and> retry_wait v (mo k) e k = Wait_retry d)"

lemma agent_attempts_result:
  "agent_attempts len v mo stream ks = (es, r) \<Longrightarrow>
     (r = Fell_through \<and> es = [] \<and> (\<forall>k \<in> set ks. retried len v mo stream k)) \<or>
     (\<exists>pre k post. ks = pre @ k # post \<and> (\<forall>j \<in> set pre. retried len v mo stream j) \<and> r \<noteq> Fell_through \<and>
        (if r = Delivered then buffered_end len (stream k) = Stream_done \<and> es = fst (stream k) else es = []))"
proof (induction ks)
  case (Cons k ks)
  show ?case
  proof (cases "retried len v mo stream k")
    case True
    then have "agent_attempts len v mo stream (k # ks) = agent_attempts len v mo stream ks"
      using retried_llm_error by (fastforce simp: retried_def)
    then have "agent_attempts len v mo stream ks = (es, r)" using Cons.prems by simp
    from Cons.IH [OF this] show ?thesis using True by (elim disjE exE) (auto, metis Cons_eq_appendI set_ConsD)
  next
    case False
    then have "r \<noteq> Fell_through \<and>
        (if r = Delivered then buffered_end len (stream k) = Stream_done \<and> es = fst (stream k) else es = [])"
      using Cons.prems by (auto simp: retried_def split: attempt_end.splits wait_result.splits if_splits)
    then show ?thesis by (intro disjI2 exI [of _ "[]"] exI [of _ k] exI [of _ ks]) simp
  qed
qed simp

lemma upto_parts:
  "[i..j] = pre @ k # post \<Longrightarrow> i \<le> k \<and> k \<le> j \<and> set pre = {i..<k}"
proof (induction pre arbitrary: i)
  case Nil
  then have "i \<le> j" by (cases "i \<le> j") auto
  then show ?case using Nil by (simp add: upto_rec1)
next
  case (Cons x pre)
  then have le: "i \<le> j" by (cases "i \<le> j") auto
  then have "i # [i + 1..j] = x # pre @ k # post" using Cons.prems by (simp only: upto_rec1 [OF le] append_Cons)
  then have both: "i = x \<and> [i + 1..j] = pre @ k # post" by (rule iffD1 [OF list.inject])
  then have x: "x = i" by blast
  have tl: "[i + 1..j] = pre @ k # post" using both by (rule conjunct2)
  show ?case using Cons.IH [OF tl] x le by auto
qed

lemma upto_prefix: "[i..j] = pre @ k # post \<Longrightarrow> pre @ [k] = [i..k]"
proof (induction pre arbitrary: i)
  case Nil
  then have "i \<le> j" by (cases "i \<le> j") auto
  then show ?case using Nil by (simp add: upto_rec1)
next
  case (Cons x pre)
  then have le: "i \<le> j" by (cases "i \<le> j") auto
  then have "i # [i + 1..j] = x # pre @ k # post" using Cons.prems by (simp only: upto_rec1 [OF le] append_Cons)
  then have both: "i = x \<and> [i + 1..j] = pre @ k # post" by (rule iffD1 [OF list.inject])
  then have tl: "[i + 1..j] = pre @ k # post" by (rule conjunct2)
  have "i \<le> k" using upto_parts [OF Cons.prems] by blast
  then show ?case using Cons.IH [OF tl] both by (simp add: upto_rec1)
qed

lemma agent_never_falls: "snd (agent_stream len v mo stream) \<noteq> Fell_through"
proof
  assume "snd (agent_stream len v mo stream) = Fell_through"
  then obtain es where "agent_attempts len v mo stream [1..6] = (es, Fell_through)"
    unfolding agent_stream_def by (metis prod.collapse)
  from agent_attempts_result [OF this] have "retried len v mo stream 6" by auto
  then show False using retry_wait_guards(4) by (fastforce simp: retried_def)
qed

text \<open>C30. An agent receives the events of one complete attempt or none at all: what is released is exactly what an attempt that
  ended properly sent, within the buffer's bounds, after every earlier attempt failed and was retried; a request that is given
  up releases nothing.\<close>

theorem agent_stream_whole:
  assumes "agent_stream len v mo stream = (es, r)"
  shows "if r = Delivered
    then \<exists>k. 1 \<le> k \<and> k \<le> 6 \<and> stream k = (es, Stream_done) \<and> fits_buffer len 0 0 es \<and>
           (\<forall>j \<in> {1..<k}. retried len v mo stream j)
    else es = []"
proof -
  have "r \<noteq> Fell_through" using agent_never_falls [of len v mo stream] assms by simp
  then obtain pre k post where k: "[1..6] = pre @ k # post" "\<forall>j \<in> set pre. retried len v mo stream j"
    "if r = Delivered then buffered_end len (stream k) = Stream_done \<and> es = fst (stream k) else es = []"
    using agent_attempts_result [OF assms [unfolded agent_stream_def]] by blast
  show ?thesis
  proof (cases "r = Delivered")
    case True
    then have "stream k = (es, Stream_done)" "fits_buffer len 0 0 es"
      using k(3) by (auto simp: buffered_end_def split: if_splits prod.splits) (metis prod.collapse)
    then show ?thesis using True k(2) upto_parts [OF k(1)] by auto
  qed (use k(3) in simp)
qed

lemma public_attempts_result:
  "public_attempts v mo stream ks = (es, r) \<Longrightarrow>
     (r = Fell_through \<and> (\<forall>k \<in> set ks. \<exists>e. rd_retry (decide (make_policy (min 6 (attempt_limit v)) 30000)
        (rv_hints v) (rv_transient v) e k (mo_first (mo k))))) \<or>
     (\<exists>pre k post. ks = pre @ k # post \<and> (\<forall>j \<in> set pre. fst (stream j) = []) \<and> r \<noteq> Fell_through \<and> es = fst (stream k))"
proof (induction ks arbitrary: es)
  case (Cons k ks)
  let ?again = "\<exists>e. fst (stream k) = [] \<and> rd_retry (decide (make_policy (min 6 (attempt_limit v)) 30000)
        (rv_hints v) (rv_transient v) e k (mo_first (mo k))) \<and>
      public_attempts v mo stream (k # ks) = public_attempts v mo stream ks"
  show ?case
  proof (cases ?again)
    case True
    then have "public_attempts v mo stream ks = (es, r)" using Cons.prems by auto
    from Cons.IH [OF this] show ?thesis using True by (elim disjE exE) (auto, metis Cons_eq_appendI set_ConsD)
  next
    case False
    then have "r \<noteq> Fell_through \<and> es = fst (stream k)"
      using Cons.prems by (auto simp: with_events_def Let_def split: attempt_end.splits if_splits)
    then show ?thesis by (intro disjI2 exI [of _ "[]"] exI [of _ k] exI [of _ ks]) simp
  qed
qed simp

lemma text_attempts_result:
  "text_attempts v mo stream ks = (es, r) \<Longrightarrow>
     (r = Fell_through \<and> (\<forall>k \<in> set ks. \<exists>e d. retry_wait v (mo k) e k = Wait_retry d)) \<or>
     (\<exists>pre k post. ks = pre @ k # post \<and> (\<forall>j \<in> set pre. fst (text_of_attempt (stream j)) = []) \<and> r \<noteq> Fell_through \<and>
        es = fst (text_of_attempt (stream k)))"
proof (induction ks arbitrary: es)
  case (Cons k ks)
  let ?again = "fst (text_of_attempt (stream k)) = [] \<and> (\<exists>e d. retry_wait v (mo k) e k = Wait_retry d) \<and>
      text_attempts v mo stream (k # ks) = text_attempts v mo stream ks"
  show ?case
  proof (cases ?again)
    case True
    then have "text_attempts v mo stream ks = (es, r)" using Cons.prems by auto
    from Cons.IH [OF this] show ?thesis using True by (elim disjE exE) (auto, metis Cons_eq_appendI set_ConsD)
  next
    case False
    then have "r \<noteq> Fell_through \<and> es = fst (text_of_attempt (stream k))"
      using Cons.prems
      by (auto simp: with_events_def split: attempt_end.splits wait_result.splits if_splits prod.splits)
        (metis prod.collapse)+
    then show ?thesis by (intro disjI2 exI [of _ "[]"] exI [of _ k] exI [of _ ks]) simp
  qed
qed simp

lemma public_never_falls: "snd (public_stream v mo stream) \<noteq> Fell_through"
proof
  let ?p = "make_policy (min 6 (attempt_limit v)) 30000"
  assume "snd (public_stream v mo stream) = Fell_through"
  then obtain es where "public_attempts v mo stream [1..rp_max_attempts ?p] = (es, Fell_through)"
    unfolding public_stream_def by (metis prod.collapse)
  moreover have "rp_max_attempts ?p \<in> set [1..rp_max_attempts ?p]" by (simp add: make_policy_def)
  ultimately obtain e where "rd_retry (decide ?p (rv_hints v) (rv_transient v) e (rp_max_attempts ?p)
      (mo_first (mo (rp_max_attempts ?p))))"
    using public_attempts_result by blast
  then show False by (simp add: decide_def no_retry_def)
qed

lemma text_never_falls: "snd (text_stream v mo stream) \<noteq> Fell_through"
proof
  assume "snd (text_stream v mo stream) = Fell_through"
  then obtain es where "text_attempts v mo stream [1..6] = (es, Fell_through)"
    unfolding text_stream_def by (metis prod.collapse)
  then have "\<forall>k \<in> {1..6}. \<exists>e d. retry_wait v (mo k) e k = Wait_retry d"
    using text_attempts_result [of v mo stream "[1..6]" es Fell_through] by simp
  then obtain e d where "retry_wait v (mo 6) e 6 = Wait_retry d" by (meson atLeastAtMost_iff order_refl one_le_numeral)
  then show False using retry_wait_guards(4) by fastforce
qed

text \<open>C31. Nothing that a user has seen is ever sent again: what a public stream or a text stream yields are the events of a single
  attempt, and every attempt before it yielded nothing.\<close>

theorem text_never_replayed:
  "(\<exists>k. 1 \<le> k \<and> k \<le> max 1 (min 6 (attempt_limit v)) \<and> fst (public_stream v mo stream) = fst (stream k) \<and>
      (\<forall>j \<in> {1..<k}. fst (stream j) = [])) \<and>
   (\<exists>k. 1 \<le> k \<and> k \<le> 6 \<and> fst (text_stream v mo texts) = fst (text_of_attempt (texts k)) \<and>
      (\<forall>j \<in> {1..<k}. fst (text_of_attempt (texts j)) = []))"
proof (intro conjI)
  let ?n = "rp_max_attempts (make_policy (min 6 (attempt_limit v)) 30000)"
  obtain es r where p: "public_attempts v mo stream [1..?n] = (es, r)" by (metis prod.collapse)
  then have "r \<noteq> Fell_through" using public_never_falls [of v mo stream] by (simp add: public_stream_def)
  then obtain pre k post where k: "[1..?n] = pre @ k # post" "\<forall>j \<in> set pre. fst (stream j) = []" "es = fst (stream k)"
    using public_attempts_result [OF p] by blast
  then show "\<exists>k. 1 \<le> k \<and> k \<le> max 1 (min 6 (attempt_limit v)) \<and> fst (public_stream v mo stream) = fst (stream k) \<and>
      (\<forall>j \<in> {1..<k}. fst (stream j) = [])"
    using upto_parts [OF k(1)] p by (intro exI [of _ k]) (auto simp: public_stream_def make_policy_def)
  obtain ts q where t: "text_attempts v mo texts [1..6] = (ts, q)" by (metis prod.collapse)
  then have "q \<noteq> Fell_through" using text_never_falls [of v mo texts] by (simp add: text_stream_def)
  then obtain pre k post where k: "[1..6] = pre @ k # post" "\<forall>j \<in> set pre. fst (text_of_attempt (texts j)) = []"
      "ts = fst (text_of_attempt (texts k))"
    using text_attempts_result [OF t] by blast
  then show "\<exists>k. 1 \<le> k \<and> k \<le> 6 \<and> fst (text_stream v mo texts) = fst (text_of_attempt (texts k)) \<and>
      (\<forall>j \<in> {1..<k}. fst (text_of_attempt (texts j)) = [])"
    using upto_parts [OF k(1)] t by (intro exI [of _ k]) (auto simp: text_stream_def)
qed

section \<open>Whole answers\<close>

definition answer_retried :: "recovery_env \<Rightarrow> (int \<Rightarrow> moment) \<Rightarrow> (int \<Rightarrow> exn + 'r) \<Rightarrow> int \<Rightarrow> bool" where
  "answer_retried v mo answer k \<longleftrightarrow>
     (\<exists>e. answer k = Inl e \<and> ((\<exists>d. retry_wait v (mo k) e k = Wait_retry d) \<or>
        rd_retry (decide default_policy (rv_hints v) (rv_transient v) e k (mo_first (mo k)))))"

lemma generate_attempts_result:
  "generate_attempts v deadline mo answer ks = (r, w, made) \<Longrightarrow>
     (w = Fell_through \<and> (\<forall>k \<in> set ks. answer_retried v mo answer k)) \<or>
     (\<exists>pre k post. ks = pre @ k # post \<and> map fst made = pre @ [k] \<and> (\<forall>j \<in> set pre. answer_retried v mo answer j) \<and>
        w \<noteq> Fell_through \<and> (case answer k of Inr x \<Rightarrow> r = Some x \<and> w = Delivered | Inl e \<Rightarrow> r = None \<and> w \<noteq> Delivered))"
proof (induction ks arbitrary: r w made)
  case (Cons k ks)
  obtain r1 w1 made1 where tl: "generate_attempts v deadline mo answer ks = (r1, w1, made1)" by (metis prod_cases3)
  show ?case
  proof (cases "\<exists>e :: exn. answer_retried v mo answer k \<and> (r, w, made) = (r1, w1, (k, Some (exn_code e)) # made1)")
    case True
    then obtain e :: exn where again: "answer_retried v mo answer k" "r = r1" "w = w1" "made = (k, Some (exn_code e)) # made1" by blast
    from Cons.IH [OF tl] show ?thesis
    proof (elim disjE exE)
      fix pre i post
      assume "ks = pre @ i # post \<and> map fst made1 = pre @ [i] \<and> (\<forall>j \<in> set pre. answer_retried v mo answer j) \<and>
        w1 \<noteq> Fell_through \<and> (case answer i of Inr x \<Rightarrow> r1 = Some x \<and> w1 = Delivered | Inl e \<Rightarrow> r1 = None \<and> w1 \<noteq> Delivered)"
      then show ?thesis using again by (intro disjI2 exI [of _ "k # pre"] exI [of _ i] exI [of _ post]) auto
    qed (use again in simp)
  next
    case False
    have "(\<exists>x. answer k = Inr x \<and> (r, w, made) = (Some x, Delivered, [(k, None)])) \<or>
        (\<exists>e. answer k = Inl e \<and> r = None \<and> w \<noteq> Delivered \<and> w \<noteq> Fell_through \<and> map fst made = [k])"
      using Cons.prems False
      by (auto simp: tl Let_def answer_retried_def split: sum.splits wait_result.splits if_splits)
    then show ?thesis by (intro disjI2 exI [of _ "[]"] exI [of _ k] exI [of _ ks]) auto
  qed
qed simp

lemma generate_never_falls: "fst (snd (generate_request v deadline mo answer)) \<noteq> Fell_through"
proof
  assume "fst (snd (generate_request v deadline mo answer)) = Fell_through"
  then obtain r made where "generate_attempts v deadline mo answer [1..6] = (r, Fell_through, made)"
    unfolding generate_request_def default_policy_def make_policy_def RETRY_MAX_RETRIES_def
    by (simp, metis prod.collapse)
  then have "\<forall>k \<in> {1..6}. answer_retried v mo answer k"
    using generate_attempts_result [of v deadline mo answer "[1..6]" r Fell_through made] by simp
  then have "answer_retried v mo answer 6" by simp
  then show False using retry_wait_guards(4)
    by (auto simp: answer_retried_def default_policy_def make_policy_def RETRY_MAX_RETRIES_def decide_def no_retry_def) fastforce
qed

text \<open>C33. Every request is settled: no driver runs out of its loop without an answer or an error, and a request for a whole answer
  makes at most six attempts, numbered from one, of which the last decides: its answer is returned, or an error is raised.\<close>

theorem every_request_settles:
  "snd (agent_stream len v mo stream) \<noteq> Fell_through \<and> snd (public_stream v mo stream) \<noteq> Fell_through \<and>
   snd (text_stream v mo texts) \<noteq> Fell_through \<and>
   (\<exists>n. 1 \<le> n \<and> n \<le> 6 \<and> map fst (snd (snd (generate_request v deadline mo answer))) = [1..n] \<and>
      (case answer n of
         Inr x \<Rightarrow> fst (generate_request v deadline mo answer) = Some x
       | Inl e \<Rightarrow> fst (generate_request v deadline mo answer) = None \<and>
           fst (snd (generate_request v deadline mo answer)) \<notin> {Delivered, Fell_through}))"
proof (intro conjI)
  show "snd (agent_stream len v mo stream) \<noteq> Fell_through" "snd (public_stream v mo stream) \<noteq> Fell_through"
    "snd (text_stream v mo texts) \<noteq> Fell_through"
    by (rule agent_never_falls public_never_falls text_never_falls)+
  obtain r w made where g: "generate_attempts v deadline mo answer [1..6] = (r, w, made)" by (metis prod_cases3)
  have req: "generate_request v deadline mo answer = (r, w, made)"
    using g by (simp add: generate_request_def default_policy_def make_policy_def RETRY_MAX_RETRIES_def)
  have w: "w \<noteq> Fell_through" using generate_never_falls [of v deadline mo answer] req by simp
  then obtain pre k post where k: "[1..6] = pre @ k # post" "map fst made = pre @ [k]"
    "case answer k of Inr x \<Rightarrow> r = Some x \<and> w = Delivered | Inl e \<Rightarrow> r = None \<and> w \<noteq> Delivered"
    using generate_attempts_result [OF g] by blast
  have range: "1 \<le> k" "k \<le> 6" using upto_parts [OF k(1)] by auto
  have "pre @ [k] = [1..k]" using upto_prefix [OF k(1)] .
  then show "\<exists>n. 1 \<le> n \<and> n \<le> 6 \<and> map fst (snd (snd (generate_request v deadline mo answer))) = [1..n] \<and>
      (case answer n of
         Inr x \<Rightarrow> fst (generate_request v deadline mo answer) = Some x
       | Inl e \<Rightarrow> fst (generate_request v deadline mo answer) = None \<and>
           fst (snd (generate_request v deadline mo answer)) \<notin> {Delivered, Fell_through})"
    using k range w by (intro exI [of _ k]) (auto simp: req split: sum.splits)
qed

section \<open>Examples\<close>

definition calm_env :: recovery_env where
  "calm_env = \<lparr>rv_managed = True, rv_enabled = True, rv_limit = Some 6, rv_deadline = Some 600, rv_useful = 120,
     rv_hints = demo_hint_env, rv_transient = (\<lambda>s. False)\<rparr>"

definition calm_moment :: moment where
  "calm_moment = \<lparr>mo_used = 1, mo_clock = 10, mo_first = 0, mo_second = 0, mo_cancelled = False\<rparr>"

text \<open>The first attempt breaks off after one event, the second is complete.\<close>

definition broken_then_whole :: "string list \<Rightarrow> int \<Rightarrow> string attempt" where
  "broken_then_whole seen k = (if k = 1 then (seen, Stream_failed demo_rate_limit) else ([''ab'', ''cd''], Stream_done))"

lemma calm_retry: "retry_wait calm_env calm_moment demo_rate_limit 1 = Wait_retry 1500"
  by code_simp

lemma retry_wait_within_limits_witness:
  "retry_wait calm_env calm_moment demo_rate_limit 1 = Wait_retry 1500 \<and> (1500 :: int) \<le> 30000 \<and> (1 :: int) < attempt_limit calm_env"
  using calm_retry retry_wait_within_limits [OF calm_retry] by simp

lemma agent_stream_whole_witness:
  "\<exists>k. 1 \<le> k \<and> k \<le> 6 \<and> broken_then_whole [''a''] k = ([''ab'', ''cd''], Stream_done)"
proof -
  have "agent_stream length calm_env (\<lambda>k. calm_moment) (broken_then_whole [''a'']) = ([''ab'', ''cd''], Delivered)"
    by (simp add: agent_stream_def upto_rec1 buffered_end_def broken_then_whole_def calm_retry)
       (simp add: demo_rate_limit_def is_llm_error_def)
  from agent_stream_whole [OF this] show ?thesis by auto
qed

lemma text_never_replayed_witness:
  "\<exists>k. 1 \<le> k \<and> fst (public_stream calm_env (\<lambda>k. calm_moment) (broken_then_whole [])) = fst (broken_then_whole [] k) \<and>
     (\<forall>j \<in> {1..<k}. fst (broken_then_whole [] j) = [])"
  using text_never_replayed [of calm_env "\<lambda>k. calm_moment" "broken_then_whole []" undefined] by blast

end
