(* ===== verification/Flash_Control.thy ===== *)
theory Flash_Control
  imports Capabilities Store_Records
begin

text \<open>
  Uploading firmware to a device: the binding of a hardware action (\<^verbatim>\<open>backend/hardware/action_binding.py\<close>) and the
  two-step protocol of \<^verbatim>\<open>backend/agent_runtime/orchestrator.py\<close> (\<^verbatim>\<open>prepare_flash\<close>, \<^verbatim>\<open>confirm_flash\<close>, the upload task),
  over the approvals and operations of the store, the leases of sessions and the capability grants.

  One run of one session is modelled. The workspace, its revision, the boards the host detects, the clocks and fresh
  identifiers are arguments of each step. Recording events and saving the run are taken to succeed.
\<close>

section \<open>Hardware bindings\<close>

datatype flash_error =
    Flash_value_error string
  | Flash_store store_error
  | Flash_tool tool_error

definition HARDWARE_MUTATION_ACTIONS :: "string set" where
  "HARDWARE_MUTATION_ACTIONS =
     {''flash'', ''erase'', ''reset'', ''ota'', ''debug_attach'', ''fuse_change'', ''security_change'', ''power_control''}"

definition hardware_text :: "pyval \<Rightarrow> string \<Rightarrow> flash_error + string" where
  "hardware_text v message =
     (case v of VStr s \<Rightarrow> if py_strip s = [] then Inl (Flash_value_error message) else Inr (py_strip s)
      | _ \<Rightarrow> Inl (Flash_value_error message))"

fun first_hash :: "pyval list \<Rightarrow> string option" where
  "first_hash [] = None"
| "first_hash (v # vs) = (case v of VStr s \<Rightarrow> if py_strip s \<noteq> [] then Some (py_strip s) else first_hash vs | _ \<Rightarrow> first_hash vs)"

definition artifact_hash :: "pyval \<Rightarrow> string option" where
  "artifact_hash v =
     (case v of VDict kvs \<Rightarrow> first_hash (map (py_get (dict_of kvs)) [''firmware_hash'', ''artifact_hash'', ''checksum''])
      | _ \<Rightarrow> None)"

definition text_val :: "string option \<Rightarrow> pyval" where
  "text_val t = (case t of None \<Rightarrow> VNone | Some s \<Rightarrow> VStr s)"

type_synonym binding = "(string \<times> pyval) list"

definition command_spec :: "string \<Rightarrow> string \<Rightarrow> string \<Rightarrow> string \<Rightarrow> binding \<Rightarrow> pyval" where
  "command_spec action run project device b =
     VDict [(''operation'', VStr action), (''run_id'', VStr run), (''project_id'', VStr project),
       (''device_stable_id'', VStr device), (''board_type'', py_get (dict_of b) ''board_type''),
       (''environment'', py_get (dict_of b) ''environment''),
       (''artifact_hash'', text_val (artifact_hash (py_get (dict_of b) ''artifact'')))]"

definition finalize_hardware_binding :: "codec \<Rightarrow> string \<Rightarrow> binding \<Rightarrow> flash_error + binding" where
  "finalize_hardware_binding cd action b =
     (if action \<notin> HARDWARE_MUTATION_ACTIONS then Inl (Flash_value_error ''HARDWARE_ACTION_NOT_APPROVABLE'')
      else bind_result (hardware_text (py_get (dict_of b) ''run_id'') ''HARDWARE_RUN_ID_REQUIRED'') (\<lambda>run.
      bind_result (hardware_text (py_get (dict_of b) ''project_id'') ''HARDWARE_PROJECT_ID_REQUIRED'') (\<lambda>project.
      case py_get (dict_of b) ''device_identity'' of
        VDict device \<Rightarrow>
          (let stable = py_or_str cd (py_get (dict_of device) ''stable_id'') [] in
           if stable = [] then Inl (Flash_value_error ''HARDWARE_DEVICE_IDENTITY_REQUIRED'')
           else if action \<in> {''flash'', ''ota''} \<and> artifact_hash (py_get (dict_of b) ''artifact'') = None
           then Inl (Flash_value_error ''HARDWARE_ARTIFACT_HASH_REQUIRED'')
           else Inr (b @ [(''binding_version'', VStr ''forgex.hardware-action.v1''), (''operation'', VStr action),
                  (''command_digest'', VStr (sha256 cd (json_text cd (command_spec action run project stable b))))]))
      | _ \<Rightarrow> Inl (Flash_value_error ''HARDWARE_DEVICE_IDENTITY_REQUIRED''))))"

section \<open>The device\<close>

record detected_board =
  db_port :: string
  db_vid :: "nat option"
  db_pid :: "nat option"
  db_serial :: "string option"
  db_type :: string

fun hex_text :: "nat \<Rightarrow> string" where
  "hex_text n = (if n < 16 then [''0123456789abcdef'' ! n] else hex_text (n div 16) @ [''0123456789abcdef'' ! (n mod 16)])"

definition hex4 :: "nat \<Rightarrow> string" where
  "hex4 n = replicate (4 - length (hex_text n)) CHR ''0'' @ hex_text n"

definition stripped_opt :: "string option \<Rightarrow> string" where
  "stripped_opt t = (case t of None \<Rightarrow> [] | Some s \<Rightarrow> py_strip s)"

definition text_or_none :: "string \<Rightarrow> pyval" where
  "text_or_none s = (if s = [] then VNone else VStr s)"

definition board_name :: "string \<Rightarrow> detected_board \<Rightarrow> pyval" where
  "board_name selected b = VStr (if selected = [] then db_type b else selected)"

definition weak_identity :: "string \<Rightarrow> string \<Rightarrow> binding" where
  "weak_identity port board =
     [(''stable_id'', VStr (''port:'' @ py_lower port @ ''|board:'' @ py_lower board)), (''port'', VStr port),
      (''board_type'', text_or_none board), (''confidence'', VStr ''weak'')]"

definition device_identity :: "detected_board list \<Rightarrow> string option \<Rightarrow> string option \<Rightarrow> binding" where
  "device_identity boards port board_type =
     (let selected = stripped_opt port; board = stripped_opt board_type in
      if selected = [] then [(''stable_id'', VStr ''unbound''), (''port'', VNone), (''board_type'', text_or_none board),
        (''confidence'', VStr ''unbound'')]
      else case List.find (\<lambda>d. py_lower (db_port d) = py_lower selected) boards of
          None \<Rightarrow> weak_identity selected board
        | Some d \<Rightarrow>
            (case (db_vid d, db_pid d) of
               (Some vid, Some pid) \<Rightarrow>
                 (let usb = ''usb:'' @ hex4 vid @ '':'' @ hex4 pid; serial = stripped_opt (db_serial d) in
                  [(''stable_id'', VStr (if serial \<noteq> [] then usb @ '':'' @ py_lower serial else usb @ ''|port:'' @ py_lower (db_port d))),
                   (''port'', VStr (db_port d)), (''board_type'', board_name board d), (''vid'', VInt (int vid)),
                   (''pid'', VInt (int pid)), (''serial_number'', text_or_none serial),
                   (''confidence'', VStr (if serial \<noteq> [] then ''strong'' else ''medium''))])
             | _ \<Rightarrow> weak_identity selected board))"

section \<open>The protocol\<close>

record flash_run =
  fr_run :: string
  fr_project :: string
  fr_session :: string
  fr_status :: string
  fr_class :: "string option"
  fr_port :: "string option"
  fr_board :: "string option"
  fr_environment :: "string option"
  fr_monitor :: bool
  fr_approval :: "string option"
  fr_expires :: "rat option"
  fr_build :: binding
  fr_cancel :: bool

record flash_request =
  fq_run :: string
  fq_project :: string
  fq_port :: "string option"
  fq_board :: "string option"
  fq_environment :: "string option"
  fq_monitor :: bool
  fq_hash :: "string option"
  fq_manifest :: pyval

text \<open>
  The state of a run's hardware phase: the run, the node of its plan, the policy engine, the tables of the store, the lease
  and the payload the upload task holds, and the requests handed to the flash executor so far, each with its operation and
  payload. \<open>fh_issued\<close> records the bindings approvals were issued for.
\<close>

datatype upload_task = Upload_idle | Upload_ready lease_grant string binding | Upload_sent lease_grant string binding

record flash_host =
  fh_run :: flash_run
  fh_node :: "string option"
  fh_engine :: policy_engine
  fh_leases :: leases
  fh_approvals :: approvals
  fh_operations :: operations
  fh_task :: upload_task
  fh_sent :: "(string \<times> binding \<times> flash_request) list"
  fh_issued :: "(string \<times> binding) list"

record flash_env =
  fe_codec :: codec
  fe_executor :: bool
  fe_lease_ttl :: int
  fe_approval_ttl :: int

text \<open>What a step finds: the workspace (if it can be resolved) and its revision, the boards at two detections, wall and
  monotonic clock, and a fresh identifier.\<close>

record flash_moment =
  fm_root :: "string option"
  fm_revision :: string
  fm_boards :: "detected_board list"
  fm_again :: "detected_board list"
  fm_now :: rat
  fm_mono :: rat
  fm_fresh :: string

record flash_choice =
  fc_port :: "string option"
  fc_board :: "string option"
  fc_environment :: "string option"
  fc_monitor :: "bool option"

definition build_value :: "flash_run \<Rightarrow> string \<Rightarrow> pyval" where
  "build_value r k = py_get (dict_of (fr_build r)) k"

definition ARTIFACT_KEYS :: "string list" where
  "ARTIFACT_KEYS = [''build_id'', ''artifact_hash'', ''firmware_hash'', ''checksum'', ''artifact_path'', ''firmware_path'',
     ''environment'', ''project_id'', ''workspace_revision'', ''source_manifest_hash'', ''artifact_manifest'']"

text \<open>\<^verbatim>\<open>_flash_binding\<close>; absent arguments fall back to the run.\<close>

definition flash_binding :: "codec \<Rightarrow> detected_board list \<Rightarrow> flash_run \<Rightarrow> flash_choice \<Rightarrow> string \<Rightarrow> flash_error + binding" where
  "flash_binding cd boards r c revision =
     (let port = (case fc_port c of Some p \<Rightarrow> Some p | None \<Rightarrow> fr_port r);
          board = (case fc_board c of Some b \<Rightarrow> Some b | None \<Rightarrow> fr_board r);
          environment = (case fc_environment c of Some e \<Rightarrow> Some e | None \<Rightarrow> fr_environment r);
          artifact = filter (\<lambda>(k, v). v \<noteq> VNone) (map (\<lambda>k. (k, build_value r k)) ARTIFACT_KEYS) in
      finalize_hardware_binding cd ''flash''
        [(''run_id'', VStr (fr_run r)), (''project_id'', VStr (fr_project r)), (''port'', text_val port),
         (''board_type'', text_val board), (''device_identity'', VDict (device_identity boards port board)),
         (''environment'', text_val environment),
         (''workspace_revision'', if revision \<noteq> [] then VStr revision else build_value r ''workspace_revision''),
         (''artifact'', VDict artifact),
         (''start_monitor_after_flash'', VBool (case fc_monitor c of Some b \<Rightarrow> b | None \<Rightarrow> fr_monitor r))])"

definition approved_hash :: "(string \<Rightarrow> pyval) \<Rightarrow> string option" where
  "approved_hash field =
     (case (if py_true (field ''firmware_hash'') then field ''firmware_hash''
            else if py_true (field ''artifact_hash'') then field ''artifact_hash'' else field ''checksum'') of
        VStr s \<Rightarrow> if s = [] then None else Some s
      | _ \<Rightarrow> None)"

definition approved_artifact_hash :: "flash_run \<Rightarrow> string option" where
  "approved_artifact_hash r = approved_hash (build_value r)"

text \<open>\<^verbatim>\<open>port or run.flash_port\<close>\<close>

definition or_text :: "string option \<Rightarrow> string option \<Rightarrow> string option" where
  "or_text a b = (if py_true_opt a then a else b)"

definition no_choice :: flash_choice where
  "no_choice = \<lparr>fc_port = None, fc_board = None, fc_environment = None, fc_monitor = None\<rparr>"

definition offer_approval :: "flash_env \<Rightarrow> flash_moment \<Rightarrow> string \<Rightarrow> flash_host \<Rightarrow> (flash_error + unit) \<times> flash_host" where
  "offer_approval fe fm summary h =
     (case fm_root fm of
        None \<Rightarrow> (Inl (Flash_value_error ''AGENT_CAPABILITY_WORKSPACE_UNAVAILABLE''), h)
      | Some rt \<Rightarrow>
          (case flash_binding (fe_codec fe) (fm_boards fm) (fh_run h) no_choice (fm_revision fm) of
             Inl e \<Rightarrow> (Inl e, h)
           | Inr b \<Rightarrow>
               (let i = ''approval-'' @ fm_fresh fm in
                case issue_approval (fe_codec fe) (fe_approval_ttl fe) (fm_now fm) i (fr_run (fh_run h)) ''flash'' b summary
                       (fh_approvals h) of
                  Inl e \<Rightarrow> (Inl (Flash_store e), h)
                | Inr (a, approvals) \<Rightarrow>
                    (Inr (), h\<lparr>fh_approvals := approvals, fh_issued := (i, b) # fh_issued h,
                       fh_run := (fh_run h)\<lparr>fr_approval := Some i, fr_expires := Some (apv_expires a),
                         fr_status := ''awaiting_flash_confirmation'', fr_class := Some ''BUILD_READY_FOR_FLASH''\<rparr>\<rparr>))))"

definition chosen_device :: "flash_choice \<Rightarrow> flash_host \<Rightarrow> flash_host" where
  "chosen_device c h =
     (let r = fh_run h in
      h\<lparr>fh_run := r\<lparr>fr_port := or_text (fc_port c) (fr_port r), fr_board := or_text (fc_board c) (fr_board r),
          fr_environment := or_text (fc_environment c) (fr_environment r),
          fr_monitor := (case fc_monitor c of Some b \<Rightarrow> b | None \<Rightarrow> fr_monitor r)\<rparr>,
        fh_node := (if fh_node h \<in> {Some ''skipped'', Some ''failed'', Some ''cancelled''} then Some ''pending'' else fh_node h)\<rparr>)"

definition prepare_flash :: "flash_env \<Rightarrow> flash_moment \<Rightarrow> flash_choice \<Rightarrow> flash_host \<Rightarrow> (flash_error + unit) \<times> flash_host" where
  "prepare_flash fe fm c h =
     (let r = fh_run h in
      if fr_status r = ''awaiting_flash_confirmation'' then (Inr (), h)
      else if fr_status r \<noteq> ''completed'' then (Inl (Flash_value_error ''AGENT_RUNTIME_FLASH_PREPARATION_NOT_READY''), h)
      else if fr_class r \<in> {Some ''CHANGESET_REVIEW_REQUIRED'', Some ''CHANGESET_APPROVAL_REQUIRED''}
      then (Inl (Flash_value_error ''AGENT_RUNTIME_FLASH_CHANGES_NOT_APPLIED''), h)
      else if approved_artifact_hash r = None then (Inl (Flash_value_error ''AGENT_RUNTIME_VERIFIED_BUILD_NOT_FOUND''), h)
      else if (case build_value r ''artifact_manifest'' of VDict _ \<Rightarrow> False | _ \<Rightarrow> True)
      then (Inl (Flash_value_error ''SEALED_UPLOAD_REQUIRED''), h)
      else if (case build_value r ''workspace_revision'' of VStr v \<Rightarrow> v \<noteq> [] \<and> fm_root fm = None | _ \<Rightarrow> False)
      then (Inl (Flash_value_error ''AGENT_CAPABILITY_WORKSPACE_UNAVAILABLE''), h)
      else if (case build_value r ''workspace_revision'' of VStr v \<Rightarrow> v \<noteq> [] \<and> fm_revision fm \<noteq> v | _ \<Rightarrow> False)
      then (Inl (Flash_value_error ''AGENT_RUNTIME_BUILD_WORKSPACE_CHANGED''), h)
      else offer_approval fe fm ''Flash the latest verified firmware artifact to the selected device once.'' (chosen_device c h))"

section \<open>Confirmation\<close>

fun use_services :: "flash_moment \<Rightarrow> capability_grant \<Rightarrow> string \<Rightarrow> string list \<Rightarrow> policy_engine \<Rightarrow> (flash_error + unit) \<times> policy_engine" where
  "use_services fm g rt [] en = (Inr (), en)"
| "use_services fm g rt (s # ss) en =
     (case validate_service (fm_mono fm) g s rt True en of
        (Inl e, en') \<Rightarrow> (Inl (Flash_tool e), en')
      | (Inr _, en') \<Rightarrow> use_services fm g rt ss en')"

definition flash_services :: "bool \<Rightarrow> string list" where
  "flash_services monitor = [''build'', ''hardware''] @ (if monitor then [''serial_monitor''] else [])"

definition flash_grant_request :: "flash_run \<Rightarrow> string \<Rightarrow> bool \<Rightarrow> grant_request" where
  "flash_grant_request r rt monitor =
     \<lparr>rq_run = fr_run r, rq_node = ''flash'', rq_root = rt, rq_tools = [], rq_services = flash_services monitor,
      rq_source = ''one_time_hardware_approval'', rq_session = None, rq_ttl = None,
      rq_max_calls = int (length (flash_services monitor)), rq_write = False, rq_build = True, rq_network = False,
      rq_hardware = True\<rparr>"

definition proposed :: "flash_run \<Rightarrow> flash_choice \<Rightarrow> flash_choice" where
  "proposed r c = \<lparr>fc_port = or_text (fc_port c) (fr_port r), fc_board = or_text (fc_board c) (fr_board r),
     fc_environment = or_text (fc_environment c) (fr_environment r),
     fc_monitor = Some (case fc_monitor c of Some b \<Rightarrow> b | None \<Rightarrow> fr_monitor r)\<rparr>"

definition flash_operation :: "string \<Rightarrow> string \<Rightarrow> string" where
  "flash_operation run approval = run @ '':flash:'' @ approval"

definition confirmed_run :: "flash_run \<Rightarrow> flash_choice \<Rightarrow> flash_run" where
  "confirmed_run r c = r\<lparr>fr_port := fc_port (proposed r c), fr_board := fc_board (proposed r c),
     fr_environment := fc_environment (proposed r c), fr_monitor := (fc_monitor (proposed r c) = Some True),
     fr_status := ''running''\<rparr>"

text \<open>The part of a confirmation after the services were used.\<close>

definition confirm_rest :: "flash_env \<Rightarrow> flash_moment \<Rightarrow> flash_choice \<Rightarrow> lease_grant \<Rightarrow> string \<Rightarrow> (flash_error + unit) \<times> policy_engine
    \<Rightarrow> flash_host \<Rightarrow> (flash_error + unit) \<times> flash_host" where
  "confirm_rest fe fm c lease approval used h =
     (let r = fh_run h; p = proposed r c; op = flash_operation (fr_run r) approval in
      case used of
        (Inl e, en) \<Rightarrow> (Inl e, h\<lparr>fh_engine := en\<rparr>)
      | (Inr _, en) \<Rightarrow>
      (case flash_binding (fe_codec fe) (fm_boards fm) r p (fm_revision fm) of
        Inl e \<Rightarrow> (Inl e, h\<lparr>fh_engine := en\<rparr>)
      | Inr payload \<Rightarrow>
      (case record_operation (fe_codec fe) op (fr_run r) ''hardware.flash'' ''prepared'' (dict_of payload) (fm_now fm) (fh_operations h) of
        Inl e \<Rightarrow> (Inl (Flash_store e), h\<lparr>fh_engine := en\<rparr>)
      | Inr ops \<Rightarrow>
      (case flash_binding (fe_codec fe) (fm_again fm) r p (fm_revision fm) of
        Inl e \<Rightarrow> (Inl e, h\<lparr>fh_engine := en, fh_operations := ops\<rparr>)
      | Inr b \<Rightarrow>
      (case consume_action (fe_codec fe) approval ''flash'' b (fm_now fm) (fh_approvals h) of
        Inl e \<Rightarrow> (Inl (Flash_store e), h\<lparr>fh_engine := en, fh_operations := ops\<rparr>)
      | Inr (a, approvals) \<Rightarrow>
      (let h = h\<lparr>fh_engine := en, fh_operations := ops, fh_approvals := approvals, fh_run := confirmed_run r c\<rparr> in
      case fh_node h of
        None \<Rightarrow> (Inl (Flash_store (Store_key_error ''flash'')), h)
      | Some _ \<Rightarrow> (Inr (), h\<lparr>fh_node := Some ''running'', fh_task := Upload_ready lease op payload\<rparr>)))))))"

text \<open>
  The body of \<^verbatim>\<open>_confirm_flash_impl\<close> up to the creation of the task, under the lease it was given: the grant for the
  services, then the operation and the approval.
\<close>

definition confirm_body :: "flash_env \<Rightarrow> flash_moment \<Rightarrow> flash_choice \<Rightarrow> lease_grant \<Rightarrow> flash_host
    \<Rightarrow> (flash_error + unit) \<times> flash_host" where
  "confirm_body fe fm c lease h =
     (let r = fh_run h; monitor = (fc_monitor (proposed r c) = Some True) in
      case (if fe_executor fe then fr_approval r else None) of
        None \<Rightarrow> (Inl (Flash_value_error (if fe_executor fe then ''AGENT_RUNTIME_FLASH_APPROVAL_REQUIRED''
                                       else ''AGENT_RUNTIME_FLASH_CONFIRMATION_UNAVAILABLE'')), h)
      | Some approval \<Rightarrow>
      (case fm_root fm of
        None \<Rightarrow> (Inl (Flash_value_error ''AGENT_CAPABILITY_WORKSPACE_UNAVAILABLE''), h)
      | Some rt \<Rightarrow>
      (case issue_grant (fm_mono fm) (fm_fresh fm) (flash_grant_request r rt monitor) (fh_engine h) of
        (Inl e, en) \<Rightarrow> (Inl (Flash_tool e), h\<lparr>fh_engine := en\<rparr>)
      | (Inr g, en) \<Rightarrow> confirm_rest fe fm c lease approval (use_services fm g rt (flash_services monitor) en) h)))"

definition confirm_flash :: "flash_env \<Rightarrow> flash_moment \<Rightarrow> flash_choice \<Rightarrow> flash_host \<Rightarrow> (flash_error + unit) \<times> flash_host" where
  "confirm_flash fe fm c h =
     (let r = fh_run h in
      if fr_status r \<noteq> ''awaiting_flash_confirmation''
      then (Inl (Flash_value_error ''AGENT_RUNTIME_FLASH_CONFIRMATION_NOT_READY''), h)
      else case acquire_lease_tx (fr_session r) (fr_run r) (fe_lease_ttl fe) (fm_now fm) (fh_leases h) of
          Inl e \<Rightarrow> (Inl (Flash_store e), h)
        | Inr (lease, leases) \<Rightarrow>
            (case confirm_body fe fm c lease (h\<lparr>fh_leases := leases\<rparr>) of
               (Inr _, h') \<Rightarrow> (Inr (), h')
             | (Inl e, h') \<Rightarrow>
                 (let h' = h'\<lparr>fh_engine := revoke_run (fr_run r) (fh_engine h')\<rparr> in
                  case release_lease lease (fm_now fm) (fh_leases h') of
                    Inl e' \<Rightarrow> (Inl (Flash_store e'), h')
                  | Inr leases \<Rightarrow> (Inl e, h'\<lparr>fh_leases := leases\<rparr>))))"

section \<open>The upload\<close>

datatype upload_end = Upload_result bool string binding | Upload_raised string | Upload_cancelled | Upload_lease_lost

definition TERMINAL_STATUSES :: "string set" where
  "TERMINAL_STATUSES = {''completed'', ''completed_with_warning'', ''failed'', ''cancelled'', ''blocked'', ''timed_out''}"

definition settle_run :: "string \<Rightarrow> string \<Rightarrow> string \<Rightarrow> flash_host \<Rightarrow> flash_host" where
  "settle_run status class node h = h\<lparr>fh_run := (fh_run h)\<lparr>fr_status := status, fr_class := Some class\<rparr>,
     fh_node := map_option (\<lambda>_. node) (fh_node h)\<rparr>"

definition cancel_node :: "flash_host \<Rightarrow> flash_host" where
  "cancel_node h = h\<lparr>fh_node := (if fh_node h = Some ''running'' then Some ''cancelled'' else fh_node h)\<rparr>"

text \<open>The task of a flash always ends by revoking the run's grants and giving back its lease.\<close>

definition end_task :: "rat \<Rightarrow> lease_grant \<Rightarrow> flash_host \<Rightarrow> flash_host" where
  "end_task now lease h =
     (let h = h\<lparr>fh_engine := revoke_run (fr_run (fh_run h)) (fh_engine h), fh_task := Upload_idle\<rparr> in
      case release_lease lease now (fh_leases h) of Inl e \<Rightarrow> h | Inr leases \<Rightarrow> h\<lparr>fh_leases := leases\<rparr>)"

definition upload_broken :: "rat \<Rightarrow> string \<Rightarrow> flash_host \<Rightarrow> flash_host" where
  "upload_broken now class h =
     settle_run ''failed'' class ''failed'' (h\<lparr>fh_operations := interrupt_operations (fr_run (fh_run h)) now (fh_operations h)\<rparr>)"

definition upload_stopped :: "rat \<Rightarrow> flash_host \<Rightarrow> flash_host" where
  "upload_stopped now h =
     (let h = h\<lparr>fh_operations := interrupt_operations (fr_run (fh_run h)) now (fh_operations h)\<rparr> in
      cancel_node (h\<lparr>fh_run := (fh_run h)\<lparr>fr_status := ''cancelled'', fr_class := Some ''AGENT_RUNTIME_CANCELLED''\<rparr>\<rparr>))"

definition request_of :: "flash_run \<Rightarrow> flash_request" where
  "request_of r = \<lparr>fq_run = fr_run r, fq_project = fr_project r, fq_port = fr_port r, fq_board = fr_board r, fq_environment = fr_environment r, fq_monitor = fr_monitor r,
     fq_hash = approved_artifact_hash r, fq_manifest = build_value r ''artifact_manifest''\<rparr>"

text \<open>The task runs until it has handed the request to the executor.\<close>

definition start_upload :: "flash_env \<Rightarrow> rat \<Rightarrow> flash_host \<Rightarrow> flash_host" where
  "start_upload fe now h =
     (case fh_task h of
        Upload_ready lease op payload \<Rightarrow>
          if fr_cancel (fh_run h) then end_task now lease (upload_stopped now h)
          else (case record_operation (fe_codec fe) op (fr_run (fh_run h)) ''hardware.flash'' ''started'' (dict_of payload) now
                       (fh_operations h) of
                  Inl e \<Rightarrow> end_task now lease (upload_broken now ''ValueError'' h)
                | Inr ops \<Rightarrow> h\<lparr>fh_operations := ops, fh_task := Upload_sent lease op payload,
                    fh_sent := (op, payload, request_of (fh_run h)) # fh_sent h\<rparr>)
      | _ \<Rightarrow> h)"

definition finish_upload :: "flash_env \<Rightarrow> rat \<Rightarrow> upload_end \<Rightarrow> flash_host \<Rightarrow> flash_host" where
  "finish_upload fe now ending h =
     (case fh_task h of
        Upload_sent lease op payload \<Rightarrow>
          end_task now lease
            (case ending of
               Upload_result ok class build \<Rightarrow>
                 (let h = h\<lparr>fh_run := (fh_run h)\<lparr>fr_build := fr_build (fh_run h) @ build\<rparr>\<rparr> in
                  case record_operation (fe_codec fe) op (fr_run (fh_run h)) ''hardware.flash''
                         (if ok then ''completed'' else ''unknown'') (dict_of payload) now (fh_operations h) of
                    Inl e \<Rightarrow> upload_broken now ''ValueError'' h
                  | Inr ops \<Rightarrow>
                      (let h = h\<lparr>fh_operations := ops\<rparr> in
                       if ok then settle_run ''completed'' (if class = [] then ''FLASH_COMPLETED'' else class) ''completed'' h
                       else settle_run ''failed'' (if class = [] then ''FLASH_FAILED'' else class) ''failed'' h))
             | Upload_raised class \<Rightarrow> upload_broken now class h
             | Upload_cancelled \<Rightarrow> upload_stopped now h
             | Upload_lease_lost \<Rightarrow>
                 (let h = upload_stopped now (h\<lparr>fh_engine := fence_run (fr_run (fh_run h)) (fh_engine h),
                        fh_run := (fh_run h)\<lparr>fr_cancel := True\<rparr>\<rparr>) in
                  h\<lparr>fh_run := (fh_run h)\<lparr>fr_status := ''blocked'', fr_class := Some ''AGENT_RECOVERY_OUTCOME_UNKNOWN''\<rparr>\<rparr>))
      | _ \<Rightarrow> h)"

text \<open>Cancelling fences the run, lets the task end (with the given outcome, when the request is out) and settles the run.\<close>

definition cancel_run :: "flash_env \<Rightarrow> rat \<Rightarrow> upload_end \<Rightarrow> bool \<Rightarrow> flash_host \<Rightarrow> flash_host" where
  "cancel_run fe now ending cleanup_failed h =
     (if fr_status (fh_run h) \<in> TERMINAL_STATUSES then h
      else let r = fh_run h;
               h = h\<lparr>fh_run := r\<lparr>fr_status := ''cancelling'', fr_cancel := True\<rparr>, fh_engine := fence_run (fr_run r) (fh_engine h)\<rparr>;
               h = finish_upload fe now ending (start_upload fe now h);
               h = h\<lparr>fh_operations := interrupt_operations (fr_run r) now (fh_operations h)\<rparr>;
               uncertain = (cleanup_failed \<or> (\<exists>row \<in> ran (fh_operations h). opr_run row = fr_run r \<and> opr_status row = ''unknown'')) in
        cancel_node (h\<lparr>fh_run := (fh_run h)\<lparr>fr_status := (if uncertain then ''blocked'' else ''cancelled''),
          fr_class := Some (if uncertain then ''AGENT_RECOVERY_OUTCOME_UNKNOWN'' else ''AGENT_RUNTIME_CANCELLED'')\<rparr>\<rparr>))"

text \<open>The end of a workflow that was to build and then ask for a flash, and of one that only builds.\<close>

definition workflow_built :: "flash_env \<Rightarrow> flash_moment \<Rightarrow> bool \<Rightarrow> binding \<Rightarrow> flash_host \<Rightarrow> flash_host" where
  "workflow_built fe fm then_flash build h =
     (let h = h\<lparr>fh_run := (fh_run h)\<lparr>fr_build := build\<rparr>\<rparr> in
      if then_flash
      then (if approved_artifact_hash (fh_run h) = None \<or> \<not> py_true (build_value (fh_run h) ''artifact_manifest'')
            then settle_run ''failed'' ''BUILD_ARTIFACT_DIGEST_UNAVAILABLE'' ''failed'' h
            else (case offer_approval fe fm ''Flash the verified build artifact to the selected device once.'' h of
                    (Inr _, h') \<Rightarrow> h'
                  | (Inl e, h') \<Rightarrow> settle_run ''failed'' ''AGENT_RUNTIME_FINALIZATION_FAILED'' ''failed'' h'))
      else settle_run ''completed'' ''AUTONOMOUS_WORKFLOW_COMPLETED'' ''skipped'' h)"

section \<open>Histories\<close>

datatype flash_event =
    Workflow_built flash_moment bool binding
  | Prepare flash_moment flash_choice
  | Confirm flash_moment flash_choice
  | Start_upload rat
  | Finish_upload rat upload_end
  | Cancel_run rat upload_end bool

text \<open>A workflow runs only while the run is active and no upload is under way.\<close>

fun flash_step :: "flash_env \<Rightarrow> flash_event \<Rightarrow> flash_host \<Rightarrow> flash_host" where
  "flash_step fe (Workflow_built fm then_flash build) h =
     (if fr_status (fh_run h) = ''running'' \<and> fh_task h = Upload_idle then workflow_built fe fm then_flash build h else h)"
| "flash_step fe (Prepare fm c) h = snd (prepare_flash fe fm c h)"
| "flash_step fe (Confirm fm c) h = snd (confirm_flash fe fm c h)"
| "flash_step fe (Start_upload now) h = start_upload fe now h"
| "flash_step fe (Finish_upload now ending) h = finish_upload fe now ending h"
| "flash_step fe (Cancel_run now ending failed) h = cancel_run fe now ending failed h"

definition flash_history :: "flash_env \<Rightarrow> flash_event list \<Rightarrow> flash_host \<Rightarrow> flash_host" where
  "flash_history fe evs h = fold (flash_step fe) evs h"

definition fresh_host :: "flash_host \<Rightarrow> bool" where
  "fresh_host h \<longleftrightarrow> fh_approvals h = Map.empty \<and> fh_task h = Upload_idle \<and> fh_sent h = [] \<and> fh_issued h = []"

end
