(* ===== verification/Flash_Props.thy ===== *)
theory Flash_Props
  imports Flash_Control
begin

text \<open>
  Properties of the flash protocol over any history of its events: every upload rests on an approval of its own, a
  refused confirmation changes nothing outside, and a confirmation for another device locks the run.
\<close>

section \<open>What a binding says\<close>

definition binding_names :: "binding \<Rightarrow> flash_request \<Rightarrow> bool" where
  "binding_names b q \<longleftrightarrow>
     py_get (dict_of b) ''run_id'' = VStr (fq_run q) \<and> py_get (dict_of b) ''project_id'' = VStr (fq_project q) \<and>
     py_get (dict_of b) ''port'' = text_val (fq_port q) \<and> py_get (dict_of b) ''board_type'' = text_val (fq_board q) \<and>
     py_get (dict_of b) ''environment'' = text_val (fq_environment q) \<and>
     py_get (dict_of b) ''start_monitor_after_flash'' = VBool (fq_monitor q) \<and>
     (\<exists>art. py_get (dict_of b) ''artifact'' = VDict art \<and> fq_hash q = approved_hash (py_get (dict_of art)) \<and>
        fq_manifest q = py_get (dict_of art) ''artifact_manifest'')"

lemma py_get_filtered:
  assumes "k \<in> set ks"
  shows "py_get (dict_of (filter (\<lambda>(k, v). v \<noteq> VNone) (map (\<lambda>k. (k, f k)) ks))) k = f k"
proof -
  have "map_of (rev (filter (\<lambda>(k, v). v \<noteq> VNone) (map (\<lambda>k. (k, f k)) ks))) k =
      (if k \<in> set ks \<and> f k \<noteq> VNone then Some (f k) else None)"
    by (induction ks) (auto simp: map_add_def)
  then show ?thesis using assms by (simp add: py_get_def dict_of_def)
qed

lemma finalized_form:
  assumes "finalize_hardware_binding cd action b = Inr b'"
  shows "\<exists>digest. b' = b @ [(''binding_version'', VStr ''forgex.hardware-action.v1''), (''operation'', VStr action),
    (''command_digest'', VStr digest)]"
proof (cases "py_get (dict_of b) ''device_identity''")
  case (VDict device)
  then show ?thesis using assms
    unfolding finalize_hardware_binding_def Let_def bind_result_def by (simp split: if_splits sum.splits) blast+
qed (use assms in \<open>simp_all add: finalize_hardware_binding_def bind_result_def split: if_splits sum.splits\<close>)

lemma finalized_fields:
  assumes "finalize_hardware_binding cd action b = Inr b'" "k \<noteq> ''binding_version''" "k \<noteq> ''operation''" "k \<noteq> ''command_digest''"
  shows "py_get (dict_of b') k = py_get (dict_of b) k"
proof -
  obtain digest where "b' = b @ [(''binding_version'', VStr ''forgex.hardware-action.v1''), (''operation'', VStr action),
      (''command_digest'', VStr digest)]"
    using finalized_form [OF assms(1)] by blast
  then show ?thesis using assms(2-4) by (simp add: py_get_def dict_of_def map_add_def)
qed

lemma approved_hash_cong:
  "\<forall>k \<in> {''firmware_hash'', ''artifact_hash'', ''checksum''}. f k = g k \<Longrightarrow> approved_hash f = approved_hash g"
  by (simp add: approved_hash_def)

lemma flash_binding_names:
  assumes "flash_binding cd boards r no_choice revision = Inr b"
  shows "binding_names b (request_of r)"
proof -
  let ?art = "filter (\<lambda>(k, v). v \<noteq> VNone) (map (\<lambda>k. (k, build_value r k)) ARTIFACT_KEYS)"
  let ?b = "[(''run_id'', VStr (fr_run r)), (''project_id'', VStr (fr_project r)), (''port'', text_val (fr_port r)),
         (''board_type'', text_val (fr_board r)), (''device_identity'', VDict (device_identity boards (fr_port r) (fr_board r))),
         (''environment'', text_val (fr_environment r)),
         (''workspace_revision'', if revision \<noteq> [] then VStr revision else build_value r ''workspace_revision''),
         (''artifact'', VDict ?art), (''start_monitor_after_flash'', VBool (fr_monitor r))]"
  have fin: "finalize_hardware_binding cd ''flash'' ?b = Inr b"
    using assms by (simp add: flash_binding_def no_choice_def Let_def)
  have hash: "approved_artifact_hash r = approved_hash (py_get (dict_of ?art))"
    unfolding approved_artifact_hash_def
  proof (rule approved_hash_cong, rule ballI)
    fix k assume "k \<in> {''firmware_hash'', ''artifact_hash'', ''checksum''}"
    then have "k \<in> set ARTIFACT_KEYS" by (auto simp: ARTIFACT_KEYS_def)
    from py_get_filtered [OF this] show "build_value r k = py_get (dict_of ?art) k" by simp
  qed
  have manifest: "build_value r ''artifact_manifest'' = py_get (dict_of ?art) ''artifact_manifest''"
    by (rule py_get_filtered [symmetric]) (simp add: ARTIFACT_KEYS_def)
  have fields: "py_get (dict_of ?b) ''run_id'' = VStr (fr_run r)" "py_get (dict_of ?b) ''project_id'' = VStr (fr_project r)"
    "py_get (dict_of ?b) ''port'' = text_val (fr_port r)" "py_get (dict_of ?b) ''board_type'' = text_val (fr_board r)"
    "py_get (dict_of ?b) ''environment'' = text_val (fr_environment r)"
    "py_get (dict_of ?b) ''start_monitor_after_flash'' = VBool (fr_monitor r)"
    "py_get (dict_of ?b) ''artifact'' = VDict ?art"
    by (simp_all add: py_get_def dict_of_def del: filter.simps list.map)
  show ?thesis using hash manifest fields by (simp add: binding_names_def finalized_fields [OF fin] request_of_def)
qed

lemma or_text_fall: "(case or_text a b of None \<Rightarrow> b | Some p \<Rightarrow> Some p) = or_text a b"
  by (auto simp: or_text_def py_true_opt_def split: option.splits)

lemma flash_binding_proposed:
  "flash_binding cd boards r (proposed r c) revision =
   flash_binding cd boards (r\<lparr>fr_port := fc_port (proposed r c), fr_board := fc_board (proposed r c),
     fr_environment := fc_environment (proposed r c), fr_monitor := (fc_monitor (proposed r c) = Some True),
     fr_status := status\<rparr>) no_choice revision"
  unfolding flash_binding_def proposed_def no_choice_def Let_def build_value_def by (simp add: or_text_fall)

section \<open>Every upload rests on its own approval\<close>

lemma issue_approval_result:
  "issue_approval cd ttl now i run action b summary st = Inr (a, st') \<Longrightarrow>
     st i = None \<and> st' = st(i \<mapsto> a) \<and> apv_fingerprint a = approval_fingerprint cd action b \<and> apv_status a = ''pending''"
  by (auto simp: issue_approval_def save_approval_def Let_def split: if_splits)

lemma consume_action_result:
  "consume_action cd i action b now st = Inr (a, st') \<Longrightarrow>
     \<exists>a0. st i = Some a0 \<and> apv_status a0 = ''pending'' \<and> apv_fingerprint a0 = approval_fingerprint cd action b \<and>
       now < apv_expires a0 \<and> a = a0\<lparr>apv_status := ''consumed'', apv_closed_at := Some now\<rparr> \<and> st' = st(i \<mapsto> a)"
  by (auto simp: consume_action_def consume_approval_def Let_def split: option.splits if_splits)

definition consumed :: "string \<Rightarrow> approvals \<Rightarrow> bool" where
  "consumed i st \<longleftrightarrow> (\<exists>a. st i = Some a \<and> apv_status a = ''consumed'')"

text \<open>A consumed approval \<open>i\<close> whose fingerprint is that of the binding \<open>b\<close>, and of the binding it was issued for.\<close>

definition rests_on :: "codec \<Rightarrow> flash_host \<Rightarrow> string \<Rightarrow> binding \<Rightarrow> bool" where
  "rests_on cd h i b \<longleftrightarrow> consumed i (fh_approvals h) \<and>
     (\<exists>b0. (i, b0) \<in> set (fh_issued h) \<and> approval_fingerprint cd ''flash'' b = approval_fingerprint cd ''flash'' b0)"

definition issued_inv :: "codec \<Rightarrow> flash_host \<Rightarrow> bool" where
  "issued_inv cd h \<longleftrightarrow>
     (\<forall>i a. fh_approvals h i = Some a \<longrightarrow>
        (\<exists>b. (i, b) \<in> set (fh_issued h) \<and> apv_fingerprint a = approval_fingerprint cd ''flash'' b))"

definition sent_inv :: "codec \<Rightarrow> string \<Rightarrow> flash_host \<Rightarrow> bool" where
  "sent_inv cd run h \<longleftrightarrow> distinct (map fst (fh_sent h)) \<and>
     (\<forall>(op, payload, q) \<in> set (fh_sent h). \<exists>i b. op = flash_operation run i \<and> rests_on cd h i b \<and> binding_names b q)"

definition task_inv :: "codec \<Rightarrow> flash_host \<Rightarrow> bool" where
  "task_inv cd h \<longleftrightarrow>
     (case fh_task h of
        Upload_idle \<Rightarrow> True
      | Upload_sent lease op payload \<Rightarrow> fr_status (fh_run h) = ''running''
      | Upload_ready lease op payload \<Rightarrow> fr_status (fh_run h) = ''running'' \<and> op \<notin> fst ` set (fh_sent h) \<and>
          (\<exists>i b. op = flash_operation (fr_run (fh_run h)) i \<and> rests_on cd h i b \<and> binding_names b (request_of (fh_run h))))"

definition flash_inv :: "codec \<Rightarrow> string \<Rightarrow> flash_host \<Rightarrow> bool" where
  "flash_inv cd run h \<longleftrightarrow> fr_run (fh_run h) = run \<and> issued_inv cd h \<and> sent_inv cd run h \<and> task_inv cd h"

lemma flash_operation_inject: "flash_operation run i = flash_operation run j \<longleftrightarrow> i = j"
  by (simp add: flash_operation_def)

text \<open>A step that leaves approvals and sent requests alone keeps the invariant, if it leaves no task behind.\<close>

lemma flash_inv_frame:
  assumes "flash_inv cd run h" "fh_approvals h' = fh_approvals h" "fh_issued h' = fh_issued h" "fh_sent h' = fh_sent h"
    "fr_run (fh_run h') = fr_run (fh_run h)" "fh_task h' = Upload_idle"
  shows "flash_inv cd run h'"
  using assms by (simp add: flash_inv_def issued_inv_def sent_inv_def task_inv_def rests_on_def)

lemma offer_approval_keeps:
  assumes inv: "flash_inv cd run h" and idle: "fh_task h = Upload_idle" and cd: "cd = fe_codec fe"
  shows "flash_inv cd run (snd (offer_approval fe fm summary h))"
proof (cases "fst (offer_approval fe fm summary h)")
  case (Inl e)
  then have "snd (offer_approval fe fm summary h) = h"
    by (auto simp: offer_approval_def Let_def split: option.splits sum.splits prod.splits)
  then show ?thesis using inv by simp
next
  case (Inr u)
  let ?i = "''approval-'' @ fm_fresh fm" and ?h' = "snd (offer_approval fe fm summary h)"
  from Inr obtain b a where *: "issue_approval cd (fe_approval_ttl fe) (fm_now fm) ?i (fr_run (fh_run h)) ''flash'' b summary
      (fh_approvals h) = Inr (a, fh_approvals ?h')"
    and h': "fh_issued ?h' = (?i, b) # fh_issued h" "fh_sent ?h' = fh_sent h" "fh_task ?h' = fh_task h"
      "fr_run (fh_run ?h') = fr_run (fh_run h)"
    by (auto simp: offer_approval_def Let_def cd split: option.splits sum.splits prod.splits)
  note st = issue_approval_result [OF *]
  have rests: "rests_on cd h i b' \<Longrightarrow> rests_on cd ?h' i b'" for i b'
    using st by (auto simp: rests_on_def consumed_def h')
  have "issued_inv cd ?h'" using inv st by (auto simp: flash_inv_def issued_inv_def h')
  moreover have "sent_inv cd run ?h'" using inv rests unfolding flash_inv_def sent_inv_def h' by fast
  ultimately show ?thesis using inv idle by (simp add: flash_inv_def task_inv_def h')
qed

text \<open>Operations are never forgotten, and keep their fingerprint.\<close>

definition rows_kept :: "flash_host \<Rightarrow> flash_host \<Rightarrow> bool" where
  "rows_kept h h' \<longleftrightarrow> (\<forall>j row. fh_operations h j = Some row \<longrightarrow>
     (\<exists>row'. fh_operations h' j = Some row' \<and> opr_fingerprint row' = opr_fingerprint row))"

lemma rows_kept_refl: "fh_operations h' = fh_operations h \<Longrightarrow> rows_kept h h'"
  by (simp add: rows_kept_def)

lemma recorded_operation:
  assumes "record_operation cd j run kind status payload now st = Inr st'"
  shows "\<exists>row'. st' j = Some row' \<and> opr_fingerprint row' = sha256 cd (json_dict cd payload)"
    "st i = Some row \<Longrightarrow> \<exists>row'. st' i = Some row' \<and> opr_fingerprint row' = opr_fingerprint row"
    "st j = Some row \<Longrightarrow> opr_fingerprint row = sha256 cd (json_dict cd payload)"
  using assms by (auto simp: record_operation_def Let_def split: option.splits if_splits)

text \<open>The parts of the host that a refused confirmation must not touch.\<close>

definition same_effects :: "flash_host \<Rightarrow> flash_host \<Rightarrow> bool" where
  "same_effects h h' \<longleftrightarrow> fh_approvals h' = fh_approvals h \<and> fh_issued h' = fh_issued h \<and> fh_sent h' = fh_sent h \<and>
     fh_run h' = fh_run h \<and> fh_task h' = fh_task h \<and> fh_node h' = fh_node h \<and> fh_leases h' = fh_leases h \<and> rows_kept h h'"

text \<open>What it means that the approval of a run was used.\<close>

definition approval_used :: "flash_env \<Rightarrow> flash_moment \<Rightarrow> flash_choice \<Rightarrow> flash_host \<Rightarrow> flash_host \<Rightarrow> string \<Rightarrow> bool" where
  "approval_used fe fm c h h' approval \<longleftrightarrow> fr_approval (fh_run h) = Some approval \<and>
     (\<exists>b a. flash_binding (fe_codec fe) (fm_again fm) (fh_run h) (proposed (fh_run h) c) (fm_revision fm) = Inr b \<and>
        consume_action (fe_codec fe) approval ''flash'' b (fm_now fm) (fh_approvals h) = Inr (a, fh_approvals h')) \<and>
     (\<exists>b. flash_binding (fe_codec fe) (fm_boards fm) (fh_run h) (proposed (fh_run h) c) (fm_revision fm) = Inr b \<and>
        (\<forall>row. fh_operations h (flash_operation (fr_run (fh_run h)) approval) = Some row \<longrightarrow>
           opr_fingerprint row = sha256 (fe_codec fe) (json_dict (fe_codec fe) (dict_of b)))) \<and>
     fh_issued h' = fh_issued h \<and> fh_sent h' = fh_sent h \<and> fh_run h' = confirmed_run (fh_run h) c \<and> fh_leases h' = fh_leases h"

lemma confirm_rest_result:
  assumes "confirm_rest fe fm c lease approval used h = (res, h')" "fr_approval (fh_run h) = Some approval"
  shows "(\<exists>e. res = Inl e \<and> same_effects h h') \<or>
    (\<exists>approval. approval_used fe fm c h h' approval \<and>
       ((res = Inl (Flash_store (Store_key_error ''flash'')) \<and> fh_node h = None \<and> fh_task h' = fh_task h) \<or>
        (res = Inr () \<and> (\<exists>payload. fh_task h' = Upload_ready lease (flash_operation (fr_run (fh_run h)) approval) payload))))"
proof -
  let ?r = "fh_run h" and ?cd = "fe_codec fe" and ?op = "flash_operation (fr_run (fh_run h)) approval"
  obtain us en where used: "used = (us, en)" by fastforce
  note unf = confirm_rest_def Let_def used same_effects_def rows_kept_def
  show ?thesis
  proof (cases us)
    case (Inl e)
    then show ?thesis using assms(1) by (auto simp: unf)
  next
    case us: (Inr u)
    show ?thesis
    proof (cases "flash_binding ?cd (fm_boards fm) ?r (proposed ?r c) (fm_revision fm)")
      case (Inl e)
      then show ?thesis using assms(1) us by (auto simp: unf)
    next
      case payload: (Inr payload)
      show ?thesis
      proof (cases "record_operation ?cd ?op (fr_run ?r) ''hardware.flash'' ''prepared'' (dict_of payload) (fm_now fm) (fh_operations h)")
        case (Inl e)
        then show ?thesis using assms(1) us payload by (auto simp: unf)
      next
        case ops: (Inr ops)
        show ?thesis
        proof (cases "flash_binding ?cd (fm_again fm) ?r (proposed ?r c) (fm_revision fm)")
          case (Inl e)
          then show ?thesis using assms(1) us payload ops recorded_operation(2) [OF ops] by (auto simp: unf)
        next
          case b: (Inr b)
          show ?thesis
          proof (cases "consume_action ?cd approval ''flash'' b (fm_now fm) (fh_approvals h)")
            case (Inl e)
            then show ?thesis using assms(1) us payload ops b recorded_operation(2) [OF ops] by (auto simp: unf)
          next
            case used_up: (Inr x)
            obtain a st where x: "x = (a, st)" by fastforce
            show ?thesis
              using assms us payload ops b used_up x recorded_operation(3) [OF ops]
              by (cases "fh_node h") (auto simp: unf approval_used_def)
          qed
        qed
      qed
    qed
  qed
qed

lemma confirm_body_result:
  assumes "confirm_body fe fm c lease h = (res, h')"
  shows "(\<exists>e. res = Inl e \<and> same_effects h h') \<or>
    (\<exists>approval. approval_used fe fm c h h' approval \<and>
       ((res = Inl (Flash_store (Store_key_error ''flash'')) \<and> fh_node h = None \<and> fh_task h' = fh_task h) \<or>
        (res = Inr () \<and> (\<exists>payload. fh_task h' = Upload_ready lease (flash_operation (fr_run (fh_run h)) approval) payload))))"
proof (cases "if fe_executor fe then fr_approval (fh_run h) else None")
  case None
  then show ?thesis using assms by (auto simp: confirm_body_def Let_def same_effects_def rows_kept_def)
next
  case (Some approval)
  note app = this
  then have run_app: "fr_approval (fh_run h) = Some approval" by (simp split: if_splits)
  show ?thesis
  proof (cases "fm_root fm")
    case None
    then show ?thesis using assms app by (auto simp: confirm_body_def Let_def same_effects_def rows_kept_def)
  next
    case (Some rt)
    let ?p = "proposed (fh_run h) c" and ?m = "fc_monitor (proposed (fh_run h) c) = Some True"
    obtain gr en where gr: "issue_grant (fm_mono fm) (fm_fresh fm) (flash_grant_request (fh_run h) rt ?m) (fh_engine h) = (gr, en)"
      by fastforce
    show ?thesis
    proof (cases gr)
      case (Inl e)
      then show ?thesis using assms app Some gr by (auto simp: confirm_body_def Let_def same_effects_def rows_kept_def)
    next
      case (Inr g)
      obtain us en2 where us: "use_services fm g rt (flash_services ?m) en = (us, en2)" by fastforce
      let ?op = "flash_operation (fr_run (fh_run h)) approval" and ?cd = "fe_codec fe"
      have "confirm_body fe fm c lease h = confirm_rest fe fm c lease approval (us, en2) h"
        using app Some gr Inr us by (simp add: confirm_body_def Let_def)
      then show ?thesis using confirm_rest_result [OF _ run_app] assms by metis
    qed
  qed
qed

lemma flash_inv_same:
  assumes "flash_inv cd run h" "fh_approvals h' = fh_approvals h" "fh_issued h' = fh_issued h" "fh_sent h' = fh_sent h"
    "fh_run h' = fh_run h" "fh_task h' = fh_task h"
  shows "flash_inv cd run h'"
proof -
  have rests: "rests_on cd h' = rests_on cd h" using assms by (intro ext) (simp add: rests_on_def)
  show ?thesis using assms(1) unfolding flash_inv_def issued_inv_def sent_inv_def task_inv_def assms(2-6) rests .
qed

lemma task_idle: "flash_inv cd run h \<Longrightarrow> fr_status (fh_run h) \<noteq> ''running'' \<Longrightarrow> fh_task h = Upload_idle"
  by (auto simp: flash_inv_def task_inv_def split: upload_task.splits)

lemma prepare_flash_result:
  "snd (prepare_flash fe fm c h) = h \<or> (fr_status (fh_run h) = ''completed'' \<and> prepare_flash fe fm c h =
     offer_approval fe fm ''Flash the latest verified firmware artifact to the selected device once.'' (chosen_device c h))"
  unfolding prepare_flash_def Let_def by (simp split: if_splits)

lemma prepare_flash_keeps:
  assumes inv: "flash_inv (fe_codec fe) run h"
  shows "flash_inv (fe_codec fe) run (snd (prepare_flash fe fm c h))"
  using prepare_flash_result [of fe fm c h]
proof (elim disjE conjE)
  assume "fr_status (fh_run h) = ''completed''" and p: "prepare_flash fe fm c h =
     offer_approval fe fm ''Flash the latest verified firmware artifact to the selected device once.'' (chosen_device c h)"
  then have idle: "fh_task h = Upload_idle" using task_idle [OF inv] by simp
  have "flash_inv (fe_codec fe) run (chosen_device c h)"
    by (rule flash_inv_frame [OF inv]) (simp_all add: chosen_device_def Let_def idle)
  from offer_approval_keeps [OF this] show ?thesis by (simp add: p idle chosen_device_def Let_def)
qed (simp add: inv)

definition task_after :: "flash_host \<Rightarrow> flash_host \<Rightarrow> lease_grant \<Rightarrow> string \<Rightarrow> bool" where
  "task_after h h' lease approval \<longleftrightarrow> fh_task h' = fh_task h \<or>
     (\<exists>payload. fh_task h' = Upload_ready lease (flash_operation (fr_run (fh_run h)) approval) payload)"

lemma confirm_flash_result:
  "(\<exists>e. fst (confirm_flash fe fm c h) = Inl e \<and> fh_approvals (snd (confirm_flash fe fm c h)) = fh_approvals h \<and>
      fh_issued (snd (confirm_flash fe fm c h)) = fh_issued h \<and> fh_sent (snd (confirm_flash fe fm c h)) = fh_sent h \<and>
      fh_run (snd (confirm_flash fe fm c h)) = fh_run h \<and> fh_task (snd (confirm_flash fe fm c h)) = fh_task h \<and>
      rows_kept h (snd (confirm_flash fe fm c h))) \<or>
   (\<exists>approval lease h1 lv. fr_status (fh_run h) = ''awaiting_flash_confirmation'' \<and>
      approval_used fe fm c (h\<lparr>fh_leases := lv\<rparr>) h1 approval \<and>
      fh_approvals (snd (confirm_flash fe fm c h)) = fh_approvals h1 \<and> fh_issued (snd (confirm_flash fe fm c h)) = fh_issued h1 \<and>
      fh_sent (snd (confirm_flash fe fm c h)) = fh_sent h1 \<and> fh_run (snd (confirm_flash fe fm c h)) = fh_run h1 \<and>
      task_after h (snd (confirm_flash fe fm c h)) lease approval)"
proof (cases "fr_status (fh_run h) = ''awaiting_flash_confirmation''")
  case False
  then show ?thesis by (simp add: confirm_flash_def rows_kept_refl)
next
  case waiting: True
  let ?acq = "acquire_lease_tx (fr_session (fh_run h)) (fr_run (fh_run h)) (fe_lease_ttl fe) (fm_now fm) (fh_leases h)"
  show ?thesis
  proof (cases ?acq)
    case (Inl e)
    then show ?thesis by (simp add: confirm_flash_def waiting rows_kept_refl)
  next
    case (Inr x)
    obtain lease lv where x: "?acq = Inr (lease, lv)" using Inr by (cases x) auto
    obtain res h1 where b: "confirm_body fe fm c lease (h\<lparr>fh_leases := lv\<rparr>) = (res, h1)" by fastforce
    define h2 where "h2 = snd (confirm_flash fe fm c h)"
    have keep: "fh_approvals h2 = fh_approvals h1" "fh_issued h2 = fh_issued h1" "fh_sent h2 = fh_sent h1"
        "fh_run h2 = fh_run h1" "fh_task h2 = fh_task h1" "fh_operations h2 = fh_operations h1" "\<And>e. res = Inl e \<Longrightarrow> \<exists>e. fst (confirm_flash fe fm c h) = Inl e"
      by (auto simp: h2_def confirm_flash_def waiting x b Let_def split: sum.splits)
    from confirm_body_result [OF b] show ?thesis
    proof (elim disjE exE conjE)
      fix e assume "res = Inl e" "same_effects (h\<lparr>fh_leases := lv\<rparr>) h1"
      then show ?thesis using keep unfolding h2_def same_effects_def rows_kept_def by simp
    next
      fix approval assume "approval_used fe fm c (h\<lparr>fh_leases := lv\<rparr>) h1 approval" "fh_task h1 = fh_task (h\<lparr>fh_leases := lv\<rparr>)"
      then show ?thesis using keep(1-5) waiting unfolding h2_def
        by (intro disjI2 exI [of _ approval] exI [of _ lease] exI [of _ h1] exI [of _ lv]) (simp add: task_after_def)
    next
      fix approval payload assume "approval_used fe fm c (h\<lparr>fh_leases := lv\<rparr>) h1 approval"
        "fh_task h1 = Upload_ready lease (flash_operation (fr_run (fh_run (h\<lparr>fh_leases := lv\<rparr>))) approval) payload"
      then show ?thesis using keep(1-5) waiting unfolding h2_def
        by (intro disjI2 exI [of _ approval] exI [of _ lease] exI [of _ h1] exI [of _ lv]) (simp add: task_after_def)
    qed
  qed
qed

lemma confirm_flash_keeps:
  assumes inv: "flash_inv (fe_codec fe) run h"
  shows "flash_inv (fe_codec fe) run (snd (confirm_flash fe fm c h))"
  using confirm_flash_result [of fe fm c h]
proof (elim disjE exE conjE)
  assume "fh_approvals (snd (confirm_flash fe fm c h)) = fh_approvals h" "fh_issued (snd (confirm_flash fe fm c h)) = fh_issued h"
    "fh_sent (snd (confirm_flash fe fm c h)) = fh_sent h" "fh_run (snd (confirm_flash fe fm c h)) = fh_run h"
    "fh_task (snd (confirm_flash fe fm c h)) = fh_task h"
  from flash_inv_same [OF inv this] show ?thesis .
next
  fix approval lease h1 lv
  assume waiting: "fr_status (fh_run h) = ''awaiting_flash_confirmation''"
    and used: "approval_used fe fm c (h\<lparr>fh_leases := lv\<rparr>) h1 approval"
    and h2: "fh_approvals (snd (confirm_flash fe fm c h)) = fh_approvals h1" "fh_issued (snd (confirm_flash fe fm c h)) = fh_issued h1"
      "fh_sent (snd (confirm_flash fe fm c h)) = fh_sent h1" "fh_run (snd (confirm_flash fe fm c h)) = fh_run h1"
      "task_after h (snd (confirm_flash fe fm c h)) lease approval"
  let ?h' = "snd (confirm_flash fe fm c h)" and ?cd = "fe_codec fe" and ?r = "confirmed_run (fh_run h) c"
  obtain b a where b: "flash_binding ?cd (fm_again fm) (fh_run h) (proposed (fh_run h) c) (fm_revision fm) = Inr b"
    and use: "consume_action ?cd approval ''flash'' b (fm_now fm) (fh_approvals h) = Inr (a, fh_approvals ?h')"
    and same: "fh_issued ?h' = fh_issued h" "fh_sent ?h' = fh_sent h" "fh_run ?h' = ?r"
    using used h2(1-4) by (auto simp: approval_used_def)
  obtain a0 where a0: "fh_approvals h approval = Some a0" "apv_status a0 = ''pending''"
      "apv_fingerprint a0 = approval_fingerprint ?cd ''flash'' b"
    and st: "a = a0\<lparr>apv_status := ''consumed'', apv_closed_at := Some (fm_now fm)\<rparr>"
      "fh_approvals ?h' = (fh_approvals h)(approval \<mapsto> a)"
    using consume_action_result [OF use] by blast
  have issued: "issued_inv ?cd ?h'"
    using inv a0(1) unfolding flash_inv_def issued_inv_def same st by (auto simp: split: if_splits)
  obtain b0 where b0: "(approval, b0) \<in> set (fh_issued h)" "apv_fingerprint a0 = approval_fingerprint ?cd ''flash'' b0"
    using inv a0(1) by (auto simp: flash_inv_def issued_inv_def)
  have mono: "rests_on ?cd h i b' \<Longrightarrow> rests_on ?cd ?h' i b'" for i b'
    by (auto simp: rests_on_def consumed_def same st)
  have own: "rests_on ?cd ?h' approval b"
    using b0 a0(3) by (auto simp: rests_on_def consumed_def same st)
  have names: "binding_names b (request_of ?r)"
    using flash_binding_names flash_binding_proposed b unfolding confirmed_run_def by metis
  have sent: "sent_inv ?cd run ?h'" using inv mono unfolding flash_inv_def sent_inv_def same by fast
  have new: "flash_operation run approval \<notin> fst ` set (fh_sent h)"
    using inv a0(1,2) by (fastforce simp: flash_inv_def sent_inv_def rests_on_def consumed_def flash_operation_inject)
  have run: "fr_run ?r = run" "fr_status ?r = ''running''" "fr_run (fh_run h) = run"
    using inv by (simp_all add: confirmed_run_def flash_inv_def)
  have idle: "fh_task h = Upload_idle" using task_idle [OF inv] waiting by simp
  from h2(5) [unfolded task_after_def] have "task_inv ?cd ?h'"
  proof
    assume "fh_task ?h' = fh_task h"
    then show ?thesis by (simp add: task_inv_def idle)
  next
    assume "\<exists>payload. fh_task ?h' = Upload_ready lease (flash_operation (fr_run (fh_run h)) approval) payload"
    then obtain payload where "fh_task ?h' = Upload_ready lease (flash_operation run approval) payload" using run by auto
    then show ?thesis using own names new run unfolding task_inv_def same by auto
  qed
  then show ?thesis using issued sent run by (simp add: flash_inv_def same)
qed

text \<open>What the two halves of the upload task leave alone.\<close>

definition same_record :: "flash_host \<Rightarrow> flash_host \<Rightarrow> bool" where
  "same_record h h' \<longleftrightarrow> fh_approvals h' = fh_approvals h \<and> fh_issued h' = fh_issued h \<and> fh_sent h' = fh_sent h \<and>
     fr_run (fh_run h') = fr_run (fh_run h)"

lemma end_task_record: "same_record h (end_task now lease h)" "fh_task (end_task now lease h) = Upload_idle"
  by (simp_all add: same_record_def end_task_def Let_def split: sum.split)

lemma upload_record: "same_record h (upload_stopped now h)" "same_record h (upload_broken now cls h)"
  by (simp_all add: same_record_def upload_stopped_def upload_broken_def settle_run_def cancel_node_def Let_def)

lemma same_record_trans: "same_record h h1 \<Longrightarrow> same_record h1 h2 \<Longrightarrow> same_record h h2"
  by (simp add: same_record_def)

lemma finish_upload_record:
  "same_record h (finish_upload fe now ending h)"
  "\<not> (\<exists>l op p. fh_task h = Upload_ready l op p) \<Longrightarrow> fh_task (finish_upload fe now ending h) = Upload_idle"
proof -
  have "same_record h (finish_upload fe now ending h) \<and>
      (\<not> (\<exists>l op p. fh_task h = Upload_ready l op p) \<longrightarrow> fh_task (finish_upload fe now ending h) = Upload_idle)"
  proof (cases "fh_task h")
    case (Upload_sent lease op payload)
    show ?thesis
    proof (cases ending)
      case (Upload_result ok cls build)
      let ?h = "h\<lparr>fh_run := (fh_run h)\<lparr>fr_build := fr_build (fh_run h) @ build\<rparr>\<rparr>"
      obtain h1 where h1: "finish_upload fe now ending h = end_task now lease h1" "same_record ?h h1"
      proof (cases "record_operation (fe_codec fe) op (fr_run (fh_run h)) ''hardware.flash''
          (if ok then ''completed'' else ''unknown'') (dict_of payload) now (fh_operations h)")
        case (Inl e)
        then show ?thesis using that upload_record(2) [of ?h now "''ValueError''"]
          by (simp add: finish_upload_def Upload_sent Upload_result)
      next
        case (Inr ops)
        then show ?thesis using that
          by (cases ok) (simp_all add: finish_upload_def Upload_sent Upload_result settle_run_def same_record_def Let_def)
      qed
      then show ?thesis using same_record_trans [OF h1(2) end_task_record(1)]
        by (simp add: end_task_record same_record_def)
    next
      case (Upload_raised cls)
      then show ?thesis
        using same_record_trans [OF upload_record(2) end_task_record(1)]
        by (simp add: finish_upload_def Upload_sent end_task_record)
    next
      case Upload_cancelled
      then show ?thesis
        using same_record_trans [OF upload_record(1) end_task_record(1)]
        by (simp add: finish_upload_def Upload_sent end_task_record)
    next
      case Upload_lease_lost
      have "same_record h (finish_upload fe now ending h)"
        unfolding finish_upload_def Upload_sent Upload_lease_lost
        by (simp add: Let_def, rule same_record_trans [OF _ end_task_record(1)])
           (simp add: same_record_def upload_stopped_def cancel_node_def Let_def)
      then show ?thesis by (simp add: finish_upload_def Upload_sent end_task_record)
    qed
  qed (simp_all add: finish_upload_def same_record_def)
  then show "same_record h (finish_upload fe now ending h)"
    "\<not> (\<exists>l op p. fh_task h = Upload_ready l op p) \<Longrightarrow> fh_task (finish_upload fe now ending h) = Upload_idle" by simp_all
qed

lemma start_upload_cases:
  obtains (ended) "same_record h (start_upload fe now h)" "fh_task (start_upload fe now h) = Upload_idle"
  | (waiting) "start_upload fe now h = h" "\<not> (\<exists>l op p. fh_task h = Upload_ready l op p)"
  | (sent) lease op payload where "\<not> fr_cancel (fh_run h)" "fh_task h = Upload_ready lease op payload"
      "fh_approvals (start_upload fe now h) = fh_approvals h" "fh_issued (start_upload fe now h) = fh_issued h"
      "fh_run (start_upload fe now h) = fh_run h" "fh_task (start_upload fe now h) = Upload_sent lease op payload"
      "fh_sent (start_upload fe now h) = (op, payload, request_of (fh_run h)) # fh_sent h"
proof (cases "fh_task h")
  case (Upload_ready lease op payload)
  show ?thesis
  proof (cases "fr_cancel (fh_run h)")
    case True
    then show ?thesis
      using ended same_record_trans [OF upload_record(1) end_task_record(1)]
      by (simp add: start_upload_def Upload_ready end_task_record)
  next
    case False
    show ?thesis
    proof (cases "record_operation (fe_codec fe) op (fr_run (fh_run h)) ''hardware.flash'' ''started'' (dict_of payload) now (fh_operations h)")
      case (Inl e)
      then show ?thesis
        using ended False same_record_trans [OF upload_record(2) end_task_record(1)]
        by (simp add: start_upload_def Upload_ready end_task_record)
    next
      case (Inr ops)
      then show ?thesis using sent False Upload_ready by (simp add: start_upload_def)
    qed
  qed
qed (use waiting in \<open>simp_all add: start_upload_def\<close>)

lemma flash_inv_record:
  assumes "flash_inv cd run h" "same_record h h'" "fh_task h' = Upload_idle"
  shows "flash_inv cd run h'"
  using assms flash_inv_frame by (auto simp: same_record_def)

lemma start_upload_keeps:
  assumes inv: "flash_inv cd run h"
  shows "flash_inv cd run (start_upload fe now h)"
proof (cases rule: start_upload_cases [of h fe now])
  case ended
  then show ?thesis using flash_inv_record [OF inv] by blast
next
  case waiting
  then show ?thesis using inv by simp
next
  case (sent lease op payload)
  let ?h' = "start_upload fe now h"
  have rests: "rests_on cd ?h' i b = rests_on cd h i b" for i b by (simp add: rests_on_def sent)
  obtain i b where i: "op = flash_operation run i" "rests_on cd h i b" "binding_names b (request_of (fh_run h))"
      and new: "op \<notin> fst ` set (fh_sent h)" and status: "fr_status (fh_run h) = ''running''"
    using inv sent(2) by (auto simp: flash_inv_def task_inv_def)
  have old: "distinct (map fst (fh_sent h))" "\<forall>(op, payload, q) \<in> set (fh_sent h). \<exists>i b. op = flash_operation run i \<and> rests_on cd h i b \<and> binding_names b q"
    using inv unfolding flash_inv_def sent_inv_def by blast+
  have "sent_inv cd run ?h'"
    unfolding sent_inv_def sent(7) rests using old i new by auto
  moreover have "issued_inv cd ?h'" using inv by (simp add: flash_inv_def issued_inv_def sent)
  ultimately show ?thesis using inv status by (simp add: flash_inv_def task_inv_def sent)
qed

lemma finish_upload_keeps:
  assumes inv: "flash_inv cd run h"
  shows "flash_inv cd run (finish_upload fe now ending h)"
proof (cases "\<exists>l op p. fh_task h = Upload_ready l op p")
  case True
  then have "finish_upload fe now ending h = h" by (auto simp: finish_upload_def)
  then show ?thesis using inv by simp
qed (use flash_inv_record [OF inv finish_upload_record(1)] finish_upload_record(2) in blast)

lemma cancel_run_keeps:
  assumes inv: "flash_inv cd run h"
  shows "flash_inv cd run (cancel_run fe now ending failed h)"
proof (cases "fr_status (fh_run h) \<in> TERMINAL_STATUSES")
  case True
  then show ?thesis using inv by (simp add: cancel_run_def)
next
  case False
  let ?r = "fh_run h"
  let ?h1 = "h\<lparr>fh_run := ?r\<lparr>fr_status := ''cancelling'', fr_cancel := True\<rparr>, fh_engine := fence_run (fr_run ?r) (fh_engine h)\<rparr>"
  let ?h2 = "start_upload fe now ?h1"
  have "same_record ?h1 ?h2 \<and> \<not> (\<exists>l op p. fh_task ?h2 = Upload_ready l op p)"
    by (cases rule: start_upload_cases [of ?h1 fe now]) (simp_all add: same_record_def)
  then have fin: "same_record h (finish_upload fe now ending ?h2)" "fh_task (finish_upload fe now ending ?h2) = Upload_idle"
    using finish_upload_record [of ?h2 fe now ending] by (auto simp: same_record_def)
  have "same_record h (cancel_run fe now ending failed h) \<and> fh_task (cancel_run fe now ending failed h) = Upload_idle"
    using False fin by (simp add: cancel_run_def Let_def cancel_node_def same_record_def)
  then show ?thesis using flash_inv_record [OF inv] by blast
qed

lemma workflow_built_keeps:
  assumes inv: "flash_inv (fe_codec fe) run h" and idle: "fh_task h = Upload_idle"
  shows "flash_inv (fe_codec fe) run (workflow_built fe fm then_flash build h)"
proof -
  let ?h = "h\<lparr>fh_run := (fh_run h)\<lparr>fr_build := build\<rparr>\<rparr>"
    and ?msg = "''Flash the verified build artifact to the selected device once.''"
  have built: "flash_inv (fe_codec fe) run ?h" by (rule flash_inv_frame [OF inv]) (simp_all add: idle)
  have settle: "flash_inv (fe_codec fe) run h1 \<Longrightarrow> fh_task h1 = Upload_idle \<Longrightarrow> flash_inv (fe_codec fe) run (settle_run st cls nd h1)" for h1 st cls nd
    by (erule flash_inv_frame) (simp_all add: settle_run_def)
  have offer: "flash_inv (fe_codec fe) run (snd (offer_approval fe fm ?msg ?h))"
    using offer_approval_keeps [OF built] idle by simp
  have task: "fh_task (snd (offer_approval fe fm ?msg ?h)) = Upload_idle"
    using idle by (auto simp: offer_approval_def Let_def split: option.split sum.split)
  show ?thesis
    using settle [OF built] settle [OF offer task] offer idle
    by (auto simp: workflow_built_def Let_def split: prod.split sum.split)
qed

lemma flash_step_keeps: "flash_inv (fe_codec fe) run h \<Longrightarrow> flash_inv (fe_codec fe) run (flash_step fe ev h)"
  by (cases ev) (simp_all add: workflow_built_keeps prepare_flash_keeps confirm_flash_keeps start_upload_keeps
    finish_upload_keeps cancel_run_keeps)

lemma flash_history_keeps: "flash_inv (fe_codec fe) run h \<Longrightarrow> flash_inv (fe_codec fe) run (flash_history fe evs h)"
  unfolding flash_history_def by (induction evs arbitrary: h) (simp_all add: flash_step_keeps)

text \<open>C10. Firmware is uploaded only on approval, and at most once per approval: over any history of workflows, preparations,
  confirmations, uploads and cancellations, every request handed to the flash executor carries its own, consumed approval;
  the fingerprint of a binding that names exactly the run, project, port, board, environment, monitor setting, firmware hash and
  artifact manifest of the request equals the fingerprint of the binding the approval was issued for.\<close>

theorem flash_needs_approval:
  assumes "fresh_host h0" "h = flash_history fe evs h0"
  shows "distinct (map fst (fh_sent h)) \<and>
    (\<forall>(op, payload, q) \<in> set (fh_sent h). \<exists>i a b b0.
       op = flash_operation (fr_run (fh_run h0)) i \<and> fh_approvals h i = Some a \<and> apv_status a = ''consumed'' \<and>
       (i, b0) \<in> set (fh_issued h) \<and> binding_names b q \<and>
       approval_fingerprint (fe_codec fe) ''flash'' b = approval_fingerprint (fe_codec fe) ''flash'' b0)"
proof -
  have "flash_inv (fe_codec fe) (fr_run (fh_run h0)) h0"
    using assms(1) by (simp add: fresh_host_def flash_inv_def issued_inv_def sent_inv_def task_inv_def)
  from flash_history_keeps [OF this] have "sent_inv (fe_codec fe) (fr_run (fh_run h0)) h"
    by (simp add: flash_inv_def assms(2))
  then show ?thesis by (fastforce simp: sent_inv_def rests_on_def consumed_def)
qed

section \<open>Refused confirmations\<close>

lemma confirm_flash_error:
  assumes "fst (confirm_flash fe fm c h) = Inl e" "fh_node h \<noteq> None"
  shows "fh_approvals (snd (confirm_flash fe fm c h)) = fh_approvals h \<and> fh_sent (snd (confirm_flash fe fm c h)) = fh_sent h \<and>
    fh_run (snd (confirm_flash fe fm c h)) = fh_run h \<and> fh_task (snd (confirm_flash fe fm c h)) = fh_task h"
proof (cases "fr_status (fh_run h) = ''awaiting_flash_confirmation''")
  case False
  then show ?thesis by (simp add: confirm_flash_def)
next
  case waiting: True
  show ?thesis
  proof (cases "acquire_lease_tx (fr_session (fh_run h)) (fr_run (fh_run h)) (fe_lease_ttl fe) (fm_now fm) (fh_leases h)")
    case (Inl e)
    then show ?thesis by (simp add: confirm_flash_def waiting)
  next
    case (Inr x)
    obtain lease lv where x: "x = (lease, lv)" by (cases x) auto
    obtain res h1 where b: "confirm_body fe fm c lease (h\<lparr>fh_leases := lv\<rparr>) = (res, h1)" by fastforce
    have "res \<noteq> Inr ()" using assms(1) by (auto simp: confirm_flash_def waiting Inr x b)
    then have "same_effects (h\<lparr>fh_leases := lv\<rparr>) h1" and "\<exists>e. res = Inl e"
      using confirm_body_result [OF b] assms(2) by auto
    then show ?thesis by (auto simp: confirm_flash_def waiting Inr x b Let_def same_effects_def split: sum.splits)
  qed
qed

text \<open>A refused confirmation leaves no trace outside the store's own records: the approval can still be used, nothing is
  uploaded, the run waits as before; every grant that was issued to the run is revoked, and the session's lease is free again.\<close>

theorem refused_confirmation_harmless:
  assumes "fst (confirm_flash fe fm c h) = Inl e" "fh_node h \<noteq> None"
    "fr_status (fh_run h) = ''awaiting_flash_confirmation''" "h' = snd (confirm_flash fe fm c h)"
    "is_ok (acquire_lease_tx (fr_session (fh_run h)) (fr_run (fh_run h)) (fe_lease_ttl fe) (fm_now fm) (fh_leases h))"
  shows "fh_approvals h' = fh_approvals h \<and> fh_sent h' = fh_sent h \<and> fh_run h' = fh_run h \<and> fh_task h' = fh_task h \<and>
    (\<forall>g now rt. gr_run g = fr_run (fh_run h) \<longrightarrow> \<not> is_ok (fst (validate_live_grant now g rt (fh_engine h')))) \<and>
    is_ok (acquire_lease_tx (fr_session (fh_run h)) owner (fe_lease_ttl fe) (fm_now fm) (fh_leases h'))"
proof -
  obtain lease lv where acq: "acquire_lease_tx (fr_session (fh_run h)) (fr_run (fh_run h)) (fe_lease_ttl fe) (fm_now fm) (fh_leases h)
      = Inr (lease, lv)"
    using assms(5) by (auto simp: is_ok_def split: sum.splits)
  obtain res h1 where b: "confirm_body fe fm c lease (h\<lparr>fh_leases := lv\<rparr>) = (res, h1)" by fastforce
  have "res \<noteq> Inr ()" using assms(1,3) by (auto simp: confirm_flash_def acq b)
  then obtain e1 where res: "res = Inl e1" and leases: "fh_leases h1 = lv"
    using confirm_body_result [OF b] assms(2) by (auto simp: same_effects_def)
  have current: "grant_current lease lv" "lg_session lease = fr_session (fh_run h)"
    using acq by (auto simp: acquire_lease_tx_def grant_current_def Let_def split: if_splits)
  then obtain row where row: "lv (lg_session lease) = Some row" by (auto simp: grant_current_def split: option.splits)
  then have free: "release_lease lease (fm_now fm) (fh_leases h1) = Inr (lv(fr_session (fh_run h) \<mapsto> row\<lparr>ls_owner := [], ls_expires := fm_now fm\<rparr>))"
    using current by (simp add: release_lease_def leases)
  then have h': "fh_engine h' = revoke_run (fr_run (fh_run h)) (fh_engine h1)"
      "fh_leases h' = lv(fr_session (fh_run h) \<mapsto> row\<lparr>ls_owner := [], ls_expires := fm_now fm\<rparr>)"
    by (simp_all add: assms(3,4) confirm_flash_def acq b res Let_def)
  have "\<not> is_ok (fst (validate_live_grant now g rt (fh_engine h')))" if "gr_run g = fr_run (fh_run h)" for g now rt
    using that by (auto simp: h' validate_live_grant_def revoke_run_def is_ok_def image_iff dest!: map_of_SomeD split: sum.splits if_splits)
  moreover have "is_ok (acquire_lease_tx (fr_session (fh_run h)) owner (fe_lease_ttl fe) (fm_now fm) (fh_leases h'))"
    by (simp add: h' acquire_lease_tx_def is_ok_def Let_def)
  ultimately show ?thesis using confirm_flash_error [OF assms(1,2)] assms(4) by simp
qed


section \<open>A mistaken confirmation\<close>

definition payload_digest :: "codec \<Rightarrow> binding \<Rightarrow> string" where
  "payload_digest cd b = sha256 cd (json_dict cd (dict_of b))"

text \<open>The operation of the approval the run waits for is recorded with a payload the approval does not cover.\<close>

definition flash_locked :: "codec \<Rightarrow> flash_host \<Rightarrow> bool" where
  "flash_locked cd h \<longleftrightarrow> fr_status (fh_run h) = ''awaiting_flash_confirmation'' \<and> fh_task h = Upload_idle \<and>
     (\<exists>i a row. fr_approval (fh_run h) = Some i \<and> fh_approvals h i = Some a \<and>
        fh_operations h (flash_operation (fr_run (fh_run h)) i) = Some row \<and>
        (\<forall>b. payload_digest cd b = opr_fingerprint row \<longrightarrow> approval_fingerprint cd ''flash'' b \<noteq> apv_fingerprint a))"

definition detects_once :: "flash_event \<Rightarrow> bool" where
  "detects_once ev \<longleftrightarrow>
     (case ev of Confirm fm c \<Rightarrow> fm_again fm = fm_boards fm | Cancel_run now ending failed \<Rightarrow> False | _ \<Rightarrow> True)"

lemma locked_confirm:
  assumes "flash_locked (fe_codec fe) h" "fm_again fm = fm_boards fm"
  shows "\<exists>e. fst (confirm_flash fe fm c h) = Inl e"
    "flash_locked (fe_codec fe) (snd (confirm_flash fe fm c h)) \<and> fh_run (snd (confirm_flash fe fm c h)) = fh_run h \<and>
     fh_approvals (snd (confirm_flash fe fm c h)) = fh_approvals h \<and> fh_sent (snd (confirm_flash fe fm c h)) = fh_sent h"
proof -
  have no: "\<not> approval_used fe fm c (h\<lparr>fh_leases := lv\<rparr>) h1 approval" for lv h1 approval
  proof
    assume used: "approval_used fe fm c (h\<lparr>fh_leases := lv\<rparr>) h1 approval"
    obtain i a row where l: "fr_approval (fh_run h) = Some i" "fh_approvals h i = Some a"
        "fh_operations h (flash_operation (fr_run (fh_run h)) i) = Some row"
        "\<forall>b. payload_digest (fe_codec fe) b = opr_fingerprint row \<longrightarrow> approval_fingerprint (fe_codec fe) ''flash'' b \<noteq> apv_fingerprint a"
      using assms(1) by (auto simp: flash_locked_def)
    obtain b a' where b: "flash_binding (fe_codec fe) (fm_boards fm) (fh_run h) (proposed (fh_run h) c) (fm_revision fm) = Inr b"
        "consume_action (fe_codec fe) i ''flash'' b (fm_now fm) (fh_approvals h) = Inr (a', fh_approvals h1)"
        "opr_fingerprint row = payload_digest (fe_codec fe) b"
      using used l(1,3) assms(2) by (auto simp: approval_used_def payload_digest_def)
    show False using consume_action_result [OF b(2)] l(2,4) b(3) by auto
  qed
  note res = confirm_flash_result [of fe fm c h]
  then show "\<exists>e. fst (confirm_flash fe fm c h) = Inl e" using no by blast
  have kept: "fh_approvals (snd (confirm_flash fe fm c h)) = fh_approvals h \<and>
      fh_sent (snd (confirm_flash fe fm c h)) = fh_sent h \<and>
      fh_run (snd (confirm_flash fe fm c h)) = fh_run h \<and> fh_task (snd (confirm_flash fe fm c h)) = fh_task h \<and>
      rows_kept h (snd (confirm_flash fe fm c h))"
    using res no by blast
  then have "flash_locked (fe_codec fe) (snd (confirm_flash fe fm c h))"
    using assms(1) unfolding flash_locked_def rows_kept_def by metis
  with kept show "flash_locked (fe_codec fe) (snd (confirm_flash fe fm c h)) \<and> fh_run (snd (confirm_flash fe fm c h)) = fh_run h \<and>
     fh_approvals (snd (confirm_flash fe fm c h)) = fh_approvals h \<and> fh_sent (snd (confirm_flash fe fm c h)) = fh_sent h"
    by simp
qed

lemma locked_step:
  assumes "flash_locked (fe_codec fe) h" "detects_once ev"
  shows "flash_locked (fe_codec fe) (flash_step fe ev h) \<and> fh_run (flash_step fe ev h) = fh_run h \<and>
    fh_approvals (flash_step fe ev h) = fh_approvals h \<and> fh_sent (flash_step fe ev h) = fh_sent h"
proof (cases ev)
  case (Confirm fm c)
  then show ?thesis using locked_confirm(2) [OF assms(1), of fm c] assms(2) by (simp add: detects_once_def)
next
  case (Prepare fm c)
  then show ?thesis using assms(1) by (simp add: prepare_flash_def flash_locked_def)
next
  case (Cancel_run now ending failed)
  then show ?thesis using assms(2) by (simp add: detects_once_def)
qed (use assms(1) in \<open>auto simp: flash_locked_def start_upload_def finish_upload_def\<close>)

lemma locked_history:
  "flash_locked (fe_codec fe) h \<Longrightarrow> \<forall>ev \<in> set evs. detects_once ev \<Longrightarrow>
   flash_locked (fe_codec fe) (flash_history fe evs h) \<and> fh_run (flash_history fe evs h) = fh_run h \<and>
   fh_approvals (flash_history fe evs h) = fh_approvals h \<and> fh_sent (flash_history fe evs h) = fh_sent h"
proof (induction evs arbitrary: h)
  case (Cons ev evs)
  then have step: "flash_locked (fe_codec fe) (flash_step fe ev h) \<and> fh_run (flash_step fe ev h) = fh_run h \<and>
      fh_approvals (flash_step fe ev h) = fh_approvals h \<and> fh_sent (flash_step fe ev h) = fh_sent h"
    using locked_step by simp
  from Cons.IH [of "flash_step fe ev h"] step Cons.prems(2) show ?case by (simp add: flash_history_def)
qed (simp add: flash_history_def)

text \<open>The refusal of a confirmation because its fingerprint differs comes after the operation was recorded.\<close>

abbreviation fingerprint_changed :: flash_error where
  "fingerprint_changed \<equiv> Flash_store (Store_value_error ''AGENT_APPROVAL_FINGERPRINT_CHANGED'')"

lemma consume_action_changed:
  "consume_action cd i action b now st = Inl (Store_value_error ''AGENT_APPROVAL_FINGERPRINT_CHANGED'') \<Longrightarrow>
     \<exists>a. st i = Some a \<and> apv_fingerprint a \<noteq> approval_fingerprint cd action b"
  by (auto simp: consume_action_def consume_approval_def Let_def split: option.splits if_splits)

lemma flash_binding_errors: "flash_binding cd boards r c revision \<noteq> Inl (Flash_store e)"
proof -
  have plain: "hardware_text v m \<noteq> Inl (Flash_store e)" for v m
    by (auto simp: hardware_text_def split: pyval.splits)
  have "finalize_hardware_binding cd action b \<noteq> Inl (Flash_store e)" for action b
    unfolding finalize_hardware_binding_def Let_def bind_result_def
    using plain by (auto split: sum.splits pyval.splits if_splits)
  then show ?thesis by (simp add: flash_binding_def Let_def)
qed

lemma use_services_errors: "fst (use_services fm g rt ss en) \<noteq> Inl (Flash_store e)"
  by (induction ss arbitrary: en) (auto split: sum.splits prod.splits)

lemma record_operation_errors:
  "record_operation cd i run kind status payload now st \<noteq> Inl (Store_value_error ''AGENT_APPROVAL_FINGERPRINT_CHANGED'')"
  by (auto simp: record_operation_def Let_def split: option.splits)

lemma confirm_rest_changed:
  assumes res: "confirm_rest fe fm c lease i (us, en) h = (Inl fingerprint_changed, h')"
    and us: "us \<noteq> Inl fingerprint_changed"
  shows "\<exists>b b' a row. flash_binding (fe_codec fe) (fm_boards fm) (fh_run h) (proposed (fh_run h) c) (fm_revision fm) = Inr b \<and>
    flash_binding (fe_codec fe) (fm_again fm) (fh_run h) (proposed (fh_run h) c) (fm_revision fm) = Inr b' \<and>
    fh_approvals h i = Some a \<and> apv_fingerprint a \<noteq> approval_fingerprint (fe_codec fe) ''flash'' b' \<and>
    fh_operations h' (flash_operation (fr_run (fh_run h)) i) = Some row \<and> opr_fingerprint row = payload_digest (fe_codec fe) b"
proof -
  let ?r = "fh_run h" and ?cd = "fe_codec fe"
  let ?op = "flash_operation (fr_run ?r) i"
  note unf = confirm_rest_def Let_def
  obtain u where u: "us = Inr u" using res us by (cases us) (auto simp: unf)
  obtain b where b: "flash_binding ?cd (fm_boards fm) ?r (proposed ?r c) (fm_revision fm) = Inr b"
    using res u flash_binding_errors by (auto simp: unf split: sum.splits)
  obtain ops where ops: "record_operation ?cd ?op (fr_run ?r) ''hardware.flash'' ''prepared'' (dict_of b) (fm_now fm) (fh_operations h) = Inr ops"
    using res u b record_operation_errors by (auto simp: unf split: sum.splits)
  obtain b' where b': "flash_binding ?cd (fm_again fm) ?r (proposed ?r c) (fm_revision fm) = Inr b'"
    using res u b ops flash_binding_errors by (auto simp: unf split: sum.splits)
  have con: "consume_action ?cd i ''flash'' b' (fm_now fm) (fh_approvals h) = Inl (Store_value_error ''AGENT_APPROVAL_FINGERPRINT_CHANGED'')
      \<and> fh_operations h' = ops"
    using res u b ops b' by (cases "fh_node h") (auto simp: unf split: sum.splits)
  show ?thesis
    using consume_action_changed [OF conjunct1 [OF con]] recorded_operation(1) [OF ops] b b' con by (auto simp: payload_digest_def)
qed

lemma confirm_flash_changed:
  assumes "fst (confirm_flash fe fm c h) = Inl fingerprint_changed"
  shows "\<exists>b b' i a row. flash_binding (fe_codec fe) (fm_boards fm) (fh_run h) (proposed (fh_run h) c) (fm_revision fm) = Inr b \<and>
    flash_binding (fe_codec fe) (fm_again fm) (fh_run h) (proposed (fh_run h) c) (fm_revision fm) = Inr b' \<and>
    fr_status (fh_run h) = ''awaiting_flash_confirmation'' \<and> fr_approval (fh_run h) = Some i \<and>
    fh_approvals h i = Some a \<and> apv_fingerprint a \<noteq> approval_fingerprint (fe_codec fe) ''flash'' b' \<and>
    fh_operations (snd (confirm_flash fe fm c h)) (flash_operation (fr_run (fh_run h)) i) = Some row \<and>
    opr_fingerprint row = payload_digest (fe_codec fe) b"
proof -
  let ?r = "fh_run h"
  have waiting: "fr_status ?r = ''awaiting_flash_confirmation''"
    using assms by (rule_tac ccontr) (simp add: confirm_flash_def)
  obtain lease lv where acq: "acquire_lease_tx (fr_session ?r) (fr_run ?r) (fe_lease_ttl fe) (fm_now fm) (fh_leases h) = Inr (lease, lv)"
    using assms waiting by (auto simp: confirm_flash_def acquire_lease_tx_def Let_def split: if_splits)
  let ?h = "h\<lparr>fh_leases := lv\<rparr>"
  obtain res h1 where body: "confirm_body fe fm c lease ?h = (res, h1)" by fastforce
  have res: "res = Inl fingerprint_changed" and ops: "fh_operations (snd (confirm_flash fe fm c h)) = fh_operations h1"
    using assms waiting acq body
    by (auto simp: confirm_flash_def Let_def release_lease_def split: sum.splits if_splits option.splits)
  obtain i where i: "(if fe_executor fe then fr_approval ?r else None) = Some i"
    using body res by (cases "if fe_executor fe then fr_approval ?r else None") (auto simp: confirm_body_def Let_def)
  obtain rt where rt: "fm_root fm = Some rt" using body res i by (cases "fm_root fm") (auto simp: confirm_body_def Let_def)
  let ?m = "fc_monitor (proposed ?r c) = Some True"
  obtain gr en where gr: "issue_grant (fm_mono fm) (fm_fresh fm) (flash_grant_request ?r rt ?m) (fh_engine h) = (gr, en)" by fastforce
  obtain g where g: "gr = Inr g" using body res i rt gr by (cases gr) (auto simp: confirm_body_def Let_def)
  obtain us en2 where us: "use_services fm g rt (flash_services ?m) en = (us, en2)" by fastforce
  have rest: "confirm_rest fe fm c lease i (us, en2) ?h = (Inl fingerprint_changed, h1)"
    using body res i rt gr g us by (simp add: confirm_body_def Let_def)
  have "us \<noteq> Inl fingerprint_changed" using use_services_errors [of fm g rt "flash_services ?m" en] us by (metis fst_conv)
  from confirm_rest_changed [OF rest this] show ?thesis using waiting i ops by (auto split: if_splits)
qed

text \<open>C16. A confirmation for a device other than the approved one locks the flash: its operation is recorded with the wrong payload
  before the approval is checked, so that every later confirmation, also the one the approval was issued for, is refused. While
  the run is not cancelled, no history of preparations, confirmations and uploads sends another request or changes the run or
  the approvals. (Here the boards do not change between the two detections of a confirmation, and equal payload digests mean
  equal approval fingerprints.)\<close>

theorem mistaken_confirmation_locks:
  assumes "fst (confirm_flash fe fm c h) = Inl fingerprint_changed" "fm_again fm = fm_boards fm" "fh_task h = Upload_idle"
    "\<forall>b b'. payload_digest (fe_codec fe) b = payload_digest (fe_codec fe) b' \<longrightarrow>
       approval_fingerprint (fe_codec fe) ''flash'' b = approval_fingerprint (fe_codec fe) ''flash'' b'"
    "\<forall>ev \<in> set evs. detects_once ev" "h' = flash_history fe evs (snd (confirm_flash fe fm c h))"
  shows "fh_sent h' = fh_sent h \<and> fh_approvals h' = fh_approvals h \<and> fh_run h' = fh_run h \<and>
    fr_status (fh_run h') = ''awaiting_flash_confirmation'' \<and>
    (\<forall>fm c. fm_again fm = fm_boards fm \<longrightarrow> (\<exists>e. fst (confirm_flash fe fm c h') = Inl e))"
proof -
  let ?h1 = "snd (confirm_flash fe fm c h)"
  obtain b i a row where bad: "fr_status (fh_run h) = ''awaiting_flash_confirmation''" "fr_approval (fh_run h) = Some i"
      "fh_approvals h i = Some a" "apv_fingerprint a \<noteq> approval_fingerprint (fe_codec fe) ''flash'' b"
      "fh_operations ?h1 (flash_operation (fr_run (fh_run h)) i) = Some row" "opr_fingerprint row = payload_digest (fe_codec fe) b"
    using confirm_flash_changed [OF assms(1)] assms(2) by auto
  have same: "fh_approvals ?h1 = fh_approvals h \<and> fh_sent ?h1 = fh_sent h \<and> fh_run ?h1 = fh_run h \<and> fh_task ?h1 = fh_task h"
  proof (cases "\<exists>e. fst (confirm_flash fe fm c h) = Inl e \<and> fh_approvals ?h1 = fh_approvals h \<and>
      fh_sent ?h1 = fh_sent h \<and> fh_run ?h1 = fh_run h \<and> fh_task ?h1 = fh_task h")
    case False
    then obtain approval h2 lv where used: "approval_used fe fm c (h\<lparr>fh_leases := lv\<rparr>) h2 approval"
      using confirm_flash_result [of fe fm c h] by blast
    then obtain b' a' where "flash_binding (fe_codec fe) (fm_again fm) (fh_run h) (proposed (fh_run h) c) (fm_revision fm) = Inr b'"
        "consume_action (fe_codec fe) i ''flash'' b' (fm_now fm) (fh_approvals h) = Inr (a', fh_approvals h2)"
      using bad(2) by (auto simp: approval_used_def)
    then have False
      using consume_action_result confirm_flash_changed [OF assms(1)] bad(2) by fastforce
    then show ?thesis ..
  qed blast
  have "flash_locked (fe_codec fe) ?h1"
    unfolding flash_locked_def using bad assms(3,4) same by metis
  from locked_history [OF this assms(5)] have h': "flash_locked (fe_codec fe) h' \<and> fh_run h' = fh_run h \<and>
      fh_approvals h' = fh_approvals h \<and> fh_sent h' = fh_sent h" using same assms(6) by simp
  then show ?thesis using locked_confirm(1) bad(1) by metis
qed

section \<open>Concrete histories\<close>

text \<open>A codec whose digests are the port of a binding.\<close>

definition port_of :: "pyval \<Rightarrow> string" where
  "port_of v = (case v of VStr s \<Rightarrow> s | _ \<Rightarrow> [])"

definition port_codec :: codec where
  "port_codec = \<lparr>sha256 = (\<lambda>s. s),
     json_text = (\<lambda>v. case v of VDict kvs \<Rightarrow>
        (case py_get (dict_of kvs) ''binding'' of VDict b \<Rightarrow> port_of (py_get (dict_of b) ''port'') | _ \<Rightarrow> []) | _ \<Rightarrow> []),
     json_spaced = (\<lambda>_. []), json_dict = (\<lambda>d. port_of (py_get d ''port'')), py_text = (\<lambda>_. [])\<rparr>"

definition demo_flash_env :: flash_env where
  "demo_flash_env = \<lparr>fe_codec = port_codec, fe_executor = True, fe_lease_ttl = 30, fe_approval_ttl = 300\<rparr>"

definition demo_host :: flash_host where
  "demo_host = \<lparr>fh_run = \<lparr>fr_run = ''r'', fr_project = ''p'', fr_session = ''s'', fr_status = ''running'', fr_class = None,
       fr_port = Some ''A'', fr_board = Some ''b'', fr_environment = None, fr_monitor = False, fr_approval = None,
       fr_expires = None, fr_build = [], fr_cancel = False\<rparr>,
     fh_node = Some ''pending'', fh_engine = new_engine 60, fh_leases = Map.empty, fh_approvals = Map.empty,
     fh_operations = Map.empty, fh_task = Upload_idle, fh_sent = [], fh_issued = []\<rparr>"

definition flash_time :: "rat \<Rightarrow> string \<Rightarrow> flash_moment" where
  "flash_time t fresh = \<lparr>fm_root = Some ''/w'', fm_revision = ''v'', fm_boards = [], fm_again = [], fm_now = t, fm_mono = t,
     fm_fresh = fresh\<rparr>"

definition other_port :: flash_choice where
  "other_port = \<lparr>fc_port = Some ''B'', fc_board = None, fc_environment = None, fc_monitor = None\<rparr>"

definition built_host :: flash_host where
  "built_host = workflow_built demo_flash_env (flash_time 0 ''a'') True
     [(''firmware_hash'', VStr ''f''), (''artifact_manifest'', VStr ''m'')] demo_host"

lemma built_host_waits:
  "fr_status (fh_run built_host) = ''awaiting_flash_confirmation''" "fh_task built_host = Upload_idle"
  "fh_node built_host = Some ''pending''" "fh_sent built_host = []"
  by code_simp+


lemma built_history:
  "flash_history demo_flash_env (Workflow_built (flash_time 0 ''a'') True
     [(''firmware_hash'', VStr ''f''), (''artifact_manifest'', VStr ''m'')] # evs) demo_host = flash_history demo_flash_env evs built_host"
proof -
  have "fr_status (fh_run demo_host) = ''running'' \<and> fh_task demo_host = Upload_idle" by (simp add: demo_host_def)
  then show ?thesis by (simp add: flash_history_def built_host_def)
qed

lemma right_port_uploaded:
  "map fst (fh_sent (start_upload demo_flash_env 2 (snd (confirm_flash demo_flash_env (flash_time 1 ''b'') no_choice built_host)))) =
   [''r:flash:approval-a'']"
  by code_simp

lemma wrong_port_refused:
  "fst (confirm_flash demo_flash_env (flash_time 1 ''b'') other_port built_host) = Inl fingerprint_changed"
  "is_ok (acquire_lease_tx (fr_session (fh_run built_host)) (fr_run (fh_run built_host)) (fe_lease_ttl demo_flash_env)
     (fm_now (flash_time 1 ''b'')) (fh_leases built_host))"
  by code_simp+

theorem flash_needs_approval_witness:
  "\<exists>(h :: flash_host) i (a :: approval) b. map fst (fh_sent h) = [''r:flash:approval-a''] \<and> ''r:flash:approval-a'' = flash_operation ''r'' i \<and>
     fh_approvals h i = Some a \<and> apv_status a = ''consumed'' \<and> binding_names b (snd (snd (hd (fh_sent h))))"
proof -
  let ?evs = "[Confirm (flash_time 1 ''b'') no_choice, Start_upload 2]"
  let ?all = "Workflow_built (flash_time 0 ''a'') True [(''firmware_hash'', VStr ''f''), (''artifact_manifest'', VStr ''m'')] # ?evs"
  obtain h where h: "h = flash_history demo_flash_env ?all demo_host" by blast
  have fresh: "fresh_host demo_host" and run: "fr_run (fh_run demo_host) = ''r''" by (simp_all add: fresh_host_def demo_host_def)
  have sent: "map fst (fh_sent h) = [''r:flash:approval-a'']"
    unfolding h built_history using right_port_uploaded by (simp add: flash_history_def)
  then obtain payload q where hd: "fh_sent h = [(''r:flash:approval-a'', payload, q)]" by auto
  from flash_needs_approval [OF fresh h] hd run
  obtain i a b where "''r:flash:approval-a'' = flash_operation ''r'' i \<and> fh_approvals h i = Some a \<and> apv_status a = ''consumed'' \<and>
    binding_names b q" by auto
  moreover have "snd (snd (hd (fh_sent h))) = q" by (simp only: hd list.sel snd_conv)
  ultimately show ?thesis using sent by - (rule exI [of _ h], rule exI [of _ i], rule exI [of _ a], rule exI [of _ b], simp only: simp_thms)
qed

theorem refused_confirmation_harmless_witness:
  "\<exists>h'. h' = snd (confirm_flash demo_flash_env (flash_time 1 ''b'') other_port built_host) \<and>
     fst (confirm_flash demo_flash_env (flash_time 1 ''b'') other_port built_host) = Inl fingerprint_changed \<and>
     fh_approvals h' = fh_approvals built_host \<and> fh_run h' = fh_run built_host"
  using refused_confirmation_harmless [OF wrong_port_refused(1) _ built_host_waits(1) refl wrong_port_refused(2)]
    built_host_waits(3) wrong_port_refused(1) by simp

theorem mistaken_confirmation_locks_witness:
  "\<exists>h'. h' = flash_history demo_flash_env [Prepare (flash_time 2 ''c'') no_choice, Confirm (flash_time 3 ''d'') no_choice]
       (snd (confirm_flash demo_flash_env (flash_time 1 ''b'') other_port built_host)) \<and>
     fh_sent h' = [] \<and> fr_status (fh_run h') = ''awaiting_flash_confirmation'' \<and>
     (\<exists>e. fst (confirm_flash demo_flash_env (flash_time 4 ''e'') no_choice h') = Inl e)"
proof -
  let ?evs = "[Prepare (flash_time 2 ''c'') no_choice, Confirm (flash_time 3 ''d'') no_choice]"
  have boards: "fm_again (flash_time t f) = fm_boards (flash_time t f)" for t f by (simp add: flash_time_def)
  have digests: "\<forall>b b'. payload_digest (fe_codec demo_flash_env) b = payload_digest (fe_codec demo_flash_env) b' \<longrightarrow>
       approval_fingerprint (fe_codec demo_flash_env) ''flash'' b = approval_fingerprint (fe_codec demo_flash_env) ''flash'' b'"
    by (simp add: demo_flash_env_def port_codec_def payload_digest_def approval_fingerprint_def py_get_def dict_of_def)
  have once: "\<forall>ev \<in> set ?evs. detects_once ev" by (simp add: detects_once_def boards)
  from mistaken_confirmation_locks [OF wrong_port_refused(1) boards built_host_waits(2) digests once refl]
  show ?thesis using built_host_waits(4) boards by auto
qed

end
