(* ===== verification/Firmware_Sets.thy ===== *)
theory Firmware_Sets
  imports Change_Paths "HOL-Library.Word"
begin

text \<open>
  Sealed upload sets, \<^verbatim>\<open>backend/services/firmware_manifest.py\<close> with the schema \<^verbatim>\<open>FirmwareUploadManifest\<close> of
  \<^verbatim>\<open>backend/contracts/engine.py\<close>: the images of a build are copied into a directory named by the digest of their
  manifest, and the manifest is verified again before every upload.

  A disk maps absolute paths (their components from the root) to nodes. A link holds the real path it leads to. The
  branches for Windows are left out: there the images are also locked while they are uploaded.
\<close>

section \<open>The disk\<close>

type_synonym bytes = "8 word list"
type_synonym path = "string list"

datatype disk_node = Disk_dir | Disk_file bytes | Disk_link path

type_synonym disk = "path \<rightharpoonup> disk_node"

text \<open>\<^verbatim>\<open>Path(text)\<close>, relative to the working directory, and \<^verbatim>\<open>str(path)\<close>.\<close>

definition path_of :: "path \<Rightarrow> string \<Rightarrow> path" where
  "path_of cwd t = (if starts_with t ''/'' then [] else cwd) @ filter (\<lambda>c. c \<noteq> [] \<and> c \<noteq> ''.'') (split_on slash_char t)"

definition path_text :: "path \<Rightarrow> string" where
  "path_text p = (if p = [] then ''/'' else concat (map (\<lambda>c. slash_char # c) p))"

definition present :: "disk \<Rightarrow> path \<Rightarrow> bool" where
  "present d p \<longleftrightarrow> p = [] \<or> d p \<noteq> None"

text \<open>\<^verbatim>\<open>resolve(strict=True)\<close> and \<^verbatim>\<open>resolve()\<close>, from the real path \<open>acc\<close> on.\<close>

fun walk :: "disk \<Rightarrow> path \<Rightarrow> path \<Rightarrow> path option" where
  "walk d acc [] = Some acc"
| "walk d acc (c # cs) =
     (if c = ''..'' then walk d (butlast acc) cs
      else case d (acc @ [c]) of
          None \<Rightarrow> None
        | Some (Disk_link q) \<Rightarrow> if present d q then walk d q cs else None
        | Some _ \<Rightarrow> walk d (acc @ [c]) cs)"

fun walk_soft :: "disk \<Rightarrow> path \<Rightarrow> path \<Rightarrow> path" where
  "walk_soft d acc [] = acc"
| "walk_soft d acc (c # cs) =
     (if c = ''..'' then walk_soft d (butlast acc) cs
      else case d (acc @ [c]) of Some (Disk_link q) \<Rightarrow> walk_soft d q cs | _ \<Rightarrow> walk_soft d (acc @ [c]) cs)"

definition linked :: "disk \<Rightarrow> path \<Rightarrow> bool" where
  "linked d p \<longleftrightarrow> p \<noteq> [] \<and> last p \<noteq> ''..'' \<and>
     (case walk d [] (butlast p) of
        None \<Rightarrow> False
      | Some r \<Rightarrow> (case d (r @ [last p]) of Some (Disk_link _) \<Rightarrow> True | _ \<Rightarrow> False))"

definition file_at :: "disk \<Rightarrow> path \<Rightarrow> bytes option" where
  "file_at d p = (case walk d [] p of None \<Rightarrow> None | Some r \<Rightarrow> (case d r of Some (Disk_file b) \<Rightarrow> Some b | _ \<Rightarrow> None))"

section \<open>Manifests\<close>

datatype upload_error = Upload_value_error string | Upload_schema_error | Upload_os_error

record upload_env =
  ue_codec :: codec
  ue_hash :: "bytes \<Rightarrow> string"
  ue_dump :: "pyval \<Rightarrow> bytes"
  ue_cwd :: path

record upload_image =
  ui_role :: string
  ui_offset :: int
  ui_sha :: string
  ui_size :: int
  ui_filename :: string

record upload_manifest =
  um_chip :: string
  um_environment :: string
  um_board :: string
  um_toolchain :: "(string \<times> pyval) list"
  um_images :: "upload_image list"
  um_sha :: string
  um_root :: string

definition IMAGE_LIMIT :: int where
  "IMAGE_LIMIT = 16 * 1024 * 1024"

definition CHIPS :: "string set" where
  "CHIPS = {''esp32'', ''esp32s3'', ''esp32c3''}"

definition IMAGE_ROLES :: "string set" where
  "IMAGE_ROLES = {''bootloader'', ''partitions'', ''ota_data'', ''application''}"

definition hex64 :: "string \<Rightarrow> bool" where
  "hex64 s \<longleftrightarrow> length s = 64 \<and> set s \<subseteq> set ''0123456789abcdef''"

definition image_of :: "pyval \<Rightarrow> upload_image option" where
  "image_of v =
     (case v of
        VDict kvs \<Rightarrow>
          (if \<not> fst ` set kvs \<subseteq> {''role'', ''offset'', ''sha256'', ''size_bytes'', ''filename''} then None
           else let f = dict_of kvs in
             case (f ''role'', f ''offset'', f ''sha256'', f ''size_bytes'', f ''filename'') of
               (Some (VStr role), Some (VInt offset), Some (VStr sha), Some (VInt amount), Some (VStr filename)) \<Rightarrow>
                 if role \<in> IMAGE_ROLES \<and> 0 \<le> offset \<and> offset < IMAGE_LIMIT \<and> hex64 sha \<and> 0 < amount \<and> amount \<le> IMAGE_LIMIT
                 then Some \<lparr>ui_role = role, ui_offset = offset, ui_sha = sha, ui_size = amount, ui_filename = filename\<rparr>
                 else None
             | _ \<Rightarrow> None)
      | _ \<Rightarrow> None)"

definition text_between :: "nat \<Rightarrow> nat \<Rightarrow> string \<Rightarrow> bool" where
  "text_between lo hi s \<longleftrightarrow> lo \<le> length s \<and> length s \<le> hi"

definition MANIFEST_KEYS :: "string set" where
  "MANIFEST_KEYS = {''schema_version'', ''chip'', ''environment'', ''board'', ''toolchain'', ''images'', ''sha256'', ''artifact_root''}"

definition manifest_of :: "pyval \<Rightarrow> upload_manifest option" where
  "manifest_of v =
     (case v of
        VDict kvs \<Rightarrow>
          (if \<not> fst ` set kvs \<subseteq> MANIFEST_KEYS then None
           else let f = dict_of kvs in
             case (f ''schema_version'', f ''chip'', f ''environment'', f ''board'', f ''toolchain'', f ''images'',
                   f ''sha256'', f ''artifact_root'') of
               (Some (VInt n), Some (VStr chip), Some (VStr environment), Some (VStr board), Some (VDict toolchain),
                Some (VList images), Some (VStr sha), Some (VStr place)) \<Rightarrow>
                 (case those (map image_of images) of
                    None \<Rightarrow> None
                  | Some entries \<Rightarrow>
                      if n = 1 \<and> chip \<in> CHIPS \<and> text_between 1 128 environment \<and> text_between 1 128 board \<and>
                         3 \<le> length entries \<and> length entries \<le> 4 \<and> hex64 sha \<and> text_between 1 4096 place
                      then Some \<lparr>um_chip = chip, um_environment = environment, um_board = board, um_toolchain = toolchain,
                        um_images = entries, um_sha = sha, um_root = place\<rparr>
                      else None)
             | _ \<Rightarrow> None)
      | _ \<Rightarrow> None)"

definition image_value :: "upload_image \<Rightarrow> pyval" where
  "image_value e = VDict [(''role'', VStr (ui_role e)), (''offset'', VInt (ui_offset e)), (''sha256'', VStr (ui_sha e)),
     (''size_bytes'', VInt (ui_size e)), (''filename'', VStr (ui_filename e))]"

definition body_fields :: "string \<Rightarrow> string \<Rightarrow> string \<Rightarrow> (string \<times> pyval) list \<Rightarrow> upload_image list \<Rightarrow> (string \<times> pyval) list" where
  "body_fields chip environment board toolchain images =
     [(''schema_version'', VInt 1), (''chip'', VStr chip), (''environment'', VStr environment), (''board'', VStr board),
      (''toolchain'', VDict toolchain), (''images'', VList (map image_value images))]"

definition manifest_body :: "upload_manifest \<Rightarrow> pyval" where
  "manifest_body m = VDict (body_fields (um_chip m) (um_environment m) (um_board m) (um_toolchain m) (um_images m))"

definition digest :: "upload_env \<Rightarrow> pyval \<Rightarrow> string" where
  "digest ue v = sha256 (ue_codec ue) (json_text (ue_codec ue) v)"

section \<open>Verification\<close>

definition image_name :: "string \<Rightarrow> string" where
  "image_name role = role @ ''.bin''"

text \<open>The loop over the images, with the roles met so far and the end of the last image; what the schema already
  guarantees is not tested again.\<close>

fun verify_images :: "upload_env \<Rightarrow> disk \<Rightarrow> path \<Rightarrow> string set \<Rightarrow> int \<Rightarrow> upload_image list
    \<Rightarrow> upload_error + (int \<times> path) list" where
  "verify_images ue d r roles reached_end [] =
     (if {''application'', ''bootloader'', ''partitions''} \<subseteq> roles then Inr [] else Inl (Upload_value_error ''UPLOAD_SET_INCOMPLETE''))"
| "verify_images ue d r roles reached_end (e # es) =
     (let p = r @ [ui_filename e] in
      if ui_role e \<notin> IMAGE_ROLES \<or> ui_role e \<in> roles then Inl (Upload_value_error ''UPLOAD_IMAGE_INVALID'')
      else if ui_filename e \<noteq> image_name (ui_role e) then Inl (Upload_value_error ''UPLOAD_IMAGE_PATH_INVALID'')
      else if ui_offset e < reached_end \<or> \<not> (0 < ui_size e \<and> ui_size e \<le> IMAGE_LIMIT) \<or> IMAGE_LIMIT < ui_offset e + ui_size e
      then Inl (Upload_value_error ''UPLOAD_IMAGES_OVERLAP'')
      else if linked d p then Inl (Upload_value_error ''UPLOAD_IMAGE_PATH_INVALID'')
      else case walk d [] p of
          None \<Rightarrow> Inl Upload_os_error
        | Some q \<Rightarrow>
            if butlast q \<noteq> r then Inl (Upload_value_error ''UPLOAD_IMAGE_PATH_INVALID'')
            else case file_at d p of
                None \<Rightarrow> Inl Upload_os_error
              | Some b \<Rightarrow>
                  if int (length b) \<noteq> ui_size e \<or> ue_hash ue b \<noteq> ui_sha e then Inl (Upload_value_error ''SEALED_ARTIFACT_TAMPERED'')
                  else bind_result (verify_images ue d r (insert (ui_role e) roles) (ui_offset e + ui_size e) es)
                    (\<lambda>ps. Inr ((ui_offset e, p) # ps)))"

definition verify_upload_set :: "upload_env \<Rightarrow> disk \<Rightarrow> string option \<Rightarrow> string option \<Rightarrow> string option \<Rightarrow> pyval
    \<Rightarrow> upload_error + (int \<times> path) list" where
  "verify_upload_set ue d store chip environment v =
     (case manifest_of v of
        None \<Rightarrow> Inl Upload_schema_error
      | Some m \<Rightarrow>
          if digest ue (manifest_body m) \<noteq> um_sha m then Inl (Upload_value_error ''UPLOAD_MANIFEST_TAMPERED'')
          else if py_true_opt chip \<and> chip \<noteq> Some (um_chip m) then Inl (Upload_value_error ''UPLOAD_CHIP_MISMATCH'')
          else if py_true_opt environment \<and> environment \<noteq> Some (um_environment m)
          then Inl (Upload_value_error ''UPLOAD_ENVIRONMENT_MISMATCH'')
          else let p = path_of (ue_cwd ue) (um_root m) in
            if linked d p \<or> p = [] \<or> last p \<noteq> um_sha m then Inl (Upload_value_error ''UPLOAD_ROOT_INVALID'')
            else case walk d [] p of
                None \<Rightarrow> Inl Upload_os_error
              | Some r \<Rightarrow>
                  (case (case store of None \<Rightarrow> Inr () | Some s \<Rightarrow>
                           (case walk d [] (path_of (ue_cwd ue) s) of
                              None \<Rightarrow> Inl Upload_os_error
                            | Some s' \<Rightarrow> if butlast r = s' then Inr () else Inl (Upload_value_error ''UPLOAD_ROOT_INVALID''))) of
                     Inl e \<Rightarrow> Inl e
                   | Inr _ \<Rightarrow> verify_images ue d r {} 0 (um_images m)))"

text \<open>An upload verifies the set, and again when it holds the locks.\<close>

definition lock_upload_set :: "upload_env \<Rightarrow> disk \<Rightarrow> disk \<Rightarrow> pyval \<Rightarrow> upload_error + (int \<times> path) list" where
  "lock_upload_set ue d d' v =
     bind_result (verify_upload_set ue d None None None v) (\<lambda>paths.
     bind_result (verify_upload_set ue d' None None None v) (\<lambda>_. Inr paths))"

section \<open>Sealing\<close>

text \<open>The images as they are read: the role, the offset and the path of each.\<close>

fun seal_entries :: "upload_env \<Rightarrow> disk \<Rightarrow> string set \<Rightarrow> (string \<times> pyval \<times> string) list
    \<Rightarrow> upload_error + (upload_image \<times> bytes) list" where
  "seal_entries ue d seen [] = Inr []"
| "seal_entries ue d seen ((role, offset, place) # rest) =
     (let p = path_of (ue_cwd ue) place in
      case (if linked d p then None else file_at d p) of
        None \<Rightarrow> Inl (Upload_value_error ''UPLOAD_IMAGE_UNAVAILABLE'')
      | Some b \<Rightarrow>
          if b = [] \<or> IMAGE_LIMIT < int (length b) then Inl (Upload_value_error ''UPLOAD_IMAGE_SIZE_INVALID'')
          else if role \<in> seen then Inl (Upload_value_error ''UPLOAD_IMAGE_INVALID'')
          else case offset of
              VInt n \<Rightarrow>
                if n < 0 then Inl (Upload_value_error ''UPLOAD_IMAGE_INVALID'')
                else bind_result (seal_entries ue d (insert role seen) rest) (\<lambda>es.
                  Inr ((\<lparr>ui_role = role, ui_offset = n, ui_sha = ue_hash ue b, ui_size = int (length b),
                         ui_filename = image_name role\<rparr>, b) # es))
            | _ \<Rightarrow> Inl (Upload_value_error ''UPLOAD_IMAGE_INVALID''))"

fun apart :: "upload_image list \<Rightarrow> bool" where
  "apart (e # f # es) = (ui_offset e + ui_size e \<le> ui_offset f \<and> apart (f # es))"
| "apart _ = True"

text \<open>\<^verbatim>\<open>mkdir(parents=True, exist_ok=True)\<close>\<close>

fun make_dirs :: "disk \<Rightarrow> path \<Rightarrow> path \<Rightarrow> disk option" where
  "make_dirs d acc [] = Some d"
| "make_dirs d acc (c # cs) =
     (case d (acc @ [c]) of
        None \<Rightarrow> make_dirs (d(acc @ [c] \<mapsto> Disk_dir)) (acc @ [c]) cs
      | Some Disk_dir \<Rightarrow> make_dirs d (acc @ [c]) cs
      | Some (Disk_file _) \<Rightarrow> None
      | Some (Disk_link q) \<Rightarrow> if q = [] \<or> d q = Some Disk_dir then make_dirs d q cs else None)"

datatype 'a seal_end = Seal_done 'a | Seal_error upload_error | Seal_died

text \<open>Writing an image that is not there yet; \<open>torn\<close> is the number of bytes after which the process dies.\<close>

definition write_image :: "disk \<Rightarrow> path \<Rightarrow> bytes \<Rightarrow> nat option \<Rightarrow> unit seal_end \<times> disk" where
  "write_image d p b torn =
     (case d p of
        None \<Rightarrow> (case torn of None \<Rightarrow> (Seal_done (), d(p \<mapsto> Disk_file b)) | Some n \<Rightarrow> (Seal_died, d(p \<mapsto> Disk_file (take n b))))
      | Some (Disk_file b') \<Rightarrow> (if b' = b then Seal_done () else Seal_error (Upload_value_error ''SEALED_ARTIFACT_TAMPERED''), d)
      | Some (Disk_link _) \<Rightarrow> (Seal_error (Upload_value_error ''SEALED_ARTIFACT_TAMPERED''), d)
      | Some Disk_dir \<Rightarrow> (Seal_error Upload_os_error, d))"

fun write_images :: "(string \<Rightarrow> nat option) \<Rightarrow> path \<Rightarrow> (upload_image \<times> bytes) list \<Rightarrow> disk \<Rightarrow> unit seal_end \<times> disk" where
  "write_images torn r [] d = (Seal_done (), d)"
| "write_images torn r ((e, b) # es) d =
     (case write_image d (r @ [ui_filename e]) b (torn (ui_role e)) of
        (Seal_done _, d') \<Rightarrow> write_images torn r es d'
      | (Seal_error x, d') \<Rightarrow> (Seal_error x, d')
      | (Seal_died, d') \<Rightarrow> (Seal_died, d'))"

text \<open>\<^verbatim>\<open>write_text\<close> follows a link.\<close>

definition write_through :: "disk \<Rightarrow> path \<Rightarrow> bytes \<Rightarrow> disk option" where
  "write_through d p b =
     (let q = (case d p of Some (Disk_link q) \<Rightarrow> q | _ \<Rightarrow> p) in
      if q = [] \<or> d q = Some Disk_dir then None else Some (d(q \<mapsto> Disk_file b)))"

definition upload_roles :: "string set set" where
  "upload_roles = {{''bootloader'', ''partitions'', ''application''}, {''bootloader'', ''partitions'', ''ota_data'', ''application''}}"

definition seal_upload_set :: "upload_env \<Rightarrow> (string \<Rightarrow> nat option) \<Rightarrow> string \<Rightarrow> string \<Rightarrow> string \<Rightarrow> string \<Rightarrow> (string \<times> pyval) list
    \<Rightarrow> (string \<times> pyval \<times> string) list \<Rightarrow> disk \<Rightarrow> pyval seal_end \<times> disk" where
  "seal_upload_set ue torn store chip environment board toolchain images d =
     (if chip \<notin> CHIPS then (Seal_error (Upload_value_error ''UPLOAD_CHIP_UNSUPPORTED''), d)
      else case seal_entries ue d {} images of
          Inl e \<Rightarrow> (Seal_error e, d)
        | Inr found \<Rightarrow>
            (let entries = sort_key ui_offset (map fst found);
                 fields = body_fields chip environment board toolchain entries;
                 identity = digest ue (VDict fields);
                 place = walk_soft d [] (path_of (ue_cwd ue) store) @ [identity];
                 v = VDict (fields @ [(''sha256'', VStr identity), (''artifact_root'', VStr (path_text place))]) in
             if ui_role ` set entries \<notin> upload_roles then (Seal_error (Upload_value_error ''UPLOAD_SET_INCOMPLETE''), d)
             else if \<not> apart entries then (Seal_error (Upload_value_error ''UPLOAD_IMAGES_OVERLAP''), d)
             else case make_dirs d [] place of
                 None \<Rightarrow> (Seal_error Upload_os_error, d)
               | Some d1 \<Rightarrow>
                   (case walk d1 [] place of
                      None \<Rightarrow> (Seal_error Upload_os_error, d1)
                    | Some r \<Rightarrow>
                   (case write_images torn r (sort_key (\<lambda>x. ui_offset (fst x)) found) d1 of
                      (Seal_error e, d2) \<Rightarrow> (Seal_error e, d2)
                    | (Seal_died, d2) \<Rightarrow> (Seal_died, d2)
                    | (Seal_done _, d2) \<Rightarrow>
                        (case verify_upload_set ue d2 (Some store) None None v of
                           Inl e \<Rightarrow> (Seal_error e, d2)
                         | Inr _ \<Rightarrow>
                             (case write_through d2 (r @ [''manifest.json'']) (ue_dump ue v) of
                                None \<Rightarrow> (Seal_error Upload_os_error, d2)
                              | Some d3 \<Rightarrow> (Seal_done v, d3)))))))"

end
