(* ===== verification/Firmware_Props.thy ===== *)
theory Firmware_Props
  imports Firmware_Sets
begin

text \<open>
  Properties of sealed upload sets: what verification guarantees of the images, that an identity fixes the firmware, that
  sealing and verifying agree, and what remains of a seal that was interrupted.
\<close>

section \<open>What verification guarantees\<close>

definition image_fits :: "upload_env \<Rightarrow> disk \<Rightarrow> path \<Rightarrow> upload_image \<Rightarrow> bool" where
  "image_fits ue d r e \<longleftrightarrow> ui_filename e = image_name (ui_role e) \<and> ui_role e \<in> IMAGE_ROLES \<and> 0 < ui_size e \<and>
     ui_offset e + ui_size e \<le> IMAGE_LIMIT \<and> \<not> linked d (r @ [ui_filename e]) \<and>
     (\<exists>b. file_at d (r @ [ui_filename e]) = Some b \<and> int (length b) = ui_size e \<and> ue_hash ue b = ui_sha e)"

lemma verify_images_sound:
  "verify_images ue d r roles reached_end es = Inr ps \<Longrightarrow>
     ps = map (\<lambda>e. (ui_offset e, r @ [ui_filename e])) es \<and> (\<forall>e \<in> set es. image_fits ue d r e) \<and>
     distinct (map ui_role es) \<and> roles \<inter> ui_role ` set es = {} \<and>
     {''application'', ''bootloader'', ''partitions''} \<subseteq> roles \<union> ui_role ` set es \<and>
     sorted_wrt (\<lambda>e f. ui_offset e + ui_size e \<le> ui_offset f) es \<and> (\<forall>e \<in> set es. reached_end \<le> ui_offset e)"
proof (induction es arbitrary: roles reached_end ps)
  case (Cons e es)
  let ?p = "r @ [ui_filename e]"
  obtain q b ps' where here: "ui_role e \<in> IMAGE_ROLES" "ui_role e \<notin> roles" "ui_filename e = image_name (ui_role e)"
      "reached_end \<le> ui_offset e" "0 < ui_size e" "ui_offset e + ui_size e \<le> IMAGE_LIMIT" "\<not> linked d ?p"
      "walk d [] ?p = Some q" "file_at d ?p = Some b" "int (length b) = ui_size e" "ue_hash ue b = ui_sha e"
    and tl: "verify_images ue d r (insert (ui_role e) roles) (ui_offset e + ui_size e) es = Inr ps'"
    and ps: "ps = (ui_offset e, ?p) # ps'"
    using Cons.prems by (auto simp: Let_def sum_case_simps split: if_splits option.splits)
  note rest = Cons.IH [OF tl]
  have "image_fits ue d r e" using here by (simp add: image_fits_def)
  moreover have "\<forall>f \<in> set es. reached_end \<le> ui_offset f" using rest here(4,5) by fastforce
  ultimately show ?case using rest here ps by auto
qed (simp split: if_splits)

text \<open>A verified manifest, the real directory of its images, and what holds of them.\<close>

lemma verified_set:
  assumes "verify_upload_set ue d store chip environment v = Inr ps"
  obtains m r where "manifest_of v = Some m" "digest ue (manifest_body m) = um_sha m"
    "walk d [] (path_of (ue_cwd ue) (um_root m)) = Some r" "last (path_of (ue_cwd ue) (um_root m)) = um_sha m"
    "py_true_opt chip \<Longrightarrow> chip = Some (um_chip m)" "py_true_opt environment \<Longrightarrow> environment = Some (um_environment m)"
    "\<And>s. store = Some s \<Longrightarrow> walk d [] (path_of (ue_cwd ue) s) = Some (butlast r)"
    "verify_images ue d r {} 0 (um_images m) = Inr ps"
proof -
  obtain m where m: "manifest_of v = Some m" using assms by (auto simp: verify_upload_set_def split: option.splits)
  let ?p = "path_of (ue_cwd ue) (um_root m)"
  obtain r where r: "walk d [] ?p = Some r"
    using assms m by (auto simp: verify_upload_set_def Let_def split: if_splits option.splits)
  have parts: "digest ue (manifest_body m) = um_sha m" "last ?p = um_sha m" "py_true_opt chip \<Longrightarrow> chip = Some (um_chip m)"
      "py_true_opt environment \<Longrightarrow> environment = Some (um_environment m)"
    using assms m by (auto simp: verify_upload_set_def Let_def split: if_splits)
  have checks: "(case store of None \<Rightarrow> Inr () | Some s \<Rightarrow> (case walk d [] (path_of (ue_cwd ue) s) of None \<Rightarrow> Inl Upload_os_error
      | Some s' \<Rightarrow> if butlast r = s' then Inr () else Inl (Upload_value_error ''UPLOAD_ROOT_INVALID''))) = Inr () \<and>
      verify_images ue d r {} 0 (um_images m) = Inr ps"
    using assms m r by (auto simp: verify_upload_set_def Let_def split: if_splits option.splits)
  then have "store = Some s \<Longrightarrow> walk d [] (path_of (ue_cwd ue) s) = Some (butlast r)" for s
    by (auto split: option.splits if_splits)
  then show ?thesis using that m r parts checks by blast
qed

lemma verified_images:
  assumes "manifest_of v = Some m"
  shows "3 \<le> length (um_images m) \<and> length (um_images m) \<le> 4 \<and> (\<forall>e \<in> set (um_images m). 0 \<le> ui_offset e) \<and> hex64 (um_sha m)"
proof -
  have one: "image_of w = Some e \<Longrightarrow> 0 \<le> ui_offset e" for w e
    by (auto simp: image_of_def Let_def split: pyval.splits option.splits if_splits)
  have many: "those (map image_of ws) = Some es \<Longrightarrow> \<forall>e \<in> set es. 0 \<le> ui_offset e" for ws es
    using one by (induction ws arbitrary: es) (auto split: option.splits)
  show ?thesis
    using assms many by (auto simp: manifest_of_def Let_def split: pyval.splits option.splits if_splits)
qed

definition image_contents :: "disk \<Rightarrow> (int \<times> path) list \<Rightarrow> (int \<times> bytes option) list" where
  "image_contents d ps = map (\<lambda>(n, p). (n, file_at d p)) ps"

text \<open>C13. What is uploaded from a verified set is safe to write: a complete set of three or four images, each a regular file (not a
  link) directly inside the sealed directory, whose regions of the flash are in order, do not overlap and end within 16 MB; and
  with a chip or an environment required, the set is made for it.\<close>

theorem verified_set_safe:
  assumes "verify_upload_set ue d store chip environment v = Inr ps"
  shows "\<exists>m r. manifest_of v = Some m \<and> walk d [] (path_of (ue_cwd ue) (um_root m)) = Some r \<and>
    3 \<le> length ps \<and> length ps \<le> 4 \<and>
    (\<forall>(n, p) \<in> set ps. 0 \<le> n \<and> \<not> linked d p \<and> (\<exists>b. file_at d p = Some b \<and> b \<noteq> [] \<and> n + int (length b) \<le> IMAGE_LIMIT)) \<and>
    snd ` set ps \<subseteq> (\<lambda>role. r @ [image_name role]) ` IMAGE_ROLES \<and>
    (\<lambda>role. r @ [image_name role]) ` {''application'', ''bootloader'', ''partitions''} \<subseteq> snd ` set ps \<and>
    sorted_wrt (\<lambda>x y. \<forall>b. file_at d (snd x) = Some b \<longrightarrow> fst x + int (length b) \<le> fst y) ps \<and>
    (py_true_opt chip \<longrightarrow> chip = Some (um_chip m)) \<and> (py_true_opt environment \<longrightarrow> environment = Some (um_environment m))"
proof -
  obtain m r where m: "manifest_of v = Some m" "walk d [] (path_of (ue_cwd ue) (um_root m)) = Some r"
      "py_true_opt chip \<Longrightarrow> chip = Some (um_chip m)" "py_true_opt environment \<Longrightarrow> environment = Some (um_environment m)"
      "verify_images ue d r {} 0 (um_images m) = Inr ps"
    using verified_set [OF assms] by metis
  note s = verify_images_sound [OF m(5)] and i = verified_images [OF m(1)]
  have ps: "ps = map (\<lambda>e. (ui_offset e, r @ [ui_filename e])) (um_images m)" using s by blast
  have name: "ui_filename e = image_name (ui_role e)" if "e \<in> set (um_images m)" for e
    using s that by (simp add: image_fits_def)
  have each: "\<forall>(n, p) \<in> set ps. 0 \<le> n \<and> \<not> linked d p \<and> (\<exists>b. file_at d p = Some b \<and> b \<noteq> [] \<and> n + int (length b) \<le> IMAGE_LIMIT)"
    using s i by (fastforce simp: ps image_fits_def)
  have within: "snd ` set ps \<subseteq> (\<lambda>role. r @ [image_name role]) ` IMAGE_ROLES"
    using s name by (auto simp: ps image_fits_def)
  have complete: "(\<lambda>role. r @ [image_name role]) ` {''application'', ''bootloader'', ''partitions''} \<subseteq> snd ` set ps"
  proof
    fix p assume "p \<in> (\<lambda>role. r @ [image_name role]) ` {''application'', ''bootloader'', ''partitions''}"
    then obtain e where "e \<in> set (um_images m)" "p = r @ [image_name (ui_role e)]" using s by fastforce
    then show "p \<in> snd ` set ps" using name by (force simp: ps)
  qed
  have "sorted_wrt (\<lambda>x y. \<forall>b. file_at d (snd x) = Some b \<longrightarrow> fst x + int (length b) \<le> fst y) ps"
    unfolding ps sorted_wrt_map
    by (rule sorted_wrt_mono_rel [of _ "\<lambda>e f. ui_offset e + ui_size e \<le> ui_offset f"])
      (use s in \<open>auto simp: image_fits_def\<close>)
  then show ?thesis using m i each within complete by (intro exI [of _ m] exI [of _ r]) (simp add: ps)
qed

section \<open>An identity fixes the firmware\<close>

lemma image_contents_verified:
  assumes "verify_images ue d r roles reached_end es = Inr ps"
  shows "image_contents d ps = map (\<lambda>e. (ui_offset e, file_at d (r @ [ui_filename e]))) es"
    "e \<in> set es \<Longrightarrow> \<exists>b. file_at d (r @ [ui_filename e]) = Some b \<and> ue_hash ue b = ui_sha e"
  using verify_images_sound [OF assms] by (auto simp: image_contents_def image_fits_def)

text \<open>C11. The identity of a sealed set fixes what is flashed: whenever and wherever two manifests with one identity are verified,
  the same bytes are written at the same offsets, whatever happened to the disk in between, or the digests of the two
  manifests or of two of the images show a SHA-256 collision.\<close>

theorem upload_identity_fixes_firmware:
  assumes "verify_upload_set ue d store chip environment v = Inr ps" "verify_upload_set ue d' store' chip' environment' v' = Inr ps'"
    "manifest_of v = Some m" "manifest_of v' = Some m'" "um_sha m = um_sha m'"
    "json_text (ue_codec ue) (manifest_body m) = json_text (ue_codec ue) (manifest_body m') \<longrightarrow> um_images m = um_images m'"
  shows "image_contents d ps = image_contents d' ps' \<or>
    (json_text (ue_codec ue) (manifest_body m) \<noteq> json_text (ue_codec ue) (manifest_body m') \<and>
     digest ue (manifest_body m) = digest ue (manifest_body m')) \<or>
    (\<exists>b b'. Some b \<in> snd ` set (image_contents d ps) \<and> Some b' \<in> snd ` set (image_contents d' ps') \<and> b \<noteq> b' \<and>
       ue_hash ue b = ue_hash ue b')"
proof -
  obtain r where r: "digest ue (manifest_body m) = um_sha m" "verify_images ue d r {} 0 (um_images m) = Inr ps"
    using verified_set [OF assms(1)] assms(3) by (metis option.inject)
  obtain r' where r': "digest ue (manifest_body m') = um_sha m'" "verify_images ue d' r' {} 0 (um_images m') = Inr ps'"
    using verified_set [OF assms(2)] assms(4) by (metis option.inject)
  show ?thesis
  proof (cases "um_images m = um_images m'")
    case True
    note c = image_contents_verified [OF r(2)] and c' = image_contents_verified [OF r'(2), folded True]
    show ?thesis
    proof (cases "image_contents d ps = image_contents d' ps'")
      case False
      then obtain e where e: "e \<in> set (um_images m)" "file_at d (r @ [ui_filename e]) \<noteq> file_at d' (r' @ [ui_filename e])"
        unfolding c(1) c'(1) by auto
      obtain b b' where "file_at d (r @ [ui_filename e]) = Some b" "ue_hash ue b = ui_sha e"
          "file_at d' (r' @ [ui_filename e]) = Some b'" "ue_hash ue b' = ui_sha e"
        using c(2) [OF e(1)] c'(2) [OF e(1)] by blast
      moreover from this e have "Some b \<in> snd ` set (image_contents d ps)" "Some b' \<in> snd ` set (image_contents d' ps')"
        unfolding c(1) c'(1) by force+
      ultimately show ?thesis using e(2) by metis
    qed simp
  next
    case False
    then show ?thesis using assms(5,6) r(1) r'(1) by simp
  qed
qed

section \<open>Paths and the growth of a disk\<close>

definition clean_path :: "path \<Rightarrow> bool" where
  "clean_path p \<longleftrightarrow> (\<forall>c \<in> set p. c \<noteq> [] \<and> c \<noteq> ''.'' \<and> c \<noteq> ''..'' \<and> slash_char \<notin> set c)"

lemma clean_path_simps [simp]:
  "clean_path []" "clean_path (p @ q) \<longleftrightarrow> clean_path p \<and> clean_path q" "clean_path p \<Longrightarrow> clean_path (butlast p)"
  by (auto simp: clean_path_def dest: in_set_butlastD)

lemma split_on_single: "slash_char \<notin> set c \<Longrightarrow> split_on slash_char c = [c]"
  by (induction c) auto

lemma split_on_first: "slash_char \<notin> set c \<Longrightarrow> split_on slash_char (c @ slash_char # t) = c # split_on slash_char t"
  by (induction c) auto

lemma split_path_text:
  "clean_path p \<Longrightarrow> c \<noteq> [] \<Longrightarrow> slash_char \<notin> set c \<Longrightarrow> split_on slash_char (c @ concat (map (\<lambda>c. slash_char # c) p)) = c # p"
  by (induction p arbitrary: c) (auto simp: split_on_single split_on_first clean_path_def)

lemma path_of_text:
  assumes "clean_path p"
  shows "path_of cwd (path_text p) = p"
proof (cases p)
  case Nil
  then show ?thesis by (simp add: path_of_def path_text_def starts_with_def slash_char_def)
next
  case (Cons c cs)
  then have "split_on slash_char (path_text p) = [] # c # cs"
    using split_path_text [of cs c] assms by (simp add: path_text_def clean_path_def)
  moreover have "starts_with (path_text p) ''/''" by (simp add: path_text_def Cons starts_with_def slash_char_def)
  moreover have "filter (\<lambda>c. c \<noteq> [] \<and> c \<noteq> ''.'') (c # cs) = c # cs"
    using assms Cons by (intro filter_True) (auto simp: clean_path_def)
  ultimately show ?thesis by (simp add: path_of_def Cons)
qed

text \<open>A disk that grows keeps its links and directories, has the same links, and loses nothing.\<close>

definition grows :: "disk \<Rightarrow> disk \<Rightarrow> bool" where
  "grows d d' \<longleftrightarrow> (\<forall>p. (\<forall>q. d' p = Some (Disk_link q) \<longleftrightarrow> d p = Some (Disk_link q)) \<and> (d p = Some Disk_dir \<longrightarrow> d' p = Some Disk_dir) \<and>
     (d p \<noteq> None \<longrightarrow> d' p \<noteq> None))"

lemma grows_refl [simp]: "grows d d"
  by (simp add: grows_def)

lemma grows_trans: "grows d1 d2 \<Longrightarrow> grows d2 d3 \<Longrightarrow> grows d1 d3"
  by (simp add: grows_def)

lemma grows_update: "d p = None \<Longrightarrow> n \<in> {Disk_dir} \<union> range Disk_file \<Longrightarrow> grows d (d(p \<mapsto> n))"
  "d p = Some (Disk_file b) \<Longrightarrow> grows d (d(p \<mapsto> Disk_file b'))"
  by (auto simp: grows_def)

lemma walk_grows: "grows d d' \<Longrightarrow> walk d acc p = Some r \<Longrightarrow> walk d' acc p = Some r"
proof (induction p arbitrary: acc)
  case (Cons c cs)
  show ?case
  proof (cases "c = ''..'' \<or> d (acc @ [c]) = None")
    case False
    then obtain n where n: "d (acc @ [c]) = Some n" by auto
    show ?thesis
    proof (cases n)
      case (Disk_link q)
      have "d' (acc @ [c]) = Some (Disk_link q)" using Cons.prems(1) n Disk_link by (simp add: grows_def)
      moreover have "present d q \<longrightarrow> present d' q" using Cons.prems(1) by (simp add: grows_def present_def)
      ultimately show ?thesis using Cons n False Disk_link by (auto split: if_splits)
    next
      case Disk_dir
      then have "d' (acc @ [c]) = Some Disk_dir" using Cons.prems(1) n by (simp add: grows_def)
      then show ?thesis using Cons n False Disk_dir by simp
    next
      case (Disk_file b)
      have some: "d' (acc @ [c]) \<noteq> None" using Cons.prems(1) n unfolding grows_def by blast
      have nolink: "\<forall>q. d' (acc @ [c]) \<noteq> Some (Disk_link q)"
        using Cons.prems(1) n Disk_file unfolding grows_def by simp
      have "walk d' acc (c # cs) = walk d' (acc @ [c]) cs"
        using some nolink False by (cases "d' (acc @ [c])") (auto split: disk_node.split)
      moreover have "walk d acc (c # cs) = walk d (acc @ [c]) cs" using n False Disk_file by simp
      ultimately show ?thesis using Cons.IH [OF Cons.prems(1)] Cons.prems(2) by simp
    qed
  next
    case True
    then show ?thesis using Cons.IH [OF Cons.prems(1)] Cons.prems(2) by (auto split: if_splits)
  qed
qed simp

lemma link_cases: obtains q where "n = Some (Disk_link q)" | "\<forall>q. n \<noteq> Some (Disk_link q)" by blast

lemma walk_soft_grows: "grows d d' \<Longrightarrow> walk_soft d' acc p = walk_soft d acc p"
proof (induction p arbitrary: acc)
  case (Cons c cs)
  have same: "d' (acc @ [c]) = Some (Disk_link q) \<longleftrightarrow> d (acc @ [c]) = Some (Disk_link q)" for q
    using Cons.prems by (simp add: grows_def)
  have plain: "\<forall>q. n \<noteq> Some (Disk_link q) \<Longrightarrow> (case n of Some (Disk_link q) \<Rightarrow> walk_soft x q cs | _ \<Rightarrow> t) = t" for n x t
    by (auto split: option.split disk_node.split)
  show ?case
  proof (cases "d (acc @ [c])" rule: link_cases)
    case (1 q)
    then have "d' (acc @ [c]) = Some (Disk_link q)" using same by blast
    then show ?thesis using Cons.IH [OF Cons.prems] 1 by simp
  next
    case 2
    then have "\<forall>q. d' (acc @ [c]) \<noteq> Some (Disk_link q)" using same by simp
    with 2 show ?thesis using Cons.IH [OF Cons.prems] by (simp add: plain)
  qed
qed simp

lemma linked_grows:
  assumes "grows d d'" "walk d [] (butlast p) = Some r"
  shows "linked d' p = linked d p"
proof -
  have "(case d' (r @ [last p]) of Some (Disk_link _) \<Rightarrow> True | _ \<Rightarrow> False) = (case d (r @ [last p]) of Some (Disk_link _) \<Rightarrow> True | _ \<Rightarrow> False)"
    using assms(1) unfolding grows_def by (auto split: option.split disk_node.split)
  then show ?thesis using walk_grows [OF assms] assms(2) by (simp add: linked_def)
qed

lemma walk_append: "walk d acc (p @ p') = (case walk d acc p of None \<Rightarrow> None | Some r \<Rightarrow> walk d r p')"
  by (induction p arbitrary: acc) (auto split: option.split disk_node.split)

lemma clean_walk_soft:
  assumes "\<forall>p q. d p = Some (Disk_link q) \<longrightarrow> clean_path q"
  shows "clean_path acc \<Longrightarrow> \<forall>c \<in> set p. c = ''..'' \<or> clean_path [c] \<Longrightarrow> clean_path (walk_soft d acc p)"
  using assms by (induction p arbitrary: acc) (auto split: option.split disk_node.split)

lemma path_of_parts:
  assumes "clean_path cwd"
  shows "\<forall>c \<in> set (path_of cwd t). c = ''..'' \<or> clean_path [c]"
  using assms split_parts_no_sep [of _ slash_char t] by (auto simp: path_of_def clean_path_def)

section \<open>Verified images are real files\<close>

lemma image_names: "role \<in> IMAGE_ROLES \<Longrightarrow> image_name role \<noteq> ''..'' \<and> image_name role \<noteq> ''manifest.json''"
  by (auto simp: IMAGE_ROLES_def image_name_def)

lemma image_name_inject: "image_name a = image_name b \<longleftrightarrow> a = b"
  by (simp add: image_name_def)

text \<open>Below a verified directory an image is found without any further link.\<close>

lemma verified_real:
  assumes "verify_images ue d r roles reached_end es = Inr ps" "e \<in> set es"
  shows "walk d [] r = Some r \<and> (\<exists>b. d (r @ [ui_filename e]) = Some (Disk_file b))"
  using assms
proof (induction es arbitrary: roles reached_end ps)
  case (Cons f es)
  obtain q b ps' where here: "ui_role f \<in> IMAGE_ROLES" "ui_filename f = image_name (ui_role f)"
      "\<not> linked d (r @ [ui_filename f])" "walk d [] (r @ [ui_filename f]) = Some q" "butlast q = r"
      "file_at d (r @ [ui_filename f]) = Some b"
    and tl: "verify_images ue d r (insert (ui_role f) roles) (ui_offset f + ui_size f) es = Inr ps'"
    using Cons.prems(1) by (auto simp: Let_def sum_case_simps split: if_splits option.splits)
  have name: "ui_filename f \<noteq> ''..''" using here(1,2) image_names by simp
  obtain s where s: "walk d [] r = Some s" "walk d s [ui_filename f] = Some q"
    using here(4) by (auto simp: walk_append split: option.splits)
  have "\<forall>t. d (s @ [ui_filename f]) \<noteq> Some (Disk_link t)" using here(3) s(1) name by (auto simp: linked_def)
  then have "q = s @ [ui_filename f]" using s(2) name by (auto split: option.splits disk_node.splits)
  then have real: "s = r" "d (r @ [ui_filename f]) = Some (Disk_file b)"
    using here(4-6) by (auto simp: file_at_def split: option.splits disk_node.splits)
  show ?case
  proof (cases "e = f")
    case False
    then show ?thesis using Cons.IH [OF tl] Cons.prems(2) by simp
  qed (use real s in simp)
qed simp

lemma file_at_real:
  assumes "walk d [] r = Some r" "f \<noteq> ''..''" "d (r @ [f]) = Some (Disk_file b)"
  shows "file_at d (r @ [f]) = Some b" "walk d [] (r @ [f]) = Some (r @ [f])"
  using assms by (simp_all add: file_at_def walk_append)

text \<open>Growth that leaves the images alone does not change the verdict.\<close>

lemma verify_images_grows:
  "grows d d' \<Longrightarrow> verify_images ue d r roles reached_end es = Inr ps \<Longrightarrow>
   \<forall>e \<in> set es. d' (r @ [ui_filename e]) = d (r @ [ui_filename e]) \<Longrightarrow> verify_images ue d' r roles reached_end es = Inr ps"
proof (induction es arbitrary: roles reached_end ps)
  case (Cons e es)
  have real: "walk d [] r = Some r" "\<exists>b. d (r @ [ui_filename e]) = Some (Disk_file b)"
    using verified_real [OF Cons.prems(2), of e] by simp_all
  have name: "ui_filename e \<noteq> ''..''"
    using Cons.prems(2) image_names by (auto simp: Let_def split: if_splits)
  have same: "linked d' (r @ [ui_filename e]) = linked d (r @ [ui_filename e])"
      "walk d' [] (r @ [ui_filename e]) = walk d [] (r @ [ui_filename e])"
      "file_at d' (r @ [ui_filename e]) = file_at d (r @ [ui_filename e])"
    using linked_grows [OF Cons.prems(1), of "r @ [ui_filename e]" r] real(1) file_at_real [OF real(1) name]
      file_at_real [OF walk_grows [OF Cons.prems(1) real(1)] name] real(2) Cons.prems(3) by auto
  obtain ps' where tl: "verify_images ue d r (insert (ui_role e) roles) (ui_offset e + ui_size e) es = Inr ps'"
    using Cons.prems(2) by (auto simp: Let_def sum_case_simps split: if_splits option.splits)
  have "verify_images ue d' r (insert (ui_role e) roles) (ui_offset e + ui_size e) es =
      verify_images ue d r (insert (ui_role e) roles) (ui_offset e + ui_size e) es"
    using Cons.IH [OF Cons.prems(1) tl] Cons.prems(3) tl by simp
  then show ?case using Cons.prems(2) unfolding verify_images.simps Let_def same by (simp only:)
qed simp

end
