(* ===== verification/Firmware_Sealing.thy ===== *)
theory Firmware_Sealing
  imports Firmware_Props
begin

text \<open>
  Sealing an upload set (\<^verbatim>\<open>seal_upload_set\<close>): a sealed set verifies and holds the given images, sealing it again changes
  nothing, and a seal that was interrupted while it wrote an image can never be repeated.
\<close>

section \<open>The steps of a seal\<close>

lemma make_dirs_grows:
  "make_dirs d acc p = Some d1 \<Longrightarrow> grows d d1 \<and> (\<forall>d2. grows d1 d2 \<longrightarrow> make_dirs d2 acc p = Some d2)"
proof (induction p arbitrary: d acc)
  case (Cons c cs)
  let ?q = "acc @ [c]"
  show ?case
  proof (cases "d ?q")
    case None
    let ?d = "d(?q \<mapsto> Disk_dir)"
    have step: "make_dirs ?d ?q cs = Some d1" using Cons.prems None by simp
    note ih = Cons.IH [OF step]
    have "d1 ?q = Some Disk_dir" using ih by (simp add: grows_def)
    then have "make_dirs d2 acc (c # cs) = Some d2" if "grows d1 d2" for d2
      using ih that by (simp add: grows_def)
    moreover have "grows d d1" using grows_trans [OF grows_update(1) [of d ?q Disk_dir]] None ih by blast
    ultimately show ?thesis by blast
  next
    case (Some n)
    show ?thesis
    proof (cases n)
      case Disk_dir
      then have step: "make_dirs d ?q cs = Some d1" using Cons.prems Some by simp
      note ih = Cons.IH [OF step]
      have "d1 ?q = Some Disk_dir" using ih Some Disk_dir by (simp add: grows_def)
      then show ?thesis using ih by (simp add: grows_def)
    next
      case (Disk_link q)
      then have step: "make_dirs d q cs = Some d1" and dir: "q = [] \<or> d q = Some Disk_dir"
        using Cons.prems Some by (auto split: if_splits)
      note ih = Cons.IH [OF step]
      have "d1 ?q = Some (Disk_link q)" "q = [] \<or> d1 q = Some Disk_dir" using ih Some Disk_link dir by (auto simp: grows_def)
      have "make_dirs d2 acc (c # cs) = Some d2" if g: "grows d1 d2" for d2
      proof -
        have "d2 ?q = Some (Disk_link q)" "q = [] \<or> d2 q = Some Disk_dir"
          using g \<open>d1 ?q = Some (Disk_link q)\<close> \<open>q = [] \<or> d1 q = Some Disk_dir\<close> by (auto simp: grows_def)
        moreover have "make_dirs d2 q cs = Some d2" using ih g by blast
        ultimately show ?thesis by simp
      qed
      then show ?thesis using ih by blast
    next
      case (Disk_file b)
      then show ?thesis using Cons.prems Some by simp
    qed
  qed
qed simp

definition targets :: "path \<Rightarrow> (upload_image \<times> bytes) list \<Rightarrow> path set" where
  "targets r es = (\<lambda>x. r @ [ui_filename (fst x)]) ` set es"

definition holds_images :: "disk \<Rightarrow> path \<Rightarrow> (upload_image \<times> bytes) list \<Rightarrow> bool" where
  "holds_images d r es \<longleftrightarrow> (\<forall>(e, b) \<in> set es. d (r @ [ui_filename e]) = Some (Disk_file b))"

lemma write_image_ok:
  "write_image d p b torn = (Seal_done (), d') \<Longrightarrow> grows d d' \<and> d' p = Some (Disk_file b) \<and> (\<forall>q. q \<noteq> p \<longrightarrow> d' q = d q)"
  using grows_update(1) [of d p "Disk_file b"]
  by (auto simp: write_image_def split: option.splits disk_node.splits if_splits)

lemma write_images_ok:
  "write_images torn r es d = (Seal_done (), d') \<Longrightarrow> distinct (map (ui_filename \<circ> fst) es) \<Longrightarrow>
   grows d d' \<and> holds_images d' r es \<and> (\<forall>p. p \<notin> targets r es \<longrightarrow> d' p = d p)"
proof (induction es arbitrary: d)
  case (Cons x es)
  obtain e b where x: "x = (e, b)" by fastforce
  obtain d1 where one: "write_image d (r @ [ui_filename e]) b (torn (ui_role e)) = (Seal_done (), d1)"
      and rest: "write_images torn r es d1 = (Seal_done (), d')"
    using Cons.prems(1) x by (auto split: prod.splits seal_end.splits)
  note ih = Cons.IH [OF rest] and w = write_image_ok [OF one]
  have other: "r @ [ui_filename e] \<notin> targets r es" using Cons.prems(2) x by (auto simp: targets_def image_iff)
  then have "d' (r @ [ui_filename e]) = Some (Disk_file b)" using ih Cons.prems(2) w by simp
  then show ?case using ih w grows_trans Cons.prems(2) x by (auto simp: holds_images_def targets_def)
qed (simp add: holds_images_def)

lemma write_images_again: "holds_images d r es \<Longrightarrow> write_images torn r es d = (Seal_done (), d)"
  by (induction es) (auto simp: holds_images_def write_image_def)

lemma seal_entries_images:
  "seal_entries ue d seen images = Inr found \<Longrightarrow>
   distinct (map (ui_role \<circ> fst) found) \<and> seen \<inter> (ui_role \<circ> fst) ` set found = {} \<and>
   (\<forall>(e, b) \<in> set found. ui_filename e = image_name (ui_role e) \<and> ui_sha e = ue_hash ue b \<and> b \<noteq> [])"
proof (induction images arbitrary: seen found)
  case (Cons i images)
  obtain role offset place where i: "i = (role, offset, place)" by (cases i)
  obtain b n es where "b \<noteq> []" "role \<notin> seen" "seal_entries ue d (insert role seen) images = Inr es"
      "found = (\<lparr>ui_role = role, ui_offset = n, ui_sha = ue_hash ue b, ui_size = int (length b), ui_filename = image_name role\<rparr>, b) # es"
    using Cons.prems i by (auto simp: Let_def sum_case_simps split: if_splits option.splits pyval.splits)
  then show ?case using Cons.IH [of "insert role seen" es] by auto
qed simp

lemma distinct_names:
  assumes "seal_entries ue d {} images = Inr found"
  shows "distinct (map (ui_filename \<circ> fst) found)"
proof -
  note f = seal_entries_images [OF assms]
  have "map (ui_filename \<circ> fst) found = map image_name (map (ui_role \<circ> fst) found)" using f by auto
  moreover have "inj image_name" by (simp add: inj_def image_name_inject)
  ultimately show ?thesis using f distinct_map inj_on_subset by (metis subset_UNIV)
qed

lemma map_fst_insort: "map fst (insort_key (\<lambda>x. f (fst x)) a xs) = insort_key f (fst a) (map fst xs)"
  by (induction xs) simp_all

lemma map_fst_sort: "map fst (sort_key (\<lambda>x. f (fst x)) xs) = sort_key f (map fst xs)"
  by (induction xs) (simp_all add: map_fst_insort)

text \<open>The schema gives back what was sealed.\<close>

lemma image_of_value: "image_of (image_value e) = Some e' \<Longrightarrow> e' = e"
  by (auto simp: image_of_def image_value_def dict_of_def Let_def split: if_splits)

lemma images_of_values: "those (map image_of (map image_value es)) = Some es' \<Longrightarrow> es' = es"
proof (induction es arbitrary: es')
  case (Cons e es)
  then show ?case using image_of_value by (fastforce split: option.splits)
qed simp

lemma manifest_of_sealed:
  assumes "manifest_of (VDict (body_fields chip environment board toolchain entries @
    [(''sha256'', VStr identity), (''artifact_root'', VStr place)])) = Some m"
  shows "m = \<lparr>um_chip = chip, um_environment = environment, um_board = board, um_toolchain = toolchain,
    um_images = entries, um_sha = identity, um_root = place\<rparr>"
proof -
  obtain es where es: "those (map image_of (map image_value entries)) = Some es" "m = \<lparr>um_chip = chip, um_environment = environment,
      um_board = board, um_toolchain = toolchain, um_images = es, um_sha = identity, um_root = place\<rparr>"
    using assms by (auto simp: manifest_of_def body_fields_def dict_of_def Let_def simp del: map_map split: if_splits option.splits)
  then show ?thesis using images_of_values by simp
qed

text \<open>A seal up to the writing of its images: the identity, the place of the set and the disk with its directory.\<close>

definition seal_identity :: "upload_env \<Rightarrow> string \<Rightarrow> string \<Rightarrow> string \<Rightarrow> (string \<times> pyval) list \<Rightarrow> (upload_image \<times> bytes) list \<Rightarrow> string" where
  "seal_identity ue chip environment board toolchain found =
     digest ue (VDict (body_fields chip environment board toolchain (sort_key ui_offset (map fst found))))"

definition seal_place :: "upload_env \<Rightarrow> disk \<Rightarrow> string \<Rightarrow> string \<Rightarrow> path" where
  "seal_place ue d store identity = walk_soft d [] (path_of (ue_cwd ue) store) @ [identity]"

definition seal_manifest :: "upload_env \<Rightarrow> disk \<Rightarrow> string \<Rightarrow> string \<Rightarrow> string \<Rightarrow> string \<Rightarrow> (string \<times> pyval) list
    \<Rightarrow> (upload_image \<times> bytes) list \<Rightarrow> pyval" where
  "seal_manifest ue d store chip environment board toolchain found =
     (let identity = seal_identity ue chip environment board toolchain found in
      VDict (body_fields chip environment board toolchain (sort_key ui_offset (map fst found)) @
        [(''sha256'', VStr identity), (''artifact_root'', VStr (path_text (seal_place ue d store identity)))]))"

abbreviation in_order :: "(upload_image \<times> bytes) list \<Rightarrow> (upload_image \<times> bytes) list" where
  "in_order found \<equiv> sort_key (\<lambda>x. ui_offset (fst x)) found"

lemma seal_written:
  assumes "seal_upload_set ue torn store chip environment board toolchain images d = (res, d')" "\<nexists>e. res = Seal_error e"
    "seal_entries ue d {} images = Inr found"
  obtains d1 r w d2 where "chip \<in> CHIPS" "ui_role ` set (sort_key ui_offset (map fst found)) \<in> upload_roles"
    "apart (sort_key ui_offset (map fst found))"
    "make_dirs d [] (seal_place ue d store (seal_identity ue chip environment board toolchain found)) = Some d1"
    "walk d1 [] (seal_place ue d store (seal_identity ue chip environment board toolchain found)) = Some r"
    "write_images torn r (in_order found) d1 = (w, d2)"
    "(w = Seal_died \<and> res = Seal_died \<and> d' = d2) \<or>
     (\<exists>ps. w = Seal_done () \<and> res = Seal_done (seal_manifest ue d store chip environment board toolchain found) \<and>
        verify_upload_set ue d2 (Some store) None None (seal_manifest ue d store chip environment board toolchain found) = Inr ps \<and>
        write_through d2 (r @ [''manifest.json'']) (ue_dump ue (seal_manifest ue d store chip environment board toolchain found)) = Some d')"
proof -
  let ?i = "seal_identity ue chip environment board toolchain found"
  let ?place = "seal_place ue d store ?i" and ?v = "seal_manifest ue d store chip environment board toolchain found"
  have ok: "chip \<in> CHIPS" "ui_role ` set (sort_key ui_offset (map fst found)) \<in> upload_roles" "apart (sort_key ui_offset (map fst found))"
    using assms by (auto simp: seal_upload_set_def Let_def split: if_splits)
  have seal: "(case make_dirs d [] ?place of
                 None \<Rightarrow> (Seal_error Upload_os_error, d)
               | Some d1 \<Rightarrow>
                   (case walk d1 [] ?place of
                      None \<Rightarrow> (Seal_error Upload_os_error, d1)
                    | Some r \<Rightarrow>
                   (case write_images torn r (in_order found) d1 of
                      (Seal_error e, d2) \<Rightarrow> (Seal_error e, d2)
                    | (Seal_died, d2) \<Rightarrow> (Seal_died, d2)
                    | (Seal_done _, d2) \<Rightarrow>
                        (case verify_upload_set ue d2 (Some store) None None ?v of
                           Inl e \<Rightarrow> (Seal_error e, d2)
                         | Inr _ \<Rightarrow>
                             (case write_through d2 (r @ [''manifest.json'']) (ue_dump ue ?v) of
                                None \<Rightarrow> (Seal_error Upload_os_error, d2)
                              | Some d3 \<Rightarrow> (Seal_done ?v, d3)))))) = (res, d')"
    using assms(1,3) ok unfolding seal_upload_set_def seal_identity_def seal_place_def seal_manifest_def Let_def by simp
  obtain d1 where d1: "make_dirs d [] ?place = Some d1" using seal assms(2) by (auto split: option.splits)
  obtain r where r: "walk d1 [] ?place = Some r" using seal assms(2) d1 by (auto split: option.splits)
  obtain w d2 where w: "write_images torn r (in_order found) d1 = (w, d2)" by fastforce
  have "(w = Seal_died \<and> res = Seal_died \<and> d' = d2) \<or>
     (\<exists>ps. w = Seal_done () \<and> res = Seal_done ?v \<and> verify_upload_set ue d2 (Some store) None None ?v = Inr ps \<and>
        write_through d2 (r @ [''manifest.json'']) (ue_dump ue ?v) = Some d')"
    using seal assms(2) d1 r w by (cases w) (auto split: sum.splits option.splits)
  then show ?thesis using that ok d1 r w by blast
qed

section \<open>Sealed sets verify\<close>

lemma in_order_set [simp]: "set (in_order found) = set found"
  by simp

lemma in_order_distinct:
  assumes "seal_entries ue d {} images = Inr found"
  shows "distinct (map (ui_filename \<circ> fst) (in_order found))"
  using distinct_names [OF assms] by (simp add: distinct_map)

text \<open>What a verified manifest says of the directory of a seal.\<close>

lemma sealed_images:
  assumes "verify_upload_set ue d2 (Some store) None None (seal_manifest ue d store chip environment board toolchain found) = Inr ps"
    "clean_path (seal_place ue d store (seal_identity ue chip environment board toolchain found))"
    "walk d2 [] (seal_place ue d store (seal_identity ue chip environment board toolchain found)) = Some r"
  shows "verify_images ue d2 r {} 0 (map fst (in_order found)) = Inr ps"
proof -
  let ?v = "seal_manifest ue d store chip environment board toolchain found"
  obtain m rv where m: "manifest_of ?v = Some m" "walk d2 [] (path_of (ue_cwd ue) (um_root m)) = Some rv"
      "verify_images ue d2 rv {} 0 (um_images m) = Inr ps"
    using verified_set [OF assms(1)] by metis
  have form: "um_images m = map fst (in_order found)"
      "um_root m = path_text (seal_place ue d store (seal_identity ue chip environment board toolchain found))"
    using manifest_of_sealed [OF m(1) [unfolded seal_manifest_def Let_def]] by (simp_all add: map_fst_sort)
  then have "rv = r" using m(2) assms(2,3) by (simp add: path_of_text)
  then show ?thesis using m(3) form by simp
qed

lemma verify_upload_setI:
  assumes "manifest_of v = Some m" "digest ue (manifest_body m) = um_sha m" "\<not> (py_true_opt c \<and> c \<noteq> Some (um_chip m))"
    "\<not> (py_true_opt n \<and> n \<noteq> Some (um_environment m))" "\<not> linked d (path_of (ue_cwd ue) (um_root m))"
    "path_of (ue_cwd ue) (um_root m) \<noteq> []" "last (path_of (ue_cwd ue) (um_root m)) = um_sha m"
    "walk d [] (path_of (ue_cwd ue) (um_root m)) = Some r"
    "\<And>s. store = Some s \<Longrightarrow> walk d [] (path_of (ue_cwd ue) s) = Some (butlast r)"
  shows "verify_upload_set ue d store c n v = verify_images ue d r {} 0 (um_images m)"
  using assms(1-8) assms(9) [of "the store"] unfolding verify_upload_set_def Let_def by (cases store) auto

text \<open>A verdict on a grown disk: the same as before, also with the chip and the environment of the set.\<close>

lemma verify_again:
  assumes "verify_upload_set ue d2 (Some store) None None (seal_manifest ue d store chip environment board toolchain found) = Inr ps"
    "grows d2 d3" "clean_path (seal_place ue d store (seal_identity ue chip environment board toolchain found))"
    "walk d2 [] (seal_place ue d store (seal_identity ue chip environment board toolchain found)) = Some r"
    "\<forall>(e, b) \<in> set found. d3 (r @ [ui_filename e]) = d2 (r @ [ui_filename e])" "store' \<in> {None, Some store}"
    "c \<in> {None, Some chip}" "n \<in> {None, Some environment}"
  shows "verify_upload_set ue d3 store' c n (seal_manifest ue d store chip environment board toolchain found) = Inr ps"
proof -
  let ?i = "seal_identity ue chip environment board toolchain found"
  let ?v = "seal_manifest ue d store chip environment board toolchain found" and ?p = "seal_place ue d store ?i"
  have images: "verify_images ue d2 r {} 0 (map fst (in_order found)) = Inr ps" by (rule sealed_images [OF assms(1,3,4)])
  have images': "verify_images ue d3 r {} 0 (map fst (in_order found)) = Inr ps"
    by (rule verify_images_grows [OF assms(2) images]) (use assms(5) in \<open>auto simp: split_beta\<close>)
  obtain m where m: "manifest_of ?v = Some m" using verified_set [OF assms(1)] by metis
  have form: "m = \<lparr>um_chip = chip, um_environment = environment, um_board = board, um_toolchain = toolchain,
      um_images = map fst (in_order found), um_sha = ?i, um_root = path_text ?p\<rparr>"
    using manifest_of_sealed [OF m [unfolded seal_manifest_def Let_def]] by (simp add: map_fst_sort)
  have place: "path_of (ue_cwd ue) (um_root m) = ?p" using form assms(3) by (simp add: path_of_text)
  have parent: "\<exists>s. walk d2 [] (butlast ?p) = Some s"
  proof -
    have "?p = butlast ?p @ [last ?p]" by (simp add: seal_place_def)
    then show ?thesis using assms(4) walk_append [of d2 "[]" "butlast ?p" "[last ?p]"] by (auto split: option.splits)
  qed
  have link: "linked d3 ?p = linked d2 ?p" using parent linked_grows [OF assms(2)] by blast
  have walk: "walk d3 [] ?p = Some r" by (rule walk_grows [OF assms(2,4)])
  have digest: "digest ue (manifest_body m) = um_sha m"
    by (simp add: form manifest_body_def seal_identity_def map_fst_sort)
  have shape: "?p \<noteq> []" "last ?p = ?i" by (simp_all add: seal_place_def)
  have old: "\<not> linked d2 ?p" "walk d2 [] (path_of (ue_cwd ue) store) = Some (butlast r)"
    using assms(1,4) m digest place shape form by (auto simp: verify_upload_set_def Let_def split: if_splits option.splits)
  have stored: "walk d3 [] (path_of (ue_cwd ue) store) = Some (butlast r)" by (rule walk_grows [OF assms(2) old(2)])
  have wanted: "\<not> (py_true_opt c \<and> c \<noteq> Some (um_chip m))" "\<not> (py_true_opt n \<and> n \<noteq> Some (um_environment m))"
    using assms(7,8) form by (auto simp: py_true_opt_def)
  have "verify_upload_set ue d3 store' c n ?v = verify_images ue d3 r {} 0 (um_images m)"
    by (rule verify_upload_setI [OF m digest wanted])
      (use place shape walk link old(1) stored assms(6) form in auto)
  then show ?thesis using images' form by simp
qed

lemma seal_place_clean:
  assumes "\<forall>p q. d p = Some (Disk_link q) \<longrightarrow> clean_path q" "clean_path (ue_cwd ue)" "hex64 identity"
  shows "clean_path (seal_place ue d store identity)"
proof -
  have "clean_path (walk_soft d [] (path_of (ue_cwd ue) store))"
    by (rule clean_walk_soft [OF assms(1)]) (use path_of_parts [OF assms(2)] in simp_all)
  moreover have "clean_path [identity]" using assms(3) by (auto simp: clean_path_def hex64_def slash_char_def)
  ultimately show ?thesis by (simp add: seal_place_def)
qed

lemma seal_place_grows: "grows d d' \<Longrightarrow> seal_place ue d' store identity = seal_place ue d store identity"
  by (simp add: seal_place_def walk_soft_grows)

lemma upload_role_names:
  assumes "ui_role ` set es \<in> upload_roles" "e \<in> set es"
  shows "ui_role e \<in> IMAGE_ROLES"
  using assms by (auto simp: upload_roles_def IMAGE_ROLES_def)

lemma seal_computes:
  assumes "chip \<in> CHIPS" "seal_entries ue d {} images = Inr found" "ui_role ` set (sort_key ui_offset (map fst found)) \<in> upload_roles"
    "apart (sort_key ui_offset (map fst found))"
    "make_dirs d [] (seal_place ue d store (seal_identity ue chip environment board toolchain found)) = Some d1"
    "walk d1 [] (seal_place ue d store (seal_identity ue chip environment board toolchain found)) = Some r"
    "write_images torn r (in_order found) d1 = (w, d2)"
  shows "w = Seal_error x \<Longrightarrow> seal_upload_set ue torn store chip environment board toolchain images d = (Seal_error x, d2)"
    "w = Seal_done () \<Longrightarrow>
     verify_upload_set ue d2 (Some store) None None (seal_manifest ue d store chip environment board toolchain found) = Inr ps \<Longrightarrow>
     write_through d2 (r @ [''manifest.json'']) (ue_dump ue (seal_manifest ue d store chip environment board toolchain found)) = Some d3 \<Longrightarrow>
     seal_upload_set ue torn store chip environment board toolchain images d =
       (Seal_done (seal_manifest ue d store chip environment board toolchain found), d3)"
  using assms unfolding seal_upload_set_def seal_identity_def seal_place_def seal_manifest_def Let_def by simp_all

lemma seal_manifest_grows:
  "grows d d' \<Longrightarrow> seal_manifest ue d' store chip environment board toolchain found =
     seal_manifest ue d store chip environment board toolchain found"
  by (simp add: seal_manifest_def seal_place_grows)

lemma write_through_plain:
  assumes "\<forall>q. d p \<noteq> Some (Disk_link q)" "write_through d p b = Some d'"
  shows "d' = d(p \<mapsto> Disk_file b)" "grows d d'" "write_through d' p b = Some d'"
proof -
  have target: "(case x of Some (Disk_link q) \<Rightarrow> q | _ \<Rightarrow> p) = p" if "\<forall>q. x \<noteq> Some (Disk_link q)" for x
    using that by (auto split: option.split disk_node.split)
  then have ok: "p \<noteq> []" "d p \<noteq> Some Disk_dir" and d': "d' = d(p \<mapsto> Disk_file b)"
    using assms by (auto simp: write_through_def Let_def split: if_splits)
  show "d' = d(p \<mapsto> Disk_file b)" by (rule d')
  show "grows d d'"
  proof (cases "d p")
    case None
    then show ?thesis using grows_update(1) [of d p "Disk_file b"] d' by simp
  next
    case (Some n)
    then obtain b' where "d p = Some (Disk_file b')" using assms(1) ok by (cases n) auto
    then show ?thesis using grows_update(2) d' by simp
  qed
  show "write_through d' p b = Some d'" using ok by (simp add: write_through_def d')
qed

text \<open>C12. A sealed set is what it was sealed from: its manifest verifies, with the store, chip and environment it was made for, and the
  verified images are the given ones at the given offsets, in order; sealing the same images again changes nothing and gives the same
  manifest. (Links lead to plain paths and none is called \<open>manifest.json\<close>; the images to seal are not changed by the seal.)\<close>

theorem sealed_set_verifies:
  assumes "seal_upload_set ue torn store chip environment board toolchain images d = (Seal_done v, d')"
    "seal_entries ue d {} images = Inr found" "seal_entries ue d' {} images = Inr found"
    "\<forall>p q. d p = Some (Disk_link q) \<longrightarrow> clean_path q \<and> last p \<noteq> ''manifest.json''" "clean_path (ue_cwd ue)"
    "\<forall>t. hex64 (sha256 (ue_codec ue) t)"
  shows "\<exists>ps. verify_upload_set ue d' (Some store) (Some chip) (Some environment) v = Inr ps \<and>
    image_contents d' ps = map (\<lambda>(e, b). (ui_offset e, Some b)) (sort_key (\<lambda>x. ui_offset (fst x)) found) \<and>
    seal_upload_set ue torn' store chip environment board toolchain images d' = (Seal_done v, d')"
proof -
  let ?i = "seal_identity ue chip environment board toolchain found"
  let ?p = "seal_place ue d store ?i" and ?m = "seal_manifest ue d store chip environment board toolchain found"
  obtain d1 r w d2 where s: "chip \<in> CHIPS" "ui_role ` set (sort_key ui_offset (map fst found)) \<in> upload_roles"
      "apart (sort_key ui_offset (map fst found))" "make_dirs d [] ?p = Some d1" "walk d1 [] ?p = Some r"
      "write_images torn r (in_order found) d1 = (w, d2)"
    and fin: "(w = Seal_died \<and> Seal_done v = (Seal_died :: pyval seal_end) \<and> d' = d2) \<or>
     (\<exists>ps. w = Seal_done () \<and> Seal_done v = Seal_done ?m \<and> verify_upload_set ue d2 (Some store) None None ?m = Inr ps \<and>
        write_through d2 (r @ [''manifest.json'']) (ue_dump ue ?m) = Some d')"
    using seal_written [OF assms(1) _ assms(2)] by blast
  from fin obtain ps where ok: "w = Seal_done ()" and v: "v = ?m"
      and ver: "verify_upload_set ue d2 (Some store) None None ?m = Inr ps"
      and through: "write_through d2 (r @ [''manifest.json'']) (ue_dump ue ?m) = Some d'" by auto
  note dirs = make_dirs_grows [OF s(4)]
    and wrote = write_images_ok [OF s(6) [unfolded ok] in_order_distinct [OF assms(2)]]
  have g12: "grows d d2" using dirs wrote grows_trans by blast
  have nolink: "\<forall>q. d2 (r @ [''manifest.json'']) \<noteq> Some (Disk_link q)"
    using g12 assms(4) unfolding grows_def by fastforce
  note thr = write_through_plain [OF nolink through]
  have name: "ui_filename e \<noteq> ''manifest.json''" "ui_filename e \<noteq> ''..''" if "(e, b) \<in> set found" for e b
  proof -
    have "ui_role e \<in> IMAGE_ROLES" by (rule upload_role_names [OF s(2)]) (use that in force)
    moreover have "ui_filename e = image_name (ui_role e)" using seal_entries_images [OF assms(2)] that by auto
    ultimately show "ui_filename e \<noteq> ''manifest.json''" "ui_filename e \<noteq> ''..''" using image_names by simp_all
  qed
  have same: "\<forall>(e, b) \<in> set found. d' (r @ [ui_filename e]) = d2 (r @ [ui_filename e])"
    using name thr(1) by auto
  have clean: "clean_path ?p"
    by (rule seal_place_clean) (use assms(4-6) in \<open>auto simp: seal_identity_def digest_def\<close>)
  have walk2: "walk d2 [] ?p = Some r" using walk_grows [OF conjunct1 [OF wrote] s(5)] .
  have walk': "walk d' [] ?p = Some r" by (rule walk_grows [OF thr(2) walk2])
  note again = verify_again [OF ver thr(2) clean walk2 same]
  have full: "verify_upload_set ue d' (Some store) (Some chip) (Some environment) ?m = Inr ps"
    and plain: "verify_upload_set ue d' (Some store) None None ?m = Inr ps" by (rule again; simp)+
  have images: "verify_images ue d' r {} 0 (map fst (in_order found)) = Inr ps" by (rule sealed_images [OF plain clean walk'])
  have holds: "holds_images d' r (in_order found)"
    unfolding holds_images_def
  proof (rule ballI, clarify)
    fix e b assume "(e, b) \<in> set (in_order found)"
    then have "(e, b) \<in> set found" "d2 (r @ [ui_filename e]) = Some (Disk_file b)" using wrote by (auto simp: holds_images_def)
    then show "d' (r @ [ui_filename e]) = Some (Disk_file b)" using same by auto
  qed
  have content: "file_at d' (r @ [ui_filename e]) = Some b" if "(e, b) \<in> set found" for e b
  proof (rule file_at_real(1))
    show "walk d' [] r = Some r" using verified_real [OF images, of e] that by force
    show "d' (r @ [ui_filename e]) = Some (Disk_file b)" using holds that by (auto simp: holds_images_def)
  qed (rule name(2) [OF that])
  have contents: "image_contents d' ps = map (\<lambda>(e, b). (ui_offset e, Some b)) (in_order found)"
    unfolding image_contents_verified(1) [OF images] using content by (auto simp: split_beta)
  have g: "grows d d'" using grows_trans [OF g12 thr(2)] .
  have dirs': "make_dirs d' [] ?p = Some d'" using dirs wrote thr(2) grows_trans by blast
  have "seal_upload_set ue torn' store chip environment board toolchain images d' =
      (Seal_done (seal_manifest ue d' store chip environment board toolchain found), d')"
    by (rule seal_computes(2) [OF s(1) assms(3) s(2,3), of store environment board toolchain d' r torn' "Seal_done ()" d'])
      (simp_all add: seal_place_grows [OF g] seal_manifest_grows [OF g] dirs' walk' write_images_again [OF holds] plain thr(3))
  then show ?thesis using full contents v by (simp add: seal_manifest_grows [OF g])
qed

section \<open>Interrupted seals\<close>

lemma write_images_died:
  "write_images torn r es d = (Seal_died, d') \<Longrightarrow> distinct (map (ui_filename \<circ> fst) es) \<Longrightarrow>
   \<forall>(e, b) \<in> set es. \<forall>n. torn (ui_role e) = Some n \<longrightarrow> n < length b \<Longrightarrow>
   grows d d' \<and> write_images torn' r es d' = (Seal_error (Upload_value_error ''SEALED_ARTIFACT_TAMPERED''), d') \<and>
   (\<forall>p. p \<notin> targets r es \<longrightarrow> d' p = d p)"
proof (induction es arbitrary: d)
  case (Cons x es)
  obtain e b where x: "x = (e, b)" by fastforce
  let ?p = "r @ [ui_filename e]"
  obtain w d1 where one: "write_image d ?p b (torn (ui_role e)) = (w, d1)" by fastforce
  show ?case
  proof (cases w)
    case (Seal_done u)
    then have ok: "write_image d ?p b (torn (ui_role e)) = (Seal_done (), d1)" using one by simp
    then have rest: "write_images torn r es d1 = (Seal_died, d')" using Cons.prems(1) x by simp
    have ih: "grows d1 d' \<and> write_images torn' r es d' = (Seal_error (Upload_value_error ''SEALED_ARTIFACT_TAMPERED''), d') \<and>
        (\<forall>p. p \<notin> targets r es \<longrightarrow> d' p = d1 p)"
      by (rule Cons.IH [OF rest]) (use Cons.prems(2,3) in auto)
    note w = write_image_ok [OF ok]
    have "?p \<notin> targets r es" using Cons.prems(2) x by (auto simp: targets_def image_iff)
    then have "d' ?p = Some (Disk_file b)" using ih w by simp
    then have "write_image d' ?p b (torn' (ui_role e)) = (Seal_done (), d')" by (simp add: write_image_def)
    then show ?thesis using ih w grows_trans x by (auto simp: targets_def)
  next
    case Seal_died
    then have died: "d' = d1" using Cons.prems(1) x one by simp
    obtain n where n: "d ?p = None" "torn (ui_role e) = Some n" "d1 = d(?p \<mapsto> Disk_file (take n b))"
      using one Seal_died by (auto simp: write_image_def split: option.splits disk_node.splits if_splits)
    have "n < length b" using Cons.prems(3) x n(2) by auto
    then have short: "take n b \<noteq> b" by (metis length_take min.absorb4 nat_neq_iff)
    have "grows d d'" using grows_update(1) [of d ?p "Disk_file (take n b)"] n(1) died n(3) by simp
    moreover have "write_image d' ?p b (torn' (ui_role e)) = (Seal_error (Upload_value_error ''SEALED_ARTIFACT_TAMPERED''), d')"
      using short by (simp add: write_image_def died n(3))
    moreover have "\<forall>p. p \<notin> targets r (x # es) \<longrightarrow> d' p = d p" using x died n(3) by (simp add: targets_def)
    ultimately show ?thesis using x by simp
  next
    case (Seal_error y)
    then show ?thesis using Cons.prems(1) x one by simp
  qed
qed simp

text \<open>C14. A seal that dies while it writes an image blocks the set for good: the identity of a set depends on its content only, the
  partial image stays in the directory of that name, and every later seal of the same images, however it fares, is refused as tampered
  with. Nothing in the module removes the directory.\<close>

theorem interrupted_seal_blocks:
  assumes "seal_upload_set ue torn store chip environment board toolchain images d = (Seal_died, d')"
    "seal_entries ue d {} images = Inr found" "seal_entries ue d' {} images = Inr found"
    "\<forall>(e, b) \<in> set found. \<forall>n. torn (ui_role e) = Some n \<longrightarrow> n < length b"
  shows "seal_upload_set ue torn' store chip environment board toolchain images d' =
    (Seal_error (Upload_value_error ''SEALED_ARTIFACT_TAMPERED''), d')"
proof -
  let ?i = "seal_identity ue chip environment board toolchain found"
  let ?p = "seal_place ue d store ?i"
  obtain d1 r w d2 where s: "chip \<in> CHIPS" "ui_role ` set (sort_key ui_offset (map fst found)) \<in> upload_roles"
      "apart (sort_key ui_offset (map fst found))" "make_dirs d [] ?p = Some d1" "walk d1 [] ?p = Some r"
      "write_images torn r (in_order found) d1 = (w, d2)" and fin: "w = Seal_died" "d' = d2"
    by (rule seal_written [OF assms(1) _ assms(2)]) auto
  have died: "grows d1 d' \<and> write_images torn' r (in_order found) d' = (Seal_error (Upload_value_error ''SEALED_ARTIFACT_TAMPERED''), d')"
    using write_images_died [OF s(6) [unfolded fin] in_order_distinct [OF assms(2)], of torn'] assms(4) fin(2) by auto
  note dirs = make_dirs_grows [OF s(4)]
  have g: "grows d d'" using dirs died grows_trans by blast
  have place: "seal_place ue d' store ?i = ?p" by (rule seal_place_grows [OF g])
  have dirs': "make_dirs d' [] ?p = Some d'" using dirs died by blast
  have walk': "walk d' [] ?p = Some r" using walk_grows [OF _ s(5)] died by blast
  show ?thesis
    by (rule seal_computes(1) [OF s(1) assms(3) s(2,3) _ _ conjunct2 [OF died] refl, of store environment board toolchain])
      (unfold place, rule dirs', rule walk')
qed

section \<open>A concrete set\<close>

definition demo_upload_env :: upload_env where
  "demo_upload_env = \<lparr>ue_codec = \<lparr>sha256 = (\<lambda>_. replicate 64 CHR ''0''), json_text = (\<lambda>_. []), json_spaced = (\<lambda>_. []),
     json_dict = (\<lambda>_. []), py_text = (\<lambda>_. [])\<rparr>, ue_hash = (\<lambda>_. replicate 64 CHR ''1''), ue_dump = (\<lambda>_. [7]), ue_cwd = []\<rparr>"

definition demo_disk :: disk where
  "demo_disk = [[''b''] \<mapsto> Disk_file [1], [''p''] \<mapsto> Disk_file [2], [''a''] \<mapsto> Disk_file [3, 4]]"

definition demo_build :: "(string \<times> pyval \<times> string) list" where
  "demo_build = [(''application'', VInt 65536, ''/a''), (''bootloader'', VInt 4096, ''/b''), (''partitions'', VInt 32768, ''/p'')]"

definition demo_found :: "(upload_image \<times> bytes) list" where
  "demo_found = (case seal_entries demo_upload_env demo_disk {} demo_build of Inr f \<Rightarrow> f | Inl _ \<Rightarrow> [])"

definition demo_seal :: "(string \<Rightarrow> nat option) \<Rightarrow> pyval seal_end \<times> disk" where
  "demo_seal torn = seal_upload_set demo_upload_env torn ''/s'' ''esp32'' ''env'' ''esp32dev'' [] demo_build demo_disk"

definition sealed_value :: "pyval seal_end \<Rightarrow> pyval" where
  "sealed_value x = (case x of Seal_done v \<Rightarrow> v | _ \<Rightarrow> VNone)"

definition cut_application :: "string \<Rightarrow> nat option" where
  "cut_application role = (if role = ''application'' then Some 1 else None)"

lemma demo_seal_runs:
  "(case fst (demo_seal (\<lambda>_. None)) of Seal_done _ \<Rightarrow> True | _ \<Rightarrow> False)"
  "(case fst (demo_seal cut_application) of Seal_died \<Rightarrow> True | _ \<Rightarrow> False)"
  "seal_entries demo_upload_env demo_disk {} demo_build = Inr demo_found"
  "seal_entries demo_upload_env (snd (demo_seal (\<lambda>_. None))) {} demo_build = Inr demo_found"
  "seal_entries demo_upload_env (snd (demo_seal cut_application)) {} demo_build = Inr demo_found"
  "list_all (\<lambda>(e, b). case cut_application (ui_role e) of None \<Rightarrow> True | Some n \<Rightarrow> n < length b) demo_found"
  by code_simp+

abbreviation demo_sealed :: disk where
  "demo_sealed \<equiv> snd (demo_seal (\<lambda>_. None))"

abbreviation demo_manifest :: pyval where
  "demo_manifest \<equiv> sealed_value (fst (demo_seal (\<lambda>_. None)))"

lemma demo_verifies:
  "is_ok (verify_upload_set demo_upload_env demo_sealed (Some ''/s'') (Some ''esp32'') None demo_manifest)"
  "is_ok (verify_upload_set demo_upload_env (demo_sealed([''other''] \<mapsto> Disk_dir)) None None (Some ''env'') demo_manifest)"
  "manifest_of demo_manifest \<noteq> None"
  by code_simp+

lemma is_ok_obtain: "is_ok r \<Longrightarrow> \<exists>x. r = Inr x"
  by (cases r) simp_all

theorem verified_set_safe_witness:
  "\<exists>ps. verify_upload_set demo_upload_env demo_sealed (Some ''/s'') (Some ''esp32'') None demo_manifest = Inr ps \<and>
     3 \<le> length ps \<and> (\<forall>(n, p) \<in> set ps. \<exists>b. file_at demo_sealed p = Some b \<and> n + int (length b) \<le> IMAGE_LIMIT)"
proof -
  obtain ps where ps: "verify_upload_set demo_upload_env demo_sealed (Some ''/s'') (Some ''esp32'') None demo_manifest = Inr ps"
    using is_ok_obtain [OF demo_verifies(1)] by blast
  show ?thesis using verified_set_safe [OF ps] ps by (intro exI [of _ ps]) auto
qed

theorem upload_identity_fixes_firmware_witness:
  "\<exists>ps ps' m. verify_upload_set demo_upload_env demo_sealed (Some ''/s'') (Some ''esp32'') None demo_manifest = Inr ps \<and>
     verify_upload_set demo_upload_env (demo_sealed([''other''] \<mapsto> Disk_dir)) None None (Some ''env'') demo_manifest = Inr ps' \<and>
     manifest_of demo_manifest = Some m \<and>
     (image_contents demo_sealed ps = image_contents (demo_sealed([''other''] \<mapsto> Disk_dir)) ps' \<or>
      (\<exists>b b'. Some b \<in> snd ` set (image_contents demo_sealed ps) \<and>
         Some b' \<in> snd ` set (image_contents (demo_sealed([''other''] \<mapsto> Disk_dir)) ps') \<and> b \<noteq> b' \<and>
         ue_hash demo_upload_env b = ue_hash demo_upload_env b'))"
proof -
  obtain ps where ps: "verify_upload_set demo_upload_env demo_sealed (Some ''/s'') (Some ''esp32'') None demo_manifest = Inr ps"
    using is_ok_obtain [OF demo_verifies(1)] by blast
  obtain ps' where ps': "verify_upload_set demo_upload_env (demo_sealed([''other''] \<mapsto> Disk_dir)) None None (Some ''env'') demo_manifest = Inr ps'"
    using is_ok_obtain [OF demo_verifies(2)] by blast
  obtain m where m: "manifest_of demo_manifest = Some m" using demo_verifies(3) by blast
  show ?thesis using upload_identity_fixes_firmware [OF ps ps' m m refl impI [OF refl]] ps ps' m by blast
qed

theorem sealed_set_verifies_witness:
  "\<exists>ps. verify_upload_set demo_upload_env demo_sealed (Some ''/s'') (Some ''esp32'') (Some ''env'') demo_manifest = Inr ps \<and>
     image_contents demo_sealed ps = map (\<lambda>(e, b). (ui_offset e, Some b)) (sort_key (\<lambda>x. ui_offset (fst x)) demo_found) \<and>
     seal_upload_set demo_upload_env (\<lambda>_. Some 0) ''/s'' ''esp32'' ''env'' ''esp32dev'' [] demo_build demo_sealed =
       (Seal_done demo_manifest, demo_sealed)"
proof -
  obtain v where v: "fst (demo_seal (\<lambda>_. None)) = Seal_done v" using demo_seal_runs(1) by (auto split: seal_end.splits)
  then have seal: "seal_upload_set demo_upload_env (\<lambda>_. None) ''/s'' ''esp32'' ''env'' ''esp32dev'' [] demo_build demo_disk
      = (Seal_done v, demo_sealed)" unfolding demo_seal_def by (metis prod.collapse)
  have links: "\<forall>p q. demo_disk p = Some (Disk_link q) \<longrightarrow> clean_path q \<and> last p \<noteq> ''manifest.json''"
    by (simp add: demo_disk_def)
  have env: "clean_path (ue_cwd demo_upload_env)" "\<forall>t. hex64 (sha256 (ue_codec demo_upload_env) t)"
    by (simp_all add: demo_upload_env_def hex64_def)
  show ?thesis
    using sealed_set_verifies [OF seal demo_seal_runs(3,4) links env, of "\<lambda>_. Some 0"] v by (simp add: sealed_value_def)
qed

theorem interrupted_seal_blocks_witness:
  "seal_upload_set demo_upload_env (\<lambda>_. None) ''/s'' ''esp32'' ''env'' ''esp32dev'' [] demo_build (snd (demo_seal cut_application)) =
     (Seal_error (Upload_value_error ''SEALED_ARTIFACT_TAMPERED''), snd (demo_seal cut_application))"
proof -
  have "fst (demo_seal cut_application) = Seal_died" using demo_seal_runs(2) by (auto split: seal_end.splits)
  then have seal: "seal_upload_set demo_upload_env cut_application ''/s'' ''esp32'' ''env'' ''esp32dev'' [] demo_build demo_disk
      = (Seal_died, snd (demo_seal cut_application))" unfolding demo_seal_def by (metis prod.collapse)
  have short: "\<forall>(e, b) \<in> set demo_found. \<forall>n. cut_application (ui_role e) = Some n \<longrightarrow> n < length b"
    using demo_seal_runs(6) by (auto simp: list_all_iff)
  show ?thesis by (rule interrupted_seal_blocks [OF seal demo_seal_runs(3,5) short])
qed

end
