(* ===== verification/Firmware_Build.thy ===== *)
theory Firmware_Build
  imports Firmware_Sets
begin

text \<open>
  From a PlatformIO build to an upload set: the resolution of configuration options (\<^verbatim>\<open>resolve_option\<close> of
  \<^verbatim>\<open>backend/services/partition_preflight.py\<close>), the binary partition table, and \<^verbatim>\<open>seal_platformio_build\<close> of
  \<^verbatim>\<open>backend/services/firmware_manifest.py\<close>, which takes the offsets of the images from that table.

  A parsed configuration maps sections and options (in lower case, as \<^verbatim>\<open>configparser\<close> keeps them) to raw values.
\<close>

section \<open>Options\<close>

datatype build_error = Build_config_error string | Build_upload_error upload_error

record ini =
  ini_sections :: "(string \<times> (string \<times> string) list) list"
  ini_defaults :: "(string \<times> string) list"

definition has_section :: "ini \<Rightarrow> string \<Rightarrow> bool" where
  "has_section p s \<longleftrightarrow> s \<in> fst ` set (ini_sections p)"

definition option_of :: "ini \<Rightarrow> string \<Rightarrow> string \<Rightarrow> string option" where
  "option_of p s k =
     (case map_of (ini_sections p) s of
        None \<Rightarrow> None
      | Some kvs \<Rightarrow> (case map_of kvs (py_lower k) of Some v \<Rightarrow> Some v | None \<Rightarrow> map_of (ini_defaults p) (py_lower k)))"

definition config_invalid :: "string \<Rightarrow> build_error + 'a" where
  "config_invalid message = Inl (Build_config_error message)"

definition comma_pieces :: "string \<Rightarrow> string list" where
  "comma_pieces t = split_on CHR '','' (map (\<lambda>c. if c = CHR 0x0A then CHR '','' else c) t)"

definition parent_sections :: "ini \<Rightarrow> string \<Rightarrow> string list" where
  "parent_sections p s =
     map (\<lambda>q. if \<not> has_section p q \<and> has_section p (''env:'' @ q) then ''env:'' @ q else q)
       (filter (\<lambda>q. q \<noteq> []) (map py_strip (rev (comma_pieces (case option_of p s ''extends'' of Some v \<Rightarrow> v | None \<Rightarrow> [])))))"

fun first_value :: "(string \<Rightarrow> build_error + string) \<Rightarrow> string list \<Rightarrow> build_error + string" where
  "first_value f [] = Inr []"
| "first_value f (q # qs) = bind_result (f q) (\<lambda>v. if v \<noteq> [] then Inr v else first_value f qs)"

text \<open>\<^verbatim>\<open>re.sub(r"\${([^}]+)}", f, text)\<close>\<close>

function interpolate :: "(string \<Rightarrow> build_error + string) \<Rightarrow> string \<Rightarrow> build_error + string" where
  "interpolate f [] = Inr []"
| "interpolate f (c # cs) =
     (let body = takeWhile (\<lambda>x. x \<noteq> CHR ''}'') (tl cs); rest = dropWhile (\<lambda>x. x \<noteq> CHR ''}'') (tl cs) in
      if c = CHR ''$'' \<and> starts_with cs ''{'' \<and> body \<noteq> [] \<and> rest \<noteq> []
      then bind_result (f body) (\<lambda>v. bind_result (interpolate f (tl rest)) (\<lambda>t. Inr (v @ t)))
      else bind_result (interpolate f cs) (\<lambda>t. Inr (c # t)))"
  by pat_completeness auto
termination
proof (relation "measure (\<lambda>(f, t). length t)")
  fix f :: "string \<Rightarrow> build_error + string" and c cs body rest v
  assume "rest = dropWhile (\<lambda>x. x \<noteq> CHR ''}'') (tl cs)"
  then have "length rest \<le> length cs"
    by (metis diff_le_self dual_order.trans length_dropWhile_le length_tl)
  then show "((f, tl rest), f, c # cs) \<in> measure (\<lambda>(f, t). length t)" by simp
qed simp_all

definition reference_value :: "(string \<Rightarrow> string \<Rightarrow> build_error + string) \<Rightarrow> (string \<Rightarrow> string) \<Rightarrow> string \<Rightarrow> build_error + string" where
  "reference_value look env ref =
     (if CHR ''.'' \<notin> set ref then config_invalid ''Unresolved configuration value''
      else let group = takeWhile (\<lambda>c. c \<noteq> CHR ''.'') ref; key = tl (dropWhile (\<lambda>c. c \<noteq> CHR ''.'') ref) in
        bind_result (if group = ''sysenv'' then Inr (env key) else look group key)
          (\<lambda>v. if v = [] then config_invalid ''Unresolved configuration reference'' else Inr v))"

text \<open>At most 33 sections and options are visited on one path; the number is what remains of them.\<close>

fun resolve_from :: "ini \<Rightarrow> (string \<Rightarrow> string) \<Rightarrow> nat \<Rightarrow> (string \<times> string) list \<Rightarrow> string \<Rightarrow> string \<Rightarrow> build_error + string" where
  "resolve_from p env 0 visited s k = config_invalid ''Cyclic configuration inheritance or interpolation''"
| "resolve_from p env (Suc n) visited s k =
     (if (s, k) \<in> set visited then config_invalid ''Cyclic configuration inheritance or interpolation''
      else if \<not> has_section p s then config_invalid ''Undefined section''
      else let visited = visited @ [(s, k)] in
        bind_result
          (case option_of p s k of
             Some v \<Rightarrow> Inr (py_strip v)
           | None \<Rightarrow>
               bind_result (first_value (\<lambda>q. resolve_from p env n visited q k) (parent_sections p s))
                 (\<lambda>v. if v = [] \<and> starts_with s ''env:'' \<and> has_section p ''env'' then resolve_from p env n visited ''env'' k else Inr v))
          (\<lambda>v. interpolate (reference_value (\<lambda>g m. resolve_from p env n visited g m) env) v))"

definition resolve_option :: "ini \<Rightarrow> (string \<Rightarrow> string) \<Rightarrow> string \<Rightarrow> string \<Rightarrow> build_error + string" where
  "resolve_option p env environment opt = resolve_from p env 33 [] (''env:'' @ environment) opt"

section \<open>The partition table\<close>

definition le16 :: "bytes \<Rightarrow> 16 word" where
  "le16 bs = or (ucast (bs ! 0)) (push_bit 8 (ucast (bs ! 1)))"

definition le32 :: "bytes \<Rightarrow> 32 word" where
  "le32 bs = or (or (ucast (bs ! 0)) (push_bit 8 (ucast (bs ! 1)))) (or (push_bit 16 (ucast (bs ! 2))) (push_bit 24 (ucast (bs ! 3))))"

record partition_row =
  pt_kind :: "8 word"
  pt_subtype :: "8 word"
  pt_offset :: "32 word"
  pt_size :: "32 word"

definition unpack_row :: "bytes \<Rightarrow> partition_row" where
  "unpack_row bs = \<lparr>pt_kind = bs ! 2, pt_subtype = bs ! 3, pt_offset = le32 (drop 4 bs), pt_size = le32 (drop 8 bs)\<rparr>"

function parse_partitions :: "bytes \<Rightarrow> build_error + partition_row list" where
  "parse_partitions bs =
     (if length bs < 32 then Inr []
      else if le16 bs = 0x50AA then bind_result (parse_partitions (drop 32 bs)) (\<lambda>rows. Inr (unpack_row bs # rows))
      else if le16 bs \<in> {0xFFFF, 0xEBEB} then Inr []
      else Inl (Build_upload_error (Upload_value_error ''UPLOAD_PARTITIONS_INVALID'')))"
  by pat_completeness auto
termination
  by (relation "measure length") auto

declare parse_partitions.simps [simp del]

text \<open>\<^verbatim>\<open>min(applications, key=...)\<close>: the first row of least subtype.\<close>

fun least_subtype :: "partition_row \<Rightarrow> partition_row list \<Rightarrow> partition_row" where
  "least_subtype a [] = a"
| "least_subtype a (b # bs) = least_subtype (if pt_subtype b < pt_subtype a then b else a) bs"

definition upload_refused :: "string \<Rightarrow> build_error + 'a" where
  "upload_refused message = Inl (Build_upload_error (Upload_value_error message))"

text \<open>The images of a build: \<open>app\<close> is the number of bytes of the application.\<close>

definition platformio_images :: "bytes \<Rightarrow> nat \<Rightarrow> path \<Rightarrow> string \<Rightarrow> path \<Rightarrow> build_error + (string \<times> pyval \<times> string) list" where
  "platformio_images table app dir core artifact =
     bind_result (parse_partitions table) (\<lambda>rows.
       case filter (\<lambda>r. pt_kind r = 0 \<and> pt_subtype r \<in> {0, 0x10}) rows of
         [] \<Rightarrow> upload_refused ''UPLOAD_APPLICATION_PARTITION_MISSING''
       | a # as \<Rightarrow>
           (let application = least_subtype a as;
                ota = filter (\<lambda>r. pt_kind r = 1 \<and> pt_subtype r = 0) rows;
                images = [(''bootloader'', VInt 0x1000, path_text (dir @ [''bootloader.bin''])),
                  (''partitions'', VInt 0x8000, path_text (dir @ [''partitions.bin''])),
                  (''application'', VInt (uint (pt_offset application)), path_text artifact)] in
            if unat (pt_size application) < app then upload_refused ''UPLOAD_APPLICATION_TOO_LARGE''
            else case ota of
                [] \<Rightarrow> Inr images
              | o' # os \<Rightarrow>
                  if os \<noteq> [] \<or> pt_size o' \<noteq> 0x2000 then upload_refused ''UPLOAD_OTA_PARTITION_UNSUPPORTED''
                  else Inr (images @ [(''ota_data'', VInt (uint (pt_offset o')),
                    core @ ''/packages/framework-arduinoespressif32/tools/partitions/boot_app0.bin'')])))"

section \<open>Builds\<close>

record build_environment =
  be_name :: string
  be_board :: string
  be_framework :: string
  be_platform :: string

fun discover :: "ini \<Rightarrow> (string \<Rightarrow> string) \<Rightarrow> string list \<Rightarrow> build_error + build_environment list" where
  "discover p env [] = Inr []"
| "discover p env (n # ns) =
     bind_result (resolve_option p env n ''board'') (\<lambda>board.
     bind_result (resolve_option p env n ''framework'') (\<lambda>framework.
     bind_result (resolve_option p env n ''platform'') (\<lambda>platform.
     bind_result (discover p env ns) (\<lambda>es.
       Inr (\<lparr>be_name = n, be_board = board, be_framework = framework, be_platform = platform\<rparr> # es)))))"

definition environment_names :: "ini \<Rightarrow> string list" where
  "environment_names p =
     filter (\<lambda>n. n \<noteq> []) (map (\<lambda>s. py_strip (drop 4 s)) (filter (\<lambda>s. starts_with s ''env:'') (map fst (ini_sections p))))"

definition discover_environments :: "ini \<Rightarrow> (string \<Rightarrow> string) \<Rightarrow> build_error + build_environment list" where
  "discover_environments p env =
     (if environment_names p = [] then config_invalid ''platformio.ini contains no [env:<name>] sections''
      else discover p env (environment_names p))"

fun no_overrides :: "ini \<Rightarrow> (string \<Rightarrow> string) \<Rightarrow> string \<Rightarrow> string list \<Rightarrow> build_error + unit" where
  "no_overrides p env selected [] = Inr ()"
| "no_overrides p env selected (opt # opts) =
     bind_result (resolve_option p env selected opt) (\<lambda>v.
       if v \<noteq> [] then upload_refused ''UPLOAD_OFFSET_OVERRIDE_UNSUPPORTED'' else no_overrides p env selected opts)"

definition OFFSET_OPTIONS :: "string list" where
  "OFFSET_OPTIONS = [''board_upload.offset_address'', ''board_build.bootloader_addr'', ''board_build.partitions_offset'']"

text \<open>What is sealed for a build: the environment, its board and the images.\<close>

definition build_images :: "upload_env \<Rightarrow> ini \<Rightarrow> (string \<Rightarrow> string) \<Rightarrow> path \<Rightarrow> string \<Rightarrow> string option \<Rightarrow> string \<Rightarrow> disk
    \<Rightarrow> build_error + (string \<times> string \<times> (string \<times> pyval \<times> string) list)" where
  "build_images ue p env project core environment firmware d =
     bind_result (discover_environments p env) (\<lambda>environments.
       case walk d [] (path_of (ue_cwd ue) firmware) of
         None \<Rightarrow> Inl (Build_upload_error Upload_os_error)
       | Some artifact \<Rightarrow>
           (let dir = butlast artifact;
                selected = (if py_true_opt environment then the environment else if dir = [] then [] else last dir) in
            case List.find (\<lambda>e. be_name e = selected) environments of
              None \<Rightarrow> upload_refused ''UPLOAD_PROFILE_UNSUPPORTED''
            | Some e \<Rightarrow>
                if be_board e \<noteq> ''esp32dev'' \<or> py_lower (be_framework e) \<noteq> ''arduino'' then upload_refused ''UPLOAD_PROFILE_UNSUPPORTED''
                else bind_result (no_overrides p env selected OFFSET_OPTIONS) (\<lambda>_.
                  if dir \<noteq> walk_soft d [] (path_of (project @ [''.pio'', ''build'']) selected)
                  then upload_refused ''UPLOAD_BUILD_PATH_INVALID''
                  else case (file_at d (dir @ [''partitions.bin'']), file_at d artifact) of
                      (Some table, Some app) \<Rightarrow>
                        bind_result (platformio_images table (length app) dir core artifact) (\<lambda>images. Inr (selected, be_board e, images))
                    | _ \<Rightarrow> Inl (Build_upload_error Upload_os_error))))"

definition seal_platformio_build :: "upload_env \<Rightarrow> ini \<Rightarrow> (string \<Rightarrow> string) \<Rightarrow> path \<Rightarrow> string \<Rightarrow> string option \<Rightarrow> string \<Rightarrow> string
    \<Rightarrow> (string \<times> pyval) list \<Rightarrow> (string \<Rightarrow> nat option) \<Rightarrow> disk \<Rightarrow> (build_error + pyval seal_end) \<times> disk" where
  "seal_platformio_build ue p env project core environment firmware store toolchain torn d =
     (case build_images ue p env project core environment firmware d of
        Inl e \<Rightarrow> (Inl e, d)
      | Inr (selected, board, images) \<Rightarrow>
          (let (res, d') = seal_upload_set ue torn store ''esp32'' selected board toolchain images d in (Inr res, d')))"

section \<open>The table is read as it was written\<close>

definition bytes16 :: "16 word \<Rightarrow> bytes" where
  "bytes16 w = [ucast w, ucast (drop_bit 8 w)]"

definition bytes32 :: "32 word \<Rightarrow> bytes" where
  "bytes32 w = [ucast w, ucast (drop_bit 8 w), ucast (drop_bit 16 w), ucast (drop_bit 24 w)]"

text \<open>A row of a partition table: magic, kind, subtype, offset, size, sixteen bytes of name and four of flags.\<close>

definition row_bytes :: "partition_row \<Rightarrow> bytes \<Rightarrow> bytes" where
  "row_bytes r rest = bytes16 0x50AA @ [pt_kind r, pt_subtype r] @ bytes32 (pt_offset r) @ bytes32 (pt_size r) @ rest"

lemma le16_bytes: "le16 (bytes16 w @ t) = w"
  unfolding le16_def bytes16_def
  by (rule bit_word_eqI) (auto simp: bit_simps)

lemma le32_bytes: "le32 (bytes32 w @ t) = w"
proof (rule bit_word_eqI)
  fix n assume "n < LENGTH(32)"
  then show "bit (le32 (bytes32 w @ t)) n \<longleftrightarrow> bit w n"
    by (cases "24 \<le> n"; cases "16 \<le> n"; cases "8 \<le> n") (auto simp: le32_def bytes32_def bit_simps)
qed

lemma unpack_row_bytes: "length rest = 20 \<Longrightarrow> unpack_row (row_bytes r rest @ t) = r"
  using le32_bytes [of "pt_offset r" "bytes32 (pt_size r) @ rest @ t"] le32_bytes [of "pt_size r" "rest @ t"]
  by (simp add: unpack_row_def row_bytes_def bytes16_def bytes32_def)

lemma row_bytes_length: "length rest = 20 \<Longrightarrow> length (row_bytes r rest) = 32"
  by (simp add: row_bytes_def bytes16_def bytes32_def)

text \<open>A partition table is read back as it was written: for any rows, with any names and flags, followed by a checksum row, by
  erased flash or by less than a row, the parser returns exactly the rows, each number at its width.\<close>

theorem partition_table_roundtrip:
  assumes "\<forall>(r, rest) \<in> set rows. length rest = 20" "length t < 32 \<or> le16 t \<in> {0xFFFF, 0xEBEB}"
  shows "parse_partitions (concat (map (\<lambda>(r, rest). row_bytes r rest) rows) @ t) = Inr (map fst rows)"
  using assms(1)
proof (induction rows)
  case Nil
  have "(0x50AA :: 16 word) \<noteq> 0xFFFF" "(0x50AA :: 16 word) \<noteq> 0xEBEB" by simp_all
  then show ?case using assms(2) by (subst parse_partitions.simps) auto
next
  case (Cons x rows)
  obtain r rest where x: "x = (r, rest)" by fastforce
  have len: "length rest = 20" using Cons.prems x by simp
  let ?more = "concat (map (\<lambda>(r, rest). row_bytes r rest) rows) @ t"
  have magic: "le16 (row_bytes r rest @ ?more) = 0x50AA"
    using le16_bytes [of "0x50AA" "[pt_kind r, pt_subtype r] @ bytes32 (pt_offset r) @ bytes32 (pt_size r) @ rest @ ?more"]
    by (simp add: row_bytes_def)
  have "parse_partitions (row_bytes r rest @ ?more) = bind_result (parse_partitions ?more) (\<lambda>rows. Inr (r # rows))"
    using magic row_bytes_length [OF len, of r] unpack_row_bytes [OF len, of r ?more]
    by (subst parse_partitions.simps) simp
  then show ?case using Cons.IH Cons.prems x by simp
qed

theorem partition_table_roundtrip_witness:
  "parse_partitions (row_bytes \<lparr>pt_kind = 0, pt_subtype = 0x10, pt_offset = 0x10000, pt_size = 0x140000\<rparr> (replicate 20 0) @ replicate 32 0xFF) =
     Inr [\<lparr>pt_kind = 0, pt_subtype = 0x10, pt_offset = 0x10000, pt_size = 0x140000\<rparr>]"
proof -
  have "le16 (replicate 32 0xFF) \<in> {0xFFFF, 0xEBEB}" by code_simp
  then show ?thesis
    using partition_table_roundtrip [of "[(\<lparr>pt_kind = 0, pt_subtype = 0x10, pt_offset = 0x10000, pt_size = 0x140000\<rparr>, replicate 20 0)]"
      "replicate 32 0xFF"] by simp
qed

section \<open>A build stays within its partitions\<close>

lemma least_subtype_in: "least_subtype a bs \<in> set (a # bs)"
proof (induction bs arbitrary: a)
  case (Cons b bs)
  then show ?case using Cons.IH [of "if pt_subtype b < pt_subtype a then b else a"] by (auto split: if_splits)
qed simp

lemma least_subtype_least: "b \<in> set (a # bs) \<Longrightarrow> pt_subtype (least_subtype a bs) \<le> pt_subtype b"
proof (induction bs arbitrary: a b)
  case (Cons c bs)
  let ?m = "if pt_subtype c < pt_subtype a then c else a"
  have m: "pt_subtype (least_subtype ?m bs) \<le> pt_subtype ?m" by (rule Cons.IH) simp
  show ?case
  proof (cases "b \<in> set bs")
    case True
    then show ?thesis using Cons.IH [of b ?m] by simp
  next
    case False
    then have "pt_subtype ?m \<le> pt_subtype b" using Cons.prems by auto
    then show ?thesis using m by (simp del: if_split add: order_trans)
  qed
qed simp

text \<open>C15. The upload set of a build keeps to the partition table of that build: the application goes to the offset of the application
  partition of least subtype and fits it, the boot loader and the table go to their fixed addresses, and a selector of the boot
  partition is written exactly when the table has the one OTA data partition of 8 KB, at its offset.\<close>

theorem build_keeps_to_partitions:
  assumes "platformio_images table app dir core artifact = Inr images"
  shows "\<exists>rows a. parse_partitions table = Inr rows \<and> a \<in> set rows \<and> pt_kind a = 0 \<and> pt_subtype a \<in> {0, 0x10} \<and>
    (\<forall>r \<in> set rows. pt_kind r = 0 \<and> pt_subtype r \<in> {0, 0x10} \<longrightarrow> pt_subtype a \<le> pt_subtype r) \<and> app \<le> unat (pt_size a) \<and>
    [(role, offset). (role, offset, place) \<leftarrow> images] =
      [(''bootloader'', VInt 0x1000), (''partitions'', VInt 0x8000), (''application'', VInt (uint (pt_offset a)))] @
      map (\<lambda>r. (''ota_data'', VInt (uint (pt_offset r)))) (filter (\<lambda>r. pt_kind r = 1 \<and> pt_subtype r = 0) rows) \<and>
    (\<forall>r \<in> set rows. pt_kind r = 1 \<and> pt_subtype r = 0 \<longrightarrow> pt_size r = 0x2000)"
proof -
  obtain rows where rows: "parse_partitions table = Inr rows"
    using assms by (auto simp: platformio_images_def sum_case_simps)
  let ?apps = "filter (\<lambda>r. pt_kind r = 0 \<and> pt_subtype r \<in> {0, 0x10}) rows"
    and ?ota = "filter (\<lambda>r. pt_kind r = 1 \<and> pt_subtype r = 0) rows"
  obtain a as where apps: "?apps = a # as"
    using assms by (cases ?apps) (auto simp: platformio_images_def rows upload_refused_def)
  let ?a = "least_subtype a as"
  have mem: "?a \<in> set ?apps" using least_subtype_in [of a as] apps by metis
  have least: "\<forall>r \<in> set ?apps. pt_subtype ?a \<le> pt_subtype r" unfolding apps using least_subtype_least by blast
  let ?fixed = "[(''bootloader'', VInt 0x1000, path_text (dir @ [''bootloader.bin''])),
      (''partitions'', VInt 0x8000, path_text (dir @ [''partitions.bin''])),
      (''application'', VInt (uint (pt_offset ?a)), path_text artifact)]"
  have computed: "(if unat (pt_size ?a) < app then upload_refused ''UPLOAD_APPLICATION_TOO_LARGE''
      else case ?ota of [] \<Rightarrow> Inr ?fixed
        | o' # os \<Rightarrow> if os \<noteq> [] \<or> pt_size o' \<noteq> 0x2000 then upload_refused ''UPLOAD_OTA_PARTITION_UNSUPPORTED''
            else Inr (?fixed @ [(''ota_data'', VInt (uint (pt_offset o')),
              core @ ''/packages/framework-arduinoespressif32/tools/partitions/boot_app0.bin'')])) = Inr images"
    using assms unfolding platformio_images_def rows bind_result_simps apps list.case Let_def .
  then have fits: "app \<le> unat (pt_size ?a)" by (auto simp: upload_refused_def split: if_splits)
  have images: "(?ota = [] \<and> images = ?fixed) \<or> (\<exists>o' place. ?ota = [o'] \<and> pt_size o' = 0x2000 \<and>
      images = ?fixed @ [(''ota_data'', VInt (uint (pt_offset o')), place)])"
    using computed fits by (cases ?ota) (auto simp: upload_refused_def split: if_splits)
  have sized: "list_all (\<lambda>r. pt_size r = 0x2000) ?ota" using images by (elim disjE exE conjE) simp_all
  then have sizes: "\<forall>r \<in> set ?ota. pt_size r = 0x2000" unfolding list_all_iff .
  show ?thesis
    using rows mem least fits images sizes by (intro exI [of _ rows] exI [of _ ?a]) auto
qed

definition demo_table :: bytes where
  "demo_table = row_bytes \<lparr>pt_kind = 1, pt_subtype = 0, pt_offset = 0xe000, pt_size = 0x2000\<rparr> (replicate 20 0) @
     row_bytes \<lparr>pt_kind = 0, pt_subtype = 0x10, pt_offset = 0x10000, pt_size = 0x140000\<rparr> (replicate 20 0) @ replicate 32 0xFF"

theorem build_keeps_to_partitions_witness:
  "\<exists>images rows. platformio_images demo_table 5 [''d''] ''/core'' [''d'', ''firmware.bin''] = Inr images \<and>
     parse_partitions demo_table = Inr rows \<and> length images = 4 \<and> (\<forall>r \<in> set rows. pt_kind r = 1 \<and> pt_subtype r = 0 \<longrightarrow> pt_size r = 0x2000)"
proof -
  have parsed: "parse_partitions demo_table = Inr [\<lparr>pt_kind = 1, pt_subtype = 0, pt_offset = 0xe000, pt_size = 0x2000\<rparr>,
      \<lparr>pt_kind = 0, pt_subtype = 0x10, pt_offset = 0x10000, pt_size = 0x140000\<rparr>]"
    by code_simp
  obtain images where images: "platformio_images demo_table 5 [''d''] ''/core'' [''d'', ''firmware.bin''] = Inr images" "length images = 4"
    by (simp add: platformio_images_def parsed Let_def)
  show ?thesis using build_keeps_to_partitions [OF images(1)] images by auto
qed

end
