(* ===== verification/Spec2Isabelle.thy ===== *)
theory Spec2Isabelle
  imports Prelude Workspace_Lock Change_Risk Progress_Evidence Generation_Control Retry Circuit Admission Run_Budget Jobs Job_Ledger Job_Recovery Leases Journal Journal_Props Store_Records Input_Queue Context_Artifacts
    Fault_Io Change_Paths Change_Sets Change_Publish Change_Inv Change_Recovery Change_Atomic Change_Undo Change_Props Change_Drafts Change_Incidents
    Tool_Contracts Tool_Plans Tool_Policy Capabilities Tool_Text Tool_Executor Executor_Props Executor_Fence
    Urls Model_Registry Model_Resolver Router_Props Request_Recovery Flash_Control Flash_Props
    Firmware_Sets Firmware_Props Firmware_Sealing Firmware_Build
begin

text \<open>
  A verification development of the ForgeX backend (\<^verbatim>\<open>src/backend\<close>), the host of an agent that writes, builds and
  flashes firmware. It models the parts of the backend that keep state across requests, crashes and processes, or that decide
  what an agent may do; the definitions follow the Python code function by function.

  \<^bold>\<open>How the parts interact.\<close> A user's message is queued (\<open>Input_Queue\<close>) in a session that one run owns by a lease (\<open>Leases\<close>);
  what happens is appended to the session's journal (\<open>Journal\<close>). The run works for a job (\<open>Jobs\<close>) whose budget every model
  request is charged to (\<open>Run_Budget\<close>). A request is resolved to a model (\<open>Model_Registry\<close>, \<open>Model_Resolver\<close>), waits for a slot
  (\<open>Admission\<close>) and the breaker of its endpoint (\<open>Circuit\<close>), and is retried (\<open>Retry\<close>, \<open>Request_Recovery\<close>). The answer is
  parsed into tool calls (\<open>Tool_Contracts\<close>, \<open>Tool_Plans\<close>), which the policy (\<open>Tool_Policy\<close>) and the grant of the run (\<open>Capabilities\<close>)
  let through to the executor (\<open>Tool_Executor\<close>); what the results mean for the plan is decided by \<open>Progress_Evidence\<close> and
  \<open>Generation_Control\<close>. The executor's stage becomes a change set (\<open>Change_Sets\<close>), which is applied when the risk gate
  (\<open>Change_Risk\<close>) or the user says so, under the lock of the workspace (\<open>Workspace_Lock\<close>), and can be undone or recovered
  (\<open>Change_Publish\<close>). A build is sealed into an
  upload set (\<open>Firmware_Build\<close>, \<open>Firmware_Sets\<close>), which reaches a device only through an approval (\<open>Store_Records\<close>, \<open>Flash_Control\<close>).

  \<^bold>\<open>Theories and sources\<close> (paths below \<^verbatim>\<open>src/backend\<close>).

  \<^item> \<open>Prelude\<close>: the dynamically typed values of Python (\<open>pyval\<close>), truthiness, integer and text conversions, results as sums;
    the codec, a record of SHA-256 and the JSON encoders.
  \<^item> \<open>Fault_Io\<close>: programs on durable state whose steps fail or die by a schedule, with a triple \<open>tri\<close> for invariants that hold
    at every step.
  \<^item> \<open>Leases\<close>, \<open>Journal\<close>, \<open>Journal_Props\<close>, \<open>Input_Queue\<close>, \<open>Store_Records\<close>, \<open>Context_Artifacts\<close>:
    \<^verbatim>\<open>agent_runtime/orchestration_store.py\<close> and \<^verbatim>\<open>approvals.py\<close>. One state per table; a method is a function from the tables
    to a result and the tables. Shown: one valid owner per session, no superseded grant passes (locale \<open>fencing\<close>); a healthy journal
    grows by exactly one event, is tamper-evident and ordered by epochs; approvals are used at most once; a saved artifact chain
    reads back as it was saved.
  \<^item> \<open>Change_Paths\<close>, \<open>Change_Sets\<close>, \<open>Change_Publish\<close>, \<open>Change_Inv\<close>, \<open>Change_Recovery\<close>, \<open>Change_Atomic\<close>, \<open>Change_Undo\<close>,
    \<open>Change_Props\<close>, \<open>Change_Drafts\<close>, \<open>Change_Incidents\<close>: \<^verbatim>\<open>changes/service.py\<close>, \<^verbatim>\<open>changes/models.py\<close>. Shown: accepted paths stay
    inside; publication is atomic under any faults and deaths; recovery never overwrites a foreign edit; an undo inverts an apply;
    a change set built from a stage is well formed and applies to the workspace it was made from, unless a directory stands in its way. \<open>Change_Incidents\<close> evaluates runs that
    end badly.
  \<^item> \<open>Tool_Contracts\<close>, \<open>Tool_Plans\<close>: \<^verbatim>\<open>tool_contracts.py\<close>, \<^verbatim>\<open>tool_registry.py\<close>, \<^verbatim>\<open>requirement_arguments.py\<close> and the plan steps
    of \<^verbatim>\<open>generation_controller.py\<close>. Shown: a parsed call survives serialization; the dependency check of a plan terminates and
    accepts exactly the acyclic plans.
  \<^item> \<open>Tool_Policy\<close>, \<open>Capabilities\<close>, \<open>Tool_Text\<close>, \<open>Tool_Executor\<close>, \<open>Executor_Props\<close>, \<open>Executor_Fence\<close>: \<^verbatim>\<open>tool_policy.py\<close>,
    \<^verbatim>\<open>security/secret_scanner.py\<close>, \<^verbatim>\<open>capabilities.py\<close>, \<^verbatim>\<open>tool_executor.py\<close>. Shown: a grant confines what it lets through; the overlay
    refines a project of texts by path; nothing refused is staged; nothing is published for a fenced run; a patch is accepted exactly when
    its hunks fit the lines they name, and replaces these lines; reading on reaches the end of a file.
  \<^item> \<open>Progress_Evidence\<close>, \<open>Generation_Control\<close>: \<^verbatim>\<open>diagnostic_progress.py\<close>, \<^verbatim>\<open>progress_state.py\<close>, \<^verbatim>\<open>requirement_evidence.py\<close>,
    \<^verbatim>\<open>generation_controller.py\<close>, with the turn allowance of \<^verbatim>\<open>lifecycle.py\<close> and the progress count of \<^verbatim>\<open>autonomous_loop.py\<close>, turn by turn. Shown:
    an agent that repeats itself before a build has passed is stopped, finished steps rest on current evidence, an edited step is reopened, checkpoints restore.
  \<^item> \<open>Change_Risk\<close>: \<^verbatim>\<open>risk.py\<close> and the decision taken on it in \<^verbatim>\<open>orchestrator.py\<close>.
  \<^item> \<open>Workspace_Lock\<close>: \<^verbatim>\<open>security/workspace_lock.py\<close> as a step relation over the threads of any number of processes; mutual
    exclusion and the return of locks on every path by rule induction.
  \<^item> \<open>Retry\<close>, \<open>Circuit\<close>, \<open>Admission\<close>, \<open>Run_Budget\<close>, \<open>Request_Recovery\<close>: the files of the same purpose in \<^verbatim>\<open>model_router\<close>, with the
    attempt loop of \<^verbatim>\<open>runtime.py\<close>. Shown: limits of attempts and delays, one probe per endpoint, agreement of published health
    and admission, settlement of every request, no replay of shown text.
  \<^item> \<open>Urls\<close>, \<open>Model_Registry\<close>, \<open>Model_Resolver\<close>, \<open>Router_Props\<close>: \<^verbatim>\<open>registry.py\<close>, \<^verbatim>\<open>storage.py\<close>, \<^verbatim>\<open>selection.py\<close>, \<^verbatim>\<open>resolver.py\<close>,
    \<^verbatim>\<open>catalog.py\<close>, \<^verbatim>\<open>models.py\<close> of \<^verbatim>\<open>model_router\<close>; \<open>Urls\<close> defines \<^verbatim>\<open>urlsplit\<close>. Shown: endpoints stay encrypted or local,
    routes never dangle, a resolved model is usable.
  \<^item> \<open>Jobs\<close>, \<open>Job_Ledger\<close>, \<open>Job_Recovery\<close>: \<^verbatim>\<open>agent_runtime/jobs.py\<close> and the charge callback of \<^verbatim>\<open>lifecycle.py\<close>. Shown: the
    output-token account follows the attempts and the totals taken over from elsewhere, agents sharing a ledger stay within its limits, claims are exclusive, extensions are idempotent.
  \<^item> \<open>Flash_Control\<close>, \<open>Flash_Props\<close>: \<^verbatim>\<open>hardware/action_binding.py\<close> and the flash protocol of \<^verbatim>\<open>orchestrator.py\<close>. Shown: an upload
    rests on a consumed approval for exactly its run, project, port, board, environment, monitor setting, firmware hash and artifact manifest; a refused confirmation does
    no harm outside the store; a confirmation for the wrong device locks the flash.

  \<^item> \<open>Firmware_Sets\<close>, \<open>Firmware_Props\<close>, \<open>Firmware_Sealing\<close>, \<open>Firmware_Build\<close>: \<^verbatim>\<open>services/firmware_manifest.py\<close>, the manifest schema of
    \<^verbatim>\<open>contracts/engine.py\<close>, \<^verbatim>\<open>resolve_option\<close> of \<^verbatim>\<open>services/partition_preflight.py\<close>. Shown: an identity fixes the bytes that are
    flashed; a verified set is complete, ordered and disjoint; a sealed set verifies and is sealed again without a change; an
    interrupted seal blocks the set; images keep to the partition table, which is read back as it was written (a byte is an \<open>8 word\<close>).

  \<^bold>\<open>Conventions.\<close> An exception is the left summand of a result; a step that fails returns the state it leaves. Transactions of
  SQLite are atomic, so a method whose transaction rolls back returns the old table. Clocks are rational numbers that each operation
  reads as an argument, without an assumption that they advance. Fresh identifiers, digests, JSON texts, random samples, regular
  expressions of messages, the parsers of the standard library and the file system beyond a project are arguments; where a theorem
  needs documented behaviour of one (such as \<open>the decoder inverts the encoder\<close> or \<open>these two texts have different digests\<close>), it is a named
  hypothesis with a witness. Interfaces between components are locales (\<open>fencing\<close>, \<open>charge_ledger\<close> and others), interpreted
  on the definitions of the component that provides them.

  \<^bold>\<open>Bounds and fuel.\<close> Recursion is structural or has a measure, except for the schedules of \<open>Fault_Io\<close>, which end: an empty schedule
  means no more faults, so a theorem over all schedules covers any number of them. The visit of a plan's graph ends because the
  steps that are not on the current path become fewer. The reader of pages (\<open>read_pages\<close>) is given one answer more than the file has
  lines, and \<open>reading_on_complete\<close> shows that this is enough. The code's own limits are kept: chains of 4096 context
  artifacts, claims of 90 seconds and three per outage, 32 inputs per claim, 32 steps per plan, five stalled turns, six attempts, waits
  of 30 seconds, 33 options on a path of inheritance, images within 16 MB, 50 000 events or 8 000 000 characters per buffered stream, and the window of 12000 characters of a read.

  \<^bold>\<open>Idealisations.\<close> Texts are ASCII where case is folded or lines are split. A symbolic link is taken to lead out of the directory it is
  in, except in \<open>Firmware_Sets\<close>, where it holds the path it leads to. Paths are those of POSIX (the Windows branches of the workspace lock and of path checks are left out). Floats are rationals
  with infinities and not-a-number.

  \<^bold>\<open>Not modelled.\<close> The rest of \<^verbatim>\<open>orchestrator.py\<close>, \<^verbatim>\<open>autonomous_loop.py\<close> and \<^verbatim>\<open>tool_runtime.py\<close> (asynchronous control
  flow over the components above, streaming of progress, prompts); planners and providers that talk to model services; the code generation
  service and its heuristics on source texts; the firmware tools (PlatformIO, serial ports, simulators, subprocesses), whose behaviour
  is that of programs outside the repository; HTTP routes and serialization; memory and context assembly, whose result is a prompt;
  settings, logs and metrics; the desktop shell and the user interface, which are TypeScript. The manifest lists each with its reason.
\<close>

end
